(* ===== verification/Sipp_Prelude.thy ===== *)
theory Sipp_Prelude
  imports Main "HOL-Library.Word" "HOL-Library.Multiset"
begin

text \<open>
  Shared vocabulary of the development: how a C++ operation of SIPp fails, how results are
  chained, and the generic lemmas on lists and sorting that several components use.
\<close>

section \<open>Failures of the C++ code\<close>

text \<open>
  \<open>AssertFailed\<close> is a failed \<^verbatim>\<open>assert\<close>; \<open>ERROR m\<close> is a call of SIPp's \<^verbatim>\<open>ERROR\<close>, which prints
  its message and ends the program; \<open>Undefined\<close> is an access the language gives no meaning to
  (the front of an empty list, an invalid iterator, a null pointer).
\<close>

datatype cpp_error = AssertFailed | ERROR string | Undefined

type_synonym 'a res = "cpp_error + 'a"

text \<open>Sequencing: the rest runs on the result, and not at all after a failure.\<close>

fun bindE :: "'a res \<Rightarrow> ('a \<Rightarrow> 'b res) \<Rightarrow> 'b res" where
  "bindE (Inl e) f = Inl e"
| "bindE (Inr x) f = f x"

lemma bindE_eq_Inr [simp]: "bindE r f = Inr y \<longleftrightarrow> (\<exists>x. r = Inr x \<and> f x = Inr y)"
  by (cases r) auto

lemma bindE_assoc: "bindE (bindE r f) g = bindE r (\<lambda>x. bindE (f x) g)"
  by (cases r) auto

lemma bindE_cong_Inr: "r = Inr x \<Longrightarrow> bindE r f = f x"
  by simp

text \<open>A run that is evaluated to its end.\<close>

lemma result_ok: "case r of Inl e \<Rightarrow> False | Inr x \<Rightarrow> P x \<Longrightarrow> \<exists>x. r = Inr x \<and> P x"
  by (cases r) auto

text \<open>The facts that an operation keeps the invariant of its component.\<close>

named_theorems keeps

section \<open>Lists\<close>

lemma filter_snoc [simp]: "filter p (xs @ [x]) = filter p xs @ (if p x then [x] else [])"
  by simp

lemma filter_none: "(\<And>x. x \<in> set xs \<Longrightarrow> \<not> p x) \<Longrightarrow> filter p xs = []"
  by (simp add: filter_empty_conv)

lemma filter_all: "(\<And>x. x \<in> set xs \<Longrightarrow> p x) \<Longrightarrow> filter p xs = xs"
  by (simp add: filter_id_conv)

lemma remove1_filter: "remove1 x (filter p xs) = filter p (remove1 x xs)"
  by (induction xs) auto

lemma remove1_as_filter: "distinct xs \<Longrightarrow> remove1 x xs = filter (\<lambda>y. y \<noteq> x) xs"
  by (induction xs) (auto intro!: filter_all [symmetric])

section \<open>Stable sorting by a key, one key at a time\<close>

lemma sort_key_split_max:
  fixes f :: "'a \<Rightarrow> nat"
  shows "sort_key f (filter (\<lambda>x. p x \<and> f x < Suc n) xs) =
    sort_key f (filter (\<lambda>x. p x \<and> f x < n) xs) @ filter (\<lambda>x. p x \<and> f x = n) xs"
proof (rule properties_for_sort_key)
  let ?lo = "sort_key f (filter (\<lambda>x. p x \<and> f x < n) xs)"
  let ?eq = "filter (\<lambda>x. p x \<and> f x = n) xs"
  let ?all = "filter (\<lambda>x. p x \<and> f x < Suc n) xs"
  show "mset (?lo @ ?eq) = mset ?all"
    by (induction xs) auto
  have "sorted (map f ?eq)" by (induction xs) auto
  then show "sorted (map f (?lo @ ?eq))"
    by (auto simp: sorted_append)
  show "filter (\<lambda>x. f k = f x) (?lo @ ?eq) = filter (\<lambda>x. f k = f x) ?all" for k
  proof -
    have flip: "(\<lambda>x. f k = f x) = (\<lambda>x. f x = f k)" by auto
    have "filter (\<lambda>x. f x = f k) ?lo = filter (\<lambda>x. f x = f k) (filter (\<lambda>x. p x \<and> f x < n) xs)"
      by (rule sort_key_stable)
    then show ?thesis unfolding flip
      by (cases "f k < n"; cases "f k = n") (auto intro!: filter_cong filter_none)
  qed
qed

lemma sort_key_upto:
  fixes f :: "'a \<Rightarrow> nat"
  shows "m \<le> n \<Longrightarrow> sort_key f (filter (\<lambda>x. p x \<and> m \<le> f x \<and> f x < n) xs) =
    concat (map (\<lambda>k. filter (\<lambda>x. p x \<and> f x = k) xs) [m..<n])"
proof (induction n)
  case 0
  then show ?case by simp
next
  case (Suc n)
  show ?case
  proof (cases "m = Suc n")
    case True
    then have "filter (\<lambda>x. p x \<and> m \<le> f x \<and> f x < Suc n) xs = []"
      by (auto intro: filter_none)
    with True show ?thesis by simp
  next
    case False
    with Suc have le: "m \<le> n" and IH: "sort_key f (filter (\<lambda>x. p x \<and> m \<le> f x \<and> f x < n) xs) =
      concat (map (\<lambda>k. filter (\<lambda>x. p x \<and> f x = k) xs) [m..<n])" by auto
    have "filter (\<lambda>x. (p x \<and> m \<le> f x) \<and> f x = n) xs = filter (\<lambda>x. p x \<and> f x = n) xs"
      using le by (auto intro: filter_cong)
    with sort_key_split_max [of f "\<lambda>x. p x \<and> m \<le> f x" n xs] IH le show ?thesis
      by (simp add: conj_assoc)
  qed
qed


section \<open>Forward simulation of a run of operations\<close>

fun run_res :: "('o \<Rightarrow> 's \<Rightarrow> 's res) \<Rightarrow> 'o list \<Rightarrow> 's \<Rightarrow> 's res" where
  "run_res step [] s = Inr s"
| "run_res step (x # xs) s = bindE (step x s) (run_res step xs)"

lemma run_res_append: "run_res step (xs @ ys) s = bindE (run_res step xs s) (run_res step ys)"
proof (induction xs arbitrary: s)
  case (Cons x xs)
  then show ?case by (cases "step x s") auto
qed simp

fun legal_run :: "('o \<Rightarrow> 'a \<Rightarrow> bool) \<Rightarrow> ('o \<Rightarrow> 'a \<Rightarrow> 'a) \<Rightarrow> 'o list \<Rightarrow> 'a \<Rightarrow> bool" where
  "legal_run ok step [] a = True"
| "legal_run ok step (x # xs) a = (ok x a \<and> legal_run ok step xs (step x a))"

text \<open>
  A component with a specification: concrete steps that may fail, abstract steps that do not,
  the operations a client may call in an abstract state, and a relation between the two kinds of
  state. Each legal operation succeeds and keeps the relation; so does a run of them.
\<close>

locale simulation =
  fixes cstep :: "'o \<Rightarrow> 's \<Rightarrow> 's res"
    and astep :: "'o \<Rightarrow> 'a \<Rightarrow> 'a"
    and ok :: "'o \<Rightarrow> 'a \<Rightarrow> bool"
    and rel :: "'a \<Rightarrow> 's \<Rightarrow> bool"
  assumes step_sim: "rel a s \<Longrightarrow> ok x a \<Longrightarrow> \<exists>s'. cstep x s = Inr s' \<and> rel (astep x a) s'"
begin

lemma run_sim:
  "rel a s \<Longrightarrow> legal_run ok astep xs a \<Longrightarrow> \<exists>s'. run_res cstep xs s = Inr s' \<and> rel (fold astep xs a) s'"
proof (induction xs arbitrary: a s)
  case Nil
  then show ?case by simp
next
  case (Cons x xs)
  from step_sim [of a s x] Cons.prems obtain s1 where "cstep x s = Inr s1" "rel (astep x a) s1"
    by auto
  with Cons.IH [of "astep x a" s1] Cons.prems show ?case by auto
qed

text \<open>A property of every related abstract state holds after every legal run.\<close>

lemma run_invariant:
  assumes "rel a s" and "legal_run ok astep xs a" and "\<And>a s. rel a s \<Longrightarrow> good s"
  shows "\<exists>s'. run_res cstep xs s = Inr s' \<and> good s'"
  using run_sim [OF assms(1,2)] assms(3) by blast

end

section \<open>Invariants of a run of operations\<close>

text \<open>Operations that may fail, and a predicate that each of them keeps when it succeeds.\<close>

locale invariant =
  fixes step :: "'o \<Rightarrow> 's \<Rightarrow> 's res"
    and good :: "'s \<Rightarrow> bool"
  assumes step_keeps: "good s \<Longrightarrow> step x s = Inr s' \<Longrightarrow> good s'"
begin

lemma run_keeps: "good s \<Longrightarrow> run_res step xs s = Inr s' \<Longrightarrow> good s'"
  by (induction xs arbitrary: s) (auto dest: step_keeps)

end

end
