(* ===== verification/Task_Scheduler.thy ===== *)
theory Task_Scheduler
  imports Sipp_Prelude
begin

text \<open>
  The scheduler of \<^verbatim>\<open>task.cpp\<close>: the list of all tasks, the run queue with its mark between the
  tasks that have run and the new ones, and the three-level time wheel of paused tasks.

  A task is a value of a type \<open>'t\<close> (its address). A \<^verbatim>\<open>task_list *\<close> is a \<open>list_ref\<close>, and the field
  \<open>wheel\<close> is the store of all these lists, so that pointers to the lists (\<^verbatim>\<open>pauselist\<close>) and the
  lists themselves are told apart. An iterator is the task of its node, \<open>None\<close> for \<^verbatim>\<open>end()\<close>: a
  task occurs at most once in a list. The virtual \<^verbatim>\<open>wake()\<close> is the argument \<open>wk\<close> of the operations
  that call it; it returns an \<^verbatim>\<open>unsigned int\<close>, a \<^typ>\<open>32 word\<close>. \<^verbatim>\<open>wheel_base\<close> and \<^verbatim>\<open>clock_tick\<close>
  are 64 bit; the first only grows up to the second, so they are natural numbers.
\<close>

definition LEVEL_ONE_SLOTS :: nat where [simp]: "LEVEL_ONE_SLOTS = 4096"
definition LEVEL_TWO_SLOTS :: nat where [simp]: "LEVEL_TWO_SLOTS = 1024"
definition LEVEL_THREE_SLOTS :: nat where [simp]: "LEVEL_THREE_SLOTS = 1024"

datatype list_ref = Forever_list | Wheel_one nat | Wheel_two nat | Wheel_three nat

record 't sched =
  clock_tick :: nat
  all_tasks :: "'t list"
  running_tasks :: "'t list"
  first_new :: "'t option"
  running :: "'t \<Rightarrow> bool"
  pauselist :: "'t \<Rightarrow> list_ref option"
  wheel :: "list_ref \<Rightarrow> 't list"
  wheel_count :: int
  wheel_base :: nat

type_synonym 't waker = "'t \<Rightarrow> 32 word"

section \<open>The run queue\<close>

text \<open>\<^verbatim>\<open>std::list::insert\<close> before an iterator, and the iterator after one.\<close>

fun insert_before :: "'t option \<Rightarrow> 't \<Rightarrow> 't list \<Rightarrow> 't list" where
  "insert_before None t xs = xs @ [t]"
| "insert_before (Some u) t xs = takeWhile (\<lambda>x. x \<noteq> u) xs @ t # dropWhile (\<lambda>x. x \<noteq> u) xs"

definition next_of :: "'t \<Rightarrow> 't list \<Rightarrow> 't option" where
  "next_of u xs = (case dropWhile (\<lambda>x. x \<noteq> u) xs of _ # y # _ \<Rightarrow> Some y | _ \<Rightarrow> None)"

definition add_to_runqueue :: "'t \<Rightarrow> 't sched \<Rightarrow> 't sched" where
  "add_to_runqueue t s = s\<lparr>running_tasks := insert_before (first_new s) t (running_tasks s),
                           running := (running s)(t := True)\<rparr>"

definition remove_from_runqueue :: "'t \<Rightarrow> 't sched \<Rightarrow> bool \<times> 't sched" where
  "remove_from_runqueue t s =
     (if \<not> running s t then (False, s)
      else (True, s\<lparr>first_new := (if first_new s = Some t then next_of t (running_tasks s)
                                  else first_new s),
                    running_tasks := remove1 t (running_tasks s),
                    running := (running s)(t := False)\<rparr>))"

section \<open>The time wheel\<close>

text \<open>\<^verbatim>\<open>timewheel::task2list\<close>: the list for a task that wakes up at \<open>wake\<close>.\<close>

definition task2list :: "'t sched \<Rightarrow> 32 word \<Rightarrow> list_ref res" where
  "task2list s wake =
     (if wake = 0 then Inr Forever_list
      else if unat wake < wheel_base s then Inl AssertFailed
      else if wheel_base s > clock_tick s then
        Inl (ERROR ''expected wheel_base to be less than or equal to clock_tick'')
      else
        let window = wheel_base s div LEVEL_ONE_SLOTS;
            wake_window = unat wake div LEVEL_ONE_SLOTS;
            slot_in_first_wheel = unat wake mod (2 * LEVEL_ONE_SLOTS);
            slot_in_second_wheel = wake_window mod LEVEL_TWO_SLOTS;
            slot_in_third_wheel = wake_window div LEVEL_TWO_SLOTS;
            fits_in_first_wheel = (wake_window = window);
            fits_in_second_wheel =
              (wake_window div LEVEL_TWO_SLOTS = (window + 1) div LEVEL_TWO_SLOTS);
            fits_in_third_wheel = (slot_in_third_wheel < LEVEL_THREE_SLOTS)
        in if fits_in_first_wheel then Inr (Wheel_one slot_in_first_wheel)
           else if fits_in_second_wheel then Inr (Wheel_two slot_in_second_wheel)
           else if fits_in_third_wheel then Inr (Wheel_three slot_in_third_wheel)
           else Inl (ERROR ''Attempted to schedule a task too far in the future''))"

definition remove_paused_task :: "'t \<Rightarrow> 't sched \<Rightarrow> 't sched res" where
  "remove_paused_task t s =
     (case pauselist s t of
        None \<Rightarrow> Inl Undefined
      | Some l \<Rightarrow>
          if t \<in> set (wheel s l)
          then Inr (s\<lparr>wheel := (wheel s)(l := remove1 t (wheel s l)), wheel_count := wheel_count s - 1\<rparr>)
          else Inl Undefined)"

definition add_paused_task :: "'t waker \<Rightarrow> 't \<Rightarrow> 't sched \<Rightarrow> 't sched res" where
  "add_paused_task wk t s =
     (let wake = wk t
      in if wake \<noteq> 0 \<and> unat wake < wheel_base s then Inr (add_to_runqueue t s)
         else bindE (task2list s wake) (\<lambda>l.
           Inr (s\<lparr>wheel := (wheel s)(l := wheel s l @ [t]),
                  pauselist := (pauselist s)(t := Some l),
                  wheel_count := wheel_count s + 1\<rparr>)))"

text \<open>
  \<^verbatim>\<open>timewheel::relocate\<close>: the node is spliced from the list it is in to the end of the list for
  its wake time, the first wheel for the next window.
\<close>

definition splice_to :: "'t \<Rightarrow> list_ref \<Rightarrow> 't sched \<Rightarrow> 't sched res" where
  "splice_to t l s =
     (case pauselist s t of
        None \<Rightarrow> Inl Undefined
      | Some l0 \<Rightarrow>
          if t \<in> set (wheel s l0) then
            let w1 = (wheel s)(l0 := remove1 t (wheel s l0))
            in Inr (s\<lparr>wheel := w1(l := w1 l @ [t]), pauselist := (pauselist s)(t := Some l)\<rparr>)
          else Inl Undefined)"

definition relocate :: "'t waker \<Rightarrow> 't \<Rightarrow> 't sched \<Rightarrow> 't sched res" where
  "relocate wk t s =
     (let wake = wk t
      in if wake \<noteq> 0 \<and> unat wake < wheel_base s then
           bindE (remove_paused_task t s) (\<lambda>s'. Inr (add_to_runqueue t s'))
         else
           bindE (if unat wake div LEVEL_ONE_SLOTS = wheel_base s div LEVEL_ONE_SLOTS + 1
                  then Inr (Wheel_one (unat wake mod (2 * LEVEL_ONE_SLOTS)))
                  else task2list s wake)
             (\<lambda>l. splice_to t l s))"

text \<open>The loops \<^verbatim>\<open>for (size_t n = \<dots>; n; n--) relocate(list.front())\<close>.\<close>

fun relocate_front :: "'t waker \<Rightarrow> list_ref \<Rightarrow> nat \<Rightarrow> 't sched \<Rightarrow> 't sched res" where
  "relocate_front wk l 0 s = Inr s"
| "relocate_front wk l (Suc n) s =
     (case wheel s l of
        [] \<Rightarrow> Inl Undefined
      | t # _ \<Rightarrow> bindE (relocate wk t s) (relocate_front wk l n))"

text \<open>One turn of the \<^verbatim>\<open>while\<close> loop of \<^verbatim>\<open>timewheel::expire_paused_tasks\<close>, in its three parts.\<close>

definition move_third_wheel :: "'t waker \<Rightarrow> 't sched \<Rightarrow> 't sched res" where
  "move_third_wheel wk s =
     (let window = wheel_base s div LEVEL_ONE_SLOTS;
          ms_left = LEVEL_ONE_SLOTS - wheel_base s mod LEVEL_ONE_SLOTS;
          later = Wheel_three (((window + 1) div LEVEL_TWO_SLOTS) mod LEVEL_THREE_SLOTS)
      in if ms_left = LEVEL_ONE_SLOTS \<and> (window + 1) mod LEVEL_TWO_SLOTS = 0
         then relocate_front wk later (length (wheel s later)) s
         else Inr s)"

definition move_next_window :: "'t waker \<Rightarrow> 't sched \<Rightarrow> 't sched res" where
  "move_next_window wk s =
     (let window = wheel_base s div LEVEL_ONE_SLOTS;
          ms_left = LEVEL_ONE_SLOTS - wheel_base s mod LEVEL_ONE_SLOTS;
          next = Wheel_two ((window + 1) mod LEVEL_TWO_SLOTS)
      in relocate_front wk next ((length (wheel s next) + ms_left - 1) div ms_left) s)"

definition run_due_slot :: "'t sched \<Rightarrow> 't sched" where
  "run_due_slot s =
     (let due = Wheel_one (wheel_base s mod (2 * LEVEL_ONE_SLOTS));
          s' = foldl (\<lambda>s t. (add_to_runqueue t s)\<lparr>wheel_count := wheel_count s - 1\<rparr>) s (wheel s due)
      in s'\<lparr>wheel := (wheel s')(due := []), wheel_base := wheel_base s' + 1\<rparr>)"

definition expire_step :: "'t waker \<Rightarrow> int \<times> 't sched \<Rightarrow> (int \<times> 't sched) res" where
  "expire_step wk fs = (case fs of (found, s) \<Rightarrow>
     bindE (move_third_wheel wk s) (\<lambda>s1.
     bindE (move_next_window wk s1) (\<lambda>s2.
       Inr (found + int (length (wheel s2 (Wheel_one (wheel_base s2 mod (2 * LEVEL_ONE_SLOTS))))),
            run_due_slot s2))))"

subsection \<open>What the steps leave alone\<close>

text \<open>
  No step changes the clock, and only the end of a turn moves \<^verbatim>\<open>wheel_base\<close>, by one: the
  \<^verbatim>\<open>while\<close> loop below therefore ends.
\<close>

lemma add_to_runqueue_frame [simp]:
  "clock_tick (add_to_runqueue t s) = clock_tick s"
  "wheel_base (add_to_runqueue t s) = wheel_base s"
  "wheel (add_to_runqueue t s) = wheel s"
  "pauselist (add_to_runqueue t s) = pauselist s"
  "wheel_count (add_to_runqueue t s) = wheel_count s"
  "all_tasks (add_to_runqueue t s) = all_tasks s"
  "first_new (add_to_runqueue t s) = first_new s"
  by (simp_all add: add_to_runqueue_def)

lemma remove_paused_task_clock:
  "remove_paused_task t s = Inr s' \<Longrightarrow> clock_tick s' = clock_tick s \<and> wheel_base s' = wheel_base s"
  by (auto simp: remove_paused_task_def split: if_splits option.splits)

lemma splice_to_clock:
  "splice_to t l s = Inr s' \<Longrightarrow> clock_tick s' = clock_tick s \<and> wheel_base s' = wheel_base s"
  by (auto simp: splice_to_def Let_def split: if_splits option.splits)

lemma relocate_clock:
  assumes "relocate wk t s = Inr s'"
  shows "clock_tick s' = clock_tick s \<and> wheel_base s' = wheel_base s"
proof (cases "wk t \<noteq> 0 \<and> unat (wk t) < wheel_base s")
  case True
  with assms obtain s1 where "remove_paused_task t s = Inr s1" and "s' = add_to_runqueue t s1"
    by (auto simp: relocate_def Let_def)
  then show ?thesis using remove_paused_task_clock [of t s s1] by simp
next
  case False
  then have "relocate wk t s = bindE (if unat (wk t) div LEVEL_ONE_SLOTS = wheel_base s div LEVEL_ONE_SLOTS + 1
    then Inr (Wheel_one (unat (wk t) mod (2 * LEVEL_ONE_SLOTS))) else task2list s (wk t)) (\<lambda>l. splice_to t l s)"
    by (simp only: relocate_def Let_def if_False)
  with assms obtain l where "splice_to t l s = Inr s'"
    by (auto simp del: LEVEL_ONE_SLOTS_def)
  then show ?thesis by (rule splice_to_clock)
qed

lemma relocate_front_clock:
  "relocate_front wk l n s = Inr s' \<Longrightarrow> clock_tick s' = clock_tick s \<and> wheel_base s' = wheel_base s"
proof (induction n arbitrary: s)
  case 0
  then show ?case by simp
next
  case (Suc n)
  then show ?case by (auto split: list.splits dest!: relocate_clock)
qed

lemma run_due_slot_clock:
  "clock_tick (run_due_slot s) = clock_tick s \<and> wheel_base (run_due_slot s) = wheel_base s + 1"
proof -
  let ?f = "\<lambda>s t. (add_to_runqueue t s)\<lparr>wheel_count := wheel_count s - 1\<rparr>"
  have "clock_tick (foldl ?f s ts) = clock_tick s \<and> wheel_base (foldl ?f s ts) = wheel_base s" for ts
    by (induction ts arbitrary: s) auto
  then show ?thesis by (simp add: run_due_slot_def Let_def)
qed

lemma expire_step_clock:
  assumes "expire_step wk (found, s) = Inr (found', s')"
  shows "clock_tick s' = clock_tick s \<and> wheel_base s' = wheel_base s + 1"
  using assms
  by (auto simp: expire_step_def move_third_wheel_def move_next_window_def Let_def run_due_slot_clock
      split: if_splits dest!: relocate_front_clock)

function expire_loop :: "'t waker \<Rightarrow> int \<times> 't sched \<Rightarrow> (int \<times> 't sched) res" where
  "expire_loop wk (found, s) =
     (if wheel_base s < clock_tick s then
        case expire_step wk (found, s) of Inl e \<Rightarrow> Inl e | Inr fs' \<Rightarrow> expire_loop wk fs'
      else Inr (found, s))"
  by pat_completeness auto
termination
  by (relation "measure (\<lambda>(wk, found, s). clock_tick s - wheel_base s)")
    (auto dest!: expire_step_clock)

definition expire_paused_tasks :: "'t waker \<Rightarrow> 't sched \<Rightarrow> (int \<times> 't sched) res" where
  "expire_paused_tasks wk s = expire_loop wk (0, s)"

section \<open>Tasks\<close>

text \<open>The constructor and destructor of a task, and how it goes to sleep and wakes up.\<close>

definition new_task :: "'t \<Rightarrow> 't sched \<Rightarrow> 't sched" where
  "new_task t s = s\<lparr>all_tasks := all_tasks s @ [t],
                    running_tasks := running_tasks s @ [t],
                    running := (running s)(t := True),
                    first_new := (if first_new s = None then Some t else first_new s)\<rparr>"

definition delete_task :: "'t \<Rightarrow> 't sched \<Rightarrow> 't sched res" where
  "delete_task t s =
     bindE (if running s t then Inr (snd (remove_from_runqueue t s)) else remove_paused_task t s)
       (\<lambda>s'. Inr (s'\<lparr>all_tasks := remove1 t (all_tasks s')\<rparr>))"

definition setRunning :: "'t \<Rightarrow> 't sched \<Rightarrow> 't sched res" where
  "setRunning t s =
     (if running s t then Inr s
      else bindE (remove_paused_task t s) (\<lambda>s'. Inr (add_to_runqueue t s')))"

definition setPaused :: "'t waker \<Rightarrow> 't \<Rightarrow> 't sched \<Rightarrow> 't sched res" where
  "setPaused wk t s =
     bindE (if running s t
            then (case remove_from_runqueue t s of (ok, s') \<Rightarrow> if ok then Inr s' else Inl AssertFailed)
            else remove_paused_task t s)
       (\<lambda>s'. if running s' t then Inl AssertFailed else add_paused_task wk t s')"

text \<open>\<^verbatim>\<open>abort_all_tasks\<close> with \<^verbatim>\<open>task::abort\<close>, which deletes the task.\<close>

fun abort_tasks :: "nat \<Rightarrow> 't sched \<Rightarrow> 't sched res" where
  "abort_tasks n s =
     (case all_tasks s of
        [] \<Rightarrow> Inr s
      | t # _ \<Rightarrow> (case n of 0 \<Rightarrow> Inl Undefined | Suc m \<Rightarrow> bindE (delete_task t s) (abort_tasks m)))"

definition abort_all_tasks :: "'t sched \<Rightarrow> 't sched res" where
  "abort_all_tasks s = abort_tasks (length (all_tasks s)) s"

text \<open>The state before the first task, at a given clock.\<close>

definition init_sched :: "nat \<Rightarrow> 't sched" where
  "init_sched now = \<lparr>clock_tick = now, all_tasks = [], running_tasks = [], first_new = None,
     running = (\<lambda>_. False), pauselist = (\<lambda>_. None), wheel = (\<lambda>_. []), wheel_count = 0,
     wheel_base = now\<rparr>"

end
