(* ===== verification/Timewheel_Order.thy ===== *)
theory Timewheel_Order
  imports Task_Scheduler
begin

text \<open>
  The time wheel against its specification: the list \<open>P\<close> of the paused tasks in the order in
  which tasks of the same wake time are to run. \<open>wheel_rel wk P s\<close> relates the two; the lemmas
  show how each step of the wheel moves \<open>P\<close>.
\<close>

section \<open>Where a task may wait\<close>

text \<open>
  As the last window before a \<open>2^22\<close> ms boundary starts, the tasks after the boundary are about to
  leave the third wheel.
\<close>

definition before_move :: "nat \<Rightarrow> bool" where
  "before_move b \<longleftrightarrow> b mod 4096 = 0 \<and> (b div 4096 + 1) mod 1024 = 0"

text \<open>\<open>fits b l w\<close>: with the base at \<open>b\<close>, a task in the list \<open>l\<close> may wake at \<open>w\<close>.\<close>

fun fits :: "nat \<Rightarrow> list_ref \<Rightarrow> nat \<Rightarrow> bool" where
  "fits b Forever_list w = (w = 0)"
| "fits b (Wheel_one i) w = (0 < w \<and> b \<le> w \<and> w div 4096 \<le> b div 4096 + 1 \<and> i = w mod 8192)"
| "fits b (Wheel_two j) w =
     (0 < w \<and> b div 4096 < w div 4096 \<and> w div 4194304 = (b div 4096 + 1) div 1024 \<and>
      j = (w div 4096) mod 1024)"
| "fits b (Wheel_three k) w =
     (0 < w \<and> k = w div 4194304 \<and>
      ((b div 4096 + 1) div 1024 < k \<or> before_move b \<and> k = (b div 4096 + 1) div 1024))"

text \<open>The tasks that wake at \<open>w\<close>, in the order in which they will.\<close>

abbreviation wakes :: "'t waker \<Rightarrow> nat \<Rightarrow> 't list \<Rightarrow> 't list" where
  "wakes wk w ts \<equiv> filter (\<lambda>t. unat (wk t) = w) ts"

definition later_queue :: "'t waker \<Rightarrow> nat \<Rightarrow> (list_ref \<Rightarrow> 't list) \<Rightarrow> nat \<Rightarrow> 't list" where
  "later_queue wk b wh w =
     (let two = wakes wk w (wh (Wheel_two ((w div 4096) mod 1024)));
          three = wakes wk w (wh (Wheel_three (w div 4194304)))
      in if before_move b \<and> w div 4096 = b div 4096 + 1 then three @ two else two @ three)"

definition queue :: "'t waker \<Rightarrow> nat \<Rightarrow> (list_ref \<Rightarrow> 't list) \<Rightarrow> nat \<Rightarrow> 't list" where
  "queue wk b wh w = wakes wk w (wh (Wheel_one (w mod 8192))) @ later_queue wk b wh w"

definition wheel_rel :: "'t waker \<Rightarrow> 't list \<Rightarrow> 't sched \<Rightarrow> bool" where
  "wheel_rel wk P s \<longleftrightarrow>
     distinct P \<and>
     wheel_base s \<le> clock_tick s \<and>
     wheel_count s = int (length P) \<and>
     (\<forall>l. \<forall>t\<in>set (wheel s l). fits (wheel_base s) l (unat (wk t)) \<and> pauselist s t = Some l) \<and>
     wheel s Forever_list = wakes wk 0 P \<and>
     (\<forall>t\<in>set P. wk t \<noteq> 0 \<longrightarrow> wheel_base s \<le> unat (wk t)) \<and>
     (\<forall>w>0. queue wk (wheel_base s) (wheel s) w = wakes wk w P)"

lemma wheel_relD:
  assumes "wheel_rel wk P s"
  shows wheel_rel_distinct: "distinct P"
    and wheel_rel_base: "wheel_base s \<le> clock_tick s"
    and wheel_rel_count: "wheel_count s = int (length P)"
    and wheel_rel_fits: "t \<in> set (wheel s l) \<Longrightarrow> fits (wheel_base s) l (unat (wk t))"
    and wheel_rel_pauselist: "t \<in> set (wheel s l) \<Longrightarrow> pauselist s t = Some l"
    and wheel_rel_forever: "wheel s Forever_list = wakes wk 0 P"
    and wheel_rel_later: "t \<in> set P \<Longrightarrow> wk t \<noteq> 0 \<Longrightarrow> wheel_base s \<le> unat (wk t)"
    and wheel_rel_queue: "0 < w \<Longrightarrow> queue wk (wheel_base s) (wheel s) w = wakes wk w P"
  using assms by (auto simp: wheel_rel_def)

lemma unat_32_bound: "unat (w :: 32 word) < 4294967296"
  using unsigned_less [of w] by simp

text \<open>Windows and blocks of windows.\<close>

lemma less_of_div: "b div n < w div n \<Longrightarrow> b < (w::nat)"
  by (meson div_le_mono leD leI)

lemma le_of_block:
  assumes "a mod n = 0" and "a div n \<le> c div n"
  shows "a \<le> (c::nat)"
proof -
  have "a = n * (a div n)" using assms(1) by auto
  also have "\<dots> \<le> n * (c div n)" using assms(2) by (rule mult_le_mono2)
  also have "\<dots> \<le> c" by simp
  finally show ?thesis .
qed

lemma eq_of_div_mod: "a div n = c div n \<Longrightarrow> a mod n = c mod n \<Longrightarrow> a = (c::nat)"
  by (metis div_mult_mod_eq)

lemma fits_queue:
  assumes "fits b l (unat (wk t))" and "t \<in> set (wh l)" and "wk t \<noteq> 0"
  shows "t \<in> set (queue wk b wh (unat (wk t)))"
  using assms by (cases l) (auto simp: queue_def later_queue_def Let_def unsigned_eq_0_iff)

lemma queue_cases:
  assumes "t \<in> set (queue wk b wh w)"
  obtains l where "t \<in> set (wh l)" and "unat (wk t) = w"
  using assms by (auto simp: queue_def later_queue_def Let_def split: if_splits)

text \<open>The relation says which tasks are in the wheel, and where.\<close>

lemma wheel_rel_set:
  assumes "wheel_rel wk P s"
  shows "t \<in> set P \<longleftrightarrow> (\<exists>l. t \<in> set (wheel s l))"
proof (cases "wk t = 0")
  case True
  have "l = Forever_list" if "t \<in> set (wheel s l)" for l
    using wheel_rel_fits [OF assms that] True by (cases l) auto
  then have "(\<exists>l. t \<in> set (wheel s l)) \<longleftrightarrow> t \<in> set (wheel s Forever_list)" by blast
  with True wheel_rel_forever [OF assms] show ?thesis by simp
next
  case False
  then have pos: "0 < unat (wk t)" by (simp add: unat_gt_0)
  have "t \<in> set P \<longleftrightarrow> t \<in> set (queue wk (wheel_base s) (wheel s) (unat (wk t)))"
    using wheel_rel_queue [OF assms pos] by auto
  with False show ?thesis
    by (metis fits_queue queue_cases wheel_rel_fits [OF assms])
qed


section \<open>Moving one task between lists\<close>

lemma div_div_22: "w div 4096 div 1024 = w div (4194304::nat)"
  by (simp add: div_mult2_eq [symmetric])

text \<open>
  The three moves of the wheel: out of the third wheel into the first or the second, and out of
  the second into the first. Each keeps the order in which the tasks of every time will wake.
\<close>

definition good_move :: "'t waker \<Rightarrow> nat \<Rightarrow> (list_ref \<Rightarrow> 't list) \<Rightarrow> nat \<Rightarrow> list_ref \<Rightarrow> list_ref \<Rightarrow> bool" where
  "good_move wk b wh w l0 l \<longleftrightarrow>
     (let one = Wheel_one (w mod 8192); two = Wheel_two ((w div 4096) mod 1024);
          three = Wheel_three (w div 4194304);
          swap = (before_move b \<and> w div 4096 = b div 4096 + 1)
      in l0 = three \<and> l = one \<and> swap \<or>
         l0 = three \<and> l = two \<and> \<not> swap \<or>
         l0 = two \<and> l = one \<and> (swap \<longrightarrow> wh three = []))"

lemma queue_move:
  assumes hd: "wh l0 = t # ts" and good: "good_move wk b wh (unat (wk t)) l0 l"
  shows "queue wk b (wh(l0 := ts, l := wh l @ [t])) w = queue wk b wh w"
proof (cases "w = unat (wk t)")
  case True
  from good consider
      "l0 = Wheel_three (w div 4194304)" "l = Wheel_one (w mod 8192)"
      "before_move b \<and> w div 4096 = b div 4096 + 1"
    | "l0 = Wheel_three (w div 4194304)" "l = Wheel_two (w div 4096 mod 1024)"
      "\<not> (before_move b \<and> w div 4096 = b div 4096 + 1)"
    | "l0 = Wheel_two (w div 4096 mod 1024)" "l = Wheel_one (w mod 8192)"
      "before_move b \<and> w div 4096 = b div 4096 + 1 \<longrightarrow> wh (Wheel_three (w div 4194304)) = []"
    unfolding good_move_def Let_def True [symmetric] by blast
  then show ?thesis
  proof cases
    case 1
    then show ?thesis using hd True by (simp add: queue_def later_queue_def)
  next
    case 2
    then have "later_queue wk b wh' w = wakes wk w (wh' (Wheel_two (w div 4096 mod 1024))) @
        wakes wk w (wh' (Wheel_three (w div 4194304)))" for wh'
      by (simp only: later_queue_def Let_def if_False)
    with 2 show ?thesis using hd True by (simp add: queue_def)
  next
    case 3
    then show ?thesis using hd True by (cases "before_move b \<and> w div 4096 = b div 4096 + 1")
      (simp_all only: queue_def later_queue_def Let_def if_True if_False, simp_all)
  qed
next
  case False
  then have "wakes wk w ((wh(l0 := ts, l := wh l @ [t])) x) = wakes wk w (wh x)" for x
    using hd good by (auto simp: good_move_def Let_def)
  then show ?thesis by (simp add: queue_def later_queue_def Let_def)
qed

text \<open>Only the lists and the pointers to them differ.\<close>

definition same_but_lists :: "'t sched \<Rightarrow> 't sched \<Rightarrow> bool" where
  "same_but_lists s s' \<longleftrightarrow> (\<exists>wh pl. s' = s\<lparr>wheel := wh, pauselist := pl\<rparr>)"

lemma same_but_lists_update [simp]: "same_but_lists s (s\<lparr>wheel := wh, pauselist := pl\<rparr>)"
  by (auto simp: same_but_lists_def)

lemma same_but_lists_refl [simp]: "same_but_lists s s"
  unfolding same_but_lists_def by (rule exI [of _ "wheel s"], rule exI [of _ "pauselist s"]) simp

lemma same_but_listsD:
  assumes "same_but_lists s s'"
  shows "wheel_base s' = wheel_base s" "clock_tick s' = clock_tick s" "first_new s' = first_new s"
    "running_tasks s' = running_tasks s" "running s' = running s" "all_tasks s' = all_tasks s"
    "wheel_count s' = wheel_count s"
  using assms by (auto simp: same_but_lists_def)

lemma same_but_lists_trans: "same_but_lists s s1 \<Longrightarrow> same_but_lists s1 s2 \<Longrightarrow> same_but_lists s s2"
  unfolding same_but_lists_def by force

lemma splice_front:
  assumes "pauselist s t = Some l0" and "wheel s l0 = t # ts" and "l \<noteq> l0"
  shows "splice_to t l s =
    Inr (s\<lparr>wheel := (wheel s)(l0 := ts, l := wheel s l @ [t]), pauselist := (pauselist s)(t := Some l)\<rparr>)"
  using assms by (auto simp: splice_to_def Let_def)

lemma wheel_rel_splice:
  assumes rel: "wheel_rel wk P s" and hd: "wheel s l0 = t # ts"
    and good: "good_move wk (wheel_base s) (wheel s) (unat (wk t)) l0 l"
    and fit: "fits (wheel_base s) l (unat (wk t))"
  shows "wheel_rel wk P (s\<lparr>wheel := (wheel s)(l0 := ts, l := wheel s l @ [t]),
                          pauselist := (pauselist s)(t := Some l)\<rparr>)"
proof -
  let ?wh = "(wheel s)(l0 := ts, l := wheel s l @ [t])"
  have ne: "l \<noteq> l0" and nf: "l0 \<noteq> Forever_list" "l \<noteq> Forever_list"
    using good by (auto simp: good_move_def Let_def)
  have tP: "t \<in> set P" using wheel_rel_set [OF rel, of t] hd by (metis list.set_intros(1))
  have t0: "wk t \<noteq> 0" using wheel_rel_fits [OF rel, of t l0] hd nf by (cases l0) auto
  have "t \<notin> set ts"
  proof
    assume "t \<in> set ts"
    then have "\<not> distinct (queue wk (wheel_base s) (wheel s) (unat (wk t)))"
      using hd good by (auto simp: queue_def later_queue_def good_move_def Let_def)
    moreover have "distinct (queue wk (wheel_base s) (wheel s) (unat (wk t)))"
      using wheel_rel_queue [OF rel] wheel_rel_distinct [OF rel] t0 by (simp add: unat_gt_0)
    ultimately show False by simp
  qed
  moreover have "t \<notin> set (wheel s l1)" if "l1 \<noteq> l0" for l1
    using wheel_rel_pauselist [OF rel, of t] hd that by (metis list.set_intros(1) option.inject)
  ultimately have "\<forall>x. \<forall>u\<in>set (?wh x). fits (wheel_base s) x (unat (wk u)) \<and>
      ((pauselist s)(t := Some l)) u = Some x"
    using fit ne hd wheel_rel_fits [OF rel] wheel_rel_pauselist [OF rel]
    by (auto split: if_splits)
  moreover have "\<forall>w>0. queue wk (wheel_base s) ?wh w = wakes wk w P"
    using queue_move [of "wheel s", OF hd good] wheel_rel_queue [OF rel] by simp
  ultimately show ?thesis
    using rel nf by (simp add: wheel_rel_def)
qed

section \<open>The loops over a list of the second and third wheel\<close>

lemma relocate_three:
  assumes rel: "wheel_rel wk P s" and hd: "wheel s (Wheel_three k) = t # ts"
    and bm: "before_move (wheel_base s)" and k: "k = (wheel_base s div 4096 + 1) div 1024"
  shows "\<exists>s'. relocate wk t s = Inr s' \<and> wheel_rel wk P s' \<and>
    wheel s' (Wheel_three k) = ts \<and> same_but_lists s s'"
proof -
  let ?b = "wheel_base s" let ?w = "unat (wk t)"
  have fit: "fits ?b (Wheel_three k) ?w" and pl: "pauselist s t = Some (Wheel_three k)"
    using wheel_rel_fits [OF rel, of t] wheel_rel_pauselist [OF rel, of t] hd by (metis list.set_intros(1))+
  from fit k have w: "0 < ?w" "?w div 4194304 = (?b div 4096 + 1) div 1024" by auto
  have "?b div 4096 + 1 \<le> ?w div 4096"
    by (rule le_of_block [where n = 1024]) (use bm w in \<open>simp_all add: before_move_def div_div_22\<close>)
  then have later: "?b div 4096 < ?w div 4096" by simp
  note less = less_of_div [OF this]
  define l where "l = (if ?w div 4096 = ?b div 4096 + 1 then Wheel_one (?w mod 8192)
                       else Wheel_two ((?w div 4096) mod 1024))"
  have good: "good_move wk ?b (wheel s) ?w (Wheel_three k) l"
    using bm w k by (auto simp: good_move_def l_def Let_def)
  have "fits ?b l ?w" using w later by (auto simp: l_def)
  note rel' = wheel_rel_splice [OF rel hd good this]
  have "task2list s (wk t) = Inr (Wheel_two ((?w div 4096) mod 1024))"
    using w later less wheel_rel_base [OF rel]
    by (auto simp: task2list_def Let_def div_div_22)
  then have "relocate wk t s = splice_to t l s"
    using less by (simp add: relocate_def l_def)
  with splice_front [OF pl hd, of l] rel' show ?thesis
    by (auto simp: l_def)
qed

lemma relocate_two:
  assumes rel: "wheel_rel wk P s" and hd: "wheel s (Wheel_two j) = t # ts"
    and j: "j = (wheel_base s div 4096 + 1) mod 1024"
    and moved: "before_move (wheel_base s) \<longrightarrow> wheel s (Wheel_three ((wheel_base s div 4096 + 1) div 1024)) = []"
  shows "\<exists>s'. relocate wk t s = Inr s' \<and> wheel_rel wk P s' \<and> wheel s' (Wheel_two j) = ts \<and>
    (\<forall>k. wheel s' (Wheel_three k) = wheel s (Wheel_three k)) \<and>
    same_but_lists s s'"
proof -
  let ?b = "wheel_base s" let ?w = "unat (wk t)"
  have fit: "fits ?b (Wheel_two j) ?w" and pl: "pauselist s t = Some (Wheel_two j)"
    using wheel_rel_fits [OF rel, of t] wheel_rel_pauselist [OF rel, of t] hd by (metis list.set_intros(1))+
  from fit j have w: "0 < ?w" "?b div 4096 < ?w div 4096" and
    eq: "?w div 4194304 = (?b div 4096 + 1) div 1024" "(?w div 4096) mod 1024 = (?b div 4096 + 1) mod 1024"
    by auto
  from eq have nxt: "?w div 4096 = ?b div 4096 + 1"
    unfolding div_div_22 [symmetric] by (rule eq_of_div_mod)
  note later = less_of_div [OF w(2)]
  let ?l = "Wheel_one (?w mod 8192)"
  have good: "good_move wk ?b (wheel s) ?w (Wheel_two j) ?l"
    using eq j moved by (auto simp: good_move_def Let_def)
  have "fits ?b ?l ?w" using w later nxt by simp
  note rel' = wheel_rel_splice [OF rel hd good this]
  have "relocate wk t s = splice_to t ?l s"
    using later nxt by (simp add: relocate_def)
  with splice_front [OF pl hd, of ?l] rel' show ?thesis
    by auto
qed


lemma relocate_front_three:
  assumes "wheel_rel wk P s" and "before_move (wheel_base s)" and "k = (wheel_base s div 4096 + 1) div 1024"
    and "n = length (wheel s (Wheel_three k))"
  shows "\<exists>s'. relocate_front wk (Wheel_three k) n s = Inr s' \<and> wheel_rel wk P s' \<and>
    wheel s' (Wheel_three k) = [] \<and> same_but_lists s s'"
  using assms
proof (induction n arbitrary: s)
  case 0
  then show ?case by simp
next
  case (Suc n)
  then obtain t ts where hd: "wheel s (Wheel_three k) = t # ts" by (metis length_Suc_conv)
  from relocate_three [OF Suc.prems(1) hd Suc.prems(2,3)] obtain s1
    where r: "relocate wk t s = Inr s1" "wheel_rel wk P s1" "wheel s1 (Wheel_three k) = ts"
      and same: "same_but_lists s s1" by blast
  from Suc.IH [OF r(2)] Suc.prems hd r(3) obtain s2
    where "relocate_front wk (Wheel_three k) n s1 = Inr s2" "wheel_rel wk P s2"
      "wheel s2 (Wheel_three k) = []" "same_but_lists s1 s2"
    by (auto simp: same_but_listsD [OF same])
  with hd r(1) same show ?case by (auto intro: same_but_lists_trans)
qed

lemma relocate_front_two:
  assumes "wheel_rel wk P s" and "j = (wheel_base s div 4096 + 1) mod 1024"
    and "before_move (wheel_base s) \<longrightarrow> wheel s (Wheel_three ((wheel_base s div 4096 + 1) div 1024)) = []"
    and "n \<le> length (wheel s (Wheel_two j))"
  shows "\<exists>s'. relocate_front wk (Wheel_two j) n s = Inr s' \<and> wheel_rel wk P s' \<and>
    wheel s' (Wheel_two j) = drop n (wheel s (Wheel_two j)) \<and>
    (\<forall>k. wheel s' (Wheel_three k) = wheel s (Wheel_three k)) \<and> same_but_lists s s'"
  using assms
proof (induction n arbitrary: s)
  case 0
  then show ?case by simp
next
  case (Suc n)
  then obtain t ts where hd: "wheel s (Wheel_two j) = t # ts" by (metis Suc_le_length_iff)
  from relocate_two [OF Suc.prems(1) hd Suc.prems(2,3)] obtain s1
    where r: "relocate wk t s = Inr s1" "wheel_rel wk P s1" "wheel s1 (Wheel_two j) = ts"
      "\<forall>k. wheel s1 (Wheel_three k) = wheel s (Wheel_three k)"
      and same: "same_but_lists s s1" by blast
  from Suc.IH [OF r(2)] Suc.prems hd r(3,4) obtain s2
    where "relocate_front wk (Wheel_two j) n s1 = Inr s2" "wheel_rel wk P s2"
      "wheel s2 (Wheel_two j) = drop n ts"
      "\<forall>k. wheel s2 (Wheel_three k) = wheel s1 (Wheel_three k)" "same_but_lists s1 s2"
    by (auto simp: same_but_listsD [OF same])
  with hd r(1,4) same show ?case by (auto intro: same_but_lists_trans)
qed

section \<open>One turn of the expiry loop\<close>

abbreviation block :: "nat \<Rightarrow> nat" where
  "block b \<equiv> (b div 4096 + 1) div 1024"

lemma wheel_three_empty:
  assumes rel: "wheel_rel wk P s" and k: "k < block (wheel_base s) \<or> 1024 \<le> k"
  shows "wheel s (Wheel_three k) = []"
proof (rule ccontr)
  assume "wheel s (Wheel_three k) \<noteq> []"
  then obtain t where t: "t \<in> set (wheel s (Wheel_three k))" by (meson last_in_set)
  from wheel_rel_fits [OF rel t] have "k = unat (wk t) div 4194304" "block (wheel_base s) \<le> k" by auto
  with k unat_32_bound [of "wk t"] show False by auto
qed

lemma move_third_wheel_rel:
  assumes rel: "wheel_rel wk P s"
  shows "\<exists>s'. move_third_wheel wk s = Inr s' \<and> wheel_rel wk P s' \<and> same_but_lists s s' \<and>
    (before_move (wheel_base s) \<longrightarrow> wheel s' (Wheel_three (block (wheel_base s))) = [])"
proof (cases "before_move (wheel_base s)")
  case False
  then have "move_third_wheel wk s = Inr s"
    by (auto simp: move_third_wheel_def before_move_def Let_def)
  with False rel show ?thesis by simp
next
  case True
  define k where "k = block (wheel_base s)"
  from True have m: "move_third_wheel wk s =
      relocate_front wk (Wheel_three (k mod 1024)) (length (wheel s (Wheel_three (k mod 1024)))) s"
    by (simp add: move_third_wheel_def before_move_def Let_def k_def)
  show ?thesis
  proof (cases "k < 1024")
    case k: True
    with relocate_front_three [OF rel True k_def refl] m True show ?thesis
      by (auto simp: k_def)
  next
    case False
    moreover have "k mod 1024 < 1024" by simp
    ultimately have "k mod 1024 < block (wheel_base s)" "1024 \<le> k"
      unfolding k_def [symmetric] by linarith+
    with wheel_three_empty [OF rel] have "wheel s (Wheel_three (k mod 1024)) = []"
      "wheel s (Wheel_three k) = []" by auto
    with m rel show ?thesis by (simp add: k_def)
  qed
qed

lemma share_le:
  assumes "0 < m"
  shows "(n + m - 1) div m \<le> (n::nat)"
proof (cases n)
  case 0
  then show ?thesis using assms by simp
next
  case (Suc k)
  have "k + m \<le> k * m + m" using assms by (cases m) auto
  then have "(k + m) div m \<le> (k * m + m) div m" by (rule div_le_mono)
  with Suc assms show ?thesis by simp
qed

lemma move_next_window_rel:
  assumes rel: "wheel_rel wk P s"
    and moved: "before_move (wheel_base s) \<longrightarrow> wheel s (Wheel_three (block (wheel_base s))) = []"
  shows "\<exists>s'. move_next_window wk s = Inr s' \<and> wheel_rel wk P s' \<and> same_but_lists s s' \<and>
    (before_move (wheel_base s) \<longrightarrow> wheel s' (Wheel_three (block (wheel_base s))) = []) \<and>
    (wheel_base s mod 4096 = 4095 \<longrightarrow> wheel s' (Wheel_two ((wheel_base s div 4096 + 1) mod 1024)) = [])"
proof -
  define j where "j = (wheel_base s div 4096 + 1) mod 1024"
  define ms where "ms = 4096 - wheel_base s mod 4096"
  define n where "n = (length (wheel s (Wheel_two j)) + ms - 1) div ms"
  have "0 < ms" by (simp add: ms_def)
  then have "n \<le> length (wheel s (Wheel_two j))" unfolding n_def by (rule share_le)
  from relocate_front_two [OF rel j_def moved this] obtain s'
    where s': "relocate_front wk (Wheel_two j) n s = Inr s'" "wheel_rel wk P s'"
      "wheel s' (Wheel_two j) = drop n (wheel s (Wheel_two j))"
      "\<forall>k. wheel s' (Wheel_three k) = wheel s (Wheel_three k)" "same_but_lists s s'" by blast
  have "move_next_window wk s = relocate_front wk (Wheel_two j) n s"
    by (simp add: move_next_window_def Let_def j_def n_def ms_def)
  moreover have "n = length (wheel s (Wheel_two j))" if "wheel_base s mod 4096 = 4095"
    using that by (simp add: n_def ms_def)
  ultimately show ?thesis using s' moved by (auto simp: j_def)
qed


subsection \<open>The slot that is due\<close>

lemma due_slot_exact:
  assumes "w mod 8192 = b mod 8192" and "b \<le> w" and "w div 4096 \<le> b div 4096 + 1"
  shows "w = (b::nat)"
proof (rule ccontr)
  assume "w \<noteq> b"
  from assms(1,2) have "8192 dvd w - b" by (metis mod_eq_dvd_iff_nat)
  with \<open>w \<noteq> b\<close> assms(2) have "b + 8192 \<le> w" by (auto dest!: dvd_imp_le)
  then have "(b + 8192) div 4096 \<le> w div 4096" by (rule div_le_mono)
  with assms(3) show False by simp
qed

lemma block_bounds: "b div 4194304 \<le> block b" "before_move b \<Longrightarrow> b div 4194304 < block b"
proof -
  show "b div 4194304 \<le> block b"
    unfolding div_div_22 [symmetric] by (rule div_le_mono) simp
  assume "before_move b"
  then have "(b div 4096 + 1) mod 1024 = 0" by (simp add: before_move_def)
  then show "b div 4194304 < block b"
    unfolding div_div_22 [symmetric] by (simp add: mod_Suc div_Suc)
qed

lemma fits_later: "fits b l b \<Longrightarrow> l = Forever_list \<or> l = Wheel_one (b mod 8192)"
  using block_bounds [of b] by (cases l) auto

lemma fits_due_slot: "fits b (Wheel_one (b mod 8192)) w \<Longrightarrow> w = b"
  using due_slot_exact [of w b] by auto

lemma due_slot:
  assumes rel: "wheel_rel wk P s"
  shows "wheel s (Wheel_one (wheel_base s mod 8192)) =
    filter (\<lambda>t. wk t \<noteq> 0 \<and> unat (wk t) = wheel_base s) P" (is "?due = ?D")
proof -
  let ?b = "wheel_base s"
  have at_b: "unat (wk t) = ?b" if "t \<in> set ?due" for t
    using fits_due_slot wheel_rel_fits [OF rel that] by blast
  show ?thesis
  proof (cases "?b = 0")
    case True
    then have "?D = []" by (auto simp: unsigned_eq_0_iff intro: filter_none)
    moreover have "?due = []"
    proof (rule ccontr)
      assume "?due \<noteq> []"
      then obtain t where t: "t \<in> set ?due" by (meson last_in_set)
      then show False using at_b [OF t] wheel_rel_fits [OF rel t] True by simp
    qed
    ultimately show ?thesis by simp
  next
    case False
    then have q: "queue wk ?b (wheel s) ?b = wakes wk ?b P" using wheel_rel_queue [OF rel] by simp
    have no: "wakes wk ?b (wheel s l) = []" if "l \<noteq> Forever_list" "l \<noteq> Wheel_one (?b mod 8192)" for l
      by (rule filter_none) (metis fits_later that wheel_rel_fits [OF rel])
    have "later_queue wk ?b (wheel s) ?b = []"
      by (simp add: later_queue_def Let_def no)
    moreover have "wakes wk ?b ?due = ?due" using at_b by (auto intro: filter_all)
    ultimately have "?due = wakes wk ?b P" using q by (simp add: queue_def)
    also have "\<dots> = ?D" using False by (auto intro: filter_cong)
    finally show ?thesis .
  qed
qed

lemma Suc_window:
  assumes "b mod 4096 = 4095"
  shows "Suc b mod 4096 = 0" and "Suc b div 4096 = b div 4096 + (1::nat)"
proof -
  show m: "Suc b mod 4096 = 0" unfolding mod_Suc using assms by simp
  show "Suc b div 4096 = b div 4096 + 1" unfolding div_Suc using m by simp
qed

lemma fits_Suc:
  assumes fit: "fits b l w" and one: "l \<noteq> Wheel_one (b mod 8192)"
    and three: "before_move b \<longrightarrow> l \<noteq> Wheel_three (block b)"
    and two: "b mod 4096 = 4095 \<longrightarrow> l \<noteq> Wheel_two ((b div 4096 + 1) mod 1024)"
  shows "fits (Suc b) l w"
proof (cases l)
  case Forever_list
  with fit show ?thesis by simp
next
  case (Wheel_one i)
  with fit one have "Suc b \<le> w" by (cases "w = b") auto
  moreover have "b div 4096 \<le> Suc b div 4096" by (rule div_le_mono) simp
  ultimately show ?thesis using fit Wheel_one by auto
next
  case (Wheel_two j)
  with fit have f: "0 < w" "b div 4096 < w div 4096" "w div 4096 div 1024 = (b div 4096 + 1) div 1024"
    "j = w div 4096 mod 1024" by (auto simp: div_div_22)
  show ?thesis
  proof (cases "b mod 4096 = 4095")
    case False
    then have "Suc b div 4096 = b div 4096" by (simp add: div_Suc mod_Suc)
    with Wheel_two f show ?thesis by (simp add: div_div_22)
  next
    case True
    with two Wheel_two f have "w div 4096 \<noteq> b div 4096 + 1" by auto
    with f(2) have less: "b div 4096 + 1 < w div 4096" by simp
    have same: "(b div 4096 + 2) div 1024 = (b div 4096 + 1) div 1024"
    proof (rule antisym)
      have "(b div 4096 + 2) div 1024 \<le> w div 4096 div 1024" using less by (intro div_le_mono) simp
      then show "(b div 4096 + 2) div 1024 \<le> (b div 4096 + 1) div 1024" using f by simp
    qed (rule div_le_mono, simp)
    show ?thesis using Suc_window(2) [OF True] Wheel_two f less same by (simp add: div_div_22)
  qed
next
  case (Wheel_three k)
  with fit three have k: "0 < w" "k = w div 4194304" "block b < k" by auto
  show ?thesis
  proof (cases "b mod 4096 = 4095")
    case False
    then have "Suc b div 4096 = b div 4096" by (simp add: div_Suc mod_Suc)
    with Wheel_three k show ?thesis by simp
  next
    case True
    note m = Suc_window(1) [OF True] and w = Suc_window(2) [OF True]
    show ?thesis
    proof (cases "(b div 4096 + 2) mod 1024 = 0")
      case True
      then have "(b div 4096 + 2) div 1024 = block b + 1" by (simp add: div_Suc)
      with True w m Wheel_three k show ?thesis by (auto simp: before_move_def)
    next
      case False
      then have "(b div 4096 + 2) div 1024 = block b" by (simp add: div_Suc)
      with w Wheel_three k show ?thesis by simp
    qed
  qed
qed


lemma wheel_rel_wakes_nil:
  assumes rel: "wheel_rel wk P s" and "\<not> fits (wheel_base s) l w"
  shows "wakes wk w (wheel s l) = []"
  using wheel_rel_fits [OF rel] assms(2) by (auto intro: filter_none)

lemma queue_Suc:
  assumes rel: "wheel_rel wk P s" and b: "wheel_base s = b"
    and three: "before_move b \<longrightarrow> wheel s (Wheel_three (block b)) = []"
    and two: "b mod 4096 = 4095 \<longrightarrow> wheel s (Wheel_two ((b div 4096 + 1) mod 1024)) = []"
    and "w \<noteq> b"
  shows "queue wk (Suc b) ((wheel s)(Wheel_one (b mod 8192) := [])) w = queue wk b (wheel s) w"
proof -
  let ?two = "wakes wk w (wheel s (Wheel_two ((w div 4096) mod 1024)))"
  let ?three = "wakes wk w (wheel s (Wheel_three (w div 4194304)))"
  have one: "wakes wk w (wheel s (Wheel_one (w mod 8192))) = []" if "w mod 8192 = b mod 8192"
    by (rule wheel_rel_wakes_nil [OF rel]) (metis fits_due_slot that \<open>w \<noteq> b\<close> b)
  have "?three = []" if "before_move b" "w div 4096 = b div 4096 + 1"
  proof -
    from that have "w div 4194304 = block b" by (simp flip: div_div_22)
    with three that show ?thesis by simp
  qed
  moreover have "?two = []" if bm: "before_move (Suc b)" and w: "w div 4096 = Suc b div 4096 + 1"
  proof -
    from bm have m: "Suc b mod 4096 = 0" "(Suc b div 4096 + 1) mod 1024 = 0" by (auto simp: before_move_def)
    then have "Suc b div 4096 = b div 4096 + 1" by (simp add: div_Suc)
    with m(2) w have "w div 4096 = b div 4096 + 2" "(b div 4096 + 2) div 1024 = block b + 1"
      by (simp_all add: div_Suc)
    then have "w div 4194304 \<noteq> block b" by (simp flip: div_div_22)
    then show ?thesis using wheel_rel_wakes_nil [OF rel] b by auto
  qed
  ultimately have "later_queue wk (Suc b) (wheel s) w = later_queue wk b (wheel s) w"
    by (auto simp: later_queue_def Let_def)
  with one show ?thesis by (auto simp: queue_def later_queue_def Let_def)
qed

lemma wheel_rel_Suc:
  assumes rel: "wheel_rel wk P s" and b: "wheel_base s = b" and lt: "b < clock_tick s"
    and three: "before_move b \<longrightarrow> wheel s (Wheel_three (block b)) = []"
    and two: "b mod 4096 = 4095 \<longrightarrow> wheel s (Wheel_two ((b div 4096 + 1) mod 1024)) = []"
    and s': "wheel s' = (wheel s)(Wheel_one (b mod 8192) := [])" "wheel_base s' = Suc b"
      "clock_tick s' = clock_tick s" "pauselist s' = pauselist s"
      "wheel_count s' = wheel_count s - int (length (filter (\<lambda>t. wk t \<noteq> 0 \<and> unat (wk t) = b) P))"
  shows "wheel_rel wk (filter (\<lambda>t. \<not> (wk t \<noteq> 0 \<and> unat (wk t) = b)) P) s'"
proof -
  let ?P = "filter (\<lambda>t. \<not> (wk t \<noteq> 0 \<and> unat (wk t) = b)) P"
  have "\<forall>l. \<forall>t\<in>set (wheel s' l). fits (Suc b) l (unat (wk t)) \<and> pauselist s' t = Some l"
  proof (intro allI ballI conjI)
    fix l t assume t: "t \<in> set (wheel s' l)"
    then have ne: "l \<noteq> Wheel_one (b mod 8192)" and t': "t \<in> set (wheel s l)"
      by (auto simp: s' split: if_splits)
    from t' three two have "before_move b \<longrightarrow> l \<noteq> Wheel_three (block b)"
      "b mod 4096 = 4095 \<longrightarrow> l \<noteq> Wheel_two ((b div 4096 + 1) mod 1024)" by auto
    with fits_Suc wheel_rel_fits [OF rel t'] ne show "fits (Suc b) l (unat (wk t))" by (simp add: b)
    show "pauselist s' t = Some l" using wheel_rel_pauselist [OF rel t'] s' by simp
  qed
  moreover have "queue wk (Suc b) (wheel s') w = wakes wk w ?P" if "0 < w" for w
  proof (cases "w = b")
    case True
    have "wakes wk b (wheel s' l) = []" if "l \<noteq> Forever_list" for l
      using fits_later [of b l] wheel_rel_wakes_nil [OF rel] b s'(1) that
      by (cases "l = Wheel_one (b mod 8192)") auto
    then have "queue wk (Suc b) (wheel s') b = []" by (simp add: queue_def later_queue_def Let_def)
    moreover have "wakes wk b ?P = []" using that True by (auto intro: filter_none)
    ultimately show ?thesis using True by simp
  next
    case False
    then have "wakes wk w ?P = wakes wk w P" by (auto intro: filter_cong)
    with False queue_Suc [OF rel b three two] wheel_rel_queue [OF rel that] b s'(1)
    show ?thesis by simp
  qed
  moreover have "wakes wk 0 ?P = wakes wk 0 P" by (auto simp: unsigned_eq_0_iff intro: filter_cong)
  moreover have "length P = length (filter (\<lambda>t. wk t \<noteq> 0 \<and> unat (wk t) = b) P) + length ?P"
    by (rule sum_length_filter_compl [symmetric])
  moreover have "\<forall>t\<in>set ?P. wk t \<noteq> 0 \<longrightarrow> Suc b \<le> unat (wk t)"
    using wheel_rel_later [OF rel] b by (force simp: order.order_iff_strict)
  ultimately show ?thesis
    using rel b lt s' by (simp add: wheel_rel_def)
qed


subsection \<open>The run queue\<close>

text \<open>The run queue on either side of the mark: the tasks that have run, and the new ones.\<close>

fun ran_part :: "'t option \<Rightarrow> 't list \<Rightarrow> 't list" where
  "ran_part None xs = xs"
| "ran_part (Some u) xs = takeWhile (\<lambda>x. x \<noteq> u) xs"

fun new_part :: "'t option \<Rightarrow> 't list \<Rightarrow> 't list" where
  "new_part None xs = []"
| "new_part (Some u) xs = dropWhile (\<lambda>x. x \<noteq> u) xs"

lemma ran_new_part [simp]: "ran_part u xs @ new_part u xs = xs"
  by (cases u) auto

lemma insert_before_conv: "insert_before u t xs = ran_part u xs @ t # new_part u xs"
  by (cases u) auto

lemma ran_part_append:
  assumes "u \<notin> Some ` set D"
  shows "ran_part u (ran_part u xs @ D @ new_part u xs) = ran_part u xs @ D"
proof (cases u)
  case (Some v)
  with assms have "x \<noteq> v" if "x \<in> set (takeWhile (\<lambda>x. x \<noteq> v) xs @ D)" for x
    using that by (auto dest: set_takeWhileD)
  from takeWhile_append2 [of "takeWhile (\<lambda>x. x \<noteq> v) xs @ D" "\<lambda>x. x \<noteq> v" "dropWhile (\<lambda>x. x \<noteq> v) xs", OF this]
  have "takeWhile (\<lambda>x. x \<noteq> v) (takeWhile (\<lambda>x. x \<noteq> v) xs @ D @ dropWhile (\<lambda>x. x \<noteq> v) xs) =
    takeWhile (\<lambda>x. x \<noteq> v) xs @ D @ takeWhile (\<lambda>x. x \<noteq> v) (dropWhile (\<lambda>x. x \<noteq> v) xs)"
    by simp
  moreover have "takeWhile (\<lambda>x. x \<noteq> v) (dropWhile (\<lambda>x. x \<noteq> v) xs) = []"
    by (induction xs) auto
  ultimately show ?thesis using Some by simp
qed simp

lemma new_part_append:
  assumes "u \<notin> Some ` set D"
  shows "new_part u (ran_part u xs @ D @ new_part u xs) = new_part u xs"
proof (cases u)
  case (Some v)
  with assms have "x \<noteq> v" if "x \<in> set (takeWhile (\<lambda>x. x \<noteq> v) xs @ D)" for x
    using that by (auto dest: set_takeWhileD)
  from dropWhile_append2 [of "takeWhile (\<lambda>x. x \<noteq> v) xs @ D" "\<lambda>x. x \<noteq> v" "dropWhile (\<lambda>x. x \<noteq> v) xs", OF this]
  show ?thesis using Some by simp
qed simp

lemma parts_insert:
  assumes "u \<noteq> Some t"
  shows "ran_part u (insert_before u t xs) = ran_part u xs @ [t]" "new_part u (insert_before u t xs) = new_part u xs"
  using ran_part_append [of u "[t]" xs] new_part_append [of u "[t]" xs] assms
  by (simp_all add: insert_before_conv)

lemma insert_all_before:
  "u \<notin> Some ` set ts \<Longrightarrow> foldl (\<lambda>xs t. insert_before u t xs) xs ts = ran_part u xs @ ts @ new_part u xs"
proof (induction ts arbitrary: xs)
  case Nil
  then show ?case by simp
next
  case (Cons t ts)
  then show ?case by (auto simp: parts_insert)
qed

lemma foldl_add_to_runqueue:
  "foldl (\<lambda>s t. (add_to_runqueue t s)\<lparr>wheel_count := wheel_count s - 1\<rparr>) s ts =
   s\<lparr>running_tasks := foldl (\<lambda>xs t. insert_before (first_new s) t xs) (running_tasks s) ts,
     running := (\<lambda>t. running s t \<or> t \<in> set ts),
     wheel_count := wheel_count s - int (length ts)\<rparr>"
proof (induction ts arbitrary: s)
  case Nil
  then show ?case by simp
next
  case (Cons t ts)
  show ?case unfolding foldl_Cons Cons.IH
    by (rule sched.equality) (auto simp: add_to_runqueue_def fun_eq_iff)
qed

lemma run_due_slot_eq:
  assumes "first_new s \<notin> Some ` set (wheel s (Wheel_one (wheel_base s mod 8192)))"
  shows "run_due_slot s =
    (let due = wheel s (Wheel_one (wheel_base s mod 8192))
     in s\<lparr>running_tasks := ran_part (first_new s) (running_tasks s) @ due @ new_part (first_new s) (running_tasks s),
          running := (\<lambda>t. running s t \<or> t \<in> set due),
          wheel_count := wheel_count s - int (length due),
          wheel := (wheel s)(Wheel_one (wheel_base s mod 8192) := []),
          wheel_base := wheel_base s + 1\<rparr>)"
  using insert_all_before [OF assms]
  by (simp add: run_due_slot_def Let_def foldl_add_to_runqueue)

text \<open>
  What a number of turns do to the scheduler, in terms of \<open>P\<close>: the tasks \<open>D\<close> are put in the run queue
  before the new ones and nothing else changes but the wheel.
\<close>

definition resumed :: "'t list \<Rightarrow> 't sched \<Rightarrow> 't sched \<Rightarrow> bool" where
  "resumed D s s' \<longleftrightarrow>
     running_tasks s' = ran_part (first_new s) (running_tasks s) @ D @ new_part (first_new s) (running_tasks s) \<and>
     running s' = (\<lambda>t. running s t \<or> t \<in> set D) \<and>
     first_new s' = first_new s \<and> all_tasks s' = all_tasks s \<and> clock_tick s' = clock_tick s"

lemma resumed_refl [simp]: "resumed [] s s"
  by (simp add: resumed_def)

lemma resumed_trans:
  assumes "resumed D s s1" and "resumed E s1 s2" and "first_new s \<notin> Some ` set D"
  shows "resumed (D @ E) s s2"
  using assms by (auto simp: resumed_def ran_part_append new_part_append)


section \<open>The expiry loop\<close>

abbreviation due_at :: "'t waker \<Rightarrow> nat \<Rightarrow> 't list \<Rightarrow> 't list" where
  "due_at wk b P \<equiv> filter (\<lambda>t. wk t \<noteq> 0 \<and> unat (wk t) = b) P"

lemma expire_step_rel:
  assumes rel: "wheel_rel wk P s" and lt: "wheel_base s < clock_tick s"
    and fn: "first_new s \<notin> Some ` set P"
  shows "\<exists>s'. expire_step wk (found, s) = Inr (found + int (length (due_at wk (wheel_base s) P)), s') \<and>
    wheel_rel wk (filter (\<lambda>t. \<not> (wk t \<noteq> 0 \<and> unat (wk t) = wheel_base s)) P) s' \<and>
    resumed (due_at wk (wheel_base s) P) s s' \<and> wheel_base s' = Suc (wheel_base s)"
proof -
  let ?b = "wheel_base s"
  from move_third_wheel_rel [OF rel] obtain s1 where s1: "move_third_wheel wk s = Inr s1"
    "wheel_rel wk P s1" "same_but_lists s s1"
    "before_move ?b \<longrightarrow> wheel s1 (Wheel_three (block ?b)) = []" by blast
  note e1 = same_but_listsD [OF s1(3)]
  from move_next_window_rel [OF s1(2)] s1(4) obtain s2 where s2: "move_next_window wk s1 = Inr s2"
    "wheel_rel wk P s2" "same_but_lists s1 s2"
    "before_move ?b \<longrightarrow> wheel s2 (Wheel_three (block ?b)) = []"
    "?b mod 4096 = 4095 \<longrightarrow> wheel s2 (Wheel_two ((?b div 4096 + 1) mod 1024)) = []"
    unfolding e1 by blast
  note e2 = same_but_listsD [OF same_but_lists_trans [OF s1(3) s2(3)]]
  have due: "wheel s2 (Wheel_one (?b mod 8192)) = due_at wk ?b P"
    using due_slot [OF s2(2)] by (simp add: e2)
  then have run: "run_due_slot s2 =
     s2\<lparr>running_tasks := ran_part (first_new s) (running_tasks s) @ due_at wk ?b P @ new_part (first_new s) (running_tasks s),
        running := (\<lambda>t. running s t \<or> t \<in> set (due_at wk ?b P)),
        wheel_count := wheel_count s - int (length (due_at wk ?b P)),
        wheel := (wheel s2)(Wheel_one (?b mod 8192) := []),
        wheel_base := ?b + 1\<rparr>"
    using run_due_slot_eq [of s2] fn unfolding Let_def e2 due by fastforce
  have "wheel_rel wk (filter (\<lambda>t. \<not> (wk t \<noteq> 0 \<and> unat (wk t) = ?b)) P) (run_due_slot s2)"
    by (rule wheel_rel_Suc [OF s2(2) e2(1) _ s2(4,5)]) (simp_all add: run e2 lt)
  moreover have "resumed (due_at wk ?b P) s (run_due_slot s2)"
    by (simp add: resumed_def run e2)
  moreover have "expire_step wk (found, s) = Inr (found + int (length (due_at wk ?b P)), run_due_slot s2)"
    using s1(1) s2(1) due by (simp add: expire_step_def e2)
  moreover have "wheel_base (run_due_slot s2) = Suc ?b" by (simp add: run)
  ultimately show ?thesis by blast
qed

declare expire_loop.simps [simp del]

lemma expire_loop_rel:
  assumes "wheel_rel wk P s" and "first_new s \<notin> Some ` set P"
  shows "\<exists>s'. expire_loop wk (found, s) =
      Inr (found + int (length (concat (map (\<lambda>b. due_at wk b P) [wheel_base s..<clock_tick s]))), s') \<and>
    wheel_rel wk (filter (\<lambda>t. \<not> (wk t \<noteq> 0 \<and> unat (wk t) < clock_tick s)) P) s' \<and>
    resumed (concat (map (\<lambda>b. due_at wk b P) [wheel_base s..<clock_tick s])) s s' \<and>
    wheel_base s' = clock_tick s"
  using assms
proof (induction "clock_tick s - wheel_base s" arbitrary: s P found)
  case 0
  with wheel_rel_base have eq: "wheel_base s = clock_tick s" by fastforce
  have "filter (\<lambda>t. \<not> (wk t \<noteq> 0 \<and> unat (wk t) < clock_tick s)) P = P"
    using wheel_rel_later [OF 0(2)] eq by (fastforce intro: filter_all)
  with 0 eq show ?case by (simp add: expire_loop.simps)
next
  case (Suc n)
  let ?b = "wheel_base s"
  define Q where "Q = filter (\<lambda>t. \<not> (wk t \<noteq> 0 \<and> unat (wk t) = ?b)) P"
  from Suc(2) have lt: "?b < clock_tick s" by linarith
  from expire_step_rel [OF Suc.prems(1) lt Suc.prems(2)] obtain s1
    where s1: "expire_step wk (found, s) = Inr (found + int (length (due_at wk ?b P)), s1)"
      "wheel_rel wk Q s1" "resumed (due_at wk ?b P) s s1" "wheel_base s1 = Suc ?b"
    unfolding Q_def by blast
  from s1(3) have eq: "clock_tick s1 = clock_tick s" "first_new s1 = first_new s"
    by (simp_all add: resumed_def)
  have Q: "due_at wk b Q = due_at wk b P" if "b \<in> {Suc ?b..<clock_tick s}" for b
    using that by (auto simp: Q_def intro: filter_cong)
  then have D: "concat (map (\<lambda>b. due_at wk b Q) [Suc ?b..<clock_tick s]) =
    concat (map (\<lambda>b. due_at wk b P) [Suc ?b..<clock_tick s])"
    by (intro arg_cong [where f = concat] map_cong) auto
  have "n = clock_tick s1 - wheel_base s1" and "first_new s1 \<notin> Some ` set Q"
    using Suc(2) Suc.prems(2) by (auto simp: s1(4) eq Q_def)
  from Suc(1) [OF this(1) s1(2) this(2), of "found + int (length (due_at wk ?b P))"] obtain s2
    where s2: "expire_loop wk (found + int (length (due_at wk ?b P)), s1) =
      Inr (found + int (length (due_at wk ?b P)) +
        int (length (concat (map (\<lambda>b. due_at wk b P) [Suc ?b..<clock_tick s]))), s2)"
     "wheel_rel wk (filter (\<lambda>t. \<not> (wk t \<noteq> 0 \<and> unat (wk t) < clock_tick s)) Q) s2"
     "resumed (concat (map (\<lambda>b. due_at wk b P) [Suc ?b..<clock_tick s])) s1 s2"
     "wheel_base s2 = clock_tick s"
    unfolding eq s1(4) D by blast
  have "filter (\<lambda>t. \<not> (wk t \<noteq> 0 \<and> unat (wk t) < clock_tick s)) Q =
    filter (\<lambda>t. \<not> (wk t \<noteq> 0 \<and> unat (wk t) < clock_tick s)) P"
    using lt by (auto simp: Q_def intro: filter_cong)
  moreover have "first_new s \<notin> Some ` set (due_at wk ?b P)" using Suc.prems(2) by auto
  from resumed_trans [OF s1(3) s2(3) this] lt
  have "resumed (concat (map (\<lambda>b. due_at wk b P) [?b..<clock_tick s])) s s2"
    by (simp add: upt_conv_Cons)
  moreover have "expire_loop wk (found, s) = expire_loop wk (found + int (length (due_at wk ?b P)), s1)"
    using lt s1(1) by (simp add: expire_loop.simps [of wk found s])
  ultimately show ?case using s2 lt by (simp add: upt_conv_Cons)
qed

text \<open>
  The expiry of the paused tasks: those whose wake time is past go to the run queue, before the
  tasks that have not run yet, in the order of their wake times, and of \<open>P\<close> at the same time.
\<close>

definition due_order :: "'t waker \<Rightarrow> nat \<Rightarrow> 't list \<Rightarrow> 't list" where
  "due_order wk now P = sort_key (\<lambda>t. unat (wk t)) (filter (\<lambda>t. wk t \<noteq> 0 \<and> unat (wk t) < now) P)"

definition still_paused :: "'t waker \<Rightarrow> nat \<Rightarrow> 't list \<Rightarrow> 't list" where
  "still_paused wk now P = filter (\<lambda>t. \<not> (wk t \<noteq> 0 \<and> unat (wk t) < now)) P"

lemma expire_rel:
  assumes rel: "wheel_rel wk P s" and "first_new s \<notin> Some ` set P"
  shows "\<exists>s'. expire_paused_tasks wk s = Inr (int (length (due_order wk (clock_tick s) P)), s') \<and>
    wheel_rel wk (still_paused wk (clock_tick s) P) s' \<and>
    resumed (due_order wk (clock_tick s) P) s s' \<and> wheel_base s' = clock_tick s"
proof -
  have "filter (\<lambda>t. wk t \<noteq> 0 \<and> unat (wk t) < clock_tick s) P =
    filter (\<lambda>t. wk t \<noteq> 0 \<and> wheel_base s \<le> unat (wk t) \<and> unat (wk t) < clock_tick s) P"
    using wheel_rel_later [OF rel] by (auto intro: filter_cong)
  then have "due_order wk (clock_tick s) P =
    concat (map (\<lambda>b. due_at wk b P) [wheel_base s..<clock_tick s])"
    using sort_key_upto [OF wheel_rel_base [OF rel], of "\<lambda>t. unat (wk t)" "\<lambda>t. wk t \<noteq> 0" P]
    by (simp add: due_order_def)
  with expire_loop_rel [OF assms, of 0] show ?thesis
    unfolding expire_paused_tasks_def still_paused_def by simp
qed

end
