(* ===== verification/Task_Refinement.thy ===== *)
theory Task_Refinement
  imports Timewheel_Order
begin

text \<open>
  The whole scheduler against an abstract one: three lists of tasks (those that have run, the new
  ones, the paused ones) and two times. Every operation of \<^verbatim>\<open>task.cpp\<close> succeeds on a related state
  and does what the abstract operation says.
\<close>

section \<open>Pausing and resuming one task\<close>

lemma fits_current:
  assumes "w div 4096 = b div 4096" and "l \<noteq> Forever_list" and "fits b l w"
  shows "\<exists>i. l = Wheel_one i"
proof (cases l)
  case (Wheel_three k)
  have "w div 4194304 = b div 4194304" using assms(1) by (simp flip: div_div_22)
  with Wheel_three assms(3) block_bounds [of b] show ?thesis by auto
qed (use assms in auto)

text \<open>
  A task is paused in order unless it is paused just as the last window before a boundary starts,
  for a time after the next window for which another task still waits in the third wheel.
\<close>

definition pause_in_order :: "'t waker \<Rightarrow> 't \<Rightarrow> 't sched \<Rightarrow> bool" where
  "pause_in_order wk t s \<longleftrightarrow>
     (before_move (wheel_base s) \<longrightarrow> unat (wk t) div 4096 \<noteq> wheel_base s div 4096 + 1 \<longrightarrow>
      wakes wk (unat (wk t)) (wheel s (Wheel_three (block (wheel_base s)))) = [])"

lemma task2list_fits:
  assumes rel: "wheel_rel wk P s" and w: "wk t = 0 \<or> wheel_base s \<le> unat (wk t)"
  shows "\<exists>l. task2list s (wk t) = Inr l \<and> fits (wheel_base s) l (unat (wk t))"
proof (cases "wk t = 0")
  case True
  then show ?thesis by (simp add: task2list_def)
next
  case False
  let ?b = "wheel_base s" let ?w = "unat (wk t)"
  have pos: "0 < ?w" using False by (simp add: unat_gt_0)
  have le: "?b \<le> ?w" "?b div 4096 \<le> ?w div 4096" using w False by (auto intro: div_le_mono)
  have k: "?w div 4194304 < 1024" using unat_32_bound [of "wk t"] by (auto intro: less_mult_imp_div_less)
  show ?thesis
  proof (cases "?w div 4096 = ?b div 4096 \<or> ?w div 4194304 = block ?b")
    case True
    then show ?thesis using False pos le wheel_rel_base [OF rel]
      by (auto simp: task2list_def Let_def div_div_22)
  next
    case far: False
    then have "?b div 4096 + 1 \<le> ?w div 4096" using le by simp
    then have "block ?b \<le> ?w div 4096 div 1024" by (rule div_le_mono)
    with far have "block ?b < ?w div 4194304" by (simp add: div_div_22)
    with far k show ?thesis using False pos le wheel_rel_base [OF rel]
      by (simp add: task2list_def Let_def div_div_22)
  qed
qed

lemma queue_snoc:
  assumes rel: "wheel_rel wk P s" and fit: "fits (wheel_base s) l (unat (wk t))" and t0: "wk t \<noteq> 0"
    and "task2list s (wk t) = Inr l" and ord: "pause_in_order wk t s"
  shows "queue wk (wheel_base s) ((wheel s)(l := wheel s l @ [t])) (unat (wk t)) =
    queue wk (wheel_base s) (wheel s) (unat (wk t)) @ [t]"
proof -
  let ?b = "wheel_base s" let ?w = "unat (wk t)"
  let ?two = "wakes wk ?w (wheel s (Wheel_two ((?w div 4096) mod 1024)))"
  let ?three = "wakes wk ?w (wheel s (Wheel_three (?w div 4194304)))"
  show ?thesis
  proof (cases l)
    case Forever_list
    with fit t0 show ?thesis by (simp add: unsigned_eq_0_iff)
  next
    case (Wheel_one i)
    with assms(4) t0 have now: "?w div 4096 = ?b div 4096"
      by (auto simp: task2list_def Let_def split: if_splits)
    have "?two = []" "?three = []"
      using fits_current [OF now] wheel_rel_wakes_nil [OF rel] by (metis list_ref.distinct)+
    with Wheel_one fit show ?thesis by (simp add: queue_def later_queue_def)
  next
    case (Wheel_two j)
    with fit have blk: "?w div 4194304 = block ?b" by simp
    have "?three = []" if "\<not> before_move ?b"
      using that blk wheel_rel_wakes_nil [OF rel] by auto
    with ord blk have "?three = [] \<or> before_move ?b \<and> ?w div 4096 = ?b div 4096 + 1"
      by (auto simp: pause_in_order_def)
    with Wheel_two fit show ?thesis
      by (auto simp: queue_def later_queue_def Let_def)
  next
    case (Wheel_three k)
    with assms(4) t0 have "?w div 4194304 \<noteq> block ?b"
      by (auto simp: task2list_def Let_def div_div_22 split: if_splits)
    then have "?w div 4096 \<noteq> ?b div 4096 + 1" by (auto simp flip: div_div_22)
    with Wheel_three fit show ?thesis by (simp add: queue_def later_queue_def)
  qed
qed

lemma add_paused_rel:
  assumes rel: "wheel_rel wk P s" and t: "t \<notin> set P"
    and w: "wk t = 0 \<or> wheel_base s \<le> unat (wk t)" and ord: "pause_in_order wk t s"
  shows "\<exists>s'. add_paused_task wk t s = Inr s' \<and> wheel_rel wk (P @ [t]) s' \<and>
    (\<exists>wh pl c. s' = s\<lparr>wheel := wh, pauselist := pl, wheel_count := c\<rparr>)"
proof -
  from task2list_fits [OF rel w] obtain l where l: "task2list s (wk t) = Inr l"
    and fit: "fits (wheel_base s) l (unat (wk t))" by blast
  let ?wh = "(wheel s)(l := wheel s l @ [t])"
  let ?s = "s\<lparr>wheel := ?wh, pauselist := (pauselist s)(t := Some l), wheel_count := wheel_count s + 1\<rparr>"
  have add: "add_paused_task wk t s = Inr ?s"
    using w l by (auto simp: add_paused_task_def Let_def)
  have notin: "t \<notin> set (wheel s x)" for x using wheel_rel_set [OF rel] t by blast
  have lists: "\<forall>x. \<forall>u\<in>set (?wh x). fits (wheel_base s) x (unat (wk u)) \<and>
      ((pauselist s)(t := Some l)) u = Some x"
    using fit notin wheel_rel_fits [OF rel] wheel_rel_pauselist [OF rel]
    by (auto split: if_splits)
  have frv: "?wh Forever_list = wakes wk 0 (P @ [t])"
  proof (cases "wk t = 0")
    case True
    with l show ?thesis using wheel_rel_forever [OF rel] by (simp add: task2list_def)
  next
    case False
    with fit have "l \<noteq> Forever_list" by (auto simp: unsigned_eq_0_iff)
    with False show ?thesis using wheel_rel_forever [OF rel] by (simp add: unsigned_eq_0_iff)
  qed
  have "queue wk (wheel_base s) ?wh w' = wakes wk w' (P @ [t])" if "0 < w'" for w'
  proof (cases "w' = unat (wk t)")
    case True
    with that have "wk t \<noteq> 0" by auto
    from queue_snoc [OF rel fit this l ord] wheel_rel_queue [OF rel that] True show ?thesis by simp
  next
    case False
    then have "wakes wk w' (?wh x) = wakes wk w' (wheel s x)" for x by auto
    with False wheel_rel_queue [OF rel that] show ?thesis
      by (simp add: queue_def later_queue_def Let_def)
  qed
  then have "wheel_rel wk (P @ [t]) ?s"
    using rel t w lists frv by (auto simp: wheel_rel_def)
  with add show ?thesis by blast
qed

lemma remove_paused_rel:
  assumes rel: "wheel_rel wk P s" and t: "t \<in> set P"
  shows "\<exists>s'. remove_paused_task t s = Inr s' \<and> wheel_rel wk (remove1 t P) s' \<and>
    (\<exists>wh c. s' = s\<lparr>wheel := wh, wheel_count := c\<rparr>)"
proof -
  from t wheel_rel_set [OF rel] obtain l where l: "t \<in> set (wheel s l)" by blast
  note pl = wheel_rel_pauselist [OF rel l]
  let ?wh = "(wheel s)(l := remove1 t (wheel s l))"
  let ?s = "s\<lparr>wheel := ?wh, wheel_count := wheel_count s - 1\<rparr>"
  have rm: "remove_paused_task t s = Inr ?s" using pl l by (simp add: remove_paused_task_def)
  have others: "t \<notin> set (wheel s x)" if "x \<noteq> l" for x
    using that pl wheel_rel_pauselist [OF rel, of t x] by auto
  have wh: "?wh x = remove1 t (wheel s x)" for x
    using others [of x] by (auto simp: remove1_idem)
  have part: "wakes wk w (?wh x) = remove1 t (wakes wk w (wheel s x))" for w x
    unfolding wh by (rule remove1_filter [symmetric])
  have once: "t \<in> set (wakes wk w (wheel s x)) \<Longrightarrow> x = l" for w x using others by auto
  have "queue wk (wheel_base s) ?wh w = remove1 t (queue wk (wheel_base s) (wheel s) w)" for w
    unfolding queue_def later_queue_def Let_def part
    using once [of w "Wheel_one (w mod 8192)"] once [of w "Wheel_two ((w div 4096) mod 1024)"]
      once [of w "Wheel_three (w div 4194304)"]
    by (cases l) (auto simp: remove1_append remove1_idem)
  then have q: "\<forall>w>0. queue wk (wheel_base s) ?wh w = wakes wk w (remove1 t P)"
    using wheel_rel_queue [OF rel] by (simp add: remove1_filter)
  have "\<forall>x. \<forall>u\<in>set (?wh x). fits (wheel_base s) x (unat (wk u)) \<and> pauselist s u = Some x"
    unfolding wh using wheel_rel_fits [OF rel] wheel_rel_pauselist [OF rel]
    by (meson notin_set_remove1)
  moreover have "?wh Forever_list = wakes wk 0 (remove1 t P)"
    unfolding part [of 0 Forever_list, simplified] wh using wheel_rel_forever [OF rel]
    by (simp add: remove1_filter)
  moreover have "int (length P) - 1 = int (length (remove1 t P))"
    using length_pos_if_in_set [OF t] t by (simp add: length_remove1 of_nat_diff Suc_le_eq)
  ultimately have "wheel_rel wk (remove1 t P) ?s"
    using rel q by (auto simp: wheel_rel_def dest: notin_set_remove1)
  with rm show ?thesis by blast
qed


section \<open>The abstract scheduler\<close>

record 't asched =
  a_now :: nat
  a_base :: nat
  a_all :: "'t list"
  a_ran :: "'t list"
  a_new :: "'t list"
  a_paused :: "'t list"

definition a_new_task :: "'t \<Rightarrow> 't asched \<Rightarrow> 't asched" where
  "a_new_task t A = A\<lparr>a_all := a_all A @ [t], a_new := a_new A @ [t]\<rparr>"

text \<open>Taking a task out of whichever of the three lists has it.\<close>

definition a_unlink :: "'t \<Rightarrow> 't asched \<Rightarrow> 't asched" where
  "a_unlink t A = A\<lparr>a_ran := remove1 t (a_ran A), a_new := remove1 t (a_new A),
                     a_paused := remove1 t (a_paused A)\<rparr>"

definition a_delete :: "'t \<Rightarrow> 't asched \<Rightarrow> 't asched" where
  "a_delete t A = (a_unlink t A)\<lparr>a_all := remove1 t (a_all A)\<rparr>"

definition a_set_running :: "'t \<Rightarrow> 't asched \<Rightarrow> 't asched" where
  "a_set_running t A =
     (if t \<in> set (a_paused A)
      then A\<lparr>a_paused := remove1 t (a_paused A), a_ran := a_ran A @ [t]\<rparr> else A)"

definition a_set_paused :: "'t waker \<Rightarrow> 't \<Rightarrow> 't asched \<Rightarrow> 't asched" where
  "a_set_paused wk t A =
     (let B = a_unlink t A
      in if wk t \<noteq> 0 \<and> unat (wk t) < a_base B then B\<lparr>a_ran := a_ran B @ [t]\<rparr>
         else B\<lparr>a_paused := a_paused B @ [t]\<rparr>)"

definition a_expire :: "'t waker \<Rightarrow> 't asched \<Rightarrow> 't asched" where
  "a_expire wk A = A\<lparr>a_ran := a_ran A @ due_order wk (a_now A) (a_paused A),
                      a_paused := still_paused wk (a_now A) (a_paused A), a_base := a_now A\<rparr>"

text \<open>The relation between the two.\<close>

fun first_of :: "'t list \<Rightarrow> 't option" where
  "first_of [] = None"
| "first_of (x # xs) = Some x"

definition sched_rel :: "'t waker \<Rightarrow> 't asched \<Rightarrow> 't sched \<Rightarrow> bool" where
  "sched_rel wk A s \<longleftrightarrow>
     wheel_rel wk (a_paused A) s \<and>
     clock_tick s = a_now A \<and> wheel_base s = a_base A \<and> all_tasks s = a_all A \<and>
     running_tasks s = a_ran A @ a_new A \<and> first_new s = first_of (a_new A) \<and>
     distinct (a_all A) \<and> distinct (a_ran A @ a_new A @ a_paused A) \<and>
     set (a_all A) = set (a_ran A @ a_new A @ a_paused A) \<and>
     (\<forall>t\<in>set (a_all A). running s t \<longleftrightarrow> t \<in> set (a_ran A @ a_new A))"

lemma parts_of_queue:
  assumes "distinct (xs @ ys)"
  shows "ran_part (first_of ys) (xs @ ys) = xs" "new_part (first_of ys) (xs @ ys) = ys"
proof -
  have "takeWhile (\<lambda>x. x \<noteq> y) (xs @ y # zs) = xs \<and> dropWhile (\<lambda>x. x \<noteq> y) (xs @ y # zs) = y # zs"
    if "y \<notin> set xs" for y zs
    using that by (induction xs) auto
  with assms show "ran_part (first_of ys) (xs @ ys) = xs" "new_part (first_of ys) (xs @ ys) = ys"
    by (cases ys; auto)+
qed

lemma sched_rel_init: "sched_rel wk \<lparr>a_now = now, a_base = now, a_all = [], a_ran = [], a_new = [], a_paused = []\<rparr>
    (init_sched now)"
  by (simp add: sched_rel_def init_sched_def wheel_rel_def queue_def later_queue_def)

text \<open>Putting a task back in the run queue puts it last among those that have run.\<close>

lemma insert_before_queue:
  assumes "distinct (xs @ ys)"
  shows "insert_before (first_of ys) t (xs @ ys) = xs @ t # ys"
  using parts_of_queue [OF assms] by (simp add: insert_before_conv)

lemma remove_from_runqueue_rel:
  assumes rel: "sched_rel wk A s" and t: "t \<in> set (a_ran A @ a_new A)"
  shows "\<exists>s'. remove_from_runqueue t s = (True, s') \<and>
    running_tasks s' = remove1 t (a_ran A) @ remove1 t (a_new A) \<and>
    first_new s' = first_of (remove1 t (a_new A)) \<and> running s' = (running s)(t := False) \<and>
    (\<exists>rt fn rn. s' = s\<lparr>first_new := fn, running_tasks := rt, running := rn\<rparr>)"
proof -
  have d: "distinct (a_ran A @ a_new A)" and run: "running s t" and rt: "running_tasks s = a_ran A @ a_new A"
    and fn: "first_new s = first_of (a_new A)"
    using rel t by (auto simp: sched_rel_def)
  have "(if first_new s = Some t then next_of t (running_tasks s) else first_new s) =
    first_of (remove1 t (a_new A))"
  proof (cases "first_new s = Some t")
    case True
    then obtain ys where ys: "a_new A = t # ys" using fn by (cases "a_new A") auto
    with d have "dropWhile (\<lambda>x. x \<noteq> t) (a_ran A @ a_new A) = t # ys"
      using parts_of_queue(2) [OF d] by simp
    then have "next_of t (running_tasks s) = first_of ys"
      by (simp add: next_of_def rt split: list.split)
    with True ys show ?thesis by simp
  next
    case False
    with fn show ?thesis by (cases "a_new A") auto
  qed
  moreover have "remove1 t (a_ran A @ a_new A) = remove1 t (a_ran A) @ remove1 t (a_new A)"
    using d by (auto simp: remove1_append intro!: remove1_idem [symmetric] remove1_idem)
  ultimately show ?thesis using run rt by (simp add: remove_from_runqueue_def) blast
qed


section \<open>Each operation\<close>

lemma wheel_rel_frame:
  assumes "wheel_rel wk P s"
    and "clock_tick s' = clock_tick s" "wheel_base s' = wheel_base s" "wheel s' = wheel s"
    and "pauselist s' = pauselist s" "wheel_count s' = wheel_count s"
  shows "wheel_rel wk P s'"
  using assms by (simp add: wheel_rel_def)

lemma new_task_rel:
  assumes "sched_rel wk A s" and "t \<notin> set (a_all A)"
  shows "sched_rel wk (a_new_task t A) (new_task t s)"
proof -
  have "wheel_rel wk (a_paused A) (new_task t s)"
    by (rule wheel_rel_frame [of _ _ s]) (use assms in \<open>simp_all add: sched_rel_def new_task_def\<close>)
  moreover have "first_of (a_new A @ [t]) = (if first_of (a_new A) = None then Some t else first_of (a_new A))"
    by (cases "a_new A") auto
  ultimately show ?thesis using assms
    by (auto simp: sched_rel_def new_task_def a_new_task_def)
qed

text \<open>Taking a task out of the scheduler's lists, as the destructor and \<^verbatim>\<open>setPaused\<close> do.\<close>

lemma unlink_rel:
  assumes rel: "sched_rel wk A s" and t: "t \<in> set (a_all A)"
  shows "\<exists>s'. (if running s t then Inr (snd (remove_from_runqueue t s)) else remove_paused_task t s) = Inr s' \<and>
    wheel_rel wk (remove1 t (a_paused A)) s' \<and> clock_tick s' = a_now A \<and> wheel_base s' = a_base A \<and>
    all_tasks s' = a_all A \<and> running_tasks s' = remove1 t (a_ran A) @ remove1 t (a_new A) \<and>
    first_new s' = first_of (remove1 t (a_new A)) \<and> \<not> running s' t \<and>
    (\<forall>u. u \<noteq> t \<longrightarrow> running s' u = running s u)"
proof (cases "running s t")
  case True
  with rel t have in_run: "t \<in> set (a_ran A @ a_new A)" by (auto simp: sched_rel_def)
  with rel have "t \<notin> set (a_paused A)" by (auto simp: sched_rel_def)
  then have P: "remove1 t (a_paused A) = a_paused A" by (rule remove1_idem)
  from remove_from_runqueue_rel [OF rel in_run] obtain s' rt fn rn
    where s': "remove_from_runqueue t s = (True, s')"
      "running_tasks s' = remove1 t (a_ran A) @ remove1 t (a_new A)"
      "first_new s' = first_of (remove1 t (a_new A))" "running s' = (running s)(t := False)"
      and eq: "s' = s\<lparr>first_new := fn, running_tasks := rt, running := rn\<rparr>" by blast
  have "wheel_rel wk (a_paused A) s'"
    by (rule wheel_rel_frame [of _ _ s]) (use rel in \<open>simp_all add: sched_rel_def eq\<close>)
  with True s' P rel show ?thesis by (auto simp: sched_rel_def eq)
next
  case False
  with rel t have P: "t \<in> set (a_paused A)" by (auto simp: sched_rel_def)
  with rel have "t \<notin> set (a_ran A)" "t \<notin> set (a_new A)" by (auto simp: sched_rel_def)
  then have "remove1 t (a_ran A) = a_ran A" "remove1 t (a_new A) = a_new A"
    by (auto intro: remove1_idem)
  with remove_paused_rel [of wk "a_paused A" s t] rel P False show ?thesis
    by (auto simp: sched_rel_def)
qed

lemma delete_task_rel:
  assumes rel: "sched_rel wk A s" and t: "t \<in> set (a_all A)"
  shows "\<exists>s'. delete_task t s = Inr s' \<and> sched_rel wk (a_delete t A) s'"
proof -
  from unlink_rel [OF assms] obtain s' where s': "delete_task t s = Inr (s'\<lparr>all_tasks := remove1 t (all_tasks s')\<rparr>)"
    "wheel_rel wk (remove1 t (a_paused A)) s'" "clock_tick s' = a_now A" "wheel_base s' = a_base A"
    "all_tasks s' = a_all A" "running_tasks s' = remove1 t (a_ran A) @ remove1 t (a_new A)"
    "first_new s' = first_of (remove1 t (a_new A))" "\<forall>u. u \<noteq> t \<longrightarrow> running s' u = running s u"
    by (auto simp: delete_task_def)
  from s'(2) have "wheel_rel wk (remove1 t (a_paused A)) (s'\<lparr>all_tasks := remove1 t (all_tasks s')\<rparr>)"
    by (rule wheel_rel_frame) simp_all
  with rel s' have "sched_rel wk (a_delete t A) (s'\<lparr>all_tasks := remove1 t (all_tasks s')\<rparr>)"
    by (auto simp: sched_rel_def a_delete_def a_unlink_def)
  with s'(1) show ?thesis by blast
qed

lemma add_to_runqueue_rel:
  assumes rel: "wheel_rel wk P s" and eq: "clock_tick s = a_now A" "wheel_base s = a_base A"
      "all_tasks s = a_all A" "running_tasks s = a_ran A @ a_new A" "first_new s = first_of (a_new A)"
    and d: "distinct (a_all A)" "distinct (a_ran A @ a_new A @ P)" "t \<notin> set (a_ran A @ a_new A @ P)"
    and all: "set (a_all A) = insert t (set (a_ran A @ a_new A @ P))"
    and run: "\<forall>u\<in>set (a_all A). u \<noteq> t \<longrightarrow> running s u = (u \<in> set (a_ran A @ a_new A))"
  shows "sched_rel wk (A\<lparr>a_paused := P, a_ran := a_ran A @ [t]\<rparr>) (add_to_runqueue t s)"
proof -
  have "wheel_rel wk P (add_to_runqueue t s)" by (rule wheel_rel_frame [OF rel]) simp_all
  moreover have "insert_before (first_of (a_new A)) t (a_ran A @ a_new A) = a_ran A @ t # a_new A"
    by (rule insert_before_queue) (use d in auto)
  ultimately show ?thesis using eq d all run
    by (auto simp: sched_rel_def add_to_runqueue_def)
qed

lemma setRunning_rel:
  assumes rel: "sched_rel wk A s" and t: "t \<in> set (a_all A)"
  shows "\<exists>s'. setRunning t s = Inr s' \<and> sched_rel wk (a_set_running t A) s'"
proof (cases "running s t")
  case True
  with rel t have "t \<notin> set (a_paused A)" by (auto simp: sched_rel_def)
  with True rel show ?thesis by (simp add: setRunning_def a_set_running_def)
next
  case False
  with rel t have P: "t \<in> set (a_paused A)" by (auto simp: sched_rel_def)
  with remove_paused_rel [of wk "a_paused A" s t] rel obtain s1 wh c
    where s1: "remove_paused_task t s = Inr s1" "wheel_rel wk (remove1 t (a_paused A)) s1"
      and eq: "s1 = s\<lparr>wheel := wh, wheel_count := c\<rparr>" by (auto simp: sched_rel_def)
  have "sched_rel wk (A\<lparr>a_paused := remove1 t (a_paused A), a_ran := a_ran A @ [t]\<rparr>) (add_to_runqueue t s1)"
    by (rule add_to_runqueue_rel [OF s1(2)]) (use rel P in \<open>auto simp: sched_rel_def eq\<close>)
  with False P s1(1) show ?thesis by (simp add: setRunning_def a_set_running_def)
qed

lemma setPaused_rel:
  assumes rel: "sched_rel wk A s" and t: "t \<in> set (a_all A)"
    and ord: "\<not> (before_move (a_base A) \<and> (\<exists>u\<in>set (a_paused A). u \<noteq> t \<and> wk u = wk t))"
  shows "\<exists>s'. setPaused wk t s = Inr s' \<and> sched_rel wk (a_set_paused wk t A) s'"
proof -
  let ?B = "a_unlink t A"
  from unlink_rel [OF rel t] obtain s1
    where u: "(if running s t then Inr (snd (remove_from_runqueue t s)) else remove_paused_task t s) = Inr s1"
    and r1: "wheel_rel wk (a_paused ?B) s1" and eq: "clock_tick s1 = a_now ?B" "wheel_base s1 = a_base ?B"
    "all_tasks s1 = a_all ?B" "running_tasks s1 = a_ran ?B @ a_new ?B"
    "first_new s1 = first_of (a_new ?B)" and nr: "\<not> running s1 t" "\<forall>u. u \<noteq> t \<longrightarrow> running s1 u = running s u"
    by (auto simp: a_unlink_def)
  have B: "distinct (a_all ?B)" "distinct (a_ran ?B @ a_new ?B @ a_paused ?B)"
    "t \<notin> set (a_ran ?B @ a_new ?B @ a_paused ?B)"
    "set (a_all ?B) = insert t (set (a_ran ?B @ a_new ?B @ a_paused ?B))"
    "\<forall>u\<in>set (a_all ?B). u \<noteq> t \<longrightarrow> running s1 u = (u \<in> set (a_ran ?B @ a_new ?B))"
    using rel t nr by (auto simp: sched_rel_def a_unlink_def)
  have "(if running s t then (case remove_from_runqueue t s of (ok, s') \<Rightarrow> if ok then Inr s' else Inl AssertFailed)
      else remove_paused_task t s) = Inr s1"
    using u by (auto simp: remove_from_runqueue_def)
  then have set: "setPaused wk t s = add_paused_task wk t s1" using nr by (simp add: setPaused_def)
  show ?thesis
  proof (cases "wk t \<noteq> 0 \<and> unat (wk t) < a_base ?B")
    case True
    from add_to_runqueue_rel [OF r1 eq B] True eq(2) show ?thesis
      by (simp add: set add_paused_task_def a_set_paused_def Let_def)
  next
    case False
    have "wakes wk (unat (wk t)) (wheel s1 l) = []" if "before_move (wheel_base s1)" for l
    proof (rule filter_none)
      fix x assume "x \<in> set (wheel s1 l)"
      with wheel_rel_set [OF r1] have "x \<in> set (a_paused ?B)" by blast
      with ord that B(3) eq(2) have "wk x \<noteq> wk t"
        by (auto simp: a_unlink_def dest: notin_set_remove1)
      then show "unat (wk x) \<noteq> unat (wk t)" by (metis unsigned_word_eqI)
    qed
    then have o1: "pause_in_order wk t s1" by (simp add: pause_in_order_def)
    have "t \<notin> set (a_paused ?B)" "wk t = 0 \<or> wheel_base s1 \<le> unat (wk t)"
      using False B(3) eq(2) by auto
    from add_paused_rel [OF r1 this o1] obtain s' wh pl c
      where s': "add_paused_task wk t s1 = Inr s'" "wheel_rel wk (a_paused ?B @ [t]) s'"
        and e: "s' = s1\<lparr>wheel := wh, pauselist := pl, wheel_count := c\<rparr>" by blast
    have "sched_rel wk (?B\<lparr>a_paused := a_paused ?B @ [t]\<rparr>) s'"
      using s'(2) B eq nr by (auto simp: sched_rel_def e)
    with False s'(1) show ?thesis by (auto simp: set a_set_paused_def Let_def)
  qed
qed

lemma due_order_set: "set (due_order wk now P) = {t \<in> set P. wk t \<noteq> 0 \<and> unat (wk t) < now}"
  and still_paused_set: "set (still_paused wk now P) = {t \<in> set P. \<not> (wk t \<noteq> 0 \<and> unat (wk t) < now)}"
  and due_order_distinct: "distinct P \<Longrightarrow> distinct (due_order wk now P)"
  by (auto simp: due_order_def still_paused_def)

lemma expire_sched_rel:
  assumes rel: "sched_rel wk A s"
  shows "\<exists>s'. expire_paused_tasks wk s = Inr (int (length (due_order wk (a_now A) (a_paused A))), s') \<and>
    sched_rel wk (a_expire wk A) s'"
proof -
  have w: "wheel_rel wk (a_paused A) s" and now: "clock_tick s = a_now A" using rel by (auto simp: sched_rel_def)
  have "first_new s \<notin> Some ` set (a_paused A)"
    using rel by (cases "a_new A") (auto simp: sched_rel_def)
  from expire_rel [OF w this] obtain s'
    where s': "expire_paused_tasks wk s = Inr (int (length (due_order wk (a_now A) (a_paused A))), s')"
      "wheel_rel wk (still_paused wk (a_now A) (a_paused A)) s'" "wheel_base s' = a_now A"
      and res: "resumed (due_order wk (a_now A) (a_paused A)) s s'" unfolding now by blast
  have "distinct (a_ran A @ a_new A)" using rel by (auto simp: sched_rel_def)
  note parts = parts_of_queue [OF this]
  have "running_tasks s' = a_ran A @ due_order wk (a_now A) (a_paused A) @ a_new A"
    using res rel parts by (simp add: resumed_def sched_rel_def)
  moreover have "first_new s' = first_of (a_new A)" "all_tasks s' = a_all A" "clock_tick s' = a_now A"
    "running s' = (\<lambda>t. running s t \<or> t \<in> set (due_order wk (a_now A) (a_paused A)))"
    using res rel by (auto simp: resumed_def sched_rel_def)
  moreover have "distinct (still_paused wk (a_now A) (a_paused A))"
    using wheel_rel_distinct [OF s'(2)] .
  ultimately have "sched_rel wk (a_expire wk A) s'"
    using rel s' by (auto simp: sched_rel_def a_expire_def due_order_set still_paused_set due_order_distinct)
  with s'(1) show ?thesis by blast
qed


section \<open>Runs of the scheduler\<close>

text \<open>
  What happens to the scheduler: tasks are made and deleted, put to sleep and woken, a task that
  does not sleep changes its wake time, the clock moves on, and the paused tasks are expired. The
  wake times are part of the state.
\<close>

datatype 't sched_op =
    New_task 't | Delete_task 't | Set_running 't | Set_paused 't
  | Set_wake 't "32 word" | Set_clock nat | Expire

fun sched_step :: "'t sched_op \<Rightarrow> 't waker \<times> 't sched \<Rightarrow> ('t waker \<times> 't sched) res" where
  "sched_step (New_task t) (wk, s) = Inr (wk, new_task t s)"
| "sched_step (Delete_task t) (wk, s) = bindE (delete_task t s) (\<lambda>s'. Inr (wk, s'))"
| "sched_step (Set_running t) (wk, s) = bindE (setRunning t s) (\<lambda>s'. Inr (wk, s'))"
| "sched_step (Set_paused t) (wk, s) = bindE (setPaused wk t s) (\<lambda>s'. Inr (wk, s'))"
| "sched_step (Set_wake t w) (wk, s) = Inr (wk(t := w), s)"
| "sched_step (Set_clock now) (wk, s) = Inr (wk, s\<lparr>clock_tick := now\<rparr>)"
| "sched_step Expire (wk, s) = bindE (expire_paused_tasks wk s) (\<lambda>(found, s'). Inr (wk, s'))"

fun a_step :: "'t sched_op \<Rightarrow> 't waker \<times> 't asched \<Rightarrow> 't waker \<times> 't asched" where
  "a_step (New_task t) (wk, A) = (wk, a_new_task t A)"
| "a_step (Delete_task t) (wk, A) = (wk, a_delete t A)"
| "a_step (Set_running t) (wk, A) = (wk, a_set_running t A)"
| "a_step (Set_paused t) (wk, A) = (wk, a_set_paused wk t A)"
| "a_step (Set_wake t w) (wk, A) = (wk(t := w), A)"
| "a_step (Set_clock now) (wk, A) = (wk, A\<lparr>a_now := now\<rparr>)"
| "a_step Expire (wk, A) = (wk, a_expire wk A)"

fun sched_ok :: "'t sched_op \<Rightarrow> 't waker \<times> 't asched \<Rightarrow> bool" where
  "sched_ok (New_task t) (wk, A) = (t \<notin> set (a_all A))"
| "sched_ok (Delete_task t) (wk, A) = (t \<in> set (a_all A))"
| "sched_ok (Set_running t) (wk, A) = (t \<in> set (a_all A))"
| "sched_ok (Set_paused t) (wk, A) =
     (t \<in> set (a_all A) \<and>
      \<not> (before_move (a_base A) \<and> (\<exists>u\<in>set (a_paused A). u \<noteq> t \<and> wk u = wk t)))"
| "sched_ok (Set_wake t w) (wk, A) = (t \<notin> set (a_paused A))"
| "sched_ok (Set_clock now) (wk, A) = (a_now A \<le> now)"
| "sched_ok Expire (wk, A) = True"

fun run_rel :: "'t waker \<times> 't asched \<Rightarrow> 't waker \<times> 't sched \<Rightarrow> bool" where
  "run_rel (wk, A) (wk', s) = (wk = wk' \<and> sched_rel wk A s)"

lemma wheel_rel_wake:
  assumes rel: "wheel_rel wk P s" and t: "t \<notin> set P"
  shows "wheel_rel (wk(t := w)) P s"
proof -
  have same: "(wk(t := w)) u = wk u" if "u \<in> set P \<or> u \<in> set (wheel s l)" for u l
    using that t wheel_rel_set [OF rel, of u] by auto
  have "wakes (wk(t := w)) v (wheel s l) = wakes wk v (wheel s l)" for v l
    by (intro filter_cong refl) (metis same)
  then have "queue (wk(t := w)) b (wheel s) v = queue wk b (wheel s) v" for b v
    by (simp add: queue_def later_queue_def del: fun_upd_apply)
  moreover have "wakes (wk(t := w)) v P = wakes wk v P" for v
    by (intro filter_cong refl) (metis same)
  moreover have "\<forall>l. \<forall>u\<in>set (wheel s l). fits (wheel_base s) l (unat ((wk(t := w)) u)) \<and> pauselist s u = Some l"
    by (metis same wheel_rel_fits [OF rel] wheel_rel_pauselist [OF rel])
  ultimately show ?thesis
    using rel same by (simp add: wheel_rel_def del: fun_upd_apply)
qed

lemma wheel_rel_clock: "wheel_rel wk P s \<Longrightarrow> wheel_base s \<le> now \<Longrightarrow> wheel_rel wk P (s\<lparr>clock_tick := now\<rparr>)"
  by (simp add: wheel_rel_def)

interpretation sch: simulation sched_step a_step sched_ok run_rel
proof
  fix a :: "'t waker \<times> 't asched" and c :: "'t waker \<times> 't sched" and x
  assume r: "run_rel a c" and ok: "sched_ok x a"
  obtain wk A where a: "a = (wk, A)" by (cases a)
  obtain s where c: "c = (wk, s)" and rel: "sched_rel wk A s" using r a by (cases c) auto
  have le: "a_base A \<le> a_now A" using rel wheel_rel_base [of wk "a_paused A" s] by (simp add: sched_rel_def)
  show "\<exists>c'. sched_step x c = Inr c' \<and> run_rel (a_step x a) c'"
  proof (cases x)
    case (New_task t)
    then show ?thesis using new_task_rel [OF rel] ok by (simp add: a c)
  next
    case (Delete_task t)
    then show ?thesis using delete_task_rel [OF rel] ok by (auto simp: a c)
  next
    case (Set_running t)
    then show ?thesis using setRunning_rel [OF rel] ok by (auto simp: a c)
  next
    case (Set_paused t)
    then show ?thesis using setPaused_rel [OF rel] ok by (fastforce simp: a c)
  next
    case (Set_wake t w)
    then have "wheel_rel (wk(t := w)) (a_paused A) s"
      using wheel_rel_wake rel ok by (auto simp: sched_rel_def a c)
    with Set_wake rel show ?thesis by (simp add: a c sched_rel_def)
  next
    case (Set_clock now)
    then have "wheel_rel wk (a_paused A) (s\<lparr>clock_tick := now\<rparr>)"
      using wheel_rel_clock [of wk "a_paused A" s now] rel ok le by (simp add: sched_rel_def a c)
    with Set_clock rel show ?thesis by (simp add: a c sched_rel_def)
  next
    case Expire
    then show ?thesis using expire_sched_rel [OF rel] by (auto simp: a c)
  qed
qed

section \<open>Aborting all tasks\<close>

lemma abort_tasks_rel:
  assumes "sched_rel wk A s"
  shows "\<exists>s'. abort_tasks (length (a_all A)) s = Inr s' \<and> all_tasks s' = [] \<and> running_tasks s' = [] \<and>
    wheel_count s' = 0 \<and> (\<forall>l. wheel s' l = [])"
  using assms
proof (induction "length (a_all A)" arbitrary: A s)
  case 0
  then have e: "a_all A = []" "a_ran A = []" "a_new A = []" "a_paused A = []"
    by (auto simp: sched_rel_def)
  with 0 have r: "wheel_rel wk [] s" by (simp add: sched_rel_def)
  have "wheel_count s = 0" using wheel_rel_count [OF r] by simp
  moreover have "wheel s l = []" for l
    using wheel_rel_set [OF r] by (metis empty_iff empty_set last_in_set)
  ultimately show ?case using 0 e by (simp add: sched_rel_def)
next
  case (Suc n)
  then obtain t ts where ts: "a_all A = t # ts" by (metis length_Suc_conv)
  with delete_task_rel [OF Suc.prems, of t] obtain s1
    where s1: "delete_task t s = Inr s1" "sched_rel wk (a_delete t A) s1" by auto
  from ts have "n = length (a_all (a_delete t A))" using Suc(2) by (simp add: a_delete_def)
  from Suc(1) [OF this s1(2)] Suc(2,3) ts s1(1) show ?case
    by (auto simp: sched_rel_def a_delete_def)
qed


section \<open>Properties\<close>

abbreviation a_init :: "nat \<Rightarrow> 't asched" where
  "a_init now \<equiv> \<lparr>a_now = now, a_base = now, a_all = [], a_ran = [], a_new = [], a_paused = []\<rparr>"


lemma two_paused:
  "\<exists>s. run_res sched_step [New_task (1::nat), New_task 2, Set_wake 1 5000, Set_wake 2 100, Set_paused 1, Set_paused 2, Set_clock 6000]
      (\<lambda>_. 0, init_sched 0) = Inr ((\<lambda>_. 0)(1 := 5000, 2 := 100), s) \<and>
    sched_rel ((\<lambda>_. 0)(1 := 5000, 2 := 100))
      \<lparr>a_now = 6000, a_base = 0, a_all = [1, 2], a_ran = [], a_new = [], a_paused = [1, 2]\<rparr> s"
  using sch.run_sim [where a = "(\<lambda>_. 0, a_init 0)" and s = "(\<lambda>_. 0, init_sched 0)" and
    xs = "[New_task (1::nat), New_task 2, Set_wake 1 5000, Set_wake 2 100, Set_paused 1, Set_paused 2, Set_clock 6000]"]
    sched_rel_init [of "\<lambda>_. 0" 0]
  by (auto simp: a_new_task_def a_set_paused_def a_unlink_def before_move_def)


text \<open>
  C11: the scheduler refines the abstract one. From the empty scheduler, every legal sequence of
  task creations and deletions, pauses, resumes, changes of the wake time of a task that does not
  sleep, clock steps and expiries runs without any failure (no assertion, no error exit, no invalid
  list access), and ends with the task list, the run queue, its mark and the number of paused tasks
  that the abstract operations give.
\<close>

theorem scheduler_refines:
  assumes "legal_run sched_ok a_step ops (wk, a_init now)"
    and "fold a_step ops (wk, a_init now) = (wk', A')"
  shows "\<exists>s'. run_res sched_step ops (wk, init_sched now) = Inr (wk', s') \<and>
    all_tasks s' = a_all A' \<and> running_tasks s' = a_ran A' @ a_new A' \<and>
    first_new s' = first_of (a_new A') \<and> wheel_count s' = int (length (a_paused A'))"
proof -
  have "run_rel (wk, a_init now) (wk, init_sched now)" by (simp add: sched_rel_init)
  from sch.run_sim [OF this assms(1)] assms(2) obtain c
    where "run_res sched_step ops (wk, init_sched now) = Inr c" "run_rel (wk', A') c" by auto
  moreover obtain w s where "c = (w, s)" by (cases c)
  ultimately show ?thesis using wheel_rel_count by (fastforce simp: sched_rel_def)
qed

theorem scheduler_refines_witness:
  "\<exists>s' :: nat sched. run_res sched_step
      [New_task 1, New_task 2, New_task 3, Set_wake 1 70, Set_wake 2 50, Set_wake 3 50, Set_paused 2,
       Set_paused 3, Set_paused 1, New_task 4, Set_clock 90, Expire, Delete_task 2]
      (\<lambda>_. 0, init_sched 10) = Inr ((\<lambda>_. 0)(1 := 70, 2 := 50, 3 := 50), s') \<and>
    all_tasks s' = [1, 3, 4] \<and> running_tasks s' = [3, 1, 4] \<and> first_new s' = Some 4 \<and> wheel_count s' = 0"
  using scheduler_refines [where ops = "[New_task 1, New_task 2, New_task 3, Set_wake 1 70, Set_wake 2 50,
      Set_wake 3 50, Set_paused 2, Set_paused 3, Set_paused 1, New_task (4::nat), Set_clock 90, Expire, Delete_task 2]"
      and wk = "\<lambda>_. 0" and now = 10]
  by (simp add: a_new_task_def a_set_paused_def a_unlink_def a_expire_def a_delete_def before_move_def
      due_order_def still_paused_def sort_key_def)





section \<open>The order at a boundary\<close>

text \<open>
  The premise on \<open>Set_paused\<close> in \<open>sched_ok\<close> is needed. Task 1 is paused just before the last window
  before the \<open>2^22\<close> ms boundary starts, and waits in the third wheel; task 2 is paused for the same
  time as that window starts, and goes to the second wheel. The third wheel is emptied after that,
  so task 1 comes behind task 2.
\<close>

definition late_wake :: "nat waker" where
  "late_wake = (\<lambda>_. 0)(1 := 4218880, 2 := 4218880)"

definition crossed :: "nat sched" where
  "crossed = \<lparr>clock_tick = 4218881, all_tasks = [1, 2], running_tasks = [], first_new = None,
     running = (\<lambda>_. False),
     pauselist = (\<lambda>_. None)(1 := Some (Wheel_three 1), 2 := Some (Wheel_two 6)),
     wheel = (\<lambda>_. [])(Wheel_three 1 := [1], Wheel_two 6 := [2]), wheel_count = 2,
     wheel_base = 4190208\<rparr>"

lemma crossed_rel: "wheel_rel late_wake [2, 1] crossed"
proof -
  have "\<forall>l. \<forall>t\<in>set (wheel crossed l). fits 4190208 l (unat (late_wake t)) \<and> pauselist crossed t = Some l"
    by (auto simp: crossed_def late_wake_def before_move_def)
  moreover have "queue late_wake 4190208 (wheel crossed) w = wakes late_wake w [2, 1]" if "0 < w" for w
  proof (cases "w = 4218880")
    case True
    then show ?thesis
      by (simp add: queue_def later_queue_def crossed_def late_wake_def before_move_def)
  next
    case False
    then have "wakes late_wake w (wheel crossed l) = []" for l
      by (auto simp: crossed_def late_wake_def)
    with False show ?thesis
      by (simp add: queue_def later_queue_def late_wake_def)
  qed
  ultimately show ?thesis
    by (simp add: wheel_rel_def crossed_def late_wake_def)
qed


definition to_last_window :: "nat sched_op list" where
  "to_last_window = [New_task 1, New_task 2, Set_wake 1 4218880, Set_wake 2 4218880, Set_paused 1,
     Set_clock 4190208]"

definition at_last_window :: "nat sched" where
  "at_last_window = \<lparr>clock_tick = 4190208, all_tasks = [1, 2], running_tasks = [2], first_new = Some 2,
    running = (\<lambda>_. False)(2 := True), pauselist = (\<lambda>_. None)(1 := Some (Wheel_three 1)),
    wheel = (\<lambda>_. [])(Wheel_three 1 := [1]), wheel_count = 1, wheel_base = 4190207\<rparr>"

lemma reaches_last_window:
  "run_res sched_step to_last_window (\<lambda>_. 0, init_sched 4190207) = Inr (late_wake, at_last_window)"
  by (simp add: to_last_window_def at_last_window_def init_sched_def new_task_def setPaused_def
      remove_from_runqueue_def add_paused_task_def task2list_def next_of_def late_wake_def fun_eq_iff)

lemma expire_last_window:
  "expire_paused_tasks late_wake at_last_window = Inr (0, at_last_window\<lparr>wheel_base := 4190208\<rparr>)"
  by (simp add: at_last_window_def expire_paused_tasks_def expire_loop.simps expire_step_def
      move_third_wheel_def move_next_window_def run_due_slot_def fun_eq_iff)

lemma pause_last_window:
  "setPaused late_wake 2 (at_last_window\<lparr>wheel_base := 4190208\<rparr>) = Inr (crossed\<lparr>clock_tick := 4190208\<rparr>)"
  by (simp add: at_last_window_def setPaused_def remove_from_runqueue_def add_paused_task_def
      task2list_def next_of_def late_wake_def crossed_def fun_eq_iff)

lemma reaches_crossed:
  "run_res sched_step (to_last_window @ [Expire, Set_paused 2, Set_clock 4218881])
     (\<lambda>_. 0, init_sched 4190207) = Inr (late_wake, crossed)"
  unfolding run_res_append reaches_last_window
  by (simp add: expire_last_window pause_last_window del: bindE_eq_Inr) (simp add: crossed_def)

text \<open>
  At such a boundary two tasks with the same wake time run in the opposite order of their
  pauses: task 1 is paused first and task 2 runs first. The reference that the unit test of the
  wheel compares against orders tasks of the same wake time by their pauses.
\<close>

theorem pause_order_lost_at_boundary:
  "\<exists>s. run_res sched_step
      [New_task 1, New_task 2, Set_wake 1 4218880, Set_wake 2 4218880, Set_paused 1,
       Set_clock 4190208, Expire, Set_paused 2, Set_clock 4218881, Expire]
      (\<lambda>_. 0, init_sched 4190207) = Inr (late_wake, s) \<and> running_tasks s = [2, 1 :: nat]"
proof -
  have "first_new crossed \<notin> Some ` set [2, 1]" by (simp add: crossed_def)
  from expire_rel [OF crossed_rel this] obtain s n
    where e: "expire_paused_tasks late_wake crossed = Inr (n, s)"
      and r: "resumed (due_order late_wake 4218881 [2, 1]) crossed s"
    by (auto simp: crossed_def)
  have "due_order late_wake 4218881 [2, 1] = [2, 1]"
    by (simp add: due_order_def late_wake_def sort_key_def)
  with r have "running_tasks s = [2, 1]" by (simp add: resumed_def crossed_def)
  moreover have "run_res sched_step ((to_last_window @ [Expire, Set_paused 2, Set_clock 4218881]) @ [Expire])
      (\<lambda>_. 0, init_sched 4190207) = Inr (late_wake, s)"
    unfolding run_res_append [of _ _ "[Expire]"] reaches_crossed using e by simp
  ultimately show ?thesis unfolding to_last_window_def append.simps append_assoc by blast
qed

end
