(* ===== verification/Open_Addressing.thy ===== *)
theory Open_Addressing
  imports Sipp_Prelude
begin

text \<open>
  Linear probing in a circular table, on natural numbers: the search for a key and the removal
  that moves entries back into the hole. The loops of \<^verbatim>\<open>listener.cpp\<close> are these loops, on 32 bit
  words with a mask (theory \<open>Listener_Table\<close>).
\<close>

section \<open>Distances on a circle\<close>

text \<open>The number of steps from slot \<open>a\<close> to slot \<open>b\<close> of \<open>n\<close>.\<close>

definition dist :: "nat \<Rightarrow> nat \<Rightarrow> nat \<Rightarrow> nat" where
  "dist n a b = (if a \<le> b then b - a else b + n - a)"

abbreviation succ :: "nat \<Rightarrow> nat \<Rightarrow> nat" where
  "succ n i \<equiv> (i + 1) mod n"

lemma succ_eq: "i < n \<Longrightarrow> succ n i = (if i + 1 = n then 0 else i + 1)"
  by auto

lemma dist_less: "a < n \<Longrightarrow> b < n \<Longrightarrow> dist n a b < n"
  by (auto simp: dist_def)

lemma dist_0 [simp]: "a < n \<Longrightarrow> b < n \<Longrightarrow> dist n a b = 0 \<longleftrightarrow> a = b"
  by (auto simp: dist_def)

lemma dist_self [simp]: "dist n a a = 0"
  by (simp add: dist_def)

lemma dist_inj: "a < n \<Longrightarrow> b < n \<Longrightarrow> c < n \<Longrightarrow> dist n a b = dist n a c \<Longrightarrow> b = c"
  by (auto simp: dist_def split: if_splits)

lemma dist_trans:
  "a < n \<Longrightarrow> b < n \<Longrightarrow> c < n \<Longrightarrow> dist n a b \<le> dist n a c \<Longrightarrow> dist n a c = dist n a b + dist n b c"
  by (auto simp: dist_def split: if_splits)

lemma dist_trans':
  "a < n \<Longrightarrow> b < n \<Longrightarrow> c < n \<Longrightarrow> dist n b c \<le> dist n a c \<Longrightarrow> dist n a c = dist n a b + dist n b c"
  by (auto simp: dist_def split: if_splits)

lemma dist_succ_left: "a < n \<Longrightarrow> b < n \<Longrightarrow> a \<noteq> b \<Longrightarrow> dist n a b = Suc (dist n (succ n a) b)"
  by (subst succ_eq) (auto simp: dist_def)

lemma dist_succ_right:
  assumes "a < n" "b < n" "succ n b \<noteq> a"
  shows "dist n a (succ n b) = Suc (dist n a b)"
  using assms(1,2) assms(3) [unfolded succ_eq [OF assms(2)]]
  unfolding succ_eq [OF assms(2)] by (auto simp: dist_def)

lemma dist_succ_self: "1 < n \<Longrightarrow> a < n \<Longrightarrow> dist n a (succ n a) = 1"
  by (subst succ_eq) (auto simp: dist_def)

lemma succ_less [simp]: "i < n \<Longrightarrow> Suc i mod n < n"
  by (rule mod_less_divisor) simp

section \<open>Tables\<close>

text \<open>
  \<open>probing hm xs\<close>: between the home slot of an entry and the slot it is in, no slot is free.
\<close>

definition probing :: "('e \<Rightarrow> nat) \<Rightarrow> 'e option list \<Rightarrow> bool" where
  "probing hm xs \<longleftrightarrow>
     (\<forall>j<length xs. \<forall>e. xs ! j = Some e \<longrightarrow> hm e < length xs \<and>
       (\<forall>q<length xs. dist (length xs) (hm e) q < dist (length xs) (hm e) j \<longrightarrow> xs ! q \<noteq> None))"

definition entries :: "'e option list \<Rightarrow> 'e list" where
  "entries xs = concat (map (\<lambda>x. case x of None \<Rightarrow> [] | Some e \<Rightarrow> [e]) xs)"

lemma set_entries: "set (entries xs) = {e. Some e \<in> set xs}"
proof -
  have "e \<in> set (entries xs) \<longleftrightarrow> Some e \<in> set xs" for e
    by (induction xs) (auto simp: entries_def split: option.splits)
  then show ?thesis by blast
qed

lemma entries_iff: "e \<in> set (entries xs) \<longleftrightarrow> (\<exists>j<length xs. xs ! j = Some e)"
  by (simp add: set_entries in_set_conv_nth)

lemma entries_Nil [simp]: "entries [] = []"
  and entries_Cons: "entries (x # xs) = (case x of None \<Rightarrow> [] | Some e \<Rightarrow> [e]) @ entries xs"
  and entries_append: "entries (xs @ ys) = entries xs @ entries ys"
  by (simp_all add: entries_def)

lemma entries_replicate [simp]: "entries (replicate n None) = []"
  by (induction n) (simp_all add: entries_Cons)

text \<open>What changing one slot does to the entries.\<close>

lemma entries_update:
  assumes "j < length xs"
  shows "mset (entries (xs[j := y])) + mset (case xs ! j of None \<Rightarrow> [] | Some e \<Rightarrow> [e]) =
    mset (entries xs) + mset (case y of None \<Rightarrow> [] | Some e \<Rightarrow> [e])"
proof -
  have xs: "xs = take j xs @ xs ! j # drop (Suc j) xs" using assms by (simp add: id_take_nth_drop)
  have "xs[j := y] = take j xs @ y # drop (Suc j) xs" using assms by (simp add: upd_conv_take_nth_drop)
  then show ?thesis
    by (subst (2) xs) (simp add: entries_append entries_Cons)
qed

section \<open>Searching\<close>

fun nprobe :: "nat \<Rightarrow> 'e option list \<Rightarrow> ('e \<Rightarrow> bool) \<Rightarrow> nat \<Rightarrow> nat option" where
  "nprobe 0 xs m i = None"
| "nprobe (Suc f) xs m i =
     (case xs ! i of
        None \<Rightarrow> Some i
      | Some e \<Rightarrow> if m e then Some i else nprobe f xs m (succ (length xs) i))"

definition stops :: "'e option list \<Rightarrow> ('e \<Rightarrow> bool) \<Rightarrow> nat \<Rightarrow> bool" where
  "stops xs m j = (case xs ! j of None \<Rightarrow> True | Some e \<Rightarrow> m e)"

lemma nprobe_reaches:
  assumes "i < length xs" and "j < length xs" and "stops xs m j" and "dist (length xs) i j < f"
    and "\<And>q. q < length xs \<Longrightarrow> dist (length xs) i q < dist (length xs) i j \<Longrightarrow> \<not> stops xs m q"
  shows "nprobe f xs m i = Some j"
  using assms
proof (induction f arbitrary: i)
  case 0
  then show ?case by simp
next
  case (Suc f)
  show ?case
  proof (cases "i = j")
    case True
    with Suc.prems show ?thesis by (auto simp: stops_def split: option.splits)
  next
    case False
    let ?n = "length xs"
    have d: "dist ?n i q = Suc (dist ?n (succ ?n i) q)" if "q < ?n" "q \<noteq> i" for q
      using dist_succ_left [of i ?n q] that Suc.prems(1) by auto
    from False have "0 < dist ?n i j" using Suc.prems(1,2) by (simp add: zero_less_iff_neq_zero)
    with Suc.prems(5) [of i] Suc.prems(1) have "\<not> stops xs m i" by simp
    then have step: "nprobe (Suc f) xs m i = nprobe f xs m (succ ?n i)"
      by (auto simp: stops_def split: option.splits)
    have "nprobe f xs m (succ ?n i) = Some j"
    proof (rule Suc.IH)
      show "dist ?n (succ ?n i) j < f" using d [of j] Suc.prems(2,4) False by simp
      fix q assume q: "q < ?n" "dist ?n (succ ?n i) q < dist ?n (succ ?n i) j"
      show "\<not> stops xs m q"
      proof (cases "q = i")
        case True
        with \<open>\<not> stops xs m i\<close> show ?thesis by simp
      next
        case neq: False
        then show ?thesis using Suc.prems(5) [of q] d [of q] d [of j] q Suc.prems(2) False by simp
      qed
    qed (use Suc.prems in \<open>auto intro: succ_less\<close>)
    with step show ?thesis by simp
  qed
qed

text \<open>A table with a free slot: the search ends.\<close>

lemma nprobe_ends:
  assumes i: "i < length xs" and free: "None \<in> set xs"
  shows "\<exists>j<length xs. nprobe (length xs) xs m i = Some j \<and> stops xs m j \<and>
    (\<forall>q<length xs. dist (length xs) i q < dist (length xs) i j \<longrightarrow> \<not> stops xs m q)"
proof -
  let ?n = "length xs"
  from free obtain z where "z < ?n" "xs ! z = None" by (metis in_set_conv_nth)
  then have "z < ?n \<and> stops xs m z" by (simp add: stops_def)
  from ex_has_least_nat [where P = "\<lambda>j. j < ?n \<and> stops xs m j" and m = "dist ?n i", OF this]
  obtain j where j: "j < ?n" "stops xs m j"
    and least: "\<And>q. q < ?n \<Longrightarrow> stops xs m q \<Longrightarrow> dist ?n i j \<le> dist ?n i q" by blast
  have before: "\<not> stops xs m q" if "q < ?n" "dist ?n i q < dist ?n i j" for q
    using least [of q] that by auto
  have "nprobe ?n xs m i = Some j"
    by (rule nprobe_reaches [OF i j dist_less [OF i j(1)] before])
  with j before show ?thesis by blast
qed

text \<open>
  An entry that matches and is in the table is where the search from its home ends, if no other
  entry matches.
\<close>

lemma nprobe_finds:
  assumes p: "probing hm xs" and free: "None \<in> set xs" and e: "e \<in> set (entries xs)" "m e"
    and one: "\<And>e'. e' \<in> set (entries xs) \<Longrightarrow> m e' \<Longrightarrow> e' = e"
  shows "\<exists>j<length xs. nprobe (length xs) xs m (hm e) = Some j \<and> xs ! j = Some e"
proof -
  let ?n = "length xs"
  from e obtain k where k: "k < ?n" "xs ! k = Some e" by (auto simp: entries_iff)
  with p have h: "hm e < ?n" and path: "\<And>q. q < ?n \<Longrightarrow> dist ?n (hm e) q < dist ?n (hm e) k \<Longrightarrow> xs ! q \<noteq> None"
    by (auto simp: probing_def)
  from nprobe_ends [OF h free, of m] obtain j where j: "j < ?n" "nprobe ?n xs m (hm e) = Some j" "stops xs m j"
    and before: "\<And>q. q < ?n \<Longrightarrow> dist ?n (hm e) q < dist ?n (hm e) j \<Longrightarrow> \<not> stops xs m q" by blast
  have "\<not> dist ?n (hm e) k < dist ?n (hm e) j" using before [of k] k e(2) by (auto simp: stops_def)
  moreover have "xs ! j \<noteq> None" if "dist ?n (hm e) j < dist ?n (hm e) k" using path j(1) that by blast
  moreover have "j = k" if "dist ?n (hm e) j = dist ?n (hm e) k" using dist_inj [OF h j(1) k(1) that] .
  ultimately have "xs ! j \<noteq> None" using k by (metis nat_neq_iff option.distinct(1))
  then obtain e' where e': "xs ! j = Some e'" by auto
  with j(3) have "m e'" by (simp add: stops_def)
  moreover have "e' \<in> set (entries xs)" using e' j(1) by (auto simp: entries_iff)
  ultimately have "e' = e" using one by blast
  with e' j show ?thesis by blast
qed

text \<open>Filling the free slot where a search from the entry's home ends, or replacing an entry.\<close>

lemma probing_fill:
  assumes p: "probing hm xs" and j: "j < length xs" and h: "hm e < length xs"
    and path: "\<And>q. q < length xs \<Longrightarrow> dist (length xs) (hm e) q < dist (length xs) (hm e) j \<Longrightarrow> xs ! q \<noteq> None"
  shows "probing hm (xs[j := Some e])"
  unfolding probing_def length_list_update
proof (intro allI impI conjI)
  fix k e' assume k: "k < length xs" "xs[j := Some e] ! k = Some e'"
  show "hm e' < length xs" using p h k j by (cases "k = j") (auto simp: probing_def)
  fix q assume q: "q < length xs" "dist (length xs) (hm e') q < dist (length xs) (hm e') k"
  show "xs[j := Some e] ! q \<noteq> None"
  proof (cases "q = j")
    case False
    then show ?thesis
    proof (cases "k = j")
      case True
      with k j have "e' = e" by simp
      with path q True False show ?thesis by simp
    next
      case kj: False
      with k have "xs ! k = Some e'" by simp
      with p k q False show ?thesis unfolding probing_def by (metis nth_list_update_neq)
    qed
  qed (use j in simp)
qed

lemma probing_empty: "probing hm (replicate n None)"
  by (auto simp: probing_def)


section \<open>Removing\<close>

text \<open>
  The hole moves on past the entries that a search would not find beyond it. \<open>xs\<close> still has the
  old entry in the hole.
\<close>

fun nfree :: "nat \<Rightarrow> ('e \<Rightarrow> nat) \<Rightarrow> 'e option list \<Rightarrow> nat \<Rightarrow> nat \<Rightarrow> ('e option list \<times> nat) option" where
  "nfree 0 hm xs hole i = None"
| "nfree (Suc f) hm xs hole i =
     (case xs ! i of
        None \<Rightarrow> Some (xs, hole)
      | Some e \<Rightarrow>
          if dist (length xs) hole i \<le> dist (length xs) (hm e) i
          then nfree f hm (xs[hole := xs ! i]) i (succ (length xs) i)
          else nfree f hm xs hole (succ (length xs) i))"

text \<open>
  The invariant of the loop: every path from a home to its entry is free of gaps but for the hole,
  and the entries whose path has the hole are not before \<open>i\<close>.
\<close>

definition hole_inv :: "('e \<Rightarrow> nat) \<Rightarrow> 'e option list \<Rightarrow> nat \<Rightarrow> nat \<Rightarrow> bool" where
  "hole_inv hm xs hole i \<longleftrightarrow>
     (let n = length xs in
      hole < n \<and> i < n \<and> hole \<noteq> i \<and>
      (\<forall>j<n. \<forall>e. j \<noteq> hole \<longrightarrow> xs ! j = Some e \<longrightarrow> hm e < n \<and>
        (\<forall>q<n. dist n (hm e) q < dist n (hm e) j \<longrightarrow> q \<noteq> hole \<longrightarrow> xs ! q \<noteq> None) \<and>
        (dist n (hm e) hole < dist n (hm e) j \<longrightarrow> dist n hole i \<le> dist n hole j)))"

lemma hole_invD:
  assumes "hole_inv hm xs hole i"
  shows "hole < length xs" "i < length xs" "hole \<noteq> i"
    and "\<And>j e. j < length xs \<Longrightarrow> j \<noteq> hole \<Longrightarrow> xs ! j = Some e \<Longrightarrow> hm e < length xs"
    and "\<And>j e q. j < length xs \<Longrightarrow> j \<noteq> hole \<Longrightarrow> xs ! j = Some e \<Longrightarrow> q < length xs \<Longrightarrow> q \<noteq> hole \<Longrightarrow>
      dist (length xs) (hm e) q < dist (length xs) (hm e) j \<Longrightarrow> xs ! q \<noteq> None"
    and "\<And>j e. j < length xs \<Longrightarrow> j \<noteq> hole \<Longrightarrow> xs ! j = Some e \<Longrightarrow>
      dist (length xs) (hm e) hole < dist (length xs) (hm e) j \<Longrightarrow> dist (length xs) hole i \<le> dist (length xs) hole j"
  using assms by (auto simp: hole_inv_def Let_def)

lemma hole_inv_start:
  assumes "probing hm xs" and "hole < length xs" and "1 < length xs"
  shows "hole_inv hm xs hole (succ (length xs) hole)"
proof -
  let ?n = "length xs"
  have one: "dist ?n hole (succ ?n hole) = 1" using assms by (intro dist_succ_self)
  then have "hole \<noteq> succ ?n hole" by (metis dist_self zero_neq_one)
  moreover have "1 \<le> dist ?n hole j" if "j < ?n" "j \<noteq> hole" for j
    using that assms(2) by (metis dist_0 less_one not_less)
  ultimately show ?thesis using assms one by (auto simp: hole_inv_def probing_def Let_def)
qed

text \<open>When the loop ends the table with the hole emptied is gapless.\<close>

lemma hole_inv_end:
  assumes inv: "hole_inv hm xs hole i" and none: "xs ! i = None"
  shows "probing hm (xs[hole := None])"
  unfolding probing_def length_list_update
proof (intro allI impI conjI)
  let ?n = "length xs"
  note D = hole_invD [OF inv]
  fix j e assume j: "j < ?n" "xs[hole := None] ! j = Some e"
  then have jh: "j \<noteq> hole" and e: "xs ! j = Some e" using D(1) by (auto simp: nth_list_update split: if_splits)
  show h: "hm e < ?n" using D(4) j(1) jh e by blast
  have off: "\<not> dist ?n (hm e) hole < dist ?n (hm e) j"
  proof
    assume on: "dist ?n (hm e) hole < dist ?n (hm e) j"
    have le: "dist ?n hole i \<le> dist ?n hole j" using D(6) j(1) jh e on by blast
    have ij: "i \<noteq> j" using e none by auto
    have "dist ?n hole i \<noteq> dist ?n hole j" using dist_inj D(1,2) j(1) ij by blast
    with le have lt: "dist ?n hole i < dist ?n hole j" by simp
    have a: "dist ?n (hm e) j = dist ?n (hm e) hole + dist ?n hole j"
      using on by (intro dist_trans) (use h D(1) j(1) in auto)
    have "dist ?n (hm e) i < dist ?n (hm e) j"
    proof (rule ccontr)
      assume "\<not> ?thesis"
      then have "dist ?n (hm e) hole \<le> dist ?n (hm e) i" using on by simp
      then have "dist ?n (hm e) i = dist ?n (hm e) hole + dist ?n hole i"
        using dist_trans [of "hm e" ?n hole i] h D(1,2) by blast
      with a lt \<open>\<not> ?thesis\<close> show False by simp
    qed
    with D(5) [OF j(1) jh e D(2)] D(3) none show False by auto
  qed
  fix q assume q: "q < ?n" "dist ?n (hm e) q < dist ?n (hm e) j"
  with off have "q \<noteq> hole" by auto
  with D(5) [OF j(1) jh e q(1)] q(2) show "xs[hole := None] ! q \<noteq> None" by simp
qed

lemma hole_inv_skip:
  assumes inv: "hole_inv hm xs hole i" and e: "xs ! i = Some e"
    and far: "dist (length xs) (hm e) i < dist (length xs) hole i" and "succ (length xs) i \<noteq> hole"
  shows "hole_inv hm xs hole (succ (length xs) i)"
proof -
  let ?n = "length xs"
  note D = hole_invD [OF inv]
  have s: "dist ?n hole (succ ?n i) = Suc (dist ?n hole i)"
    using D(1,2) assms(4) by (intro dist_succ_right)
  have "dist ?n hole (succ ?n i) \<le> dist ?n hole j"
    if j: "j < ?n" "j \<noteq> hole" "xs ! j = Some e'" "dist ?n (hm e') hole < dist ?n (hm e') j" for j e'
  proof -
    have "j \<noteq> i"
    proof
      assume "j = i"
      with j e have "dist ?n (hm e) i = dist ?n (hm e) hole + dist ?n hole i"
        using D(1,2,4) by (intro dist_trans) auto
      with far show False by simp
    qed
    then have "dist ?n hole i \<noteq> dist ?n hole j" using dist_inj D(1,2) j(1) by blast
    with D(6) [OF j] s show ?thesis by simp
  qed
  with D assms(4) show ?thesis by (auto simp: hole_inv_def Let_def)
qed

lemma hole_inv_move:
  assumes inv: "hole_inv hm xs hole i" and e: "xs ! i = Some e" and n: "1 < length xs"
    and near: "dist (length xs) hole i \<le> dist (length xs) (hm e) i"
  shows "hole_inv hm (xs[hole := xs ! i]) i (succ (length xs) i)"
proof -
  let ?n = "length xs"
  let ?ys = "xs[hole := xs ! i]"
  note D = hole_invD [OF inv]
  have h: "hm e < ?n" using D(2-4) e by metis
  have split: "dist ?n (hm e) i = dist ?n (hm e) hole + dist ?n hole i"
    using near by (intro dist_trans') (use h D(1,2) in auto)
  have one: "dist ?n i (succ ?n i) = 1" using n D(2) by (intro dist_succ_self)
  then have "i \<noteq> succ ?n i" by (metis dist_self zero_neq_one)
  moreover have "hm e' < ?n \<and> (\<forall>q<?n. dist ?n (hm e') q < dist ?n (hm e') j \<longrightarrow> q \<noteq> i \<longrightarrow> ?ys ! q \<noteq> None) \<and>
      dist ?n i (succ ?n i) \<le> dist ?n i j"
    if j: "j < ?n" "j \<noteq> i" "?ys ! j = Some e'" for j e'
  proof (intro conjI allI impI)
    show "dist ?n i (succ ?n i) \<le> dist ?n i j" unfolding one using j D(2) by (metis dist_0 less_one not_less)
    show "hm e' < ?n" using j e h D(1,4) by (cases "j = hole") auto
    fix q assume q: "q < ?n" "dist ?n (hm e') q < dist ?n (hm e') j" "q \<noteq> i"
    show "?ys ! q \<noteq> None"
    proof (cases "q = hole")
      case True
      with D(1) e show ?thesis by simp
    next
      case qh: False
      show ?thesis
      proof (cases "j = hole")
        case True
        with j D(1) e have "e' = e" by simp
        with q True split have "dist ?n (hm e) q < dist ?n (hm e) i" by simp
        with D(5) [OF D(2) _ e q(1) qh] D(3) qh show ?thesis by simp
      next
        case False
        with j have "xs ! j = Some e'" by simp
        with D(5) [OF j(1) False this q(1) qh q(2)] qh show ?thesis by simp
      qed
    qed
  qed
  ultimately show ?thesis using D(1,2) by (auto simp: hole_inv_def Let_def)
qed

lemma entries_emptied:
  assumes "j < length xs" and "xs ! j = Some e"
  shows "mset (entries (xs[j := None])) = mset (entries xs) - {#e#}"
  using entries_update [OF assms(1), of None] assms(2) by (simp add: union_single_eq_diff [symmetric])

text \<open>
  The loop ends at the first free slot after the hole, and leaves a gapless table with all the
  entries but the one that was in the hole at the start.
\<close>

lemma nfree_correct:
  assumes "hole_inv hm xs hole i" and "z < length xs" and "xs ! z = None" and "1 < length xs"
    and "\<And>q. q < length xs \<Longrightarrow> dist (length xs) i q < dist (length xs) i z \<Longrightarrow> xs ! q \<noteq> None"
    and "dist (length xs) hole i + dist (length xs) i z < length xs"
    and "dist (length xs) i z < f" and "xs ! hole \<noteq> None"
  shows "\<exists>ys h'. nfree f hm xs hole i = Some (ys, h') \<and> h' < length xs \<and> length ys = length xs \<and>
    probing hm (ys[h' := None]) \<and> mset (entries (ys[h' := None])) = mset (entries (xs[hole := None])) \<and>
    ys ! h' \<noteq> None"
  using assms
proof (induction f arbitrary: xs hole i)
  case 0
  then show ?case by simp
next
  case (Suc f)
  let ?n = "length xs"
  note D = hole_invD [OF Suc.prems(1)]
  show ?case
  proof (cases "xs ! i")
    case None
    with hole_inv_end [OF Suc.prems(1) None] D(1) Suc.prems(8) show ?thesis by simp
  next
    case (Some e)
    let ?i = "succ ?n i"
    have iz: "i \<noteq> z" using Some Suc.prems(3) by auto
    have d: "dist ?n i z = Suc (dist ?n ?i z)" using D(2) Suc.prems(2) iz by (intro dist_succ_left)
    have nh: "?i \<noteq> hole"
    proof
      assume "?i = hole"
      then have "dist ?n i hole = 1" using dist_succ_self [OF Suc.prems(4) D(2)] by simp
      then have "dist ?n hole i = ?n - 1" using D(1-3) by (auto simp: dist_def split: if_splits)
      with Suc.prems(6) d show False by simp
    qed
    have s: "dist ?n hole ?i = Suc (dist ?n hole i)" using D(1,2) nh by (intro dist_succ_right)
    have later: "xs ! q \<noteq> None" if "q < ?n" "dist ?n ?i q < dist ?n ?i z" for q
    proof (cases "q = i")
      case False
      then have "dist ?n i q = Suc (dist ?n ?i q)" using D(2) that(1) by (intro dist_succ_left) auto
      with Suc.prems(5) [OF that(1)] d that(2) show ?thesis by simp
    qed (simp add: Some)
    have hz: "hole \<noteq> z" using Suc.prems(3,8) by auto
    show ?thesis
    proof (cases "dist ?n hole i \<le> dist ?n (hm e) i")
      case False
      then have inv: "hole_inv hm xs hole ?i"
        using hole_inv_skip [OF Suc.prems(1) Some _ nh] by simp
      have "\<exists>ys h'. nfree f hm xs hole ?i = Some (ys, h') \<and> h' < length xs \<and> length ys = length xs \<and>
        probing hm (ys[h' := None]) \<and> mset (entries (ys[h' := None])) = mset (entries (xs[hole := None])) \<and>
        ys ! h' \<noteq> None"
        by (rule Suc.IH [OF inv Suc.prems(2,3,4) later]) (use d s Suc.prems in auto)
      with False Some show ?thesis by simp
    next
      case True
      let ?ys = "xs[hole := xs ! i]"
      have inv: "hole_inv hm ?ys i ?i" by (rule hole_inv_move [OF Suc.prems(1) Some Suc.prems(4) True])
      have "\<exists>ys h'. nfree f hm ?ys i (succ (length ?ys) i) = Some (ys, h') \<and> h' < length ?ys \<and> length ys = length ?ys \<and>
        probing hm (ys[h' := None]) \<and> mset (entries (ys[h' := None])) = mset (entries (?ys[i := None])) \<and>
        ys ! h' \<noteq> None"
      proof (rule Suc.IH)
        show "hole_inv hm ?ys i (succ (length ?ys) i)" using inv by simp
        show "?ys ! z = None" using Suc.prems(3) hz by simp
        show "?ys ! q \<noteq> None" if "q < length ?ys" "dist (length ?ys) (succ (length ?ys) i) q < dist (length ?ys) (succ (length ?ys) i) z" for q
          using later [of q] that Some D(1) by (cases "q = hole") auto
        show "?ys ! i \<noteq> None" using Some D(3) by simp
        have "dist ?n i ?i = 1" using Suc.prems(4) D(2) by (intro dist_succ_self)
        then show "dist (length ?ys) i (succ (length ?ys) i) + dist (length ?ys) (succ (length ?ys) i) z < length ?ys"
          using d dist_less [OF D(2) Suc.prems(2)] by simp
      qed (use d Suc.prems in auto)
      moreover have "mset (entries (?ys[i := None])) = mset (entries (xs[hole := None]))"
      proof -
        obtain e0 where e0: "xs ! hole = Some e0" using Suc.prems(8) by auto
        have 1: "mset (entries ?ys) + {#e0#} = mset (entries xs) + {#e#}"
          using entries_update [OF D(1), of "xs ! i"] e0 Some by simp
        have 2: "mset (entries (?ys[i := None])) + {#e#} = mset (entries ?ys)"
          using entries_update [of i ?ys None] D(2,3) Some by simp
        have 3: "mset (entries (xs[hole := None])) + {#e0#} = mset (entries xs)"
          using entries_update [OF D(1), of None] e0 by simp
        have "(mset (entries (?ys[i := None])) + {#e#}) + {#e0#} = (mset (entries (xs[hole := None])) + {#e0#}) + {#e#}"
          unfolding 2 3 by (rule 1)
        then show ?thesis by (simp only: union_ac add_left_cancel)
      qed
      ultimately show ?thesis using True Some by simp
    qed
  qed
qed

end
