(* ===== verification/Listener_Table.thy ===== *)
theory Listener_Table
  imports Open_Addressing
begin

unbundle bit_operations_syntax

text \<open>
  The table of \<^verbatim>\<open>listener.cpp\<close> from the keys of incoming messages to the listeners that take
  them: 1024 parts, each an open addressing table that grows on its own.

  A slot is free (\<open>None\<close>, a null \<^verbatim>\<open>owner\<close>) or has an entry. \<^verbatim>\<open>slots\<close> is \<open>[]\<close> for the null pointer.
  Hashes, masks and indices are \<^typ>\<open>32 word\<close>s as in the source; the hash function is
  \<^verbatim>\<open>std::hash\<close>, the argument \<open>hf\<close> of the operations. A loop that does not return, or that leaves
  the array, gives \<open>None\<close>.
\<close>

record 'o listener_slot =
  key :: string
  owner :: 'o
  hash :: "32 word"
  len :: "32 word"

record 'o listener_part =
  slots :: "'o listener_slot option list"
  pmask :: "32 word"
  used :: "32 word"

type_synonym hash_fun = "string \<Rightarrow> 32 word"  \<comment> \<open>\<^verbatim>\<open>std::hash<std::string_view>\<close>, cut to 32 bits\<close>
type_synonym 'o listener_table = "nat \<Rightarrow> 'o listener_part"

definition listener_parts :: "32 word" where "listener_parts = 1024"

definition empty_part :: "'o listener_part" where
  "empty_part = \<lparr>slots = [], pmask = 0, used = 0\<rparr>"

definition key_hash :: "hash_fun \<Rightarrow> string \<Rightarrow> 32 word \<Rightarrow> 32 word" where
  "key_hash hf k l = hf (take (unat l) k)"

definition part_of :: "32 word \<Rightarrow> nat" where
  "part_of h = unat (h mod listener_parts)"

definition home_slot :: "'o listener_part \<Rightarrow> 32 word \<Rightarrow> 32 word" where
  "home_slot p h = (h div listener_parts) AND pmask p"

definition slot_matches :: "string \<Rightarrow> 32 word \<Rightarrow> 32 word \<Rightarrow> 'o listener_slot \<Rightarrow> bool" where
  "slot_matches k l h e \<longleftrightarrow> hash e = h \<and> len e = l \<and> take (unat l) (key e) = take (unat l) k"

fun probe_loop :: "nat \<Rightarrow> 'o listener_part \<Rightarrow> string \<Rightarrow> 32 word \<Rightarrow> 32 word \<Rightarrow> 32 word \<Rightarrow> 32 word option" where
  "probe_loop 0 p k l h i = None"
| "probe_loop (Suc f) p k l h i =
     (if unat i < length (slots p) then
        case slots p ! unat i of
          None \<Rightarrow> Some i
        | Some e \<Rightarrow> if slot_matches k l h e then Some i
                    else probe_loop f p k l h ((i + 1) AND pmask p)
      else None)"

text \<open>After as many steps as there are slots the loop would only come back to the slots it saw.\<close>

definition probe :: "'o listener_part \<Rightarrow> string \<Rightarrow> 32 word \<Rightarrow> 32 word \<Rightarrow> 32 word option" where
  "probe p k l h = probe_loop (length (slots p)) p k l h (home_slot p h)"

text \<open>\<^verbatim>\<open>grow\<close>: twice the slots, or the first ones; the entries are probed for again.\<close>

definition put_slot :: "'o listener_slot option \<Rightarrow> 'o listener_part option \<Rightarrow> 'o listener_part option" where
  "put_slot s po =
     (case po of
        None \<Rightarrow> None
      | Some p \<Rightarrow>
          (case s of
             None \<Rightarrow> Some p
           | Some e \<Rightarrow>
               (case probe p (key e) (len e) (hash e) of
                  None \<Rightarrow> None
                | Some i \<Rightarrow> Some (p\<lparr>slots := (slots p)[unat i := Some e]\<rparr>))))"

definition grow :: "'o listener_part \<Rightarrow> 'o listener_part option" where
  "grow old =
     (let size = (if slots old \<noteq> [] then (pmask old + 1) * 2 else 8)
      in fold put_slot (slots old)
           (Some (old\<lparr>slots := replicate (unat size) None, pmask := size - 1\<rparr>)))"

definition find_slot :: "hash_fun \<Rightarrow> 'o listener_table \<Rightarrow> string \<Rightarrow> (nat \<times> 32 word) option option" where
  "find_slot hf T k =
     (let l = of_nat (length k); h = key_hash hf k l; p = T (part_of h)
      in if slots p = [] then Some None
         else case probe p k l h of
                None \<Rightarrow> None
              | Some i \<Rightarrow> (case slots p ! unat i of
                             None \<Rightarrow> Some None
                           | Some e \<Rightarrow> Some (Some (part_of h, i))))"

text \<open>\<^verbatim>\<open>take_slot\<close>: the part after growing and counting, and the slot.\<close>

definition take_slot :: "'o listener_part \<Rightarrow> string \<Rightarrow> 32 word \<Rightarrow> 32 word \<Rightarrow> ('o listener_part \<times> 32 word) option" where
  "take_slot p k l h =
     (case (if slots p = [] \<or> (used p + 1) * 4 > (pmask p + 1) * 3 then grow p else Some p) of
        None \<Rightarrow> None
      | Some p1 \<Rightarrow>
          (case probe p1 k l h of
             None \<Rightarrow> None
           | Some i \<Rightarrow>
               Some ((if slots p1 ! unat i = None then p1\<lparr>used := used p1 + 1\<rparr> else p1), i)))"

fun free_loop :: "nat \<Rightarrow> 'o listener_part \<Rightarrow> 32 word \<Rightarrow> 32 word \<Rightarrow> ('o listener_part \<times> 32 word) option" where
  "free_loop 0 p hole i = None"
| "free_loop (Suc f) p hole i =
     (if unat i < length (slots p) then
        case slots p ! unat i of
          None \<Rightarrow> Some (p, hole)
        | Some e \<Rightarrow>
            let home = home_slot p (hash e)
            in if ((i - home) AND pmask p) \<ge> ((i - hole) AND pmask p)
               then free_loop f (p\<lparr>slots := (slots p)[unat hole := slots p ! unat i]\<rparr>) i ((i + 1) AND pmask p)
               else free_loop f p hole ((i + 1) AND pmask p)
      else None)"

definition free_slot :: "'o listener_part \<Rightarrow> 32 word \<Rightarrow> 'o listener_part option" where
  "free_slot p i =
     (case free_loop (length (slots p)) p i ((i + 1) AND pmask p) of
        None \<Rightarrow> None
      | Some (p', hole) \<Rightarrow> Some (p'\<lparr>slots := (slots p')[unat hole := None], used := used p' - 1\<rparr>))"

text \<open>
  \<^verbatim>\<open>listener::listen\<close> and \<^verbatim>\<open>listener::unlisten\<close>; \<open>dead\<close> tells the dead calls
  (\<^verbatim>\<open>dynamic_cast<deadcall *>\<close>).
\<close>

definition listen :: "hash_fun \<Rightarrow> ('o \<Rightarrow> bool) \<Rightarrow> 'o \<Rightarrow> string \<Rightarrow> 'o listener_table \<Rightarrow> 'o listener_table option" where
  "listen hf dead this k T =
     (let l = of_nat (length k); h = key_hash hf k l; n = part_of h
      in case take_slot (T n) k l h of
           None \<Rightarrow> None
         | Some (p, i) \<Rightarrow>
             (case slots p ! unat i of
                Some e \<Rightarrow>
                  if \<not> dead (owner e) \<and> dead this then Some (T(n := p))
                  else Some (T(n := p\<lparr>slots := (slots p)[unat i := Some \<lparr>key = k, owner = this, hash = h, len = l\<rparr>]\<rparr>))
              | None \<Rightarrow>
                  Some (T(n := p\<lparr>slots := (slots p)[unat i := Some \<lparr>key = k, owner = this, hash = h, len = l\<rparr>]\<rparr>))))"

definition unlisten :: "hash_fun \<Rightarrow> 'o \<Rightarrow> string \<Rightarrow> 'o listener_table \<Rightarrow> 'o listener_table option" where
  "unlisten hf this k T =
     (case find_slot hf T k of
        None \<Rightarrow> None
      | Some None \<Rightarrow> Some T
      | Some (Some (n, i)) \<Rightarrow>
          (case slots (T n) ! unat i of
             None \<Rightarrow> Some T
           | Some e \<Rightarrow>
               if owner e = this
               then map_option (\<lambda>p. T(part_of (hash e) := p)) (free_slot (T (part_of (hash e))) i)
               else Some T))"

definition get_listener :: "hash_fun \<Rightarrow> 'o listener_table \<Rightarrow> string \<Rightarrow> 'o option option" where
  "get_listener hf T k =
     (case find_slot hf T k of
        None \<Rightarrow> None
      | Some None \<Rightarrow> Some None
      | Some (Some (n, i)) \<Rightarrow> Some (map_option owner (slots (T n) ! unat i)))"


text \<open>
  The object that listens: its \<^verbatim>\<open>id\<close> is the first key it takes messages for. The table maps to
  the object's address \<open>this\<close>.
\<close>

record listener =
  lid :: string
  listening :: bool
  own_id :: bool

definition startListening ::
  "hash_fun \<Rightarrow> ('o \<Rightarrow> bool) \<Rightarrow> 'o \<Rightarrow> listener \<Rightarrow> 'o listener_table \<Rightarrow> (listener \<times> 'o listener_table) option res" where
  "startListening hf dead this l T =
     (if listening l then Inl AssertFailed
      else Inr (map_option (\<lambda>T'. (l\<lparr>listening := True\<rparr>, T')) (listen hf dead this (lid l) T)))"

definition stopListening ::
  "hash_fun \<Rightarrow> 'o \<Rightarrow> listener \<Rightarrow> 'o listener_table \<Rightarrow> (listener \<times> 'o listener_table) option res" where
  "stopListening hf this l T =
     (if \<not> listening l then Inl AssertFailed
      else Inr (map_option (\<lambda>T'. (l\<lparr>listening := False\<rparr>, T')) (unlisten hf this (lid l) T)))"

definition new_listener ::
  "hash_fun \<Rightarrow> ('o \<Rightarrow> bool) \<Rightarrow> 'o \<Rightarrow> string \<Rightarrow> bool \<Rightarrow> 'o listener_table \<Rightarrow> (listener \<times> 'o listener_table) option res" where
  "new_listener hf dead this i lst T =
     (let l = \<lparr>lid = i, listening = False, own_id = True\<rparr>
      in if lst then startListening hf dead this l T else Inr (Some (l, T)))"

definition new_listener_in :: "string \<Rightarrow> nat \<Rightarrow> listener" where
  "new_listener_in i sz = \<lparr>lid = i, listening = False, own_id = (length i \<ge> sz)\<rparr>"

definition delete_listener :: "hash_fun \<Rightarrow> 'o \<Rightarrow> listener \<Rightarrow> 'o listener_table \<Rightarrow> 'o listener_table option res" where
  "delete_listener hf this l T =
     (if listening l then bindE (stopListening hf this l T) (\<lambda>r. Inr (map_option snd r)) else Inr (Some T))"

end
