(* ===== verification/Listener_Correct.thy ===== *)
theory Listener_Correct
  imports Listener_Table
begin

unbundle bit_operations_syntax

text \<open>
  The table of \<open>Listener_Table\<close> is a finite map from keys to listeners: the loops on masked words
  are the loops of \<open>Open_Addressing\<close>, every part keeps its invariant, and \<^verbatim>\<open>listen\<close>, \<^verbatim>\<open>unlisten\<close>
  and \<^verbatim>\<open>get_listener\<close> are update, removal and lookup in the map.
\<close>

section \<open>Words with a mask are numbers modulo a power of two\<close>

lemma unat_and_mask: "unat ((x :: 32 word) AND mask k) = unat x mod 2 ^ k"
proof -
  have "unat (take_bit k x) = take_bit k (unat x)" by (rule unsigned_take_bit_eq)
  then show ?thesis by (simp only: take_bit_eq_mask [symmetric] take_bit_nat_def)
qed

lemma unat_succ_mask:
  assumes "k \<le> 32" and "unat (i :: 32 word) < 2 ^ k"
  shows "unat ((i + 1) AND mask k) = (unat i + 1) mod 2 ^ k"
proof -
  have "(2::nat) ^ k dvd 2 ^ 32" using assms(1) by (rule le_imp_power_dvd)
  then show ?thesis
    by (simp add: unat_and_mask unat_word_ariths mod_mod_cancel)
qed

lemma unat_diff_mask:
  assumes "k \<le> 32" and "unat (i :: 32 word) < 2 ^ k" and "unat h < 2 ^ k"
  shows "unat ((i - h) AND mask k) = dist (2 ^ k) (unat h) (unat i)"
proof (cases "unat h \<le> unat i")
  case True
  then have "unat (i - h) = unat i - unat h" by (simp add: unat_sub word_le_nat_alt)
  with True assms show ?thesis by (simp add: unat_and_mask dist_def)
next
  case False
  have dvd: "(2::nat) ^ k dvd 2 ^ 32" using assms(1) by (rule le_imp_power_dvd)
  then obtain c where c: "(2::nat) ^ 32 = 2 ^ k * c" by blast
  then have "0 < c" by (metis gr0I mult_0_right power_not_zero zero_neq_numeral)
  from False have "unat (i - h) = 2 ^ 32 + unat i - unat h"
    by (simp add: unat_sub_if_size word_size)
  also have "\<dots> = (unat i + 2 ^ k - unat h) + 2 ^ k * (c - 1)"
    using c \<open>0 < c\<close> assms(3) by (cases c) auto
  finally have "unat (i - h) mod 2 ^ k = (unat i + 2 ^ k - unat h) mod 2 ^ k"
    by (simp only: mod_mult_self2)
  also have "\<dots> = unat i + 2 ^ k - unat h"
    by (rule mod_less) (use False assms(3) in linarith)
  finally show ?thesis using False by (simp add: unat_and_mask dist_def)
qed

section \<open>The loops\<close>

definition shape :: "nat \<Rightarrow> 'o listener_part \<Rightarrow> bool" where
  "shape k p \<longleftrightarrow> k \<le> 31 \<and> length (slots p) = 2 ^ k \<and> pmask p = mask k"

abbreviation home :: "'o listener_part \<Rightarrow> 'o listener_slot \<Rightarrow> nat" where
  "home p e \<equiv> unat (home_slot p (hash e))"

lemma home_slot_slots [simp]: "home_slot (p\<lparr>slots := xs\<rparr>) h = home_slot p h"
  by (simp add: home_slot_def)

lemma home_slot_used [simp]: "home_slot (p\<lparr>used := u\<rparr>) h = home_slot p h"
  by (simp add: home_slot_def)

lemma home_less: "shape k p \<Longrightarrow> unat (home_slot p h) < 2 ^ k"
  by (simp add: shape_def home_slot_def unat_and_mask)

lemma probe_loop_nprobe:
  assumes "shape k p" and "unat i < 2 ^ k"
  shows "probe_loop f p K l h i = map_option of_nat (nprobe f (slots p) (slot_matches K l h) (unat i))"
  using assms(2)
proof (induction f arbitrary: i)
  case (Suc f)
  have i: "unat ((i + 1) AND pmask p) = (unat i + 1) mod length (slots p)"
    using assms(1) Suc.prems by (simp add: shape_def unat_succ_mask)
  then have "unat ((i + 1) AND pmask p) < 2 ^ k" using assms(1) by (simp add: shape_def)
  from Suc.IH [OF this] Suc.prems assms(1) i show ?case
    by (auto simp: shape_def split: option.splits)
qed simp

lemma free_loop_nfree:
  assumes "shape k p" and "unat hole < 2 ^ k" and "unat i < 2 ^ k"
  shows "free_loop f p hole i =
    map_option (\<lambda>(xs, h). (p\<lparr>slots := xs\<rparr>, of_nat h)) (nfree f (home p) (slots p) (unat hole) (unat i))"
  using assms
proof (induction f arbitrary: p hole i)
  case (Suc f)
  have k: "k \<le> 32" "length (slots p) = 2 ^ k" "pmask p = mask k" using Suc.prems(1) by (auto simp: shape_def)
  have i: "unat ((i + 1) AND pmask p) = (unat i + 1) mod length (slots p)"
    using k Suc.prems(3) by (simp add: unat_succ_mask)
  then have i': "unat ((i + 1) AND pmask p) < 2 ^ k" using k by simp
  show ?case
  proof (cases "slots p ! unat i")
    case None
    with Suc.prems k show ?thesis by simp
  next
    case (Some e)
    have cmp: "((i - home_slot p (hash e)) AND pmask p) \<ge> ((i - hole) AND pmask p) \<longleftrightarrow>
      dist (length (slots p)) (unat hole) (unat i) \<le> dist (length (slots p)) (home p e) (unat i)"
      using Suc.prems k home_less [OF Suc.prems(1)] by (simp add: word_le_nat_alt unat_diff_mask)
    let ?p = "p\<lparr>slots := (slots p)[unat hole := slots p ! unat i]\<rparr>"
    have "shape k ?p" using Suc.prems(1) by (simp add: shape_def)
    from Suc.IH [OF this Suc.prems(3) i'] Suc.IH [OF Suc.prems(1,2) i'] Some cmp Suc.prems k(2) i
    show ?thesis by (simp add: Let_def)
  qed
qed simp

section \<open>The invariant of a part\<close>

text \<open>
  An entry has the hash and the length of its key, and its hash belongs to the part. A part of
  \<open>2 ^ k\<close> slots keeps its entries reachable by probing, has each key once and is at most three
  quarters full. \<open>k\<close> is at most 30: from \<open>2 ^ 31\<close> slots on the source's own \<^verbatim>\<open>(part.mask + 1) * 3\<close>
  wraps.
\<close>

definition entry_ok :: "hash_fun \<Rightarrow> nat \<Rightarrow> 'o listener_slot \<Rightarrow> bool" where
  "entry_ok hf n e \<longleftrightarrow> length (key e) < 2 ^ 32 \<and> len e = of_nat (length (key e)) \<and>
     hash e = hf (key e) \<and> part_of (hash e) = n"

definition probes :: "hash_fun \<Rightarrow> nat \<Rightarrow> nat \<Rightarrow> 'o listener_part \<Rightarrow> bool" where
  "probes hf n k p \<longleftrightarrow> shape k p \<and> probing (home p) (slots p) \<and>
     distinct (map key (entries (slots p))) \<and> (\<forall>e\<in>set (entries (slots p)). entry_ok hf n e)"

definition part_ok :: "hash_fun \<Rightarrow> nat \<Rightarrow> 'o listener_part \<Rightarrow> bool" where
  "part_ok hf n p \<longleftrightarrow> unat (used p) = length (entries (slots p)) \<and>
     (slots p = [] \<or> (\<exists>k. 3 \<le> k \<and> k \<le> 30 \<and> probes hf n k p \<and> 4 * length (entries (slots p)) \<le> 3 * 2 ^ k))"

definition table_ok :: "hash_fun \<Rightarrow> 'o listener_table \<Rightarrow> bool" where
  "table_ok hf T \<longleftrightarrow> (\<forall>n. part_ok hf n (T n))"

definition part_map :: "'o listener_part \<Rightarrow> string \<rightharpoonup> 'o" where
  "part_map p k = map_option owner (find (\<lambda>e. key e = k) (entries (slots p)))"

definition table_map :: "hash_fun \<Rightarrow> 'o listener_table \<Rightarrow> string \<rightharpoonup> 'o" where
  "table_map hf T k = part_map (T (part_of (hf k))) k"

lemma entries_length_le: "length (entries xs) \<le> length xs"
  by (induction xs) (auto simp: entries_Cons split: option.splits)

lemma entries_all: "None \<notin> set xs \<Longrightarrow> length (entries xs) = length xs"
proof (induction xs)
  case (Cons x xs)
  then show ?case by (cases x) (auto simp: entries_Cons)
qed simp

lemma has_free: "length (entries xs) < length xs \<Longrightarrow> None \<in> set xs"
  using entries_all [of xs] by auto

lemma find_key_iff:
  "distinct (map key es) \<Longrightarrow> find (\<lambda>e. key e = k) es = Some e \<longleftrightarrow> e \<in> set es \<and> key e = k"
  by (induction es) (force split: if_splits)+

lemma part_map_Some:
  assumes "distinct (map key (entries (slots p)))"
  shows "part_map p k = Some ow \<longleftrightarrow> (\<exists>e\<in>set (entries (slots p)). key e = k \<and> owner e = ow)"
  using find_key_iff [OF assms] by (auto simp: part_map_def)

lemma part_map_eqI:
  assumes "distinct (map key (entries (slots p)))"
    and "\<And>k ow. (\<exists>e\<in>set (entries (slots p)). key e = k \<and> owner e = ow) \<longleftrightarrow> m k = Some ow"
  shows "part_map p = m"
proof
  fix k show "part_map p k = m k"
    using part_map_Some [OF assms(1)] assms(2) by (metis not_Some_eq)
qed

lemma key_hash_short: "length k < 2 ^ 32 \<Longrightarrow> key_hash hf k (of_nat (length k)) = hf k"
  by (simp add: key_hash_def unat_of_nat)

lemma slot_matches_iff:
  assumes "entry_ok hf n e" and "length K < 2 ^ 32"
  shows "slot_matches K (of_nat (length K)) (hf K) e \<longleftrightarrow> key e = K"
proof
  assume m: "slot_matches K (of_nat (length K)) (hf K) e"
  then have "(of_nat (length (key e)) :: 32 word) = of_nat (length K)"
    using assms by (simp add: slot_matches_def entry_ok_def)
  then have "unat (of_nat (length (key e)) :: 32 word) = unat (of_nat (length K) :: 32 word)" by simp
  then have "length (key e) = length K" using assms by (simp add: unat_of_nat entry_ok_def)
  with m assms show "key e = K" by (simp add: slot_matches_def unat_of_nat)
qed (use assms in \<open>auto simp: slot_matches_def entry_ok_def\<close>)

section \<open>Searching a part\<close>

lemma unat_slot: "shape k p \<Longrightarrow> j < 2 ^ k \<Longrightarrow> unat (of_nat j :: 32 word) = j"
proof -
  assume "shape k p" and j: "j < 2 ^ k"
  then have "(2::nat) ^ k \<le> 2 ^ 31" by (intro power_increasing) (auto simp: shape_def)
  with j show ?thesis by (simp add: unat_of_nat)
qed

text \<open>
  Probing a part with a free slot ends: at the entry of the key, or, when it has none, at the first
  free slot from its home.
\<close>

lemma probe_part:
  assumes p: "probes hf n k p" and free: "None \<in> set (slots p)" and K: "length K < 2 ^ 32"
  obtains j where "j < 2 ^ k" "probe p K (of_nat (length K)) (hf K) = Some (of_nat j)"
    "(\<exists>e. slots p ! j = Some e \<and> key e = K) \<or>
     slots p ! j = None \<and> (\<forall>e\<in>set (entries (slots p)). key e \<noteq> K) \<and>
     (\<forall>q<2 ^ k. dist (2 ^ k) (unat (home_slot p (hf K))) q < dist (2 ^ k) (unat (home_slot p (hf K))) j \<longrightarrow>
        slots p ! q \<noteq> None)"
proof -
  let ?m = "slot_matches K (of_nat (length K)) (hf K)"
  let ?h = "unat (home_slot p (hf K))"
  have sh: "shape k p" and pr: "probing (home p) (slots p)"
    and ok: "\<And>e. e \<in> set (entries (slots p)) \<Longrightarrow> entry_ok hf n e"
    and dis: "distinct (map key (entries (slots p)))" using p by (auto simp: probes_def)
  have n: "length (slots p) = 2 ^ k" using sh by (simp add: shape_def)
  have h: "?h < length (slots p)" using home_less [OF sh] n by simp
  have m: "?m e \<longleftrightarrow> key e = K" if "e \<in> set (entries (slots p))" for e
    using slot_matches_iff [OF ok [OF that] K] .
  obtain j where j: "j < 2 ^ k" "nprobe (length (slots p)) (slots p) ?m ?h = Some j" "stops (slots p) ?m j"
    and before: "\<And>q. q < 2 ^ k \<Longrightarrow> dist (2 ^ k) ?h q < dist (2 ^ k) ?h j \<Longrightarrow> \<not> stops (slots p) ?m q"
    using nprobe_ends [OF h free, of ?m] unfolding n by blast
  have pe: "probe p K (of_nat (length K)) (hf K) = Some (of_nat j)"
    unfolding probe_def using probe_loop_nprobe [OF sh home_less [OF sh]] j(2) by simp
  show ?thesis
  proof (rule that [OF j(1) pe], cases "slots p ! j")
    case (Some e)
    then have "e \<in> set (entries (slots p))" using j(1) n by (auto simp: entries_iff)
    with m Some j(3) show "(\<exists>e. slots p ! j = Some e \<and> key e = K) \<or>
     slots p ! j = None \<and> (\<forall>e\<in>set (entries (slots p)). key e \<noteq> K) \<and>
     (\<forall>q<2 ^ k. dist (2 ^ k) ?h q < dist (2 ^ k) ?h j \<longrightarrow> slots p ! q \<noteq> None)"
      by (simp add: stops_def)
  next
    case None
    have "key e \<noteq> K" if e: "e \<in> set (entries (slots p))" for e
    proof
      assume K': "key e = K"
      have "e' = e" if "e' \<in> set (entries (slots p))" "?m e'" for e'
        using that m e K' dis by (metis distinct_map inj_onD)
      with nprobe_finds [OF pr free e, of ?m] m [OF e] K'
      obtain j' where "nprobe (length (slots p)) (slots p) ?m (home p e) = Some j'" "slots p ! j' = Some e"
        by metis
      moreover have "hash e = hf K" using ok [OF e] K' by (simp add: entry_ok_def)
      ultimately show False using j(2) None by simp
    qed
    moreover have "slots p ! q \<noteq> None" if "q < 2 ^ k" "dist (2 ^ k) ?h q < dist (2 ^ k) ?h j" for q
      using before [OF that] by (cases "slots p ! q") (auto simp: stops_def)
    ultimately show "(\<exists>e. slots p ! j = Some e \<and> key e = K) \<or>
     slots p ! j = None \<and> (\<forall>e\<in>set (entries (slots p)). key e \<noteq> K) \<and>
     (\<forall>q<2 ^ k. dist (2 ^ k) ?h q < dist (2 ^ k) ?h j \<longrightarrow> slots p ! q \<noteq> None)"
      using None by blast
  qed
qed

text \<open>Filling a free slot that probing found, and replacing the owner of an entry.\<close>

lemma probes_fill:
  assumes p: "probes hf n k p" and e: "entry_ok hf n e" and j: "j < 2 ^ k" "slots p ! j = None"
    and new: "\<forall>e'\<in>set (entries (slots p)). key e' \<noteq> key e"
    and path: "\<forall>q<2 ^ k. dist (2 ^ k) (home p e) q < dist (2 ^ k) (home p e) j \<longrightarrow> slots p ! q \<noteq> None"
  shows "probes hf n k (p\<lparr>slots := (slots p)[j := Some e]\<rparr>)"
    and "mset (entries ((slots p)[j := Some e])) = add_mset e (mset (entries (slots p)))"
proof -
  have sh: "shape k p" using p by (simp add: probes_def)
  then have n: "length (slots p) = 2 ^ k" by (simp add: shape_def)
  show ms: "mset (entries ((slots p)[j := Some e])) = add_mset e (mset (entries (slots p)))"
    using entries_update [of j "slots p" "Some e"] j n by simp
  then have es: "set (entries ((slots p)[j := Some e])) = insert e (set (entries (slots p)))"
    by (metis set_mset_add_mset_insert set_mset_mset)
  have pr: "probing (home p) ((slots p)[j := Some e])"
    using p path home_less [OF sh, of "hash e"] j(1) n by (intro probing_fill) (auto simp: probes_def)
  have "mset (map key (entries ((slots p)[j := Some e]))) = mset (key e # map key (entries (slots p)))"
    using ms by (metis mset.simps(2) mset_map list.simps(9))
  then have "distinct (map key (entries ((slots p)[j := Some e])))"
    using p new by (metis probes_def distinct.simps(2) imageE list.set_map mset_eq_imp_distinct_iff)
  with p e es pr show "probes hf n k (p\<lparr>slots := (slots p)[j := Some e]\<rparr>)"
    by (simp add: probes_def shape_def)
qed

lemma probes_replace:
  assumes p: "probes hf n k p" and j: "j < 2 ^ k" "slots p ! j = Some e0" and e: "entry_ok hf n e" "key e = key e0"
  shows "probes hf n k (p\<lparr>slots := (slots p)[j := Some e]\<rparr>)"
    and "mset (entries ((slots p)[j := Some e])) = add_mset e (mset (entries (slots p)) - {#e0#})"
proof -
  have sh: "shape k p" using p by (simp add: probes_def)
  then have n: "length (slots p) = 2 ^ k" by (simp add: shape_def)
  have in0: "e0 \<in> set (entries (slots p))" using j n by (auto simp: entries_iff)
  then have "hash e0 = hash e" using p e by (auto simp: probes_def entry_ok_def)
  then have pr: "probing (home p) ((slots p)[j := Some e])"
    using p j n home_less [OF sh, of "hash e"] by (intro probing_fill) (auto simp: probes_def probing_def)
  have ms: "mset (entries ((slots p)[j := Some e])) + {#e0#} = mset (entries (slots p)) + {#e#}"
    using entries_update [of j "slots p" "Some e"] j n by simp
  from in0 obtain M where M: "mset (entries (slots p)) = add_mset e0 M" by (metis mset_add set_mset_mset)
  with ms show ms': "mset (entries ((slots p)[j := Some e])) = add_mset e (mset (entries (slots p)) - {#e0#})"
    by simp
  have "image_mset key (mset (entries ((slots p)[j := Some e])) + {#e0#}) = image_mset key (mset (entries (slots p)) + {#e#})"
    using ms by simp
  then have "mset (map key (entries ((slots p)[j := Some e]))) = mset (map key (entries (slots p)))"
    using e(2) by simp
  then have "distinct (map key (entries ((slots p)[j := Some e])))"
    using p by (metis probes_def mset_eq_imp_distinct_iff)
  moreover have "set (entries ((slots p)[j := Some e])) \<subseteq> insert e (set (entries (slots p)))"
  proof -
    have "set_mset (mset (entries ((slots p)[j := Some e]))) \<subseteq> insert e (set_mset (mset (entries (slots p))))"
      unfolding ms' by (auto dest: in_diffD)
    then show ?thesis by simp
  qed
  ultimately show "probes hf n k (p\<lparr>slots := (slots p)[j := Some e]\<rparr>)"
    using p e pr by (auto simp: probes_def shape_def)
qed

section \<open>Growing\<close>

lemma put_slots:
  assumes "probes hf n k p"
    and "length (entries xs) + length (entries (slots p)) < 2 ^ k"
    and "distinct (map key (entries xs @ entries (slots p)))"
    and "\<forall>e\<in>set (entries xs). entry_ok hf n e"
  shows "\<exists>ys. fold put_slot xs (Some p) = Some (p\<lparr>slots := ys\<rparr>) \<and> probes hf n k (p\<lparr>slots := ys\<rparr>) \<and>
    mset (entries ys) = mset (entries xs) + mset (entries (slots p))"
  using assms
proof (induction xs arbitrary: p)
  case Nil
  then show ?case by (auto intro!: exI [of _ "slots p"])
next
  case (Cons x xs)
  show ?case
  proof (cases x)
    case None
    then show ?thesis using Cons.IH [OF Cons.prems(1)] Cons.prems by (simp add: put_slot_def entries_Cons)
  next
    case (Some e)
    have sh: "shape k p" using Cons.prems(1) by (simp add: probes_def)
    have ok: "entry_ok hf n e" using Cons.prems(4) Some by (simp add: entries_Cons)
    then have e: "len e = of_nat (length (key e))" "hash e = hf (key e)" "length (key e) < 2 ^ 32"
      by (auto simp: entry_ok_def)
    have "None \<in> set (slots p)"
      using Cons.prems(2) sh by (intro has_free) (simp add: shape_def)
    from probe_part [OF Cons.prems(1) this e(3)] obtain j where j: "j < 2 ^ k"
      "probe p (key e) (len e) (hash e) = Some (of_nat j)"
      and c: "(\<exists>e'. slots p ! j = Some e' \<and> key e' = key e) \<or>
        slots p ! j = None \<and> (\<forall>e'\<in>set (entries (slots p)). key e' \<noteq> key e) \<and>
        (\<forall>q<2 ^ k. dist (2 ^ k) (home p e) q < dist (2 ^ k) (home p e) j \<longrightarrow> slots p ! q \<noteq> None)"
      unfolding e by blast
    have new: "\<forall>e'\<in>set (entries (slots p)). key e' \<noteq> key e"
      using Cons.prems(3) Some by (simp add: entries_Cons) (metis image_eqI)
    have "\<nexists>e'. slots p ! j = Some e' \<and> key e' = key e"
      using new j(1) sh by (auto simp: entries_iff shape_def)
    with c have none: "slots p ! j = None"
      and path: "\<forall>q<2 ^ k. dist (2 ^ k) (home p e) q < dist (2 ^ k) (home p e) j \<longrightarrow> slots p ! q \<noteq> None"
      by auto
    let ?p = "p\<lparr>slots := (slots p)[j := Some e]\<rparr>"
    note fill = probes_fill [OF Cons.prems(1) ok j(1) none new path]
    have put: "put_slot x (Some p) = Some ?p" using Some j unat_slot [OF sh j(1)] by (simp add: put_slot_def)
    have len: "length (entries (slots ?p)) = Suc (length (entries (slots p)))"
      using fill(2) by (metis listener_part.select_convs(1) listener_part.surjective listener_part.update_convs(1) size_add_mset size_mset)
    have "mset (map key (entries xs @ entries (slots ?p))) = mset (map key (entries (x # xs) @ entries (slots p)))"
      using fill(2) Some by (simp add: entries_Cons)
    then have "distinct (map key (entries xs @ entries (slots ?p)))"
      using Cons.prems(3) by (metis mset_eq_imp_distinct_iff)
    from Cons.IH [OF fill(1) _ this] Cons.prems(2,4) len Some put fill(2) show ?thesis
      by (auto simp: entries_Cons)
  qed
qed

lemma unat_pow2: "m < 32 \<Longrightarrow> unat ((2 :: 32 word) ^ m) = 2 ^ m"
proof -
  assume "m < 32"
  then have "(2::nat) ^ m < 2 ^ 32" by (intro power_strict_increasing) auto
  moreover have "unat (of_nat (2 ^ m) :: 32 word) = 2 ^ m mod 2 ^ 32"
    by (simp only: unat_of_nat len_num1 len_bit0) simp
  ultimately show ?thesis by simp
qed

lemma mask_plus_1: "(mask m :: 32 word) + 1 = 2 ^ m"
  by (simp add: mask_eq_exp_minus_1)

lemma probes_fresh: "m \<le> 31 \<Longrightarrow> probes hf n m (p\<lparr>slots := replicate (2 ^ m) None, pmask := mask m\<rparr>)"
  by (simp add: probes_def shape_def probing_empty)

lemma grow_part:
  assumes "slots p = [] \<and> m = 3 \<or> probes hf n k p \<and> m = k + 1 \<and> k \<le> 29"
  shows "\<exists>p'. grow p = Some p' \<and> used p' = used p \<and> probes hf n m p' \<and>
    mset (entries (slots p')) = mset (entries (slots p))"
proof -
  have m: "m \<le> 30" using assms by auto
  have sz: "(if slots p \<noteq> [] then (pmask p + 1) * 2 else 8) = (2 :: 32 word) ^ m"
  proof (cases "slots p = []")
    case False
    with assms have "pmask p + 1 = 2 ^ k" "m = k + 1"
      using mask_plus_1 [of k] by (auto simp: probes_def shape_def simp del: mask_eq_exp_minus_1)
    with False show ?thesis by simp
  qed (use assms in \<open>auto simp: probes_def shape_def\<close>)
  have g: "grow p = fold put_slot (slots p) (Some (p\<lparr>slots := replicate (2 ^ m) None, pmask := mask m\<rparr>))"
    using m by (simp only: grow_def Let_def sz) (simp add: unat_pow2 mask_eq_exp_minus_1)
  have le: "length (entries (slots p)) < 2 ^ m"
    using entries_length_le [of "slots p"] assms
    by (auto simp: probes_def shape_def intro: le_less_trans)
  have "m \<le> 31" using m by simp
  let ?p = "p\<lparr>slots := replicate (2 ^ m) None, pmask := mask m\<rparr>"
  have "distinct (map key (entries (slots p)))" "\<forall>e\<in>set (entries (slots p)). entry_ok hf n e"
    using assms by (auto simp: probes_def)
  with put_slots [OF probes_fresh [OF \<open>m \<le> 31\<close>, of hf n p], of "slots p"] le
  obtain ys where ys: "grow p = Some (?p\<lparr>slots := ys\<rparr>)" "probes hf n m (?p\<lparr>slots := ys\<rparr>)"
    "mset (entries ys) = mset (entries (slots p))" unfolding g by auto
  then show ?thesis by (intro exI [of _ "?p\<lparr>slots := ys\<rparr>"]) auto
qed

lemma full_test:
  assumes "unat (u :: 32 word) < 3 * 2 ^ 28" and "k \<le> 30"
  shows "(u + 1) * 4 > (mask k + 1) * 3 \<longleftrightarrow> 3 * 2 ^ k < 4 * (unat u + 1)"
proof -
  have "unat (u + 1) = unat u + 1" using assms(1) by (simp add: unat_word_ariths)
  then have a: "unat ((u + 1) * 4) = (unat u + 1) * 4" using assms(1) by (simp add: unat_word_ariths)
  have "(2::nat) ^ k \<le> 2 ^ 30" using assms(2) by (intro power_increasing) auto
  then have b: "unat ((mask k + 1) * 3 :: 32 word) = 2 ^ k * 3"
    using assms(2) by (simp add: mask_plus_1 unat_word_ariths unat_pow2)
  show ?thesis unfolding word_less_nat_alt a b by (simp add: mult.commute)
qed

text \<open>
  What \<^verbatim>\<open>take_slot\<close> leaves: the same entries, a part with room, and the slot of the key or the free
  one where probing for it ends.
\<close>

definition slot_for :: "nat \<Rightarrow> 'o listener_part \<Rightarrow> 'o listener_part \<Rightarrow> hash_fun \<Rightarrow> string \<Rightarrow> nat \<Rightarrow> bool" where
  "slot_for k p p' hf K j \<longleftrightarrow>
     (\<exists>e. slots p' ! j = Some e \<and> key e = K) \<and> used p' = used p \<or>
     slots p' ! j = None \<and> (\<forall>e\<in>set (entries (slots p')). key e \<noteq> K) \<and> used p' = used p + 1 \<and>
     (\<forall>q<2 ^ k. dist (2 ^ k) (unat (home_slot p' (hf K))) q < dist (2 ^ k) (unat (home_slot p' (hf K))) j \<longrightarrow>
        slots p' ! q \<noteq> None)"

lemma take_slot_part:
  assumes ok: "part_ok hf n p" and K: "length K < 2 ^ 32" and room: "unat (used p) < 3 * 2 ^ 28"
  obtains p' j k where "take_slot p K (of_nat (length K)) (hf K) = Some (p', of_nat j)"
    "3 \<le> k" "k \<le> 30" "j < 2 ^ k" "probes hf n k p'" "mset (entries (slots p')) = mset (entries (slots p))"
    "4 * (length (entries (slots p)) + 1) \<le> 3 * 2 ^ k" "slot_for k p p' hf K j"
proof -
  let ?u = "length (entries (slots p))"
  let ?grows = "slots p = [] \<or> (used p + 1) * 4 > (pmask p + 1) * 3"
  have u: "unat (used p) = ?u" using ok by (simp add: part_ok_def)
  obtain p1 k where p1: "(if ?grows then grow p else Some p) = Some p1" "3 \<le> k" "k \<le> 30" "probes hf n k p1"
    "used p1 = used p" "mset (entries (slots p1)) = mset (entries (slots p))" "4 * (?u + 1) \<le> 3 * 2 ^ k"
  proof (cases "slots p = []")
    case True
    from grow_part [of p 3 hf n] True obtain p1 where "grow p = Some p1" "used p1 = used p" "probes hf n 3 p1"
      "mset (entries (slots p1)) = mset (entries (slots p))" by blast
    with True show ?thesis by (intro that [of p1 3]) auto
  next
    case False
    with ok obtain k where k: "3 \<le> k" "k \<le> 30" "probes hf n k p" "4 * ?u \<le> 3 * 2 ^ k"
      by (auto simp: part_ok_def)
    have test: "?grows \<longleftrightarrow> 3 * 2 ^ k < 4 * (?u + 1)"
      using full_test [OF room k(2)] False k(3) u by (simp add: probes_def shape_def)
    show ?thesis
    proof (cases ?grows)
      case True
      then have "3 * (2::nat) ^ k < 3 * 2 ^ 30" using test room u by simp
      then have "(2::nat) ^ k < 2 ^ 30" by simp
      then have "k < 30" by (rule power_less_imp_less_exp [rotated]) simp
      with grow_part [of p "k + 1" hf n k] k obtain p1 where g: "grow p = Some p1" "used p1 = used p"
        "probes hf n (k + 1) p1" "mset (entries (slots p1)) = mset (entries (slots p))" by auto
      have "(2::nat) ^ 3 \<le> 2 ^ k" using k(1) by (intro power_increasing) auto
      then have "4 * (?u + 1) \<le> 3 * 2 ^ (k + 1)" using k(4) by simp
      with g \<open>k < 30\<close> k True show ?thesis by (intro that [of p1 "k + 1"]) auto
    next
      case no: False
      with test have "4 * (?u + 1) \<le> 3 * 2 ^ k" by simp
      with k no show ?thesis by (intro that [of p k]) auto
    qed
  qed
  have sh: "shape k p1" using p1(4) by (simp add: probes_def)
  have "length (entries (slots p1)) = ?u" using p1(6) by (metis size_mset)
  then have "None \<in> set (slots p1)" using p1(7) sh by (intro has_free) (simp add: shape_def)
  from probe_part [OF p1(4) this K] obtain j where j: "j < 2 ^ k"
    "probe p1 K (of_nat (length K)) (hf K) = Some (of_nat j)"
    and c: "(\<exists>e. slots p1 ! j = Some e \<and> key e = K) \<or>
     slots p1 ! j = None \<and> (\<forall>e\<in>set (entries (slots p1)). key e \<noteq> K) \<and>
     (\<forall>q<2 ^ k. dist (2 ^ k) (unat (home_slot p1 (hf K))) q < dist (2 ^ k) (unat (home_slot p1 (hf K))) j \<longrightarrow>
        slots p1 ! q \<noteq> None)" by blast
  let ?p = "if slots p1 ! j = None then p1\<lparr>used := used p1 + 1\<rparr> else p1"
  have t: "take_slot p K (of_nat (length K)) (hf K) = Some (?p, of_nat j)"
    using p1(1) j unat_slot [OF sh j(1)] by (simp add: take_slot_def)
  have "slot_for k p ?p hf K j" using c p1(5) by (auto simp: slot_for_def)
  moreover have "probes hf n k ?p" "mset (entries (slots ?p)) = mset (entries (slots p))"
    using p1(4,6) by (auto simp: probes_def shape_def)
  ultimately show ?thesis using that [OF t p1(2,3) j(1)] p1(7) by blast
qed

section \<open>The operations on the map\<close>

definition set_key :: "('o \<Rightarrow> bool) \<Rightarrow> 'o \<Rightarrow> string \<Rightarrow> (string \<rightharpoonup> 'o) \<Rightarrow> (string \<rightharpoonup> 'o)" where
  "set_key dead this k m =
     (case m k of
        Some other \<Rightarrow> if \<not> dead other \<and> dead this then m else m(k \<mapsto> this)
      | None \<Rightarrow> m(k \<mapsto> this))"

definition drop_key :: "'o \<Rightarrow> string \<Rightarrow> (string \<rightharpoonup> 'o) \<Rightarrow> (string \<rightharpoonup> 'o)" where
  "drop_key this k m = (if m k = Some this then m(k := None) else m)"

lemma part_of_less: "part_of h < 1024"
  by (simp add: part_of_def listener_parts_def unat_mod_distrib)

lemma part_ok_distinct: "part_ok hf n p \<Longrightarrow> distinct (map key (entries (slots p)))"
  by (auto simp: part_ok_def probes_def)

lemma part_ok_entry: "part_ok hf n p \<Longrightarrow> e \<in> set (entries (slots p)) \<Longrightarrow> entry_ok hf n e"
  by (auto simp: part_ok_def probes_def)

lemma table_map_other:
  assumes "part_of (hf k) \<noteq> n"
  shows "table_map hf (T(n := p)) k = table_map hf T k"
  using assms by (simp add: table_map_def)

text \<open>A change of the part of \<open>k\<close> that is the change of its map at \<open>k\<close> is that change of the table's map.\<close>

lemma table_map_upd:
  assumes "part_map p = (part_map (T (part_of (hf k))))(k := v)"
  shows "table_map hf (T(part_of (hf k) := p)) = (table_map hf T)(k := v)"
  using assms by (auto simp: table_map_def fun_eq_iff)

lemma table_map_same:
  assumes "part_map p = part_map (T n)"
  shows "table_map hf (T(n := p)) = table_map hf T"
  using assms by (auto simp: table_map_def fun_eq_iff)

lemma part_map_mset:
  assumes "distinct (map key (entries (slots p)))" "mset (entries (slots p')) = mset (entries (slots p))"
  shows "part_map p' = part_map p"
proof -
  have "distinct (map key (entries (slots p')))"
    using assms by (metis mset_eq_imp_distinct_iff mset_map)
  moreover have "set (entries (slots p')) = set (entries (slots p))" using assms(2) by (metis set_mset_mset)
  ultimately show ?thesis using part_map_Some [OF assms(1)] by (intro part_map_eqI) auto
qed

lemma part_map_put:
  assumes "distinct (map key (entries (slots p')))"
    and "set (entries (slots p')) = insert e {e'\<in>set (entries (slots p)). key e' \<noteq> key e}"
    and "distinct (map key (entries (slots p)))"
  shows "part_map p' = (part_map p)(key e \<mapsto> owner e)"
  using assms(2) part_map_Some [OF assms(3)] by (intro part_map_eqI [OF assms(1)]) auto

lemma find_slot_part:
  assumes ok: "table_ok hf T" and K: "length K < 2 ^ 32"
  defines "n \<equiv> part_of (hf K)"
  shows "\<exists>r. find_slot hf T K = Some r \<and>
    (case r of None \<Rightarrow> part_map (T n) K = None
     | Some (n', i) \<Rightarrow> n' = n \<and> (\<exists>k e. 3 \<le> k \<and> k \<le> 30 \<and> probes hf n k (T n) \<and> unat i < 2 ^ k \<and>
         slots (T n) ! unat i = Some e \<and> key e = K \<and> part_map (T n) K = Some (owner e)))"
proof (cases "slots (T n) = []")
  case True
  then show ?thesis using K by (simp add: find_slot_def Let_def key_hash_short n_def part_map_def)
next
  case False
  have pok: "part_ok hf n (T n)" using ok by (simp add: table_ok_def)
  with False obtain k where k: "3 \<le> k" "k \<le> 30" "probes hf n k (T n)" "4 * length (entries (slots (T n))) \<le> 3 * 2 ^ k"
    by (auto simp: part_ok_def)
  have sh: "shape k (T n)" using k(3) by (simp add: probes_def)
  have "0 < (2::nat) ^ k" by simp
  then have "length (entries (slots (T n))) < 2 ^ k" using k(4) by linarith
  then have "None \<in> set (slots (T n))" using sh by (intro has_free) (simp add: shape_def)
  from probe_part [OF k(3) this K] obtain j where j: "j < 2 ^ k"
    "probe (T n) K (of_nat (length K)) (hf K) = Some (of_nat j)"
    "(\<exists>e. slots (T n) ! j = Some e \<and> key e = K) \<or> slots (T n) ! j = None \<and> (\<forall>e\<in>set (entries (slots (T n))). key e \<noteq> K)"
    by metis
  note m = part_map_Some [OF part_ok_distinct [OF pok], of K]
  show ?thesis
  proof (cases "slots (T n) ! j")
    case None
    with j(3) have "part_map (T n) K = None" using m by (metis not_Some_eq option.distinct(1))
    then show ?thesis using False K None j(2) unat_slot [OF sh j(1)]
      by (simp add: find_slot_def Let_def key_hash_short flip: n_def)
  next
    case (Some e)
    then have "key e = K" "e \<in> set (entries (slots (T n)))" using j sh by (auto simp: entries_iff shape_def)
    then have "part_map (T n) K = Some (owner e)" using m by blast
    with False K Some j(1,2) unat_slot [OF sh j(1)] k \<open>key e = K\<close> show ?thesis
      by (simp add: find_slot_def Let_def key_hash_short flip: n_def) blast
  qed
qed

lemma get_listener_map:
  assumes "table_ok hf T" and "length K < 2 ^ 32"
  shows "get_listener hf T K = Some (table_map hf T K)"
  using find_slot_part [OF assms] by (auto simp: get_listener_def table_map_def split: option.splits)

lemma table_ok_upd: "table_ok hf T \<Longrightarrow> part_ok hf n p \<Longrightarrow> table_ok hf (T(n := p))"
  by (simp add: table_ok_def)

lemma listen_map:
  assumes ok: "table_ok hf T" and K: "length K < 2 ^ 32"
    and room: "unat (used (T (part_of (hf K)))) < 3 * 2 ^ 28"
  shows "\<exists>T'. listen hf dead this K T = Some T' \<and> table_ok hf T' \<and>
    table_map hf T' = set_key dead this K (table_map hf T)"
proof -
  let ?n = "part_of (hf K)"
  let ?p = "T ?n"
  let ?e = "\<lparr>key = K, owner = this, hash = hf K, len = of_nat (length K)\<rparr>"
  have pok: "part_ok hf ?n ?p" using ok by (simp add: table_ok_def)
  note dis = part_ok_distinct [OF pok]
  obtain p' j k where t: "take_slot ?p K (of_nat (length K)) (hf K) = Some (p', of_nat j)"
    and k: "3 \<le> k" "k \<le> 30" and j: "j < 2 ^ k" and pr: "probes hf ?n k p'"
    and ms: "mset (entries (slots p')) = mset (entries (slots ?p))"
    and sz: "4 * (length (entries (slots ?p)) + 1) \<le> 3 * 2 ^ k" and sf: "slot_for k ?p p' hf K j"
    using take_slot_part [OF pok K room] by blast
  have len: "length (entries (slots p')) = length (entries (slots ?p))" using ms by (metis size_mset)
  have same: "part_map p' = part_map ?p" by (rule part_map_mset [OF dis ms])
  have u: "unat (used ?p) = length (entries (slots ?p))" using pok by (simp add: part_ok_def)
  have sh: "shape k p'" using pr by (simp add: probes_def)
  have ee: "entry_ok hf ?n ?e" using K by (simp add: entry_ok_def)
  let ?q = "p'\<lparr>slots := (slots p')[j := Some ?e]\<rparr>"
  have L: "listen hf dead this K T =
    (case slots p' ! j of
       Some e \<Rightarrow> if \<not> dead (owner e) \<and> dead this then Some (T(?n := p')) else Some (T(?n := ?q))
     | None \<Rightarrow> Some (T(?n := ?q)))"
    unfolding listen_def Let_def key_hash_short [OF K] t option.case prod.case unat_slot [OF sh j]
    by (rule refl)
  show ?thesis
  proof (cases "slots p' ! j")
    case None
    with sf have new: "\<forall>e\<in>set (entries (slots p')). key e \<noteq> K" and used: "used p' = used ?p + 1"
      and path: "\<forall>q<2 ^ k. dist (2 ^ k) (home p' ?e) q < dist (2 ^ k) (home p' ?e) j \<longrightarrow> slots p' ! q \<noteq> None"
      by (auto simp: slot_for_def)
    have fill: "probes hf ?n k ?q" "mset (entries (slots ?q)) = add_mset ?e (mset (entries (slots p')))"
      using probes_fill [OF pr ee j None _ path] new by simp_all
    have "length (entries (slots ?q)) = Suc (length (entries (slots ?p)))"
      using fill(2) len by (metis size_add_mset size_mset)
    moreover have "unat (used ?p + 1) = unat (used ?p) + 1" using room by (simp add: unat_word_ariths)
    ultimately have "part_ok hf ?n ?q" unfolding part_ok_def using fill(1) k sz u used by auto
    moreover have "part_map ?q = (part_map p')(K \<mapsto> this)"
    proof -
      have "set (entries (slots ?q)) = insert ?e (set (entries (slots p')))"
        using fill(2) by (metis set_mset_add_mset_insert set_mset_mset)
      then show ?thesis
        using part_map_put [of ?q ?e p'] fill(1) pr new by (auto simp: probes_def)
    qed
    moreover have "part_map p' K = None"
      using new pr part_map_Some [of p' K] by (metis probes_def not_Some_eq)
    ultimately show ?thesis
      using L None table_ok_upd [OF ok] table_map_upd [of ?q T hf K "Some this"] same
      by (simp add: set_key_def table_map_def)
  next
    case (Some e)
    then have inn: "e \<in> set (entries (slots p'))" using j sh by (auto simp: entries_iff shape_def)
    with sf Some have e: "key e = K" and used: "used p' = used ?p" by (auto simp: slot_for_def)
    have o: "part_map p' K = Some (owner e)"
      using inn e pr part_map_Some [of p' K] by (auto simp: probes_def)
    have p'ok: "part_ok hf ?n p'" unfolding part_ok_def using pr k sz u used len by auto
    show ?thesis
    proof (cases "\<not> dead (owner e) \<and> dead this")
      case True
      then show ?thesis using L Some p'ok table_ok_upd [OF ok] o same table_map_same [of p' T ?n hf]
        by (simp add: set_key_def table_map_def)
    next
      case False
      have rep: "probes hf ?n k ?q" "mset (entries (slots ?q)) = add_mset ?e (mset (entries (slots p')) - {#e#})"
        using probes_replace [OF pr j Some ee] e by simp_all
      have "length (entries (slots ?q)) = length (entries (slots p'))"
        using rep(2) inn by (metis insert_DiffM set_mset_mset size_add_mset size_mset)
      then have "part_ok hf ?n ?q" unfolding part_ok_def using rep(1) k sz u used len by auto
      moreover have "part_map ?q = (part_map p')(K \<mapsto> this)"
      proof -
        have "distinct (entries (slots p'))" using pr by (auto simp: probes_def distinct_map)
        then have "set_mset (mset (entries (slots p')) - {#e#}) = set (entries (slots p')) - {e}"
          by (metis mset_remove1 set_mset_mset set_remove1_eq)
        moreover have "set (entries (slots p')) - {e} = {e'\<in>set (entries (slots p')). key e' \<noteq> K}"
          using inn e pr by (auto simp: probes_def distinct_map inj_on_def)
        ultimately have "set_mset (mset (entries (slots ?q))) = insert ?e {e'\<in>set (entries (slots p')). key e' \<noteq> key ?e}"
          unfolding rep(2) by simp
        then have "set (entries (slots ?q)) = insert ?e {e'\<in>set (entries (slots p')). key e' \<noteq> key ?e}"
          unfolding set_mset_mset .
        then show ?thesis using part_map_put [of ?q ?e p'] rep(1) pr by (auto simp: probes_def)
      qed
      ultimately show ?thesis
        using L Some False o table_ok_upd [OF ok] table_map_upd [of ?q T hf K "Some this"] same
        by (auto simp: set_key_def table_map_def)
    qed
  qed
qed

text \<open>\<^verbatim>\<open>free_slot\<close>: the other entries, still reachable.\<close>

lemma free_slot_part:
  assumes p: "probes hf n k p" and k: "3 \<le> k" and j: "unat i < 2 ^ k" "slots p ! unat i = Some e"
    and free: "None \<in> set (slots p)"
  shows "\<exists>p'. free_slot p i = Some p' \<and> used p' = used p - 1 \<and> probes hf n k p' \<and>
    mset (entries (slots p')) = mset (entries (slots p)) - {#e#}"
proof -
  let ?n = "length (slots p)"
  have sh: "shape k p" and pr: "probing (home p) (slots p)" using p by (auto simp: probes_def)
  have n: "?n = 2 ^ k" using sh by (simp add: shape_def)
  have "(2::nat) ^ 3 \<le> 2 ^ k" using k by (intro power_increasing) auto
  then have one: "1 < ?n" using n by simp
  have i: "unat i < ?n" using j n by simp
  let ?s = "(unat i + 1) mod ?n"
  have s: "?s < ?n" using i by simp
  have st: "stops (slots p) (\<lambda>_. False) q \<longleftrightarrow> slots p ! q = None" for q
    by (simp add: stops_def split: option.split)
  from nprobe_ends [OF s free, of "\<lambda>_. False"] obtain z where z: "z < ?n" "slots p ! z = None"
    and zp: "\<And>q. q < ?n \<Longrightarrow> dist ?n ?s q < dist ?n ?s z \<Longrightarrow> slots p ! q \<noteq> None"
    unfolding st by blast
  have zi: "unat i \<noteq> z" using z(2) j(2) by auto
  have "dist ?n (unat i) ?s + dist ?n ?s z < ?n"
    using dist_succ_left [OF i z(1) zi] dist_succ_self [OF one i] dist_less [OF i z(1)] by simp
  from nfree_correct [OF hole_inv_start [OF pr i one] z one zp this dist_less [OF s z(1)]] j(2)
  obtain ys h where ys: "nfree ?n (home p) (slots p) (unat i) ?s = Some (ys, h)" "h < ?n" "length ys = ?n"
    "probing (home p) (ys[h := None])" "mset (entries (ys[h := None])) = mset (entries ((slots p)[unat i := None]))"
    by auto
  have s': "unat ((i + 1) AND pmask p) = ?s"
    using sh j(1) by (simp add: shape_def unat_succ_mask)
  then have "unat ((i + 1) AND pmask p) < 2 ^ k" using s n by simp
  then have "free_loop ?n p i ((i + 1) AND pmask p) = Some (p\<lparr>slots := ys\<rparr>, of_nat h)"
    using free_loop_nfree [OF sh j(1)] s' ys(1) by simp
  moreover have "unat (of_nat h :: 32 word) = h" using unat_slot [OF sh] ys(2) n by simp
  ultimately have f: "free_slot p i = Some (p\<lparr>slots := ys[h := None], used := used p - 1\<rparr>)"
    by (simp add: free_slot_def)
  have ms: "mset (entries (ys[h := None])) = mset (entries (slots p)) - {#e#}"
    unfolding ys(5) by (rule entries_emptied [OF i j(2)])
  have inn: "e \<in># mset (entries (slots p))" using i j(2) by (auto simp: entries_iff)
  have al: "mset (entries (slots p)) = mset (e # entries (ys[h := None]))"
    using ms inn by simp
  then have "set (entries (ys[h := None])) \<subseteq> set (entries (slots p))"
    by (metis mset_eq_setD set_subset_Cons)
  moreover have "mset (map key (entries (slots p))) = mset (map key (e # entries (ys[h := None])))"
    using al by (metis mset_map)
  then have "distinct (map key (entries (ys[h := None])))"
    using p by (metis probes_def distinct.simps(2) list.simps(9) mset_eq_imp_distinct_iff)
  ultimately show ?thesis using f p ys ms by (auto simp: probes_def shape_def)
qed

lemma unlisten_map:
  assumes ok: "table_ok hf T" and K: "length K < 2 ^ 32"
  shows "\<exists>T'. unlisten hf this K T = Some T' \<and> table_ok hf T' \<and> table_map hf T' = drop_key this K (table_map hf T)"
proof -
  let ?n = "part_of (hf K)"
  have pok: "part_ok hf ?n (T ?n)" using ok by (simp add: table_ok_def)
  from find_slot_part [OF ok K] obtain r where r: "find_slot hf T K = Some r" and c:
    "case r of None \<Rightarrow> part_map (T ?n) K = None
     | Some (n', i) \<Rightarrow> n' = ?n \<and> (\<exists>k e. 3 \<le> k \<and> k \<le> 30 \<and> probes hf ?n k (T ?n) \<and> unat i < 2 ^ k \<and>
         slots (T ?n) ! unat i = Some e \<and> key e = K \<and> part_map (T ?n) K = Some (owner e))" by blast
  show ?thesis
  proof (cases r)
    case None
    with r c ok show ?thesis by (simp add: unlisten_def drop_key_def table_map_def)
  next
    case (Some ni)
    with c obtain i k e where ni: "ni = (?n, i)" and k: "3 \<le> k" "k \<le> 30" "probes hf ?n k (T ?n)" and i: "unat i < 2 ^ k"
      "slots (T ?n) ! unat i = Some e" and e: "key e = K" "part_map (T ?n) K = Some (owner e)"
      by (cases ni) auto
    show ?thesis
    proof (cases "owner e = this")
      case False
      with r Some ni i e ok show ?thesis by (simp add: unlisten_def drop_key_def table_map_def)
    next
      case True
      have sh: "shape k (T ?n)" using k(3) by (simp add: probes_def)
      then have inn: "e \<in> set (entries (slots (T ?n)))" using i by (auto simp: entries_iff shape_def)
      have part: "part_of (hash e) = ?n" using part_ok_entry [OF pok inn] unfolding entry_ok_def by blast
      obtain k' where k': "probes hf ?n k' (T ?n)" "4 * length (entries (slots (T ?n))) \<le> 3 * 2 ^ k'"
        using pok inn by (auto simp: part_ok_def)
      then have "(2::nat) ^ k' = 2 ^ k" using sh by (simp add: probes_def shape_def)
      with k'(2) have sz: "4 * length (entries (slots (T ?n))) \<le> 3 * 2 ^ k" by simp
      have "0 < (2::nat) ^ k" by simp
      then have "length (entries (slots (T ?n))) < 2 ^ k" using sz by linarith
      then have "length (entries (slots (T ?n))) < length (slots (T ?n))" using sh by (simp add: shape_def)
      from free_slot_part [OF k(3,1) i has_free [OF this]] obtain p' where p': "free_slot (T ?n) i = Some p'"
        "used p' = used (T ?n) - 1" "probes hf ?n k p'" "mset (entries (slots p')) = mset (entries (slots (T ?n))) - {#e#}"
        by blast
      have len: "length (entries (slots p')) = length (entries (slots (T ?n))) - 1"
        using p'(4) inn by (metis set_mset_mset size_Diff_singleton size_mset)
      have pos: "0 < length (entries (slots (T ?n)))" using inn by (cases "entries (slots (T ?n))") auto
      have u: "unat (used (T ?n)) = length (entries (slots (T ?n)))" using pok by (simp add: part_ok_def)
      have "unat (used p') = length (entries (slots p'))"
        unfolding p'(2) len u [symmetric] using pos u
        by (subst unat_sub) (auto simp: word_le_nat_alt Suc_le_eq)
      then have "part_ok hf ?n p'" unfolding part_ok_def using p'(3) k sz len by auto
      moreover have "part_map p' = (part_map (T ?n))(K := None)"
      proof (rule part_map_eqI)
        show "distinct (map key (entries (slots p')))" using p'(3) by (simp add: probes_def)
        have "distinct (entries (slots (T ?n)))" using k(3) by (auto simp: probes_def distinct_map)
        then have "set (entries (slots p')) = set (entries (slots (T ?n))) - {e}"
          using p'(4) by (metis mset_remove1 set_mset_mset set_remove1_eq)
        then have "set (entries (slots p')) = {e'\<in>set (entries (slots (T ?n))). key e' \<noteq> K}"
          using inn e(1) k(3) by (auto simp: probes_def distinct_map inj_on_def)
        then show "(\<exists>e\<in>set (entries (slots p')). key e = q \<and> owner e = ow) \<longleftrightarrow> ((part_map (T ?n))(K := None)) q = Some ow" for q ow
          using part_map_Some [OF part_ok_distinct [OF pok]] by auto
      qed
      ultimately show ?thesis
        using r Some ni i True e(2) part p'(1) table_ok_upd [OF ok] table_map_upd [of p' T hf K None]
        by (auto simp: unlisten_def drop_key_def table_map_def)
    qed
  qed
qed

lemma table_ok_init: "table_ok hf (\<lambda>_. empty_part)"
  and table_map_init: "table_map hf (\<lambda>_. empty_part) = Map.empty"
  by (auto simp: table_ok_def part_ok_def empty_part_def table_map_def part_map_def)

section \<open>Sequences of operations\<close>

datatype 'o table_op = Listen 'o string | Unlisten 'o string

definition done_of :: "'a option \<Rightarrow> 'a res" where
  "done_of r = (case r of None \<Rightarrow> Inl Undefined | Some x \<Rightarrow> Inr x)"

fun table_step :: "hash_fun \<Rightarrow> ('o \<Rightarrow> bool) \<Rightarrow> 'o table_op \<Rightarrow> 'o listener_table \<Rightarrow> 'o listener_table res" where
  "table_step hf dead (Listen this k) T = done_of (listen hf dead this k T)"
| "table_step hf dead (Unlisten this k) T = done_of (unlisten hf this k T)"

fun key_step :: "('o \<Rightarrow> bool) \<Rightarrow> 'o table_op \<Rightarrow> (string \<rightharpoonup> 'o) \<Rightarrow> (string \<rightharpoonup> 'o)" where
  "key_step dead (Listen this k) m = set_key dead this k m"
| "key_step dead (Unlisten this k) m = drop_key this k m"

text \<open>
  The bounds within which 32 bit lengths and counters do not wrap: keys below 4 GB, and fewer than
  \<open>3 * 2 ^ 28\<close> keys at a time.
\<close>

fun key_ok :: "'o table_op \<Rightarrow> (string \<rightharpoonup> 'o) \<Rightarrow> bool" where
  "key_ok (Listen this k) m \<longleftrightarrow> length k < 2 ^ 32 \<and> card (dom m) < 3 * 2 ^ 28"
| "key_ok (Unlisten this k) m \<longleftrightarrow> length k < 2 ^ 32"

definition table_rel :: "hash_fun \<Rightarrow> (string \<rightharpoonup> 'o) \<Rightarrow> 'o listener_table \<Rightarrow> bool" where
  "table_rel hf m T \<longleftrightarrow> table_ok hf T \<and> table_map hf T = m \<and> finite (dom m)"

lemma finite_dom_key_step: "finite (dom m) \<Longrightarrow> finite (dom (key_step dead x m))"
  by (cases x) (auto simp: set_key_def drop_key_def split: option.splits)

lemma used_le_card:
  assumes "table_rel hf m T"
  shows "unat (used (T n)) \<le> card (dom m)"
proof -
  have pok: "part_ok hf n (T n)" using assms by (simp add: table_rel_def table_ok_def)
  let ?es = "entries (slots (T n))"
  have "key ` set ?es \<subseteq> dom m"
  proof
    fix k assume "k \<in> key ` set ?es"
    then obtain e where e: "e \<in> set ?es" "key e = k" by auto
    then have "part_of (hf k) = n" using part_ok_entry [OF pok e(1)] unfolding entry_ok_def by metis
    moreover have "part_map (T n) k = Some (owner e)" using e part_map_Some [OF part_ok_distinct [OF pok]] by blast
    ultimately show "k \<in> dom m" using assms by (auto simp: table_rel_def table_map_def)
  qed
  moreover have "card (key ` set ?es) = length ?es"
    using part_ok_distinct [OF pok] by (metis distinct_card length_map list.set_map)
  ultimately show ?thesis using assms pok card_mono [of "dom m" "key ` set ?es"]
    by (auto simp: table_rel_def part_ok_def)
qed

lemma table_step_sim:
  assumes "table_rel hf m T" and "key_ok x m"
  shows "\<exists>T'. table_step hf dead x T = Inr T' \<and> table_rel hf (key_step dead x m) T'"
proof (cases x)
  case (Listen this k)
  have "\<exists>T'. listen hf dead this k T = Some T' \<and> table_ok hf T' \<and>
    table_map hf T' = set_key dead this k (table_map hf T)"
    using assms Listen used_le_card [OF assms(1), of "part_of (hf k)"]
    by (intro listen_map) (auto simp: table_rel_def)
  then show ?thesis using assms(1) Listen finite_dom_key_step [of m dead x]
    by (auto simp: table_rel_def done_of_def)
next
  case (Unlisten this k)
  have "\<exists>T'. unlisten hf this k T = Some T' \<and> table_ok hf T' \<and> table_map hf T' = drop_key this k (table_map hf T)"
    using assms Unlisten by (intro unlisten_map) (auto simp: table_rel_def)
  then show ?thesis using assms(1) Unlisten finite_dom_key_step [of m dead x]
    by (auto simp: table_rel_def done_of_def)
qed

interpretation tab: simulation "table_step hf dead" "key_step dead" key_ok "table_rel hf" for hf dead
  by unfold_locales (rule table_step_sim)

lemma table_rel_init: "table_rel hf Map.empty (\<lambda>_. empty_part)"
  by (simp add: table_rel_def table_ok_init table_map_init)

section \<open>Properties\<close>

text \<open>
  C14: for every hash function, after any sequence of \<open>listen\<close> and \<open>unlisten\<close> calls from the empty table,
  growth of the parts and removals included, each call has returned (no probing loop runs on or
  leaves its array) and \<open>get_listener\<close> finds for every key exactly the listener that the map with the
  same updates has.
\<close>

theorem listener_table_is_map:
  assumes "legal_run key_ok (key_step dead) ops Map.empty"
  shows "\<exists>T. run_res (table_step hf dead) ops (\<lambda>_. empty_part) = Inr T \<and>
    (\<forall>k. length k < 2 ^ 32 \<longrightarrow> get_listener hf T k = Some (fold (key_step dead) ops Map.empty k))"
  using tab.run_sim [OF table_rel_init assms] get_listener_map by (fastforce simp: table_rel_def)

theorem listener_table_is_map_witness:
  "\<exists>T. run_res (table_step (\<lambda>_. 7) (\<lambda>n::nat. n = 9)) [Listen 1 ''a'', Listen 2 ''b'', Listen 9 ''a'', Unlisten 1 ''a'']
      (\<lambda>_. empty_part) = Inr T \<and> get_listener (\<lambda>_. 7) T ''a'' = Some None \<and> get_listener (\<lambda>_. 7) T ''b'' = Some (Some 2)"
proof -
  have "\<exists>T. run_res (table_step (\<lambda>_. 7) (\<lambda>n::nat. n = 9)) [Listen 1 ''a'', Listen 2 ''b'', Listen 9 ''a'', Unlisten 1 ''a'']
      (\<lambda>_. empty_part) = Inr T \<and> (\<forall>k. length k < 2 ^ 32 \<longrightarrow> get_listener (\<lambda>_. 7) T k =
        Some (fold (key_step (\<lambda>n::nat. n = 9)) [Listen 1 ''a'', Listen 2 ''b'', Listen 9 ''a'', Unlisten 1 ''a''] Map.empty k))"
    by (rule listener_table_is_map) (simp add: set_key_def)
  then show ?thesis by (auto simp: set_key_def drop_key_def)
qed

text \<open>
  An object that starts listening takes the messages for its id, unless it is a dead call and a
  live one has them; when it stops, only an entry of its own goes, and every other key keeps its
  listener throughout.
\<close>

theorem start_stop_listening:
  fixes dead :: "'o \<Rightarrow> bool" and this :: 'o
  assumes T: "table_ok hf T" and id: "length (lid l) < 2 ^ 32" "\<not> listening l"
    and room: "unat (used (T (part_of (hf (lid l))))) < 3 * 2 ^ 28"
  defines "refused \<equiv> dead this \<and> (\<exists>other. get_listener hf T (lid l) = Some (Some other) \<and> \<not> dead other)"
  shows "\<exists>l1 T1 l2 T2. startListening hf dead this l T = Inr (Some (l1, T1)) \<and> listening l1 \<and> table_ok hf T1 \<and>
    (\<not> refused \<longrightarrow> get_listener hf T1 (lid l) = Some (Some this)) \<and>
    (refused \<longrightarrow> get_listener hf T1 (lid l) = get_listener hf T (lid l)) \<and>
    stopListening hf this l1 T1 = Inr (Some (l2, T2)) \<and> \<not> listening l2 \<and> table_ok hf T2 \<and>
    get_listener hf T2 (lid l) \<noteq> Some (Some this) \<and>
    (refused \<longrightarrow> get_listener hf T2 (lid l) = get_listener hf T (lid l)) \<and>
    (\<forall>k. k \<noteq> lid l \<longrightarrow> length k < 2 ^ 32 \<longrightarrow>
       get_listener hf T1 k = get_listener hf T k \<and> get_listener hf T2 k = get_listener hf T k)"
proof -
  obtain T1 where T1: "listen hf dead this (lid l) T = Some T1" "table_ok hf T1"
    "table_map hf T1 = set_key dead this (lid l) (table_map hf T)" using listen_map [OF T id(1) room] by blast
  obtain T2 where T2: "unlisten hf this (lid l) T1 = Some T2" "table_ok hf T2"
    "table_map hf T2 = drop_key this (lid l) (table_map hf T1)" using unlisten_map [OF T1(2) id(1)] by blast
  note g = get_listener_map [OF T] get_listener_map [OF T1(2)] get_listener_map [OF T2(2)]
  show ?thesis
    by (rule exI [of _ "l\<lparr>listening := True\<rparr>"], rule exI [of _ T1], rule exI [of _ "l\<lparr>listening := False\<rparr>"],
        rule exI [of _ T2])
      (use T1 T2 id g in \<open>auto simp: startListening_def stopListening_def refused_def set_key_def drop_key_def
         split: option.splits\<close>)
qed

theorem start_stop_listening_witness:
  "\<exists>l1 T1 l2 T2. startListening (\<lambda>_. 7) (\<lambda>_. False) (3::nat) \<lparr>lid = ''a'', listening = False, own_id = True\<rparr> (\<lambda>_. empty_part)
      = Inr (Some (l1, T1)) \<and> get_listener (\<lambda>_. 7) T1 ''a'' = Some (Some 3) \<and>
    stopListening (\<lambda>_. 7) 3 l1 T1 = Inr (Some (l2, T2)) \<and> get_listener (\<lambda>_. 7) T2 ''a'' \<noteq> Some (Some 3)"
  using start_stop_listening [OF table_ok_init, of "\<lparr>lid = ''a'', listening = False, own_id = True\<rparr>" "\<lambda>_. 7"
      "\<lambda>_. False" "3::nat"]
  by (auto simp: empty_part_def)

end
