(* ===== verification/C_Strings.thy ===== *)
theory C_Strings
  imports Sipp_Prelude
begin

unbundle bit_operations_syntax

text \<open>
  What the source uses of the C and C++ libraries for text: the character classes of \<^verbatim>\<open>ctype.h\<close> in
  the C locale, \<^verbatim>\<open>strchr\<close>, \<^verbatim>\<open>std::string::find\<close>, comparison ignoring case, \<^verbatim>\<open>atol\<close> and
  \<^verbatim>\<open>std::to_string\<close>. A \<^verbatim>\<open>char *\<close> into a string is the suffix that starts there; a null pointer is
  \<open>None\<close>. A byte is a \<^typ>\<open>char\<close>, and its value as \<^verbatim>\<open>unsigned char\<close> is \<open>byte c\<close>.
\<close>

section \<open>Bytes\<close>

definition byte :: "char \<Rightarrow> nat" where
  "byte c = of_char c"

abbreviation chr :: "nat \<Rightarrow> char" where
  "chr n \<equiv> char_of n"

lemma byte_less [simp]: "byte c < 256"
  by (simp add: byte_def)

lemma byte_div16: "byte c div 16 < 16"
  by (rule less_mult_imp_div_less) simp

lemma byte_chr [simp]: "byte (chr n) = n mod 256"
  by (simp add: byte_def)

lemma chr_byte [simp]: "chr (byte c) = c"
  by (simp add: byte_def)

lemma byte_eq [simp]: "byte c = byte d \<longleftrightarrow> c = d"
  by (simp add: byte_def)

lemma byte_Char: "byte (Char b0 b1 b2 b3 b4 b5 b6 b7) =
    of_bool b0 + 2 * of_bool b1 + 4 * of_bool b2 + 8 * of_bool b3 + 16 * of_bool b4 + 32 * of_bool b5 +
    64 * of_bool b6 + 128 * of_bool b7"
  by (simp add: byte_def)

text \<open>A statement about one byte holds when it holds for all 256.\<close>

lemma all_bytes:
  assumes "list_all P [0..<256]"
  shows "P (byte c)"
  using assms byte_less [of c] by (simp only: list_all_iff set_upt) auto

lemma all_below:
  assumes "list_all P [0..<m]" and "n < m"
  shows "P n"
  using assms by (simp add: list_all_iff)

abbreviation NUL :: char where "NUL \<equiv> CHR 0x00"
abbreviation TAB :: char where "TAB \<equiv> CHR 0x09"
abbreviation LF :: char where "LF \<equiv> CHR 0x0A"
abbreviation CR :: char where "CR \<equiv> CHR 0x0D"
abbreviation SP :: char where "SP \<equiv> CHR 0x20"
abbreviation DQUOTE :: char where "DQUOTE \<equiv> CHR 0x22"
abbreviation CRLF :: string where "CRLF \<equiv> [CR, LF]"

definition isdigit :: "char \<Rightarrow> bool" where
  "isdigit c \<longleftrightarrow> 48 \<le> byte c \<and> byte c \<le> 57"

definition isupper :: "char \<Rightarrow> bool" where
  "isupper c \<longleftrightarrow> 65 \<le> byte c \<and> byte c \<le> 90"

definition islower :: "char \<Rightarrow> bool" where
  "islower c \<longleftrightarrow> 97 \<le> byte c \<and> byte c \<le> 122"

definition isalnum :: "char \<Rightarrow> bool" where
  "isalnum c \<longleftrightarrow> isdigit c \<or> isupper c \<or> islower c"

definition isxdigit :: "char \<Rightarrow> bool" where
  "isxdigit c \<longleftrightarrow> isdigit c \<or> 65 \<le> byte c \<and> byte c \<le> 70 \<or> 97 \<le> byte c \<and> byte c \<le> 102"

definition isspace :: "char \<Rightarrow> bool" where
  "isspace c \<longleftrightarrow> byte c = 32 \<or> 9 \<le> byte c \<and> byte c \<le> 13"

definition tolower :: "char \<Rightarrow> char" where
  "tolower c = (if isupper c then chr (byte c + 32) else c)"

definition toupper :: "char \<Rightarrow> char" where
  "toupper c = (if islower c then chr (byte c - 32) else c)"

section \<open>Strings\<close>

text \<open>The C string at the start of some bytes.\<close>

definition c_str :: "string \<Rightarrow> string" where
  "c_str s = takeWhile (\<lambda>c. c \<noteq> NUL) s"

lemma c_str_no_NUL [simp]: "NUL \<notin> set s \<Longrightarrow> c_str s = s"
  by (auto simp: c_str_def takeWhile_eq_all_conv)

text \<open>\<^verbatim>\<open>strcasecmp(a, b) == 0\<close>.\<close>

definition eq_nocase :: "string \<Rightarrow> string \<Rightarrow> bool" where
  "eq_nocase a b \<longleftrightarrow> map tolower a = map tolower b"

lemma eq_nocase_refl [simp]: "eq_nocase a a"
  by (simp add: eq_nocase_def)

lemma eq_nocase_sym: "eq_nocase a b \<longleftrightarrow> eq_nocase b a"
  by (auto simp: eq_nocase_def)

lemma tolower_colon: "tolower c = CHR '':'' \<longleftrightarrow> c = CHR '':''"
proof -
  have "byte (CHR '':'') = 58" by (simp add: byte_def)
  then show ?thesis by (auto simp: tolower_def isupper_def dest!: arg_cong [of _ _ byte])
qed

text \<open>Lines that each end with a CRLF.\<close>

definition lines :: "string list \<Rightarrow> string" where
  "lines ls = concat (map (\<lambda>l. l @ CRLF) ls)"

lemma lines_simps [simp]: "lines [] = []" "lines (l # ls) = l @ CRLF @ lines ls"
  by (simp_all add: lines_def)

definition strchr :: "string \<Rightarrow> char \<Rightarrow> string option" where
  "strchr s c = (case dropWhile (\<lambda>x. x \<noteq> c) s of [] \<Rightarrow> None | t \<Rightarrow> Some t)"

lemma strchr_None: "strchr s c = None \<longleftrightarrow> c \<notin> set s"
proof -
  have "dropWhile (\<lambda>x. x \<noteq> c) s = [] \<longleftrightarrow> c \<notin> set s" by (auto simp: dropWhile_eq_Nil_conv)
  then show ?thesis unfolding strchr_def by (metis list.case_eq_if option.distinct(1))
qed

lemma strchr_first: "c \<notin> set a \<Longrightarrow> strchr (a @ c # b) c = Some (c # b)"
  by (induction a) (auto simp: strchr_def)

lemma strchr_here [simp]: "strchr (c # b) c = Some (c # b)"
  by (simp add: strchr_def)

text \<open>The text of a pointer into \<open>s\<close> before the pointer \<open>t\<close>: \<^verbatim>\<open>host.assign(s, t - s)\<close>.\<close>

definition upto_ptr :: "string \<Rightarrow> string \<Rightarrow> string" where
  "upto_ptr s t = take (length s - length t) s"

lemma upto_ptr_append [simp]: "upto_ptr (a @ b) b = a"
  by (simp add: upto_ptr_def)

text \<open>\<^verbatim>\<open>std::string::find\<close> of a pattern, \<open>None\<close> for \<^verbatim>\<open>npos\<close>.\<close>

fun find_sub :: "string \<Rightarrow> string \<Rightarrow> nat option" where
  "find_sub pat [] = (if pat = [] then Some 0 else None)"
| "find_sub pat (c # s) =
     (if take (length pat) (c # s) = pat then Some 0 else map_option Suc (find_sub pat s))"

lemma find_sub_here: "find_sub pat (pat @ s) = Some 0"
proof (cases "pat @ s")
  case (Cons c t)
  then have "take (length pat) (c # t) = pat" by (metis append_eq_conv_conj)
  then show ?thesis using Cons by simp
qed simp

text \<open>A pattern that starts with a byte that the text before does not have.\<close>

lemma find_sub_skip:
  assumes "c \<notin> set a"
  shows "find_sub (c # pat) (a @ s) = map_option (\<lambda>n. length a + n) (find_sub (c # pat) s)"
  using assms by (induction a) (cases "find_sub (c # pat) s"; auto)+

lemma find_sub_first:
  assumes "c \<notin> set a"
  shows "find_sub (c # pat) (a @ c # pat @ s) = Some (length a)"
  using find_sub_skip [OF assms, of pat "c # pat @ s"] find_sub_here [of "c # pat" s] by simp

lemma find_sub_absent: "c \<notin> set s \<Longrightarrow> find_sub (c # pat) s = None"
  by (induction s) auto

lemma find_sub_le: "find_sub pat s = Some n \<Longrightarrow> n + length pat \<le> length s"
proof (induction s arbitrary: n)
  case (Cons c s)
  show ?case
  proof (cases "take (length pat) (c # s) = pat")
    case True
    then have "length pat \<le> length (c # s)" by (metis length_take min.cobounded1)
    with True Cons.prems show ?thesis by simp
  next
    case False
    with Cons.prems obtain m where "find_sub pat s = Some m" "n = Suc m" by auto
    with Cons.IH [of m] show ?thesis by simp
  qed
qed (auto split: if_splits)

text \<open>The size of the arrays that messages and fields are read into.\<close>

definition SIPP_MAX_MSG_SIZE :: nat where "SIPP_MAX_MSG_SIZE = 65536"

section \<open>Numbers in text\<close>

fun to_string :: "nat \<Rightarrow> string" where
  "to_string n = (if n < 10 then [chr (48 + n)] else to_string (n div 10) @ [chr (48 + n mod 10)])"

declare to_string.simps [simp del]

definition digit_value :: "char \<Rightarrow> nat" where
  "digit_value c = byte c - 48"

definition decimal :: "string \<Rightarrow> nat" where
  "decimal s = foldl (\<lambda>n c. 10 * n + digit_value c) 0 s"

lemma to_string_digits: "c \<in> set (to_string n) \<Longrightarrow> isdigit c"
proof (induction n rule: to_string.induct)
  case (1 n)
  then show ?case
    by (subst (asm) (2) to_string.simps) (auto simp: isdigit_def split: if_splits)
qed

lemma to_string_not_Nil [simp]: "to_string n \<noteq> []"
  by (subst to_string.simps) simp

lemma decimal_to_string [simp]: "decimal (to_string n) = n"
proof (induction n rule: to_string.induct)
  case (1 n)
  then show ?case
    by (subst to_string.simps) (auto simp: decimal_def digit_value_def)
qed

text \<open>
  \<^verbatim>\<open>strtol(s, &end, 10)\<close>: white space, a sign, digits; the value is clamped to a \<^verbatim>\<open>long\<close>. \<^verbatim>\<open>end\<close> is the
  rest, the whole text when there is no digit.
\<close>

definition LONG_MAX :: int where "LONG_MAX = 2 ^ 63 - 1"

definition clamp_long :: "int \<Rightarrow> int" where
  "clamp_long n = max (- LONG_MAX - 1) (min LONG_MAX n)"

definition strtol :: "string \<Rightarrow> int \<times> string" where
  "strtol s =
     (let t = dropWhile isspace s;
          neg = (t \<noteq> [] \<and> hd t = CHR ''-'');
          u = (if t \<noteq> [] \<and> (hd t = CHR ''-'' \<or> hd t = CHR ''+'') then tl t else t);
          ds = takeWhile isdigit u;
          v = int (decimal ds)
      in if ds = [] then (0, s) else (clamp_long (if neg then - v else v), dropWhile isdigit u))"

definition atol :: "string \<Rightarrow> int" where
  "atol s = fst (strtol s)"

text \<open>\<^verbatim>\<open>strtoul\<close>: the digits as \<^verbatim>\<open>strtol\<close> has them; a minus sign negates in 64 bits.\<close>

definition strtoul :: "string \<Rightarrow> nat" where
  "strtoul s =
     (let t = dropWhile isspace s;
          neg = (t \<noteq> [] \<and> hd t = CHR ''-'');
          u = (if t \<noteq> [] \<and> (hd t = CHR ''-'' \<or> hd t = CHR ''+'') then tl t else t);
          v = decimal (takeWhile isdigit u)
      in if v \<ge> 2 ^ 64 then 2 ^ 64 - 1 else if neg then (2 ^ 64 - v) mod 2 ^ 64 else v)"

text \<open>Conversion to a 32 bit \<^verbatim>\<open>int\<close>.\<close>

definition to_int32 :: "int \<Rightarrow> int" where
  "to_int32 n = (n + 2 ^ 31) mod 2 ^ 32 - 2 ^ 31"

lemma to_int32_id: "- (2 ^ 31) \<le> n \<Longrightarrow> n < 2 ^ 31 \<Longrightarrow> to_int32 n = n"
  by (simp add: to_int32_def)

lemma digit_not_space: "isdigit c \<Longrightarrow> \<not> isspace c"
  by (auto simp: isdigit_def isspace_def)

lemma digit_not_sign: "isdigit c \<Longrightarrow> c \<noteq> CHR ''-'' \<and> c \<noteq> CHR ''+''"
  by (auto simp: isdigit_def byte_def)

lemma strtol_digits:
  assumes "ds \<noteq> []" and "\<forall>c\<in>set ds. isdigit c" and "s = [] \<or> \<not> isdigit (hd s)" and "decimal ds < 2 ^ 63"
  shows "strtol (ds @ s) = (int (decimal ds), s)"
proof -
  obtain d ds' where d: "ds = d # ds'" using assms(1) by (cases ds) auto
  then have "isdigit d" using assms(2) by simp
  then have no: "\<not> isspace d" "d \<noteq> CHR ''-''" "d \<noteq> CHR ''+''" using digit_not_space digit_not_sign by auto
  have t: "takeWhile isdigit (ds @ s) = ds" "dropWhile isdigit (ds @ s) = s"
    using assms(2,3) by (cases s; simp add: takeWhile_append dropWhile_append)+
  have "clamp_long (int (decimal ds)) = int (decimal ds)"
    using assms(4) by (simp add: clamp_long_def LONG_MAX_def)
  with d no t show ?thesis by (auto simp: strtol_def Let_def)
qed

lemma atol_to_string: "n < 2 ^ 63 \<Longrightarrow> atol (to_string n) = int n"
  using strtol_digits [of "to_string n" "[]"] by (simp add: atol_def to_string_digits)

end
