(* ===== verification/Url_Strings.thy ===== *)
theory Url_Strings
  imports C_Strings
begin

text \<open>
  The text helpers: percent encoding (\<^verbatim>\<open>urlcoder.cpp\<close>), and splitting an address into host and port,
  hexadecimal digits and the wrapping of help texts (\<^verbatim>\<open>strings.cpp\<close>). Indices into a string that
  only move forward are the suffix from there.
\<close>

section \<open>Percent encoding\<close>

definition unreserved :: "char \<Rightarrow> bool" where
  "unreserved c \<longleftrightarrow> isalnum c \<or> c = CHR ''-'' \<or> c = CHR ''_'' \<or> c = CHR ''.'' \<or> c = CHR ''~''"

definition hex_digit :: "nat \<Rightarrow> char" where
  "hex_digit n = (if n < 10 then chr (48 + n) else chr (55 + n))"

text \<open>\<^verbatim>\<open>sprintf(bufHex, "%X", c)\<close>\<close>

fun print_X :: "nat \<Rightarrow> string" where
  "print_X n = (if n < 16 then [hex_digit n] else print_X (n div 16) @ [hex_digit (n mod 16)])"

definition url_encode_char :: "char \<Rightarrow> string" where
  "url_encode_char c =
     (if unreserved c then [c]
      else (if byte c < 16 then ''%0'' else ''%'') @ print_X (byte c))"

definition url_encode :: "string \<Rightarrow> string" where
  "url_encode str = concat (map url_encode_char (c_str str))"

definition get_decimal_from_hex :: "char \<Rightarrow> int" where
  "get_decimal_from_hex hex =
     (if isdigit hex then int (byte hex) - 48 else int (byte (tolower hex)) - 97 + 10)"

text \<open>\<^verbatim>\<open>std::stoi(\<dots>, nullptr, 16)\<close> of two hexadecimal digits.\<close>

definition stoi16 :: "char \<Rightarrow> char \<Rightarrow> nat" where
  "stoi16 a b = nat (16 * get_decimal_from_hex a + get_decimal_from_hex b)"

definition plus_to_space :: "char \<Rightarrow> char" where
  "plus_to_space c = (if c = CHR ''+'' then SP else c)"

fun url_decode :: "string \<Rightarrow> string" where
  "url_decode [] = []"
| "url_decode [c] = [plus_to_space c]"
| "url_decode [c, a] = plus_to_space c # url_decode [a]"
| "url_decode (c # a # b # t) =
     (if c = CHR ''%'' \<and> isxdigit a \<and> isxdigit b then chr (stoi16 a b) # url_decode t
      else plus_to_space c # url_decode (a # b # t))"

lemma hex_digit_facts:
  assumes "n < 16"
  shows "isxdigit (hex_digit n)" and "get_decimal_from_hex (hex_digit n) = int n"
  using assms
  by (auto simp: hex_digit_def isxdigit_def get_decimal_from_hex_def isdigit_def tolower_def isupper_def)

lemma url_encode_char_hex:
  assumes "\<not> unreserved c"
  shows "url_encode_char c = [CHR ''%'', hex_digit (byte c div 16), hex_digit (byte c mod 16)]"
proof -
  have "byte c div 16 < 16" by (rule byte_div16)
  moreover have "chr 48 = CHR ''0''" by (simp add: char_of_def bit_Suc_0_iff)
  ultimately show ?thesis using assms by (auto simp: url_encode_char_def hex_digit_def)
qed

lemma url_decode_char: "url_decode (url_encode_char c @ s) = c # url_decode s"
proof (cases "unreserved c")
  case True
  then have "c \<noteq> CHR ''%''" "plus_to_space c = c"
    by (auto simp: unreserved_def isalnum_def isdigit_def isupper_def islower_def byte_def plus_to_space_def)
  then have "url_decode (c # s) = c # url_decode s" by (cases "c # s" rule: url_decode.cases) auto
  then show ?thesis using True by (simp add: url_encode_char_def)
next
  case False
  have a: "byte c div 16 < 16" "byte c mod 16 < 16" using byte_div16 by simp_all
  have "stoi16 (hex_digit (byte c div 16)) (hex_digit (byte c mod 16)) = byte c"
    using hex_digit_facts(2) [OF a(1)] hex_digit_facts(2) [OF a(2)] by (simp add: stoi16_def nat_add_distrib nat_mult_distrib)
  then show ?thesis using False hex_digit_facts(1) [OF a(1)] hex_digit_facts(1) [OF a(2)]
    by (simp add: url_encode_char_hex)
qed

text \<open>
  C15: what \<open>url_encode\<close> makes of a string has only unreserved characters and percent signs followed
  by two hexadecimal digits, and \<open>url_decode\<close> gives the string back (up to its first NUL, where the
  encoder stops).
\<close>

theorem url_decode_encode:
  "url_decode (url_encode s) = c_str s \<and>
   (\<exists>ps. url_encode s = concat ps \<and> (\<forall>p\<in>set ps. (\<exists>c. unreserved c \<and> p = [c]) \<or>
      (\<exists>a b. isxdigit a \<and> isxdigit b \<and> p = [CHR ''%'', a, b])))"
proof
  have "url_decode (concat (map url_encode_char t)) = t" for t
    by (induction t) (simp_all add: url_decode_char)
  then show "url_decode (url_encode s) = c_str s" by (simp add: url_encode_def)
  have "(\<exists>c. unreserved c \<and> p = [c]) \<or> (\<exists>a b. isxdigit a \<and> isxdigit b \<and> p = [CHR ''%'', a, b])"
    if p: "p \<in> set (map url_encode_char (c_str s))" for p
  proof -
    from p obtain c where c: "p = url_encode_char c" by auto
    have "byte c div 16 < 16" by (rule byte_div16)
    then show ?thesis using c url_encode_char_hex [of c] hex_digit_facts(1)
      by (cases "unreserved c") (auto simp: url_encode_char_def)
  qed
  then show "\<exists>ps. url_encode s = concat ps \<and> (\<forall>p\<in>set ps. (\<exists>c. unreserved c \<and> p = [c]) \<or>
      (\<exists>a b. isxdigit a \<and> isxdigit b \<and> p = [CHR ''%'', a, b]))"
    unfolding url_encode_def by blast
qed

theorem url_decode_encode_witness:
  "url_decode (url_encode ''a b'') = ''a b'' \<and> (\<exists>ps. url_encode ''a b'' = concat ps)"
  using url_decode_encode [of "''a b''"] by (auto simp: c_str_def)

section \<open>Host and port\<close>

definition get_host_and_port :: "string \<Rightarrow> string \<times> int" where
  "get_host_and_port addr =
     (let initial_bracket = strchr addr CHR ''['';
          second_bracket = (case initial_bracket of None \<Rightarrow> None | Some b \<Rightarrow> strchr b CHR '']'')
      in case (initial_bracket, second_bracket) of
           (Some b1, Some b2) \<Rightarrow>
             (upto_ptr (tl b1) b2,
              case strchr (tl b2) CHR '':'' of None \<Rightarrow> 0 | Some c \<Rightarrow> to_int32 (atol (tl c)))
         | _ \<Rightarrow>
             (case strchr addr CHR '':'' of
                None \<Rightarrow> (addr, 0)
              | Some c \<Rightarrow>
                  if strchr (tl c) CHR '':'' = None then (upto_ptr addr c, to_int32 (atol (tl c)))
                  else (addr, 0)))"

lemma digits_no: "\<not> isdigit c \<Longrightarrow> c \<notin> set (to_string n)"
  using to_string_digits by auto

lemma get_host_and_port_cases:
  assumes "n < 2 ^ 31"
  shows "CHR ''['' \<notin> set h \<Longrightarrow> CHR '':'' \<notin> set h \<Longrightarrow>
      get_host_and_port h = (h, 0) \<and> get_host_and_port (h @ '':'' @ to_string n) = (h, int n)"
    and "CHR '']'' \<notin> set a \<Longrightarrow>
      get_host_and_port (''['' @ a @ '']'') = (a, 0) \<and> get_host_and_port (''['' @ a @ '']:'' @ to_string n) = (a, int n)"
    and "CHR ''['' \<notin> set b \<Longrightarrow> b = x @ '':'' @ y @ '':'' @ z \<Longrightarrow> get_host_and_port b = (b, 0)"
proof -
  have nd: "\<not> isdigit CHR ''[''" "\<not> isdigit CHR '':''" by (simp_all add: isdigit_def byte_def)
  have port: "to_int32 (atol (to_string n)) = int n"
    using assms atol_to_string [of n] by (simp add: to_int32_id)
  note none = strchr_None [THEN iffD2]
  show "get_host_and_port h = (h, 0) \<and> get_host_and_port (h @ '':'' @ to_string n) = (h, int n)"
    if h: "CHR ''['' \<notin> set h" "CHR '':'' \<notin> set h"
    using none [of "CHR ''[''" h] none [of "CHR '':''" h] h none [of "CHR ''[''" "h @ '':'' @ to_string n"]
      strchr_first [OF h(2), of "to_string n"] none [of "CHR '':''" "to_string n"] digits_no nd port
    by (simp add: get_host_and_port_def)
  show "get_host_and_port (''['' @ a @ '']'') = (a, 0) \<and> get_host_and_port (''['' @ a @ '']:'' @ to_string n) = (a, int n)"
    if a: "CHR '']'' \<notin> set a"
    using strchr_first [of "CHR '']''" "''['' @ a"] a none [of "CHR '':''" "[]"] port
    by (simp add: get_host_and_port_def)
  show "get_host_and_port b = (b, 0)" if b: "CHR ''['' \<notin> set b" "b = x @ '':'' @ y @ '':'' @ z"
  proof -
    obtain c1 c2 where s: "x @ '':'' @ y = c1 @ '':'' @ c2" "CHR '':'' \<notin> set c1"
      using split_list_first [of "CHR '':''" "x @ '':'' @ y"] by auto
    then have "strchr b CHR '':'' = Some ('':'' @ c2 @ '':'' @ z)"
      using strchr_first [OF s(2), of "c2 @ '':'' @ z"] b(2) by (metis append.assoc append_Cons append_Nil)
    moreover have "strchr (c2 @ '':'' @ z) CHR '':'' \<noteq> None" by (simp add: strchr_None)
    ultimately show ?thesis using none [OF b(1)] by (auto simp: get_host_and_port_def)
  qed
qed

text \<open>
  splitting what was put together: a host without brackets and colons, alone or with a colon and
  any port that an \<open>int\<close> holds; an IPv6 address in brackets, alone or with a port; and a bare IPv6
  address (two colons or more), which has no port.
\<close>

theorem get_host_and_port_splits:
  assumes "n < 2 ^ 31"
  shows "(CHR ''['' \<notin> set h \<longrightarrow> CHR '':'' \<notin> set h \<longrightarrow>
      get_host_and_port h = (h, 0) \<and> get_host_and_port (h @ '':'' @ to_string n) = (h, int n)) \<and>
    (CHR '']'' \<notin> set a \<longrightarrow>
      get_host_and_port (''['' @ a @ '']'') = (a, 0) \<and> get_host_and_port (''['' @ a @ '']:'' @ to_string n) = (a, int n)) \<and>
    (CHR ''['' \<notin> set (x @ '':'' @ y @ '':'' @ z) \<longrightarrow>
      get_host_and_port (x @ '':'' @ y @ '':'' @ z) = (x @ '':'' @ y @ '':'' @ z, 0))"
  using get_host_and_port_cases [OF assms] by blast

theorem get_host_and_port_splits_witness:
  "get_host_and_port ''sipp.sf.net:999'' = (''sipp.sf.net'', 999) \<and>
   get_host_and_port ''[::1]:999'' = (''::1'', 999) \<and> get_host_and_port ''::1'' = (''::1'', 0)"
  using get_host_and_port_splits [of 999 "''sipp.sf.net''" "''::1''" "[]" "[]" "''1''"]
  by (simp add: to_string.simps char_of_def bit_Suc_0_iff)

section \<open>Wrapping\<close>

text \<open>The while loop that looks for the last space of the line, from index \<open>k\<close> down.\<close>

fun last_space :: "string \<Rightarrow> nat \<Rightarrow> nat \<Rightarrow> nat" where
  "last_space out line 0 = 0"
| "last_space out line (Suc k) =
     (if Suc k > line \<and> \<not> isspace (out ! Suc k) then last_space out line k else Suc k)"

record wrap_state =
  w_out :: string
  w_line :: nat
  w_pos :: int
  w_indent :: bool

text \<open>A character goes out; the line is broken when it is too long.\<close>

definition wrap_put :: "nat \<Rightarrow> char \<Rightarrow> string \<Rightarrow> wrap_state \<Rightarrow> wrap_state" where
  "wrap_put offset c rest w =
     (let out1 = w_out w @ [c];
          w1 = (if c = LF
                then \<lparr>w_out = out1 @ replicate offset SP, w_line = length (out1 @ replicate offset SP), w_pos = 0,
                      w_indent = (rest \<noteq> [] \<and> hd rest = CHR ''-'')\<rparr>
                else w\<lparr>w_out := out1\<rparr>)
      in w1\<lparr>w_pos := w_pos w1 + 1\<rparr>)"

definition wrap_break :: "nat \<Rightarrow> wrap_state \<Rightarrow> wrap_state" where
  "wrap_break offset w =
     (let newline = LF # replicate (offset + (if w_indent w then 2 else 0)) SP;
          out = w_out w;
          k = last_space out (w_line w) (length out - 1)
      in if k > w_line w
         then let out' = take k out @ newline @ drop (k + 1) out;
                  line' = k + length newline
              in w\<lparr>w_out := out', w_line := line', w_pos := int (length out' - line') + 1\<rparr>
         else let out' = take (length out - 1) out @ newline @ drop (length out - 1) out
              in w\<lparr>w_out := out', w_line := length out' - 1, w_pos := 2\<rparr>)"

definition wrap_char :: "nat \<Rightarrow> int \<Rightarrow> char \<Rightarrow> string \<Rightarrow> wrap_state \<Rightarrow> wrap_state" where
  "wrap_char offset width c rest w =
     (let w1 = wrap_put offset c rest w
      in if w_pos w1 \<le> width then w1 else wrap_break offset w1)"

fun wrap_loop :: "nat \<Rightarrow> int \<Rightarrow> string \<Rightarrow> wrap_state \<Rightarrow> wrap_state" where
  "wrap_loop offset width [] w = w"
| "wrap_loop offset width (c # rest) w = wrap_loop offset width rest (wrap_char offset width c rest w)"

definition wrap :: "string \<Rightarrow> nat \<Rightarrow> int \<Rightarrow> string" where
  "wrap inp offset width =
     w_out (wrap_loop offset width inp \<lparr>w_out = [], w_line = 0, w_pos = 0, w_indent = False\<rparr>)"

abbreviation ink :: "string \<Rightarrow> string" where
  "ink s \<equiv> filter (\<lambda>c. \<not> isspace c) s"

lemma isspace_SP [simp]: "isspace SP" and isspace_LF [simp]: "isspace LF"
  by (simp_all add: isspace_def byte_def)

lemma ink_replicate [simp]: "ink (replicate n SP) = []"
  by (induction n) auto

lemma last_space_le: "last_space out line k \<le> k"
  by (induction k) auto

lemma last_space_space: "last_space out line k > line \<Longrightarrow> isspace (out ! last_space out line k)"
  by (induction k) (auto split: if_splits)

lemma ink_drop_space: "k < length s \<Longrightarrow> isspace (s ! k) \<Longrightarrow> ink (take k s) @ ink (drop (Suc k) s) = ink s"
  by (subst (3) id_take_nth_drop [of k s]) auto

lemma ink_insert: "ink (take k s) @ ink (drop k s) = ink s"
  by (metis append_take_drop_id filter_append)

lemma wrap_break_ink:
  assumes "w_out w \<noteq> []"
  shows "ink (w_out (wrap_break offset w)) = ink (w_out w)"
proof -
  define k where "k = last_space (w_out w) (w_line w) (length (w_out w) - 1)"
  have kl: "k < length (w_out w)"
    using last_space_le [of "w_out w" "w_line w" "length (w_out w) - 1"] assms
    unfolding k_def by (metis One_nat_def Suc_pred le_imp_less_Suc length_greater_0_conv)
  have "w_line w < k \<Longrightarrow> isspace (w_out w ! k)" unfolding k_def by (rule last_space_space)
  then show ?thesis
    using ink_drop_space [OF kl] ink_insert [of "length (w_out w) - 1" "w_out w"]
    unfolding wrap_break_def Let_def k_def [symmetric] by simp
qed

lemma wrap_char_ink: "ink (w_out (wrap_char offset width c rest w)) = ink (w_out w @ [c])"
proof -
  have "w_out (wrap_put offset c rest w) \<noteq> []" "ink (w_out (wrap_put offset c rest w)) = ink (w_out w @ [c])"
    by (simp_all add: wrap_put_def Let_def)
  then show ?thesis by (simp add: wrap_char_def Let_def wrap_break_ink)
qed

text \<open>
  Wrapping a help text changes white space only: the other characters are those of the text, in
  its order, for every indentation and width.
\<close>

theorem wrap_keeps_text:
  "ink (wrap inp offset width) = ink inp"
proof -
  have "ink (w_out (wrap_loop offset width s w)) = ink (w_out w @ s)" for s w
    by (induction s arbitrary: w) (simp_all add: wrap_char_ink)
  then show ?thesis by (simp add: wrap_def)
qed

end
