(* ===== verification/Websocket.thy ===== *)
theory Websocket
  imports C_Strings
begin

unbundle bit_operations_syntax

text \<open>
  The WebSocket of \<^verbatim>\<open>websocket.cpp\<close>: the opening handshake and the framing of one connection. It does
  no I/O, so each method is a function of the record \<open>websocket\<close>. The bytes of \<^verbatim>\<open>random_bytes\<close> are an
  argument (a method makes at most one frame), and so is SHA-1, the empty string when the library
  fails. \<^verbatim>\<open>size_t\<close> and \<^verbatim>\<open>unsigned long long\<close> are numbers modulo \<open>2 ^ 64\<close> where they may wrap.
\<close>

section \<open>Text of the handshake\<close>

definition digits64 :: string where
  "digits64 = ''ABCDEFGHIJKLMNOPQRSTUVWXYZabcdefghijklmnopqrstuvwxyz0123456789+/''"

definition digit64 :: "nat \<Rightarrow> char" where
  "digit64 n = digits64 ! (n AND 63)"

definition group24 :: "char \<Rightarrow> nat \<Rightarrow> nat \<Rightarrow> nat" where
  "group24 a b c = push_bit 16 (byte a) OR push_bit 8 b OR c"

fun base64 :: "string \<Rightarrow> string" where
  "base64 [] = []"
| "base64 [a] =
     (let n = group24 a 0 0
      in [digit64 (drop_bit 18 n), digit64 (drop_bit 12 n), CHR ''='', CHR ''=''])"
| "base64 [a, b] =
     (let n = group24 a (byte b) 0
      in [digit64 (drop_bit 18 n), digit64 (drop_bit 12 n), digit64 (drop_bit 6 n), CHR ''=''])"
| "base64 (a # b # c # s) =
     (let n = group24 a (byte b) (byte c)
      in [digit64 (drop_bit 18 n), digit64 (drop_bit 12 n), digit64 (drop_bit 6 n), digit64 n]) @ base64 s"

definition blank :: "char \<Rightarrow> bool" where
  "blank c \<longleftrightarrow> c = SP \<or> c = TAB"

definition ws_trim :: "string \<Rightarrow> string" where
  "ws_trim s = rev (dropWhile blank (rev (dropWhile blank s)))"

text \<open>
  \<^verbatim>\<open>header\<close>: the values of the lines of a header. The loop is at the CRLF before a line, or at the
  end.
\<close>

definition header_line :: "string \<Rightarrow> string \<Rightarrow> string \<Rightarrow> string" where
  "header_line nm vals line =
     (if length line > length nm \<and> line ! length nm = CHR '':'' \<and> eq_nocase (take (length nm) line) nm
      then (if vals \<noteq> [] then vals @ '','' else vals) @ ws_trim (drop (length nm + 1) line)
      else vals)"

function header_loop :: "string \<Rightarrow> string \<Rightarrow> string \<Rightarrow> string" where
  "header_loop nm vals s =
     (if length s > 2 then
        let l = drop 2 s;
            eol = (case find_sub CRLF l of None \<Rightarrow> length l | Some n \<Rightarrow> n)
        in header_loop nm (header_line nm vals (take eol l)) (drop eol l)
      else vals)"
  by pat_completeness auto
termination by (relation "measure (\<lambda>(nm, vals, s). length s)") auto

declare header_loop.simps [simp del]

definition header :: "string \<Rightarrow> string \<Rightarrow> string" where
  "header head nm = (case find_sub CRLF head of None \<Rightarrow> [] | Some bol \<Rightarrow> header_loop nm [] (drop bol head))"

text \<open>\<^verbatim>\<open>has_token\<close>: the loop goes from comma to comma.\<close>

function has_token :: "string \<Rightarrow> string \<Rightarrow> bool" where
  "has_token lst token =
     (if eq_nocase (c_str (ws_trim (takeWhile (\<lambda>c. c \<noteq> CHR '','') lst))) token then True
      else case dropWhile (\<lambda>c. c \<noteq> CHR '','') lst of
             [] \<Rightarrow> False
           | _ # rest \<Rightarrow> has_token rest token)"
  by pat_completeness auto
termination
proof (relation "measure (\<lambda>(lst, token). length lst)")
  fix lst rest :: string and c
  assume "dropWhile (\<lambda>c. c \<noteq> CHR '','') lst = c # rest"
  moreover have "length (dropWhile (\<lambda>c. c \<noteq> CHR '','') lst) \<le> length lst" by (rule length_dropWhile_le)
  ultimately show "((rest, token), (lst, token)) \<in> measure (\<lambda>(lst, token). length lst)" for token :: string
    by simp
qed simp

declare has_token.simps [simp del]

section \<open>UTF-8\<close>

text \<open>The length, the smallest code point and the bits of a first byte from 0x80 on.\<close>

definition utf8_first :: "nat \<Rightarrow> (nat \<times> nat \<times> nat) option" where
  "utf8_first c =
     (if c AND 0xe0 = 0xc0 then Some (2, 0x80, c AND 0x1f)
      else if c AND 0xf0 = 0xe0 then Some (3, 0x800, c AND 0x0f)
      else if c AND 0xf8 = 0xf0 then Some (4, 0x10000, c AND 0x07)
      else None)"

fun utf8_rest :: "nat \<Rightarrow> string \<Rightarrow> nat option" where
  "utf8_rest c [] = Some c"
| "utf8_rest c (b # s) =
     (if byte b AND 0xc0 \<noteq> 0x80 then None
      else utf8_rest (push_bit 6 c OR (byte b AND 0x3f)) s)"

function is_utf8 :: "string \<Rightarrow> bool" where
  "is_utf8 [] = True"
| "is_utf8 (b # s) =
     (let c = byte b
      in if c < 0x80 then is_utf8 s
         else case utf8_first c of
                None \<Rightarrow> False
              | Some (n, mn, c0) \<Rightarrow>
                  if length (b # s) < n then False
                  else case utf8_rest c0 (take (n - 1) s) of
                         None \<Rightarrow> False
                       | Some u \<Rightarrow>
                           if u < mn \<or> u > 0x10ffff \<or> 0xd800 \<le> u \<and> u \<le> 0xdfff then False
                           else is_utf8 (drop (n - 1) s))"
  by pat_completeness auto
termination by (relation "measure length") auto

section \<open>The connection\<close>

datatype ws_event = NEED_MORE | OPENED | MESSAGE | REPLY | CLOSED | FAILED

definition OP_CONTINUATION :: nat where "OP_CONTINUATION = 0x0"
definition OP_TEXT :: nat where "OP_TEXT = 0x1"
definition OP_BINARY :: nat where "OP_BINARY = 0x2"
definition OP_CLOSE :: nat where "OP_CLOSE = 0x8"
definition OP_PING :: nat where "OP_PING = 0x9"
definition OP_PONG :: nat where "OP_PONG = 0xa"

lemmas opcode_defs = OP_CONTINUATION_def OP_TEXT_def OP_BINARY_def OP_CLOSE_def OP_PING_def OP_PONG_def

record websocket =
  server :: bool
  max_message :: nat
  ws_open :: bool
  closed :: bool
  ws_key :: string
  inp :: string
  pos :: nat
  fragmented :: "nat option"
  fragments :: string
  err :: string

type_synonym ws_result = "ws_event \<times> string \<times> string \<times> websocket"  \<comment> \<open>event, payload, reply\<close>

definition new_WebSocket :: "bool \<Rightarrow> nat \<Rightarrow> websocket" where
  "new_WebSocket srv mx = \<lparr>server = srv, max_message = mx, ws_open = False, closed = False, ws_key = [], inp = [],
     pos = 0, fragmented = None, fragments = [], err = []\<rparr>"

definition xor_mask :: "string \<Rightarrow> string \<Rightarrow> string" where
  "xor_mask mk data = map (\<lambda>i. chr (byte (data ! i) XOR byte (mk ! (i mod 4)))) [0..<length data]"

text \<open>\<^verbatim>\<open>WebSocket::encode\<close>: \<open>mko\<close> is \<open>None\<close> for the null pointer.\<close>

definition encode_length :: "nat \<Rightarrow> nat \<Rightarrow> string" where
  "encode_length masked len =
     (if len < 126 then [chr (masked OR len)]
      else if len < 65536 then [chr (masked OR 126), chr (drop_bit 8 len), chr len]
      else chr (masked OR 127) # map (\<lambda>i. chr (drop_bit (8 * i) len)) [7, 6, 5, 4, 3, 2, 1, 0])"

definition encode :: "nat \<Rightarrow> string \<Rightarrow> string option \<Rightarrow> bool \<Rightarrow> string" where
  "encode opcode data mko fin =
     chr ((if fin then 0x80 else 0) OR opcode) #
     encode_length (if mko \<noteq> None then 0x80 else 0) (length data) @
     (case mko of Some mk \<Rightarrow> take 4 mk @ xor_mask mk data | None \<Rightarrow> data)"

definition make_frame :: "websocket \<Rightarrow> string \<Rightarrow> nat \<Rightarrow> string \<Rightarrow> string" where
  "make_frame ws rnd opcode data = encode opcode data (if server ws then None else Some rnd) True"

definition ws_frame :: "websocket \<Rightarrow> string \<Rightarrow> string \<Rightarrow> string" where
  "ws_frame ws rnd data = make_frame ws rnd (if is_utf8 data then OP_TEXT else OP_BINARY) data"

definition close_frame :: "websocket \<Rightarrow> string \<Rightarrow> nat \<Rightarrow> string" where
  "close_frame ws rnd code = make_frame ws rnd OP_CLOSE [chr (drop_bit 8 code), chr code]"

definition WS_GUID :: string where "WS_GUID = ''258EAFA5-E914-47DA-95CA-C5AB0DC85B11''"

definition accept_key :: "(string \<Rightarrow> string) \<Rightarrow> string \<Rightarrow> string" where
  "accept_key sha1 k = base64 (sha1 (k @ WS_GUID))"

text \<open>The request of a client: its key is the base64 of 16 random bytes.\<close>

definition ws_request :: "string \<Rightarrow> string \<Rightarrow> string \<Rightarrow> websocket \<Rightarrow> string \<times> websocket" where
  "ws_request nonce host path ws =
     (let k = base64 nonce
      in (''GET '' @ (if path \<noteq> [] \<and> hd path = CHR ''/'' then [] else ''/'') @ path @ '' HTTP/1.1'' @ CRLF @
          ''Host: '' @ host @ CRLF @
          ''Upgrade: websocket'' @ CRLF @
          ''Connection: Upgrade'' @ CRLF @
          ''Sec-WebSocket-Key: '' @ k @ CRLF @
          ''Sec-WebSocket-Version: 13'' @ CRLF @
          ''Sec-WebSocket-Protocol: sip'' @ CRLF @
          CRLF, ws\<lparr>ws_key := k\<rparr>))"

definition feed :: "string \<Rightarrow> websocket \<Rightarrow> websocket" where
  "feed data ws = (if closed ws then ws else ws\<lparr>inp := drop (pos ws) (inp ws) @ data, pos := 0\<rparr>)"

definition ws_fail :: "string \<Rightarrow> nat \<Rightarrow> string \<Rightarrow> string \<Rightarrow> websocket \<Rightarrow> ws_result" where
  "ws_fail rnd code why payload ws =
     (FAILED, payload,
      (if ws_open ws then close_frame ws rnd code
       else if server ws then
         (if code = 426 then ''HTTP/1.1 426 Upgrade Required'' @ CRLF @ ''Sec-WebSocket-Version: 13'' @ CRLF
          else ''HTTP/1.1 400 Bad Request'' @ CRLF) @ ''Content-Length: 0'' @ CRLF @ CRLF
       else []),
      ws\<lparr>closed := True, err := why\<rparr>)"

definition server_handshake :: "(string \<Rightarrow> string) \<Rightarrow> string \<Rightarrow> string \<Rightarrow> string \<Rightarrow> bool \<Rightarrow> string \<Rightarrow> websocket \<Rightarrow> ws_result" where
  "server_handshake sha1 rnd head fst_line upgrade payload ws =
     (let client_key = header head ''Sec-WebSocket-Key''
      in if take 4 fst_line \<noteq> ''GET '' \<or> length fst_line < 13 \<or>
            drop (length fst_line - 9) fst_line \<noteq> '' HTTP/1.1'' then
           ws_fail rnd 400 (''not a GET request: '' @ CHR 0x27 # fst_line @ [CHR 0x27]) payload ws
         else if \<not> upgrade then ws_fail rnd 400 ''not a WebSocket upgrade'' payload ws
         else if \<not> has_token (header head ''Sec-WebSocket-Version'') ''13'' then
           ws_fail rnd 426 ''not WebSocket version 13'' payload ws
         else if client_key = [] then ws_fail rnd 400 ''no Sec-WebSocket-Key'' payload ws
         else if \<not> has_token (header head ''Sec-WebSocket-Protocol'') ''sip'' then
           ws_fail rnd 400 ''the client does not offer the sip subprotocol'' payload ws
         else (OPENED, payload,
               ''HTTP/1.1 101 Switching Protocols'' @ CRLF @
               ''Upgrade: websocket'' @ CRLF @
               ''Connection: Upgrade'' @ CRLF @
               ''Sec-WebSocket-Accept: '' @ accept_key sha1 client_key @ CRLF @
               ''Sec-WebSocket-Protocol: sip'' @ CRLF @
               CRLF, ws\<lparr>ws_open := True\<rparr>))"

definition client_handshake :: "(string \<Rightarrow> string) \<Rightarrow> string \<Rightarrow> string \<Rightarrow> string \<Rightarrow> bool \<Rightarrow> string \<Rightarrow> websocket \<Rightarrow> ws_result" where
  "client_handshake sha1 rnd head fst_line upgrade payload ws =
     (if take 12 fst_line \<noteq> ''HTTP/1.1 101'' \<or> length fst_line > 12 \<and> fst_line ! 12 \<noteq> SP then
        ws_fail rnd 0 (''the server answered '' @ CHR 0x27 # fst_line @ [CHR 0x27]) payload ws
      else if \<not> upgrade then ws_fail rnd 0 ''not a WebSocket upgrade'' payload ws
      else if header head ''Sec-WebSocket-Accept'' \<noteq> accept_key sha1 (ws_key ws) then
        ws_fail rnd 0 ''a wrong Sec-WebSocket-Accept'' payload ws
      else if \<not> eq_nocase (c_str (header head ''Sec-WebSocket-Protocol'')) ''sip'' then
        ws_fail rnd 0 ''the server does not take the sip subprotocol'' payload ws
      else (OPENED, payload, [], ws\<lparr>ws_open := True\<rparr>))"

definition handshake :: "(string \<Rightarrow> string) \<Rightarrow> string \<Rightarrow> string \<Rightarrow> websocket \<Rightarrow> ws_result" where
  "handshake sha1 rnd payload ws =
     (let s = drop (pos ws) (inp ws)
      in case find_sub (CRLF @ CRLF) s of
           None \<Rightarrow>
             if length (inp ws) - pos ws > max_message ws
             then ws_fail rnd 400 (''a handshake longer than '' @ to_string (max_message ws) @ '' bytes'') payload ws
             else (NEED_MORE, payload, [], ws)
         | Some n \<Rightarrow>
             let head = take (n + 2) s;
                 fst_line = (case find_sub CRLF head of None \<Rightarrow> head | Some m \<Rightarrow> take m head);
                 ws1 = ws\<lparr>pos := pos ws + n + 4\<rparr>;
                 upgrade = (has_token (header head ''Upgrade'') ''websocket'' \<and>
                            has_token (header head ''Connection'') ''Upgrade'')
             in if server ws then server_handshake sha1 rnd head fst_line upgrade payload ws1
                else client_handshake sha1 rnd head fst_line upgrade payload ws1)"

definition valid_close_code :: "nat \<Rightarrow> bool" where
  "valid_close_code code \<longleftrightarrow> 1000 \<le> code \<and> code \<le> 1003 \<or> 1007 \<le> code \<and> code \<le> 1014 \<or> 3000 \<le> code \<and> code \<le> 4999"

definition ws_message :: "string \<Rightarrow> nat \<Rightarrow> string \<Rightarrow> websocket \<Rightarrow> ws_result" where
  "ws_message rnd opcode payload ws =
     (if opcode = OP_TEXT \<and> \<not> is_utf8 payload
      then ws_fail rnd 1007 ''a text message that is not UTF-8'' payload ws
      else (MESSAGE, payload, [], ws))"

text \<open>
  One turn of the loop of \<^verbatim>\<open>next\<close>: the header and the payload of a frame, if it is all in; then what
  it does.
\<close>

datatype frame_result =
    More
  | Bad nat string
  | Frame bool nat string nat  \<comment> \<open>FIN, opcode, unmasked payload, bytes of the frame\<close>

text \<open>The bytes of an extended length, in network byte order.\<close>

definition network_number :: "string \<Rightarrow> nat" where
  "network_number bs = foldl (\<lambda>n b. (push_bit 8 n OR byte b) mod 2 ^ 64) 0 bs"

definition frame_length :: "string \<Rightarrow> (nat \<times> nat) option" where
  "frame_length p =
     (let len = byte (p ! 1) AND 0x7f
      in if len = 126 then
           (if length p < 4 then None else Some (push_bit 8 (byte (p ! 2)) OR byte (p ! 3), 4))
         else if len = 127 then
           (if length p < 10 then None
            else Some (network_number (take 8 (drop 2 p)), 10))
         else Some (len, 2))"

definition parse_frame :: "bool \<Rightarrow> nat \<Rightarrow> nat \<Rightarrow> string \<Rightarrow> frame_result" where
  "parse_frame srv mx frags p =
     (if length p < 2 then More
      else
        let fin = (byte (p ! 0) AND 0x80 \<noteq> 0);
            opcode = byte (p ! 0) AND 0x0f;
            masked = (byte (p ! 1) AND 0x80 \<noteq> 0)
        in if byte (p ! 0) AND 0x70 \<noteq> 0 then Bad 1002 ''a frame with reserved bits set''
           else if masked \<noteq> srv then
             Bad 1002 (if srv then ''an unmasked frame from the client'' else ''a masked frame from the server'')
           else case frame_length p of
             None \<Rightarrow> More
           | Some (len, hlen0) \<Rightarrow>
               if OP_CLOSE \<le> opcode \<and> (\<not> fin \<or> len > 125) then Bad 1002 ''a fragmented or long control frame''
               else if opcode < OP_CLOSE \<and> len > (mx + 2 ^ 64 - frags) mod 2 ^ 64 then
                 Bad 1009 (''a message longer than '' @ to_string mx @ '' bytes'')
               else
                 let hlen = (if masked then hlen0 + 4 else hlen0)
                 in if length p < (hlen + len) mod 2 ^ 64 then More
                    else
                      let data = take len (drop hlen p)
                      in Frame fin opcode (if masked then xor_mask (drop (hlen - 4) p) data else data) (hlen + len))"

datatype turn = Return ws_result | Again websocket

definition close_turn :: "string \<Rightarrow> string \<Rightarrow> string \<Rightarrow> websocket \<Rightarrow> ws_result" where
  "close_turn rnd data payload ws =
     (let code = push_bit 8 (byte (data ! 0)) OR byte (data ! 1)
      in if length data = 1 then ws_fail rnd 1002 ''a close frame with a one-byte payload'' payload ws
         else if length data \<ge> 2 \<and> \<not> valid_close_code code then
           ws_fail rnd 1002 (''a close frame with status code '' @ to_string code) payload ws
         else if length data \<ge> 2 \<and> \<not> is_utf8 (drop 2 data) then
           ws_fail rnd 1007 ''a close reason that is not UTF-8'' payload ws
         else (CLOSED, payload, make_frame ws rnd OP_CLOSE (if length data < 2 then [] else take 2 data),
               ws\<lparr>closed := True\<rparr>))"

definition handle_frame :: "string \<Rightarrow> bool \<Rightarrow> nat \<Rightarrow> string \<Rightarrow> string \<Rightarrow> websocket \<Rightarrow> turn" where
  "handle_frame rnd fin opcode data payload ws =
     (if opcode = OP_TEXT \<or> opcode = OP_BINARY then
        (if fragmented ws \<noteq> None then Return (ws_fail rnd 1002 ''a new message inside a fragmented one'' payload ws)
         else if fin then Return (ws_message rnd opcode data ws)
         else Again (ws\<lparr>fragmented := Some opcode, fragments := data\<rparr>))
      else if opcode = OP_CONTINUATION then
        (case fragmented ws of
           None \<Rightarrow> Return (ws_fail rnd 1002 ''a continuation frame without a message'' payload ws)
         | Some op \<Rightarrow>
             if fin then Return (ws_message rnd op (fragments ws @ data) (ws\<lparr>fragments := [], fragmented := None\<rparr>))
             else Again (ws\<lparr>fragments := fragments ws @ data\<rparr>))
      else if opcode = OP_PING then Return (REPLY, payload, make_frame ws rnd OP_PONG data, ws)
      else if opcode = OP_PONG then Again ws
      else if opcode = OP_CLOSE then Return (close_turn rnd data payload ws)
      else Return (ws_fail rnd 1002 (''a frame of unknown opcode '' @ to_string opcode) payload ws))"

definition frame_turn :: "string \<Rightarrow> string \<Rightarrow> websocket \<Rightarrow> turn" where
  "frame_turn rnd payload ws =
     (case parse_frame (server ws) (max_message ws) (length (fragments ws)) (drop (pos ws) (inp ws)) of
        More \<Rightarrow> Return (NEED_MORE, payload, [], ws)
      | Bad code why \<Rightarrow> Return (ws_fail rnd code why payload ws)
      | Frame fin opcode data n \<Rightarrow> handle_frame rnd fin opcode data payload (ws\<lparr>pos := pos ws + n\<rparr>))"

lemma frame_length_2: "frame_length p = Some (len, hlen) \<Longrightarrow> 2 \<le> hlen"
  unfolding frame_length_def Let_def by (simp split: if_splits)

lemma parse_frame_length:
  assumes "parse_frame srv mx frags p = Frame fin opcode data n"
  shows "2 \<le> n \<and> 2 \<le> length p"
proof -
  obtain len hlen where h: "frame_length p = Some (len, hlen)" and n: "hlen + len \<le> n" and "2 \<le> length p"
    using assms unfolding parse_frame_def Let_def
    by (cases "frame_length p") (fastforce split: if_splits)+
  then show ?thesis using frame_length_2 [OF h] by simp
qed

lemma frame_turn_Again:
  assumes "frame_turn rnd payload ws = Again ws'"
  shows "inp ws' = inp ws \<and> pos ws + 2 \<le> pos ws' \<and> pos ws + 2 \<le> length (inp ws)"
  using assms
  by (auto simp: frame_turn_def handle_frame_def split: frame_result.splits if_splits option.splits
      dest!: parse_frame_length)

function frame_loop :: "string \<Rightarrow> string \<Rightarrow> websocket \<Rightarrow> ws_result" where
  "frame_loop rnd payload ws =
     (case frame_turn rnd payload ws of Return r \<Rightarrow> r | Again ws' \<Rightarrow> frame_loop rnd payload ws')"
  by pat_completeness auto
termination
  by (relation "measure (\<lambda>(rnd, payload, ws). length (inp ws) - pos ws)") (auto dest!: frame_turn_Again)

declare frame_loop.simps [simp del]

text \<open>\<^verbatim>\<open>WebSocket::next\<close>\<close>

definition ws_next :: "(string \<Rightarrow> string) \<Rightarrow> string \<Rightarrow> string \<Rightarrow> websocket \<Rightarrow> ws_result" where
  "ws_next sha1 rnd payload ws =
     (if closed ws then (NEED_MORE, payload, [], ws)
      else if \<not> ws_open ws then handshake sha1 rnd payload ws
      else frame_loop rnd payload ws)"

end
