(* ===== verification/Websocket_Frames.thy ===== *)
theory Websocket_Frames
  imports Websocket
begin

unbundle bit_operations_syntax

text \<open>
  The framing of \<open>Websocket\<close>: the bit operations on bytes, the frame that \<open>parse_frame\<close> finds in
  what \<open>encode\<close> makes, and that a frame is found however its bytes come in.
\<close>

section \<open>Bits of bytes\<close>

lemma or_add: "(n::nat) < 2 ^ k \<Longrightarrow> push_bit k m OR n = m * 2 ^ k + n"
proof -
  assume n: "n < 2 ^ k"
  then have "take_bit k n = n" by (simp add: take_bit_nat_eq_self)
  then have "push_bit k m AND n = 0"
    by (metis and_zero_eq bit_eq_iff bit_and_iff bit_push_bit_iff_nat bit_take_bit_iff not_less bit_0_eq bot_apply bot_bool_def)
  then have "push_bit k m OR n = push_bit k m + n" by (simp add: disjunctive_add_eq_or)
  then show ?thesis by (simp add: push_bit_nat_def)
qed

lemma and_7f: "(n::nat) AND 127 = n mod 128"
  using take_bit_eq_mask [of 7 n] by (simp add: take_bit_nat_def mask_eq_exp_minus_1)

lemma and_0f: "(n::nat) AND 15 = n mod 16"
  using take_bit_eq_mask [of 4 n] by (simp add: take_bit_nat_def mask_eq_exp_minus_1)

lemma and_3f: "(n::nat) AND 63 = n mod 64"
  using take_bit_eq_mask [of 6 n] by (simp add: take_bit_nat_def mask_eq_exp_minus_1)

lemma and_80: "(n::nat) AND 128 = 0 \<longleftrightarrow> even (n div 128)"
  using and_exp_eq_0_iff_not_bit [of n 7] by (simp add: bit_iff_odd)

lemma xor_byte: "byte (chr (byte a XOR byte b)) = byte a XOR byte b"
proof -
  have "take_bit 8 (byte a XOR byte b) = take_bit 8 (byte a) XOR take_bit 8 (byte b)" by simp
  also have "\<dots> = byte a XOR byte b" by (simp add: take_bit_nat_def)
  finally show ?thesis by (simp add: take_bit_nat_def)
qed

lemma xor_mask_length [simp]: "length (xor_mask mk data) = length data"
  by (simp add: xor_mask_def)

lemma xor_mask_mask:
  assumes "length mk \<ge> 4"
  shows "xor_mask (take 4 mk @ rest) (xor_mask mk data) = data"
proof (rule nth_equalityI)
  fix i assume i: "i < length (xor_mask (take 4 mk @ rest) (xor_mask mk data))"
  have "(take 4 mk @ rest) ! (i mod 4) = mk ! (i mod 4)"
    using assms by (simp add: nth_append)
  with i show "xor_mask (take 4 mk @ rest) (xor_mask mk data) ! i = data ! i"
    by (simp add: xor_mask_def xor_byte xor.assoc del: byte_chr)
qed simp

lemma xor_mask_mask4 [simp]: "length mk = 4 \<Longrightarrow> xor_mask (mk @ rest) (xor_mask mk data) = data"
  using xor_mask_mask [of mk rest data] by simp

section \<open>The length of a frame\<close>

lemma network_number_eq:
  "length bs \<le> 8 \<Longrightarrow> network_number bs = foldl (\<lambda>n b. n * 256 + byte b) 0 bs \<and> network_number bs < 256 ^ length bs"
proof (induction bs rule: rev_induct)
  case (snoc b bs)
  then have IH: "network_number bs = foldl (\<lambda>n b. n * 256 + byte b) 0 bs" "network_number bs < 256 ^ length bs"
    by auto
  have step: "network_number (bs @ [b]) = (push_bit 8 (network_number bs) OR byte b) mod 2 ^ 64"
    by (simp add: network_number_def)
  have "push_bit 8 (network_number bs) OR byte b = network_number bs * 256 + byte b"
    using or_add [of "byte b" 8 "network_number bs"] by simp
  moreover have lt: "network_number bs * 256 + byte b < 256 ^ Suc (length bs)"
  proof -
    have "network_number bs * 256 + byte b < Suc (network_number bs) * 256" by simp
    also have "\<dots> \<le> 256 ^ length bs * 256" using IH(2) by (intro mult_le_mono1) simp
    finally show ?thesis by simp
  qed
  moreover have "(256::nat) ^ Suc (length bs) \<le> 256 ^ 8"
    using snoc.prems by (intro power_increasing) auto
  ultimately show ?case using step IH(1) by simp
qed (simp add: network_number_def)

lemma bytes_of_number:
  assumes "len < 2 ^ 64"
  shows "network_number (map (\<lambda>i. chr (drop_bit (8 * i) len)) [7, 6, 5, 4, 3, 2, 1, 0]) = len"
proof -
  define q where "q i = len div 256 ^ i" for i :: nat
  have q: "q i div 256 = q (Suc i)" for i unfolding q_def power_Suc2 by (simp only: div_mult2_eq)
  have b: "byte (chr (drop_bit (8 * i) len)) = q i mod 256" for i
    by (simp add: drop_bit_nat_def q_def power_mult)
  have s: "q n * 256 + q i mod 256 = q i" if "n = Suc i" for n i
    unfolding that q [symmetric] by simp
  have "q 7 < 256" unfolding q_def by (rule less_mult_imp_div_less) (use assms in simp)
  then have 7: "q 7 mod 256 = q 7" by simp
  have s7: "q 7 * 256 + q 6 mod 256 = q 6" "q 6 * 256 + q 5 mod 256 = q 5" "q 5 * 256 + q 4 mod 256 = q 4"
    "q 4 * 256 + q 3 mod 256 = q 3" "q 3 * 256 + q 2 mod 256 = q 2" "q 2 * 256 + q 1 mod 256 = q 1"
    "q 1 * 256 + q 0 mod 256 = q 0"
    by (rule s, simp)+
  have "network_number (map (\<lambda>i. chr (drop_bit (8 * i) len)) [7, 6, 5, 4, 3, 2, 1, 0]) =
    foldl (\<lambda>n b. n * 256 + byte b) 0 (map (\<lambda>i. chr (drop_bit (8 * i) len)) [7, 6, 5, 4, 3, 2, 1, 0])"
    by (rule network_number_eq [THEN conjunct1]) simp
  also have "\<dots> = q 0"
    by (simp only: list.map foldl_Cons foldl_Nil b 7 mult_0 add_0 s7)
  finally show ?thesis by (simp add: q_def)
qed

lemma frame_length_encode:
  assumes "len < 2 ^ 64" and "m = 0 \<or> m = 128"
  shows "frame_length (h # encode_length m len @ rest) = Some (len, Suc (length (encode_length m len)))"
    and "even (byte (hd (encode_length m len)) div 128) \<longleftrightarrow> m = 0"
    and "encode_length m len \<noteq> []"
proof -
  have mo: "m OR n = m + n" if "n < 128" for n
    using assms(2) or_add [of n 7 1] that by auto
  have b: "byte (chr (m + n)) = m + n" if "n < 128" for n using assms(2) that by auto
  have "(128 + n) div 128 = 1" if "n < (128::nat)" for n using that by (simp add: div_add_self1)
  then have md: "(m + n) mod 128 = n" "even ((m + n) div 128) \<longleftrightarrow> m = 0" if "n < 128" for n
    using assms(2) that by auto
  consider (short) "len < 126" | (mid) "126 \<le> len" "len < 65536" | (long) "65536 \<le> len" by linarith
  then have "frame_length (h # encode_length m len @ rest) = Some (len, Suc (length (encode_length m len))) \<and>
    (even (byte (hd (encode_length m len)) div 128) \<longleftrightarrow> m = 0) \<and> encode_length m len \<noteq> []"
  proof cases
    case short
    then show ?thesis by (simp add: frame_length_def encode_length_def and_7f mo b md del: byte_chr)
  next
    case mid
    have d: "len div 256 < 256" by (rule less_mult_imp_div_less) (use mid in simp)
    have "push_bit 8 (len div 256) OR len mod 256 = len"
      using or_add [of "len mod 256" 8 "len div 256"] by simp
    then show ?thesis using mid d assms(2)
      by (auto simp add: frame_length_def encode_length_def Let_def and_7f mo drop_bit_nat_def)
  next
    case long
    let ?bs = "map (\<lambda>i. chr (drop_bit (8 * i) len)) [7, 6, 5, 4, 3, 2, 1, 0]"
    have "take 8 (?bs @ rest) = ?bs" by simp
    then show ?thesis using long bytes_of_number [OF assms(1)]
      by (simp add: frame_length_def encode_length_def and_7f mo b [of 127] md del: byte_chr)
  qed
  then show "frame_length (h # encode_length m len @ rest) = Some (len, Suc (length (encode_length m len)))"
    "even (byte (hd (encode_length m len)) div 128) \<longleftrightarrow> m = 0" "encode_length m len \<noteq> []" by auto
qed

section \<open>A frame is found again\<close>

lemma first_byte:
  fixes fin :: bool
  assumes "opcode < 16"
  defines "b \<equiv> byte (chr ((if fin then 128 else 0) OR opcode))"
  shows "(b AND 128 = 0) = (\<not> fin)" and "b AND 15 = opcode" and "b AND 112 = 0"
proof -
  have "list_all (\<lambda>n. ((128 OR n) mod 256 AND 128 \<noteq> 0 \<and> n mod 256 AND 128 = 0) \<and>
      ((128 OR n) mod 256 AND 15 = n \<and> n mod 256 AND 15 = n) \<and>
      ((128 OR n) mod 256 AND 112 = 0 \<and> n mod 256 AND 112 = 0)) [0, 1, 2, 3, 4, 5, 6, 7, 8, 9, 10, 11, 12, 13, 14, 15::nat]"
    by simp
  moreover have "[0..<16] = [0, 1, 2, 3, 4, 5, 6, 7, 8, 9, 10, 11, 12, 13, 14, 15::nat]"
    by (simp add: upt_conv_Cons)
  ultimately show "(b AND 128 = 0) = (\<not> fin)" "b AND 15 = opcode" "b AND 112 = 0"
    using all_below [OF _ assms(1), of "\<lambda>n. ((128 OR n) mod 256 AND 128 \<noteq> 0 \<and> n mod 256 AND 128 = 0) \<and>
      ((128 OR n) mod 256 AND 15 = n \<and> n mod 256 AND 15 = n) \<and>
      ((128 OR n) mod 256 AND 112 = 0 \<and> n mod 256 AND 112 = 0)"]
    by (auto simp: b_def)
qed

text \<open>The lengths of messages for which the counters of a connection do not wrap.\<close>

definition ws_sized :: "nat \<Rightarrow> nat \<Rightarrow> bool" where
  "ws_sized mx frags \<longleftrightarrow> mx < 2 ^ 63 \<and> frags \<le> mx"

lemma size_sub: "ws_sized mx frags \<Longrightarrow> (mx + 2 ^ 64 - frags) mod 2 ^ 64 = mx - frags"
proof -
  assume "ws_sized mx frags"
  then have "mx + 2 ^ 64 - frags = (mx - frags) + 2 ^ 64" and "mx - frags < 2 ^ 64"
    by (auto simp: ws_sized_def)
  then show ?thesis by (simp only: mod_add_self2 mod_less)
qed

text \<open>The conditions under which a frame is parsed, in one step.\<close>

lemma parse_frame_intro:
  assumes "\<not> length p < 2" and "byte (p ! 0) AND 0x70 = 0" and "(byte (p ! 1) AND 0x80 \<noteq> 0) = srv"
    and "frame_length p = Some (len, hlen)"
    and "\<not> (OP_CLOSE \<le> byte (p ! 0) AND 0x0f \<and> (byte (p ! 0) AND 0x80 = 0 \<or> len > 125))"
    and "\<not> (byte (p ! 0) AND 0x0f < OP_CLOSE \<and> len > (mx + 2 ^ 64 - frags) mod 2 ^ 64)"
    and "\<not> length p < ((if srv then hlen + 4 else hlen) + len) mod 2 ^ 64"
  shows "parse_frame srv mx frags p = Frame (byte (p ! 0) AND 0x80 \<noteq> 0) (byte (p ! 0) AND 0x0f)
    (if srv then xor_mask (drop ((if srv then hlen + 4 else hlen) - 4) p) (take len (drop (if srv then hlen + 4 else hlen) p))
     else take len (drop (if srv then hlen + 4 else hlen) p)) ((if srv then hlen + 4 else hlen) + len)"
  unfolding parse_frame_def Let_def assms(3) assms(4) option.case prod.case
  by (simp only: assms(1,2,5-7) simp_thms if_False)

lemma parse_encode:
  assumes srv: "srv \<longleftrightarrow> mko \<noteq> None" "\<And>mk. mko = Some mk \<Longrightarrow> length mk = 4" and op: "opcode < 16"
    and sz: "ws_sized mx frags" and len: "if opcode < 8 then length data \<le> mx - frags else fin \<and> length data \<le> 125"
  shows "parse_frame srv mx frags (encode opcode data mko fin @ rest) =
    Frame fin opcode data (length (encode opcode data mko fin))"
proof -
  define m :: nat where "m = (if mko \<noteq> None then 128 else 0)"
  define el where "el = encode_length m (length data)"
  define body where "body = (case mko of Some mk \<Rightarrow> take 4 mk @ xor_mask mk data | None \<Rightarrow> data)"
  define p where "p = encode opcode data mko fin @ rest"
  have small: "length data < 2 ^ 63" using len sz by (auto simp: ws_sized_def split: if_splits)
  have m: "m = 0 \<or> m = 128" by (simp add: m_def)
  have L: "frame_length (h # el @ r) = Some (length data, Suc (length el))"
    "even (byte (hd el) div 128) \<longleftrightarrow> m = 0" "el \<noteq> []" for h r
    using frame_length_encode [OF _ m, of "length data"] small by (auto simp: el_def)
  have p: "p = chr ((if fin then 128 else 0) OR opcode) # el @ body @ rest"
    by (simp add: p_def encode_def el_def body_def m_def)
  have p1: "p ! 1 = hd el" "2 \<le> length p" using p L(3) by (cases el; simp)+
  have masked: "(byte (p ! 1) AND 128 = 0) = (\<not> srv)" unfolding and_80 p1 L(2) using srv by (simp add: m_def)
  have n: "length (encode opcode data mko fin) = Suc (length el) + (if srv then 4 else 0) + length data"
    using srv by (auto simp: encode_def el_def m_def split: option.splits)
  have bl: "length body = (if srv then 4 else 0) + length data"
    using srv by (auto simp: body_def split: option.splits)
  have "length el \<le> 9" by (simp add: el_def encode_length_def)
  then have nowrap: "(Suc (length el) + (if srv then 4 else 0) + length data) mod 2 ^ 64 =
      Suc (length el) + (if srv then 4 else 0) + length data"
    using small by simp
  have dl: "drop (Suc (length el)) p = body @ rest" using p by simp
  have dl4: "drop (Suc (length el) + 4) p = drop 4 (body @ rest)"
    using dl by (metis drop_drop add.commute)
  have data: "(if srv then xor_mask (drop (Suc (length el) + 4 - 4) p) (take (length data) (drop (Suc (length el) + 4) p))
      else take (length data) (drop (Suc (length el)) p)) = data"
    unfolding dl4 diff_add_inverse2 dl using srv
    by (auto simp: body_def split: option.splits)
  note B = first_byte [OF op, of fin]
  have p0: "byte (p ! 0) = byte (chr ((if fin then 128 else 0) OR opcode))" unfolding p by simp
  have "parse_frame srv mx frags p = Frame (byte (p ! 0) AND 0x80 \<noteq> 0) (byte (p ! 0) AND 0x0f)
    (if srv then xor_mask (drop ((if srv then Suc (length el) + 4 else Suc (length el)) - 4) p)
        (take (length data) (drop (if srv then Suc (length el) + 4 else Suc (length el)) p))
     else take (length data) (drop (if srv then Suc (length el) + 4 else Suc (length el)) p))
    ((if srv then Suc (length el) + 4 else Suc (length el)) + length data)"
  proof (rule parse_frame_intro)
    show "\<not> length p < 2" using p1 by simp
    show "byte (p ! 0) AND 0x70 = 0" unfolding p0 by (rule B)
    show "(byte (p ! 1) AND 0x80 \<noteq> 0) = srv" using masked by simp
    show "frame_length p = Some (length data, Suc (length el))" unfolding p by (rule L(1))
    show "\<not> (OP_CLOSE \<le> byte (p ! 0) AND 0x0f \<and> (byte (p ! 0) AND 0x80 = 0 \<or> length data > 125))"
      unfolding p0 B(1,2) using len by (auto simp: OP_CLOSE_def)
    show "\<not> (byte (p ! 0) AND 0x0f < OP_CLOSE \<and> length data > (mx + 2 ^ 64 - frags) mod 2 ^ 64)"
      unfolding p0 B(1,2) size_sub [OF sz] using len by (auto simp: OP_CLOSE_def)
    show "\<not> length p < ((if srv then Suc (length el) + 4 else Suc (length el)) + length data) mod 2 ^ 64"
      using nowrap bl unfolding p by (auto split: if_splits)
  qed
  then show ?thesis using data n unfolding p_def [symmetric] p0 B(1,2) by (auto split: if_splits)
qed

section \<open>More bytes do not change what was found\<close>

lemma frame_length_append:
  assumes "frame_length p = Some r" and "2 \<le> length p"
  shows "frame_length (p @ q) = Some r"
proof -
  have "(p @ q) ! 1 = p ! 1" using assms(2) by (simp add: nth_append)
  moreover have "4 \<le> length p \<Longrightarrow> (p @ q) ! 2 = p ! 2 \<and> (p @ q) ! 3 = p ! 3" by (simp add: nth_append)
  moreover have "10 \<le> length p \<Longrightarrow> take 8 (drop 2 (p @ q)) = take 8 (drop 2 p)" by simp
  ultimately show ?thesis using assms(1) by (auto simp: frame_length_def Let_def split: if_splits)
qed

lemma frame_length_bound: "frame_length p = Some (len, hlen) \<Longrightarrow> hlen \<le> 10"
  unfolding frame_length_def Let_def by (simp split: if_splits)

lemma xor_mask_append:
  assumes "4 \<le> length mk"
  shows "xor_mask (mk @ q) data = xor_mask mk data"
proof -
  have "(mk @ q) ! (i mod 4) = mk ! (i mod 4)" for i
    using less_le_trans [OF mod_less_divisor [of 4 i] assms] by (simp add: nth_append)
  then show ?thesis unfolding xor_mask_def by simp
qed

text \<open>What a parsed frame says of its bytes, without wrap-around.\<close>

lemma parse_frame_Frame:
  assumes "parse_frame srv mx frags p = Frame fin opcode data n" and "ws_sized mx frags"
  obtains len hlen where "frame_length p = Some (len, hlen)" "n = (if srv then hlen + 4 else hlen) + len" "n \<le> length p"
    "length data = len" "opcode < 8 \<longrightarrow> len \<le> mx - frags" "opcode < 16"
proof -
  from assms(1) obtain len hlen where L: "frame_length p = Some (len, hlen)"
    unfolding parse_frame_def by (auto simp: Let_def split: if_splits option.splits)
  let ?h = "if srv then hlen + 4 else hlen"
  note P = assms(1) [unfolded parse_frame_def Let_def L option.case prod.case size_sub [OF assms(2)]]
  have op: "opcode = byte (p ! 0) AND 15" and n: "n = ?h + len"
    and data: "data = (if srv then xor_mask (drop (?h - 4) p) (take len (drop ?h p)) else take len (drop ?h p))"
    and ctl: "OP_CLOSE \<le> opcode \<longrightarrow> len \<le> 125" and msg: "opcode < OP_CLOSE \<longrightarrow> len \<le> mx - frags"
    and len: "\<not> length p < (?h + len) mod 2 ^ 64"
    using P by (auto split: if_splits)
  have "len < 2 ^ 63" using ctl msg assms(2) by (cases "OP_CLOSE \<le> opcode") (auto simp: ws_sized_def)
  then have "(?h + len) mod 2 ^ 64 = ?h + len" using frame_length_bound [OF L] by simp
  with len have le: "n \<le> length p" unfolding n by simp
  have "length data = len" unfolding data using le n by auto
  moreover have "opcode < 16" unfolding op and_0f by simp
  ultimately show ?thesis using that [OF L n le] msg by (simp add: OP_CLOSE_def)
qed

lemma parse_frame_append:
  assumes "parse_frame srv mx frags p \<noteq> More" and sz: "ws_sized mx frags"
  shows "parse_frame srv mx frags (p @ q) = parse_frame srv mx frags p"
proof -
  have two: "2 \<le> length p" by (rule ccontr) (use assms(1) in \<open>simp add: parse_frame_def\<close>)
  then have b: "(p @ q) ! 0 = p ! 0" "(p @ q) ! 1 = p ! 1" by (auto simp: nth_append)
  show ?thesis
  proof (cases "frame_length p")
    case None
    with assms(1) two b show ?thesis unfolding parse_frame_def by (auto simp: Let_def split: if_splits)
  next
    case (Some r)
    obtain len hlen where r: "r = (len, hlen)" by (cases r)
    note L = Some [unfolded r]
    let ?h = "if srv then hlen + 4 else hlen"
    show ?thesis
    proof (cases "\<exists>fin opcode data n. parse_frame srv mx frags p = Frame fin opcode data n")
      case False
      with assms(1) two b frame_length_append [OF L two, of q] L show ?thesis
        unfolding parse_frame_def by (auto simp: Let_def split: if_splits)
    next
      case True
      then obtain fin opcode data n where F: "parse_frame srv mx frags p = Frame fin opcode data n" by blast
      then have le: "?h + len \<le> length p" using parse_frame_Frame [OF F sz] L by (metis option.inject prod.inject)
      then have "take len (drop ?h (p @ q)) = take len (drop ?h p)" by simp
      moreover have "xor_mask (drop hlen (p @ q)) d = xor_mask (drop hlen p) d" if srv for d
        using le that xor_mask_append [of "drop hlen p" q d] by simp
      moreover have "\<not> length (p @ q) < (?h + len) mod 2 ^ 64"
        using le mod_less_eq_dividend [of "?h + len" "2 ^ 64"] by simp
      ultimately show ?thesis
        using two b frame_length_append [OF L two, of q] L F unfolding parse_frame_def Let_def
        by (auto split: if_splits)
    qed
  qed
qed

end
