(* ===== verification/Websocket_Stream.thy ===== *)
theory Websocket_Stream
  imports Websocket_Frames
begin

text \<open>
  A connection as its socket drives it (\<^verbatim>\<open>SIPpSocket::ws_empty\<close>): the bytes of each read are fed, and
  \<^verbatim>\<open>next\<close> is called until it needs more. The events do not depend on how the bytes of the stream
  are cut into reads, and the messages a peer frames are the messages that come out.
\<close>

section \<open>The invariant of a connection\<close>

text \<open>The parsed bytes are in the buffer, and the fragments so far fit in a message.\<close>

definition ws_inv :: "websocket \<Rightarrow> bool" where
  "ws_inv ws \<longleftrightarrow> pos ws \<le> length (inp ws) \<and> ws_sized (max_message ws) (length (fragments ws)) \<and>
     (fragmented ws = None \<longrightarrow> fragments ws = []) \<and> (\<forall>op. fragmented ws = Some op \<longrightarrow> op = OP_TEXT \<or> op = OP_BINARY)"

lemma ws_inv_new: "mx < 2 ^ 63 \<Longrightarrow> ws_inv (new_WebSocket srv mx)"
  by (simp add: ws_inv_def new_WebSocket_def ws_sized_def)

lemma ws_inv_feed: "ws_inv ws \<Longrightarrow> ws_inv (feed data ws)"
  by (auto simp: ws_inv_def feed_def)

text \<open>What a call of \<^verbatim>\<open>next\<close> may return once it has something.\<close>

fun outcome_ok :: "nat \<Rightarrow> ws_result \<Rightarrow> bool" where
  "outcome_ok mx (ev, pl, rep, ws) \<longleftrightarrow> ws_inv ws \<and> max_message ws = mx \<and> ev \<noteq> NEED_MORE \<and>
     (ev = MESSAGE \<longrightarrow> length pl \<le> mx) \<and> (ev = FAILED \<or> ev = CLOSED \<longleftrightarrow> closed ws)"

lemma fail_ok: "ws_inv ws \<Longrightarrow> outcome_ok (max_message ws) (ws_fail rnd code why pl ws)"
  by (simp add: ws_fail_def ws_inv_def)

lemma message_ok:
  assumes "ws_inv ws" and "\<not> closed ws" and "length pl \<le> max_message ws"
  shows "outcome_ok (max_message ws) (ws_message rnd op pl ws)"
  using fail_ok [OF assms(1), of rnd 1007 _ pl] assms by (simp add: ws_message_def)

lemma close_turn_ok:
  assumes "ws_inv ws"
  shows "outcome_ok (max_message ws) (close_turn rnd data pl ws)"
  unfolding close_turn_def Let_def using fail_ok [OF assms] assms by (auto simp: ws_inv_def)

lemma handle_frame_ok:
  assumes "ws_inv ws" and "\<not> closed ws" and "opcode < 8 \<longrightarrow> length data \<le> max_message ws - length (fragments ws)"
  shows "case handle_frame rnd fin opcode data pl ws of
      Return r \<Rightarrow> outcome_ok (max_message ws) r
    | Again ws' \<Rightarrow> ws_inv ws' \<and> \<not> closed ws' \<and> max_message ws' = max_message ws"
proof -
  have le: "length (fragments ws) \<le> max_message ws" using assms(1) by (simp add: ws_inv_def ws_sized_def)
  note F = fail_ok [OF assms(1)]
  consider "opcode = OP_TEXT \<or> opcode = OP_BINARY" | "opcode = OP_CONTINUATION" | "opcode > OP_BINARY"
    unfolding opcode_defs by linarith
  then show ?thesis
  proof cases
    case 1
    then have "length data \<le> max_message ws - length (fragments ws)" using assms(3) by (auto simp: opcode_defs)
    with 1 le assms F message_ok [OF assms(1,2), of data rnd opcode] show ?thesis
      unfolding handle_frame_def by (auto simp: ws_inv_def ws_sized_def)
  next
    case 2
    then have "length (fragments ws @ data) \<le> max_message ws" using assms(3) le by (auto simp: opcode_defs)
    moreover from this have "outcome_ok (max_message ws) (ws_message rnd op (fragments ws @ data) (ws\<lparr>fragments := [], fragmented := None\<rparr>))" for op
      using message_ok [of "ws\<lparr>fragments := [], fragmented := None\<rparr>" "fragments ws @ data" rnd op] assms(1,2)
      by (simp add: ws_inv_def ws_sized_def)
    ultimately show ?thesis using 2 assms F unfolding handle_frame_def
      by (auto simp: ws_inv_def ws_sized_def opcode_defs split: option.split)
  next
    case 3
    then show ?thesis using assms(1,2) F close_turn_ok [OF assms(1)] unfolding handle_frame_def
      by (auto simp: opcode_defs)
  qed
qed

lemma frame_turn_ok:
  assumes "ws_inv ws" and "\<not> closed ws"
  shows "case frame_turn rnd pl ws of
      Return (ev, pl', rep, ws') \<Rightarrow> ev = NEED_MORE \<and> ws' = ws \<and> pl' = pl \<and> rep = [] \<or> outcome_ok (max_message ws) (ev, pl', rep, ws')
    | Again ws' \<Rightarrow> ws_inv ws' \<and> \<not> closed ws' \<and> max_message ws' = max_message ws"
proof -
  have sz: "ws_sized (max_message ws) (length (fragments ws))" and le: "pos ws \<le> length (inp ws)"
    using assms(1) by (auto simp: ws_inv_def)
  let ?p = "drop (pos ws) (inp ws)"
  show ?thesis
  proof (cases "parse_frame (server ws) (max_message ws) (length (fragments ws)) ?p")
    case More
    then show ?thesis by (simp add: frame_turn_def)
  next
    case (Bad code why)
    have "case ws_fail rnd code why pl ws of (ev, pl', rep, ws') \<Rightarrow> outcome_ok (max_message ws) (ev, pl', rep, ws')"
      using fail_ok [OF assms(1), of rnd code why pl] by (cases "ws_fail rnd code why pl ws" rule: prod_cases4) simp
    with Bad show ?thesis by (auto simp: frame_turn_def)
  next
    case (Frame fin opcode data n)
    then have "n \<le> length ?p" and msg: "opcode < 8 \<longrightarrow> length data \<le> max_message ws - length (fragments ws)"
      by (auto elim: parse_frame_Frame [OF _ sz])
    then have "ws_inv (ws\<lparr>pos := pos ws + n\<rparr>)" using assms(1) le by (simp add: ws_inv_def)
    from handle_frame_ok [OF this, of opcode data rnd fin pl] assms(2) msg Frame show ?thesis
      by (auto simp: frame_turn_def split: turn.splits)
  qed
qed

section \<open>More bytes\<close>

text \<open>The buffer without the parsed bytes, and with more bytes.\<close>

definition norm :: "websocket \<Rightarrow> websocket" where
  "norm ws = ws\<lparr>inp := drop (pos ws) (inp ws), pos := 0\<rparr>"

definition extend :: "string \<Rightarrow> websocket \<Rightarrow> websocket" where
  "extend q ws = ws\<lparr>inp := inp ws @ q\<rparr>"

lemma feed_extend: "\<not> closed ws \<Longrightarrow> feed q ws = extend q (norm ws)"
  by (simp add: feed_def extend_def norm_def)

lemma norm_norm [simp]: "norm (norm ws) = norm ws"
  by (simp add: norm_def)

lemma extend_extend [simp]: "extend r (extend q ws) = extend (q @ r) ws"
  by (simp add: extend_def)

lemma extend_Nil [simp]: "extend [] ws = ws"
  by (simp add: extend_def)

lemma extend_fields [simp]:
  "closed (extend q ws) = closed ws" "ws_open (extend q ws) = ws_open ws" "server (extend q ws) = server ws"
  "max_message (extend q ws) = max_message ws" "fragments (extend q ws) = fragments ws"
  "fragmented (extend q ws) = fragmented ws" "pos (extend q ws) = pos ws" "err (extend q ws) = err ws"
  by (simp_all add: extend_def)

lemma norm_fields [simp]:
  "closed (norm ws) = closed ws" "ws_open (norm ws) = ws_open ws" "server (norm ws) = server ws"
  "max_message (norm ws) = max_message ws" "fragments (norm ws) = fragments ws"
  "fragmented (norm ws) = fragmented ws" "pos (norm ws) = 0" "err (norm ws) = err ws"
  "inp (norm ws) = drop (pos ws) (inp ws)"
  by (simp_all add: norm_def)

lemma ws_inv_extend: "ws_inv ws \<Longrightarrow> ws_inv (extend q ws)"
  by (auto simp: ws_inv_def extend_def)

lemma ws_inv_norm: "ws_inv ws \<Longrightarrow> ws_inv (norm ws)"
  by (auto simp: ws_inv_def norm_def)

text \<open>A function of the connection that neither reads nor moves the buffer commutes with changes of it.\<close>

definition rebuf :: "(websocket \<Rightarrow> websocket) \<Rightarrow> turn \<Rightarrow> turn" where
  "rebuf f t = (case t of Return (ev, pl, rep, ws) \<Rightarrow> Return (ev, pl, rep, f ws) | Again ws \<Rightarrow> Again (f ws))"

lemma rebuf_simps [simp]:
  "rebuf f (Return (ev, pl, rep, ws)) = Return (ev, pl, rep, f ws)"
  "rebuf f (Again ws) = Again (f ws)"
  by (simp_all add: rebuf_def)

definition put_buf :: "string \<Rightarrow> nat \<Rightarrow> websocket \<Rightarrow> websocket" where
  "put_buf b n ws = ws\<lparr>inp := b, pos := n\<rparr>"

lemma fail_buf: "rebuf (put_buf b n) (Return (ws_fail rnd code why pl ws)) = Return (ws_fail rnd code why pl (put_buf b n ws))"
  unfolding ws_fail_def put_buf_def close_frame_def make_frame_def by simp

lemma message_buf: "rebuf (put_buf b n) (Return (ws_message rnd op pl ws)) = Return (ws_message rnd op pl (put_buf b n ws))"
  using fail_buf unfolding ws_message_def by simp

lemma close_turn_buf: "rebuf (put_buf b n) (Return (close_turn rnd data pl ws)) = Return (close_turn rnd data pl (put_buf b n ws))"
proof -
  have "make_frame (put_buf b n ws) rnd OP_CLOSE d = make_frame ws rnd OP_CLOSE d" for d
    by (simp add: make_frame_def put_buf_def)
  then show ?thesis unfolding close_turn_def Let_def using fail_buf by (simp add: put_buf_def)
qed

lemma handle_frame_buf:
  "rebuf (put_buf b n) (handle_frame rnd fin opcode data pl ws) = handle_frame rnd fin opcode data pl (put_buf b n ws)"
proof -
  have m: "make_frame (put_buf b n ws) rnd op d = make_frame ws rnd op d" for op d
    by (simp add: make_frame_def put_buf_def)
  have f: "fragmented (put_buf b n ws) = fragmented ws" "fragments (put_buf b n ws) = fragments ws"
    "(put_buf b n v)\<lparr>fragments := x\<rparr> = put_buf b n (v\<lparr>fragments := x\<rparr>)"
    "(put_buf b n v)\<lparr>fragmented := y\<rparr> = put_buf b n (v\<lparr>fragmented := y\<rparr>)" for x y v
    by (simp_all add: put_buf_def)
  show ?thesis unfolding handle_frame_def m f
    using fail_buf message_buf close_turn_buf by (auto split: option.split)
qed

text \<open>
  A turn looks at the bytes that are not parsed yet only, and what it found stays found when more
  bytes come in.
\<close>

lemma frame_turn_norm:
  "rebuf norm (frame_turn rnd pl (norm ws)) = rebuf norm (frame_turn rnd pl ws)"
proof -
  have p: "drop (pos (norm ws)) (inp (norm ws)) = drop (pos ws) (inp ws)" by (simp add: norm_def)
  have r: "rebuf norm (rebuf (put_buf b n) t) = rebuf (put_buf (drop n b) 0) t" for b n t
    by (cases t) (auto simp: rebuf_def norm_def put_buf_def split: prod.splits)
  have pos: "(norm ws)\<lparr>pos := pos (norm ws) + n\<rparr> = put_buf (drop (pos ws) (inp ws)) n ws"
    "ws\<lparr>pos := pos ws + n\<rparr> = put_buf (inp ws) (pos ws + n) ws" for n
    by (simp_all add: norm_def put_buf_def)
  have nw: "norm ws = put_buf (drop (pos ws) (inp ws)) 0 ws" "ws = put_buf (inp ws) (pos ws) ws"
    by (simp_all add: norm_def put_buf_def)
  show ?thesis
  proof (cases "parse_frame (server ws) (max_message ws) (length (fragments ws)) (drop (pos ws) (inp ws))")
    case More
    then show ?thesis unfolding frame_turn_def p by simp
  next
    case (Bad code why)
    have "rebuf norm (Return (ws_fail rnd code why pl (put_buf (drop (pos ws) (inp ws)) 0 ws))) =
      rebuf norm (Return (ws_fail rnd code why pl (put_buf (inp ws) (pos ws) ws)))"
      unfolding fail_buf [symmetric] r by simp
    then have "rebuf norm (Return (ws_fail rnd code why pl (norm ws))) = rebuf norm (Return (ws_fail rnd code why pl ws))"
      unfolding nw(1) using nw(2) by simp
    with Bad show ?thesis unfolding frame_turn_def by simp
  next
    case (Frame fin opcode data n)
    have "rebuf norm (handle_frame rnd fin opcode data pl (put_buf (drop (pos ws) (inp ws)) n ws)) =
      rebuf norm (handle_frame rnd fin opcode data pl (put_buf (inp ws) (pos ws + n) ws))"
      unfolding handle_frame_buf [symmetric] r by (simp add: add.commute)
    with Frame show ?thesis unfolding frame_turn_def p pos by simp
  qed
qed

lemma frame_turn_extend:
  assumes "ws_inv ws" and more: "frame_turn rnd pl ws \<noteq> Return (NEED_MORE, pl, [], ws)"
  shows "frame_turn rnd pl (extend q ws) = rebuf (extend q) (frame_turn rnd pl ws)"
proof -
  have sz: "ws_sized (max_message ws) (length (fragments ws))" and le: "pos ws \<le> length (inp ws)"
    using assms(1) by (auto simp: ws_inv_def)
  let ?P = "parse_frame (server ws) (max_message ws) (length (fragments ws))"
  have "?P (drop (pos ws) (inp ws)) \<noteq> More" using more by (auto simp: frame_turn_def)
  then have P: "?P (drop (pos ws) (inp (extend q ws))) = ?P (drop (pos ws) (inp ws))"
    using parse_frame_append [OF _ sz, of "server ws" "drop (pos ws) (inp ws)" q] le by (simp add: extend_def)
  have e: "extend q v = put_buf (inp ws @ q) (pos v) v" if "inp v = inp ws" for v
    using that by (simp add: extend_def put_buf_def)
  show ?thesis
  proof (cases "?P (drop (pos ws) (inp ws))")
    case More
    with \<open>?P (drop (pos ws) (inp ws)) \<noteq> More\<close> show ?thesis by simp
  next
    case (Bad code why)
    have "Return (ws_fail rnd code why pl (extend q ws)) = rebuf (extend q) (Return (ws_fail rnd code why pl ws))"
      unfolding e [OF refl] fail_buf [symmetric] by (simp add: ws_fail_def extend_def put_buf_def)
    with Bad P show ?thesis unfolding frame_turn_def by simp
  next
    case (Frame fin opcode data n)
    let ?v = "ws\<lparr>pos := pos ws + n\<rparr>"
    have "handle_frame rnd fin opcode data pl (put_buf (inp ws @ q) (pos ws + n) ?v) =
        rebuf (extend q) (handle_frame rnd fin opcode data pl ?v)"
    proof -
      have "handle_frame rnd fin opcode data pl ?v = rebuf (put_buf (inp ws) (pos ws + n)) (handle_frame rnd fin opcode data pl ?v)"
        unfolding handle_frame_buf by (simp add: put_buf_def)
      moreover have "rebuf (extend q) (rebuf (put_buf (inp ws) (pos ws + n)) t) = rebuf (put_buf (inp ws @ q) (pos ws + n)) t" for t
        by (cases t) (auto simp: rebuf_def extend_def put_buf_def split: prod.splits)
      ultimately show ?thesis unfolding handle_frame_buf [symmetric] by metis
    qed
    moreover have "(extend q ws)\<lparr>pos := pos ws + n\<rparr> = put_buf (inp ws @ q) (pos ws + n) ?v"
      by (simp add: extend_def put_buf_def)
    ultimately show ?thesis using Frame P unfolding frame_turn_def by simp
  qed
qed

section \<open>The loop\<close>

lemma frame_loop_ok:
  assumes "ws_inv ws" and "\<not> closed ws" and "frame_loop rnd pl ws = (ev, pl', rep, ws')"
  shows "ws_inv ws' \<and> max_message ws' = max_message ws \<and>
    (if ev = NEED_MORE then pl' = pl \<and> rep = [] \<and> \<not> closed ws' \<and> frame_turn rnd pl ws' = Return (NEED_MORE, pl, [], ws')
     else outcome_ok (max_message ws) (ev, pl', rep, ws'))"
  using assms
proof (induction rnd pl ws rule: frame_loop.induct)
  case (1 rnd pl ws)
  note T = frame_turn_ok [OF 1(2,3), where rnd = rnd and pl = pl]
  show ?case
  proof (cases "frame_turn rnd pl ws")
    case (Return r)
    with 1(4) have "r = (ev, pl', rep, ws')" by (simp add: frame_loop.simps)
    with T Return 1(2,3) show ?thesis by auto
  next
    case (Again w)
    with 1(4) have "frame_loop rnd pl w = (ev, pl', rep, ws')" by (subst (asm) frame_loop.simps) simp
    from 1(1) [OF Again _ _ this] T Again show ?thesis by auto
  qed
qed

text \<open>More bytes after a call that needs more, and after one that does not.\<close>

lemma frame_loop_extend:
  assumes "ws_inv ws" and "\<not> closed ws" and "frame_loop rnd pl ws = (ev, pl', rep, ws')"
  shows "frame_loop rnd pl (extend q ws) =
    (if ev = NEED_MORE then frame_loop rnd pl (extend q ws') else (ev, pl', rep, extend q ws'))"
  using assms
proof (induction rnd pl ws rule: frame_loop.induct)
  case (1 rnd pl ws)
  show ?case
  proof (cases "frame_turn rnd pl ws = Return (NEED_MORE, pl, [], ws)")
    case True
    with 1(4) have "ev = NEED_MORE" "ws' = ws" by (auto simp: frame_loop.simps)
    then show ?thesis by simp
  next
    case False
    note E = frame_turn_extend [OF 1(2) False, of q]
    note T = frame_turn_ok [OF 1(2,3), where rnd = rnd and pl = pl]
    show ?thesis
    proof (cases "frame_turn rnd pl ws")
      case (Return r)
      with 1(4) have r: "r = (ev, pl', rep, ws')" by (simp add: frame_loop.simps)
      have "ev \<noteq> NEED_MORE" using T Return r False by auto
      with E Return r show ?thesis by (simp add: frame_loop.simps)
    next
      case (Again w)
      with 1(4) have "frame_loop rnd pl w = (ev, pl', rep, ws')" by (subst (asm) frame_loop.simps) simp
      from 1(1) [OF Again _ _ this] T Again have "frame_loop rnd pl (extend q w) =
        (if ev = NEED_MORE then frame_loop rnd pl (extend q ws') else (ev, pl', rep, extend q ws'))" by auto
      then show ?thesis using E Again by (subst frame_loop.simps) simp
    qed
  qed
qed

fun same_result :: "ws_result \<Rightarrow> ws_result \<Rightarrow> bool" where
  "same_result (ev, pl, rep, ws) r \<longleftrightarrow> (\<exists>ws'. r = (ev, pl, rep, ws') \<and> norm ws' = norm ws)"

lemma frame_loop_norm:
  assumes "norm v = norm ws"
  shows "same_result (frame_loop rnd pl ws) (frame_loop rnd pl v)"
  using assms
proof (induction rnd pl ws arbitrary: v rule: frame_loop.induct)
  case (1 rnd pl ws)
  have E: "rebuf norm (frame_turn rnd pl v) = rebuf norm (frame_turn rnd pl ws)"
    using frame_turn_norm [of rnd pl v] frame_turn_norm [of rnd pl ws] 1(2) by simp
  show ?case
  proof (cases "frame_turn rnd pl ws")
    case (Return r)
    obtain ev p rp w where r: "r = (ev, p, rp, w)" by (cases r rule: prod_cases4)
    with E Return obtain w' where "frame_turn rnd pl v = Return (ev, p, rp, w')" "norm w' = norm w"
      by (cases "frame_turn rnd pl v") (auto simp: rebuf_def split: prod.splits)
    with Return r show ?thesis by (simp add: frame_loop.simps)
  next
    case (Again w)
    with E obtain w' where w': "frame_turn rnd pl v = Again w'" "norm w' = norm w"
      by (cases "frame_turn rnd pl v") (auto simp: rebuf_def split: prod.splits)
    from 1(1) [OF Again w'(2)] have "same_result (frame_loop rnd pl w) (frame_loop rnd pl w')" .
    then show ?thesis using Again w'(1) by (simp add: frame_loop.simps [of _ _ ws] frame_loop.simps [of _ _ v])
  qed
qed

section \<open>Reads\<close>

text \<open>Every event but the need for more bytes closes the connection or takes bytes from the buffer.\<close>

fun progress :: "websocket \<Rightarrow> ws_result \<Rightarrow> bool" where
  "progress ws (ev, pl, rep, ws') \<longleftrightarrow>
     ev = NEED_MORE \<or> closed ws' \<or> inp ws' = inp ws \<and> pos ws < pos ws' \<and> pos ws < length (inp ws)"

lemma progress_fail [simp]: "progress ws (ws_fail rnd code why pl v)"
  by (simp add: ws_fail_def)

lemma progress_frame_turn: "frame_turn rnd pl ws = Return r \<Longrightarrow> progress ws r"
proof (cases "parse_frame (server ws) (max_message ws) (length (fragments ws)) (drop (pos ws) (inp ws))")
  case (Frame fin opcode data n)
  assume R: "frame_turn rnd pl ws = Return r"
  have n: "2 \<le> n" "2 \<le> length (drop (pos ws) (inp ws))" using parse_frame_length [OF Frame] by auto
  have m: "progress ws (ws_message rnd op d (v\<lparr>fragments := x, fragmented := y\<rparr>))" "progress ws (ws_message rnd op d v)"
    if "v = ws\<lparr>pos := pos ws + n\<rparr>" for op d x y v
    using n that by (auto simp: ws_message_def)
  have c: "progress ws (close_turn rnd data pl v)" for v
    unfolding close_turn_def Let_def by simp
  have "handle_frame rnd fin opcode data pl (ws\<lparr>pos := pos ws + n\<rparr>) = Return r"
    using R Frame by (simp add: frame_turn_def)
  then show ?thesis using n m [OF refl] c unfolding handle_frame_def
    by (auto split: if_splits option.splits)
qed (auto simp: frame_turn_def)

lemma progress_frame_loop: "progress ws (frame_loop rnd pl ws)"
proof (induction rnd pl ws rule: frame_loop.induct)
  case (1 rnd pl ws)
  show ?case
  proof (cases "frame_turn rnd pl ws")
    case (Return r)
    then show ?thesis using progress_frame_turn [OF Return] by (simp add: frame_loop.simps)
  next
    case (Again w)
    have "progress w (frame_loop rnd pl w)" using 1 Again by simp
    moreover have "inp w = inp ws \<and> pos ws + 2 \<le> pos w" using frame_turn_Again [OF Again] by simp
    moreover have "frame_loop rnd pl ws = frame_loop rnd pl w" using Again by (subst frame_loop.simps) simp
    ultimately show ?thesis by (cases "frame_loop rnd pl w" rule: prod_cases4) auto
  qed
qed

lemma progress_handshake: "progress ws (handshake sha1 rnd pl ws)"
proof (cases "find_sub (CRLF @ CRLF) (drop (pos ws) (inp ws))")
  case (Some n)
  then have "n + 4 \<le> length (drop (pos ws) (inp ws))" using find_sub_le [OF Some] by simp
  then have "progress ws (server_handshake sha1 rnd hd1 l1 up pl (ws\<lparr>pos := pos ws + n + 4\<rparr>))"
    "progress ws (client_handshake sha1 rnd hd1 l1 up pl (ws\<lparr>pos := pos ws + n + 4\<rparr>))" for hd1 l1 up
    unfolding server_handshake_def client_handshake_def Let_def by (auto simp del: append.simps)
  then show ?thesis using Some unfolding handshake_def Let_def by (simp only: option.case split: if_split) simp
qed (simp add: handshake_def)

lemma progress_next: "progress ws (ws_next sha1 rnd pl ws)"
  using progress_frame_loop progress_handshake by (simp add: ws_next_def)

definition ws_left :: "websocket \<Rightarrow> nat" where
  "ws_left ws = (if closed ws then 0 else Suc (length (inp ws) - pos ws))"

lemma ws_next_left:
  assumes "ws_next sha1 rnd pl ws = (ev, pl', rep, ws')" and "ev \<noteq> NEED_MORE"
  shows "ws_left ws' < ws_left ws"
proof -
  have "\<not> closed ws" using assms unfolding ws_next_def by (cases "closed ws") simp_all
  moreover have "progress ws (ev, pl', rep, ws')" using progress_next [of ws sha1 rnd pl] assms(1) by simp
  ultimately show ?thesis using assms(2) by (auto simp: ws_left_def)
qed

text \<open>
  The events of one read of the socket, with the messages and the replies to send; \<open>rnd i\<close> are the
  random bytes of event \<open>i\<close>. \<^verbatim>\<open>next\<close> does not look at the payload it is given.
\<close>

type_synonym ws_report = "ws_event \<times> string \<times> string"

definition report :: "ws_event \<Rightarrow> string \<Rightarrow> string \<Rightarrow> ws_report" where
  "report ev pl rep = (ev, if ev = MESSAGE then pl else [], rep)"

function ws_events :: "(string \<Rightarrow> string) \<Rightarrow> (nat \<Rightarrow> string) \<Rightarrow> nat \<Rightarrow> websocket \<Rightarrow> ws_report list \<times> websocket" where
  "ws_events sha1 rnd i ws =
     (case ws_next sha1 (rnd i) [] ws of
        (ev, pl, rep, ws') \<Rightarrow>
          if ev = NEED_MORE then ([], ws')
          else (case ws_events sha1 rnd (Suc i) ws' of (es, ws2) \<Rightarrow> (report ev pl rep # es, ws2)))"
  by pat_completeness auto
termination
  by (relation "measure (\<lambda>(sha1, rnd, i, ws). ws_left ws)") (auto dest!: ws_next_left [OF sym])

declare ws_events.simps [simp del]

fun ws_reads :: "(string \<Rightarrow> string) \<Rightarrow> (nat \<Rightarrow> string) \<Rightarrow> nat \<Rightarrow> string list \<Rightarrow> websocket \<Rightarrow> ws_report list \<times> websocket" where
  "ws_reads sha1 rnd i [] ws = ([], ws)"
| "ws_reads sha1 rnd i (c # cs) ws =
     (case ws_events sha1 rnd i (feed c ws) of
        (es, ws1) \<Rightarrow> (case ws_reads sha1 rnd (i + length es) cs ws1 of (es2, ws2) \<Rightarrow> (es @ es2, ws2)))"

section \<open>Cutting the stream\<close>

fun keeps_open :: "websocket \<Rightarrow> turn \<Rightarrow> bool" where
  "keeps_open ws (Return (ev, pl, rep, ws')) \<longleftrightarrow> ws_open ws' = ws_open ws \<and> server ws' = server ws"
| "keeps_open ws (Again ws') \<longleftrightarrow> ws_open ws' = ws_open ws \<and> server ws' = server ws"

lemma keeps_open_fail: "ws_open v = ws_open ws \<Longrightarrow> server v = server ws \<Longrightarrow> keeps_open ws (Return (ws_fail rnd code why pl v))"
  by (simp add: ws_fail_def)

lemma keeps_open_message:
  "ws_open v = ws_open ws \<Longrightarrow> server v = server ws \<Longrightarrow> keeps_open ws (Return (ws_message rnd op pl v))"
  using keeps_open_fail by (simp add: ws_message_def)

lemma keeps_open_close:
  "ws_open v = ws_open ws \<Longrightarrow> server v = server ws \<Longrightarrow> keeps_open ws (Return (close_turn rnd data pl v))"
  unfolding close_turn_def Let_def using keeps_open_fail by simp

lemma keeps_open_turn: "keeps_open ws (frame_turn rnd pl ws)"
proof (cases "parse_frame (server ws) (max_message ws) (length (fragments ws)) (drop (pos ws) (inp ws))")
  case (Frame fin opcode data n)
  have "keeps_open ws (handle_frame rnd fin opcode data pl (ws\<lparr>pos := pos ws + n\<rparr>))"
    unfolding handle_frame_def
    by (auto intro!: keeps_open_fail keeps_open_message keeps_open_close split: option.split)
  with Frame show ?thesis by (simp add: frame_turn_def)
qed (auto simp: frame_turn_def intro!: keeps_open_fail)

lemma frame_loop_open:
  "frame_loop rnd pl ws = (ev, pl', rep, ws') \<Longrightarrow> ws_open ws' = ws_open ws \<and> server ws' = server ws"
proof (induction rnd pl ws rule: frame_loop.induct)
  case (1 rnd pl ws)
  show ?case
  proof (cases "frame_turn rnd pl ws")
    case (Return r)
    with 1(2) keeps_open_turn [of ws rnd pl] show ?thesis by (auto simp: frame_loop.simps)
  next
    case (Again w)
    with 1(2) have "frame_loop rnd pl w = (ev, pl', rep, ws')" by (subst (asm) frame_loop.simps) simp
    from 1(1) [OF Again this] keeps_open_turn [of ws rnd pl] Again show ?thesis by simp
  qed
qed

lemma ws_next_cases:
  assumes "ws_inv ws" "ws_open ws" and N: "ws_next sha1 rnd [] ws = (ev, pl, rep, ws')"
  shows "ws_inv ws' \<and> ws_open ws' \<and> server ws' = server ws \<and> max_message ws' = max_message ws \<and>
    (ev = NEED_MORE \<longrightarrow> closed ws' = closed ws) \<and>
    ws_next sha1 rnd [] (extend q ws) = (if ev = NEED_MORE then ws_next sha1 rnd [] (extend q ws') else (ev, pl, rep, extend q ws'))"
proof (cases "closed ws")
  case True
  with N assms show ?thesis by (simp add: ws_next_def)
next
  case False
  with N assms(2) have F: "frame_loop rnd [] ws = (ev, pl, rep, ws')" by (simp add: ws_next_def)
  from frame_loop_ok [OF assms(1) False F] frame_loop_open [OF F] frame_loop_extend [OF assms(1) False F, of q]
    assms(2) False
  show ?thesis by (auto simp: ws_next_def split: if_splits)
qed

lemma ws_events_extend:
  assumes "ws_inv ws" "ws_open ws" and "ws_events sha1 rnd i ws = (es, ws1)"
  shows "ws_inv ws1 \<and> ws_open ws1 \<and> server ws1 = server ws \<and> max_message ws1 = max_message ws \<and>
    ws_events sha1 rnd i (extend q ws) =
      (case ws_events sha1 rnd (i + length es) (extend q ws1) of (es', ws2) \<Rightarrow> (es @ es', ws2))"
  using assms
proof (induction sha1 rnd i ws arbitrary: es ws1 rule: ws_events.induct)
  case (1 sha1 rnd i ws)
  obtain ev pl rep w where N: "ws_next sha1 (rnd i) [] ws = (ev, pl, rep, w)"
    by (cases "ws_next sha1 (rnd i) [] ws" rule: prod_cases4)
  note C = ws_next_cases [OF 1(2,3) N, of q]
  show ?case
  proof (cases "ev = NEED_MORE")
    case True
    then have "es = []" "ws1 = w" using 1(4) N by (auto simp: ws_events.simps [of sha1 rnd i ws])
    moreover have "ws_events sha1 rnd i (extend q ws) = ws_events sha1 rnd i (extend q w)"
      using C True by (simp add: ws_events.simps [of sha1 rnd i "extend q _"])
    ultimately show ?thesis using C by (simp split: prod.split)
  next
    case False
    obtain es0 where E: "ws_events sha1 rnd (Suc i) w = (es0, ws1)" "es = report ev pl rep # es0"
      using 1(4) N False by (auto simp: ws_events.simps [of sha1 rnd i ws] split: prod.splits)
    have "ws_inv w" "ws_open w" using C by auto
    note IH = 1(1) [OF N [symmetric] refl refl False this E(1)]
    have "ws_next sha1 (rnd i) [] (extend q ws) = (ev, pl, rep, extend q w)" using C False by simp
    then have "ws_events sha1 rnd i (extend q ws) =
      (case ws_events sha1 rnd (Suc i) (extend q w) of (es', ws2) \<Rightarrow> (report ev pl rep # es', ws2))"
      using False by (subst ws_events.simps) simp
    with IH E(2) C show ?thesis by (auto split: prod.splits)
  qed
qed

lemma ws_events_norm:
  assumes "ws_open ws" and "norm v = norm ws" and "ws_events sha1 rnd i ws = (es, ws1)"
  shows "\<exists>v1. ws_events sha1 rnd i v = (es, v1) \<and> norm v1 = norm ws1"
  using assms
proof (induction sha1 rnd i ws arbitrary: v es ws1 rule: ws_events.induct)
  case (1 sha1 rnd i ws)
  obtain ev pl rep w where N: "ws_next sha1 (rnd i) [] ws = (ev, pl, rep, w)"
    by (cases "ws_next sha1 (rnd i) [] ws" rule: prod_cases4)
  have cl: "closed v = closed ws" "ws_open v = ws_open ws" using arg_cong [OF 1(3), of closed] arg_cong [OF 1(3), of ws_open] by simp_all
  have "\<exists>w'. ws_next sha1 (rnd i) [] v = (ev, pl, rep, w') \<and> norm w' = norm w \<and> ws_open w = ws_open ws"
  proof (cases "closed ws")
    case True
    with N cl 1(3) show ?thesis by (auto simp: ws_next_def)
  next
    case False
    with N 1(2) have F: "frame_loop (rnd i) [] ws = (ev, pl, rep, w)" by (simp add: ws_next_def)
    from frame_loop_norm [OF 1(3), of "rnd i" "[]"] F False cl 1(2) frame_loop_open [OF F] show ?thesis
      by (auto simp: ws_next_def)
  qed
  then obtain w' where N': "ws_next sha1 (rnd i) [] v = (ev, pl, rep, w')" "norm w' = norm w" "ws_open w"
    using 1(2) by auto
  show ?case
  proof (cases "ev = NEED_MORE")
    case True
    then show ?thesis using 1(4) N N' by (simp add: ws_events.simps [of sha1 rnd i])
  next
    case False
    obtain es0 where E: "ws_events sha1 rnd (Suc i) w = (es0, ws1)" "es = report ev pl rep # es0"
      using 1(4) N False by (auto simp: ws_events.simps [of sha1 rnd i ws] split: prod.splits)
    from 1(1) [OF N [symmetric] refl refl False N'(3,2) E(1)] obtain v1 where
      "ws_events sha1 rnd (Suc i) w' = (es0, v1)" "norm v1 = norm ws1" by blast
    with N' False E(2) show ?thesis by (simp add: ws_events.simps [of sha1 rnd i v])
  qed
qed

lemma ws_events_closed: "closed ws \<Longrightarrow> ws_events sha1 rnd i ws = ([], ws)"
  by (subst ws_events.simps) (simp add: ws_next_def)

text \<open>The status of a connection that its socket looks at.\<close>

definition status :: "websocket \<Rightarrow> bool \<times> string \<times> nat option \<times> string" where
  "status ws = (closed ws, err ws, fragmented ws, fragments ws)"

lemma status_norm: "norm v = norm ws \<Longrightarrow> status v = status ws"
proof -
  assume N: "norm v = norm ws"
  show ?thesis using arg_cong [OF N, of closed] arg_cong [OF N, of err] arg_cong [OF N, of fragmented]
      arg_cong [OF N, of fragments] by (simp add: status_def)
qed

lemma ws_reads_concat:
  assumes "ws_inv ws" "ws_open ws"
  shows "fst (ws_reads sha1 rnd i (c # cs) ws) = fst (ws_events sha1 rnd i (feed (c @ concat cs) ws)) \<and>
    status (snd (ws_reads sha1 rnd i (c # cs) ws)) = status (snd (ws_events sha1 rnd i (feed (c @ concat cs) ws)))"
  using assms
proof (induction cs arbitrary: c i ws)
  case Nil
  then show ?case by (simp split: prod.split)
next
  case (Cons c' cs)
  obtain es ws1 where E: "ws_events sha1 rnd i (feed c ws) = (es, ws1)" by (cases "ws_events sha1 rnd i (feed c ws)")
  have inv: "ws_inv (feed c ws)" "ws_open (feed c ws)"
    using Cons.prems by (auto simp: ws_inv_feed) (simp add: feed_def)
  let ?q = "c' @ concat cs"
  have X: "ws_inv ws1" "ws_open ws1" using ws_events_extend [OF inv E] by auto
  from Cons.IH [OF X, of "i + length es" c'] E
  have L: "fst (ws_reads sha1 rnd i (c # c' # cs) ws) = es @ fst (ws_events sha1 rnd (i + length es) (feed ?q ws1))"
    "status (snd (ws_reads sha1 rnd i (c # c' # cs) ws)) = status (snd (ws_events sha1 rnd (i + length es) (feed ?q ws1)))"
    by (auto split: prod.splits)
  show ?case
  proof (cases "closed ws")
    case True
    then have "es = []" "ws1 = ws" using E by (auto simp: feed_def ws_events_closed)
    with L True show ?thesis by (simp add: feed_def ws_events_closed)
  next
    case False
    then have "feed (c @ ?q) ws = extend ?q (feed c ws)" by (simp add: feed_def extend_def)
    then have R: "ws_events sha1 rnd i (feed (c @ ?q) ws) =
      (case ws_events sha1 rnd (i + length es) (extend ?q ws1) of (es', ws2) \<Rightarrow> (es @ es', ws2))"
      using ws_events_extend [OF inv E, of ?q] by simp
    have "fst (ws_events sha1 rnd (i + length es) (feed ?q ws1)) = fst (ws_events sha1 rnd (i + length es) (extend ?q ws1)) \<and>
      status (snd (ws_events sha1 rnd (i + length es) (feed ?q ws1))) = status (snd (ws_events sha1 rnd (i + length es) (extend ?q ws1)))"
    proof (cases "closed ws1")
      case True
      then show ?thesis by (simp add: feed_def ws_events_closed status_def)
    next
      case open1: False
      obtain es' v where V: "ws_events sha1 rnd (i + length es) (extend ?q ws1) = (es', v)" by (cases "ws_events sha1 rnd (i + length es) (extend ?q ws1)")
      have "norm (feed ?q ws1) = norm (extend ?q ws1)"
        using X(1) open1 by (simp add: feed_extend norm_def extend_def ws_inv_def)
      from ws_events_norm [OF _ this V] X(2) obtain v1 where
        "ws_events sha1 rnd (i + length es) (feed ?q ws1) = (es', v1)" "norm v1 = norm v" by auto
      with V status_norm [of v1 v] show ?thesis by simp
    qed
    moreover have "fst (ws_events sha1 rnd i (feed (c @ ?q) ws)) = es @ fst (ws_events sha1 rnd (i + length es) (extend ?q ws1))"
      "snd (ws_events sha1 rnd i (feed (c @ ?q) ws)) = snd (ws_events sha1 rnd (i + length es) (extend ?q ws1))"
      unfolding R by (simp_all only: prod.case_eq_if fst_conv snd_conv)
    ultimately show ?thesis unfolding L concat.simps by (simp only: simp_thms)
  qed
qed

section \<open>Delivery\<close>

text \<open>A connection with an empty buffer that is between messages.\<close>

definition idle :: "websocket \<Rightarrow> bool" where
  "idle ws \<longleftrightarrow> ws_inv ws \<and> ws_open ws \<and> \<not> closed ws \<and> fragmented ws = None \<and> pos ws = length (inp ws)"

lemma next_frame:
  assumes "ws_inv ws" "ws_open ws" "\<not> closed ws" "fragmented ws = None" "length mk = 4" "length m \<le> max_message ws"
    and "server peer \<noteq> server ws" and "drop (pos ws) (inp ws) = ws_frame peer mk m @ rest"
  shows "ws_next sha1 rnd [] ws = (MESSAGE, m, [], ws\<lparr>pos := pos ws + length (ws_frame peer mk m)\<rparr>)"
proof -
  let ?op = "if is_utf8 m then OP_TEXT else OP_BINARY"
  let ?mko = "if server peer then None else Some mk"
  have fr: "fragments ws = []" and sz: "ws_sized (max_message ws) (length (fragments ws))"
    using assms(1,4) by (auto simp: ws_inv_def)
  have "parse_frame (server ws) (max_message ws) (length (fragments ws)) (encode ?op m ?mko True @ rest) =
    Frame True ?op m (length (encode ?op m ?mko True))"
    using assms(5-7) sz fr by (intro parse_encode) (auto simp: opcode_defs split: if_splits)
  then have "frame_turn rnd [] ws = Return (MESSAGE, m, [], ws\<lparr>pos := pos ws + length (ws_frame peer mk m)\<rparr>)"
    using assms(4,8) by (simp add: frame_turn_def ws_frame_def make_frame_def handle_frame_def ws_message_def opcode_defs)
  then show ?thesis using assms(2,3) by (simp add: ws_next_def frame_loop.simps)
qed

lemma events_frames:
  assumes "ws_inv ws" "ws_open ws" "\<not> closed ws" "fragmented ws = None" "server peer \<noteq> server ws"
    and "\<forall>(mk, m)\<in>set ms. length mk = 4 \<and> length m \<le> max_message ws"
    and "drop (pos ws) (inp ws) = concat (map (\<lambda>(mk, m). ws_frame peer mk m) ms)"
  shows "\<exists>ws'. ws_events sha1 rnd i ws = (map (\<lambda>(mk, m). (MESSAGE, m, [])) ms, ws') \<and> idle ws' \<and>
    server ws' = server ws \<and> max_message ws' = max_message ws"
  using assms
proof (induction ms arbitrary: i ws)
  case Nil
  then have "frame_turn rnd [] ws = Return (NEED_MORE, [], [], ws)" for rnd
    by (simp add: frame_turn_def parse_frame_def)
  with Nil show ?case
    by (subst ws_events.simps) (auto simp: ws_next_def frame_loop.simps idle_def ws_inv_def)
next
  case (Cons p ms)
  obtain mk m where p: "p = (mk, m)" by (cases p)
  let ?n = "length (ws_frame peer mk m)"
  have D: "drop (pos ws) (inp ws) = ws_frame peer mk m @ concat (map (\<lambda>(mk, m). ws_frame peer mk m) ms)"
    using Cons.prems(7) p by simp
  have N: "ws_next sha1 (rnd i) [] ws = (MESSAGE, m, [], ws\<lparr>pos := pos ws + ?n\<rparr>)"
    using Cons.prems p by (intro next_frame [OF _ _ _ _ _ _ _ D]) auto
  have "drop (pos ws + ?n) (inp ws) = drop ?n (drop (pos ws) (inp ws))" by (simp add: add.commute)
  then have D': "drop (pos ws + ?n) (inp ws) = concat (map (\<lambda>(mk, m). ws_frame peer mk m) ms)"
    unfolding D by simp
  have "ws_inv (ws\<lparr>pos := pos ws + ?n\<rparr>)"
    using ws_next_cases [OF Cons.prems(1,2) N] by simp
  from Cons.IH [OF this] Cons.prems D' obtain ws' where
    "ws_events sha1 rnd (Suc i) (ws\<lparr>pos := pos ws + ?n\<rparr>) = (map (\<lambda>(mk, m). (MESSAGE, m, [])) ms, ws')" "idle ws'"
    "server ws' = server ws" "max_message ws' = max_message ws" by auto
  with N p show ?case by (subst ws_events.simps) (simp add: report_def)
qed

end
