(* ===== verification/Utf8.thy ===== *)
theory Utf8
  imports Websocket_Frames
begin

unbundle bit_operations_syntax

text \<open>
  \<^verbatim>\<open>WebSocket::is_utf8\<close> accepts exactly the encodings of sequences of Unicode scalar values: the
  decoder's bit patterns are arithmetic on the code point.
\<close>

section \<open>The encoding\<close>

definition scalar :: "nat \<Rightarrow> bool" where
  "scalar u \<longleftrightarrow> u \<le> 0x10ffff \<and> \<not> (0xd800 \<le> u \<and> u \<le> 0xdfff)"

definition utf8_encode :: "nat \<Rightarrow> string" where
  "utf8_encode u =
     (if u < 0x80 then [chr u]
      else if u < 0x800 then [chr (0xc0 + u div 64), chr (0x80 + u mod 64)]
      else if u < 0x10000 then [chr (0xe0 + u div 4096), chr (0x80 + u div 64 mod 64), chr (0x80 + u mod 64)]
      else [chr (0xf0 + u div 262144), chr (0x80 + u div 4096 mod 64), chr (0x80 + u div 64 mod 64),
            chr (0x80 + u mod 64)])"

section \<open>Bit patterns\<close>

lemma and_shifted_mask: "(n::nat) AND push_bit j (mask k) = (n div 2 ^ j) mod 2 ^ k * 2 ^ j"
proof -
  have "n AND push_bit j (mask k) = push_bit j (take_bit k (drop_bit j n))"
    by (rule bit_eqI) (auto simp: bit_simps)
  then show ?thesis by (simp add: push_bit_nat_def take_bit_nat_def drop_bit_nat_def)
qed

lemma and_patterns:
  "(n::nat) AND 0xe0 = (n div 32) mod 8 * 32" "n AND 0xf0 = (n div 16) mod 16 * 16"
  "n AND 0xf8 = (n div 8) mod 32 * 8" "n AND 0xc0 = (n div 64) mod 4 * 64"
  "n AND 0x1f = n mod 32" "n AND 0x07 = n mod 8"
  using and_shifted_mask [of n 5 3] and_shifted_mask [of n 4 4] and_shifted_mask [of n 3 5] and_shifted_mask [of n 6 2]
    and_shifted_mask [of n 0 5] and_shifted_mask [of n 0 3]
  by (simp_all add: mask_eq_exp_minus_1 push_bit_nat_def)

lemma block: "0 < d \<Longrightarrow> (n::nat) div d = q \<longleftrightarrow> q * d \<le> n \<and> n < Suc q * d"
  by (metis div_nat_eqI dividend_less_times_div mult.commute times_div_less_eq_dividend mult_Suc_right add.commute)

lemma block_mod: "q * d \<le> (n::nat) \<Longrightarrow> n < Suc q * d \<Longrightarrow> n mod d = n - q * d"
  using block [of d n q] by (cases "d = 0") (auto simp: minus_div_mult_eq_mod [symmetric])

lemma utf8_first_cases:
  assumes "c < 256"
  shows "utf8_first c =
    (if 192 \<le> c \<and> c < 224 then Some (2, 0x80, c - 192)
     else if 224 \<le> c \<and> c < 240 then Some (3, 0x800, c - 224)
     else if 240 \<le> c \<and> c < 248 then Some (4, 0x10000, c - 240)
     else None)"
proof -
  have d: "c div 32 < 8" "c div 16 < 16" "c div 8 < 32" using assms by (simp_all add: less_mult_imp_div_less)
  have e: "c AND 0xe0 = 0xc0 \<longleftrightarrow> 192 \<le> c \<and> c < 224"
    unfolding and_patterns using d block [of 32 c 6] by auto
  have f: "c AND 0xf0 = 0xe0 \<longleftrightarrow> 224 \<le> c \<and> c < 240"
    unfolding and_patterns using d block [of 16 c 14] by auto
  have g: "c AND 0xf8 = 0xf0 \<longleftrightarrow> 240 \<le> c \<and> c < 248"
    unfolding and_patterns using d block [of 8 c 30] by auto
  have "c mod 32 = c - 192" if "192 \<le> c" "c < 224" using that block_mod [of 6 32 c] by simp
  moreover have "c mod 16 = c - 224" if "224 \<le> c" "c < 240" using that block_mod [of 14 16 c] by simp
  moreover have "c mod 8 = c - 240" if "240 \<le> c" "c < 248" using that block_mod [of 30 8 c] by simp
  ultimately show ?thesis unfolding utf8_first_def e f g unfolding and_patterns and_0f
    by (cases "192 \<le> c \<and> c < 224"; cases "224 \<le> c \<and> c < 240"; cases "240 \<le> c \<and> c < 248") auto
qed

lemma cont_byte: "byte b AND 0xc0 = 0x80 \<longleftrightarrow> 128 \<le> byte b \<and> byte b < 192"
proof -
  have "byte b div 64 < 4" by (rule less_mult_imp_div_less) simp
  then show ?thesis unfolding and_patterns using block [of 64 "byte b" 2] by auto
qed

lemma utf8_rest_Cons:
  "utf8_rest c (b # s) = (if 128 \<le> byte b \<and> byte b < 192 then utf8_rest (c * 64 + (byte b - 128)) s else None)"
proof -
  have "byte b mod 64 = byte b - 128" if "128 \<le> byte b" "byte b < 192" using that block_mod [of 2 64 "byte b"] by simp
  moreover have "push_bit 6 c OR byte b mod 64 = c * 64 + byte b mod 64" using or_add [of "byte b mod 64" 6 c] by simp
  ultimately show ?thesis using cont_byte [of b] by (auto simp: and_3f)
qed

declare utf8_rest.simps(2) [simp del]

lemma utf8_rest_chr: "x < 64 \<Longrightarrow> utf8_rest c (chr (128 + x) # s) = utf8_rest (c * 64 + x) s"
  by (simp add: utf8_rest_Cons)

section \<open>Decoding\<close>

text \<open>The code point that lead and continuation bits make, and its parts.\<close>

lemma parts2: "x < 64 \<Longrightarrow> (c * 64 + x) div 64 = (c::nat) \<and> (c * 64 + x) mod 64 = x"
  by simp

lemma parts_le: "(a::nat) < m \<Longrightarrow> x < k \<Longrightarrow> a * k + x < m * k"
proof -
  assume "a < m" "x < k"
  then have "a * k + x < Suc a * k" by simp
  also have "\<dots> \<le> m * k" using \<open>a < m\<close> by (intro mult_le_mono1) simp
  finally show ?thesis .
qed

lemma is_utf8_encode:
  assumes "scalar u"
  shows "is_utf8 (utf8_encode u @ s) = is_utf8 s"
proof -
  consider "u < 0x80" | "0x80 \<le> u" "u < 0x800" | "0x800 \<le> u" "u < 0x10000" | "0x10000 \<le> u" "u \<le> 0x10ffff"
    using assms unfolding scalar_def by linarith
  then show ?thesis
  proof cases
    case 1
    then show ?thesis by (simp add: utf8_encode_def)
  next
    case 2
    have "u div 64 < 32" by (rule less_mult_imp_div_less) (use 2 in simp)
    moreover have "utf8_rest (u div 64) [chr (128 + u mod 64)] = Some u" by (simp add: utf8_rest_Cons)
    ultimately show ?thesis using 2 assms by (auto simp: utf8_encode_def utf8_first_cases scalar_def)
  next
    case 3
    have d: "u div 4096 < 16" by (rule less_mult_imp_div_less) (use 3 in simp)
    have e: "u div 4096 * 64 + u div 64 mod 64 = u div 64"
      using div_mult_mod_eq [of "u div 64" 64] by (simp add: div_mult2_eq [symmetric])
    have "utf8_rest (u div 4096) [chr (128 + u div 64 mod 64), chr (128 + u mod 64)] = utf8_rest (u div 64) [chr (128 + u mod 64)]"
      using e by (simp add: utf8_rest_chr [of _ "u div 4096"])
    also have "\<dots> = Some u" by (simp add: utf8_rest_Cons)
    finally show ?thesis using d 3 assms by (auto simp: utf8_encode_def utf8_first_cases scalar_def)
  next
    case 4
    have d: "u div 262144 < 8" by (rule less_mult_imp_div_less) (use 4 in simp)
    have e: "u div 262144 * 64 + u div 4096 mod 64 = u div 4096" "u div 4096 * 64 + u div 64 mod 64 = u div 64"
      using div_mult_mod_eq [of "u div 4096" 64] div_mult_mod_eq [of "u div 64" 64] by (simp_all add: div_mult2_eq [symmetric])
    have "utf8_rest (u div 262144) [chr (128 + u div 4096 mod 64), chr (128 + u div 64 mod 64), chr (128 + u mod 64)] =
      utf8_rest (u div 4096) [chr (128 + u div 64 mod 64), chr (128 + u mod 64)]"
      using e by (simp add: utf8_rest_chr [of _ "u div 262144"])
    also have "\<dots> = utf8_rest (u div 64) [chr (128 + u mod 64)]"
      using e by (simp add: utf8_rest_chr [of _ "u div 4096"])
    also have "\<dots> = Some u" by (simp add: utf8_rest_Cons)
    finally show ?thesis using d 4 assms by (auto simp: utf8_encode_def utf8_first_cases scalar_def)
  qed
qed

lemma is_utf8_first:
  assumes "is_utf8 (b # s)"
  shows "\<exists>u t. scalar u \<and> b # s = utf8_encode u @ t \<and> is_utf8 t"
proof (cases "byte b < 0x80")
  case True
  then have "scalar (byte b)" "utf8_encode (byte b) = [b]" by (simp_all add: scalar_def utf8_encode_def)
  with assms True show ?thesis by auto
next
  case False
  from assms False obtain n mn c0 where f1: "utf8_first (byte b) = Some (n, mn, c0)"
    by (cases "utf8_first (byte b)") auto
  have f2: "n \<le> Suc (length s)" by (rule ccontr) (use assms False f1 in simp)
  obtain u where r: "utf8_rest c0 (take (n - 1) s) = Some u"
    using assms False f1 f2 by (cases "utf8_rest c0 (take (n - 1) s)") auto
  have u: "mn \<le> u" "scalar u" and t: "is_utf8 (drop (n - 1) s)"
    using assms False f1 f2 r by (auto simp: scalar_def not_less split: if_splits)
  note f = f1 f2
  consider (2) "n = 2" "mn = 0x80" "byte b = 192 + c0" "c0 < 32" | (3) "n = 3" "mn = 0x800" "byte b = 224 + c0" "c0 < 16"
    | (4) "n = 4" "mn = 0x10000" "byte b = 240 + c0" "c0 < 8"
    using f(1) False by (auto simp: utf8_first_cases split: if_splits)
  then have "b # take (n - 1) s = utf8_encode u"
  proof cases
    case 2
    then obtain b1 where b1: "take (n - 1) s = [b1]" using f(2) by (cases s) auto
    define x where "x = byte b1 - 128"
    have x: "byte b1 = 128 + x" "x < 64" "u = c0 * 64 + x" using r b1 by (auto simp: x_def utf8_rest_Cons split: if_splits)
    have "u < 32 * 64" unfolding x(3) by (rule parts_le) (use x 2 in auto)
    moreover have "b = chr (192 + c0)" "b1 = chr (128 + x)" using 2 x by (metis chr_byte)+
    ultimately show ?thesis using u 2 x b1 by (simp add: utf8_encode_def)
  next
    case 3
    then obtain b1 b2 where b12: "take (n - 1) s = [b1, b2]" using f(2) by (cases s; cases "tl s") auto
    define x y where "x = byte b1 - 128" and "y = byte b2 - 128"
    have x: "byte b1 = 128 + x" "x < 64" "byte b2 = 128 + y" "y < 64" "u = (c0 * 64 + x) * 64 + y"
      using r b12 by (auto simp: x_def y_def utf8_rest_Cons split: if_splits)
    have q: "u div 64 = c0 * 64 + x" "u mod 64 = y" using parts2 [OF x(4), of "c0 * 64 + x", folded x(5)] by blast+
    have "u div 4096 = u div 64 div 64" by (simp add: div_mult2_eq [symmetric])
    then have q2: "u div 4096 = c0" unfolding q using parts2 [OF x(2)] by simp
    have "c0 * 64 + x < 16 * 64" by (rule parts_le) (use x 3 in auto)
    then have "u < 16 * 64 * 64" unfolding x(5) by (rule parts_le) (use x in auto)
    moreover have "b = chr (224 + c0)" "b1 = chr (128 + x)" "b2 = chr (128 + y)" using 3 x by (metis chr_byte)+
    ultimately show ?thesis using u 3 x(2) q q2 b12 by (simp add: utf8_encode_def)
  next
    case 4
    then obtain b1 b2 b3 where b13: "take (n - 1) s = [b1, b2, b3]"
      using f(2) by (cases s; cases "tl s"; cases "tl (tl s)") auto
    define x y z where "x = byte b1 - 128" and "y = byte b2 - 128" and "z = byte b3 - 128"
    have x: "byte b1 = 128 + x" "x < 64" "byte b2 = 128 + y" "y < 64" "byte b3 = 128 + z" "z < 64"
      "u = ((c0 * 64 + x) * 64 + y) * 64 + z"
      using r b13 by (auto simp: x_def y_def z_def utf8_rest_Cons split: if_splits)
    have q: "u div 64 = (c0 * 64 + x) * 64 + y" "u mod 64 = z" using parts2 [OF x(6), of "(c0 * 64 + x) * 64 + y", folded x(7)] by blast+
    have "u div 4096 = u div 64 div 64" "u div 262144 = u div 4096 div 64"
      by (simp_all add: div_mult2_eq [symmetric])
    then have q2: "u div 4096 = c0 * 64 + x" "u div 262144 = c0"
      unfolding q using parts2 [OF x(4), of "c0 * 64 + x"] parts2 [OF x(2), of c0] by simp_all
    have q3: "u div 64 mod 64 = y" unfolding q using parts2 [OF x(4), of "c0 * 64 + x"] by blast
    have "b = chr (240 + c0)" "b1 = chr (128 + x)" "b2 = chr (128 + y)" "b3 = chr (128 + z)" using 4 x by (metis chr_byte)+
    then show ?thesis using u 4 x(2,4) q(2) q2 q3 b13 by (simp add: utf8_encode_def)
  qed
  then have "b # s = utf8_encode u @ drop (n - 1) s" by (metis append_Cons append_take_drop_id)
  with u t show ?thesis by blast
qed

text \<open>
  C17: \<open>is_utf8\<close> accepts a byte string exactly when it is the concatenation of the UTF-8 encodings
  of Unicode scalar values: no overlong form, surrogate or code point past 0x10ffff is accepted, and
  no valid text is refused.
\<close>

theorem is_utf8_iff:
  "is_utf8 s \<longleftrightarrow> (\<exists>us. (\<forall>u\<in>set us. scalar u) \<and> s = concat (map utf8_encode us))"
proof
  show "is_utf8 s \<Longrightarrow> \<exists>us. (\<forall>u\<in>set us. scalar u) \<and> s = concat (map utf8_encode us)"
  proof (induction s rule: length_induct)
    case (1 s)
    show ?case
    proof (cases s)
      case (Cons b r)
      with is_utf8_first [of b r] 1(2) obtain u t where u: "scalar u" "s = utf8_encode u @ t" "is_utf8 t" by auto
      have "utf8_encode u \<noteq> []" by (simp add: utf8_encode_def)
      with u have "length t < length s" by simp
      with u(3) 1(1) obtain us where "\<forall>u\<in>set us. scalar u" "t = concat (map utf8_encode us)" by blast
      with u show ?thesis by (intro exI [of _ "u # us"]) auto
    qed (auto intro: exI [of _ "[]"])
  qed
  show "\<exists>us. (\<forall>u\<in>set us. scalar u) \<and> s = concat (map utf8_encode us) \<Longrightarrow> is_utf8 s"
  proof -
    have "\<forall>u\<in>set us. scalar u \<Longrightarrow> is_utf8 (concat (map utf8_encode us))" for us
      by (induction us) (auto simp: is_utf8_encode simp del: is_utf8.simps(2))
    then show "\<exists>us. (\<forall>u\<in>set us. scalar u) \<and> s = concat (map utf8_encode us) \<Longrightarrow> is_utf8 s" by blast
  qed
qed

theorem is_utf8_iff_witness:
  "is_utf8 [chr 0xc3, chr 0xa9, CHR ''t''] \<and> \<not> is_utf8 [chr 0xc0, chr 0x80]"
proof
  have "utf8_encode 0xe9 = [chr 0xc3, chr 0xa9]" "utf8_encode 0x74 = [CHR ''t'']"
    by (simp_all add: utf8_encode_def char_of_def bit_Suc_0_iff)
  moreover have "scalar 0xe9" "scalar 0x74" by (simp_all add: scalar_def)
  ultimately show "is_utf8 [chr 0xc3, chr 0xa9, CHR ''t'']"
    unfolding is_utf8_iff by (intro exI [of _ "[0xe9, 0x74]"]) simp
  show "\<not> is_utf8 [chr 0xc0, chr 0x80]" by (simp add: utf8_first_cases utf8_rest_Cons)
qed

end
