(* ===== verification/Websocket_Handshake.thy ===== *)
theory Websocket_Handshake
  imports Websocket_Stream Utf8
begin

unbundle bit_operations_syntax

text \<open>
  The opening handshake of \<open>Websocket\<close>: base64 is injective on bytes, \<open>header\<close> finds the fields of a
  head, and a client and a server of this program open a connection to each other.
\<close>

section \<open>Base64\<close>

definition value64 :: "char \<Rightarrow> nat" where
  "value64 c = (if c = CHR ''='' then 0 else length (takeWhile (\<lambda>d. d \<noteq> c) digits64))"

fun decode64 :: "string \<Rightarrow> string" where
  "decode64 (w # x # y # z # s) =
     (let n = ((value64 w * 64 + value64 x) * 64 + value64 y) * 64 + value64 z
      in chr (n div 65536) # (if y = CHR ''='' then [] else [chr (n div 256)]) @
         (if z = CHR ''='' then [] else [chr n]) @ decode64 s)"
| "decode64 _ = []"

lemma index_distinct: "distinct xs \<Longrightarrow> k < length xs \<Longrightarrow> length (takeWhile (\<lambda>d. d \<noteq> xs ! k) xs) = k"
proof (induction xs arbitrary: k)
  case (Cons x xs)
  then show ?case by (cases k) (auto simp: nth_Cons)
qed simp

lemma digits64_facts: "length digits64 = 64" "distinct digits64" "CHR ''='' \<notin> set digits64"
  by (simp_all add: digits64_def)

lemma digit64_value [simp]: "value64 (digit64 n) = n mod 64" and digit64_not_pad [simp]: "digit64 n \<noteq> CHR ''=''"
proof -
  have k: "n mod 64 < length digits64" by (simp add: digits64_facts)
  have e: "digit64 n = digits64 ! (n mod 64)" by (simp add: digit64_def and_3f)
  show "digit64 n \<noteq> CHR ''=''" using k digits64_facts(3) unfolding e by (metis nth_mem)
  then show "value64 (digit64 n) = n mod 64"
    using index_distinct [OF digits64_facts(2) k] unfolding e value64_def by simp
qed

lemma group24_eq: "b < 256 \<Longrightarrow> c < 256 \<Longrightarrow> group24 a b c = (byte a * 256 + b) * 256 + c"
proof -
  assume b: "b < 256" and c: "c < 256"
  have "push_bit 16 (byte a) OR push_bit 8 b = push_bit 8 (push_bit 8 (byte a) OR b)"
    by (simp add: push_bit_or)
  then have "group24 a b c = push_bit 8 (push_bit 8 (byte a) OR b) OR c" by (simp add: group24_def or.assoc)
  then show ?thesis using or_add [of c 8 "push_bit 8 (byte a) OR b"] or_add [of b 8 "byte a"] b c by simp
qed

lemma sextets:
  fixes n :: nat
  assumes "n < 16777216"
  shows "((n div 262144 mod 64 * 64 + n div 4096 mod 64) * 64 + n div 64 mod 64) * 64 + n mod 64 = n"
proof -
  have "n div 262144 < 64" by (rule less_mult_imp_div_less) (use assms in simp)
  then have 1: "n div 262144 mod 64 * 64 + n div 4096 mod 64 = n div 4096"
    using div_mult_mod_eq [of "n div 4096" 64] by (simp add: div_mult2_eq [symmetric])
  have 2: "n div 4096 * 64 + n div 64 mod 64 = n div 64"
    using div_mult_mod_eq [of "n div 64" 64] by (simp add: div_mult2_eq [symmetric])
  show ?thesis unfolding 1 2 by simp
qed

lemma decode64_group:
  fixes a :: char and b c :: nat
  assumes "b < 256" "c < 256"
  defines "n \<equiv> (byte a * 256 + b) * 256 + c"
  shows "((n div 262144 mod 64 * 64 + n div 4096 mod 64) * 64 + n div 64 mod 64) * 64 + n mod 64 = n"
    and "n div 65536 = byte a" and "n div 256 = byte a * 256 + b"
proof -
  have "byte a * 256 + b < 256 * 256" by (rule parts_le) (use assms in simp_all)
  then have "n < 256 * 256 * 256" unfolding n_def by (rule parts_le) (use assms in simp)
  then show "((n div 262144 mod 64 * 64 + n div 4096 mod 64) * 64 + n div 64 mod 64) * 64 + n mod 64 = n"
    by (intro sextets) simp
  show q: "n div 256 = byte a * 256 + b" unfolding n_def using assms by simp
  have "n div 65536 = n div 256 div 256" by (simp add: div_mult2_eq [symmetric])
  then show "n div 65536 = byte a" unfolding q using assms by simp
qed

lemma decode64_cons:
  assumes "b < 256" "c < 256" and n: "n = group24 a b c"
    and "value64 w = n div 262144 mod 64" "value64 x = n div 4096 mod 64" "value64 y = n div 64 mod 64" "value64 z = n mod 64"
  shows "decode64 (w # x # y # z # s) =
    a # (if y = CHR ''='' then [] else [chr b]) @ (if z = CHR ''='' then [] else [chr c]) @ decode64 s"
proof -
  note n' = n [unfolded group24_eq [OF assms(1,2)]]
  note g = decode64_group [OF assms(1,2), of a, folded n']
  have "chr (n div 256) = chr b" unfolding g(3) by simp
  moreover have "chr n = chr c" unfolding n' char_of_quasi_inj by (rule mod_mult_self3)
  ultimately show ?thesis by (simp only: decode64.simps Let_def assms(4-7) g(1,2) chr_byte)
qed

lemma decode64_base64: "decode64 (base64 s) = s"
proof (induction s rule: base64.induct)
  case (2 a)
  have "group24 a 0 0 div 64 mod 64 = 0" "group24 a 0 0 mod 64 = 0"
    unfolding group24_eq [of 0 0 a, simplified] by (simp_all add: mod_eq_0_iff_dvd)
  then show ?case unfolding base64.simps Let_def
    by (subst decode64_cons [of 0 0 "group24 a 0 0" a]) (simp_all add: drop_bit_nat_def value64_def [of "CHR ''=''"])
next
  case (3 a b)
  have "group24 a (byte b) 0 mod 64 = 0"
    unfolding group24_eq [of "byte b" 0 a, simplified] by (simp add: mod_eq_0_iff_dvd)
  then show ?case unfolding base64.simps Let_def
    by (subst decode64_cons [of "byte b" 0 "group24 a (byte b) 0" a]) (simp_all add: drop_bit_nat_def value64_def [of "CHR ''=''"])
next
  case (4 a b c s)
  then show ?case unfolding base64.simps Let_def append.simps
    by (subst decode64_cons [of "byte b" "byte c" "group24 a (byte b) (byte c)" a]) (simp_all add: drop_bit_nat_def)
qed simp

lemma base64_set: "set (base64 s) \<subseteq> insert (CHR ''='') (set digits64)"
proof -
  have "digit64 n \<in> set digits64" for n
    using digits64_facts(1) by (simp add: digit64_def and_3f)
  then show ?thesis by (induction s rule: base64.induct) (auto simp: Let_def)
qed

lemma base64_length: "length (base64 s) = 4 * ((length s + 2) div 3)"
proof (induction s rule: base64.induct)
  case (4 a b c s)
  have "(length (a # b # c # s) + 2) div 3 = (length s + 2) div 3 + 1"
    using div_add_self2 [of 3 "length s + 2"] by (simp add: add.commute)
  with 4 show ?case by (simp add: Let_def)
qed (simp_all add: Let_def)

text \<open>
  base64, of a nonce or a digest, can be decoded: no two byte strings have the same one; its
  length is four characters for every three bytes begun, and its characters are base64 digits with
  padding.
\<close>

theorem base64_decodes:
  "decode64 (base64 s) = s \<and> length (base64 s) = 4 * ((length s + 2) div 3) \<and>
   set (base64 s) \<subseteq> insert (CHR ''='') (set digits64)"
  using decode64_base64 base64_length base64_set by blast

section \<open>The lines of a head\<close>

lemma header_loop_lines:
  assumes "\<forall>l\<in>set ls. CR \<notin> set l"
  shows "header_loop nm vals (CRLF @ lines ls) = foldl (header_line nm) vals ls"
  using assms
proof (induction ls arbitrary: vals)
  case Nil
  then show ?case by (subst header_loop.simps) simp
next
  case (Cons l ls)
  have "find_sub CRLF (l @ CRLF @ lines ls) = Some (length l)"
    using Cons.prems find_sub_first [of CR l "[LF]" "lines ls"] by simp
  then have "header_loop nm vals (CRLF @ lines (l # ls)) = header_loop nm (header_line nm vals l) (CRLF @ lines ls)"
    by (subst header_loop.simps) (simp add: Let_def)
  with Cons show ?case by simp
qed

lemma header_lines:
  assumes "\<forall>l\<in>set (l0 # ls). CR \<notin> set l"
  shows "header (lines (l0 # ls)) nm = foldl (header_line nm) [] ls"
    and "find_sub CRLF (lines (l0 # ls)) = Some (length l0)"
proof -
  show f: "find_sub CRLF (lines (l0 # ls)) = Some (length l0)"
    using assms find_sub_first [of CR l0 "[LF]" "lines ls"] by simp
  then show "header (lines (l0 # ls)) nm = foldl (header_line nm) [] ls"
    using header_loop_lines [of ls nm "[]"] assms by (simp add: header_def)
qed

text \<open>The blank line is the first one after the lines.\<close>

lemma find_blank_line:
  assumes "\<forall>l\<in>set ls. CR \<notin> set l \<and> l \<noteq> []" and "ls \<noteq> []"
  shows "find_sub (CRLF @ CRLF) (lines ls @ CRLF @ r) = Some (length (lines ls) - 2)"
  using assms
proof (induction ls)
  case (Cons l ls)
  have skip: "find_sub (CRLF @ CRLF) (l @ s) = map_option (\<lambda>n. length l + n) (find_sub (CRLF @ CRLF) s)" for s
    using Cons.prems(1) find_sub_skip [of CR l "LF # CRLF" s] by simp
  show ?case
  proof (cases "ls = []")
    case True
    then show ?thesis using skip [of "CRLF @ CRLF @ r"] by simp
  next
    case False
    then obtain l1 ls1 where ls: "ls = l1 # ls1" by (cases ls) auto
    then obtain c t where c: "l1 = c # t" "c \<noteq> CR" using Cons.prems(1) by (cases l1) auto
    have IH: "find_sub (CRLF @ CRLF) (lines ls @ CRLF @ r) = Some (length (lines ls) - 2)"
      using Cons False by simp
    have "find_sub (CRLF @ CRLF) (CRLF @ lines ls @ CRLF @ r) =
        map_option (\<lambda>n. n + 2) (find_sub (CRLF @ CRLF) (lines ls @ CRLF @ r))"
      using c ls by (simp add: option.map_comp comp_def)
    moreover have "2 \<le> length (lines ls)" using ls by simp
    ultimately show ?thesis using skip [of "CRLF @ lines ls @ CRLF @ r"] IH by simp
  qed
qed simp

text \<open>A field: the line of a name without colons and a value.\<close>

lemma header_line_field:
  assumes nm: "CHR '':'' \<notin> set nm" and n: "CHR '':'' \<notin> set n"
  shows "header_line nm vals (n @ '':'' @ v) =
    (if eq_nocase n nm then (if vals \<noteq> [] then vals @ '','' else vals) @ ws_trim v else vals)"
proof -
  consider "length n = length nm" | "length n < length nm" | "length n > length nm" by linarith
  then show ?thesis
  proof cases
    case 1
    then show ?thesis by (simp add: header_line_def flip: 1)
  next
    case 2
    have "\<not> eq_nocase (take (length nm) (n @ '':'' @ v)) nm"
    proof
      assume "eq_nocase (take (length nm) (n @ '':'' @ v)) nm"
      then have "map tolower (take (length nm) (n @ '':'' @ v)) ! length n = map tolower nm ! length n"
        by (simp only: eq_nocase_def)
      then have "tolower (CHR '':'') = tolower (nm ! length n)" using 2 by (simp add: nth_append)
      then have "tolower (nm ! length n) = CHR '':''" using tolower_colon by metis
      then show False using nm 2 unfolding tolower_colon by (metis nth_mem)
    qed
    moreover have "\<not> eq_nocase n nm" using 2 by (metis eq_nocase_def length_map nat_neq_iff)
    ultimately show ?thesis by (simp add: header_line_def)
  next
    case 3
    then have "(n @ '':'' @ v) ! length nm = n ! length nm" by (simp add: nth_append)
    then have "(n @ '':'' @ v) ! length nm \<noteq> CHR '':''" using n 3 by (metis nth_mem)
    moreover have "\<not> eq_nocase n nm" using 3 by (metis eq_nocase_def length_map nat_neq_iff)
    ultimately show ?thesis by (simp add: header_line_def)
  qed
qed

lemma trim_same:
  assumes "blank b" and "\<forall>c\<in>set v. \<not> blank c"
  shows "ws_trim (b # v) = v"
proof -
  have d: "dropWhile blank u = u" if "\<forall>c\<in>set u. \<not> blank c" for u using that by (cases u) auto
  show ?thesis using assms d [of v] d [of "rev v"] by (simp add: ws_trim_def)
qed

definition fields :: "(string \<times> string) list \<Rightarrow> string list" where
  "fields fs = map (\<lambda>(n, v). n @ '': '' @ v) fs"

text \<open>The value of a header that is in the head once.\<close>

lemma header_field:
  assumes l: "\<forall>l\<in>set (l0 # fields (as @ (n, v) # bs)). CR \<notin> set l"
    and c: "CHR '':'' \<notin> set nm" "\<forall>(n', v')\<in>set (as @ (n, v) # bs). CHR '':'' \<notin> set n'"
    and hit: "eq_nocase n nm" and others: "\<forall>(n', v')\<in>set (as @ bs). \<not> eq_nocase n' nm"
    and v: "\<forall>c\<in>set v. \<not> blank c"
  shows "header (lines (l0 # fields (as @ (n, v) # bs))) nm = v"
proof -
  have miss: "foldl (header_line nm) vals (fields xs) = vals"
    if "\<forall>(n', v')\<in>set xs. CHR '':'' \<notin> set n' \<and> \<not> eq_nocase n' nm" for xs vals
    using that
  proof (induction xs)
    case (Cons x xs)
    then show ?case using header_line_field [OF c(1), of "fst x" vals "SP # snd x"]
      by (cases x) (simp add: fields_def)
  qed (simp add: fields_def)
  have "header_line nm [] (n @ '': '' @ v) = v"
    using header_line_field [OF c(1), of n "[]" "SP # v"] c(2) hit trim_same [of SP v] v by (simp add: blank_def)
  moreover have "foldl (header_line nm) [] (fields as) = []" using c(2) others by (intro miss) auto
  moreover have "foldl (header_line nm) v (fields bs) = v" using c(2) others by (intro miss) auto
  ultimately show ?thesis
    using header_lines(1) [OF l] by (simp add: fields_def)
qed

section \<open>A client and a server\<close>

lemma token_alone:
  assumes "CHR '','' \<notin> set v" "NUL \<notin> set v" "\<forall>c\<in>set v. \<not> blank c" "eq_nocase v t"
  shows "has_token v t"
proof -
  have t: "takeWhile (\<lambda>c. c \<noteq> CHR '','') v = v" using assms(1) by (auto simp: takeWhile_eq_all_conv)
  have tr: "ws_trim v = v"
  proof -
    have d: "dropWhile blank u = u" if "\<forall>c\<in>set u. \<not> blank c" for u using that by (cases u) auto
    show ?thesis using assms(3) d [of v] d [of "rev v"] by (simp add: ws_trim_def)
  qed
  show ?thesis
    by (subst has_token.simps) (simp only: t tr c_str_no_NUL [OF assms(2)] assms(4) if_True)
qed

text \<open>What \<open>handshake\<close> sees of lines with a blank line after them.\<close>

lemma handshake_lines:
  assumes "\<forall>l\<in>set (l0 # ls). CR \<notin> set l \<and> l \<noteq> []" and "drop (pos ws) (inp ws) = lines (l0 # ls) @ CRLF @ r"
  defines "head \<equiv> lines (l0 # ls)"
  defines "up \<equiv> has_token (header head ''Upgrade'') ''websocket'' \<and> has_token (header head ''Connection'') ''Upgrade''"
  shows "handshake sha1 rnd pl ws =
    (if server ws then server_handshake sha1 rnd head l0 up pl (ws\<lparr>pos := pos ws + length head + 2\<rparr>)
     else client_handshake sha1 rnd head l0 up pl (ws\<lparr>pos := pos ws + length head + 2\<rparr>))"
proof -
  have n: "find_sub (CRLF @ CRLF) (drop (pos ws) (inp ws)) = Some (length head - 2)"
    unfolding assms(2) head_def by (rule find_blank_line) (use assms(1) in auto)
  have two: "2 \<le> length head" by (simp add: head_def)
  have h: "take (length head - 2 + 2) (drop (pos ws) (inp ws)) = head"
    unfolding assms(2) using two by (simp add: head_def)
  have f: "find_sub CRLF head = Some (length l0)" unfolding head_def by (rule header_lines) (use assms(1) in auto)
  have l: "take (length l0) head = l0" by (simp add: head_def)
  have p: "pos ws + (length head - 2) + 4 = pos ws + length head + 2" using two by simp
  show ?thesis unfolding handshake_def Let_def n option.case h f l p up_def ..
qed

lemma base64_chars: "c \<in> set (base64 s) \<Longrightarrow> c \<noteq> CR \<and> \<not> blank c"
proof -
  assume "c \<in> set (base64 s)"
  moreover have "CR \<notin> set digits64" "SP \<notin> set digits64" "TAB \<notin> set digits64" by (simp_all add: digits64_def)
  ultimately show ?thesis using base64_set [of s] by (auto simp: blank_def)
qed

definition request_fields :: "string \<Rightarrow> string \<Rightarrow> (string \<times> string) list" where
  "request_fields host k =
     [(''Host'', host), (''Upgrade'', ''websocket''), (''Connection'', ''Upgrade''), (''Sec-WebSocket-Key'', k),
      (''Sec-WebSocket-Version'', ''13''), (''Sec-WebSocket-Protocol'', ''sip'')]"

lemma request_lines:
  "fst (ws_request nonce host path ws) =
    lines ((''GET '' @ (if path \<noteq> [] \<and> hd path = CHR ''/'' then [] else ''/'') @ path @ '' HTTP/1.1'') #
      fields (request_fields host (base64 nonce))) @ CRLF"
  by (simp add: ws_request_def Let_def request_fields_def fields_def)

lemma nocase_length: "length a \<noteq> length b \<Longrightarrow> \<not> eq_nocase a b"
  by (metis eq_nocase_def length_map)

text \<open>The headers of the request and of the answer.\<close>

lemma request_headers:
  fixes nonce :: string
  assumes "CR \<notin> set l0" "CR \<notin> set host"
  defines "head \<equiv> lines (l0 # fields (request_fields host (base64 nonce)))"
  shows "header head ''Upgrade'' = ''websocket''" "header head ''Connection'' = ''Upgrade''"
    "header head ''Sec-WebSocket-Key'' = base64 nonce" "header head ''Sec-WebSocket-Version'' = ''13''"
    "header head ''Sec-WebSocket-Protocol'' = ''sip''"
proof -
  let ?k = "base64 nonce"
  have F: "header (lines (l0 # fields (as @ (n, v) # bs))) n = v"
    if "request_fields host ?k = as @ (n, v) # bs" "\<forall>c\<in>set v. \<not> blank c"
      "\<forall>(n', v')\<in>set (as @ bs). \<not> eq_nocase n' n" for as n v bs
  proof (rule header_field)
    show "\<forall>l\<in>set (l0 # fields (as @ (n, v) # bs)). CR \<notin> set l"
      unfolding that(1) [symmetric] using assms base64_chars
      by (auto simp: request_fields_def fields_def)
    have colon: "\<forall>(n', v')\<in>set (request_fields host ?k). CHR '':'' \<notin> set n'" by (simp add: request_fields_def)
    then show "\<forall>(n', v')\<in>set (as @ (n, v) # bs). CHR '':'' \<notin> set n'" unfolding that(1) .
    with that(1) show "CHR '':'' \<notin> set n" by simp
  qed (use that in auto)
  note R = request_fields_def [of host ?k]
  have b: "\<forall>c\<in>set ?k. \<not> blank c" using base64_chars by blast
  show "header head ''Upgrade'' = ''websocket''"
    using F [of "[(''Host'', host)]" "''Upgrade''" "''websocket''"] unfolding head_def R by (simp add: nocase_length blank_def)
  show "header head ''Connection'' = ''Upgrade''"
    using F [of "take 2 (request_fields host ?k)" "''Connection''" "''Upgrade''"] unfolding head_def R
    by (simp add: nocase_length blank_def)
  show "header head ''Sec-WebSocket-Key'' = ?k"
    using F [of "take 3 (request_fields host ?k)" "''Sec-WebSocket-Key''" ?k] b unfolding head_def R
    by (simp add: nocase_length)
  show "header head ''Sec-WebSocket-Version'' = ''13''"
    using F [of "take 4 (request_fields host ?k)" "''Sec-WebSocket-Version''" "''13''"] unfolding head_def R
    by (simp add: nocase_length blank_def)
  show "header head ''Sec-WebSocket-Protocol'' = ''sip''"
    using F [of "take 5 (request_fields host ?k)" "''Sec-WebSocket-Protocol''" "''sip''"] unfolding head_def R
    by (simp add: nocase_length blank_def)
qed

definition answer_fields :: "string \<Rightarrow> (string \<times> string) list" where
  "answer_fields k = [(''Upgrade'', ''websocket''), (''Connection'', ''Upgrade''), (''Sec-WebSocket-Accept'', k),
      (''Sec-WebSocket-Protocol'', ''sip'')]"

lemma answer_headers:
  fixes d :: string
  assumes "CR \<notin> set l0"
  defines "head \<equiv> lines (l0 # fields (answer_fields (base64 d)))"
  shows "header head ''Upgrade'' = ''websocket''" "header head ''Connection'' = ''Upgrade''"
    "header head ''Sec-WebSocket-Accept'' = base64 d" "header head ''Sec-WebSocket-Protocol'' = ''sip''"
proof -
  let ?k = "base64 d"
  have F: "header (lines (l0 # fields (as @ (n, v) # bs))) n = v"
    if "answer_fields ?k = as @ (n, v) # bs" "\<forall>c\<in>set v. \<not> blank c"
      "\<forall>(n', v')\<in>set (as @ bs). \<not> eq_nocase n' n" for as n v bs
  proof (rule header_field)
    show "\<forall>l\<in>set (l0 # fields (as @ (n, v) # bs)). CR \<notin> set l"
      unfolding that(1) [symmetric] using assms base64_chars
      by (auto simp: answer_fields_def fields_def)
    have colon: "\<forall>(n', v')\<in>set (answer_fields ?k). CHR '':'' \<notin> set n'" by (simp add: answer_fields_def)
    then show "\<forall>(n', v')\<in>set (as @ (n, v) # bs). CHR '':'' \<notin> set n'" unfolding that(1) .
    with that(1) show "CHR '':'' \<notin> set n" by simp
  qed (use that in auto)
  note R = answer_fields_def [of ?k]
  have b: "\<forall>c\<in>set ?k. \<not> blank c" using base64_chars by blast
  show "header head ''Upgrade'' = ''websocket''"
    using F [of "[]" "''Upgrade''" "''websocket''"] unfolding head_def R by (simp add: nocase_length blank_def)
  show "header head ''Connection'' = ''Upgrade''"
    using F [of "take 1 (answer_fields ?k)" "''Connection''" "''Upgrade''"] unfolding head_def R
    by (simp add: nocase_length blank_def)
  show "header head ''Sec-WebSocket-Accept'' = ?k"
    using F [of "take 2 (answer_fields ?k)" "''Sec-WebSocket-Accept''" ?k] b unfolding head_def R
    by (simp add: nocase_length)
  show "header head ''Sec-WebSocket-Protocol'' = ''sip''"
    using F [of "take 3 (answer_fields ?k)" "''Sec-WebSocket-Protocol''" "''sip''"] unfolding head_def R
    by (simp add: nocase_length blank_def)
qed

lemma fields_not_Nil: "l \<in> set (fields fs) \<Longrightarrow> l \<noteq> []"
  by (auto simp: fields_def)

lemma answer_lines:
  "''HTTP/1.1 101 Switching Protocols'' @ CRLF @ ''Upgrade: websocket'' @ CRLF @ ''Connection: Upgrade'' @ CRLF @
     ''Sec-WebSocket-Accept: '' @ k @ CRLF @ ''Sec-WebSocket-Protocol: sip'' @ CRLF @ CRLF =
   lines (''HTTP/1.1 101 Switching Protocols'' # fields (answer_fields k)) @ CRLF"
  by (simp add: answer_fields_def fields_def)

text \<open>The server's side of the handshake.\<close>

lemma server_opens:
  fixes c :: websocket
  assumes "server ws" "\<not> closed ws" "\<not> ws_open ws" "pos ws = length (inp ws)"
    and "length nonce = 16" "CR \<notin> set host" "CR \<notin> set path"
  defines "req \<equiv> fst (ws_request nonce host path c)"
  shows "ws_next sha1 rnd pl (feed req ws) =
    (OPENED, pl, lines (''HTTP/1.1 101 Switching Protocols'' # fields (answer_fields (accept_key sha1 (base64 nonce)))) @ CRLF,
     ws\<lparr>inp := req, pos := length req, ws_open := True\<rparr>)"
proof -
  let ?l0 = "''GET '' @ (if path \<noteq> [] \<and> hd path = CHR ''/'' then [] else ''/'') @ path @ '' HTTP/1.1''"
  let ?ls = "fields (request_fields host (base64 nonce))"
  let ?head = "lines (?l0 # ?ls)"
  have req: "req = ?head @ CRLF" unfolding req_def by (rule request_lines)
  have cr: "CR \<notin> set ?l0" using assms(7) by simp
  have ok: "\<forall>l\<in>set (?l0 # ?ls). CR \<notin> set l \<and> l \<noteq> []"
    using cr assms(6) base64_chars fields_not_Nil by (auto simp: request_fields_def fields_def)
  let ?ws = "feed req ws"
  have ws: "?ws = ws\<lparr>inp := req, pos := 0\<rparr>" using assms(2,4) by (simp add: feed_def)
  have d: "drop (pos ?ws) (inp ?ws) = ?head @ CRLF @ []" unfolding ws by (simp add: req)
  note H = request_headers [OF cr assms(6), of nonce]
  have up: "has_token (header ?head ''Upgrade'') ''websocket'' \<and> has_token (header ?head ''Connection'') ''Upgrade''"
    unfolding H by (intro conjI token_alone) (simp_all add: blank_def)
  have t: "has_token (header ?head ''Sec-WebSocket-Version'') ''13''" "has_token (header ?head ''Sec-WebSocket-Protocol'') ''sip''"
    unfolding H by (intro token_alone; simp add: blank_def)+
  have "length (base64 nonce) = 24" using base64_length [of nonce] assms(5) by simp
  then have k: "header ?head ''Sec-WebSocket-Key'' \<noteq> []" unfolding H by auto
  have f: "take 4 ?l0 = ''GET ''" "\<not> length ?l0 < 13" "drop (length ?l0 - 9) ?l0 = '' HTTP/1.1''"
    by auto
  have "handshake sha1 rnd pl ?ws = server_handshake sha1 rnd ?head ?l0 True pl (?ws\<lparr>pos := pos ?ws + length ?head + 2\<rparr>)"
    using handshake_lines [OF ok d, of sha1 rnd pl] up assms(1) ws by simp
  also have "\<dots> = (OPENED, pl, lines (''HTTP/1.1 101 Switching Protocols'' # fields (answer_fields (accept_key sha1 (base64 nonce)))) @ CRLF,
     ?ws\<lparr>pos := pos ?ws + length ?head + 2, ws_open := True\<rparr>)"
    unfolding server_handshake_def Let_def answer_lines [symmetric] using f t k
    by (simp only: H(3) simp_thms if_False)
  finally show ?thesis using assms(2,3) ws req by (simp add: ws_next_def)
qed

lemma client_opens:
  fixes sha1 :: "string \<Rightarrow> string"
  assumes "\<not> server ws" "\<not> closed ws" "\<not> ws_open ws" "pos ws = length (inp ws)"
  defines "ans \<equiv> lines (''HTTP/1.1 101 Switching Protocols'' # fields (answer_fields (accept_key sha1 (ws_key ws)))) @ CRLF"
  shows "ws_next sha1 rnd pl (feed ans ws) = (OPENED, pl, [], ws\<lparr>inp := ans, pos := length ans, ws_open := True\<rparr>)"
proof -
  let ?l0 = "''HTTP/1.1 101 Switching Protocols''"
  let ?k = "accept_key sha1 (ws_key ws)"
  let ?ls = "fields (answer_fields ?k)"
  let ?head = "lines (?l0 # ?ls)"
  have cr: "CR \<notin> set ?l0" by simp
  have k: "?k = base64 (sha1 (ws_key ws @ WS_GUID))" by (simp add: accept_key_def)
  have ok: "\<forall>l\<in>set (?l0 # ?ls). CR \<notin> set l \<and> l \<noteq> []"
    using base64_chars fields_not_Nil unfolding k by (auto simp: answer_fields_def fields_def)
  let ?ws = "feed ans ws"
  have ws: "?ws = ws\<lparr>inp := ans, pos := 0\<rparr>" using assms(2,4) by (simp add: feed_def)
  have d: "drop (pos ?ws) (inp ?ws) = ?head @ CRLF @ []" unfolding ws by (simp add: ans_def)
  note H = answer_headers [OF cr, of "sha1 (ws_key ws @ WS_GUID)", folded k]
  have up: "has_token (header ?head ''Upgrade'') ''websocket'' \<and> has_token (header ?head ''Connection'') ''Upgrade''"
    unfolding H by (intro conjI token_alone) (simp_all add: blank_def)
  have f: "take 12 ?l0 = ''HTTP/1.1 101''" "\<not> (length ?l0 > 12 \<and> ?l0 ! 12 \<noteq> SP)" by simp_all
  have kk: "ws_key (?ws\<lparr>pos := pos ?ws + length ?head + 2\<rparr>) = ws_key ws" unfolding ws by simp
  have sip: "eq_nocase (c_str ''sip'') ''sip''" by simp
  have "handshake sha1 rnd pl ?ws = client_handshake sha1 rnd ?head ?l0 True pl (?ws\<lparr>pos := pos ?ws + length ?head + 2\<rparr>)"
    using handshake_lines [OF ok d, of sha1 rnd pl] up assms(1) ws by simp
  also have "\<dots> = (OPENED, pl, [], ?ws\<lparr>pos := pos ?ws + length ?head + 2, ws_open := True\<rparr>)"
    unfolding client_handshake_def using f by (simp only: H kk sip simp_thms if_False)
  finally show ?thesis using assms(2,3) ws by (simp add: ws_next_def ans_def)
qed

text \<open>
  C18: a client and a server of this program open a connection. For every hash function, nonce, host
  and path (without carriage returns), the server takes the client's request and answers, the client
  takes that answer, and both are then open, between messages and with nothing left to parse.
\<close>

theorem handshake_opens:
  assumes "length nonce = 16" "CR \<notin> set host" "CR \<notin> set path" "m1 < 2 ^ 63" "m2 < 2 ^ 63"
  shows "\<exists>req client answer server' client'.
    ws_request nonce host path (new_WebSocket False m1) = (req, client) \<and>
    ws_next sha1 rnd [] (feed req (new_WebSocket True m2)) = (OPENED, [], answer, server') \<and>
    ws_next sha1 rnd [] (feed answer client) = (OPENED, [], [], client') \<and>
    idle server' \<and> server server' \<and> max_message server' = m2 \<and>
    idle client' \<and> \<not> server client' \<and> max_message client' = m1"
proof -
  let ?c0 = "new_WebSocket False m1"
  obtain req client where r: "ws_request nonce host path ?c0 = (req, client)" by (cases "ws_request nonce host path ?c0")
  then have c: "client = ?c0\<lparr>ws_key := base64 nonce\<rparr>" and req: "req = fst (ws_request nonce host path ?c0)"
    by (auto simp: ws_request_def Let_def)
  let ?s0 = "new_WebSocket True m2"
  let ?ans = "lines (''HTTP/1.1 101 Switching Protocols'' # fields (answer_fields (accept_key sha1 (base64 nonce)))) @ CRLF"
  have s: "ws_next sha1 rnd [] (feed req ?s0) = (OPENED, [], ?ans, ?s0\<lparr>inp := req, pos := length req, ws_open := True\<rparr>)"
    unfolding req by (rule server_opens) (use assms in \<open>auto simp: new_WebSocket_def\<close>)
  have "ws_key client = base64 nonce" using c by simp
  then have cl: "ws_next sha1 rnd [] (feed ?ans client) = (OPENED, [], [], client\<lparr>inp := ?ans, pos := length ?ans, ws_open := True\<rparr>)"
    using client_opens [of client sha1 rnd "[]"] c by (simp add: new_WebSocket_def)
  show ?thesis
    by (rule exI [of _ req], rule exI [of _ client], rule exI [of _ ?ans], rule exI, rule exI, intro conjI, rule r, rule s, rule cl)
      (use assms(4,5) c in \<open>auto simp: idle_def ws_inv_def new_WebSocket_def ws_sized_def\<close>)
qed

theorem handshake_opens_witness:
  "\<exists>req client answer server' client'.
    ws_request (replicate 16 CHR ''n'') ''example.com:5060'' ''/sip'' (new_WebSocket False 65535) = (req, client) \<and>
    ws_next (\<lambda>s. take 20 s) ''mask'' [] (feed req (new_WebSocket True 65535)) = (OPENED, [], answer, server') \<and>
    ws_next (\<lambda>s. take 20 s) ''mask'' [] (feed answer client) = (OPENED, [], [], client')"
  using handshake_opens [of "replicate 16 CHR ''n''" "''example.com:5060''" "''/sip''" 65535 65535 "\<lambda>s. take 20 s" "''mask''"]
  by fastforce

text \<open>
  C19: delivery. Messages that a peer frames (text or binary, masked by a client, with any random
  masks), each within the receiver's limit, come out of an idle connection as the same messages in
  the same order, with no reply and no other event, however the bytes are cut into reads.
\<close>

theorem websocket_delivers:
  assumes "idle ws" and "server peer \<noteq> server ws"
    and "\<forall>(mk, m)\<in>set ms. length mk = 4 \<and> length m \<le> max_message ws"
    and "c @ concat cs = concat (map (\<lambda>(mk, m). ws_frame peer mk m) ms)"
  shows "fst (ws_reads sha1 rnd i (c # cs) ws) = map (\<lambda>(mk, m). (MESSAGE, m, [])) ms"
proof -
  let ?ws = "feed (c @ concat cs) ws"
  have inv: "ws_inv ws" "ws_open ws" "\<not> closed ws" "fragmented ws = None" "pos ws = length (inp ws)"
    using assms(1) by (auto simp: idle_def)
  then have ws: "?ws = ws\<lparr>inp := c @ concat cs, pos := 0\<rparr>" by (simp add: feed_def)
  have "\<exists>ws'. ws_events sha1 rnd i ?ws = (map (\<lambda>(mk, m). (MESSAGE, m, [])) ms, ws') \<and> idle ws' \<and>
      server ws' = server ?ws \<and> max_message ws' = max_message ?ws"
    using ws_inv_feed [OF inv(1), of "c @ concat cs"] inv assms(2-4) unfolding ws by (intro events_frames [where peer = peer]) auto
  then show ?thesis using ws_reads_concat [OF inv(1,2), of sha1 rnd i c cs] by auto
qed

theorem websocket_delivers_witness:
  "fst (ws_reads (\<lambda>s. s) (\<lambda>_. ''mask'') 0
     [take 3 (ws_frame (new_WebSocket False 65535) ''abcd'' ''OPTIONS''), drop 3 (ws_frame (new_WebSocket False 65535) ''abcd'' ''OPTIONS'')]
     ((new_WebSocket True 65535)\<lparr>ws_open := True\<rparr>)) = [(MESSAGE, ''OPTIONS'', [])]"
  using websocket_delivers [of "(new_WebSocket True 65535)\<lparr>ws_open := True\<rparr>" "new_WebSocket False 65535" "[(''abcd'', ''OPTIONS'')]"
      "take 3 (ws_frame (new_WebSocket False 65535) ''abcd'' ''OPTIONS'')"
      "[drop 3 (ws_frame (new_WebSocket False 65535) ''abcd'' ''OPTIONS'')]" "\<lambda>s. s" "\<lambda>_. ''mask''" 0]
  by (simp add: idle_def ws_inv_def new_WebSocket_def ws_sized_def)

text \<open>
  C20: the events of an open connection (messages, replies to pings, a close, a protocol error) depend
  on the bytes of the stream only, not on how they are cut into reads.
\<close>

theorem reads_independent_of_cuts:
  assumes "ws_inv ws" "ws_open ws" and "c @ concat cs = d @ concat ds"
  shows "fst (ws_reads sha1 rnd i (c # cs) ws) = fst (ws_reads sha1 rnd i (d # ds) ws) \<and>
    status (snd (ws_reads sha1 rnd i (c # cs) ws)) = status (snd (ws_reads sha1 rnd i (d # ds) ws))"
  using ws_reads_concat [OF assms(1,2), of sha1 rnd i c cs] ws_reads_concat [OF assms(1,2), of sha1 rnd i d ds] assms(3)
  by simp

theorem reads_independent_of_cuts_witness:
  "fst (ws_reads (\<lambda>s. s) (\<lambda>_. ''mask'') 0 [''ab'', ''cd''] ((new_WebSocket True 65535)\<lparr>ws_open := True\<rparr>)) =
   fst (ws_reads (\<lambda>s. s) (\<lambda>_. ''mask'') 0 [''abc'', ''d''] ((new_WebSocket True 65535)\<lparr>ws_open := True\<rparr>))"
  by (rule reads_independent_of_cuts [THEN conjunct1]) (simp_all add: ws_inv_def new_WebSocket_def ws_sized_def)

section \<open>Limits and the end of a connection\<close>

fun handshake_outcome :: "nat \<Rightarrow> ws_result \<Rightarrow> bool" where
  "handshake_outcome mx (ev, pl, rep, ws) \<longleftrightarrow> ws_inv ws \<and> max_message ws = mx \<and>
     (if ev = NEED_MORE then \<not> closed ws else ev \<noteq> MESSAGE \<and> (ev = FAILED \<or> ev = CLOSED \<longleftrightarrow> closed ws))"

lemma fail_outcome: "ws_inv ws \<Longrightarrow> handshake_outcome (max_message ws) (ws_fail rnd code why pl ws)"
  by (simp add: ws_fail_def ws_inv_def)

lemma handshake_ok:
  assumes inv: "ws_inv ws" and "\<not> closed ws"
  shows "handshake_outcome (max_message ws) (handshake sha1 rnd pl ws)"
proof (cases "find_sub (CRLF @ CRLF) (drop (pos ws) (inp ws))")
  case None
  show ?thesis unfolding handshake_def Let_def None option.case
    using fail_outcome [OF inv] assms by simp
next
  case (Some n)
  let ?v = "ws\<lparr>pos := pos ws + n + 4\<rparr>"
  have "n + 4 \<le> length (drop (pos ws) (inp ws))" using find_sub_le [OF Some] by simp
  then have v: "ws_inv ?v" using inv by (auto simp: ws_inv_def)
  have F: "handshake_outcome (max_message ws) (ws_fail rnd code why pl ?v)" for code why
    using fail_outcome [OF v, of rnd code why pl] by simp
  have O: "handshake_outcome (max_message ws) (OPENED, pl, rep, ?v\<lparr>ws_open := True\<rparr>)" for rep
    using v assms(2) by (simp add: ws_inv_def)
  have "handshake_outcome (max_message ws) (server_handshake sha1 rnd hd1 l1 up pl ?v)"
    "handshake_outcome (max_message ws) (client_handshake sha1 rnd hd1 l1 up pl ?v)" for hd1 l1 up
    unfolding server_handshake_def client_handshake_def Let_def using F O
    by (simp_all only: if_split simp_thms)
  then show ?thesis unfolding handshake_def Let_def Some option.case by (simp only: if_split simp_thms)
qed

lemma ws_next_ok:
  assumes inv: "ws_inv ws" and N: "ws_next sha1 rnd [] ws = (ev, pl, rep, ws')"
  shows "ws_inv ws' \<and> max_message ws' = max_message ws \<and>
    (if ev = NEED_MORE then closed ws' = closed ws
     else (ev = MESSAGE \<longrightarrow> length pl \<le> max_message ws) \<and> (ev = FAILED \<or> ev = CLOSED \<longleftrightarrow> closed ws'))"
proof (cases "closed ws")
  case True
  with N inv show ?thesis by (auto simp: ws_next_def)
next
  case False
  show ?thesis
  proof (cases "ws_open ws")
    case True
    with N False have "frame_loop rnd [] ws = (ev, pl, rep, ws')" by (simp add: ws_next_def)
    from frame_loop_ok [OF inv False this] False show ?thesis by (auto split: if_splits)
  next
    case hs: False
    with N False have "handshake sha1 rnd [] ws = (ev, pl, rep, ws')" by (simp add: ws_next_def)
    with handshake_ok [OF inv False, of sha1 rnd "[]"] False show ?thesis by (auto split: if_splits)
  qed
qed

definition closing :: "ws_report \<Rightarrow> bool" where
  "closing e \<longleftrightarrow> fst e = FAILED \<or> fst e = CLOSED"

text \<open>Events of a connection that is closed at the start iff \<open>c0\<close>, and at the end iff \<open>c1\<close>.\<close>

definition events_safe :: "nat \<Rightarrow> bool \<Rightarrow> ws_report list \<Rightarrow> bool \<Rightarrow> bool" where
  "events_safe mx c0 es c1 \<longleftrightarrow>
     (\<forall>(ev, pl, rep)\<in>set es. ev = MESSAGE \<longrightarrow> length pl \<le> mx) \<and>
     (c0 \<longrightarrow> es = [] \<and> c1) \<and>
     (if c1 \<and> \<not> c0 then \<exists>es0 e. es = es0 @ [e] \<and> closing e \<and> (\<forall>e\<in>set es0. \<not> closing e)
      else \<forall>e\<in>set es. \<not> closing e)"

lemma events_safe_append:
  assumes "events_safe mx c0 es c1" and "events_safe mx c1 es' c2"
  shows "events_safe mx c0 (es @ es') c2"
  using assms unfolding events_safe_def
  by (cases c0; cases c1; cases c2; simp) (auto 0 3 intro: exI [of _ "es @ _"])

lemma ws_events_safe:
  assumes "ws_inv ws" and "ws_events sha1 rnd i ws = (es, ws')"
  shows "ws_inv ws' \<and> max_message ws' = max_message ws \<and> events_safe (max_message ws) (closed ws) es (closed ws')"
  using assms
proof (induction sha1 rnd i ws arbitrary: es ws' rule: ws_events.induct)
  case (1 sha1 rnd i ws)
  obtain ev pl rep w where N: "ws_next sha1 (rnd i) [] ws = (ev, pl, rep, w)"
    by (cases "ws_next sha1 (rnd i) [] ws" rule: prod_cases4)
  note C = ws_next_ok [OF 1(2) N]
  show ?case
  proof (cases "ev = NEED_MORE")
    case True
    then have "es = []" "ws' = w" using 1(3) N by (auto simp: ws_events.simps [of sha1 rnd i ws])
    with C True show ?thesis by (auto simp: events_safe_def)
  next
    case False
    obtain es0 where E: "ws_events sha1 rnd (Suc i) w = (es0, ws')" "es = report ev pl rep # es0"
      using 1(3) N False by (auto simp: ws_events.simps [of sha1 rnd i ws] split: prod.splits)
    have "ws_inv w" using C by auto
    note IH = 1(1) [OF N [symmetric] refl refl False this E(1)]
    have "\<not> closed ws" using N False by (auto simp: ws_next_def)
    then have "events_safe (max_message ws) (closed ws) [report ev pl rep] (closed w)"
      using C False by (auto simp: events_safe_def report_def closing_def)
    from events_safe_append [OF this] IH C E(2) show ?thesis by auto
  qed
qed

lemma ws_reads_safe:
  assumes "ws_inv ws"
  shows "events_safe (max_message ws) (closed ws) (fst (ws_reads sha1 rnd i cs ws)) (closed (snd (ws_reads sha1 rnd i cs ws)))"
  using assms
proof (induction cs arbitrary: i ws)
  case Nil
  then show ?case by (simp add: events_safe_def)
next
  case (Cons c cs)
  obtain es w where E: "ws_events sha1 rnd i (feed c ws) = (es, w)" by (cases "ws_events sha1 rnd i (feed c ws)")
  have f: "max_message (feed c ws) = max_message ws" "closed (feed c ws) = closed ws" by (simp_all add: feed_def)
  note S = ws_events_safe [OF ws_inv_feed [OF Cons.prems] E, unfolded f]
  from events_safe_append [OF _ Cons.IH [of w "i + length es"]] S E show ?case
    by (auto split: prod.splits)
qed

text \<open>
  C21: whatever bytes a peer sends, from the handshake on and in whatever reads: no message longer
  than the limit comes out, a connection ends with exactly one close or protocol error, which is its
  last event, and no other event is one.
\<close>

theorem connection_safe:
  assumes "mx < 2 ^ 63"
  shows "events_safe mx False (fst (ws_reads sha1 rnd i cs (new_WebSocket srv mx)))
    (closed (snd (ws_reads sha1 rnd i cs (new_WebSocket srv mx))))"
proof -
  have f: "max_message (new_WebSocket srv mx) = mx" "closed (new_WebSocket srv mx) = False"
    by (simp_all add: new_WebSocket_def)
  show ?thesis using ws_reads_safe [OF ws_inv_new [OF assms, of srv]] unfolding f .
qed

theorem connection_safe_witness:
  "events_safe 100 False (fst (ws_reads (\<lambda>s. s) (\<lambda>_. ''mask'') 0 [''GET /'', CRLF @ CRLF, ''more''] (new_WebSocket True 100)))
    (closed (snd (ws_reads (\<lambda>s. s) (\<lambda>_. ''mask'') 0 [''GET /'', CRLF @ CRLF, ''more''] (new_WebSocket True 100))))"
  by (rule connection_safe) simp

end
