(* ===== verification/Sip_Parser.thy ===== *)
theory Sip_Parser
  imports C_Strings
begin

text \<open>
  The SIP parser of \<^verbatim>\<open>sip_parser.cpp\<close>. A message is the C string \<open>m\<close>; a pointer into it is an index,
  and \<open>at m i\<close> the byte there, the terminating NUL at the end. The one loop of the parser that does
  not stop at the NUL, over the name of a header, is \<open>Inl Undefined\<close> when it leaves the message. A
  \<^verbatim>\<open>header_value\<close> is its text, in the message or of its own. Warnings are left out.
\<close>

definition MAX_HEADER_LEN :: nat where "MAX_HEADER_LEN = 2049"

definition at :: "string \<Rightarrow> nat \<Rightarrow> char" where
  "at m i = (if i < length m then m ! i else NUL)"

definition sub :: "string \<Rightarrow> nat \<Rightarrow> nat \<Rightarrow> string" where
  "sub m i j = take (j - i) (drop i m)"

text \<open>\<^verbatim>\<open>strchr(m + i, c)\<close>\<close>

function chr_from :: "char \<Rightarrow> string \<Rightarrow> nat \<Rightarrow> nat option" where
  "chr_from c m i = (if i < length m then if m ! i = c then Some i else chr_from c m (i + 1) else None)"
  by pat_completeness auto
termination by (relation "measure (\<lambda>(c, m, i). length m - i)") auto

declare chr_from.simps [simp del]

text \<open>\<^verbatim>\<open>strncasecmp(m + i, name, strlen(name)) == 0\<close>\<close>

definition starts_nocase :: "string \<Rightarrow> nat \<Rightarrow> string \<Rightarrow> bool" where
  "starts_nocase m i name \<longleftrightarrow> eq_nocase (take (length name) (drop i m)) name"

section \<open>Headers by name\<close>

record header_name =
  hname :: string
  hcompact :: "string option"
  hfirst :: int
  hsecond :: int
  hcompact_first :: int

definition compact_names :: "(string \<times> string) list" where
  "compact_names =
     [(''call-id:'', ''i:''), (''contact:'', ''m:''), (''content-encoding:'', ''e:''), (''content-length:'', ''l:''),
      (''content-type:'', ''c:''), (''from:'', ''f:''), (''to:'', ''t:''), (''via:'', ''v:'')]"

definition internal_compact_header_name :: "string \<Rightarrow> string option" where
  "internal_compact_header_name name =
     map_option snd (find (\<lambda>(n, c). length n = length name \<and> at n 0 = tolower (at name 0) \<and> eq_nocase name n) compact_names)"

definition internal_header_name :: "string \<Rightarrow> header_name" where
  "internal_header_name name =
     (let compact = internal_compact_header_name name
      in \<lparr>hname = name, hcompact = compact,
          hfirst = int (byte (tolower (at name 0))),
          hsecond = (if length name > 1 then int (byte (tolower (name ! 1))) else -1),
          hcompact_first = (case compact of Some c \<Rightarrow> int (byte (tolower (at c 0))) | None \<Rightarrow> -1)\<rparr>)"

text \<open>The test of a line, at the newline before it.\<close>

definition header_here :: "string \<Rightarrow> header_name \<Rightarrow> nat \<Rightarrow> bool" where
  "header_here m h line =
     (let c = int (byte (tolower (at m (line + 1))))
      in c = hfirst h \<and> (hsecond h < 0 \<or> int (byte (tolower (at m (line + 2)))) = hsecond h) \<and>
           starts_nocase m (line + 1) (hname h) \<or>
         (case hcompact h of None \<Rightarrow> False | Some k \<Rightarrow> c = hcompact_first h \<and> at m (line + 2) = at k 1))"

lemma chr_from_Some: "chr_from c m i = Some j \<Longrightarrow> i \<le> j \<and> j < length m \<and> m ! j = c"
proof (induction c m i rule: chr_from.induct)
  case (1 c m i)
  then show ?case by (subst (asm) (2) chr_from.simps) (fastforce split: if_splits)
qed

function internal_match_header :: "string \<Rightarrow> nat \<Rightarrow> header_name \<Rightarrow> nat option" where
  "internal_match_header m i h =
     (case chr_from LF m i of
        None \<Rightarrow> None
      | Some line \<Rightarrow>
          if at m (line + 1) = CR \<and> at m (line + 2) = LF \<and> line \<noteq> 0 \<and> at m (line - 1) = CR then None
          else if header_here m h line then Some line
          else internal_match_header m (line + 1) h)"
  by pat_completeness auto
termination
  by (relation "measure (\<lambda>(m, i, h). length m - i)") (auto dest!: chr_from_Some)

declare internal_match_header.simps [simp del]

text \<open>\<^verbatim>\<open>internal_header_value\<close>: where the value of a header starts and ends.\<close>

function skip_name :: "string \<Rightarrow> nat \<Rightarrow> nat res" where
  "skip_name m i = (if i < length m then if m ! i = CHR '':'' then Inr (i + 1) else skip_name m (i + 1) else Inl Undefined)"
  by pat_completeness auto
termination by (relation "measure (\<lambda>(m, i). length m - i)") auto

declare skip_name.simps [simp del]

function skip_spaces :: "string \<Rightarrow> nat \<Rightarrow> nat" where
  "skip_spaces m i = (if i < length m \<and> m ! i = SP then skip_spaces m (i + 1) else i)"
  by pat_completeness auto
termination by (relation "measure (\<lambda>(m, i). length m - i)") auto

declare skip_spaces.simps [simp del]

function last_eol :: "string \<Rightarrow> nat \<Rightarrow> nat option" where
  "last_eol m i =
     (case chr_from LF m i of
        None \<Rightarrow> None
      | Some eol \<Rightarrow> if at m (eol + 1) = SP \<or> at m (eol + 1) = TAB then last_eol m (eol + 1) else Some eol)"
  by pat_completeness auto
termination by (relation "measure (\<lambda>(m, i). length m - i)") (auto dest!: chr_from_Some)

declare last_eol.simps [simp del]

definition internal_header_value :: "string \<Rightarrow> nat \<Rightarrow> (nat \<times> nat) res" where
  "internal_header_value m line =
     bindE (skip_name m line) (\<lambda>i.
       let src = skip_spaces m i
       in Inr (src,
          case last_eol m src of
            None \<Rightarrow> length m
          | Some eol \<Rightarrow> if at m (eol - 1) = CR \<and> at m (eol + 1) = CR \<and> at m (eol + 2) = LF then eol - 1 else eol))"

definition HEADER_ROOM :: nat where "HEADER_ROOM = MAX_HEADER_LEN * 10 - 1"

text \<open>\<^verbatim>\<open>internal_append\<close>: whether it fits, the text and the flag \<^verbatim>\<open>cut\<close>.\<close>

definition internal_append :: "string \<Rightarrow> string \<Rightarrow> bool \<Rightarrow> bool \<times> string \<times> bool" where
  "internal_append dest src ct =
     (let room = HEADER_ROOM - length dest
      in if length src > room then
           (if dest = [] then (False, take room src, True) else (False, dest, ct))
         else (True, dest @ src, ct))"

definition rstrip :: "(char \<Rightarrow> bool) \<Rightarrow> string \<Rightarrow> string" where
  "rstrip p s = rev (dropWhile p (rev s))"

definition is_ws :: "char \<Rightarrow> bool" where "is_ws c \<longleftrightarrow> c = SP \<or> c = CR \<or> c = TAB"

text \<open>Trailing characters go while more than one is left.\<close>

definition rstrip1 :: "(char \<Rightarrow> bool) \<Rightarrow> string \<Rightarrow> string" where
  "rstrip1 p s = (case s of [] \<Rightarrow> [] | c # t \<Rightarrow> c # rstrip p t)"

fun undouble :: "char \<Rightarrow> string \<Rightarrow> string" where
  "undouble c (x # y # s) = (if x = c \<and> y = c then undouble c (y # s) else x # undouble c (y # s))"
| "undouble c s = s"

lemma skip_name_ge: "skip_name m i = Inr j \<Longrightarrow> i < j \<and> j \<le> length m \<and> m ! (j - 1) = CHR '':''"
proof (induction m i rule: skip_name.induct)
  case (1 m i)
  then show ?case by (subst (asm) (2) skip_name.simps) (fastforce split: if_splits)
qed

lemma skip_spaces_ge: "i \<le> skip_spaces m i"
proof (induction m i rule: skip_spaces.induct)
  case (1 m i)
  then show ?case by (subst skip_spaces.simps) auto
qed

lemma internal_header_value_gt: "internal_header_value m line = Inr (src, e) \<Longrightarrow> line < src"
  using skip_spaces_ge by (auto simp: internal_header_value_def Let_def dest!: skip_name_ge) (meson order.strict_trans1 less_le_trans)

lemma internal_match_header_ge: "internal_match_header m i h = Some line \<Longrightarrow>
    i \<le> line \<and> line < length m \<and> m ! line = LF \<and> header_here m h line"
proof (induction m i h rule: internal_match_header.induct)
  case (1 m i h)
  then show ?case
    by (subst (asm) (2) internal_match_header.simps)
      (force split: option.splits if_splits dest!: chr_from_Some)
qed

text \<open>One header of the join: the separator, then the value.\<close>

definition join_separator :: "string \<Rightarrow> bool \<Rightarrow> bool \<times> string \<times> bool" where
  "join_separator dest ct =
     (if dest = [] then (True, dest, ct)
      else let d = rstrip (\<lambda>c. is_ws c \<or> c = LF) dest
           in internal_append d (if d \<noteq> [] \<and> last d = CHR '':'' then '' '' else '', '') ct)"

definition join_left :: "string \<Rightarrow> nat option \<Rightarrow> nat" where
  "join_left m lineo = (case lineo of None \<Rightarrow> 0 | Some line \<Rightarrow> Suc (length m) - line)"

lemma join_left_next:
  assumes "internal_header_value m line = Inr (src, e)"
  shows "join_left m (internal_match_header m (Suc src) h) < join_left m (Some line)"
    and "join_left m (internal_match_header m src h) < join_left m (Some line)"
proof -
  have l: "line < src" by (rule internal_header_value_gt [OF assms])
  obtain j where "skip_name m line = Inr j" using assms by (auto simp: internal_header_value_def)
  then have n: "line < length m" using skip_name_ge by fastforce
  show "join_left m (internal_match_header m (Suc src) h) < join_left m (Some line)"
    using l n by (cases "internal_match_header m (Suc src) h") (auto simp: join_left_def dest!: internal_match_header_ge)
  show "join_left m (internal_match_header m src h) < join_left m (Some line)"
    using l n by (cases "internal_match_header m src h") (auto simp: join_left_def dest!: internal_match_header_ge)
qed

function join_loop :: "string \<Rightarrow> header_name \<Rightarrow> nat option \<Rightarrow> string \<Rightarrow> bool \<Rightarrow> (string \<times> bool) res" where
  "join_loop m h lineo dest ct =
     (case lineo of
        None \<Rightarrow> Inr (dest, ct)
      | Some line \<Rightarrow>
          (case internal_header_value m line of
             Inl e \<Rightarrow> Inl e
           | Inr (src, value_end) \<Rightarrow>
               (case join_separator dest ct of (ok, d, ct1) \<Rightarrow>
                  if \<not> ok then Inr (d, ct1)
                  else case internal_append d (sub m src value_end) ct1 of (ok2, d2, ct2) \<Rightarrow>
                    if \<not> ok2 then Inr (d2, ct2)
                    else join_loop m h (internal_match_header m (if at m src \<noteq> NUL then src + 1 else src) h) d2 ct2)))"
  by pat_completeness auto
termination
  by (relation "measure (\<lambda>(m, h, lineo, dest, ct). join_left m lineo)") (auto simp: join_left_next)

declare join_loop.simps [simp del]

definition internal_join_headers :: "string \<Rightarrow> nat \<Rightarrow> header_name \<Rightarrow> bool \<Rightarrow> string res" where
  "internal_join_headers m line h content =
     (case (if content then (True, [], False) else internal_append [] (hname h) False) of (ok, d0, ct0) \<Rightarrow>
        bindE (join_loop m h (if ok then Some line else None) d0 ct0) (\<lambda>(dest, ct).
          Inr (if dest = [] \<or> ct then dest
               else undouble LF (undouble CR (dropWhile (\<lambda>c. c = SP) (rstrip1 is_ws dest))))))"

text \<open>
  \<^verbatim>\<open>get_header\<close>: a header that is alone and in the message as it is returned is read where it is.
\<close>

function strip_end :: "string \<Rightarrow> nat \<Rightarrow> nat \<Rightarrow> nat" where
  "strip_end m min_end e = (if e > min_end \<and> is_ws (at m (e - 1)) then strip_end m min_end (e - 1) else e)"
  by pat_completeness auto
termination by (relation "measure (\<lambda>(m, min_end, e). e)") auto

declare strip_end.simps [simp del]

definition in_place :: "string \<Rightarrow> string \<Rightarrow> bool \<Rightarrow> nat \<Rightarrow> nat \<Rightarrow> nat \<Rightarrow> string option" where
  "in_place m name content line val e =
     (let text = (if content then val else line + 1);
          min_end = (if content then val + 1 else text + length name)
      in if \<not> content \<and> (last name \<noteq> CHR '':'' \<or> CHR '':'' \<in> set (butlast name) \<or> name ! 0 = SP \<or>
              at m (text + 1) = CHR '':'' \<and> length name > 2 \<or> sub m text (text + length name) \<noteq> name)
         then None
         else
           let joined_size = (if content then 0 else length name + 1) + (e - val);
               e' = strip_end m min_end e;
               found = sub m text e'
           in if \<not> content \<and> e' > min_end \<and> (val \<noteq> min_end + 1 \<or> at m min_end \<noteq> SP) \<or>
                 joined_size > HEADER_ROOM \<or>
                 CR \<in> set found \<and> find_sub [CR, CR] found \<noteq> None
              then None else Some found)"

definition get_header :: "string \<Rightarrow> string \<Rightarrow> bool \<Rightarrow> string res" where
  "get_header m name content =
     (if m = [] then Inr []
      else if name = [] \<or> last name \<noteq> CHR '':'' \<and> CHR '':'' \<notin> set name then Inr []
      else
        let h = internal_header_name name
        in case internal_match_header m 0 h of
             None \<Rightarrow> Inr []
           | Some line \<Rightarrow>
               bindE (internal_header_value m line) (\<lambda>(val, e).
                 if internal_match_header m (if at m val \<noteq> NUL then val + 1 else val) h \<noteq> None
                 then internal_join_headers m line h content
                 else if content \<and> e = val then Inr []
                 else case in_place m name content line val e of
                        None \<Rightarrow> internal_join_headers m line h content
                      | Some found \<Rightarrow> Inr found))"

definition get_header_content :: "string \<Rightarrow> string \<Rightarrow> string res" where
  "get_header_content m name = get_header m name True"

section \<open>Numbers\<close>

text \<open>
  \<^verbatim>\<open>header_number\<close>. \<^verbatim>\<open>std::from_chars\<close> takes a minus sign and digits: the value, whether it is in range,
  or nothing when there is no digit.
\<close>

definition from_chars :: "string \<Rightarrow> int option" where
  "from_chars s =
     (let neg = (s \<noteq> [] \<and> hd s = CHR ''-'');
          ds = takeWhile isdigit (if neg then tl s else s)
      in if ds = [] then None else Some (if neg then - int (decimal ds) else int (decimal ds)))"

definition header_number :: "string \<Rightarrow> int" where
  "header_number v =
     (let p = dropWhile isspace v;
          q = (if length p > 1 \<and> hd p = CHR ''+'' \<and> p ! 1 \<noteq> CHR ''-'' then tl p else p)
      in case from_chars q of
           None \<Rightarrow> 0
         | Some n \<Rightarrow> if - LONG_MAX - 1 \<le> n \<and> n \<le> LONG_MAX then n
                     else if hd q = CHR ''-'' then - LONG_MAX - 1 else LONG_MAX)"

section \<open>The other readers\<close>

definition is_blank :: "char \<Rightarrow> bool" where "is_blank c \<longleftrightarrow> c = SP \<or> c = TAB"

function skip_blanks :: "string \<Rightarrow> nat \<Rightarrow> nat" where
  "skip_blanks m i = (if i < length m \<and> is_blank (m ! i) then skip_blanks m (i + 1) else i)"
  by pat_completeness auto
termination by (relation "measure (\<lambda>(m, i). length m - i)") auto

declare skip_blanks.simps [simp del]

lemma skip_blanks_ge: "i \<le> skip_blanks m i"
proof (induction m i rule: skip_blanks.induct)
  case (1 m i)
  then show ?case by (subst skip_blanks.simps) auto
qed

lemma at_not_NUL: "at m i = c \<Longrightarrow> c \<noteq> NUL \<Longrightarrow> i < length m"
  by (auto simp: at_def split: if_splits)

function internal_skip_lws :: "string \<Rightarrow> nat \<Rightarrow> nat option" where
  "internal_skip_lws m i =
     (let j = skip_blanks m i
      in if at m j = CR \<and> at m (j + 1) = LF
         then (if is_blank (at m (j + 2)) then internal_skip_lws m (j + 3) else None)
         else Some j)"
  by pat_completeness auto
termination
proof (relation "measure (\<lambda>(m, i). length m - i)")
  fix m i and j :: nat
  assume j: "j = skip_blanks m i" "at m j = CR \<and> at m (j + 1) = LF"
  then have "j < length m" using at_not_NUL [of m j CR] by simp
  then show "((m, j + 3), (m, i)) \<in> measure (\<lambda>(m, i). length m - i)" using skip_blanks_ge [of i m] j(1) by simp
qed simp

declare internal_skip_lws.simps [simp del]

function internal_find_header :: "string \<Rightarrow> string \<Rightarrow> string option \<Rightarrow> bool \<Rightarrow> nat \<Rightarrow> nat option" where
  "internal_find_header m name shortname content ptr =
     (let c = tolower (at m ptr);
          is_long = (c = tolower (at name 0) \<and> starts_nocase m ptr name);
          is_short = (\<not> is_long \<and> (case shortname of None \<Rightarrow> False
             | Some s \<Rightarrow> c = tolower (at s 0) \<and> starts_nocase m ptr s));
          tmp = skip_blanks m (ptr + (if is_short then length (the shortname) else length name))
      in if (is_long \<or> is_short) \<and> at m tmp = CHR '':''
         then (if content then internal_skip_lws m (tmp + 1) else Some ptr)
         else case chr_from LF m ptr of
                None \<Rightarrow> None
              | Some p \<Rightarrow>
                  if p = 0 \<or> at m (p - 1) \<noteq> CR \<or> at m (p + 1) = CR \<and> at m (p + 2) = LF then None
                  else internal_find_header m name shortname content (p + 1))"
  by pat_completeness auto
termination
  by (relation "measure (\<lambda>(m, name, shortname, content, ptr). length m - ptr)") (auto dest!: chr_from_Some)

declare internal_find_header.simps [simp del]

function hdrchr_loop :: "string \<Rightarrow> char \<Rightarrow> nat \<Rightarrow> nat option" where
  "hdrchr_loop m needle i =
     (if i < length m then
        if m ! i = needle then Some i
        else if m ! i = LF \<and> at m (i - 1) = CR \<and> \<not> is_blank (at m (i + 1)) then None
        else hdrchr_loop m needle (i + 1)
      else None)"
  by pat_completeness auto
termination by (relation "measure (\<lambda>(m, needle, i). length m - i)") auto

declare hdrchr_loop.simps [simp del]

definition internal_hdrchr :: "string \<Rightarrow> nat \<Rightarrow> char \<Rightarrow> nat option" where
  "internal_hdrchr m i needle = (if at m i = LF then None else hdrchr_loop m needle i)"

function internal_hdrend :: "string \<Rightarrow> nat \<Rightarrow> nat" where
  "internal_hdrend m p =
     (if p < length m then
        if m ! p = CR \<and> at m (p + 1) = LF \<and> \<not> is_blank (at m (p + 2)) then p
        else internal_hdrend m (p + 1)
      else p)"
  by pat_completeness auto
termination by (relation "measure (\<lambda>(m, p). length m - p)") auto

declare internal_hdrend.simps [simp del]

lemma hdrchr_loop_ge: "hdrchr_loop m c i = Some j \<Longrightarrow> i \<le> j \<and> j < length m \<and> m ! j = c"
proof (induction m c i rule: hdrchr_loop.induct)
  case (1 m c i)
  then show ?case by (subst (asm) (2) hdrchr_loop.simps) (fastforce split: if_splits)
qed

lemma internal_skip_lws_ge: "internal_skip_lws m i = Some j \<Longrightarrow> i \<le> j"
proof (induction m i rule: internal_skip_lws.induct)
  case (1 m i)
  then show ?case using skip_blanks_ge [of i m]
    by (subst (asm) (2) internal_skip_lws.simps) (fastforce simp: Let_def split: if_splits)
qed

function internal_find_param :: "string \<Rightarrow> nat \<Rightarrow> string \<Rightarrow> nat option" where
  "internal_find_param m i name =
     (case internal_hdrchr m i CHR '';'' of
        None \<Rightarrow> None
      | Some j \<Rightarrow>
          (case internal_skip_lws m (j + 1) of
             None \<Rightarrow> None
           | Some p \<Rightarrow>
               if at m p = NUL then None
               else if starts_nocase m p name \<and> at m (p + length name) = CHR ''='' then Some (p + length name + 1)
               else internal_find_param m p name))"
  by pat_completeness auto
termination
proof (relation "measure (\<lambda>(m, i, name). Suc (length m) - i)")
  fix m i and name :: string and j p
  assume a: "internal_hdrchr m i CHR '';'' = Some j" "internal_skip_lws m (j + 1) = Some p"
  then have "i \<le> j" "j < length m" "j + 1 \<le> p"
    using hdrchr_loop_ge [of m "CHR '';''" i j] internal_skip_lws_ge [of m "j + 1" p]
    by (auto simp: internal_hdrchr_def split: if_splits)
  then show "((m, p, name), (m, i, name)) \<in> measure (\<lambda>(m, i, name). Suc (length m) - i)" by simp
qed simp

declare internal_find_param.simps [simp del]

definition get_peer_tag :: "string \<Rightarrow> string option" where
  "get_peer_tag m =
     (case internal_find_header m ''To'' (Some ''t'') True 0 of
        None \<Rightarrow> None
      | Some to_hdr \<Rightarrow>
          (case internal_find_param m (case internal_hdrchr m to_hdr CHR ''>'' of Some p \<Rightarrow> p | None \<Rightarrow> to_hdr) ''tag'' of
             None \<Rightarrow> None
           | Some ptr \<Rightarrow>
               let t = takeWhile (\<lambda>c. c \<notin> {SP, CHR '';'', TAB, CR, LF}) (drop ptr m)
               in Some (take (MAX_HEADER_LEN - 1) t)))"

definition get_first_line :: "string \<Rightarrow> string" where
  "get_first_line m = takeWhile (\<lambda>c. c \<noteq> CR \<and> c \<noteq> LF) m"

definition get_call_id :: "string \<Rightarrow> string" where
  "get_call_id m =
     (case internal_find_header m ''Call-ID'' (Some ''i'') True 0 of
        None \<Rightarrow> []
      | Some content \<Rightarrow>
          let len = internal_hdrend m content - content
          in if len + 1 > MAX_HEADER_LEN then [] else take len (drop content m))"

text \<open>\<^verbatim>\<open>get_cseq_value\<close>: the four spellings are searched for one after the other.\<close>

definition get_cseq_value :: "string \<Rightarrow> nat" where
  "get_cseq_value m =
     (case List.find (\<lambda>n. find_sub (CRLF @ n) m \<noteq> None) [''CSeq:'', ''CSEQ:'', ''cseq:'', ''Cseq:''] of
        None \<Rightarrow> 0
      | Some n \<Rightarrow>
          let p = dropWhile is_blank (drop (the (find_sub (CRLF @ n) m) + 7) m)
          in if p = [] then 0 else strtoul p)"

definition get_reply_code :: "string \<Rightarrow> nat" where
  "get_reply_code m =
     (let line = get_first_line m;
          a = dropWhile (\<lambda>c. \<not> is_blank c) line;
          b = dropWhile is_blank a
      in if b \<noteq> [] then nat (atol (drop (length line - length b) m) mod 2 ^ 64) else 0)"

end
