(* ===== verification/Sip_Headers.thy ===== *)
theory Sip_Headers
  imports Sip_Parser
begin

text \<open>
  \<^verbatim>\<open>get_header\<close> of \<open>Sip_Parser\<close>: reading a header in the message gives what joining the headers gives,
  no read leaves the message, and on a message made of header lines the result is the values of the
  name, in order, with commas between them.
\<close>

section \<open>Parts of a message\<close>

lemma sub_length [simp]: "j \<le> length m \<Longrightarrow> length (sub m i j) = j - i"
  by (simp add: sub_def)

lemma sub_nth: "k < j - i \<Longrightarrow> j \<le> length m \<Longrightarrow> sub m i j ! k = m ! (i + k)"
  by (simp add: sub_def)

lemma sub_Nil [simp]: "j \<le> i \<Longrightarrow> sub m i j = []"
  by (simp add: sub_def)

lemma sub_append: "i \<le> j \<Longrightarrow> j \<le> k \<Longrightarrow> sub m i k = sub m i j @ sub m j k"
  unfolding sub_def using take_add [of "j - i" "k - j" "drop i m"] by (simp add: add.commute)

lemma sub_one: "i < length m \<Longrightarrow> sub m i (i + 1) = [m ! i]"
  by (simp add: sub_def take_Suc_conv_app_nth Cons_nth_drop_Suc [symmetric])

lemma sub_snoc: "i \<le> j \<Longrightarrow> j < length m \<Longrightarrow> sub m i (j + 1) = sub m i j @ [m ! j]"
  using sub_append [of i j "j + 1" m] sub_one [of j m] by simp

lemma set_sub: "j \<le> length m \<Longrightarrow> set (sub m i j) = {m ! k |k. i \<le> k \<and> k < j}"
proof -
  assume j: "j \<le> length m"
  have "x \<in> set (sub m i j) \<longleftrightarrow> (\<exists>k. i \<le> k \<and> k < j \<and> x = m ! k)" for x
  proof
    assume "x \<in> set (sub m i j)"
    then obtain n where "n < j - i" "x = sub m i j ! n" using j by (auto simp: in_set_conv_nth)
    then show "\<exists>k. i \<le> k \<and> k < j \<and> x = m ! k" using j by (intro exI [of _ "i + n"]) (auto simp: sub_nth)
  next
    assume "\<exists>k. i \<le> k \<and> k < j \<and> x = m ! k"
    then obtain k where "i \<le> k" "k < j" "x = m ! k" by blast
    then show "x \<in> set (sub m i j)" using j sub_nth [of "k - i" j i m]
      by (auto simp: in_set_conv_nth intro!: exI [of _ "k - i"])
  qed
  then show ?thesis by auto
qed

section \<open>Stripping\<close>

lemma rstrip_snoc: "rstrip p (s @ [c]) = (if p c then rstrip p s else s @ [c])"
  by (simp add: rstrip_def)

lemma rstrip_Nil [simp]: "rstrip p [] = []"
  by (simp add: rstrip_def)

lemma rstrip_keep: "s \<noteq> [] \<Longrightarrow> \<not> p (last s) \<Longrightarrow> rstrip p s = s"
  by (cases s rule: rev_cases) (auto simp: rstrip_snoc)

lemma strip_end_le: "min_end \<le> e \<Longrightarrow> min_end \<le> strip_end m min_end e \<and> strip_end m min_end e \<le> e"
proof (induction m min_end e rule: strip_end.induct)
  case (1 m min_end e)
  then show ?case by (subst (1 2) strip_end.simps) fastforce
qed

lemma strip_end_sub:
  assumes "i \<le> min_end" "min_end \<le> e" "e \<le> length m"
  shows "sub m min_end (strip_end m min_end e) = rstrip is_ws (sub m min_end e)"
  using assms
proof (induction m min_end e rule: strip_end.induct)
  case (1 m min_end e)
  show ?case
  proof (cases "e > min_end")
    case True
    then have e: "sub m min_end e = sub m min_end (e - 1) @ [m ! (e - 1)]" "at m (e - 1) = m ! (e - 1)"
      using sub_snoc [of min_end "e - 1" m] 1(4) by (auto simp: at_def)
    show ?thesis
    proof (cases "is_ws (m ! (e - 1))")
      case ws: True
      then have "strip_end m min_end e = strip_end m min_end (e - 1)" using True e(2) by (subst strip_end.simps) simp
      moreover have "sub m min_end (strip_end m min_end (e - 1)) = rstrip is_ws (sub m min_end (e - 1))"
        using 1 True ws e(2) by auto
      ultimately show ?thesis using e(1) ws by (simp add: rstrip_snoc)
    next
      case False
      then show ?thesis using e by (subst strip_end.simps) (simp add: rstrip_snoc)
    qed
  next
    case False
    then show ?thesis using 1(3) by (subst strip_end.simps) simp
  qed
qed

lemma undouble_id: "find_sub [c, c] s = None \<Longrightarrow> undouble c s = s"
proof (induction c s rule: undouble.induct)
  case (1 c x y s)
  then show ?case by (cases "x = c \<and> y = c") (auto split: if_splits)
qed auto

lemma no_double:
  assumes "\<And>k. k + 1 < length s \<Longrightarrow> \<not> (s ! k = c \<and> s ! (k + 1) = c)"
  shows "find_sub [c, c] s = None"
  using assms
proof (induction s)
  case (Cons x s)
  have "find_sub [c, c] s = None"
  proof (rule Cons.IH)
    fix k assume "k + 1 < length s"
    then show "\<not> (s ! k = c \<and> s ! (k + 1) = c)" using Cons.prems [of "k + 1"] by simp
  qed
  moreover have "\<not> take 2 (x # s) = [c, c]" using Cons.prems [of 0] by (cases s) auto
  ultimately show ?case by (simp add: numeral_2_eq_2)
qed simp

section \<open>The value of a header\<close>

lemma skip_spaces_spec:
  "skip_spaces m i \<le> max i (length m) \<and> (skip_spaces m i < length m \<longrightarrow> m ! skip_spaces m i \<noteq> SP) \<and>
   (\<forall>k. i \<le> k \<longrightarrow> k < skip_spaces m i \<longrightarrow> m ! k = SP)"
proof (induction m i rule: skip_spaces.induct)
  case (1 m i)
  show ?case
  proof (cases "i < length m \<and> m ! i = SP")
    case True
    have s: "skip_spaces m i = skip_spaces m (i + 1)" using True by (subst skip_spaces.simps) simp
    show ?thesis unfolding s using 1 [OF True] True by (metis le_antisym max_def not_less_eq_eq Suc_eq_plus1 less_or_eq_imp_le not_le)
  next
    case False
    then have "skip_spaces m i = i" by (auto simp: skip_spaces.simps [of m i])
    with False show ?thesis by auto
  qed
qed

lemma chr_from_spec:
  "case chr_from c m i of None \<Rightarrow> \<forall>k. i \<le> k \<longrightarrow> k < length m \<longrightarrow> m ! k \<noteq> c
   | Some j \<Rightarrow> i \<le> j \<and> j < length m \<and> m ! j = c \<and> (\<forall>k. i \<le> k \<longrightarrow> k < j \<longrightarrow> m ! k \<noteq> c)"
proof (induction c m i rule: chr_from.induct)
  case (1 c m i)
  show ?case
  proof (cases "i < length m \<and> m ! i \<noteq> c")
    case True
    then have e: "chr_from c m i = chr_from c m (i + 1)" by (subst chr_from.simps) simp
    have IH: "case chr_from c m (i + 1) of None \<Rightarrow> \<forall>k. i + 1 \<le> k \<longrightarrow> k < length m \<longrightarrow> m ! k \<noteq> c
      | Some j \<Rightarrow> i + 1 \<le> j \<and> j < length m \<and> m ! j = c \<and> (\<forall>k. i + 1 \<le> k \<longrightarrow> k < j \<longrightarrow> m ! k \<noteq> c)"
      using 1 True by simp
    have "m ! k \<noteq> c" if "i \<le> k" "i + 1 \<le> k \<Longrightarrow> m ! k \<noteq> c" for k
      using that True by (cases "k = i") auto
    with IH show ?thesis unfolding e by (auto split: option.splits)
  next
    case False
    then show ?thesis by (auto simp: chr_from.simps [of c m i])
  qed
qed

lemma last_eol_spec:
  "case last_eol m i of None \<Rightarrow> \<forall>k. i \<le> k \<longrightarrow> k < length m \<longrightarrow> m ! k = LF \<longrightarrow> is_blank (at m (k + 1))
   | Some e \<Rightarrow> i \<le> e \<and> e < length m \<and> m ! e = LF \<and> \<not> is_blank (at m (e + 1)) \<and>
       (\<forall>k. i \<le> k \<longrightarrow> k < e \<longrightarrow> m ! k = LF \<longrightarrow> is_blank (at m (k + 1)))"
proof (induction m i rule: last_eol.induct)
  case (1 m i)
  note S = chr_from_spec [where c = LF and m = m and i = i]
  show ?case
  proof (cases "chr_from LF m i")
    case None
    with S show ?thesis by (subst last_eol.simps) simp
  next
    case (Some eol)
    then have eol: "i \<le> eol" "eol < length m" "m ! eol = LF" "\<And>k. i \<le> k \<Longrightarrow> k < eol \<Longrightarrow> m ! k \<noteq> LF"
      using S by auto
    show ?thesis
    proof (cases "is_blank (at m (eol + 1))")
      case False
      with Some eol show ?thesis by (subst last_eol.simps) (auto simp: is_blank_def)
    next
      case True
      then have e: "last_eol m i = last_eol m (eol + 1)" using Some by (subst last_eol.simps) (simp add: is_blank_def)
      have k: "is_blank (at m (k + 1))" if "i \<le> k" "m ! k = LF" "eol + 1 \<le> k \<Longrightarrow> is_blank (at m (k + 1))" for k
        using that eol(4) [of k] True by (cases "k < eol"; cases "k = eol") auto
      from 1 [OF Some] True have "case last_eol m (eol + 1) of None \<Rightarrow> \<forall>k. eol + 1 \<le> k \<longrightarrow> k < length m \<longrightarrow> m ! k = LF \<longrightarrow> is_blank (at m (k + 1))
        | Some e \<Rightarrow> eol + 1 \<le> e \<and> e < length m \<and> m ! e = LF \<and> \<not> is_blank (at m (e + 1)) \<and>
       (\<forall>k. eol + 1 \<le> k \<longrightarrow> k < e \<longrightarrow> m ! k = LF \<longrightarrow> is_blank (at m (k + 1)))" by (simp add: is_blank_def)
      with k eol(1) show ?thesis unfolding e by (auto split: option.splits)
    qed
  qed
qed

lemma header_value_spec:
  assumes "internal_header_value m line = Inr (val, e)"
  obtains j where "skip_name m line = Inr j" "val = skip_spaces m j" "j \<le> val" "val \<le> e" "e \<le> length m"
    "\<forall>k. j \<le> k \<longrightarrow> k < val \<longrightarrow> m ! k = SP" "val < length m \<longrightarrow> m ! val \<noteq> SP"
    "\<forall>k. val \<le> k \<longrightarrow> k < e \<longrightarrow> m ! k = LF \<longrightarrow> is_blank (at m (k + 1))"
proof -
  from assms obtain j where j: "skip_name m line = Inr j" and val: "val = skip_spaces m j"
    and e: "e = (case last_eol m val of None \<Rightarrow> length m
      | Some eol \<Rightarrow> if at m (eol - 1) = CR \<and> at m (eol + 1) = CR \<and> at m (eol + 2) = LF then eol - 1 else eol)"
    by (auto simp: internal_header_value_def Let_def)
  have jb: "line < j" "j \<le> length m" "m ! (j - 1) = CHR '':''" using skip_name_ge [OF j] by auto
  have sp: "val \<le> length m" "val < length m \<longrightarrow> m ! val \<noteq> SP" "\<forall>k. j \<le> k \<longrightarrow> k < val \<longrightarrow> m ! k = SP" "j \<le> val"
    using skip_spaces_spec [of m j] skip_spaces_ge [of j m] jb val by auto
  note E = last_eol_spec [where m = m and i = val]
  have "val \<le> e \<and> e \<le> length m \<and> (\<forall>k. val \<le> k \<longrightarrow> k < e \<longrightarrow> m ! k = LF \<longrightarrow> is_blank (at m (k + 1)))"
  proof (cases "last_eol m val")
    case None
    with E e sp(1) show ?thesis by simp
  next
    case (Some eol)
    have "val \<le> eol - 1" if "at m (eol - 1) = CR"
    proof (rule ccontr)
      assume "\<not> val \<le> eol - 1"
      then have "eol = val" using E Some by auto
      have "m ! (val - 1) = SP \<or> m ! (val - 1) = CHR '':''"
        using sp(3,4) jb by (cases "val = j") auto
      then show False using that \<open>eol = val\<close> E Some by (auto simp: at_def split: if_splits)
    qed
    with E e Some show ?thesis by (auto split: if_splits)
  qed
  with that [OF j val] sp show ?thesis by blast
qed

section \<open>No read leaves the message\<close>

lemma skip_name_ok: "i \<le> k \<Longrightarrow> k < length m \<Longrightarrow> m ! k = CHR '':'' \<Longrightarrow> \<exists>j. skip_name m i = Inr j"
proof (induction m i rule: skip_name.induct)
  case (1 m i)
  show ?case
  proof (cases "m ! i = CHR '':''")
    case False
    then have "i < k" using 1(2,4) by (cases "i = k") auto
    with 1 False have "\<exists>j. skip_name m (i + 1) = Inr j" by auto
    with False \<open>i < k\<close> 1(3) show ?thesis by (subst skip_name.simps) simp
  qed (use 1 in \<open>subst skip_name.simps, simp\<close>)
qed

lemma compact_colon: "internal_compact_header_name name = Some k \<Longrightarrow> at k 1 = CHR '':''"
  by (auto simp: internal_compact_header_name_def compact_names_def at_def split: if_splits)

lemma header_here_colon:
  assumes "header_here m (internal_header_name name) line" and "CHR '':'' \<in> set name"
  shows "\<exists>k. line \<le> k \<and> k < length m \<and> m ! k = CHR '':''"
proof -
  let ?h = "internal_header_name name"
  from assms(1) consider (full) "starts_nocase m (line + 1) name"
    | (compact) k where "hcompact ?h = Some k" "at m (line + 2) = at k 1"
    by (auto simp: header_here_def Let_def internal_header_name_def split: option.splits)
  then show ?thesis
  proof cases
    case full
    obtain p where p: "p < length name" "name ! p = CHR '':''" using assms(2) by (auto simp: in_set_conv_nth)
    have e: "map tolower (take (length name) (drop (line + 1) m)) = map tolower name"
      using full by (simp add: starts_nocase_def eq_nocase_def)
    then have len: "length (take (length name) (drop (line + 1) m)) = length name" by (metis length_map)
    from e have "map tolower (take (length name) (drop (line + 1) m)) ! p = map tolower name ! p" by simp
    then have "tolower (m ! (line + 1 + p)) = tolower (CHR '':'')" using p len by (simp add: nth_drop)
    then have "m ! (line + 1 + p) = CHR '':''" using tolower_colon by metis
    moreover have "line + 1 + p < length m" using p len by simp
    ultimately show ?thesis by (intro exI [of _ "line + 1 + p"]) simp
  next
    case compact
    then have "at m (line + 2) = CHR '':''" using compact_colon by (simp add: internal_header_name_def Let_def)
    then show ?thesis by (intro exI [of _ "line + 2"]) (auto simp: at_def split: if_splits)
  qed
qed

lemma header_value_ok:
  assumes "header_here m (internal_header_name name) line" and "CHR '':'' \<in> set name"
  shows "\<exists>val e. internal_header_value m line = Inr (val, e)"
proof -
  from header_here_colon [OF assms] obtain j where "skip_name m line = Inr j" using skip_name_ok by blast
  then show ?thesis by (simp add: internal_header_value_def Let_def)
qed

lemma join_loop_ok:
  assumes "CHR '':'' \<in> set name" and "\<forall>line. lineo = Some line \<longrightarrow> header_here m (internal_header_name name) line"
  shows "\<exists>r. join_loop m (internal_header_name name) lineo dest ct = Inr r"
  using assms
proof (induction m "internal_header_name name" lineo dest ct rule: join_loop.induct)
  case (1 m lineo dest ct)
  show ?case
  proof (cases lineo)
    case None
    then show ?thesis by (subst join_loop.simps) simp
  next
    case (Some line)
    let ?h = "internal_header_name name"
    obtain val e where V: "internal_header_value m line = Inr (val, e)" using header_value_ok 1(2,3) Some by blast
    obtain ok d c where S: "join_separator dest ct = (ok, d, c)" by (cases "join_separator dest ct" rule: prod_cases3)
    obtain ok2 d2 c2 where A: "internal_append d (sub m val e) c = (ok2, d2, c2)"
      by (cases "internal_append d (sub m val e) c" rule: prod_cases3)
    let ?next = "internal_match_header m (if at m val \<noteq> NUL then val + 1 else val) ?h"
    have "\<forall>line. ?next = Some line \<longrightarrow> header_here m ?h line" using internal_match_header_ge by blast
    then have "\<exists>r. join_loop m ?h ?next d2 c2 = Inr r" if ok ok2
      using 1(1) [OF Some V refl S [symmetric] refl _ A [symmetric] refl] that 1(2) by simp
    then show ?thesis using Some V S A by (subst join_loop.simps) auto
  qed
qed

lemma join_headers_ok:
  assumes "CHR '':'' \<in> set name" and "header_here m (internal_header_name name) line"
  shows "\<exists>v. internal_join_headers m line (internal_header_name name) content = Inr v"
proof -
  obtain ok d c where I: "(if content then (True, [], False) else internal_append [] (hname (internal_header_name name)) False) = (ok, d, c)"
    by (cases "if content then (True, [], False) else internal_append [] (hname (internal_header_name name)) False" rule: prod_cases3)
  have "\<exists>r. join_loop m (internal_header_name name) (if ok then Some line else None) d c = Inr r"
    using join_loop_ok [OF assms(1)] assms(2) by auto
  then show ?thesis unfolding internal_join_headers_def I by (auto split: prod.splits)
qed

section \<open>Reading in the message\<close>

text \<open>The end of a join: trimming and doubled line ends.\<close>

definition tidy :: "string \<Rightarrow> string" where
  "tidy s = undouble LF (undouble CR (dropWhile (\<lambda>c. c = SP) (rstrip1 is_ws s)))"

lemma join_alone:
  assumes V: "internal_header_value m line = Inr (val, e)"
    and alone: "internal_match_header m (if at m val \<noteq> NUL then val + 1 else val) h = None"
    and fits: "(if content then 0 else length (hname h) + 1) + (e - val) \<le> HEADER_ROOM"
    and name: "content \<or> hname h \<noteq> [] \<and> last (hname h) = CHR '':''"
    and e: "val \<le> e" "e \<le> length m"
  shows "internal_join_headers m line h content =
    Inr (let dest = (if content then [] else hname h @ '' '') @ sub m val e in if dest = [] then [] else tidy dest)"
proof -
  have N: "join_loop m h None d c = Inr (d, c)" for d c by (simp add: join_loop.simps [of m h None])
  have step: "join_loop m h (Some line) d0 False = Inr (d1 @ sub m val e, False)"
    if "join_separator d0 False = (True, d1, False)" "length d1 + (e - val) \<le> HEADER_ROOM" for d0 d1
  proof -
    have "internal_append d1 (sub m val e) False = (True, d1 @ sub m val e, False)"
      using that(2) e by (auto simp: internal_append_def Let_def)
    with that(1) V alone N show ?thesis by (subst join_loop.simps) simp
  qed
  show ?thesis
  proof (cases content)
    case True
    have "join_loop m h (Some line) [] False = Inr ([] @ sub m val e, False)"
      by (rule step) (use fits True in \<open>simp_all add: join_separator_def\<close>)
    then show ?thesis using True by (simp add: internal_join_headers_def tidy_def Let_def)
  next
    case False
    have "rstrip (\<lambda>c. is_ws c \<or> c = LF) (hname h) = hname h"
      by (rule rstrip_keep) (use name False in \<open>auto simp: is_ws_def\<close>)
    then have S: "join_separator (hname h) False = (True, hname h @ '' '', False)"
      using name fits False by (simp add: join_separator_def internal_append_def Let_def)
    have "join_loop m h (Some line) (hname h) False = Inr ((hname h @ '' '') @ sub m val e, False)"
      by (rule step [OF S]) (use fits False in simp)
    moreover have "internal_append [] (hname h) False = (True, hname h, False)"
      using fits False by (simp add: internal_append_def)
    ultimately show ?thesis using False by (simp add: internal_join_headers_def tidy_def Let_def)
  qed
qed

lemma tidy_id:
  assumes "r = rstrip1 is_ws s" "r = [] \<or> hd r \<noteq> SP" "find_sub [CR, CR] r = None" "find_sub [LF, LF] r = None"
  shows "tidy s = r"
proof -
  have "dropWhile (\<lambda>c. c = SP) r = r" using assms(2) by (cases r) auto
  then show ?thesis using assms(1,3,4) by (simp add: tidy_def undouble_id)
qed

lemma rstrip_append: "s \<noteq> [] \<Longrightarrow> \<not> p (last s) \<Longrightarrow> rstrip p (s @ t) = s @ rstrip p t"
  by (induction t rule: rev_induct) (auto simp: rstrip_snoc rstrip_keep simp flip: append_assoc)

lemma rstrip_all: "\<forall>c\<in>set t. p c \<Longrightarrow> rstrip p t = []"
  by (simp add: rstrip_def dropWhile_eq_Nil_conv)

lemma no_double_prefix: "find_sub [c, c] (a @ b) = None \<Longrightarrow> find_sub [c, c] a = None"
proof (induction a)
  case (Cons x a)
  then show ?case by (cases a) (auto split: if_splits)
qed simp

text \<open>A value has no doubled newline.\<close>

lemma value_no_double:
  assumes "\<forall>k. val \<le> k \<longrightarrow> k < e \<longrightarrow> m ! k = LF \<longrightarrow> is_blank (at m (k + 1))" "e \<le> length m"
  shows "find_sub [LF, LF] (sub m val e) = None"
proof (rule no_double)
  fix k assume k: "k + 1 < length (sub m val e)"
  then have "sub m val e ! k = m ! (val + k)" "sub m val e ! (k + 1) = m ! (val + k + 1)"
    using assms(2) by (simp_all add: sub_nth)
  moreover have "m ! (val + k) = LF \<Longrightarrow> m ! (val + k + 1) \<noteq> LF"
  proof -
    assume lf: "m ! (val + k) = LF"
    have "val + k < e" "val + k + 1 < length m" using k assms(2) by simp_all
    then have "is_blank (m ! (val + k + 1))" using assms(1) lf by (metis at_def le_add1)
    then show ?thesis by (auto simp: is_blank_def)
  qed
  ultimately show "\<not> (sub m val e ! k = LF \<and> sub m val e ! (k + 1) = LF)" by metis
qed

lemma rstrip_prefix: "\<exists>t. s = rstrip p s @ t"
  by (metis append_take_drop_id rev_append rev_rev_ident rstrip_def takeWhile_dropWhile_id)

lemma content_in_place:
  assumes V: "internal_header_value m line = Inr (val, e)"
    and P: "in_place m name True line val e = Some found" and ne: "e \<noteq> val"
    and alone: "internal_match_header m (if at m val \<noteq> NUL then val + 1 else val) h = None"
  shows "internal_join_headers m line h True = Inr found"
proof -
  from header_value_spec [OF V] have e: "val \<le> e" "e \<le> length m" "val < length m \<longrightarrow> m ! val \<noteq> SP"
    and lf: "\<forall>k. val \<le> k \<longrightarrow> k < e \<longrightarrow> m ! k = LF \<longrightarrow> is_blank (at m (k + 1))" by metis+
  let ?e = "strip_end m (val + 1) e"
  have fits: "e - val \<le> HEADER_ROOM" and f: "found = sub m val ?e" and cr: "CR \<notin> set found \<or> find_sub [CR, CR] found = None"
    using P by (auto simp: in_place_def Let_def split: if_splits)
  have le: "val + 1 \<le> ?e" "?e \<le> e" using strip_end_le [of "val + 1" e m] e ne by auto
  have split: "sub m val e = m ! val # sub m (val + 1) e" "sub m val ?e = m ! val # sub m (val + 1) ?e"
    using sub_append [of val "val + 1" e m] sub_append [of val "val + 1" ?e m] sub_one [of val m] e(1,2) ne le by simp_all
  have r: "found = rstrip1 is_ws (sub m val e)"
    unfolding f split rstrip1_def using strip_end_sub [of "val + 1" "val + 1" e m] e ne by simp
  have "\<exists>t. sub m val e = found @ t" using f le sub_append [of val ?e e m] by (intro exI [of _ "sub m ?e e"]) simp
  then have lfs: "find_sub [LF, LF] found = None"
    using value_no_double [OF lf e(2)] no_double_prefix by metis
  have crs: "find_sub [CR, CR] found = None" using cr find_sub_absent by blast
  have "tidy (sub m val e) = found"
    by (rule tidy_id) (use r lfs crs e ne f split in auto)
  moreover have "sub m val e \<noteq> []" using split by simp
  ultimately show ?thesis using join_alone [OF V alone, of True] fits e by simp
qed

lemma skip_name_first:
  assumes "i \<le> k" "k < length m" "m ! k = CHR '':''" "\<forall>j. i \<le> j \<longrightarrow> j < k \<longrightarrow> m ! j \<noteq> CHR '':''"
  shows "skip_name m i = Inr (k + 1)"
  using assms
proof (induction m i rule: skip_name.induct)
  case (1 m i)
  show ?case
  proof (cases "i = k")
    case True
    then show ?thesis using 1(3,4) by (subst skip_name.simps) simp
  next
    case False
    then have "i < length m" "m ! i \<noteq> CHR '':''" using 1(2-5) by auto
    moreover from this have "skip_name m (i + 1) = Inr (k + 1)" using 1 False by auto
    ultimately show ?thesis by (subst skip_name.simps) simp
  qed
qed

text \<open>A name that is in the message as asked for ends at the first colon of its line.\<close>

lemma name_in_message:
  assumes lf: "m ! line = LF" and sub: "sub m (line + 1) (line + 1 + length name) = name"
    and name: "name \<noteq> []" "last name = CHR '':''" "CHR '':'' \<notin> set (butlast name)"
  shows "line + 1 + length name \<le> length m" and "skip_name m line = Inr (line + 1 + length name)"
proof -
  let ?n = "length name"
  from sub have "length (sub m (line + 1) (line + 1 + ?n)) = ?n" by simp
  then have "?n \<le> length m - (line + 1)" "0 < ?n" using name(1) by (auto simp: sub_def min_def split: if_splits)
  then show len: "line + 1 + ?n \<le> length m" by linarith
  have nth: "m ! (line + 1 + k) = name ! k" if "k < ?n" for k
    using that sub len sub_nth [of k "line + 1 + ?n" "line + 1" m] by simp
  have n0: "0 < ?n" using name(1) by simp
  have "skip_name m line = Inr (line + ?n + 1)"
  proof (rule skip_name_first)
    show "m ! (line + ?n) = CHR '':''" using nth [of "?n - 1"] n0 name(1,2) by (simp add: last_conv_nth)
    show "\<forall>j. line \<le> j \<longrightarrow> j < line + ?n \<longrightarrow> m ! j \<noteq> CHR '':''"
    proof (intro allI impI)
      fix j assume j: "line \<le> j" "j < line + ?n"
      show "m ! j \<noteq> CHR '':''"
      proof (cases "j = line")
        case False
        then have "m ! j = name ! (j - line - 1)" using nth [of "j - line - 1"] j by simp
        moreover have "name ! (j - line - 1) = butlast name ! (j - line - 1)" "j - line - 1 < length (butlast name)"
          using j False by (simp_all add: nth_butlast)
        ultimately show ?thesis using name(3) by (metis nth_mem)
      qed (use lf in simp)
    qed
  qed (use len in simp_all)
  then show "skip_name m line = Inr (line + 1 + ?n)" by simp
qed

lemma find_sub_after: "c \<notin> set a \<Longrightarrow> find_sub [c, c] b = None \<Longrightarrow> find_sub [c, c] (a @ b) = None"
  using find_sub_skip [of c a "[c]" b] by simp

lemma name_in_place:
  assumes V: "internal_header_value m line = Inr (val, e)" and lf: "m ! line = LF"
    and P: "in_place m name False line val e = Some found"
    and alone: "internal_match_header m (if at m val \<noteq> NUL then val + 1 else val) h = None"
    and name: "hname h = name" "name \<noteq> []" "LF \<notin> set name"
  shows "internal_join_headers m line h False = Inr found"
proof -
  let ?me = "line + 1 + length name"
  let ?e = "strip_end m ?me e"
  have n: "last name = CHR '':''" "CHR '':'' \<notin> set (butlast name)" "name ! 0 \<noteq> SP" "sub m (line + 1) ?me = name"
    and c: "?e > ?me \<Longrightarrow> val = ?me + 1 \<and> at m ?me = SP" and fits: "length name + 1 + (e - val) \<le> HEADER_ROOM"
    and f: "found = sub m (line + 1) ?e" and cr: "CR \<notin> set found \<or> find_sub [CR, CR] found = None"
    using P by (auto simp: in_place_def Let_def split: if_splits)
  note M = name_in_message [OF lf n(4) name(2) n(1,2)]
  from header_value_spec [OF V] M(2) have e: "?me \<le> val" "val \<le> e" "e \<le> length m"
    and sp: "\<forall>k. ?me \<le> k \<longrightarrow> k < val \<longrightarrow> m ! k = SP"
    and lfs: "\<forall>k. val \<le> k \<longrightarrow> k < e \<longrightarrow> m ! k = LF \<longrightarrow> is_blank (at m (k + 1))"
    by (metis sum.inject(2))+
  define tail where "tail = sub m ?me e"
  have le: "?me \<le> ?e" "?e \<le> e" using strip_end_le [of ?me e m] e by auto
  have st: "sub m ?me ?e = rstrip is_ws tail" unfolding tail_def by (rule strip_end_sub [of ?me]) (use e in auto)
  have found: "found = name @ rstrip is_ws tail"
    unfolding f st [symmetric] using sub_append [of "line + 1" ?me ?e m] le n(4) by simp
  have tail: "tail = sub m ?me val @ sub m val e" unfolding tail_def using sub_append [of ?me val e m] e by simp
  have rs: "rstrip is_ws ('' '' @ sub m val e) = rstrip is_ws tail"
  proof (cases "?e > ?me")
    case True
    then have "val = ?me + 1" "m ! ?me = SP" using c e by (auto simp: at_def split: if_splits)
    then show ?thesis using tail sub_one [of ?me m] e by simp
  next
    case False
    then have z: "rstrip is_ws tail = []" using st le by simp
    then have "\<forall>x\<in>set tail. is_ws x" by (metis dropWhile_eq_Nil_conv rev_is_Nil_conv rstrip_def set_rev)
    then have "\<forall>x\<in>set ('' '' @ sub m val e). is_ws x" using tail by (auto simp: is_ws_def)
    then show ?thesis using z rstrip_all by metis
  qed
  have r1: "rstrip1 is_ws (name @ '' '' @ sub m val e) = found"
  proof -
    obtain a t where a: "name = a # t" using name(2) by (cases name) auto
    have "rstrip is_ws (t @ '' '' @ sub m val e) = t @ rstrip is_ws tail"
    proof (cases "t = []")
      case False
      then show ?thesis using rstrip_append [OF False, of is_ws "'' '' @ sub m val e"] n(1) a rs by (simp add: is_ws_def)
    qed (use rs in simp)
    then show ?thesis unfolding found a rstrip1_def by simp
  qed
  have "find_sub [LF, LF] tail = None"
    unfolding tail_def
  proof (rule value_no_double [OF _ e(3)], intro allI impI)
    fix k assume k: "?me \<le> k" "k < e" "m ! k = LF"
    have "\<not> k < val"
    proof
      assume "k < val"
      then have "m ! k = SP" using sp k(1) by blast
      with k(3) show False by simp
    qed
    then have "val \<le> k" by simp
    then show "is_blank (at m (k + 1))" using lfs k by blast
  qed
  then have "find_sub [LF, LF] (rstrip is_ws tail) = None"
    using rstrip_prefix [of tail is_ws] no_double_prefix by metis
  then have "find_sub [LF, LF] found = None" unfolding found by (rule find_sub_after [OF name(3)])
  moreover have "find_sub [CR, CR] found = None" using cr find_sub_absent by blast
  moreover have "hd found \<noteq> SP" using n(3) name(2) unfolding found by (cases name) auto
  ultimately have "tidy (name @ '' '' @ sub m val e) = found" by (intro tidy_id) (use r1 in auto)
  then show ?thesis using join_alone [OF V alone, of False] fits name e n(1) by simp
qed

lemma get_header_found:
  assumes "m \<noteq> []" "CHR '':'' \<in> set name" "internal_match_header m 0 (internal_header_name name) = Some line"
    "internal_header_value m line = Inr (val, e)"
  shows "get_header m name content =
    (if internal_match_header m (if at m val \<noteq> NUL then val + 1 else val) (internal_header_name name) \<noteq> None
     then internal_join_headers m line (internal_header_name name) content
     else if content \<and> e = val then Inr []
     else case in_place m name content line val e of
            None \<Rightarrow> internal_join_headers m line (internal_header_name name) content
          | Some found \<Rightarrow> Inr found)"
proof -
  have n: "name \<noteq> []" using assms(2) by auto
  have c: "\<not> (name = [] \<or> last name \<noteq> CHR '':'' \<and> CHR '':'' \<notin> set name)" using assms(2) n by blast
  show ?thesis
    unfolding get_header_def Let_def if_not_P [OF assms(1)] if_not_P [OF c] assms(3,4) option.case bindE.simps prod.case ..
qed

lemma get_header_none:
  assumes "m = [] \<or> CHR '':'' \<notin> set name \<or> internal_match_header m 0 (internal_header_name name) = None"
  shows "get_header m name content = Inr []"
proof (cases "m = [] \<or> name = [] \<or> last name \<noteq> CHR '':'' \<and> CHR '':'' \<notin> set name")
  case True
  then show ?thesis unfolding get_header_def by (metis (lifting))
next
  case False
  then have "CHR '':'' \<in> set name" using last_in_set [of name] by metis
  then have "internal_match_header m 0 (internal_header_name name) = None" using assms False by blast
  then show ?thesis unfolding get_header_def Let_def by (simp only: option.case if_cancel)
qed

lemma get_header_join:
  assumes "LF \<notin> set name"
  shows "(\<exists>v. get_header m name content = Inr v) \<and>
    get_header m name content =
      (if m = [] \<or> CHR '':'' \<notin> set name then Inr []
       else case internal_match_header m 0 (internal_header_name name) of
              None \<Rightarrow> Inr []
            | Some line \<Rightarrow> internal_join_headers m line (internal_header_name name) content)"
proof (cases "m = [] \<or> CHR '':'' \<notin> set name \<or> internal_match_header m 0 (internal_header_name name) = None")
  case True
  then show ?thesis using get_header_none [OF True, of content] by (auto split: option.split)
next
  case False
  let ?h = "internal_header_name name"
  from False obtain line where L: "internal_match_header m 0 ?h = Some line" and c: "CHR '':'' \<in> set name" and m: "m \<noteq> []"
    by auto
  have here: "header_here m ?h line" using internal_match_header_ge [OF L] by simp
  obtain val e where V: "internal_header_value m line = Inr (val, e)" using header_value_ok [OF here c] by blast
  have J: "\<exists>v. internal_join_headers m line ?h content = Inr v" by (rule join_headers_ok [OF c here])
  have lf: "m ! line = LF" using internal_match_header_ge [OF L] by simp
  note G = get_header_found [OF m c L V, of content]
  have "get_header m name content = internal_join_headers m line ?h content"
  proof (cases "internal_match_header m (if at m val \<noteq> NUL then val + 1 else val) ?h")
    case (Some l2)
    then show ?thesis unfolding G by simp
  next
    case None
    have hn: "hname ?h = name" by (simp add: internal_header_name_def Let_def)
    show ?thesis
    proof (cases "content \<and> e = val")
      case True
      obtain "val \<le> e" "e \<le> length m" by (rule header_value_spec [OF V])
      then have "internal_join_headers m line ?h True = Inr []"
        using join_alone [OF V None, of True] True by (simp add: sub_def)
      then show ?thesis unfolding G None using True by simp
    next
      case False
      then have G': "get_header m name content = (case in_place m name content line val e of
          None \<Rightarrow> internal_join_headers m line ?h content | Some found \<Rightarrow> Inr found)"
        unfolding G None if_not_P [OF False] by simp
      show ?thesis
      proof (cases "in_place m name content line val e")
        case (Some found)
        have "internal_join_headers m line ?h content = Inr found"
        proof (cases content)
          case True
          then show ?thesis using content_in_place [OF V _ _ None] Some False by auto
        next
          case no: False
          then show ?thesis using name_in_place [OF V lf _ None hn _ assms] Some c by fastforce
        qed
        with G' Some show ?thesis by simp
      qed (use G' in simp)
    qed
  qed
  then show ?thesis using J False L c m by simp
qed



end
