(* ===== verification/Sip_Messages.thy ===== *)
theory Sip_Messages
  imports Sip_Headers
begin

text \<open>
  What the readers of \<open>Sip_Parser\<close> return on a message that is a start line, header lines, an empty
  line and a body, where every header is on one line.
\<close>

section \<open>Messages of lines\<close>

text \<open>A line of the name, in full or compact form.\<close>

definition line_of :: "string \<Rightarrow> string \<Rightarrow> bool" where
  "line_of name l \<longleftrightarrow> eq_nocase (take (length name) l) name \<or>
     (\<exists>k. internal_compact_header_name name = Some k \<and> length l \<ge> 2 \<and> tolower (l ! 0) = tolower (k ! 0) \<and> l ! 1 = CHR '':'')"

definition line_value :: "string \<Rightarrow> string" where
  "line_value l = dropWhile (\<lambda>c. c = SP) (tl (dropWhile (\<lambda>c. c \<noteq> CHR '':'') l))"

lemma tolower_CR: "tolower c = CR \<longleftrightarrow> c = CR"
proof -
  have "byte CR = 13" by (simp add: byte_def)
  then show ?thesis by (auto simp: tolower_def isupper_def dest!: arg_cong [of _ _ byte])
qed

lemma nocase_line:
  assumes "CR \<notin> set name"
  shows "eq_nocase (take (length name) (l @ CR # r)) name \<longleftrightarrow> eq_nocase (take (length name) l) name"
proof (cases "length name \<le> length l")
  case False
  then have "length l < length name" by simp
  have "\<not> eq_nocase (take (length name) l) name"
    using \<open>length l < length name\<close> unfolding eq_nocase_def by (auto dest!: arg_cong [of _ _ length])
  moreover have "\<not> eq_nocase (take (length name) (l @ CR # r)) name"
  proof
    assume "eq_nocase (take (length name) (l @ CR # r)) name"
    then have "map tolower (take (length name) (l @ CR # r)) ! length l = map tolower name ! length l"
      by (simp only: eq_nocase_def)
    then have "tolower CR = tolower (name ! length l)"
      using \<open>length l < length name\<close> by (simp add: nth_append)
    then have "tolower (name ! length l) = CR" using tolower_CR [of CR] by metis
    then have "name ! length l = CR" by (simp only: tolower_CR)
    with assms \<open>length l < length name\<close> show False by (metis nth_mem)
  qed
  ultimately show ?thesis by simp
qed simp

lemma compact_two: "internal_compact_header_name name = Some k \<Longrightarrow> length k = 2"
  by (auto simp: internal_compact_header_name_def compact_names_def split: if_splits)

lemma at_drop: "drop i m = a @ b \<Longrightarrow> k < length a \<Longrightarrow> at m (i + k) = a ! k"
proof -
  assume d: "drop i m = a @ b" and k: "k < length a"
  then have "length (drop i m) = length a + length b" by simp
  then have "i + k < length m" using k by simp
  moreover have "drop i m ! k = a ! k" unfolding d using k by (simp add: nth_append)
  ultimately show ?thesis by (simp add: at_def nth_drop)
qed

lemma header_here_line:
  assumes d: "drop (line + 1) m = l @ CRLF @ r" and name: "name \<noteq> []" "CR \<notin> set name" and l: "l \<noteq> []"
  shows "header_here m (internal_header_name name) line \<longleftrightarrow> line_of name l"
proof -
  let ?h = "internal_header_name name"
  have a0: "at m (line + 1) = l ! 0" using at_drop [OF d, of 0] l by simp
  have st: "starts_nocase m (line + 1) name \<longleftrightarrow> eq_nocase (take (length name) l) name"
    unfolding starts_nocase_def d using nocase_line [OF name(2), of l "LF # r"] by simp
  have a1: "at m (line + 2) = (if length l \<ge> 2 then l ! 1 else CR)"
  proof (cases "length l \<ge> 2")
    case True
    then show ?thesis using at_drop [OF d, of 1] by simp
  next
    case False
    then obtain c where "l = [c]" using l by (cases l; cases "tl l") auto
    then show ?thesis using at_drop [of "line + 1" m "[c, CR]" "LF # r" 1] d by simp
  qed
  have full: "tolower (l ! 0) = tolower (at name 0) \<and> (length name > 1 \<longrightarrow> tolower (at m (line + 2)) = tolower (name ! 1))"
    if e: "eq_nocase (take (length name) l) name"
  proof -
    have e': "map tolower (take (length name) l) = map tolower name" using e by (simp add: eq_nocase_def)
    then have len: "length name \<le> length l" by (metis length_map length_take min.cobounded2 min.commute)
    have "tolower (l ! k) = tolower (name ! k)" if "k < length name" for k
      using that len arg_cong [OF e', of "\<lambda>x. x ! k"] by simp
    then show ?thesis using name(1) len a1 by (auto simp: at_def)
  qed
  have h: "hname ?h = name" "hcompact ?h = internal_compact_header_name name" "hfirst ?h = int (byte (tolower (at name 0)))"
    "hsecond ?h = (if length name > 1 then int (byte (tolower (name ! 1))) else -1)"
    "hcompact_first ?h = (case internal_compact_header_name name of Some c \<Rightarrow> int (byte (tolower (at c 0))) | None \<Rightarrow> -1)"
    by (simp_all add: internal_header_name_def Let_def)
  have 1: "(int (byte (tolower (at m (line + 1)))) = hfirst ?h \<and>
      (hsecond ?h < 0 \<or> int (byte (tolower (at m (line + 2)))) = hsecond ?h) \<and> starts_nocase m (line + 1) (hname ?h))
      \<longleftrightarrow> eq_nocase (take (length name) l) name"
    unfolding h st a0 using full by auto
  have 2: "(case hcompact ?h of None \<Rightarrow> False
      | Some k \<Rightarrow> int (byte (tolower (at m (line + 1)))) = hcompact_first ?h \<and> at m (line + 2) = at k 1) \<longleftrightarrow>
    (\<exists>k. internal_compact_header_name name = Some k \<and> length l \<ge> 2 \<and> tolower (l ! 0) = tolower (k ! 0) \<and> l ! 1 = CHR '':'')"
  proof (cases "internal_compact_header_name name")
    case (Some k)
    have k: "at k 1 = CHR '':''" "at k 0 = k ! 0"
      using compact_colon [OF Some] compact_two [OF Some] by (auto simp: at_def)
    show ?thesis unfolding h Some option.case a0 a1 k by auto
  qed (simp add: h)
  show ?thesis unfolding header_here_def line_of_def Let_def 1 2 ..
qed

section \<open>The readers by suffix\<close>

lemma drop_more: "drop i m = a @ b \<Longrightarrow> drop (i + length a) m = b"
  by (metis add.commute append_eq_conv_conj drop_drop)

lemma at_next: "drop i m = a @ c # b \<Longrightarrow> at m (i + length a) = c"
  using at_drop [of i m "a @ [c]" b "length a"] by simp

lemma drop_length: "drop i m = a @ b \<Longrightarrow> b \<noteq> [] \<Longrightarrow> i + length a < length m"
  by (metis drop_more drop_all linorder_not_less)

lemma sub_drop: "drop i m = a @ b \<Longrightarrow> sub m i (i + length a) = a"
  by (simp add: sub_def)

lemma chr_from_drop: "drop i m = a @ c # b \<Longrightarrow> c \<notin> set a \<Longrightarrow> chr_from c m i = Some (i + length a)"
proof (induction a arbitrary: i)
  case Nil
  then show ?case by (subst chr_from.simps) (metis Nil_is_append_conv add.right_neutral append_Nil drop_all hd_drop_conv_nth
    length_0_conv linorder_not_less list.sel(1) not_Cons_self2 list.distinct(1))
next
  case (Cons x a)
  have i: "i < length m" using drop_length [of i m "[]"] Cons.prems(1) by simp
  have x: "m ! i = x" using Cons.prems(1) i by (simp add: Cons_nth_drop_Suc [symmetric])
  have "drop (i + 1) m = a @ c # b" using drop_more [of i m "[x]"] Cons.prems(1) by simp
  then have "chr_from c m (i + 1) = Some (i + 1 + length a)" using Cons.IH Cons.prems(2) by simp
  then show ?case using i x Cons.prems(2) by (subst chr_from.simps) auto
qed

lemma skip_name_drop: "drop i m = a @ CHR '':'' # b \<Longrightarrow> CHR '':'' \<notin> set a \<Longrightarrow> skip_name m i = Inr (i + length a + 1)"
proof (induction a arbitrary: i)
  case Nil
  then have i: "i < length m" using drop_length [of i m "[]"] by simp
  then have "m ! i = CHR '':''" using Nil by (simp add: Cons_nth_drop_Suc [symmetric])
  then show ?case using i by (subst skip_name.simps) simp
next
  case (Cons x a)
  have i: "i < length m" using drop_length [of i m "[]"] Cons.prems(1) by simp
  have x: "m ! i = x" using Cons.prems(1) i by (simp add: Cons_nth_drop_Suc [symmetric])
  have "drop (i + 1) m = a @ CHR '':'' # b" using drop_more [of i m "[x]"] Cons.prems(1) by simp
  then have "skip_name m (i + 1) = Inr (i + 1 + length a + 1)" using Cons.IH Cons.prems(2) by simp
  then show ?case using i x Cons.prems(2) by (subst skip_name.simps) auto
qed

lemma skip_spaces_drop:
  "drop i m = a @ c # b \<Longrightarrow> \<forall>x\<in>set a. x = SP \<Longrightarrow> c \<noteq> SP \<Longrightarrow> skip_spaces m i = i + length a"
proof (induction a arbitrary: i)
  case Nil
  then have i: "i < length m" using drop_length [of i m "[]"] by simp
  then have "m ! i = c" using Nil by (simp add: Cons_nth_drop_Suc [symmetric])
  then show ?case using Nil.prems by (subst skip_spaces.simps) simp
next
  case (Cons x a)
  have i: "i < length m" using drop_length [of i m "[]"] Cons.prems(1) by simp
  have x: "m ! i = x" using Cons.prems(1) i by (simp add: Cons_nth_drop_Suc [symmetric])
  have "drop (i + 1) m = a @ c # b" using drop_more [of i m "[x]"] Cons.prems(1) by simp
  then have "skip_spaces m (i + 1) = i + 1 + length a" using Cons.IH Cons.prems by simp
  then show ?case using i x Cons.prems(2) by (subst skip_spaces.simps) simp
qed

lemma match_from_drop:
  assumes "drop i m = a @ LF # b" and "LF \<notin> set a"
  shows "internal_match_header m i h = internal_match_header m (i + length a) h"
proof -
  have "drop (i + length a) m = [] @ LF # b" using drop_more [OF assms(1)] by simp
  then have "chr_from LF m (i + length a) = Some (i + length a)" using chr_from_drop [of "i + length a" m "[]"] by simp
  then show ?thesis using chr_from_drop [OF assms]
    by (subst internal_match_header.simps, subst (2) internal_match_header.simps) simp
qed

section \<open>Header lines\<close>

text \<open>A position in the message: the end of a line, with the lines \<open>ls\<close> and the body after it.\<close>

definition plain_line :: "string \<Rightarrow> bool" where
  "plain_line l \<longleftrightarrow> l \<noteq> [] \<and> NUL \<notin> set l \<and> CR \<notin> set l \<and> LF \<notin> set l \<and> \<not> is_blank (hd l)"

definition before_lines :: "string \<Rightarrow> nat \<Rightarrow> string list \<Rightarrow> string \<Rightarrow> bool" where
  "before_lines m p ls body \<longleftrightarrow> p \<noteq> 0 \<and> at m (p - 1) = CR \<and> drop p m = LF # lines ls @ CRLF @ body \<and> (\<forall>l\<in>set ls. plain_line l)"

lemma before_lines_next:
  assumes "before_lines m p (l # ls) body"
  shows "before_lines m (p + length l + 2) ls body" and "drop (p + 1) m = l @ CRLF @ lines ls @ CRLF @ body"
proof -
  have d: "drop p m = (LF # l) @ CR # LF # lines ls @ CRLF @ body" using assms by (simp add: before_lines_def)
  have "drop p m = (LF # l @ [CR]) @ LF # lines ls @ CRLF @ body" using d by simp
  from drop_more [OF this] have 1: "drop (p + length l + 2) m = LF # lines ls @ CRLF @ body" by (simp add: algebra_simps)
  have "at m (p + length l + 1) = CR" using at_next [OF d] by (simp add: algebra_simps)
  then show "before_lines m (p + length l + 2) ls body" using assms 1 by (simp add: before_lines_def)
  show "drop (p + 1) m = l @ CRLF @ lines ls @ CRLF @ body" using drop_more [of p m "[LF]"] d by simp
qed

lemma match_before_lines:
  assumes b: "before_lines m p ls body" and name: "name \<noteq> []" "CR \<notin> set name"
  shows "internal_match_header m p (internal_header_name name) =
    (case ls of [] \<Rightarrow> None
     | l # ls' \<Rightarrow> if line_of name l then Some p else internal_match_header m (p + length l + 2) (internal_header_name name))"
proof -
  have d: "drop p m = [] @ LF # lines ls @ CRLF @ body" and p: "p \<noteq> 0" "at m (p - 1) = CR" using b by (auto simp: before_lines_def)
  have c: "chr_from LF m p = Some p" using chr_from_drop [OF d] by simp
  show ?thesis
  proof (cases ls)
    case Nil
    then have "at m (p + 1) = CR" "at m (p + 2) = LF"
      using d at_next [of p m "[LF]" CR "LF # body"] at_next [of p m "[LF, CR]" LF body] by auto
    then show ?thesis using c p Nil by (subst internal_match_header.simps) simp
  next
    case (Cons l ls')
    note B = before_lines_next [OF b [unfolded Cons]]
    have l: "plain_line l" using b Cons by (simp add: before_lines_def)
    then have l0: "l \<noteq> []" "CR \<notin> set l" "LF \<notin> set l" by (auto simp: plain_line_def)
    have "at m (p + 1) = l ! 0" using at_drop [OF B(2), of 0] l0 by simp
    then have cr: "at m (p + 1) \<noteq> CR" using l0 by (metis length_greater_0_conv nth_mem)
    have "internal_match_header m (p + 1) (internal_header_name name) =
        internal_match_header m (p + 1 + length (l @ [CR])) (internal_header_name name)"
      by (rule match_from_drop [where b = "lines ls' @ CRLF @ body"]) (use B(2) l0 in auto)
    then show ?thesis
      using c cr header_here_line [OF B(2) name l0(1)] Cons
      by (subst internal_match_header.simps) (simp add: algebra_simps)
  qed
qed

lemma line_of_colon:
  assumes "line_of name l" and "CHR '':'' \<in> set name"
  shows "CHR '':'' \<in> set l"
proof -
  from assms(1) consider "eq_nocase (take (length name) l) name" | "length l \<ge> 2" "l ! 1 = CHR '':''"
    by (auto simp: line_of_def)
  then show ?thesis
  proof cases
    case 1
    obtain k where k: "k < length name" "name ! k = CHR '':''" using assms(2) by (auto simp: in_set_conv_nth)
    have e: "map tolower (take (length name) l) = map tolower name" using 1 by (simp add: eq_nocase_def)
    then have len: "length name \<le> length l" by (auto dest!: arg_cong [of _ _ length])
    then have "tolower (l ! k) = tolower (CHR '':'')" using arg_cong [OF e, of "\<lambda>x. x ! k"] k by simp
    then have "l ! k = CHR '':''" by (metis tolower_colon)
    then show ?thesis using k len by (metis less_le_trans nth_mem)
  next
    case 2
    then show ?thesis by (metis One_nat_def Suc_1 Suc_le_lessD nth_mem)
  qed
qed

lemma value_before_lines:
  assumes b: "before_lines m p (l # ls) body" and c: "CHR '':'' \<in> set l" and v: "line_value l \<noteq> []"
  shows "\<exists>val e. internal_header_value m p = Inr (val, e) \<and> sub m val e = line_value l @ (if ls = [] then [] else [CR]) \<and>
    at m val \<noteq> NUL \<and> (\<exists>a. drop (val + 1) m = a @ LF # lines ls @ CRLF @ body \<and> LF \<notin> set a \<and> val + 1 + length a = p + length l + 2)"
proof -
  let ?r = "lines ls @ CRLF @ body"
  define pre where "pre = takeWhile (\<lambda>c. c \<noteq> CHR '':'') l"
  define t where "t = tl (dropWhile (\<lambda>c. c \<noteq> CHR '':'') l)"
  define sp where "sp = takeWhile (\<lambda>c. c = SP) t"
  obtain x v where xv: "line_value l = x # v" using v by (cases "line_value l") auto
  have ne: "dropWhile (\<lambda>c. c \<noteq> CHR '':'') l \<noteq> []" using c by (auto simp: dropWhile_eq_Nil_conv)
  have l: "l = pre @ CHR '':'' # t"
  proof -
    have "dropWhile (\<lambda>c. c \<noteq> CHR '':'') l = CHR '':'' # t"
      unfolding t_def using ne hd_dropWhile [OF ne] by (cases "dropWhile (\<lambda>c. c \<noteq> CHR '':'') l") auto
    then show ?thesis unfolding pre_def using takeWhile_dropWhile_id [of "\<lambda>c. c \<noteq> CHR '':''" l] by simp
  qed
  have t: "t = sp @ x # v" unfolding sp_def using xv takeWhile_dropWhile_id [of "\<lambda>c. c = SP" t] by (simp add: line_value_def t_def)
  have x: "x \<noteq> SP" using xv hd_dropWhile [of "\<lambda>c. c = SP" t] by (simp add: line_value_def t_def)
  have pl: "CR \<notin> set l" "LF \<notin> set l" "NUL \<notin> set l" using b by (auto simp: before_lines_def plain_line_def)
  let ?j = "p + length pre + 2"
  let ?val = "?j + length sp"
  let ?eol = "?val + length v + 2"
  have n: "length l = length pre + length sp + length v + 2" by (subst l) (simp add: t)
  have d0: "drop p m = (LF # pre) @ CHR '':'' # t @ CRLF @ ?r"
    using b by (subst (asm) l) (simp add: before_lines_def)
  have d1: "drop ?j m = sp @ x # v @ CRLF @ ?r"
    using drop_more [of p m "LF # pre @ '':''"] d0 t by (simp add: algebra_simps)
  have d2: "drop ?val m = (x # v @ [CR]) @ LF # ?r" using drop_more [OF d1] by simp
  have cp: "CHR '':'' \<notin> set (LF # pre)" using set_takeWhileD unfolding pre_def by fastforce
  have s1: "skip_name m p = Inr ?j" using skip_name_drop [OF d0 cp] by simp
  have s2: "skip_spaces m ?j = ?val" by (rule skip_spaces_drop [OF d1 _ x]) (auto simp: sp_def dest: set_takeWhileD)
  have vl: "set (x # v) \<subseteq> set l" unfolding l t by auto
  then have lfv: "LF \<notin> set (x # v @ [CR])" using pl by auto
  have s3: "chr_from LF m ?val = Some ?eol" using chr_from_drop [OF d2 lfv] by simp
  have a1: "at m (?eol - 1) = CR" using at_next [of ?val m "x # v" CR "LF # ?r"] d2 by simp
  have d3: "drop (?eol + 1) m = ?r" using drop_more [of ?val m "x # v @ [CR, LF]"] d2 by (simp add: algebra_simps)
  have ends: "\<not> is_blank (at m (?eol + 1)) \<and> (at m (?eol + 1) = CR \<and> at m (?eol + 2) = LF \<longleftrightarrow> ls = [])"
  proof (cases ls)
    case Nil
    then show ?thesis using at_next [of "?eol + 1" m "[]" CR "LF # body"] at_next [of "?eol + 1" m "[CR]" LF body] d3
      by (simp add: is_blank_def)
  next
    case (Cons l' ls')
    then have "plain_line l'" using b by (simp add: before_lines_def)
    then obtain y ys where y: "l' = y # ys" "y \<noteq> CR" "\<not> is_blank y" by (cases l') (auto simp: plain_line_def)
    then show ?thesis using at_next [of "?eol + 1" m "[]" y] d3 Cons by simp
  qed
  have s4: "last_eol m ?val = Some ?eol" by (subst last_eol.simps) (use s3 ends in \<open>simp add: is_blank_def\<close>)
  let ?e = "if ls = [] then ?eol - 1 else ?eol"
  have hv: "internal_header_value m p = Inr (?val, ?e)"
    using s1 s2 s4 a1 ends by (auto simp: internal_header_value_def Let_def)
  moreover have "sub m ?val ?e = line_value l @ (if ls = [] then [] else [CR])"
    using sub_drop [of ?val m "x # v" "CRLF @ ?r"] sub_drop [OF d2] d2 xv by auto
  moreover have "at m ?val \<noteq> NUL" using at_next [of ?val m "[]" x] d2 vl pl by auto
  moreover have "drop (?val + 1) m = (v @ [CR]) @ LF # ?r" using drop_more [of ?val m "[x]"] d2 by simp
  moreover have "LF \<notin> set (v @ [CR])" "?val + 1 + length (v @ [CR]) = p + length l + 2" using lfv n by auto
  ultimately show ?thesis by blast
qed

section \<open>The joined value\<close>

definition comma_join :: "string \<Rightarrow> string list \<Rightarrow> string" where
  "comma_join d vs = foldl (\<lambda>d v. if d = [] then v else d @ '', '' @ v) d vs"

lemma comma_join_simps [simp]:
  "comma_join d [] = d" "comma_join d (v # vs) = comma_join (if d = [] then v else d @ '', '' @ v) vs"
  by (simp_all add: comma_join_def)

lemma comma_join_length: "length d \<le> length (comma_join d vs)"
proof (induction vs arbitrary: d)
  case (Cons v vs)
  show ?case using Cons.IH [of "if d = [] then v else d @ '', '' @ v"] by (auto split: if_splits)
qed simp

text \<open>A value that the join keeps as it is.\<close>

definition plain_value :: "string \<Rightarrow> bool" where
  "plain_value v \<longleftrightarrow> v \<noteq> [] \<and> hd v \<noteq> SP \<and> CR \<notin> set v \<and> LF \<notin> set v \<and> \<not> is_ws (last v) \<and> last v \<noteq> CHR '':''"

lemma plain_value_Nil [simp]: "\<not> plain_value []"
  by (simp add: plain_value_def)

lemma comma_join_plain:
  "d = [] \<or> plain_value d \<Longrightarrow> \<forall>v\<in>set vs. plain_value v \<Longrightarrow> d \<noteq> [] \<or> vs \<noteq> [] \<Longrightarrow> plain_value (comma_join d vs)"
proof (induction vs arbitrary: d)
  case (Cons v vs)
  then have "plain_value (if d = [] then v else d @ '', '' @ v)" by (auto simp: plain_value_def)
  then have "plain_value (comma_join (if d = [] then v else d @ '', '' @ v) vs)" using Cons.IH Cons.prems by fastforce
  then show ?case by simp
qed simp

lemma last_not_LF: "plain_value v \<Longrightarrow> last v \<noteq> LF"
  by (metis last_in_set plain_value_def)

lemma join_separator_plain:
  assumes d: "d = [] \<and> t = [] \<or> plain_value d \<and> (t = [] \<or> t = [CR])" and room: "length d + 2 \<le> HEADER_ROOM"
  shows "join_separator (d @ t) False = (True, if d = [] then [] else d @ '', '', False)"
proof (cases "d = []")
  case False
  then have v: "plain_value d" and t: "t = [] \<or> t = [CR]" using d by auto
  have "rstrip (\<lambda>c. is_ws c \<or> c = LF) (d @ t) = d @ rstrip (\<lambda>c. is_ws c \<or> c = LF) t"
    by (rule rstrip_append) (use v last_not_LF [OF v] in \<open>auto simp: plain_value_def\<close>)
  moreover have "rstrip (\<lambda>c. is_ws c \<or> c = LF) t = []" by (rule rstrip_all) (use t in \<open>auto simp: is_ws_def\<close>)
  moreover have "last d \<noteq> CHR '':''" using v by (simp add: plain_value_def)
  ultimately show ?thesis using False room by (simp add: join_separator_def Let_def internal_append_def)
qed (use d in \<open>simp add: join_separator_def\<close>)

lemma join_before_lines:
  assumes "before_lines m p ls body" and "name \<noteq> []" "CR \<notin> set name" "CHR '':'' \<in> set name"
    and "\<forall>l\<in>set ls. line_of name l \<longrightarrow> plain_value (line_value l)"
    and "d = [] \<and> t = [] \<or> plain_value d \<and> (t = [] \<or> t = [CR])"
    and "length (comma_join d (map line_value (filter (line_of name) ls))) + 1 \<le> HEADER_ROOM"
  shows "\<exists>u. join_loop m (internal_header_name name) (internal_match_header m p (internal_header_name name)) (d @ t) False =
      Inr (comma_join d (map line_value (filter (line_of name) ls)) @ u, False) \<and>
    (u = [] \<or> u = [CR]) \<and> (d = [] \<and> filter (line_of name) ls = [] \<longrightarrow> u = [])"
  using assms(1,5-)
proof (induction ls arbitrary: p d t)
  case Nil
  then show ?case using match_before_lines [OF Nil.prems(1) assms(2,3)] by (auto simp: join_loop.simps [where lineo = None])
next
  case (Cons l ls)
  let ?h = "internal_header_name name"
  note B = before_lines_next [OF Cons.prems(1)]
  note M = match_before_lines [OF Cons.prems(1) assms(2,3), simplified]
  show ?case
  proof (cases "line_of name l")
    case False
    then show ?thesis using M Cons.IH [OF B(1), of d t] Cons.prems by simp
  next
    case True
    let ?d = "if d = [] then line_value l else d @ '', '' @ line_value l"
    have v: "plain_value (line_value l)" using Cons.prems(2) True by simp
    then have pd: "plain_value ?d" using Cons.prems(3) by (auto simp: plain_value_def)
    have jn: "comma_join d (map line_value (filter (line_of name) (l # ls))) = comma_join ?d (map line_value (filter (line_of name) ls))"
      using True by simp
    have len: "length ?d + 1 \<le> HEADER_ROOM"
      using Cons.prems(4) comma_join_length [of ?d "map line_value (filter (line_of name) ls)"] unfolding jn by simp
    have c: "CHR '':'' \<in> set l" by (rule line_of_colon [OF True assms(4)])
    obtain val e a where V: "internal_header_value m p = Inr (val, e)"
      "sub m val e = line_value l @ (if ls = [] then [] else [CR])" "at m val \<noteq> NUL"
      "drop (val + 1) m = a @ LF # lines ls @ CRLF @ body" "LF \<notin> set a" "val + 1 + length a = p + length l + 2"
      using value_before_lines [OF Cons.prems(1) c] v by (auto simp: plain_value_def)
    let ?t = "if ls = [] then [] else [CR]"
    have nx: "internal_match_header m (val + 1) ?h = internal_match_header m (p + length l + 2) ?h"
      using match_from_drop [OF V(4,5)] V(6) by simp
    have "d \<noteq> [] \<Longrightarrow> length d + 2 \<le> HEADER_ROOM" using len v by (cases "line_value l") (auto simp: plain_value_def)
    moreover have "2 \<le> HEADER_ROOM" by (simp add: HEADER_ROOM_def MAX_HEADER_LEN_def)
    ultimately have room: "length d + 2 \<le> HEADER_ROOM" by (cases "d = []") auto
    have ap: "internal_append (if d = [] then [] else d @ '', '') (line_value l @ ?t) False = (True, ?d @ ?t, False)"
      using len by (auto simp: internal_append_def Let_def split: if_splits)
    have "join_loop m ?h (Some p) (d @ t) False = join_loop m ?h (internal_match_header m (p + length l + 2) ?h) (?d @ ?t) False"
      by (subst join_loop.simps)
        (simp only: option.case V(1,2) sum.case prod.case join_separator_plain [OF Cons.prems(3) room] ap nx
           if_P [OF V(3)] not_True_eq_False if_False)
    moreover have "\<exists>u. join_loop m ?h (internal_match_header m (p + length l + 2) ?h) (?d @ ?t) False =
      Inr (comma_join ?d (map line_value (filter (line_of name) ls)) @ u, False) \<and> (u = [] \<or> u = [CR]) \<and>
      (?d = [] \<and> filter (line_of name) ls = [] \<longrightarrow> u = [])"
      by (rule Cons.IH [OF B(1)]) (use Cons.prems pd jn in auto)
    moreover have "?d \<noteq> []" using pd by (simp add: plain_value_def)
    ultimately show ?thesis using M True jn by (auto split: if_splits)
  qed
qed

lemma tidy_plain:
  assumes "plain_value r" and "u = [] \<or> u = [CR]"
  shows "tidy (r @ u) = r"
proof (rule tidy_id)
  obtain c t where r: "r = c # t" using assms(1) by (cases r) auto
  have u: "rstrip is_ws u = []" by (rule rstrip_all) (use assms(2) in \<open>auto simp: is_ws_def\<close>)
  show "r = rstrip1 is_ws (r @ u)"
  proof (cases "t = []")
    case False
    then have "\<not> is_ws (last t)" using assms(1) r by (simp add: plain_value_def)
    then show ?thesis using rstrip_append [OF False, of is_ws u] u r by (simp add: rstrip1_def)
  qed (use u r in \<open>simp add: rstrip1_def\<close>)
qed (use assms(1) find_sub_absent in \<open>auto simp: plain_value_def\<close>)

lemma after_start_line:
  assumes "CR \<notin> set l0" "LF \<notin> set l0" "\<forall>l\<in>set ls. plain_line l" and m: "m = lines (l0 # ls) @ CRLF @ body"
  shows "before_lines m (length l0 + 1) ls body"
    and "internal_match_header m 0 h = internal_match_header m (length l0 + 1) h"
proof -
  have d: "drop 0 m = (l0 @ [CR]) @ LF # lines ls @ CRLF @ body" using m by simp
  have "at m (length l0) = CR" using at_next [of 0 m l0 CR "LF # lines ls @ CRLF @ body"] m by simp
  then show "before_lines m (length l0 + 1) ls body" using assms drop_more [OF d] by (simp add: before_lines_def)
  show "internal_match_header m 0 h = internal_match_header m (length l0 + 1) h"
    using match_from_drop [OF d] assms by simp
qed

text \<open>
  C23: the value of a header of a message. In a message made of a start line, header lines, an empty
  line and a body, \<open>get_header_content\<close> returns the values of all lines with the name, in full or
  compact form and in any case, in their order, joined by a comma and a space; text of the body that
  looks like such a line does not count. The values are assumed not to end with blanks or a colon,
  and the result to fit the buffer.
\<close>

theorem get_header_content_values:
  assumes "CR \<notin> set l0" "LF \<notin> set l0" "\<forall>l\<in>set ls. plain_line l"
    and "CR \<notin> set name" "LF \<notin> set name" "CHR '':'' \<in> set name"
    and "\<forall>l\<in>set ls. line_of name l \<longrightarrow> plain_value (line_value l)"
    and "length (comma_join [] (map line_value (filter (line_of name) ls))) + 1 \<le> HEADER_ROOM"
  shows "get_header_content (lines (l0 # ls) @ CRLF @ body) name =
    Inr (comma_join [] (map line_value (filter (line_of name) ls)))"
proof -
  define m where "m = lines (l0 # ls) @ CRLF @ body"
  let ?h = "internal_header_name name" and ?r = "comma_join [] (map line_value (filter (line_of name) ls))"
  note B = after_start_line [OF assms(1-3) m_def]
  have ne: "name \<noteq> []" "m \<noteq> []" using assms(6) by (auto simp: m_def)
  obtain u where J: "join_loop m ?h (internal_match_header m 0 ?h) [] False = Inr (?r @ u, False)"
    and u: "u = [] \<or> u = [CR]" "filter (line_of name) ls = [] \<longrightarrow> u = []"
    using join_before_lines [OF B(1) ne(1) assms(4,6,7), of "[]" "[]"] assms(8) B(2) by auto
  have G: "get_header m name True = (case internal_match_header m 0 ?h of None \<Rightarrow> Inr []
      | Some line \<Rightarrow> internal_join_headers m line ?h True)"
    using get_header_join [OF assms(5), of m True] ne assms(6) by simp
  have "get_header m name True = Inr ?r"
  proof (cases "internal_match_header m 0 ?h")
    case None
    then have "?r = []" using J by (simp add: join_loop.simps [where lineo = None])
    then show ?thesis using G None by simp
  next
    case (Some line)
    then have "get_header m name True = Inr (if ?r @ u = [] then [] else tidy (?r @ u))"
      using G J by (simp add: internal_join_headers_def tidy_def)
    moreover have "?r = [] \<or> plain_value ?r" using comma_join_plain [of "[]"] assms(7) by (cases "filter (line_of name) ls = []") auto
    moreover have "?r = [] \<Longrightarrow> u = []" using u comma_join_plain [of "[]" "map line_value (filter (line_of name) ls)"] assms(7) by fastforce
    ultimately show ?thesis using tidy_plain [OF _ u(1)] by auto
  qed
  then show ?thesis by (simp add: get_header_content_def m_def)
qed

lemma eq_nocase_Cons: "eq_nocase (c # s) (d # t) \<longleftrightarrow> tolower c = tolower d \<and> eq_nocase s t"
  by (simp add: eq_nocase_def)

theorem get_header_content_values_witness:
  "get_header_content (lines [''OK'', ''A: a'', ''B: b'', ''a: c''] @ CRLF @ ''A: d'') ''A:'' = Inr ''a, c''"
proof -
  have c: "internal_compact_header_name ''A:'' = None"
    by (simp add: internal_compact_header_name_def compact_names_def)
  have t: "tolower CHR ''A'' = CHR ''a''" "tolower CHR ''a'' = CHR ''a''" "tolower CHR ''B'' = CHR ''b''"
    by (simp_all add: tolower_def isupper_def byte_def char_of_def bit_Suc_0_iff)
  have f: "filter (line_of ''A:'') [''A: a'', ''B: b'', ''a: c''] = [''A: a'', ''a: c'']"
    by (simp add: line_of_def c eq_nocase_Cons t)
  have v: "line_value ''A: a'' = ''a''" "line_value ''a: c'' = ''c''" by (simp_all add: line_value_def)
  have "get_header_content (lines (''OK'' # [''A: a'', ''B: b'', ''a: c'']) @ CRLF @ ''A: d'') ''A:'' =
      Inr (comma_join [] (map line_value (filter (line_of ''A:'') [''A: a'', ''B: b'', ''a: c''])))"
  proof (rule get_header_content_values)
    show "\<forall>l\<in>set [''A: a'', ''B: b'', ''a: c'']. plain_line l" by (simp add: plain_line_def is_blank_def)
    have "\<forall>l\<in>set (filter (line_of ''A:'') [''A: a'', ''B: b'', ''a: c'']). plain_value (line_value l)"
      unfolding f by (simp add: v plain_value_def is_ws_def)
    then show "\<forall>l\<in>set [''A: a'', ''B: b'', ''a: c'']. line_of ''A:'' l \<longrightarrow> plain_value (line_value l)"
      by (simp only: set_filter mem_Collect_eq) blast
    show "length (comma_join [] (map line_value (filter (line_of ''A:'') [''A: a'', ''B: b'', ''a: c'']))) + 1 \<le> HEADER_ROOM"
      unfolding f by (simp add: v HEADER_ROOM_def MAX_HEADER_LEN_def)
  qed simp_all
  then show ?thesis unfolding f by (simp add: v)
qed

section \<open>Numbers\<close>

text \<open>
  \<open>header_number\<close> reads the number of a header as \<open>atol\<close> does: blanks, one sign, digits, and
  the value clipped to a \<^verbatim>\<open>long\<close>.
\<close>

theorem header_number_is_atol: "header_number v = atol v"
proof -
  define p where "p = dropWhile isspace v"
  have sign: "\<not> isdigit CHR ''-''" "\<not> isdigit CHR ''+''" by (simp_all add: isdigit_def byte_def)
  have H: "header_number v = (let q = (if length p > 1 \<and> hd p = CHR ''+'' \<and> p ! 1 \<noteq> CHR ''-'' then tl p else p)
      in case from_chars q of None \<Rightarrow> 0 | Some n \<Rightarrow> if - LONG_MAX - 1 \<le> n \<and> n \<le> LONG_MAX then n
           else if hd q = CHR ''-'' then - LONG_MAX - 1 else LONG_MAX)"
    unfolding header_number_def p_def Let_def ..
  have A: "atol v = (let neg = (p \<noteq> [] \<and> hd p = CHR ''-'');
      ds = takeWhile isdigit (if p \<noteq> [] \<and> (hd p = CHR ''-'' \<or> hd p = CHR ''+'') then tl p else p)
      in if ds = [] then 0 else clamp_long (if neg then - int (decimal ds) else int (decimal ds)))"
    by (simp add: atol_def strtol_def p_def Let_def)
  have clip: "clamp_long n = (if - LONG_MAX - 1 \<le> n \<and> n \<le> LONG_MAX then n else if n < 0 then - LONG_MAX - 1 else LONG_MAX)" for n
    by (auto simp: clamp_long_def LONG_MAX_def)
  have pos: "int n \<le> LONG_MAX \<or> \<not> int n < 0" "- LONG_MAX - 1 \<le> int n" for n by (auto simp: LONG_MAX_def)
  have neg: "- LONG_MAX - 1 \<le> - int n \<or> - int n < 0" "- int n \<le> LONG_MAX" "- 1 \<le> LONG_MAX" for n by (auto simp: LONG_MAX_def)
  show ?thesis
  proof (cases p)
    case Nil
    then show ?thesis unfolding H A by (simp add: from_chars_def)
  next
    case (Cons c t)
    consider "c = CHR ''-''" | "c = CHR ''+''" "t = [] \<or> hd t = CHR ''-''" | "c = CHR ''+''" "t \<noteq> []" "hd t \<noteq> CHR ''-''"
      | "c \<noteq> CHR ''-''" "c \<noteq> CHR ''+''" by blast
    then show ?thesis
    proof cases
      case 1
      then show ?thesis unfolding H A clip using Cons neg by (simp add: from_chars_def Let_def)
    next
      case 2
      then have "takeWhile isdigit t = []" using sign by (cases t) auto
      moreover have "t \<noteq> [] \<Longrightarrow> t ! 0 = CHR ''-''" using 2 by (cases t) auto
      ultimately show ?thesis unfolding H A using Cons 2 sign by (auto simp: from_chars_def Let_def)
    next
      case 3
      then have "t ! 0 \<noteq> CHR ''-''" by (cases t) auto
      then show ?thesis unfolding H A clip using Cons 3 pos by (simp add: from_chars_def Let_def)
    next
      case 4
      then show ?thesis unfolding H A clip using Cons pos by (simp add: from_chars_def Let_def)
    qed
  qed
qed

end
