(* ===== verification/Infile.thy ===== *)
theory Infile
  imports C_Strings "HOL-Library.Signed_Division"
begin

text \<open>
  The injection files of \<^verbatim>\<open>infile.cpp\<close>: reading a file, its fields, the choice of the next line and
  the index of a field. \<^verbatim>\<open>rand()\<close> is an argument of \<open>nextLine\<close>; the text of the file is an argument
  of the constructor, \<open>None\<close> when it cannot be opened. A message of \<^verbatim>\<open>ERROR\<close> is the fixed part of its
  format; warnings are left out.
\<close>

datatype input_file_usage = InputFileSequentialOrder | InputFileRandomOrder | InputFileUser

record infile =
  usage :: input_file_usage
  lineCounter :: int
  fileLines :: "string list"
  printfFile :: bool
  printfOffset :: int
  printfMultiple :: int
  numLinesInFile :: int
  realLinesInFile :: int
  indexField :: int
  indexMap :: "string \<Rightarrow> int option"

section \<open>The first line\<close>

text \<open>\<^verbatim>\<open>strstr\<close>, the suffix where the pattern is.\<close>

definition strstr :: "string \<Rightarrow> string \<Rightarrow> string option" where
  "strstr s pat = map_option (\<lambda>n. drop n s) (find_sub pat s)"

text \<open>\<^verbatim>\<open>strtoul(s, &end, 0)\<close>: the base is 16 after \<^verbatim>\<open>0x\<close>, 8 after \<^verbatim>\<open>0\<close>, else 10.\<close>

definition digit_of :: "nat \<Rightarrow> char \<Rightarrow> nat option" where
  "digit_of base c =
     (let v = (if isdigit c then Some (byte c - 48)
               else if 97 \<le> byte (tolower c) \<and> byte (tolower c) \<le> 102 then Some (byte (tolower c) - 87) else None)
      in case v of None \<Rightarrow> None | Some d \<Rightarrow> if d < base then Some d else None)"

fun digits_in :: "nat \<Rightarrow> string \<Rightarrow> nat \<Rightarrow> nat \<times> string" where
  "digits_in base [] v = (v, [])"
| "digits_in base (c # s) v =
     (case digit_of base c of None \<Rightarrow> (v, c # s) | Some d \<Rightarrow> digits_in base s (base * v + d))"

definition strtoul0 :: "string \<Rightarrow> nat \<times> string" where
  "strtoul0 s =
     (let t = dropWhile isspace s;
          neg = (t \<noteq> [] \<and> hd t = CHR ''-'');
          u = (if t \<noteq> [] \<and> (hd t = CHR ''-'' \<or> hd t = CHR ''+'') then tl t else t);
          hex = (length u > 2 \<and> u ! 0 = CHR ''0'' \<and> tolower (u ! 1) = CHR ''x'' \<and> digit_of 16 (u ! 2) \<noteq> None);
          base = (if hex then 16 else if u \<noteq> [] \<and> hd u = CHR ''0'' then 8 else 10);
          w = (if hex then drop 2 u else u)
      in if w = [] \<or> digit_of base (hd w) = None then (0, s)
         else case digits_in base w 0 of (v, r) \<Rightarrow>
           (if v \<ge> 2 ^ 64 then 2 ^ 64 - 1 else if neg then (2 ^ 64 - v) mod 2 ^ 64 else v, r))"

lemma strstr_le: "strstr s pat = Some t \<Longrightarrow> length t \<le> length s \<and> length pat \<le> length t"
  by (auto simp: strstr_def dest!: find_sub_le)

text \<open>The key as a whole word. The keys of the callers are not empty.\<close>

function find_key :: "string \<Rightarrow> string \<Rightarrow> string option" where
  "find_key key p =
     (case strstr p key of
        None \<Rightarrow> None
      | Some t \<Rightarrow>
          let r = drop (length key) t
          in if key \<noteq> [] \<and> r \<noteq> [] \<and> isalnum (hd r) then find_key key r else Some t)"
  by pat_completeness auto
termination
proof (relation "measure (\<lambda>(key, p). length p)")
  fix key p t r
  assume s: "strstr p key = Some t" and r: "r = drop (length key) t" and c: "key \<noteq> [] \<and> r \<noteq> [] \<and> isalnum (hd r)"
  have "0 < length key" "length r = length t - length key" "length t \<le> length p" "length key \<le> length t"
    using strstr_le [OF s] r c by auto
  then show "((key, r), (key, p)) \<in> measure (\<lambda>(key, p). length p)"
    unfolding in_measure prod.case by linarith
qed simp

declare find_key.simps [simp del]

definition get_printf_param :: "string \<Rightarrow> string \<Rightarrow> nat option res" where
  "get_printf_param line key =
     (case find_key key line of
        None \<Rightarrow> Inr None
      | Some t \<Rightarrow>
          let p = drop (length key) t
          in if p = [] \<or> hd p \<noteq> CHR ''='' then Inl (ERROR ''Invalid specification (requires =)'')
             else case strtoul0 (tl p) of (v, r) \<Rightarrow>
               if r \<noteq> [] \<and> hd r \<noteq> CHR '','' then Inl (ERROR ''Invalid specification (invalid end character)'')
               else Inr (Some v))"

section \<open>Reading the file\<close>

text \<open>The pieces of a text between separators: what \<^verbatim>\<open>std::getline\<close> reads until the end of file.\<close>

fun split_at :: "char \<Rightarrow> string \<Rightarrow> string list" where
  "split_at c [] = [[]]"
| "split_at c (x # s) =
     (if x = c then [] # split_at c s
      else case split_at c s of [] \<Rightarrow> [[x]] | p # ps \<Rightarrow> (x # p) # ps)"

definition chop_CR :: "string \<Rightarrow> string" where
  "chop_CR l = (if l \<noteq> [] \<and> last l = CR then butlast l else l)"

fun read_lines :: "string list \<Rightarrow> string list" where
  "read_lines [] = []"
| "read_lines (l # ls) =
     (if l = [] then []
      else if hd l = CHR ''#'' then read_lines ls
      else chop_CR l # read_lines ls)"

definition usage_of :: "string \<Rightarrow> input_file_usage res" where
  "usage_of line =
     (if strstr line ''RANDOM'' \<noteq> None then Inr InputFileRandomOrder
      else if strstr line ''SEQUENTIAL'' \<noteq> None then Inr InputFileSequentialOrder
      else if strstr line ''USER'' \<noteq> None then Inr InputFileUser
      else Inl (ERROR ''Unknown file type (valid values are RANDOM, SEQUENTIAL, and USER)''))"

definition FileContents :: "string option \<Rightarrow> infile res" where
  "FileContents file =
     (case file of
        None \<Rightarrow> Inl (ERROR ''Unable to open file'')
      | Some text \<Rightarrow>
          let line = c_str (chop_CR (hd (split_at LF text)));
              data = read_lines (tl (split_at LF text))
          in bindE (usage_of line) (\<lambda>u.
             bindE (get_printf_param line ''PRINTF'') (\<lambda>v1.
             let virtualLines = (case v1 of None \<Rightarrow> 0 | Some v \<Rightarrow> to_int32 (int v))
             in if v1 \<noteq> None \<and> virtualLines = 0 then Inl (ERROR ''A printf file must have at least one virtual line'')
             else
             bindE (get_printf_param line ''PRINTFOFFSET'') (\<lambda>v2.
             bindE (get_printf_param line ''PRINTFMULTIPLE'') (\<lambda>v3.
               if data = [] then Inl (ERROR ''Input file has zero lines'')
               else Inr \<lparr>usage = u, lineCounter = 0, fileLines = data, printfFile = (v1 \<noteq> None),
                         printfOffset = (case v2 of None \<Rightarrow> 0 | Some v \<Rightarrow> to_int32 (int v)),
                         printfMultiple = (case v3 of None \<Rightarrow> 1 | Some v \<Rightarrow> to_int32 (int v)),
                         numLinesInFile = (if v1 \<noteq> None then virtualLines else int (length data)),
                         realLinesInFile = int (length data),
                         indexField = -1, indexMap = Map.empty\<rparr>)))))"

text \<open>An index out of range is undefined.\<close>

definition getLine :: "infile \<Rightarrow> int \<Rightarrow> string res" where
  "getLine f line =
     (let l = (if printfFile f then line smod realLinesInFile f else line)
      in if 0 \<le> l \<and> l < int (length (fileLines f)) then Inr (fileLines f ! nat l) else Inl Undefined)"

section \<open>Fields\<close>

text \<open>
  \<^verbatim>\<open>snprintf\<close> of a \<^verbatim>\<open>long long\<close> with the flags \<^verbatim>\<open>-\<close> and \<^verbatim>\<open>0\<close>, a width and a precision. A precision of
  zero prints no digits for zero; the flag \<^verbatim>\<open>0\<close> is never used together with a precision.
\<close>

definition print_lld :: "bool \<Rightarrow> bool \<Rightarrow> nat \<Rightarrow> nat option \<Rightarrow> int \<Rightarrow> string" where
  "print_lld left zero width precision v =
     (let ds = (if precision = Some 0 \<and> v = 0 then [] else to_string (nat \<bar>v\<bar>));
          body = (case precision of None \<Rightarrow> ds | Some p \<Rightarrow> replicate (p - length ds) CHR ''0'' @ ds);
          sign = (if v < 0 then ''-'' else []);
          n = length sign + length body
      in if left then sign @ body @ replicate (width - n) SP
         else if zero then sign @ replicate (width - n) CHR ''0'' @ body
         else replicate (width - n) SP @ sign @ body)"

text \<open>The flags, and a number capped at the size of a message.\<close>

fun read_flags :: "string \<Rightarrow> bool \<Rightarrow> bool \<Rightarrow> bool \<times> bool \<times> string" where
  "read_flags (c # s) l z =
     (if c = CHR ''-'' then read_flags s True z
      else if c = CHR ''0'' then read_flags s l True
      else (l, z, c # s))"
| "read_flags [] l z = (l, z, [])"

fun read_capped :: "string \<Rightarrow> nat \<Rightarrow> nat \<times> string" where
  "read_capped (c # s) n =
     (if isdigit c then read_capped s (min (n * 10 + digit_value c) SIPP_MAX_MSG_SIZE) else (n, c # s))"
| "read_capped [] n = (n, [])"

lemma read_flags_le: "read_flags s l z = (l', z', r) \<Longrightarrow> length r \<le> length s"
  by (induction s l z rule: read_flags.induct) (auto split: if_splits)

lemma read_capped_le: "read_capped s n = (n', r) \<Longrightarrow> length r \<le> length s"
  by (induction s n rule: read_capped.induct) (auto split: if_splits)

text \<open>A conversion after its percent sign: flags, width, precision and what follows.\<close>

definition read_spec :: "string \<Rightarrow> (bool \<times> bool \<times> nat \<times> nat option) \<times> string" where
  "read_spec s =
     (case read_flags s False False of (l, z, s1) \<Rightarrow>
      case read_capped s1 0 of (w, s2) \<Rightarrow>
        if s2 \<noteq> [] \<and> hd s2 = CHR ''.''
        then case read_capped (tl s2) 0 of (p, s3) \<Rightarrow> ((l, z, w, Some p), s3)
        else ((l, z, w, None), s2))"

lemma read_spec_le: "read_spec s = (x, r) \<Longrightarrow> length r \<le> length s"
proof -
  obtain l z s1 where 1: "read_flags s False False = (l, z, s1)" by (metis prod_cases3)
  obtain w s2 where 2: "read_capped s1 0 = (w, s2)" by force
  obtain p s3 where 3: "read_capped (tl s2) 0 = (p, s3)" by force
  assume "read_spec s = (x, r)"
  then have "r = s3 \<or> r = s2" using 1 2 3 by (auto simp: read_spec_def split: if_splits)
  then show ?thesis using read_flags_le [OF 1] read_capped_le [OF 2] read_capped_le [OF 3] by auto
qed

definition print_piece :: "bool \<times> bool \<times> nat \<times> nat option \<Rightarrow> int \<Rightarrow> string" where
  "print_piece spec value =
     (case spec of (l, z, w, p) \<Rightarrow>
        let piece_size = max w (case p of None \<Rightarrow> 0 | Some k \<Rightarrow> k) + 32
        in take (piece_size - 1) (print_lld l (z \<and> \<not> l \<and> p = None) w p value))"

function expand_printf_field :: "string \<Rightarrow> int \<Rightarrow> string res" where
  "expand_printf_field s value =
     (case s of
        [] \<Rightarrow> Inr []
      | c # s' \<Rightarrow>
          if c \<noteq> CHR ''%'' then bindE (expand_printf_field s' value) (\<lambda>out. Inr (c # out))
          else if s' \<noteq> [] \<and> hd s' = CHR ''%'' then bindE (expand_printf_field (tl s') value) (\<lambda>out. Inr (CHR ''%'' # out))
          else case read_spec s' of (spec, r) \<Rightarrow>
            if r = [] then Inl (ERROR ''Invalid printf injection field (ran off end of line)'')
            else if hd r \<noteq> CHR ''d'' then Inl (ERROR ''Invalid printf injection field (only decimal values allowed)'')
            else bindE (expand_printf_field (tl r) value) (\<lambda>out. Inr (print_piece spec value @ out)))"
  by pat_completeness auto
termination
  by (relation "measure (\<lambda>(s, v). length s)") (auto dest!: read_spec_le [OF sym])

declare expand_printf_field.simps [simp del]

text \<open>\<^verbatim>\<open>getField\<close>: the loop over the separators, then the field and what is left of its number.\<close>

function field_loop :: "string \<Rightarrow> int \<Rightarrow> string \<times> int" where
  "field_loop line curfield =
     (if CHR '';'' \<notin> set line then (line, curfield)
      else if curfield = 0 then (takeWhile (\<lambda>c. c \<noteq> CHR '';'') line, curfield)
      else field_loop (tl (dropWhile (\<lambda>c. c \<noteq> CHR '';'') line)) (curfield - 1))"
  by pat_completeness auto
termination
proof (relation "measure (\<lambda>(line, n). length line)")
  fix line :: string and n :: int
  assume "\<not> CHR '';'' \<notin> set line"
  then have "line \<noteq> []" "length (dropWhile (\<lambda>c. c \<noteq> CHR '';'') line) \<le> length line"
    by (auto simp: length_dropWhile_le)
  then show "((tl (dropWhile (\<lambda>c. c \<noteq> CHR '';'') line), n - 1), (line, n)) \<in> measure (\<lambda>(line, n). length line)"
    by (cases line) auto
qed simp

declare field_loop.simps [simp del]

definition getField :: "infile \<Rightarrow> int \<Rightarrow> int \<Rightarrow> string res" where
  "getField f lineNum field =
     (if lineNum < 0 \<or> lineNum \<ge> numLinesInFile f then Inr []
      else bindE (getLine f lineNum) (\<lambda>line.
        case field_loop line field of (x, curfield) \<Rightarrow>
          if curfield \<noteq> 0 then Inr []
          else if printfFile f then expand_printf_field x (printfOffset f + lineNum * printfMultiple f)
          else Inr x))"

definition numLines :: "infile \<Rightarrow> int" where
  "numLines f = numLinesInFile f"

section \<open>The next line\<close>

definition nextLine :: "infile \<Rightarrow> int \<Rightarrow> bool \<Rightarrow> int \<Rightarrow> (int \<times> infile) res" where
  "nextLine f userId advance rnd =
     (case usage f of
        InputFileRandomOrder \<Rightarrow> Inr (rnd smod numLinesInFile f, f)
      | InputFileSequentialOrder \<Rightarrow>
          Inr (lineCounter f,
            if advance then f\<lparr>lineCounter := (lineCounter f + 1) smod numLinesInFile f\<rparr> else f)
      | InputFileUser \<Rightarrow>
          if userId = 0 then Inr (-1, f)
          else if userId - 1 \<ge> numLinesInFile f then Inl (ERROR ''not enough lines for the user'')
          else Inr (userId - 1, f))"

section \<open>The index\<close>

definition reIndex :: "infile \<Rightarrow> int \<Rightarrow> infile res" where
  "reIndex f line =
     (if indexField f = -1 then Inr f
      else if \<not> (line \<ge> 0 \<and> line < realLinesInFile f) then Inl AssertFailed
      else bindE (getField f line (indexField f)) (\<lambda>key. Inr (f\<lparr>indexMap := (indexMap f)(key \<mapsto> line)\<rparr>)))"

definition deIndex :: "infile \<Rightarrow> int \<Rightarrow> infile res" where
  "deIndex f line =
     (if indexField f = -1 then Inr f
      else if \<not> (line \<ge> 0 \<and> line < realLinesInFile f) then Inl AssertFailed
      else bindE (getField f line (indexField f)) (\<lambda>key.
        Inr (if indexMap f key = Some line then f\<lparr>indexMap := (indexMap f)(key := None)\<rparr> else f)))"

fun reIndex_loop :: "infile \<Rightarrow> int list \<Rightarrow> infile res" where
  "reIndex_loop f [] = Inr f"
| "reIndex_loop f (line # ls) = bindE (reIndex f line) (\<lambda>f'. reIndex_loop f' ls)"

definition index :: "infile \<Rightarrow> int \<Rightarrow> infile res" where
  "index f field = reIndex_loop (f\<lparr>indexField := field, indexMap := Map.empty\<rparr>) [0..numLines f - 1]"

definition lookup :: "infile \<Rightarrow> string \<Rightarrow> int res" where
  "lookup f key =
     (if indexField f = -1 then Inl (ERROR ''Invalid Index File'')
      else Inr (case indexMap f key of None \<Rightarrow> -1 | Some line \<Rightarrow> line))"

definition insert_line :: "infile \<Rightarrow> string \<Rightarrow> infile res" where
  "insert_line f v =
     (if printfFile f then Inl (ERROR ''Can not insert or replace into a printf file'')
      else
        let f' = f\<lparr>fileLines := fileLines f @ [v], realLinesInFile := realLinesInFile f + 1,
                   numLinesInFile := numLinesInFile f + 1\<rparr>
        in if indexField f' \<noteq> -1 then reIndex f' (realLinesInFile f' - 1) else Inr f')"

definition replace_line :: "infile \<Rightarrow> int \<Rightarrow> string \<Rightarrow> infile res" where
  "replace_line f line v =
     (if printfFile f then Inl (ERROR ''Can not insert or replace into a printf file'')
      else if line \<ge> realLinesInFile f \<or> line < 0 then Inl (ERROR ''Invalid line number'')
      else bindE (deIndex f line) (\<lambda>f1. reIndex (f1\<lparr>fileLines := (fileLines f1)[nat line := v]\<rparr>) line))"

end
