(* ===== verification/Infile_Correct.thy ===== *)
theory Infile_Correct
  imports Infile
begin

text \<open>
  Injection files: the invariant of a file, what a field is, what a lookup finds, and that a printed
  number reads back.
\<close>

section \<open>Fields\<close>

lemma split_at_not_Nil [simp]: "split_at c s \<noteq> []"
  by (induction s) (auto split: list.split)

lemma split_at_absent: "c \<notin> set s \<Longrightarrow> split_at c s = [s]"
  by (induction s) auto

lemma split_at_first: "c \<notin> set a \<Longrightarrow> split_at c (a @ c # b) = a # split_at c b"
  by (induction a) auto

lemma split_at_present:
  assumes "c \<in> set s"
  shows "split_at c s = takeWhile (\<lambda>x. x \<noteq> c) s # split_at c (tl (dropWhile (\<lambda>x. x \<noteq> c) s))"
proof -
  obtain a b where s: "s = a @ c # b" and a: "c \<notin> set a" using split_list_first [OF assms] by blast
  have "takeWhile (\<lambda>x. x \<noteq> c) (a @ c # b) = a" "dropWhile (\<lambda>x. x \<noteq> c) (a @ c # b) = c # b"
    using a by (auto simp: takeWhile_append dropWhile_append takeWhile_eq_all_conv)
  then show ?thesis using split_at_first [OF a] s by simp
qed

text \<open>The field by its number, nothing when there is none.\<close>

definition field_at :: "string \<Rightarrow> int \<Rightarrow> string option" where
  "field_at line k =
     (if 0 \<le> k \<and> k < int (length (split_at CHR '';'' line)) then Some (split_at CHR '';'' line ! nat k) else None)"

lemma field_loop_spec: "field_loop line k = (x, r) \<Longrightarrow> field_at line k = (if r = 0 then Some x else None)"
proof (induction line k arbitrary: x r rule: field_loop.induct)
  case (1 line k)
  show ?case
  proof (cases "CHR '';'' \<in> set line")
    case False
    then have "x = line" "r = k" using "1.prems" by (subst (asm) field_loop.simps, simp)+
    then show ?thesis using False by (auto simp: field_at_def split_at_absent)
  next
    case True
    note S = split_at_present [OF True]
    show ?thesis
    proof (cases "k = 0")
      case True
      then show ?thesis using "1.prems" \<open>CHR '';'' \<in> set line\<close>
        by (subst (asm) field_loop.simps) (auto simp: field_at_def S)
    next
      case k: False
      let ?rest = "tl (dropWhile (\<lambda>c. c \<noteq> CHR '';'') line)"
      have "field_loop ?rest (k - 1) = (x, r)"
        using "1.prems" True k by (subst (asm) field_loop.simps) simp
      then have "field_at ?rest (k - 1) = (if r = 0 then Some x else None)" using "1.IH" True k by blast
      moreover have "field_at line k = field_at ?rest (k - 1)"
        using k by (auto simp: field_at_def S nth_Cons' nat_diff_distrib)
      ultimately show ?thesis by simp
    qed
  qed
qed

section \<open>The invariant\<close>

definition counters_ok :: "infile \<Rightarrow> bool" where
  "counters_ok f \<longleftrightarrow>
     fileLines f \<noteq> [] \<and> realLinesInFile f = int (length (fileLines f)) \<and> numLinesInFile f \<noteq> 0 \<and>
     (\<not> printfFile f \<longrightarrow> numLinesInFile f = realLinesInFile f) \<and>
     (0 < numLinesInFile f \<longrightarrow> 0 \<le> lineCounter f \<and> lineCounter f < numLinesInFile f)"

definition keys_ok :: "infile \<Rightarrow> bool" where
  "keys_ok f \<longleftrightarrow> (\<forall>key line. indexMap f key = Some line \<longrightarrow>
     0 \<le> line \<and> line < realLinesInFile f \<and> getField f line (indexField f) = Inr key)"

definition infile_ok :: "infile \<Rightarrow> bool" where
  "infile_ok f \<longleftrightarrow> counters_ok f \<and> (indexField f \<noteq> -1 \<longrightarrow> keys_ok f)"

lemma smod_pos: "0 \<le> a \<Longrightarrow> 0 < b \<Longrightarrow> a smod b = a mod (b :: int)"
  by (cases "a = 0") (auto simp: signed_modulo_int_def signed_divide_int_def minus_div_mult_eq_mod)

lemma getLine_ok:
  assumes "infile_ok f" and "0 \<le> n" "n < numLinesInFile f"
  shows "getLine f n = Inr (fileLines f ! nat (n mod realLinesInFile f))"
proof -
  have r: "0 < realLinesInFile f" "realLinesInFile f = int (length (fileLines f))"
    using assms(1) by (auto simp: infile_ok_def counters_ok_def)
  show ?thesis
  proof (cases "printfFile f")
    case True
    then show ?thesis using r assms(2) by (simp add: getLine_def smod_pos)
  next
    case False
    then have "n < realLinesInFile f" using assms by (simp add: infile_ok_def counters_ok_def)
    then show ?thesis using r False assms(2) by (simp add: getLine_def)
  qed
qed

text \<open>
  The fields of an injection file. Field \<open>k\<close> of a line is the text between its semicolons \<open>k - 1\<close>
  and \<open>k\<close>, the last one the rest of the line; a field or line that is not there is empty. The lines
  of a \<^verbatim>\<open>PRINTF\<close> file repeat, and the fields are formats for the number of the line.
\<close>

theorem getField_is_field:
  assumes "infile_ok f"
  shows "getField f n k =
    (if n < 0 \<or> n \<ge> numLinesInFile f then Inr []
     else case field_at (fileLines f ! nat (n mod realLinesInFile f)) k of
            None \<Rightarrow> Inr []
          | Some x \<Rightarrow> if printfFile f then expand_printf_field x (printfOffset f + n * printfMultiple f) else Inr x)"
proof (cases "n < 0 \<or> n \<ge> numLinesInFile f")
  case False
  obtain x r where x: "field_loop (fileLines f ! nat (n mod realLinesInFile f)) k = (x, r)" by fastforce
  have "getLine f n = Inr (fileLines f ! nat (n mod realLinesInFile f))"
    by (rule getLine_ok [OF assms]) (use False in auto)
  then show ?thesis using False x field_loop_spec [OF x] by (simp add: getField_def)
qed (simp add: getField_def)

theorem getField_is_field_witness:
  "getField \<lparr>usage = InputFileUser, lineCounter = 0, fileLines = [''a;b''], printfFile = False, printfOffset = 0,
     printfMultiple = 1, numLinesInFile = 1, realLinesInFile = 1, indexField = -1, indexMap = Map.empty\<rparr> 0 1 = Inr ''b''"
  by (subst getField_is_field) (simp_all add: infile_ok_def counters_ok_def field_at_def)

lemma getField_upd [simp]:
  "getField (f\<lparr>indexMap := m\<rparr>) = getField f" "getField (f\<lparr>lineCounter := c\<rparr>) = getField f"
  "getField (f\<lparr>indexField := i\<rparr>) = getField f"
  by (cases f, simp only: getField_def [abs_def] getLine_def infile.simps cong: if_cong)+

text \<open>A file without \<^verbatim>\<open>PRINTF\<close>.\<close>

definition plain_field :: "infile \<Rightarrow> int \<Rightarrow> int \<Rightarrow> string" where
  "plain_field f n k = (case field_at (fileLines f ! nat n) k of None \<Rightarrow> [] | Some x \<Rightarrow> x)"

lemma getField_plain:
  assumes "\<not> printfFile f" "0 \<le> n" "n < numLinesInFile f" "numLinesInFile f = int (length (fileLines f))"
  shows "getField f n k = Inr (plain_field f n k)"
proof -
  obtain x r where x: "field_loop (fileLines f ! nat n) k = (x, r)" by fastforce
  show ?thesis using assms x field_loop_spec [OF x] by (auto simp: getField_def getLine_def plain_field_def)
qed

section \<open>Every operation keeps the invariant\<close>

lemma to_int32_0_1 [simp]: "to_int32 0 = 0" "to_int32 1 = 1"
  by (simp_all add: to_int32_def)

lemma keys_ok_empty [simp]: "indexMap f = Map.empty \<Longrightarrow> keys_ok f"
  by (simp add: keys_ok_def)

lemma keys_ok_upd [simp]:
  "keys_ok (f\<lparr>lineCounter := c\<rparr>) = keys_ok f" "counters_ok (f\<lparr>indexMap := m\<rparr>) = counters_ok f"
  "counters_ok (f\<lparr>indexField := i\<rparr>) = counters_ok f"
  by (simp_all add: keys_ok_def counters_ok_def)

lemma FileContents_result:
  assumes "FileContents src = Inr f"
  shows "fileLines f \<noteq> [] \<and> realLinesInFile f = int (length (fileLines f)) \<and> lineCounter f = 0 \<and> indexField f = -1 \<and>
    numLinesInFile f \<noteq> 0 \<and> (\<not> printfFile f \<longrightarrow> numLinesInFile f = realLinesInFile f)"
proof -
  obtain t where t: "src = Some t" using assms by (cases src) (auto simp: FileContents_def)
  show ?thesis
    using assms unfolding FileContents_def t option.case Let_def bindE_eq_Inr
    apply (elim exE conjE)
    apply (split if_split_asm, simp)
    apply (simp only: bindE_eq_Inr)
    apply (elim exE conjE)
    apply (split if_split_asm, simp)
    apply (auto split: option.splits)
    done
qed

lemma FileContents_ok [keeps]: "FileContents src = Inr f \<Longrightarrow> infile_ok f"
  using FileContents_result [of src f] by (simp add: infile_ok_def counters_ok_def)

lemma nextLine_ok [keeps]:
  assumes "infile_ok f" and "nextLine f u a r = Inr (n, f')"
  shows "infile_ok f'"
proof -
  have "f' = f \<or> f' = f\<lparr>lineCounter := (lineCounter f + 1) smod numLinesInFile f\<rparr>"
    using assms(2) by (auto simp: nextLine_def split: input_file_usage.splits if_splits)
  then show ?thesis using assms(1) by (auto simp: infile_ok_def counters_ok_def smod_pos)
qed

lemma reIndex_result:
  "reIndex f line = Inr f' \<longleftrightarrow>
    (if indexField f = -1 then f' = f
     else \<exists>key. 0 \<le> line \<and> line < realLinesInFile f \<and> getField f line (indexField f) = Inr key \<and>
       f' = f\<lparr>indexMap := (indexMap f)(key \<mapsto> line)\<rparr>)"
  by (auto simp: reIndex_def)

lemma reIndex_ok [keeps]:
  assumes "infile_ok f" and "reIndex f line = Inr f'"
  shows "infile_ok f'"
  using assms by (auto simp: reIndex_result infile_ok_def keys_ok_def split: if_splits)

lemma reIndex_loop_ok [keeps]: "infile_ok f \<Longrightarrow> reIndex_loop f ls = Inr f' \<Longrightarrow> infile_ok f'"
  by (induction ls arbitrary: f) (auto dest: reIndex_ok)

lemma index_ok [keeps]: "infile_ok f \<Longrightarrow> index f k = Inr f' \<Longrightarrow> infile_ok f'"
  by (rule reIndex_loop_ok [of "f\<lparr>indexField := k, indexMap := Map.empty\<rparr>"]) (auto simp: index_def infile_ok_def)

abbreviation with_line :: "infile \<Rightarrow> string \<Rightarrow> infile" where
  "with_line f v \<equiv> f\<lparr>fileLines := fileLines f @ [v], realLinesInFile := realLinesInFile f + 1,
     numLinesInFile := numLinesInFile f + 1\<rparr>"

lemma with_line_ok:
  assumes f: "infile_ok f" and np: "\<not> printfFile f"
  shows "infile_ok (with_line f v)"
    and "0 \<le> l \<Longrightarrow> l < realLinesInFile f \<Longrightarrow> getField (with_line f v) l k = getField f l k"
proof -
  have r: "numLinesInFile f = realLinesInFile f" "realLinesInFile f = int (length (fileLines f))"
    using f np by (auto simp: infile_ok_def counters_ok_def)
  show same: "getField (with_line f v) l k = getField f l k" if "0 \<le> l" "l < realLinesInFile f" for l k
    using getField_plain [of "with_line f v" l k] getField_plain [of f l k] that np r
    by (simp add: plain_field_def nth_append nat_less_iff)
  have "counters_ok (with_line f v)" using f np by (auto simp: infile_ok_def counters_ok_def)
  moreover have "keys_ok f \<Longrightarrow> keys_ok (with_line f v)"
    unfolding keys_ok_def using same by (fastforce simp del: getField_upd)
  ultimately show "infile_ok (with_line f v)" using f by (simp add: infile_ok_def)
qed

lemma insert_line_ok [keeps]:
  assumes f: "infile_ok f" and i: "insert_line f v = Inr f'"
  shows "infile_ok f'"
proof -
  have np: "\<not> printfFile f" using i by (auto simp: insert_line_def split: if_splits)
  show ?thesis using i np with_line_ok(1) [OF f np, of v]
    by (auto simp: insert_line_def Let_def dest: reIndex_ok split: if_splits)
qed

text \<open>The index after a line is replaced, before the line is indexed again: no key has the line.\<close>

lemma deIndex_result:
  assumes f: "infile_ok f" and np: "\<not> printfFile f" and l: "0 \<le> line" "line < realLinesInFile f" and i: "indexField f \<noteq> -1"
  shows "deIndex f line = Inr (f\<lparr>indexMap := (\<lambda>k. if indexMap f k = Some line then None else indexMap f k)\<rparr>)"
proof -
  define key where "key = plain_field f line (indexField f)"
  have g: "getField f line (indexField f) = Inr key"
    unfolding key_def by (rule getField_plain) (use f np l in \<open>auto simp: infile_ok_def counters_ok_def\<close>)
  then have own: "indexMap f k = Some line \<Longrightarrow> k = key" for k
    using f i by (fastforce simp: infile_ok_def keys_ok_def)
  have "(\<lambda>k. if indexMap f k = Some line then None else indexMap f k) =
      (if indexMap f key = Some line then (indexMap f)(key := None) else indexMap f)"
    by (auto simp: fun_eq_iff dest: own)
  then show ?thesis using g i l by (simp add: deIndex_def)
qed

definition replaced :: "infile \<Rightarrow> int \<Rightarrow> string \<Rightarrow> infile" where
  "replaced f line v = f\<lparr>indexMap := (if indexField f = -1 then indexMap f
       else (\<lambda>k. if indexMap f k = Some line then None else indexMap f k)),
     fileLines := (fileLines f)[nat line := v]\<rparr>"

lemma replaced_line:
  assumes f: "infile_ok f" and np: "\<not> printfFile f" and l: "0 \<le> line" "line < realLinesInFile f"
  shows "replace_line f line v = reIndex (replaced f line v) line" and "infile_ok (replaced f line v)"
proof -
  let ?f1 = "replaced f line v"
  show "replace_line f line v = reIndex ?f1 line"
    using np l deIndex_result [OF f np l] by (auto simp: replace_line_def replaced_def deIndex_def)
  have r: "numLinesInFile f = realLinesInFile f" "realLinesInFile f = int (length (fileLines f))"
    using f np by (auto simp: infile_ok_def counters_ok_def)
  have other: "getField ?f1 l' k = getField f l' k" if "0 \<le> l'" "l' < realLinesInFile f" "l' \<noteq> line" for l' k
    using getField_plain [of ?f1 l' k] getField_plain [of f l' k] that np r l
    by (simp add: plain_field_def nth_list_update nat_eq_iff replaced_def)
  have "counters_ok ?f1" using f by (simp add: infile_ok_def counters_ok_def replaced_def)
  moreover have "keys_ok ?f1" if "indexField f \<noteq> -1"
    unfolding keys_ok_def
  proof (intro allI impI)
    fix key l' assume m: "indexMap ?f1 key = Some l'"
    then have "indexMap f key = Some l'" "l' \<noteq> line" using that by (auto simp: replaced_def split: if_splits)
    moreover have "keys_ok f" using f that by (simp add: infile_ok_def)
    ultimately have "0 \<le> l'" "l' < realLinesInFile f" "getField f l' (indexField f) = Inr key" by (auto simp: keys_ok_def)
    then show "0 \<le> l' \<and> l' < realLinesInFile ?f1 \<and> getField ?f1 l' (indexField ?f1) = Inr key"
      using other [of l' "indexField f"] \<open>l' \<noteq> line\<close> by (simp add: replaced_def)
  qed
  ultimately show "infile_ok ?f1" by (simp add: infile_ok_def) (simp add: replaced_def)
qed

lemma replace_line_ok [keeps]:
  assumes "infile_ok f" "replace_line f line v = Inr f'"
  shows "infile_ok f'"
proof -
  have c: "\<not> printfFile f" "0 \<le> line" "line < realLinesInFile f"
    using assms(2) by (auto simp: replace_line_def split: if_splits)
  show ?thesis using replaced_line [OF assms(1) c, of v] assms(2) reIndex_ok by metis
qed

datatype infile_op = NextLine int bool int | Index int | Insert string | Replace int string

fun infile_step :: "infile_op \<Rightarrow> infile \<Rightarrow> infile res" where
  "infile_step (NextLine u a r) f = bindE (nextLine f u a r) (\<lambda>(n, f'). Inr f')"
| "infile_step (Index k) f = index f k"
| "infile_step (Insert v) f = insert_line f v"
| "infile_step (Replace l v) f = replace_line f l v"

interpretation input: invariant infile_step infile_ok
proof
  show "infile_ok s \<Longrightarrow> infile_step x s = Inr s' \<Longrightarrow> infile_ok s'" for s x s'
    by (cases x) (auto dest: keeps)
qed

text \<open>
  C24: the invariant of an injection file. After it is read and after any sequence of operations, a
  file has at least one line, the counters agree with the lines, the next line of a sequential file
  is one of its lines, and a key of the index leads to a line with that key.
\<close>

theorem infile_invariant:
  assumes "FileContents src = Inr f" and "run_res infile_step ops f = Inr f'"
  shows "infile_ok f'"
  using input.run_keeps [OF FileContents_ok [OF assms(1)] assms(2)] .

theorem infile_invariant_witness:
  "\<exists>f f'. FileContents (Some (''USER'' @ [LF] @ ''a;b'' @ [LF])) = Inr f \<and>
     run_res infile_step [Index 0, Insert ''c'', Replace 0 ''d''] f = Inr f' \<and> infile_ok f'"
proof -
  let ?f = "\<lparr>usage = InputFileUser, lineCounter = 0, fileLines = [''a;b''], printfFile = False, printfOffset = 0,
     printfMultiple = 1, numLinesInFile = 1, realLinesInFile = 1, indexField = -1, indexMap = Map.empty\<rparr>"
  have 1: "FileContents (Some (''USER'' @ [LF] @ ''a;b'' @ [LF])) = Inr ?f"
    by (simp add: FileContents_def usage_of_def strstr_def chop_CR_def c_str_def get_printf_param_def find_key.simps)
  have "\<exists>f'. run_res infile_step [Index 0, Insert ''c'', Replace 0 ''d''] ?f = Inr f'"
    by (simp add: index_def numLines_def reIndex_def deIndex_def insert_line_def replace_line_def getField_def getLine_def
        field_loop.simps upto.simps)
  then obtain f' where 2: "run_res infile_step [Index 0, Insert ''c'', Replace 0 ''d''] ?f = Inr f'" by blast
  show ?thesis using 1 2 infile_invariant [OF 1 2] by blast
qed

section \<open>Lookups\<close>

lemma lookup_upd: "lookup (f\<lparr>indexMap := m\<rparr>) key = (if indexField f = -1 then Inl (ERROR ''Invalid Index File'')
    else Inr (case m key of None \<Rightarrow> -1 | Some line \<Rightarrow> line))"
  by (simp add: lookup_def)

definition index_of :: "infile \<Rightarrow> int \<Rightarrow> int list \<Rightarrow> (string \<Rightarrow> int option) \<Rightarrow> string \<Rightarrow> int option" where
  "index_of f k ls m = foldl (\<lambda>m l. m(plain_field f l k \<mapsto> l)) m ls"

lemma index_of_snoc: "index_of f k (ls @ [l]) m = (index_of f k ls m)(plain_field f l k \<mapsto> l)"
  by (simp add: index_of_def)

lemma reIndex_loop_plain:
  assumes "\<not> printfFile f" "realLinesInFile f = int (length (fileLines f))" "numLinesInFile f = int (length (fileLines f))"
    and "indexField f \<noteq> -1" and "\<forall>l\<in>set ls. 0 \<le> l \<and> l < realLinesInFile f"
  shows "reIndex_loop (f\<lparr>indexMap := m\<rparr>) ls = Inr (f\<lparr>indexMap := index_of f (indexField f) ls m\<rparr>)"
  using assms(5)
proof (induction ls arbitrary: m)
  case (Cons l ls)
  then have "getField f l (indexField f) = Inr (plain_field f l (indexField f))" using getField_plain assms by simp
  then show ?case using Cons assms by (simp add: reIndex_def index_of_def)
qed (simp add: index_of_def)

lemma index_of_range:
  assumes "0 \<le> n"
  shows "case index_of f k [0..n - 1] Map.empty key of
      None \<Rightarrow> \<forall>l. 0 \<le> l \<longrightarrow> l < n \<longrightarrow> plain_field f l k \<noteq> key
    | Some l \<Rightarrow> 0 \<le> l \<and> l < n \<and> plain_field f l k = key \<and> (\<forall>l'. l < l' \<longrightarrow> l' < n \<longrightarrow> plain_field f l' k \<noteq> key)"
  using assms
proof (induction n rule: int_ge_induct)
  case base
  then show ?case by (simp add: index_of_def)
next
  case (step n)
  have u: "[0..n] = [0..n - 1] @ [n]" using step.hyps by (rule upto_rec2)
  show ?case
  proof (cases "plain_field f n k = key")
    case True
    then show ?thesis using step.hyps by (simp add: u index_of_snoc)
  next
    case False
    then have other: "plain_field f l k = key \<Longrightarrow> l \<noteq> n" for l by auto
    have "index_of f k [0..n] Map.empty key = index_of f k [0..n - 1] Map.empty key" using False by (simp add: u index_of_snoc)
    moreover have "plain_field f l k \<noteq> key" if "l < n \<longrightarrow> plain_field f l k \<noteq> key" "l < n + 1" for l
      using that other [of l] by force
    ultimately show ?thesis using step.IH by (cases "index_of f k [0..n - 1] Map.empty key") auto
  qed
qed



definition key_of :: "infile \<Rightarrow> string \<Rightarrow> string" where
  "key_of f v = (case field_at v (indexField f) of None \<Rightarrow> [] | Some x \<Rightarrow> x)"

text \<open>
  C26: the index follows the lines. A line added to an indexed file is found by its key and every
  other key as before. After a line is replaced, its new key leads to it, a key that led to it leads
  nowhere, and every other key leads where it did.
\<close>

theorem index_follows_changes:
  assumes f: "infile_ok f" and np: "\<not> printfFile f" and i: "indexField f \<noteq> -1"
  shows "(\<exists>f'. insert_line f v = Inr f' \<and> numLines f' = numLines f + 1 \<and> getLine f' (numLines f) = Inr v \<and>
      (\<forall>key. lookup f' key = (if key = key_of f v then Inr (numLines f) else lookup f key))) \<and>
    (0 \<le> line \<and> line < numLines f \<longrightarrow> (\<exists>f'. replace_line f line v = Inr f' \<and> getLine f' line = Inr v \<and>
      (\<forall>key. lookup f' key = (if key = key_of f v then Inr line
         else if lookup f key = Inr line then Inr (-1) else lookup f key))))"
proof -
  have r: "numLinesInFile f = int (length (fileLines f))" "realLinesInFile f = int (length (fileLines f))"
    using f np by (auto simp: infile_ok_def counters_ok_def)
  have g1: "getField (with_line f v) (int (length (fileLines f))) (indexField f) = Inr (key_of f v)"
    using getField_plain [of "with_line f v" "int (length (fileLines f))" "indexField f"] np r
    by (simp add: plain_field_def key_of_def)
  have 1: "insert_line f v = Inr ((with_line f v)\<lparr>indexMap := (indexMap f)(key_of f v \<mapsto> int (length (fileLines f)))\<rparr>)"
    using np i r g1 by (simp add: insert_line_def reIndex_def)
  have 2: "replace_line f line v = Inr ((replaced f line v)\<lparr>indexMap := (indexMap (replaced f line v))(key_of f v \<mapsto> line)\<rparr>)"
    if l: "0 \<le> line" "line < numLines f"
  proof -
    have "getField (replaced f line v) line (indexField f) = Inr (key_of f v)"
      using getField_plain [of "replaced f line v" line "indexField f"] np r l
      by (simp add: plain_field_def key_of_def replaced_def numLines_def)
    moreover have "replace_line f line v = reIndex (replaced f line v) line"
      by (rule replaced_line(1) [OF f np]) (use l r in \<open>simp_all add: numLines_def\<close>)
    ultimately show ?thesis using i l r by (simp add: reIndex_result numLines_def) (simp add: replaced_def)
  qed
  have 3: "getLine (with_line f v\<lparr>indexMap := m\<rparr>) (numLines f) = Inr v" for m
    using np r by (simp add: getLine_def numLines_def)
  have 4: "getLine (replaced f line v\<lparr>indexMap := m\<rparr>) line = Inr v" if "0 \<le> line" "line < numLines f" for m
    using np r that by (simp add: getLine_def numLines_def replaced_def)
  have neg: "indexMap f key \<noteq> Some (-1)" for key using f i by (fastforce simp: infile_ok_def keys_ok_def)
  show ?thesis
  proof (intro conjI impI)
    show "\<exists>f'. insert_line f v = Inr f' \<and> numLines f' = numLines f + 1 \<and> getLine f' (numLines f) = Inr v \<and>
      (\<forall>key. lookup f' key = (if key = key_of f v then Inr (numLines f) else lookup f key))"
      unfolding 1 using 3 i r by (simp add: lookup_def numLines_def)
  next
    assume l: "0 \<le> line \<and> line < numLines f"
    then have look: "lookup (replaced f line v\<lparr>indexMap := (indexMap (replaced f line v))(key_of f v \<mapsto> line)\<rparr>) key =
        (if key = key_of f v then Inr line else if lookup f key = Inr line then Inr (-1) else lookup f key)" for key
      using i neg [of key] by (cases "indexMap f key") (auto simp: lookup_def replaced_def)
    show "\<exists>f'. replace_line f line v = Inr f' \<and> getLine f' line = Inr v \<and>
      (\<forall>key. lookup f' key = (if key = key_of f v then Inr line else if lookup f key = Inr line then Inr (-1) else lookup f key))"
      using 2 4 look l by blast
  qed
qed

theorem index_follows_changes_witness:
  "\<exists>f'. insert_line \<lparr>usage = InputFileUser, lineCounter = 0, fileLines = [''a;b''], printfFile = False, printfOffset = 0,
     printfMultiple = 1, numLinesInFile = 1, realLinesInFile = 1, indexField = 0, indexMap = Map.empty\<rparr> ''c'' = Inr f' \<and>
     lookup f' ''c'' = Inr 1"
proof -
  let ?f = "\<lparr>usage = InputFileUser, lineCounter = 0, fileLines = [''a;b''], printfFile = False, printfOffset = 0,
     printfMultiple = 1, numLinesInFile = 1, realLinesInFile = 1, indexField = 0, indexMap = Map.empty\<rparr>"
  have "key_of ?f ''c'' = ''c''" by (simp add: key_of_def field_at_def)
  then show ?thesis using index_follows_changes [of ?f "''c''" 0]
    by (auto simp: infile_ok_def counters_ok_def numLines_def)
qed

text \<open>
  A \<^verbatim>\<open>PRINTF\<close> file cannot be indexed when it has more lines than are written in the file: the index
  is built over all lines, and the assertion of \<open>reIndex\<close> only allows the written ones.
\<close>

theorem index_printf_fails:
  assumes "infile_ok f" and "printfFile f" and "numLinesInFile f > realLinesInFile f" and "k \<noteq> -1"
    and "\<forall>n. 0 \<le> n \<longrightarrow> n < realLinesInFile f \<longrightarrow> (\<exists>x. getField f n k = Inr x)"
  shows "index f k = Inl AssertFailed"
proof -
  define r where "r = realLinesInFile f"
  have r: "0 \<le> r" using assms(1) by (simp add: infile_ok_def counters_ok_def r_def)
  have fail: "reIndex (f\<lparr>indexField := k, indexMap := m\<rparr>) r = Inl AssertFailed" for m
    using assms(4) by (simp add: reIndex_def r_def)
  have "reIndex_loop (f\<lparr>indexField := k, indexMap := m\<rparr>) [a..r - 1 + 1] = Inl AssertFailed"
    if "0 \<le> a" "a \<le> r" for a m
    using that
  proof (induction "nat (r - a)" arbitrary: a m)
    case 0
    then show ?case using fail by simp
  next
    case (Suc d)
    then have a: "a < r" by simp
    then have u: "[a..r - 1 + 1] = a # [a + 1..r - 1 + 1]" by (simp add: upto_rec1)
    obtain x where "getField f a k = Inr x" using assms(5) a Suc.prems by (auto simp: r_def)
    then have "reIndex (f\<lparr>indexField := k, indexMap := m\<rparr>) a = Inr (f\<lparr>indexField := k, indexMap := m(x \<mapsto> a)\<rparr>)"
      using assms(4) a Suc.prems by (simp add: reIndex_def r_def)
    then show ?case using Suc.hyps(1) [of "a + 1"] Suc.hyps(2) a Suc.prems unfolding u by simp
  qed
  then have "reIndex_loop (f\<lparr>indexField := k, indexMap := Map.empty\<rparr>) [0..r] = Inl AssertFailed" using r by simp
  moreover have "[0..numLinesInFile f - 1] = [0..r] @ [r + 1..numLinesInFile f - 1]"
    using r assms(3) by (intro upto_split2) (auto simp: r_def)
  moreover have "reIndex_loop g (xs @ ys) = bindE (reIndex_loop g xs) (\<lambda>g. reIndex_loop g ys)" for g xs ys
    by (induction xs arbitrary: g) (auto simp: bindE_assoc)
  ultimately show ?thesis by (simp add: index_def numLines_def)
qed

theorem index_printf_fails_witness:
  "index \<lparr>usage = InputFileUser, lineCounter = 0, fileLines = [''a''], printfFile = True, printfOffset = 0,
     printfMultiple = 1, numLinesInFile = 2, realLinesInFile = 1, indexField = -1, indexMap = Map.empty\<rparr> 0 = Inl AssertFailed"
proof (rule index_printf_fails)
  let ?f = "\<lparr>usage = InputFileUser, lineCounter = 0, fileLines = [''a''], printfFile = True, printfOffset = 0,
     printfMultiple = 1, numLinesInFile = 2, realLinesInFile = 1, indexField = -1, indexMap = Map.empty\<rparr>"
  show "\<forall>n. 0 \<le> n \<longrightarrow> n < realLinesInFile ?f \<longrightarrow> (\<exists>x. getField ?f n 0 = Inr x)"
  proof (intro allI impI)
    fix n :: int assume "0 \<le> n" "n < realLinesInFile ?f"
    then have "n = 0" by simp
    then show "\<exists>x. getField ?f n 0 = Inr x"
      by (simp add: getField_def getLine_def field_loop.simps expand_printf_field.simps)
  qed
qed (simp_all add: infile_ok_def counters_ok_def)

section \<open>Printed numbers\<close>

lemma to_string_length: "n < 10 ^ k \<Longrightarrow> 0 < k \<Longrightarrow> length (to_string n) \<le> k"
proof (induction n arbitrary: k rule: to_string.induct)
  case (1 n)
  show ?case
  proof (cases "n < 10")
    case True
    then show ?thesis using "1.prems" by (subst to_string.simps) simp
  next
    case False
    then obtain k' where k: "k = Suc k'" "0 < k'" using "1.prems" by (cases k; cases "k - 1") auto
    then have "n div 10 < 10 ^ k'" using "1.prems" by (simp add: less_mult_imp_div_less mult.commute)
    then show ?thesis using "1.IH" [OF False] k False by (subst to_string.simps) simp
  qed
qed

lemma decimal_zeros [simp]: "decimal (replicate n CHR ''0'' @ s) = decimal s"
proof -
  have "foldl (\<lambda>n c. 10 * n + digit_value c) 0 (replicate n CHR ''0'') = 0"
    by (induction n) (simp_all add: digit_value_def byte_def)
  then show ?thesis by (simp add: decimal_def)
qed

lemma atol_padded:
  assumes ds: "\<forall>c\<in>set ds. isdigit c" and v: "- (2 ^ 63) \<le> v" "v < 2 ^ 63" and d: "int (decimal ds) = \<bar>v\<bar>" "ds = [] \<longrightarrow> v = 0"
  shows "atol (replicate a SP @ (if v < 0 then ''-'' else []) @ ds @ replicate b SP) = v"
proof -
  have sp: "isspace SP" "\<not> isdigit SP" "\<not> isspace CHR ''-''" "SP \<noteq> CHR ''-''" by (simp_all add: isspace_def isdigit_def byte_def)
  let ?t = "(if v < 0 then ''-'' else []) @ ds @ replicate b SP"
  have t: "takeWhile isdigit (ds @ replicate b SP) = ds" using ds sp by (cases b) (simp_all add: takeWhile_append)
  have clip: "clamp_long v = v" using v by (simp add: clamp_long_def LONG_MAX_def)
  have dw: "dropWhile isspace (replicate a SP @ x) = dropWhile isspace x" for x using sp by (induction a) auto
  show ?thesis
  proof (cases "ds = []")
    case True
    moreover have "dropWhile isspace (replicate b SP) = []" using sp by (induction b) auto
    ultimately show ?thesis using d by (simp add: atol_def strtol_def dw)
  next
    case False
    then obtain c cs where c: "ds = c # cs" by (cases ds) auto
    then have "isdigit c" using ds by simp
    then have no: "\<not> isspace c" "c \<noteq> CHR ''-''" "c \<noteq> CHR ''+''" using digit_not_space digit_not_sign by auto
    show ?thesis
    proof (cases "v < 0")
      case True
      then show ?thesis using False d sp t clip by (simp add: atol_def strtol_def dw Let_def)
    next
      case nn: False
      then have tt: "takeWhile isdigit (c # cs @ replicate b SP) = ds" using t c by simp
      show ?thesis using nn d clip no c False tt
        by (simp add: atol_def strtol_def dw Let_def del: takeWhile.simps)
    qed
  qed
qed

text \<open>
  a printed conversion reads back. Whatever flags, width and precision a field of a \<^verbatim>\<open>PRINTF\<close> file
  gives, the piece is printed whole into its buffer, and read as a number it is the value.
\<close>

theorem print_piece_reads_back:
  assumes v: "- (2 ^ 63) \<le> v" "v < 2 ^ 63"
  shows "atol (print_piece (l, z, w, p) v) = v \<and>
    print_piece (l, z, w, p) v = print_lld l (z \<and> \<not> l \<and> p = None) w p v \<and> w \<le> length (print_piece (l, z, w, p) v)"
proof -
  define ds where "ds = (if p = Some 0 \<and> v = 0 then [] else to_string (nat \<bar>v\<bar>))"
  define body where "body = (case p of None \<Rightarrow> ds | Some k \<Rightarrow> replicate (k - length ds) CHR ''0'' @ ds)"
  define sign where "sign = (if v < 0 then ''-'' else [])"
  define zero where "zero = (z \<and> \<not> l \<and> p = None)"
  define n where "n = length sign + length body"
  let ?k = "case p of None \<Rightarrow> 0 | Some k \<Rightarrow> k"
  have P: "print_lld l zero w p v = (if l then sign @ body @ replicate (w - n) SP
      else if zero then sign @ replicate (w - n) CHR ''0'' @ body else replicate (w - n) SP @ sign @ body)"
    unfolding print_lld_def Let_def ds_def [symmetric] body_def [symmetric] sign_def [symmetric] n_def [symmetric] ..
  have "nat \<bar>v\<bar> \<le> 2 ^ 63" using v by simp
  also have "(2 :: nat) ^ 63 < 10 ^ 19" by simp
  finally have "length ds \<le> 19" using to_string_length [of "nat \<bar>v\<bar>" 19] by (simp add: ds_def)
  then have "n \<le> max ?k 19 + 1" unfolding n_def body_def sign_def by (auto split: option.split)
  then have "length (print_lld l zero w p v) < max w ?k + 32" unfolding P using n_def by auto
  then have whole: "print_piece (l, z, w, p) v = print_lld l zero w p v" by (simp add: print_piece_def Let_def zero_def)
  have zd: "isdigit CHR ''0''" by (simp add: isdigit_def byte_def)
  have dd: "\<forall>c\<in>set ds. isdigit c" using to_string_digits by (auto simp: ds_def)
  have bd: "\<forall>c\<in>set (replicate j CHR ''0'' @ body). isdigit c" for j using dd zd by (auto simp: body_def split: option.splits)
  have dec: "int (decimal (replicate j CHR ''0'' @ body)) = \<bar>v\<bar>" for j
    by (auto simp: body_def ds_def split: option.split) (simp_all add: decimal_def)
  have nil: "replicate j CHR ''0'' @ body = [] \<longrightarrow> v = 0" for j
    by (auto simp: body_def ds_def to_string_not_Nil split: option.splits if_splits)
  note A = atol_padded [OF bd v dec nil]
  have "atol (print_lld l zero w p v) = v"
    unfolding P sign_def using A [of 0 0 "w - n"] A [of "w - n" 0 0] A [of 0 "w - n" 0] by auto
  moreover have "w \<le> length (print_lld l zero w p v)" unfolding P n_def by auto
  ultimately show ?thesis unfolding whole zero_def by simp
qed

theorem print_piece_reads_back_witness: "atol (print_piece (False, True, 5, None) 42) = 42"
  by (rule print_piece_reads_back [THEN conjunct1]) simp_all

end
