(* ===== verification/Variables.thy ===== *)
theory Variables
  imports C_Strings
begin

text \<open>
  Variables and variable tables (\<^verbatim>\<open>variables.cpp\<close>). A \<^verbatim>\<open>double\<close> is a value of a type \<open>'d\<close>; what is asked
  of it (whether it is zero, \<^verbatim>\<open>strtod\<close>, the conversion of a \<^verbatim>\<open>bool\<close>) are arguments. Tables live in a
  store: an address is a number, in the order of allocation, and a freed table is not there any more.
  \<^verbatim>\<open>int\<close> arithmetic is unbounded: a table has fewer than two to the 23 variables.
\<close>

section \<open>Variables\<close>

datatype var_type = E_VT_REGEXP | E_VT_DOUBLE | E_VT_BOOL | E_VT_STRING | E_VT_UNDEFINED

text \<open>The union of \<^verbatim>\<open>M_double\<close> and \<^verbatim>\<open>M_bool\<close>: reading the member that was not written is undefined.\<close>

datatype 'd var_union = M_double 'd | M_bool bool

record 'd call_variable =
  M_type :: var_type
  M_nbOfMatchingValue :: int
  M_union :: "'d var_union"
  M_value :: string

definition new_CCallVariable :: "'d \<Rightarrow> 'd call_variable" where
  "new_CCallVariable zero = \<lparr>M_type = E_VT_UNDEFINED, M_nbOfMatchingValue = 0, M_union = M_double zero, M_value = []\<rparr>"

definition read_double :: "'d call_variable \<Rightarrow> 'd res" where
  "read_double v = (case M_union v of M_double d \<Rightarrow> Inr d | M_bool b \<Rightarrow> Inl Undefined)"

definition read_bool :: "'d call_variable \<Rightarrow> bool res" where
  "read_bool v = (case M_union v of M_double d \<Rightarrow> Inl Undefined | M_bool b \<Rightarrow> Inr b)"

definition isSet :: "('d \<Rightarrow> bool) \<Rightarrow> 'd call_variable \<Rightarrow> bool res" where
  "isSet nonzero v =
     (if M_type v = E_VT_REGEXP then Inr (M_nbOfMatchingValue v \<ge> 1)
      else if M_type v = E_VT_BOOL then read_bool v
      else if M_type v = E_VT_DOUBLE then bindE (read_double v) (\<lambda>d. Inr (nonzero d))
      else Inr (M_type v \<noteq> E_VT_UNDEFINED))"

definition isDouble :: "'d call_variable \<Rightarrow> bool" where "isDouble v \<longleftrightarrow> M_type v = E_VT_DOUBLE"
definition isBool :: "'d call_variable \<Rightarrow> bool" where "isBool v \<longleftrightarrow> M_type v = E_VT_BOOL"
definition isRegExp :: "'d call_variable \<Rightarrow> bool" where "isRegExp v \<longleftrightarrow> M_type v = E_VT_REGEXP"
definition isString :: "'d call_variable \<Rightarrow> bool" where "isString v \<longleftrightarrow> M_type v = E_VT_STRING"

definition setMatchingValue :: "string \<Rightarrow> 'd call_variable \<Rightarrow> 'd call_variable" where
  "setMatchingValue s v =
     v\<lparr>M_type := E_VT_REGEXP, M_value := s, M_nbOfMatchingValue := M_nbOfMatchingValue v + 1\<rparr>"

definition getMatchingValue :: "'d call_variable \<Rightarrow> string option" where
  "getMatchingValue v = (if M_type v \<noteq> E_VT_REGEXP then None else Some (c_str (M_value v)))"

definition setDouble :: "'d \<Rightarrow> 'd call_variable \<Rightarrow> 'd call_variable" where
  "setDouble d v = v\<lparr>M_type := E_VT_DOUBLE, M_union := M_double d\<rparr>"

definition getDouble :: "'d \<Rightarrow> 'd call_variable \<Rightarrow> 'd res" where
  "getDouble zero v = (if M_type v \<noteq> E_VT_DOUBLE then Inr zero else read_double v)"

definition setString :: "string \<Rightarrow> 'd call_variable \<Rightarrow> 'd call_variable" where
  "setString s v = v\<lparr>M_type := E_VT_STRING, M_value := c_str s\<rparr>"

definition getString :: "'d call_variable \<Rightarrow> string" where
  "getString v = (if M_type v = E_VT_STRING \<or> M_type v = E_VT_REGEXP then c_str (M_value v) else [])"

definition setBool :: "bool \<Rightarrow> 'd call_variable \<Rightarrow> 'd call_variable" where
  "setBool b v = v\<lparr>M_type := E_VT_BOOL, M_union := M_bool b\<rparr>"

definition getBool :: "'d call_variable \<Rightarrow> bool res" where
  "getBool v = (if M_type v \<noteq> E_VT_BOOL then Inr False else read_bool v)"

text \<open>\<^verbatim>\<open>strtod\<close> gives the value and the rest of the text; \<open>None\<close> is the result \<^verbatim>\<open>false\<close>.\<close>

definition text_double :: "(string \<Rightarrow> 'd \<times> string) \<Rightarrow> string \<Rightarrow> 'd option" where
  "text_double strtod s = (case strtod s of (d, r) \<Rightarrow> if r = s \<or> r \<noteq> [] then None else Some d)"

definition toDouble :: "(string \<Rightarrow> 'd \<times> string) \<Rightarrow> (bool \<Rightarrow> 'd) \<Rightarrow> 'd call_variable \<Rightarrow> 'd option res" where
  "toDouble strtod of_b v =
     (case M_type v of
        E_VT_REGEXP \<Rightarrow>
          if M_nbOfMatchingValue v < 1 then Inr None else Inr (text_double strtod (c_str (M_value v)))
      | E_VT_STRING \<Rightarrow> Inr (text_double strtod (c_str (M_value v)))
      | E_VT_DOUBLE \<Rightarrow> bindE (getDouble (of_b False) v) (\<lambda>d. Inr (Some d))
      | E_VT_BOOL \<Rightarrow> bindE (getBool v) (\<lambda>b. Inr (Some (of_b b)))
      | E_VT_UNDEFINED \<Rightarrow> Inr None)"

section \<open>Tables\<close>

type_synonym addr = nat

record alloc_info =
  av_parent :: "addr option"
  variableMap :: "string \<Rightarrow> int option"
  variableRevMap :: "int \<Rightarrow> string option"
  variableReferences :: "int \<Rightarrow> int option"

record 'd variable_table =
  count :: int
  level :: int
  variableTable :: "'d call_variable list"
  parent :: "addr option"
  alloc :: "alloc_info option"

text \<open>\<^verbatim>\<open>size\<close> is the length of \<^verbatim>\<open>variableTable\<close>. The store: the tables by address, \<open>None\<close> for a freed one.\<close>

type_synonym 'd store = "'d variable_table option list"

definition table_at :: "'d store \<Rightarrow> addr \<Rightarrow> 'd variable_table res" where
  "table_at h p = (if p < length h then case h ! p of None \<Rightarrow> Inl Undefined | Some t \<Rightarrow> Inr t else Inl Undefined)"

definition put_at :: "addr \<Rightarrow> 'd variable_table \<Rightarrow> 'd store \<Rightarrow> 'd store" where
  "put_at p t h = h[p := Some t]"

definition LEVEL_BITS :: nat where "LEVEL_BITS = 8"

definition getTable :: "'d store \<Rightarrow> addr \<Rightarrow> 'd store res" where
  "getTable h p = bindE (table_at h p) (\<lambda>t. Inr (put_at p (t\<lparr>count := count t + 1\<rparr>) h))"

definition getTable_opt :: "'d store \<Rightarrow> addr option \<Rightarrow> 'd store res" where
  "getTable_opt h po = (case po of None \<Rightarrow> Inr h | Some p \<Rightarrow> getTable h p)"

definition new_VariableTable :: "'d \<Rightarrow> addr option \<Rightarrow> nat \<Rightarrow> alloc_info option \<Rightarrow> 'd store \<Rightarrow> (addr \<times> 'd store) res" where
  "new_VariableTable zero po n al h =
     bindE (case po of
              None \<Rightarrow> Inr 0
            | Some p \<Rightarrow> bindE (table_at h p) (\<lambda>t. if level t + 1 < 2 ^ LEVEL_BITS then Inr (level t + 1) else Inl AssertFailed))
       (\<lambda>l. bindE (getTable_opt h po) (\<lambda>h'.
         Inr (length h', h' @ [Some \<lparr>count = 1, level = l, variableTable = replicate n (new_CCallVariable zero),
                                     parent = po, alloc = al\<rparr>])))"

definition new_VariableTable_of :: "'d \<Rightarrow> addr \<Rightarrow> 'd store \<Rightarrow> (addr \<times> 'd store) res" where
  "new_VariableTable_of zero src h =
     bindE (table_at h src) (\<lambda>s.
       bindE (getTable_opt h (parent s)) (\<lambda>h'.
         if level s > 0 \<and> parent s = None then Inl AssertFailed
         else Inr (length h', h' @ [Some \<lparr>count = 1, level = level s,
                                        variableTable = replicate (length (variableTable s)) (new_CCallVariable zero),
                                        parent = parent s, alloc = None\<rparr>])))"

definition expand :: "'d \<Rightarrow> 'd variable_table \<Rightarrow> nat \<Rightarrow> 'd variable_table res" where
  "expand zero t n =
     (if \<not> n > length (variableTable t) then Inl AssertFailed
      else Inr (t\<lparr>variableTable := variableTable t @ replicate (n - length (variableTable t)) (new_CCallVariable zero)\<rparr>))"

text \<open>
  \<^verbatim>\<open>putTable\<close> with the destructor, which puts the parent. A parent is older than its children: the
  walk up the parents is over smaller addresses, and \<open>Undefined\<close> otherwise.
\<close>

function putTable :: "'d store \<Rightarrow> addr \<Rightarrow> 'd store res" where
  "putTable h p =
     (case table_at h p of
        Inl e \<Rightarrow> Inl e
      | Inr t \<Rightarrow>
          if count t - 1 = 0 then
            (case parent t of
               None \<Rightarrow> Inr (h[p := None])
             | Some q \<Rightarrow> if q < p then putTable (h[p := None]) q else Inl Undefined)
          else Inr (put_at p (t\<lparr>count := count t - 1\<rparr>) h))"
  by pat_completeness auto
termination by (relation "measure snd") auto

declare putTable.simps [simp del]

function getVar :: "'d store \<Rightarrow> addr \<Rightarrow> int \<Rightarrow> (addr \<times> nat) res" where
  "getVar h p i =
     (case table_at h p of
        Inl e \<Rightarrow> Inl e
      | Inr t \<Rightarrow>
          let thisLevel = take_bit LEVEL_BITS i
          in if \<not> thisLevel \<le> level t then Inl AssertFailed
             else if thisLevel = level t then
               (let j = drop_bit LEVEL_BITS i
                in if \<not> (j > 0 \<and> j \<le> int (length (variableTable t))) then Inl AssertFailed else Inr (p, nat j - 1))
             else case parent t of
                    None \<Rightarrow> Inl AssertFailed
                  | Some q \<Rightarrow> if q < p then getVar h q i else Inl Undefined)"
  by pat_completeness auto
termination by (relation "measure (\<lambda>(h, p, i). p)") auto

declare getVar.simps [simp del]

definition new_AllocVariableTable :: "'d \<Rightarrow> addr option \<Rightarrow> 'd store \<Rightarrow> (addr \<times> 'd store) res" where
  "new_AllocVariableTable zero av h =
     new_VariableTable zero av 0
       (Some \<lparr>av_parent = av, variableMap = Map.empty, variableRevMap = Map.empty, variableReferences = Map.empty\<rparr>) h"

text \<open>\<^verbatim>\<open>variableReferences[i]++\<close>: an entry that is not there starts at zero.\<close>

definition bump :: "int \<Rightarrow> alloc_info \<Rightarrow> alloc_info" where
  "bump i a = a\<lparr>variableReferences := (variableReferences a)(i \<mapsto> (case variableReferences a i of None \<Rightarrow> 0 | Some n \<Rightarrow> n) + 1)\<rparr>"

definition alloc_at :: "'d store \<Rightarrow> addr \<Rightarrow> ('d variable_table \<times> alloc_info) res" where
  "alloc_at h p = bindE (table_at h p) (\<lambda>t. case alloc t of None \<Rightarrow> Inl Undefined | Some a \<Rightarrow> Inr (t, a))"

definition new_number :: "'d variable_table \<Rightarrow> int" where
  "new_number t = push_bit LEVEL_BITS (int (length (variableTable t)) + 1) OR level t"

definition add_variable :: "'d \<Rightarrow> 'd store \<Rightarrow> addr \<Rightarrow> string \<Rightarrow> (int \<times> 'd store) res" where
  "add_variable zero h p varName =
     bindE (alloc_at h p) (\<lambda>(t, a).
       bindE (expand zero t (length (variableTable t) + 1)) (\<lambda>t'.
         let varNum = new_number t;
             a' = a\<lparr>variableMap := (variableMap a)(varName \<mapsto> varNum),
                    variableReferences := (variableReferences a)(varNum \<mapsto> 1),
                    variableRevMap := (variableRevMap a)(varNum \<mapsto> varName)\<rparr>
         in Inr (varNum, put_at p (t'\<lparr>alloc := Some a'\<rparr>) h)))"

function find_var :: "'d \<Rightarrow> 'd store \<Rightarrow> addr \<Rightarrow> string \<Rightarrow> bool \<Rightarrow> (int \<times> 'd store) res" where
  "find_var zero h p varName allocate =
     (case alloc_at h p of
        Inl e \<Rightarrow> Inl e
      | Inr (t, a) \<Rightarrow>
          (case variableMap a varName of
             Some i \<Rightarrow> Inr (i, put_at p (t\<lparr>alloc := Some (bump i a)\<rparr>) h)
           | None \<Rightarrow>
               (case (case av_parent a of
                        None \<Rightarrow> Inr (-1, h)
                      | Some q \<Rightarrow> if q < p then find_var zero h q varName False else Inl Undefined) of
                  Inl e \<Rightarrow> Inl e
                | Inr (ret, h') \<Rightarrow>
                    if ret > 0 then Inr (ret, h')
                    else if allocate then add_variable zero h' p varName
                    else Inr (-1, h'))))"
  by pat_completeness auto
termination by (relation "measure (\<lambda>(zero, h, p, varName, allocate). p)") auto

declare find_var.simps [simp del]

text \<open>\<^verbatim>\<open>variableRevMap[i]\<close> makes an empty entry for a number that is not there.\<close>

function getName :: "'d store \<Rightarrow> addr \<Rightarrow> int \<Rightarrow> (string \<times> 'd store) res" where
  "getName h p i =
     (case alloc_at h p of
        Inl e \<Rightarrow> Inl e
      | Inr (t, a) \<Rightarrow>
          let thisLevel = take_bit LEVEL_BITS i
          in if \<not> thisLevel \<le> level t then Inl AssertFailed
             else if thisLevel = level t then
               (case variableRevMap a i of
                  Some s \<Rightarrow> Inr (c_str s, h)
                | None \<Rightarrow> Inr ([], put_at p (t\<lparr>alloc := Some (a\<lparr>variableRevMap := (variableRevMap a)(i \<mapsto> [])\<rparr>)\<rparr>) h))
             else case av_parent a of
                    None \<Rightarrow> Inl AssertFailed
                  | Some q \<Rightarrow> if q < p then getName h q i else Inl Undefined)"
  by pat_completeness auto
termination by (relation "measure (\<lambda>(h, p, i). p)") auto

declare getName.simps [simp del]

text \<open>\<^verbatim>\<open>validate\<close>, over the names of the table in the order of the map (the argument \<open>names\<close> is that order).\<close>

definition referenced :: "alloc_info \<Rightarrow> string \<Rightarrow> bool" where
  "referenced a n =
     (case variableMap a n of
        None \<Rightarrow> True
      | Some i \<Rightarrow> (case variableReferences a i of None \<Rightarrow> 0 | Some k \<Rightarrow> k) \<ge> 2 \<or> c_str n = ''_'')"

function validate :: "(addr \<Rightarrow> string list) \<Rightarrow> 'd store \<Rightarrow> addr \<Rightarrow> unit res" where
  "validate names h p =
     (case alloc_at h p of
        Inl e \<Rightarrow> Inl e
      | Inr (t, a) \<Rightarrow>
          if list_ex (\<lambda>n. \<not> referenced a n) (names p) then Inl (ERROR ''Variable is referenced too few times'')
          else case av_parent a of
                 None \<Rightarrow> Inr ()
               | Some q \<Rightarrow> if q < p then validate names h q else Inl Undefined)"
  by pat_completeness auto
termination by (relation "measure (\<lambda>(names, h, p). p)") auto

declare validate.simps [simp del]

end
