(* ===== verification/Variables_Correct.thy ===== *)
theory Variables_Correct
  imports Variables
begin

text \<open>
  Variable tables: reference counting frees every table exactly when nobody holds it, a number that
  \<open>find_var\<close> gives leads to the variable and back to the name, and a variable reads as it was set.
\<close>

section \<open>Reference counts\<close>

definition parents :: "'d store \<Rightarrow> addr option list" where
  "parents h = map (\<lambda>c. case c of None \<Rightarrow> None | Some t \<Rightarrow> parent t) h"

definition kids :: "'d store \<Rightarrow> addr \<Rightarrow> nat" where
  "kids h p = Multiset.count (mset (parents h)) (Some p)"

text \<open>
  \<open>own p\<close> is the number of references to \<open>p\<close> that clients hold. A table counts those and its
  children; its parent is an older table one level up.
\<close>

definition linked :: "'d store \<Rightarrow> addr \<Rightarrow> 'd variable_table \<Rightarrow> bool" where
  "linked h p t \<longleftrightarrow>
     (case parent t of None \<Rightarrow> level t = 0
      | Some q \<Rightarrow> q < p \<and> (\<exists>u. table_at h q = Inr u \<and> level t = level u + 1 \<and> (alloc t \<noteq> None \<longrightarrow> alloc u \<noteq> None))) \<and>
     (case alloc t of None \<Rightarrow> True | Some a \<Rightarrow> av_parent a = parent t)"

definition table_ok :: "'d store \<Rightarrow> (addr \<Rightarrow> nat) \<Rightarrow> addr \<Rightarrow> 'd variable_table \<Rightarrow> bool" where
  "table_ok h own p t \<longleftrightarrow>
     count t = int (own p + kids h p) \<and> 0 < count t \<and> 0 \<le> level t \<and> level t < 2 ^ LEVEL_BITS \<and> linked h p t"

definition refs_ok :: "'d store \<Rightarrow> (addr \<Rightarrow> nat) \<Rightarrow> bool" where
  "refs_ok h own \<longleftrightarrow>
     (\<forall>p t. table_at h p = Inr t \<longrightarrow> table_ok h own p t) \<and> (\<forall>p. 0 < own p \<longrightarrow> (\<exists>t. table_at h p = Inr t))"

lemma refs_okD: "refs_ok h own \<Longrightarrow> table_at h p = Inr t \<Longrightarrow> table_ok h own p t"
  by (simp add: refs_ok_def)

lemma refs_ok_held: "refs_ok h own \<Longrightarrow> 0 < own p \<Longrightarrow> \<exists>t. table_at h p = Inr t"
  by (simp add: refs_ok_def)

lemma refs_ok_parent: "refs_ok h own \<Longrightarrow> table_at h p = Inr t \<Longrightarrow> parent t = Some q \<Longrightarrow>
    q < p \<and> (\<exists>u. table_at h q = Inr u \<and> level t = level u + 1 \<and> (alloc t \<noteq> None \<longrightarrow> alloc u \<noteq> None))"
  using refs_okD [of h own p t] by (simp add: table_ok_def linked_def)

lemma table_at_Inr: "table_at h p = Inr t \<longleftrightarrow> p < length h \<and> h ! p = Some t"
  by (auto simp: table_at_def split: option.splits)

lemma table_at_put: "table_at h p = Inr t \<Longrightarrow> table_at (put_at p t' h) q = (if q = p then Inr t' else table_at h q)"
  by (auto simp: table_at_Inr) (auto simp: table_at_def put_at_def)

lemma table_at_free: "table_at h p = Inr t \<Longrightarrow> table_at (h[p := None]) q = (if q = p then Inl Undefined else table_at h q)"
  by (auto simp: table_at_Inr) (auto simp: table_at_def)

lemma table_at_snoc: "table_at (h @ [Some t]) q = (if q = length h then Inr t else table_at h q)"
  by (auto simp: table_at_def nth_append split: option.splits)

lemma kids_put:
  assumes "table_at h p = Inr t" and "parent t' = parent t"
  shows "kids (put_at p t' h) q = kids h q"
proof -
  have "parents (put_at p t' h) = parents h"
    using assms by (auto simp: parents_def put_at_def table_at_Inr map_update intro!: nth_equalityI simp: nth_list_update)
  then show ?thesis by (simp add: kids_def)
qed

lemma kids_free:
  assumes "table_at h p = Inr t"
  shows "kids h q = kids (h[p := None]) q + (if parent t = Some q then 1 else 0)"
proof -
  have p: "p < length (parents h)" "parents h ! p = parent t" using assms by (auto simp: parents_def table_at_Inr)
  have "parents (h[p := None]) = (parents h)[p := None]" by (simp add: parents_def map_update)
  then have "mset (parents (h[p := None])) = add_mset None (mset (parents h) - {#parent t#})"
    using p by (simp add: mset_update)
  moreover have "parent t \<in># mset (parents h)" using p by (metis in_multiset_in_set nth_mem)
  ultimately show ?thesis by (auto simp: kids_def)
qed

lemma kids_pos:
  assumes "table_at h c = Inr u" and "parent u = Some p"
  shows "kids h p \<noteq> 0"
proof -
  have "c < length (parents h)" "parents h ! c = Some p" using assms by (auto simp: parents_def table_at_Inr)
  then have "Some p \<in># mset (parents h)" by (metis in_multiset_in_set nth_mem)
  then show ?thesis by (simp add: kids_def)
qed

lemma kids_snoc: "kids (h @ [Some t]) q = kids h q + (if parent t = Some q then 1 else 0)"
  by (simp add: kids_def parents_def)

lemma kids_old:
  assumes "refs_ok h own" and "p \<ge> length h"
  shows "kids h p = 0"
proof (rule ccontr)
  assume "kids h p \<noteq> 0"
  then have "Some p \<in> set (parents h)" by (metis count_eq_zero_iff in_multiset_in_set kids_def)
  then obtain t where "Some t \<in> set h" "parent t = Some p" by (auto simp: parents_def split: option.splits)
  then obtain c where c: "table_at h c = Inr t" by (metis in_set_conv_nth table_at_Inr)
  then have "linked h c t" "c < length h" using assms(1) by (auto simp: refs_ok_def table_ok_def table_at_Inr)
  then have "p < c" "c < length h" using \<open>parent t = Some p\<close> by (auto simp: linked_def)
  with assms(2) show False by simp
qed

lemma linked_mono:
  assumes "linked h p t" and "parent t' = parent t" "level t' = level t" "map_option av_parent (alloc t') = map_option av_parent (alloc t)"
    and keep: "\<And>q u. parent t = Some q \<Longrightarrow> table_at h q = Inr u \<Longrightarrow>
      \<exists>v. table_at h' q = Inr v \<and> level v = level u \<and> (alloc u \<noteq> None \<longrightarrow> alloc v \<noteq> None)"
  shows "linked h' p t'"
proof -
  have al: "alloc t' = None \<longleftrightarrow> alloc t = None" using assms(4) by (metis map_option_is_None)
  have av: "case alloc t' of None \<Rightarrow> True | Some a \<Rightarrow> av_parent a = parent t'"
    using assms(1,2,4) by (cases "alloc t"; cases "alloc t'") (auto simp: linked_def)
  show ?thesis
  proof (cases "parent t")
    case None
    then show ?thesis using assms av by (simp add: linked_def)
  next
    case (Some q)
    then obtain u where u: "q < p" "table_at h q = Inr u" "level t = level u + 1" "alloc t \<noteq> None \<longrightarrow> alloc u \<noteq> None"
      using assms(1) by (auto simp: linked_def)
    obtain v where "table_at h' q = Inr v" "level v = level u" "alloc u \<noteq> None \<longrightarrow> alloc v \<noteq> None" using keep [OF Some u(2)] by blast
    then show ?thesis using Some u assms(2,3) al av by (simp add: linked_def)
  qed
qed

text \<open>Changing a table in place: its count and the number of references held may grow or shrink together.\<close>

lemma refs_ok_put:
  assumes R: "refs_ok h own" and t: "table_at h p = Inr t"
    and same: "parent t' = parent t" "level t' = level t" "map_option av_parent (alloc t') = map_option av_parent (alloc t)"
    and c: "count t' - int n = count t - int (own p)" "0 < count t'"
  shows "refs_ok (put_at p t' h) (own(p := n))"
proof -
  have al: "alloc t' = None \<longleftrightarrow> alloc t = None" using same(3) by (metis map_option_is_None)
  have ok: "table_ok h own q u" if "table_at h q = Inr u" for q u using R that by (simp add: refs_ok_def)
  have keep: "\<exists>v. table_at (put_at p t' h) q = Inr v \<and> level v = level u \<and> (alloc u \<noteq> None \<longrightarrow> alloc v \<noteq> None)"
    if "table_at h q = Inr u" for q u
    using that t same al by (cases "q = p") (auto simp: table_at_put [OF t])
  have "table_ok (put_at p t' h) (own(p := n)) q u" if u: "table_at (put_at p t' h) q = Inr u" for q u
  proof (cases "q = p")
    case True
    then have [simp]: "u = t'" using u by (simp add: table_at_put [OF t])
    have "linked (put_at p t' h) p t'"
      by (rule linked_mono [of h p t]) (use ok [OF t] same keep in \<open>auto simp: table_ok_def\<close>)
    then show ?thesis using ok [OF t] c same True by (simp add: table_ok_def kids_put [OF t same(1)])
  next
    case False
    then have q: "table_at h q = Inr u" using u by (simp add: table_at_put [OF t])
    have "linked (put_at p t' h) q u"
      by (rule linked_mono [of h q u]) (use ok [OF q] keep in \<open>auto simp: table_ok_def\<close>)
    then show ?thesis using ok [OF q] False by (simp add: table_ok_def kids_put [OF t same(1)])
  qed
  moreover have "\<exists>u. table_at (put_at p t' h) q = Inr u" if "0 < (own(p := n)) q" for q
    using that R by (auto simp: table_at_put [OF t] refs_ok_def split: if_splits)
  ultimately show ?thesis unfolding refs_ok_def by blast
qed

lemma refs_ok_getTable:
  assumes R: "refs_ok h own" and t: "table_at h p = Inr t"
  shows "\<exists>h'. getTable h p = Inr h' \<and> refs_ok h' (own(p := own p + 1)) \<and> length h' = length h \<and>
    (\<forall>q u. table_at h q = Inr u \<longrightarrow> (\<exists>v. table_at h' q = Inr v \<and> level v = level u \<and> parent v = parent u \<and>
       variableTable v = variableTable u \<and> alloc v = alloc u))"
proof -
  let ?t = "t\<lparr>count := count t + 1\<rparr>"
  have "0 < count t" using refs_okD [OF R t] unfolding table_ok_def by blast
  then have "refs_ok (put_at p ?t h) (own(p := own p + 1))" by (intro refs_ok_put [OF R t]) auto
  moreover have "getTable h p = Inr (put_at p ?t h)" using t by (simp add: getTable_def)
  moreover have "length (put_at p ?t h) = length h" by (simp add: put_at_def)
  ultimately show ?thesis using t by (intro exI [of _ "put_at p ?t h"]) (auto simp: table_at_put [OF t])
qed

text \<open>Freeing a table that nobody refers to: the reference it had to its parent is held meanwhile.\<close>

lemma refs_ok_free:
  assumes R: "refs_ok h own" and t: "table_at h p = Inr t" and o: "own p = 1" "kids h p = 0"
  shows "refs_ok (h[p := None]) (case parent t of None \<Rightarrow> own(p := 0) | Some q \<Rightarrow> own(p := 0, q := own q + 1))"
proof -
  let ?own = "case parent t of None \<Rightarrow> own(p := 0) | Some q \<Rightarrow> own(p := 0, q := own q + 1)"
  have pt: "parent t = Some q \<Longrightarrow> q \<noteq> p \<and> (\<exists>u. table_at h q = Inr u)" for q
    using refs_ok_parent [OF R t] by blast
  have own: "?own q + kids (h[p := None]) q = own q + kids h q" if "q \<noteq> p" for q
    using kids_free [OF t, of q] that pt by (auto split: option.split)
  have ok: "table_ok h own q u" if "table_at h q = Inr u" for q u using R that by (simp add: refs_ok_def)
  have "table_ok (h[p := None]) ?own q u" if u: "table_at (h[p := None]) q = Inr u" for q u
  proof -
    have q: "q \<noteq> p" "table_at h q = Inr u" using u by (auto simp: table_at_free [OF t] split: if_splits)
    have "parent u \<noteq> Some p" using kids_pos [OF q(2)] o(2) by blast
    then have keep: "parent u = Some r \<Longrightarrow> table_at (h[p := None]) r = table_at h r" for r
      using table_at_free [OF t, of r] by auto
    have "linked h q u" using ok [OF q(2)] unfolding table_ok_def by blast
    then have "linked (h[p := None]) q u" by (rule linked_mono) (use keep in auto)
    then show ?thesis using ok [OF q(2)] own [OF q(1)] by (simp add: table_ok_def)
  qed
  moreover have "\<exists>u. table_at (h[p := None]) q = Inr u" if "0 < ?own q" for q
  proof -
    have "q \<noteq> p" "0 < own q \<or> parent t = Some q" using that pt by (auto split: option.splits if_splits)
    then show ?thesis using R pt by (auto simp: table_at_free [OF t] refs_ok_def)
  qed
  ultimately show ?thesis unfolding refs_ok_def by blast
qed

lemma refs_ok_putTable:
  assumes "refs_ok h own" and "0 < own p"
  shows "\<exists>h'. putTable h p = Inr h' \<and> refs_ok h' (own(p := own p - 1))"
  using assms
proof (induction h p arbitrary: own rule: putTable.induct)
  case (1 h p)
  obtain t where t: "table_at h p = Inr t" using "1.prems" unfolding refs_ok_def by blast
  then have ok: "table_ok h own p t" using "1.prems" by (simp add: refs_ok_def)
  show ?case
  proof (cases "count t - 1 = 0")
    case False
    have "refs_ok (put_at p (t\<lparr>count := count t - 1\<rparr>) h) (own(p := own p - 1))"
      by (rule refs_ok_put [OF "1.prems"(1) t]) (use ok False "1.prems"(2) in \<open>auto simp: table_ok_def\<close>)
    then show ?thesis using False t by (subst putTable.simps) simp
  next
    case True
    have o: "own p = 1" "kids h p = 0" using ok True "1.prems"(2) by (auto simp: table_ok_def)
    note F = refs_ok_free [OF "1.prems"(1) t o]
    show ?thesis
    proof (cases "parent t")
      case None
      then show ?thesis using F t True o by (subst putTable.simps) simp
    next
      case (Some q)
      have q: "q < p" using ok Some by (auto simp: table_ok_def linked_def)
      define own' where "own' = own(p := 0, q := own q + 1)"
      have "refs_ok (h[p := None]) own'" "0 < own' q" using F Some by (simp_all add: own'_def)
      then obtain h' where "putTable (h[p := None]) q = Inr h'" "refs_ok h' (own'(q := own' q - 1))"
        using "1.IH" [OF t True Some q, of own'] by blast
      moreover have "own'(q := own' q - 1) = own(p := own p - 1)"
        using q o by (auto simp: fun_eq_iff own'_def)
      ultimately show ?thesis using t True Some q by (subst putTable.simps) simp
    qed
  qed
qed

section \<open>New tables and names\<close>

text \<open>What the reference counts depend on.\<close>

definition shape :: "'d variable_table \<Rightarrow> int \<times> int \<times> addr option \<times> addr option option" where
  "shape t = (count t, level t, parent t, map_option av_parent (alloc t))"

definition same_shape :: "'d store \<Rightarrow> 'd store \<Rightarrow> bool" where
  "same_shape h h' \<longleftrightarrow> map (map_option shape) h = map (map_option shape) h'"

lemma same_shape_refl [simp]: "same_shape h h"
  by (simp add: same_shape_def)

lemma same_shape_trans: "same_shape h h1 \<Longrightarrow> same_shape h1 h2 \<Longrightarrow> same_shape h h2"
  by (simp add: same_shape_def)

lemma same_shape_length: "same_shape h h' \<Longrightarrow> length h = length h'"
  unfolding same_shape_def by (drule arg_cong [of _ _ length]) simp

lemma same_shape_put: "table_at h p = Inr t \<Longrightarrow> shape t' = shape t \<Longrightarrow> same_shape h (put_at p t' h)"
  by (auto simp: same_shape_def put_at_def table_at_Inr map_update intro!: nth_equalityI simp: nth_list_update)

lemma same_shape_at:
  assumes "same_shape h h'" and "table_at h p = Inr t"
  shows "\<exists>t'. table_at h' p = Inr t' \<and> shape t' = shape t"
proof -
  have p: "p < length h" "h ! p = Some t" using assms(2) by (auto simp: table_at_Inr)
  have "map_option shape (h' ! p) = map_option shape (h ! p)"
    using assms(1) p same_shape_length [OF assms(1)] unfolding same_shape_def by (metis nth_map)
  then show ?thesis using p same_shape_length [OF assms(1)] by (auto simp: table_at_Inr)
qed

lemma refs_ok_shape:
  assumes s: "same_shape h h'" and R: "refs_ok h own"
  shows "refs_ok h' own"
proof -
  have s': "same_shape h' h" using s by (simp add: same_shape_def)
  have par: "parents g = map (\<lambda>c. case c of None \<Rightarrow> None | Some (c, l, q, a) \<Rightarrow> q) (map (map_option shape) g)" for g :: "'a store"
    by (auto simp: parents_def shape_def split: option.split)
  then have "parents h = parents h'" using s unfolding same_shape_def by metis
  then have kids: "kids h = kids h'" by (simp add: fun_eq_iff kids_def)
  have "table_ok h' own p t'" if t': "table_at h' p = Inr t'" for p t'
  proof -
    obtain t where t: "table_at h p = Inr t" "shape t' = shape t" using same_shape_at [OF s' t'] by metis
    have sh: "count t' = count t" "level t' = level t" "parent t' = parent t" "map_option av_parent (alloc t') = map_option av_parent (alloc t)"
      using t(2) by (auto simp: shape_def)
    note ok = refs_okD [OF R t(1)]
    have "linked h p t" using ok unfolding table_ok_def by blast
    then have "linked h' p t'"
    proof (rule linked_mono [OF _ sh(3,2,4)])
      fix q u assume "table_at h q = Inr u"
      from same_shape_at [OF s this] obtain v where v: "table_at h' q = Inr v" "shape v = shape u" by blast
      then have "level v = level u" "alloc v = None \<longleftrightarrow> alloc u = None" by (auto simp: shape_def)
      then show "\<exists>v. table_at h' q = Inr v \<and> level v = level u \<and> (alloc u \<noteq> None \<longrightarrow> alloc v \<noteq> None)" using v by auto
    qed
    then show ?thesis using ok kids by (simp add: table_ok_def sh)
  qed
  moreover have "\<exists>t'. table_at h' p = Inr t'" if "0 < own p" for p
  proof -
    obtain t where "table_at h p = Inr t" using refs_ok_held [OF R \<open>0 < own p\<close>] by blast
    then show ?thesis using same_shape_at [OF s] by blast
  qed
  ultimately show ?thesis unfolding refs_ok_def by blast
qed

lemma alloc_at_Inr: "alloc_at h p = Inr (t, a) \<longleftrightarrow> table_at h p = Inr t \<and> alloc t = Some a"
  by (auto simp: alloc_at_def split: option.splits)

lemma shape_alloc: "alloc t = Some a \<Longrightarrow> av_parent a' = av_parent a \<Longrightarrow> shape (t\<lparr>alloc := Some a'\<rparr>) = shape t"
  by (simp add: shape_def)

definition with_variable :: "'d \<Rightarrow> 'd variable_table \<Rightarrow> alloc_info \<Rightarrow> string \<Rightarrow> 'd variable_table" where
  "with_variable zero t a n =
     t\<lparr>variableTable := variableTable t @ [new_CCallVariable zero],
       alloc := Some (a\<lparr>variableMap := (variableMap a)(n \<mapsto> new_number t),
         variableReferences := (variableReferences a)(new_number t \<mapsto> 1), variableRevMap := (variableRevMap a)(new_number t \<mapsto> n)\<rparr>)\<rparr>"

lemma add_variable_result:
  "alloc_at h p = Inr (t, a) \<Longrightarrow> add_variable zero h p n = Inr (new_number t, put_at p (with_variable zero t a n) h)"
  by (simp add: add_variable_def expand_def with_variable_def Let_def)

lemma shape_with_variable: "alloc t = Some a \<Longrightarrow> shape (with_variable zero t a n) = shape t"
  by (simp add: shape_def with_variable_def)

text \<open>The names of a table: each has a number of its own, with the level in its low bits.\<close>

definition names_of :: "'d variable_table \<Rightarrow> alloc_info \<Rightarrow> bool" where
  "names_of t a \<longleftrightarrow> (\<forall>n i. variableMap a n = Some i \<longrightarrow>
     variableRevMap a i = Some n \<and> take_bit LEVEL_BITS i = level t \<and> 0 < drop_bit LEVEL_BITS i \<and>
     drop_bit LEVEL_BITS i \<le> int (length (variableTable t)))"

definition names_ok :: "'d store \<Rightarrow> bool" where
  "names_ok h \<longleftrightarrow> (\<forall>p t a. alloc_at h p = Inr (t, a) \<longrightarrow> names_of t a)"

lemma number_bits:
  assumes "0 \<le> l" "l < 2 ^ LEVEL_BITS"
  shows "take_bit LEVEL_BITS (push_bit LEVEL_BITS j OR l) = l" "drop_bit LEVEL_BITS (push_bit LEVEL_BITS j OR l) = (j :: int)"
proof -
  have l: "take_bit LEVEL_BITS l = l" using assms by (simp add: take_bit_int_eq_self)
  then show "take_bit LEVEL_BITS (push_bit LEVEL_BITS j OR l) = l" by (simp add: take_bit_or take_bit_push_bit)
  have "drop_bit LEVEL_BITS l = 0" using assms by (simp add: drop_bit_eq_div)
  then show "drop_bit LEVEL_BITS (push_bit LEVEL_BITS j OR l) = j"
    by (simp add: drop_bit_or) (simp add: drop_bit_eq_div push_bit_eq_mult)
qed

lemma positive_number: "0 < drop_bit LEVEL_BITS i \<Longrightarrow> (0 :: int) < i"
  by (metis drop_bit_nonnegative_int_iff drop_bit_of_0 less_irrefl linorder_cases not_less order_less_imp_le)

lemma names_of_bump: "names_of (t\<lparr>alloc := x\<rparr>) (bump i a) = names_of t a"
  by (simp add: names_of_def bump_def)

lemma names_of_added:
  assumes "names_of t a" "0 \<le> level t" "level t < 2 ^ LEVEL_BITS"
  shows "names_of (with_variable zero t a n) (the (alloc (with_variable zero t a n)))"
proof -
  note B = number_bits [OF assms(2,3)]
  have num: "take_bit LEVEL_BITS (new_number t) = level t" "drop_bit LEVEL_BITS (new_number t) = int (length (variableTable t)) + 1"
    by (simp_all only: new_number_def B)
  have "variableMap a n' = Some i \<Longrightarrow> i \<noteq> new_number t" for n' i
    using assms(1) num(2) unfolding names_of_def by fastforce
  then show ?thesis using assms(1) num unfolding names_of_def with_variable_def by (auto split: if_splits) fastforce+
qed

lemma names_ok_put:
  assumes "names_ok h" and "table_at h p = Inr t" and "\<And>a. alloc t' = Some a \<Longrightarrow> names_of t' a"
  shows "names_ok (put_at p t' h)"
  using assms(1,3) by (auto simp: names_ok_def alloc_at_Inr table_at_put [OF assms(2)] split: if_splits)

section \<open>Numbers lead to names\<close>

text \<open>The number a name has in a table or, when the table has none, in its parents.\<close>

inductive visible :: "'d store \<Rightarrow> addr \<Rightarrow> string \<Rightarrow> int \<Rightarrow> bool" where
  here: "alloc_at h p = Inr (t, a) \<Longrightarrow> variableMap a n = Some i \<Longrightarrow> visible h p n i"
| up: "alloc_at h p = Inr (t, a) \<Longrightarrow> variableMap a n = None \<Longrightarrow> av_parent a = Some q \<Longrightarrow> q < p \<Longrightarrow>
    visible h q n i \<Longrightarrow> visible h p n i"

inductive_cases visibleE: "visible h p n i"

lemma visible_level:
  assumes "visible h p n i" and "refs_ok h own" "names_ok h"
  shows "\<exists>t a. alloc_at h p = Inr (t, a) \<and> take_bit LEVEL_BITS i \<le> level t \<and> 0 < i"
  using assms
proof (induction rule: visible.induct)
  case (here h p t a n i)
  then have "names_of t a" by (simp add: names_ok_def)
  then show ?case using here positive_number [of i] by (auto simp: names_of_def)
next
  case (up h p t a n q i)
  then obtain u b where u: "alloc_at h q = Inr (u, b)" "take_bit LEVEL_BITS i \<le> level u" "0 < i" by blast
  have t: "table_at h p = Inr t" "alloc t = Some a" using up.hyps by (auto simp: alloc_at_Inr)
  then have "parent t = Some q" using refs_okD [OF up.prems(1) t(1)] up.hyps by (auto simp: table_ok_def linked_def)
  then have "level t = level u + 1" using refs_ok_parent [OF up.prems(1) t(1)] u by (auto simp: alloc_at_Inr)
  then show ?case using up.hyps u by auto
qed

lemma visible_here:
  assumes "visible h p n i" "alloc_at h p = Inr (t, a)"
  obtains "variableMap a n = Some i" | q where "variableMap a n = None" "av_parent a = Some q" "q < p" "visible h q n i"
  using assms by (auto elim: visibleE)

lemma visible_reads:
  assumes "visible h p n i" and R: "refs_ok h own" and N: "names_ok h"
  shows "getName h p i = Inr (c_str n, h) \<and> (\<exists>q j. getVar h p i = Inr (q, j)) \<and> (\<exists>h'. find_var zero h p n b = Inr (i, h'))"
  using assms
proof (induction arbitrary: b rule: visible.induct)
  case (here h p t a n i)
  then have "names_of t a" by (simp add: names_ok_def)
  then have i: "variableRevMap a i = Some n" "take_bit LEVEL_BITS i = level t" "0 < drop_bit LEVEL_BITS i"
    "drop_bit LEVEL_BITS i \<le> int (length (variableTable t))" using here by (auto simp: names_of_def)
  have "table_at h p = Inr t" using here.hyps by (simp add: alloc_at_Inr)
  moreover have "getName h p i = Inr (c_str n, h)" using here.hyps i by (subst getName.simps) (simp add: Let_def)
  moreover have "\<exists>h'. find_var zero h p n b = Inr (i, h')" using here.hyps by (subst find_var.simps) simp
  ultimately show ?case using i by (subst getVar.simps) (simp add: Let_def)
next
  case (up h p t a n q i)
  note V = visible_level [OF up.hyps(5) up.prems]
  obtain u b' where u: "alloc_at h q = Inr (u, b')" "take_bit LEVEL_BITS i \<le> level u" "0 < i" using V by blast
  have t: "table_at h p = Inr t" "alloc t = Some a" using up.hyps by (auto simp: alloc_at_Inr)
  then have par: "parent t = Some q" using refs_okD [OF up.prems(1) t(1)] up.hyps by (auto simp: table_ok_def linked_def)
  then have "level t = level u + 1" using refs_ok_parent [OF up.prems(1) t(1)] u by (auto simp: alloc_at_Inr)
  then have lt: "take_bit LEVEL_BITS i < level t" using u by simp
  have IH: "getName h q i = Inr (c_str n, h)" "\<exists>q' j. getVar h q i = Inr (q', j)" "\<exists>h'. find_var zero h q n False = Inr (i, h')"
    using up.IH [OF up.prems] by blast+
  have "getName h p i = Inr (c_str n, h)" using up.hyps IH lt by (subst getName.simps) (simp add: Let_def)
  moreover have "\<exists>q j. getVar h p i = Inr (q, j)" using t par up.hyps IH lt by (subst getVar.simps) (simp add: Let_def)
  moreover have "\<exists>h'. find_var zero h p n b = Inr (i, h')" using up.hyps IH u by (subst find_var.simps) auto
  ultimately show ?case by blast
qed

lemma visible_unique:
  assumes "visible h p n i" and "visible h p n' i" and "refs_ok h own" "names_ok h" "NUL \<notin> set n" "NUL \<notin> set n'"
  shows "n = n'"
  using visible_reads [OF assms(1,3,4)] visible_reads [OF assms(2-4)] assms(5,6) by (metis (lifting) Pair_inject c_str_no_NUL sum.inject(2))

lemma visible_frame:
  assumes "visible h q n i" and "\<And>r. r \<le> q \<Longrightarrow> table_at h' r = table_at h r"
  shows "visible h' q n i"
  using assms
proof (induction rule: visible.induct)
  case (here h p t a n i)
  then show ?case by (intro visible.here [of h' p t a]) (auto simp: alloc_at_Inr)
next
  case (up h p t a n q i)
  then have "alloc_at h' p = Inr (t, a)" by (simp add: alloc_at_Inr)
  moreover have "visible h' q n i" using up by simp
  ultimately show ?case using up.hyps by (intro visible.up [of h' p t a]) auto
qed

lemma find_var_spec:
  assumes "refs_ok h own" "names_ok h" "alloc_at h p = Inr (t, a)"
  shows "\<exists>i h'. find_var zero h p n b = Inr (i, h') \<and> same_shape h h' \<and> names_ok h' \<and>
    (\<forall>r. p < r \<longrightarrow> table_at h' r = table_at h r) \<and> (b \<or> i > 0 \<longrightarrow> visible h' p n i)"
  using assms
proof (induction p arbitrary: t a b rule: less_induct)
  case (less p)
  have t: "table_at h p = Inr t" "alloc t = Some a" using less.prems(3) by (auto simp: alloc_at_Inr)
  note ok = refs_okD [OF less.prems(1) t(1)]
  have na: "names_of t a" using less.prems by (simp add: names_ok_def)
  show ?case
  proof (cases "variableMap a n")
    case (Some i)
    let ?t = "t\<lparr>alloc := Some (bump i a)\<rparr>"
    have "names_ok (put_at p ?t h)"
      by (rule names_ok_put [OF less.prems(2) t(1)]) (use na in \<open>auto simp: names_of_bump\<close>)
    moreover have "same_shape h (put_at p ?t h)"
      by (rule same_shape_put [OF t(1)]) (use t in \<open>simp add: shape_def bump_def\<close>)
    moreover have "visible (put_at p ?t h) p n i"
      by (rule visible.here [of _ p ?t "bump i a"]) (use Some in \<open>auto simp: alloc_at_Inr table_at_put [OF t(1)] bump_def\<close>)
    moreover have "find_var zero h p n b = Inr (i, put_at p ?t h)"
      using Some less.prems(3) by (subst find_var.simps) simp
    ultimately show ?thesis by (auto simp: table_at_put [OF t(1)])
  next
    case None
    let ?up = "case av_parent a of None \<Rightarrow> Inr (-1, h)
      | Some q \<Rightarrow> if q < p then find_var zero h q n False else Inl Undefined"
    have "\<exists>ret h1. ?up = Inr (ret, h1) \<and> same_shape h h1 \<and> names_ok h1 \<and> (\<forall>r. p \<le> r \<longrightarrow> table_at h1 r = table_at h r) \<and>
      (ret > 0 \<longrightarrow> visible h1 p n ret)"
    proof (cases "av_parent a")
      case none: None
      then show ?thesis using less.prems by simp
    next
      case (Some q)
      then have par: "parent t = Some q" using ok t by (auto simp: table_ok_def linked_def)
      then obtain u where u: "q < p" "table_at h q = Inr u" "alloc u \<noteq> None" using refs_ok_parent [OF less.prems(1) t(1)] t by auto
      then obtain a2 where a2: "alloc_at h q = Inr (u, a2)" by (auto simp: alloc_at_Inr)
      obtain ret h1 where f: "find_var zero h q n False = Inr (ret, h1)" "same_shape h h1" "names_ok h1"
        "\<forall>r. q < r \<longrightarrow> table_at h1 r = table_at h r" "ret > 0 \<longrightarrow> visible h1 q n ret"
        using less.IH [OF u(1) less.prems(1,2) a2, of False] by auto
      have "alloc_at h1 p = Inr (t, a)" using f(4) u(1) t by (simp add: alloc_at_Inr)
      then have "ret > 0 \<longrightarrow> visible h1 p n ret" using visible.up [OF _ None Some u(1)] f(5) by blast
      then show ?thesis using f u(1) Some by auto
    qed
    then obtain ret h1 where r: "?up = Inr (ret, h1)" "same_shape h h1" "names_ok h1"
      "\<forall>r. p \<le> r \<longrightarrow> table_at h1 r = table_at h r" "ret > 0 \<longrightarrow> visible h1 p n ret" by blast
    have t1: "table_at h1 p = Inr t" "alloc_at h1 p = Inr (t, a)" using r(4) t by (simp_all add: alloc_at_Inr)
    have F: "find_var zero h p n b = (if ret > 0 then Inr (ret, h1) else if b then add_variable zero h1 p n else Inr (-1, h1))"
      using less.prems(3) None r(1) by (subst find_var.simps) simp
    show ?thesis
    proof (cases "ret > 0 \<or> \<not> b")
      case True
      then show ?thesis using F r by auto
    next
      case False
      let ?t = "with_variable zero t a n"
      have lv: "0 \<le> level t" "level t < 2 ^ LEVEL_BITS" using ok by (auto simp: table_ok_def)
      have "names_ok (put_at p ?t h1)"
        by (rule names_ok_put [OF r(3) t1(1)]) (use names_of_added [OF na lv, of zero n] in auto)
      moreover have "same_shape h (put_at p ?t h1)"
        using same_shape_trans [OF r(2) same_shape_put [OF t1(1)]] shape_with_variable [OF t(2)] by blast
      moreover have "visible (put_at p ?t h1) p n (new_number t)"
        by (rule visible.here [of _ p ?t "the (alloc ?t)"])
          (auto simp: alloc_at_Inr table_at_put [OF t1(1)] with_variable_def)
      ultimately show ?thesis using F False add_variable_result [OF t1(2)] r(4) by (auto simp: table_at_put [OF t1(1)])
    qed
  qed
qed

text \<open>
  C27: names of variables. In a well-formed store, asking an allocating table for a name gives a
  number that stands for it from then on: the name of the number is the name, the number leads to a
  variable that exists, asking again gives the same number, and no other name of the table or its
  parents has it.
\<close>

theorem find_names_variable:
  assumes "refs_ok h own" "names_ok h" "alloc_at h p = Inr (t, a)" "NUL \<notin> set n"
  shows "\<exists>i h'. find_var zero h p n True = Inr (i, h') \<and> refs_ok h' own \<and> names_ok h' \<and>
    getName h' p i = Inr (n, h') \<and> (\<exists>q j. getVar h' p i = Inr (q, j)) \<and> (\<exists>h''. find_var zero h' p n b = Inr (i, h'')) \<and>
    (\<forall>n'. NUL \<notin> set n' \<and> visible h' p n' i \<longrightarrow> n' = n)"
proof -
  obtain i h' where f: "find_var zero h p n True = Inr (i, h')" "same_shape h h'" "names_ok h'" "visible h' p n i"
    using find_var_spec [OF assms(1-3), of zero n True] by blast
  have R: "refs_ok h' own" by (rule refs_ok_shape [OF f(2) assms(1)])
  note V = visible_reads [OF f(4) R f(3), of zero b]
  have "getName h' p i = Inr (n, h')" using V assms(4) by simp
  moreover have "\<forall>n'. NUL \<notin> set n' \<and> visible h' p n' i \<longrightarrow> n' = n" using visible_unique [OF _ f(4) R f(3)] assms(4) by blast
  ultimately show ?thesis using f(1,3) R V by blast
qed

section \<open>Clients of the tables\<close>

text \<open>
  What a client knows: which tables it holds and how often, the level of each, and which can allocate.
\<close>

record held_tables =
  held :: "addr \<Rightarrow> nat"
  allocated :: nat
  lev :: "addr \<Rightarrow> int"
  named :: "addr \<Rightarrow> bool"

datatype store_op = NewTable "addr option" nat | NewOf addr | NewAlloc "addr option" | Get addr | Put addr | Find addr string bool

definition store_step :: "'d \<Rightarrow> store_op \<Rightarrow> 'd store \<Rightarrow> 'd store res" where
  "store_step zero x h =
     (case x of
        NewTable po n \<Rightarrow> bindE (new_VariableTable zero po n None h) (\<lambda>(p, h'). Inr h')
      | NewOf p \<Rightarrow> bindE (new_VariableTable_of zero p h) (\<lambda>(p, h'). Inr h')
      | NewAlloc po \<Rightarrow> bindE (new_AllocVariableTable zero po h) (\<lambda>(p, h'). Inr h')
      | Get p \<Rightarrow> getTable h p
      | Put p \<Rightarrow> putTable h p
      | Find p n b \<Rightarrow> bindE (find_var zero h p n b) (\<lambda>(i, h'). Inr h'))"

definition new_held :: "int \<Rightarrow> bool \<Rightarrow> held_tables \<Rightarrow> held_tables" where
  "new_held l nm s =
     s\<lparr>held := (held s)(allocated s := 1), allocated := allocated s + 1, lev := (lev s)(allocated s := l), named := (named s)(allocated s := nm)\<rparr>"

definition held_step :: "store_op \<Rightarrow> held_tables \<Rightarrow> held_tables" where
  "held_step x s =
     (case x of
        NewTable po n \<Rightarrow> new_held (case po of None \<Rightarrow> 0 | Some p \<Rightarrow> lev s p + 1) False s
      | NewOf p \<Rightarrow> new_held (lev s p) False s
      | NewAlloc po \<Rightarrow> new_held (case po of None \<Rightarrow> 0 | Some p \<Rightarrow> lev s p + 1) True s
      | Get p \<Rightarrow> s\<lparr>held := (held s)(p := held s p + 1)\<rparr>
      | Put p \<Rightarrow> s\<lparr>held := (held s)(p := held s p - 1)\<rparr>
      | Find p n b \<Rightarrow> s)"

text \<open>A client uses only tables it holds, nests them at most 256 deep, and allocates only where that is possible.\<close>

definition may_nest :: "held_tables \<Rightarrow> addr option \<Rightarrow> bool" where
  "may_nest s po = (case po of None \<Rightarrow> True | Some p \<Rightarrow> 0 < held s p \<and> lev s p + 1 < 2 ^ LEVEL_BITS)"

definition held_ok :: "store_op \<Rightarrow> held_tables \<Rightarrow> bool" where
  "held_ok x s =
     (case x of
        NewTable po n \<Rightarrow> may_nest s po
      | NewOf p \<Rightarrow> 0 < held s p
      | NewAlloc po \<Rightarrow> may_nest s po \<and> (case po of None \<Rightarrow> True | Some p \<Rightarrow> named s p)
      | Get p \<Rightarrow> 0 < held s p
      | Put p \<Rightarrow> 0 < held s p
      | Find p n b \<Rightarrow> 0 < held s p \<and> named s p)"

definition held_rel :: "held_tables \<Rightarrow> 'd store \<Rightarrow> bool" where
  "held_rel s h \<longleftrightarrow> refs_ok h (held s) \<and> names_ok h \<and> allocated s = length h \<and>
     (\<forall>p t. table_at h p = Inr t \<longrightarrow> level t = lev s p \<and> (alloc t \<noteq> None \<longleftrightarrow> named s p))"

lemma refs_ok_snoc:
  assumes R: "refs_ok h own" and L: "linked h (length h) t" and t: "count t = 1" "0 \<le> level t" "level t < 2 ^ LEVEL_BITS"
    and held: "\<And>p. parent t = Some p \<Longrightarrow> 0 < own p"
  shows "refs_ok (h @ [Some t]) ((case parent t of None \<Rightarrow> own | Some p \<Rightarrow> own(p := own p - 1))(length h := 1))"
    (is "refs_ok ?h ?own")
proof -
  have keep: "table_at h q = Inr u \<Longrightarrow> table_at ?h q = Inr u" for q u by (auto simp: table_at_snoc table_at_Inr)
  have link: "linked h p u \<Longrightarrow> linked ?h p u" for p u by (rule linked_mono [of h]) (use keep in auto)
  have par: "parent t = Some p \<Longrightarrow> p < length h" for p using L by (auto simp: linked_def)
  have own: "?own p + kids ?h p = own p + kids h p" if "p < length h" for p
    using that held by (auto simp: kids_snoc split: option.split)
  have "table_ok ?h ?own p u" if u: "table_at ?h p = Inr u" for p u
  proof (cases "p = length h")
    case True
    then have [simp]: "u = t" using u by (simp add: table_at_snoc)
    have "parent t \<noteq> Some (length h)" using par by blast
    then have "kids ?h (length h) = 0" using kids_old [OF R, of "length h"] by (simp add: kids_snoc)
    then show ?thesis using True t link [OF L] by (simp add: table_ok_def)
  next
    case False
    then have u': "table_at h p = Inr u" using u by (simp add: table_at_snoc)
    then have "p < length h" by (simp add: table_at_Inr)
    then show ?thesis using refs_okD [OF R u'] own link [of p u] by (simp add: table_ok_def)
  qed
  moreover have "\<exists>u. table_at ?h p = Inr u" if "0 < ?own p" for p
  proof (cases "p = length h")
    case False
    then have "0 < own p" using \<open>0 < ?own p\<close> by (auto split: option.splits if_splits)
    then show ?thesis using refs_ok_held [OF R] keep by blast
  qed (simp add: table_at_snoc)
  ultimately show ?thesis unfolding refs_ok_def by blast
qed

lemma names_ok_snoc:
  assumes "names_ok h" and "\<And>a. alloc t = Some a \<Longrightarrow> names_of t a"
  shows "names_ok (h @ [Some t])"
  using assms by (auto simp: names_ok_def alloc_at_Inr table_at_snoc split: if_splits)

text \<open>A new table: its parent, if any, is referred to once more.\<close>

lemma new_table_ok:
  assumes S: "held_rel s h" and po: "case po of None \<Rightarrow> l = 0 | Some p \<Rightarrow> (\<exists>u. table_at h p = Inr u \<and> l = level u + 1 \<and> (al \<noteq> None \<longrightarrow> alloc u \<noteq> None))"
    and l: "0 \<le> l" "l < 2 ^ LEVEL_BITS" and al: "\<And>a. al = Some a \<Longrightarrow> av_parent a = po \<and> variableMap a = Map.empty"
  shows "\<exists>h'. getTable_opt h po = Inr h' \<and> length h' = length h \<and>
    held_rel (new_held l (al \<noteq> None) s) (h' @ [Some \<lparr>count = 1, level = l, variableTable = vs, parent = po, alloc = al\<rparr>])"
proof -
  let ?t = "\<lparr>count = 1, level = l, variableTable = vs, parent = po, alloc = al\<rparr>"
  have R: "refs_ok h (held s)" and N: "names_ok h" and len: "allocated s = length h"
    and info: "\<And>p t. table_at h p = Inr t \<Longrightarrow> level t = lev s p \<and> (alloc t \<noteq> None \<longleftrightarrow> named s p)"
    using S by (auto simp: held_rel_def)
  have *: "\<exists>h' own1. getTable_opt h po = Inr h' \<and> length h' = length h \<and> refs_ok h' own1 \<and>
      (case po of None \<Rightarrow> own1 | Some p \<Rightarrow> own1(p := own1 p - 1)) = held s \<and> (\<forall>p. po = Some p \<longrightarrow> 0 < own1 p) \<and>
      (\<forall>q u. table_at h q = Inr u \<longrightarrow> (\<exists>v. table_at h' q = Inr v \<and> level v = level u \<and> alloc v = alloc u \<and> variableTable v = variableTable u)) \<and>
      (\<forall>q v. table_at h' q = Inr v \<longrightarrow> (\<exists>u. table_at h q = Inr u \<and> level v = level u \<and> alloc v = alloc u \<and> variableTable v = variableTable u))"
  proof (cases po)
    case None
    then show ?thesis using R by (simp add: getTable_opt_def)
  next
    case (Some p)
    then obtain u where u: "table_at h p = Inr u" using po by auto
    obtain h' where h': "getTable h p = Inr h'" "refs_ok h' ((held s)(p := held s p + 1))" "length h' = length h"
      using refs_ok_getTable [OF R u] by blast
    then have eq: "h' = put_at p (u\<lparr>count := count u + 1\<rparr>) h" using u by (simp add: getTable_def)
    have "((held s)(p := held s p + 1))(p := ((held s)(p := held s p + 1)) p - 1) = held s" by auto
    then show ?thesis using h' Some u
      by (intro exI [of _ h'] exI [of _ "(held s)(p := held s p + 1)"])
        (auto simp: getTable_opt_def eq table_at_put [OF u] split: if_splits)
  qed
  then obtain h' own1 where h': "getTable_opt h po = Inr h'" "length h' = length h" "refs_ok h' own1"
      "(case po of None \<Rightarrow> own1 | Some p \<Rightarrow> own1(p := own1 p - 1)) = held s" "\<And>p. po = Some p \<Longrightarrow> 0 < own1 p"
    and fwd: "\<And>q u. table_at h q = Inr u \<Longrightarrow> \<exists>v. table_at h' q = Inr v \<and> level v = level u \<and> alloc v = alloc u \<and> variableTable v = variableTable u"
    and bwd: "\<And>q v. table_at h' q = Inr v \<Longrightarrow> \<exists>u. table_at h q = Inr u \<and> level v = level u \<and> alloc v = alloc u \<and> variableTable v = variableTable u"
    by blast
  have "linked h' (length h') ?t"
  proof (cases po)
    case (Some p)
    then obtain u where u: "table_at h p = Inr u" "l = level u + 1" "al \<noteq> None \<longrightarrow> alloc u \<noteq> None" using po by auto
    moreover have "p < length h'" using u(1) h'(2) by (simp add: table_at_Inr)
    ultimately show ?thesis using fwd [OF u(1)] Some al by (auto simp: linked_def split: option.split)
  qed (use po al in \<open>auto simp: linked_def split: option.split\<close>)
  then have "refs_ok (h' @ [Some ?t]) ((held s)(length h := 1))"
    using refs_ok_snoc [OF h'(3), of ?t] l h'(2,4,5) by simp
  moreover have "names_ok h'" using N bwd unfolding names_ok_def names_of_def alloc_at_Inr by metis
  then have "names_ok (h' @ [Some ?t])" by (rule names_ok_snoc) (use al in \<open>auto simp: names_of_def\<close>)
  moreover have "level v = ((lev s)(length h := l)) p \<and> (alloc v \<noteq> None \<longleftrightarrow> ((named s)(length h := (al \<noteq> None))) p)"
    if "table_at (h' @ [Some ?t]) p = Inr v" for p v
  proof (cases "p = length h")
    case True
    then show ?thesis using that h'(2) by (auto simp: table_at_snoc)
  next
    case False
    then have "table_at h' p = Inr v" using that h'(2) by (simp add: table_at_snoc)
    then obtain u where "table_at h p = Inr u" "level v = level u" "alloc v = alloc u" using bwd by blast
    then show ?thesis using info False by simp
  qed
  ultimately have "held_rel (new_held l (al \<noteq> None) s) (h' @ [Some ?t])" using len h'(2) by (simp add: held_rel_def new_held_def)
  then show ?thesis using h'(1,2) by blast
qed

text \<open>The other operations keep what a client knows of the tables that are left.\<close>

definition same_tables :: "'d store \<Rightarrow> 'd store \<Rightarrow> bool" where
  "same_tables h h' \<longleftrightarrow> length h' = length h \<and> (\<forall>q v. table_at h' q = Inr v \<longrightarrow>
     (\<exists>u. table_at h q = Inr u \<and> level v = level u \<and> alloc v = alloc u \<and> variableTable v = variableTable u))"

lemma same_tables_trans: "same_tables h h1 \<Longrightarrow> same_tables h1 h2 \<Longrightarrow> same_tables h h2"
  unfolding same_tables_def by (metis (no_types, lifting))

lemma same_tables_free: "table_at h p = Inr t \<Longrightarrow> same_tables h (h[p := None])"
  by (auto simp: same_tables_def table_at_free split: if_splits)

lemma same_tables_count: "table_at h p = Inr t \<Longrightarrow> same_tables h (put_at p (t\<lparr>count := c\<rparr>) h)"
  by (auto simp: same_tables_def table_at_put split: if_splits) (simp add: put_at_def)

lemma same_tables_putTable: "putTable h p = Inr h' \<Longrightarrow> same_tables h h'"
proof (induction h p arbitrary: h' rule: putTable.induct)
  case (1 h p)
  obtain t where t: "table_at h p = Inr t" using "1.prems" by (subst (asm) putTable.simps) (auto split: sum.splits)
  show ?case
  proof (cases "count t - 1 = 0")
    case False
    then show ?thesis using "1.prems" t same_tables_count [OF t] by (subst (asm) putTable.simps) auto
  next
    case True
    show ?thesis
    proof (cases "parent t")
      case None
      then show ?thesis using "1.prems" t True same_tables_free [OF t] by (subst (asm) putTable.simps) auto
    next
      case (Some q)
      then have q: "q < p" "putTable (h[p := None]) q = Inr h'"
        using "1.prems" t True by (subst (asm) putTable.simps, simp split: if_splits)+
      then show ?thesis using "1.IH" [OF t True Some q] same_tables_trans [OF same_tables_free [OF t]] by blast
    qed
  qed
qed

lemma held_rel_same:
  assumes "held_rel s h" "same_tables h h'" "refs_ok h' own"
  shows "held_rel (s\<lparr>held := own\<rparr>) h'"
proof -
  have "names_ok h'" using assms unfolding held_rel_def same_tables_def names_ok_def names_of_def alloc_at_Inr by metis
  moreover have "level v = lev s p \<and> (alloc v \<noteq> None \<longleftrightarrow> named s p)" if "table_at h' p = Inr v" for p v
    using assms(1,2) that unfolding held_rel_def same_tables_def by metis
  ultimately show ?thesis using assms by (simp add: held_rel_def same_tables_def)
qed

lemma held_at: "held_rel s h \<Longrightarrow> 0 < held s p \<Longrightarrow> \<exists>t. table_at h p = Inr t \<and> level t = lev s p \<and> (alloc t \<noteq> None \<longleftrightarrow> named s p)"
  using refs_ok_held [of h "held s" p] by (auto simp: held_rel_def)

lemma held_level: "held_rel s h \<Longrightarrow> table_at h p = Inr t \<Longrightarrow> 0 \<le> level t \<and> level t < 2 ^ LEVEL_BITS"
  using refs_okD [of h "held s" p t] by (simp add: held_rel_def table_ok_def)

lemma new_VariableTable_ok:
  assumes S: "held_rel s h" and nest: "may_nest s po" and al: "\<And>a. al = Some a \<Longrightarrow> av_parent a = po \<and> variableMap a = Map.empty"
    and nm: "\<And>p. al \<noteq> None \<Longrightarrow> po = Some p \<Longrightarrow> named s p"
  shows "\<exists>p h'. new_VariableTable zero po n al h = Inr (p, h') \<and>
    held_rel (new_held (case po of None \<Rightarrow> 0 | Some p \<Rightarrow> lev s p + 1) (al \<noteq> None) s) h'"
proof (cases po)
  case None
  then show ?thesis using new_table_ok [where po = None and l = 0 and al = al, OF S] al by (auto simp: new_VariableTable_def getTable_opt_def)
next
  case (Some q)
  then obtain t where t: "table_at h q = Inr t" "level t = lev s q" "alloc t \<noteq> None \<longleftrightarrow> named s q" "lev s q + 1 < 2 ^ LEVEL_BITS"
    using held_at [OF S, of q] nest by (auto simp: may_nest_def)
  have l: "0 \<le> level t + 1" "level t + 1 < 2 ^ LEVEL_BITS" using held_level [OF S t(1)] t by simp_all
  have po: "case po of None \<Rightarrow> level t + 1 = 0 | Some p \<Rightarrow> \<exists>u. table_at h p = Inr u \<and> level t + 1 = level u + 1 \<and> (al \<noteq> None \<longrightarrow> alloc u \<noteq> None)"
    using Some t nm by simp
  obtain h' where "getTable_opt h po = Inr h'" "held_rel (new_held (level t + 1) (al \<noteq> None) s)
      (h' @ [Some \<lparr>count = 1, level = level t + 1, variableTable = replicate n (new_CCallVariable zero), parent = po, alloc = al\<rparr>])"
    using new_table_ok [OF S po l al] by blast
  then show ?thesis using Some t by (auto simp: new_VariableTable_def)
qed

lemma new_VariableTable_of_ok:
  assumes S: "held_rel s h" and "0 < held s p"
  shows "\<exists>q h'. new_VariableTable_of zero p h = Inr (q, h') \<and> held_rel (new_held (lev s p) False s) h'"
proof -
  obtain t where t: "table_at h p = Inr t" "level t = lev s p" using held_at [OF assms] by blast
  have R: "refs_ok h (held s)" using S by (simp add: held_rel_def)
  have L: "linked h p t" using refs_okD [OF R t(1)] by (simp add: table_ok_def)
  then have po: "case parent t of None \<Rightarrow> level t = 0 | Some q \<Rightarrow> \<exists>u. table_at h q = Inr u \<and> level t = level u + 1 \<and>
      ((None :: alloc_info option) \<noteq> None \<longrightarrow> alloc u \<noteq> None)"
    by (auto simp: linked_def split: option.splits)
  have "\<not> (level t > 0 \<and> parent t = None)" using L by (cases "parent t") (auto simp: linked_def)
  moreover obtain h' where "getTable_opt h (parent t) = Inr h'" "held_rel (new_held (level t) False s)
      (h' @ [Some \<lparr>count = 1, level = level t, variableTable = replicate (length (variableTable t)) (new_CCallVariable zero),
         parent = parent t, alloc = None\<rparr>])"
    using new_table_ok [OF S po, of "replicate (length (variableTable t)) (new_CCallVariable zero)"] held_level [OF S t(1)] by auto
  ultimately show ?thesis using t by (auto simp: new_VariableTable_of_def)
qed

lemma held_step_sim:
  assumes S: "held_rel s h" and ok: "held_ok x s"
  shows "\<exists>h'. store_step zero x h = Inr h' \<and> held_rel (held_step x s) h'"
proof (cases x)
  case (NewTable po n)
  then show ?thesis using new_VariableTable_ok [where po = po and al = None, OF S] ok
    by (fastforce simp: store_step_def held_step_def held_ok_def)
next
  case (NewOf p)
  then show ?thesis using new_VariableTable_of_ok [OF S, of p zero] ok
    by (fastforce simp: store_step_def held_step_def held_ok_def)
next
  case (NewAlloc po)
  let ?al = "Some \<lparr>av_parent = po, variableMap = Map.empty, variableRevMap = Map.empty, variableReferences = Map.empty\<rparr>"
  have "\<exists>p h'. new_VariableTable zero po 0 ?al h = Inr (p, h') \<and>
      held_rel (new_held (case po of None \<Rightarrow> 0 | Some p \<Rightarrow> lev s p + 1) (?al \<noteq> None) s) h'"
    by (rule new_VariableTable_ok [OF S]) (use ok NewAlloc in \<open>auto simp: held_ok_def\<close>)
  then show ?thesis using NewAlloc by (auto simp: store_step_def held_step_def new_AllocVariableTable_def)
next
  case (Get p)
  then obtain t where t: "table_at h p = Inr t" using held_at [OF S, of p] ok by (auto simp: held_ok_def)
  have R: "refs_ok h (held s)" using S by (simp add: held_rel_def)
  have g: "getTable h p = Inr (put_at p (t\<lparr>count := count t + 1\<rparr>) h)" using t by (simp add: getTable_def)
  then have "refs_ok (put_at p (t\<lparr>count := count t + 1\<rparr>) h) ((held s)(p := held s p + 1))"
    using refs_ok_getTable [OF R t] by auto
  from held_rel_same [OF S same_tables_count [OF t] this] show ?thesis
    using Get g by (simp add: store_step_def held_step_def)
next
  case (Put p)
  have R: "refs_ok h (held s)" using S by (simp add: held_rel_def)
  then obtain h' where h': "putTable h p = Inr h'" "refs_ok h' ((held s)(p := held s p - 1))"
    using refs_ok_putTable [of h "held s" p] ok Put by (auto simp: held_ok_def)
  from held_rel_same [OF S same_tables_putTable [OF h'(1)] h'(2)] show ?thesis
    using Put h' by (simp add: store_step_def held_step_def)
next
  case (Find p n b)
  then obtain t where t: "table_at h p = Inr t" "alloc t \<noteq> None" using held_at [OF S, of p] ok by (auto simp: held_ok_def)
  then obtain a where a: "alloc_at h p = Inr (t, a)" by (auto simp: alloc_at_Inr)
  have R: "refs_ok h (held s)" "names_ok h" using S by (auto simp: held_rel_def)
  obtain i h' where f: "find_var zero h p n b = Inr (i, h')" "same_shape h h'" "names_ok h'"
    using find_var_spec [OF R a] by blast
  have rev_shape: "same_shape h' h" using f(2) by (simp add: same_shape_def)
  have "level v = lev s q \<and> (alloc v \<noteq> None \<longleftrightarrow> named s q)" if "table_at h' q = Inr v" for q v
  proof -
    obtain u where "table_at h q = Inr u" "shape u = shape v" using same_shape_at [OF rev_shape \<open>table_at h' q = Inr v\<close>] by blast
    then show ?thesis using S by (auto simp: held_rel_def shape_def) (metis map_option_is_None not_None_eq)+
  qed
  then have "held_rel s h'" using S f refs_ok_shape [OF f(2) R(1)] same_shape_length [OF f(2)] by (simp add: held_rel_def)
  then show ?thesis using Find f by (simp add: store_step_def held_step_def)
qed

interpretation tables: simulation "store_step zero" held_step held_ok held_rel
  by unfold_locales (rule held_step_sim)

lemma nothing_held:
  assumes R: "refs_ok h own" and "\<And>p. own p = 0"
  shows "table_at h p \<noteq> Inr t"
proof (induction "length h - p" arbitrary: p t rule: less_induct)
  case less
  show ?case
  proof
    assume t: "table_at h p = Inr t"
    then have "0 < kids h p" using refs_okD [OF R t] assms(2) [of p] by (simp add: table_ok_def)
    then have "Some p \<in> set (parents h)" by (metis count_greater_zero_iff in_multiset_in_set kids_def)
    then obtain u where "Some u \<in> set h" "parent u = Some p" by (auto simp: parents_def split: option.splits)
    then obtain c where c: "table_at h c = Inr u" by (metis in_set_conv_nth table_at_Inr)
    then have "p < c" "c < length h" using refs_ok_parent [OF R c \<open>parent u = Some p\<close>] by (auto simp: table_at_Inr)
    then show False using less [of c u] c by (simp add: diff_less_mono2)
  qed
qed

definition nothing :: held_tables where
  "nothing = \<lparr>held = (\<lambda>p. 0), allocated = 0, lev = (\<lambda>p. 0), named = (\<lambda>p. False)\<rparr>"

lemma held_rel_nothing: "held_rel nothing []"
  by (simp add: held_rel_def nothing_def refs_ok_def names_ok_def alloc_at_def table_at_def)

text \<open>
  C28: reference counting. Clients that make, share, look up and put variable tables they hold never
  touch a freed table and fail no assertion. A table that is held is there, with the level it was
  made with; when nothing is held any more, every table is freed.
\<close>

theorem tables_safe:
  assumes "legal_run held_ok held_step xs nothing"
  shows "\<exists>h. run_res (store_step zero) xs [] = Inr h \<and>
    (\<forall>p. 0 < held (fold held_step xs nothing) p \<longrightarrow>
       (\<exists>t. table_at h p = Inr t \<and> level t = lev (fold held_step xs nothing) p)) \<and>
    ((\<forall>p. held (fold held_step xs nothing) p = 0) \<longrightarrow> (\<forall>p. h ! p = None \<or> length h \<le> p))"
proof -
  let ?s = "fold held_step xs nothing"
  obtain h where h: "run_res (store_step zero) xs [] = Inr h" "held_rel ?s h"
    using tables.run_sim [where zero = zero, OF held_rel_nothing assms] by blast
  have "\<exists>t. table_at h p = Inr t \<and> level t = lev ?s p" if "0 < held ?s p" for p
    using held_at [OF h(2) that] by blast
  moreover have "h ! p = None \<or> length h \<le> p" if "\<forall>p. held ?s p = 0" for p
  proof -
    have "refs_ok h (held ?s)" using h(2) by (simp add: held_rel_def)
    then have "table_at h p \<noteq> Inr t" for t using nothing_held [of h "held ?s" p t] \<open>\<forall>p. held ?s p = 0\<close> by blast
    then show ?thesis by (cases "h ! p") (auto simp: table_at_Inr not_less)
  qed
  ultimately show ?thesis using h(1) by (intro exI [of _ h] conjI allI impI)
qed

theorem tables_safe_witness:
  "\<exists>h. run_res (store_step (0 :: nat)) [NewAlloc None, NewAlloc (Some 0), Put 0, Find 1 ''x'' True, Put 1] [] = Inr h"
proof -
  let ?xs = "[NewAlloc None, NewAlloc (Some 0), Put 0, Find 1 ''x'' True, Put 1]"
  have "legal_run held_ok held_step ?xs nothing"
    by (simp add: held_ok_def held_step_def may_nest_def new_held_def nothing_def LEVEL_BITS_def)
  then show ?thesis using tables_safe [of ?xs 0] by blast
qed

theorem find_names_variable_witness:
  "\<exists>i h'. find_var (0 :: nat) [Some \<lparr>count = 1, level = 0, variableTable = [], parent = None,
      alloc = Some \<lparr>av_parent = None, variableMap = Map.empty, variableRevMap = Map.empty, variableReferences = Map.empty\<rparr>\<rparr>] 0 ''x'' True
    = Inr (i, h') \<and> getName h' 0 i = Inr (''x'', h')"
proof -
  let ?a = "\<lparr>av_parent = None, variableMap = Map.empty, variableRevMap = Map.empty, variableReferences = Map.empty\<rparr>"
  let ?t = "\<lparr>count = 1, level = 0, variableTable = [], parent = None, alloc = Some ?a\<rparr> :: nat variable_table"
  have a: "table_at [Some ?t] p = Inr u \<longleftrightarrow> p = 0 \<and> u = ?t" for p u by (auto simp: table_at_Inr)
  have R: "refs_ok [Some ?t] ((\<lambda>p. 0)(0 := 1))"
    by (simp add: refs_ok_def table_ok_def linked_def kids_def parents_def a LEVEL_BITS_def)
  have N: "names_ok [Some ?t]" by (auto simp: names_ok_def names_of_def alloc_at_Inr a)
  have A: "alloc_at [Some ?t] 0 = Inr (?t, ?a)" by (simp add: alloc_at_Inr a)
  show ?thesis using find_names_variable [OF R N A, of "''x''" 0 True] by auto
qed

section \<open>Values of variables\<close>

datatype 'd var_set = SetMatch string | SetDouble 'd | SetString string | SetBool bool

fun var_step :: "'d var_set \<Rightarrow> 'd call_variable \<Rightarrow> 'd call_variable" where
  "var_step (SetMatch s) v = setMatchingValue s v"
| "var_step (SetDouble d) v = setDouble d v"
| "var_step (SetString s) v = setString s v"
| "var_step (SetBool b) v = setBool b v"

definition union_ok :: "'d call_variable \<Rightarrow> bool" where
  "union_ok v \<longleftrightarrow> (M_type v = E_VT_DOUBLE \<longrightarrow> (\<exists>d. M_union v = M_double d)) \<and>
     (M_type v = E_VT_BOOL \<longrightarrow> (\<exists>b. M_union v = M_bool b)) \<and>
     (M_type v = E_VT_REGEXP \<longrightarrow> 1 \<le> M_nbOfMatchingValue v) \<and> 0 \<le> M_nbOfMatchingValue v"

lemma union_ok_steps: "union_ok v \<Longrightarrow> union_ok (fold var_step xs v)"
proof (induction xs arbitrary: v)
  case (Cons x xs)
  have "union_ok (var_step x v)" using Cons.prems
    by (cases x) (auto simp: union_ok_def setMatchingValue_def setDouble_def setString_def setBool_def)
  then show ?case using Cons.IH by simp
qed simp

text \<open>
  A variable reads as it was last set. After any sequence of assignments to a new variable no
  read looks at a member of the union that was not written, and the type, the text, the number, the
  truth value, whether it is set and its value as a number are those of the last assignment; a text is
  cut at a NUL.
\<close>

theorem variable_reads_last_set:
  "let v' = fold var_step (xs @ [x]) (new_CCallVariable zero) in
   (case x of
      SetMatch s \<Rightarrow> getMatchingValue v' = Some (c_str s) \<and> getString v' = c_str s \<and> isSet nz v' = Inr True \<and>
        toDouble strtod of_b v' = Inr (text_double strtod (c_str s)) \<and> getDouble zero v' = Inr zero \<and> getBool v' = Inr False
    | SetDouble d \<Rightarrow> getDouble zero v' = Inr d \<and> isSet nz v' = Inr (nz d) \<and> toDouble strtod of_b v' = Inr (Some d) \<and>
        getMatchingValue v' = None \<and> getString v' = [] \<and> getBool v' = Inr False
    | SetString s \<Rightarrow> getString v' = c_str s \<and> isSet nz v' = Inr True \<and>
        toDouble strtod of_b v' = Inr (text_double strtod (c_str s)) \<and> getMatchingValue v' = None \<and>
        getDouble zero v' = Inr zero \<and> getBool v' = Inr False
    | SetBool b \<Rightarrow> getBool v' = Inr b \<and> isSet nz v' = Inr b \<and> toDouble strtod of_b v' = Inr (Some (of_b b)) \<and>
        getMatchingValue v' = None \<and> getString v' = [] \<and> getDouble zero v' = Inr zero)"
proof -
  define v where "v = fold var_step xs (new_CCallVariable zero)"
  have "union_ok (new_CCallVariable zero)" by (simp add: union_ok_def new_CCallVariable_def)
  then have ok: "union_ok v" unfolding v_def by (rule union_ok_steps)
  have v': "fold var_step (xs @ [x]) (new_CCallVariable zero) = var_step x v" by (simp add: v_def)
  have cc: "c_str (c_str s) = c_str s" for s unfolding c_str_def by (rule takeWhile_idem)
  note reads = getMatchingValue_def getString_def isSet_def toDouble_def getDouble_def getBool_def read_double_def read_bool_def
  show ?thesis
    using ok unfolding v' Let_def
    by (cases x) (auto simp: union_ok_def setMatchingValue_def setDouble_def setString_def setBool_def reads cc)
qed

end
