(* ===== verification/Xp_Parser.thy ===== *)
theory Xp_Parser
  imports C_Strings
begin

text \<open>
  The scenario reader of \<^verbatim>\<open>xp_parser.cpp\<close>. The XML parser (pugixml) is an argument: what loading a
  text or a file gives, a document or an offset and a description of the error. A document is a list
  of nodes. After a failure \<^verbatim>\<open>xp_doc\<close> keeps its value here; nothing reads it then, as \<^verbatim>\<open>xp_stack\<close> is
  empty. The cursor \<^verbatim>\<open>xp_stack\<close> holds the nodes from the document to the current one, the current
  one first.
\<close>

datatype node_type = node_document | node_element | node_pcdata | node_cdata | node_comment | node_declaration

datatype xml_node = Node (xtype: node_type) (xname: string) (xvalue: string) (xattrs: "(string \<times> string) list") (children: "xml_node list")

record load_error =
  offset :: int
  description :: string

type_synonym loader = "string \<Rightarrow> load_error + xml_node list"

definition XP_MAX_INCLUDE_DEPTH :: nat where "XP_MAX_INCLUDE_DEPTH = 16"

text \<open>The value of an attribute, empty when there is none.\<close>

definition attribute :: "xml_node \<Rightarrow> string \<Rightarrow> string option" where
  "attribute n a = map_of (xattrs n) a"

definition attribute_value :: "xml_node \<Rightarrow> string \<Rightarrow> string" where
  "attribute_value n a = (case attribute n a of None \<Rightarrow> [] | Some v \<Rightarrow> v)"

definition document_element :: "xml_node list \<Rightarrow> xml_node option" where
  "document_element doc = find (\<lambda>n. xtype n = node_element) doc"

text \<open>The text up to and including the last slash.\<close>

definition dir_of :: "string \<Rightarrow> string" where
  "dir_of path = rev (dropWhile (\<lambda>c. c \<noteq> CHR ''/'') (rev path))"

section \<open>Includes\<close>

text \<open>What replaces an include: the children of the scenario, or the root.\<close>

definition included :: "xml_node list \<Rightarrow> xml_node list" where
  "included doc =
     (case document_element doc of
        None \<Rightarrow> []
      | Some root \<Rightarrow> if xname root = ''scenario'' then children root else [root])"

text \<open>\<^verbatim>\<open>xp_include\<close> up to the loaded document and its directory; an error is its message.\<close>

definition include_path :: "xml_node \<Rightarrow> string \<Rightarrow> string" where
  "include_path n dir =
     (let href = attribute_value n ''href'' in if hd href = CHR ''/'' then href else dir @ href)"

definition xp_include :: "loader \<Rightarrow> xml_node \<Rightarrow> string \<Rightarrow> nat \<Rightarrow> string + (xml_node list \<times> string)" where
  "xp_include load n dir depth =
     (if attribute_value n ''href'' = [] then Inl ''<xi:include> without an href''
      else let path = include_path n dir
        in if depth \<ge> XP_MAX_INCLUDE_DEPTH
           then Inl (''cannot include '' @ [CHR 0x27] @ path @ [CHR 0x27] @ '': more than '' @ to_string XP_MAX_INCLUDE_DEPTH @ '' nested includes'')
           else case load path of
                  Inl e \<Rightarrow> Inl (''cannot include '' @ [CHR 0x27] @ path @ [CHR 0x27] @ '': '' @ description e)
                | Inr doc \<Rightarrow> Inr (doc, dir_of path))"

lemma xp_include_depth: "xp_include load n dir depth = Inr x \<Longrightarrow> depth < XP_MAX_INCLUDE_DEPTH"
  by (auto simp: xp_include_def Let_def split: if_splits)

text \<open>\<^verbatim>\<open>xp_expand_includes\<close> on the children of a node.\<close>

function xp_expand_includes :: "loader \<Rightarrow> xml_node list \<Rightarrow> string \<Rightarrow> nat \<Rightarrow> string + xml_node list" where
  "xp_expand_includes load [] dir depth = Inr []"
| "xp_expand_includes load (n # ns) dir depth =
     (case (if xname n = ''xi:include''
            then (case xp_include load n dir depth of
                    Inl e \<Rightarrow> Inl e
                  | Inr (doc, dir') \<Rightarrow>
                      (case xp_expand_includes load doc dir' (depth + 1) of
                         Inl e \<Rightarrow> Inl e
                       | Inr doc' \<Rightarrow> Inr (included doc')))
            else (case xp_expand_includes load (children n) dir depth of
                    Inl e \<Rightarrow> Inl e
                  | Inr cs \<Rightarrow> Inr [Node (xtype n) (xname n) (xvalue n) (xattrs n) cs])) of
        Inl e \<Rightarrow> Inl e
      | Inr new \<Rightarrow>
          (case xp_expand_includes load ns dir depth of
             Inl e \<Rightarrow> Inl e
           | Inr rest \<Rightarrow> Inr (new @ rest)))"
  by pat_completeness auto
termination
proof (relation "measures [\<lambda>(load, ns, dir, depth). XP_MAX_INCLUDE_DEPTH - depth, \<lambda>(load, ns, dir, depth). size_list size ns]")
  fix n :: xml_node
  have "size_list size (children n) < size n" by (cases n) simp
  then show "((load, children n, dir, depth), (load, n # ns, dir, depth)) \<in>
      measures [\<lambda>(load, ns, dir, depth). XP_MAX_INCLUDE_DEPTH - depth, \<lambda>(load, ns, dir, depth). size_list size ns]"
    for load :: loader and ns dir depth by simp
qed (auto dest!: xp_include_depth)

section \<open>The document and the cursor\<close>

record xp_state =
  xp_doc :: "xml_node list"
  xp_stack :: "xml_node list"
  xp_value_buffer :: string
  xp_cdata_buffer :: string
  xp_elem_name :: string
  xp_invalid_line :: int
  xp_error :: string

definition xp_loaded :: "loader \<Rightarrow> string \<Rightarrow> xp_state \<Rightarrow> bool \<times> xp_state" where
  "xp_loaded load dir s =
     (case xp_expand_includes load (xp_doc s) dir 0 of
        Inl e \<Rightarrow> (False, s\<lparr>xp_error := e\<rparr>)
      | Inr doc \<Rightarrow> (True, s\<lparr>xp_doc := doc, xp_stack := Node node_document [] [] [] doc # xp_stack s\<rparr>))"

definition xp_load :: "loader \<Rightarrow> loader \<Rightarrow> string \<Rightarrow> xp_state \<Rightarrow> bool \<times> xp_state" where
  "xp_load load_string load_file xml s =
     (let s = s\<lparr>xp_stack := [], xp_invalid_line := 0, xp_error := []\<rparr>
      in case load_string xml of
           Inl e \<Rightarrow>
             (False, s\<lparr>xp_invalid_line := 1 + int (length (filter (\<lambda>c. c = LF) (take (nat (offset e)) (c_str xml))))\<rparr>)
         | Inr doc \<Rightarrow> xp_loaded load_file [] (s\<lparr>xp_doc := doc\<rparr>))"

definition xp_set_xml_buffer_from_string :: "loader \<Rightarrow> loader \<Rightarrow> string option \<Rightarrow> xp_state \<Rightarrow> int \<times> xp_state" where
  "xp_set_xml_buffer_from_string load_string load_file str s =
     (case str of
        None \<Rightarrow> (0, s)
      | Some t \<Rightarrow>
          if t = [] then (0, s)
          else case xp_load load_string load_file t s of (ok, s') \<Rightarrow> (if ok then 1 else 0, s'))"

definition xp_set_xml_buffer_from_file :: "loader \<Rightarrow> string \<Rightarrow> xp_state \<Rightarrow> int \<times> xp_state" where
  "xp_set_xml_buffer_from_file load_file filename s =
     (let s = s\<lparr>xp_stack := [], xp_invalid_line := 0, xp_error := []\<rparr>
      in case load_file filename of
           Inl e \<Rightarrow> (0, s\<lparr>xp_invalid_line := (if offset e > 0 then 1 else 0)\<rparr>)
         | Inr doc \<Rightarrow>
             (case xp_loaded load_file (dir_of filename) (s\<lparr>xp_doc := doc\<rparr>) of (ok, s') \<Rightarrow> (if ok then 1 else 0, s')))"

definition xp_get_error :: "xp_state \<Rightarrow> string" where
  "xp_get_error s = xp_error s"

fun xp_process_escapes :: "string \<Rightarrow> string" where
  "xp_process_escapes (p # q # r) =
     (if p = CHR 0x5C then
        (if q = CHR 0x5C then [CHR 0x5C]
         else if q = DQUOTE then [DQUOTE]
         else if q = CHR ''n'' then [LF]
         else if q = CHR ''t'' then [TAB]
         else if q = CHR ''r'' then [CR]
         else [CHR 0x5C, q]) @ xp_process_escapes r
      else p # xp_process_escapes (q # r))"
| "xp_process_escapes [p] = [p]"
| "xp_process_escapes [] = []"

text \<open>The element children of the current node; \<open>open_nth\<close> is the loop.\<close>

fun open_nth :: "xml_node list \<Rightarrow> int \<Rightarrow> int \<Rightarrow> xml_node option" where
  "open_nth [] i index = None"
| "open_nth (c # cs) i index =
     (if xtype c \<noteq> node_element then open_nth cs i index
      else if i = index then Some c
      else open_nth cs (i + 1) index)"

definition xp_open_element :: "int \<Rightarrow> xp_state \<Rightarrow> string option \<times> xp_state" where
  "xp_open_element index s =
     (case xp_stack s of
        [] \<Rightarrow> (None, s)
      | node # _ \<Rightarrow>
          (case open_nth (children node) 0 index of
             None \<Rightarrow> (None, s)
           | Some c \<Rightarrow>
               let s' = s\<lparr>xp_stack := c # xp_stack s, xp_elem_name := take 255 (xname c)\<rparr>
               in (Some (xp_elem_name s'), s')))"

definition xp_close_element :: "xp_state \<Rightarrow> xp_state" where
  "xp_close_element s =
     (if length (xp_stack s) \<le> 1 then s\<lparr>xp_invalid_line := -1\<rparr> else s\<lparr>xp_stack := tl (xp_stack s)\<rparr>)"

definition xp_is_invalid :: "xp_state \<Rightarrow> bool" where
  "xp_is_invalid s \<longleftrightarrow> xp_invalid_line s \<noteq> 0"

definition xp_get_invalid_line :: "xp_state \<Rightarrow> int" where
  "xp_get_invalid_line s = xp_invalid_line s"

definition xp_get_value :: "string \<Rightarrow> xp_state \<Rightarrow> string option \<times> xp_state" where
  "xp_get_value name s =
     (case xp_stack s of
        [] \<Rightarrow> (None, s)
      | node # _ \<Rightarrow>
          (case attribute node name of
             None \<Rightarrow> (None, s)
           | Some v \<Rightarrow>
               let s' = s\<lparr>xp_value_buffer := xp_process_escapes v\<rparr> in (Some (xp_value_buffer s'), s')))"

definition xp_get_cdata :: "xp_state \<Rightarrow> string option \<times> xp_state" where
  "xp_get_cdata s =
     (case xp_stack s of
        [] \<Rightarrow> (None, s)
      | node # _ \<Rightarrow>
          (case find (\<lambda>c. xtype c = node_cdata) (children node) of
             None \<Rightarrow> (None, s)
           | Some c \<Rightarrow> let s' = s\<lparr>xp_cdata_buffer := xvalue c\<rparr> in (Some (xp_cdata_buffer s'), s')))"

end
