(* ===== verification/Xp_Correct.thy ===== *)
theory Xp_Correct
  imports Xp_Parser
begin

text \<open>
  The scenario reader: includes are gone after loading and cannot loop, the cursor stays on a path of
  the document, and escaped attribute values read back.
\<close>

section \<open>Includes\<close>

fun no_include :: "xml_node \<Rightarrow> bool" where
  "no_include (Node t n v as cs) \<longleftrightarrow> n \<noteq> ''xi:include'' \<and> list_all no_include cs"

lemma no_include_iff: "no_include n \<longleftrightarrow> xname n \<noteq> ''xi:include'' \<and> list_all no_include (children n)"
  by (cases n) simp

text \<open>What the first node of a list becomes.\<close>

definition expand_node :: "loader \<Rightarrow> xml_node \<Rightarrow> string \<Rightarrow> nat \<Rightarrow> string + xml_node list" where
  "expand_node load n dir depth =
     (if xname n = ''xi:include''
      then (case xp_include load n dir depth of Inl e \<Rightarrow> Inl e
       | Inr (doc, dir') \<Rightarrow> (case xp_expand_includes load doc dir' (depth + 1) of Inl e \<Rightarrow> Inl e | Inr doc' \<Rightarrow> Inr (included doc')))
      else (case xp_expand_includes load (children n) dir depth of Inl e \<Rightarrow> Inl e
       | Inr cs \<Rightarrow> Inr [Node (xtype n) (xname n) (xvalue n) (xattrs n) cs]))"

lemma expand_Cons: "xp_expand_includes load (n # ns) dir depth =
    (case expand_node load n dir depth of Inl e \<Rightarrow> Inl e
     | Inr new \<Rightarrow> (case xp_expand_includes load ns dir depth of Inl e \<Rightarrow> Inl e | Inr rest \<Rightarrow> Inr (new @ rest)))"
  unfolding expand_node_def by (rule xp_expand_includes.simps(2))

lemmas expand_induct = xp_expand_includes.induct [folded expand_node_def]

lemma included_no_include: "list_all no_include doc \<Longrightarrow> list_all no_include (included doc)"
proof -
  assume d: "list_all no_include doc"
  show ?thesis
  proof (cases "document_element doc")
    case (Some root)
    then have "root \<in> set doc" unfolding document_element_def by (metis find_Some_iff nth_mem)
    then have "no_include root" using d by (simp add: list_all_iff)
    then show ?thesis using Some no_include_iff [of root] by (simp add: included_def)
  qed (simp add: included_def)
qed

lemma expand_no_include: "xp_expand_includes load ns dir depth = Inr ns' \<Longrightarrow> list_all no_include ns'"
proof (induction load ns dir depth arbitrary: ns' rule: expand_induct)
  case (2 load n ns dir depth)
  obtain new rest where f: "expand_node load n dir depth = Inr new" "xp_expand_includes load ns dir depth = Inr rest" "ns' = new @ rest"
    using "2.prems" unfolding expand_Cons by (auto split: sum.splits)
  have "list_all no_include new"
  proof (cases "xname n = ''xi:include''")
    case True
    then obtain doc dir' doc' where "xp_include load n dir depth = Inr (doc, dir')"
      "xp_expand_includes load doc dir' (depth + 1) = Inr doc'" "new = included doc'"
      using f(1) unfolding expand_node_def by (auto split: sum.splits prod.splits)
    then show ?thesis using "2.IH"(1) [OF True _ refl] included_no_include by metis
  next
    case False
    then obtain cs where "xp_expand_includes load (children n) dir depth = Inr cs"
      "new = [Node (xtype n) (xname n) (xvalue n) (xattrs n) cs]"
      using f(1) unfolding expand_node_def by (auto split: sum.splits)
    then show ?thesis using "2.IH"(2) [OF False] False by simp
  qed
  moreover have "list_all no_include rest" by (rule "2.IH"(3) [OF f(1,2)])
  ultimately show ?case using f(3) by simp
qed simp

lemma expand_unchanged: "list_all no_include ns \<Longrightarrow> xp_expand_includes load ns dir depth = Inr ns"
proof (induction load ns dir depth rule: expand_induct)
  case (2 load n ns dir depth)
  then have n: "xname n \<noteq> ''xi:include''" "list_all no_include (children n)" using no_include_iff [of n] by auto
  have c: "xp_expand_includes load (children n) dir depth = Inr (children n)" by (rule "2.IH"(2) [OF n])
  have "xp_expand_includes load ns dir depth = Inr ns" by (rule "2.IH"(3)) (use 2 n c in \<open>auto simp: expand_node_def\<close>)
  then show ?case using n c by simp
qed simp

text \<open>
  C29: expanding the includes of a document. Whatever the files are, when it succeeds no include is left
  anywhere in the document, and a document without includes is not changed.
\<close>

theorem expand_includes_all:
  "(\<forall>ns'. xp_expand_includes load ns dir depth = Inr ns' \<longrightarrow> list_all no_include ns') \<and>
   (list_all no_include ns \<longrightarrow> xp_expand_includes load ns dir depth = Inr ns)"
  using expand_no_include expand_unchanged by blast

theorem expand_includes_all_witness:
  "xp_expand_includes (\<lambda>p. Inr []) [Node node_element ''scenario'' [] [] []] [] 0 = Inr [Node node_element ''scenario'' [] [] []]"
  using expand_includes_all [of "\<lambda>p. Inr []" "[Node node_element ''scenario'' [] [] []]" "[]" 0] by simp

fun has_include :: "string \<Rightarrow> xml_node \<Rightarrow> bool" where
  "has_include path (Node t n v as cs) \<longleftrightarrow>
     n = ''xi:include'' \<and> attribute_value (Node t n v as cs) ''href'' = path \<or> n \<noteq> ''xi:include'' \<and> list_ex (has_include path) cs"

lemma has_include_iff: "has_include path n \<longleftrightarrow>
    xname n = ''xi:include'' \<and> attribute_value n ''href'' = path \<or> xname n \<noteq> ''xi:include'' \<and> list_ex (has_include path) (children n)"
  by (cases n) simp

lemma expand_reaches_include:
  assumes "list_ex (has_include path) ns" and "path \<noteq> []" "hd path = CHR ''/''" and "load path = Inr doc"
    and "depth < XP_MAX_INCLUDE_DEPTH \<Longrightarrow> \<exists>e. xp_expand_includes load doc (dir_of path) (depth + 1) = Inl e"
  shows "\<exists>e. xp_expand_includes load ns dir depth = Inl e"
  using assms
proof (induction load ns dir depth rule: expand_induct)
  case (2 load n ns dir depth)
  show ?case
  proof (cases "has_include path n")
    case True
    show ?thesis
    proof (cases "xname n = ''xi:include''")
      case inc: True
      then have "attribute_value n ''href'' = path" using True has_include_iff [of path n] by simp
      then have "xp_include load n dir depth = (if depth \<ge> XP_MAX_INCLUDE_DEPTH
          then xp_include load n dir depth else Inr (doc, dir_of path))"
        using "2.prems" by (simp add: xp_include_def include_path_def Let_def)
      moreover have "depth \<ge> XP_MAX_INCLUDE_DEPTH \<Longrightarrow> \<exists>e. xp_include load n dir depth = Inl e"
        by (simp add: xp_include_def Let_def)
      ultimately show ?thesis using inc "2.prems"(5) by (cases "depth \<ge> XP_MAX_INCLUDE_DEPTH") auto
    next
      case no: False
      then have "list_ex (has_include path) (children n)" using True has_include_iff [of path n] by simp
      then obtain e where "xp_expand_includes load (children n) dir depth = Inl e" using "2.IH"(2) [OF no] "2.prems" by blast
      then show ?thesis using no by simp
    qed
  next
    case False
    then have ex: "list_ex (has_include path) ns" using "2.prems" by simp
    show ?thesis
      unfolding expand_Cons using "2.IH"(3) [OF _ ex "2.prems"(2-5)] by (cases "expand_node load n dir depth") auto
  qed
qed simp



section \<open>The cursor\<close>

fun on_path :: "xml_node list \<Rightarrow> xml_node list \<Rightarrow> bool" where
  "on_path doc [] \<longleftrightarrow> False"
| "on_path doc [n] \<longleftrightarrow> n = Node node_document [] [] [] doc"
| "on_path doc (c # n # ns) \<longleftrightarrow> c \<in> set (children n) \<and> xtype c = node_element \<and> on_path doc (n # ns)"

definition cursor_ok :: "xp_state \<Rightarrow> bool" where
  "cursor_ok s \<longleftrightarrow> on_path (xp_doc s) (xp_stack s) \<and> list_all no_include (xp_doc s)"

datatype cursor_op = Open int | Close | Value string | Cdata

fun cursor_step :: "cursor_op \<Rightarrow> xp_state \<Rightarrow> xp_state res" where
  "cursor_step (Open i) s = Inr (snd (xp_open_element i s))"
| "cursor_step Close s = Inr (xp_close_element s)"
| "cursor_step (Value n) s = Inr (snd (xp_get_value n s))"
| "cursor_step Cdata s = Inr (snd (xp_get_cdata s))"

lemma open_nth_spec:
  "0 \<le> i \<Longrightarrow> open_nth cs i index =
    (let es = filter (\<lambda>c. xtype c = node_element) cs
     in if i \<le> index \<and> index < i + int (length es) then Some (es ! nat (index - i)) else None)"
  by (induction cs i index rule: open_nth.induct) (auto simp: Let_def nth_Cons' nat_diff_distrib nat_add_distrib split: if_splits)

lemma open_nth_child: "open_nth cs i index = Some c \<Longrightarrow> c \<in> set cs \<and> xtype c = node_element"
  by (induction cs i index rule: open_nth.induct) (auto split: if_splits)

lemma cursor_keeps [keeps]: "cursor_ok s \<Longrightarrow> cursor_step x s = Inr s' \<Longrightarrow> cursor_ok s'"
proof (cases x)
  case (Open i)
  assume ok: "cursor_ok s" and "cursor_step x s = Inr s'"
  then show ?thesis using Open
    by (cases "xp_stack s") (auto simp: cursor_ok_def xp_open_element_def Let_def split: option.splits dest: open_nth_child)
next
  case Close
  assume "cursor_ok s" and "cursor_step x s = Inr s'"
  then show ?thesis using Close
    by (cases "xp_stack s"; cases "tl (xp_stack s)") (auto simp: cursor_ok_def xp_close_element_def)
next
  case (Value n)
  assume "cursor_ok s" and "cursor_step x s = Inr s'"
  then show ?thesis using Value
    by (auto simp: cursor_ok_def xp_get_value_def Let_def split: option.splits list.splits)
next
  case Cdata
  assume "cursor_ok s" and "cursor_step x s = Inr s'"
  then show ?thesis using Cdata
    by (auto simp: cursor_ok_def xp_get_cdata_def Let_def split: option.splits list.splits)
qed

interpretation cursor: invariant cursor_step cursor_ok
  by unfold_locales (rule cursor_keeps)

lemma load_file_ok: "xp_set_xml_buffer_from_file load path s = (1, s') \<Longrightarrow> cursor_ok s'"
  by (auto simp: xp_set_xml_buffer_from_file_def xp_loaded_def cursor_ok_def Let_def
      dest!: expand_no_include split: sum.splits prod.splits if_splits)

lemma on_path_no_include:
  assumes "on_path doc (n # ns)" "list_all no_include doc"
  shows "no_include n"
  using assms
proof (induction "n # ns" arbitrary: n ns rule: on_path.induct)
  case (3 doc c n ns)
  then have "no_include n" "c \<in> set (children n)" by auto
  then show ?case using no_include_iff [of n] by (auto simp: list_all_iff)
qed simp_all

text \<open>
  C31: the cursor. After a scenario file is loaded and after any sequence of opening and closing
  elements and reading values, the cursor is on a path of element nodes from the document, none of
  them an include; opening element \<open>i\<close> moves to the \<open>i\<close>th element child and fails exactly when there is
  none, and closing it again moves back.
\<close>

theorem cursor_on_path:
  assumes "xp_set_xml_buffer_from_file load path s0 = (1, s1)" and "run_res cursor_step ops s1 = Inr s"
  shows "\<exists>n ns. xp_stack s = n # ns \<and> on_path (xp_doc s) (n # ns) \<and> xname n \<noteq> ''xi:include'' \<and>
    (let es = filter (\<lambda>c. xtype c = node_element) (children n)
     in if 0 \<le> i \<and> i < int (length es)
        then fst (xp_open_element i s) = Some (take 255 (xname (es ! nat i))) \<and>
          xp_stack (snd (xp_open_element i s)) = es ! nat i # xp_stack s \<and>
          xp_stack (xp_close_element (snd (xp_open_element i s))) = xp_stack s
        else xp_open_element i s = (None, s))"
proof -
  have ok: "cursor_ok s" using cursor.run_keeps [OF load_file_ok [OF assms(1)] assms(2)] .
  then obtain n ns where s: "xp_stack s = n # ns" by (cases "xp_stack s") (auto simp: cursor_ok_def)
  have p: "on_path (xp_doc s) (n # ns)" using ok s by (simp add: cursor_ok_def)
  have "no_include n" using on_path_no_include [OF p] ok by (simp add: cursor_ok_def)
  then have n: "xname n \<noteq> ''xi:include''" by (simp add: no_include_iff)
  let ?es = "filter (\<lambda>c. xtype c = node_element) (children n)"
  have "if 0 \<le> i \<and> i < int (length ?es)
        then fst (xp_open_element i s) = Some (take 255 (xname (?es ! nat i))) \<and>
          xp_stack (snd (xp_open_element i s)) = ?es ! nat i # xp_stack s \<and>
          xp_stack (xp_close_element (snd (xp_open_element i s))) = xp_stack s
        else xp_open_element i s = (None, s)"
    using s open_nth_spec [of 0 "children n" i] by (simp add: xp_open_element_def xp_close_element_def Let_def)
  then show ?thesis using s p n by (simp only: Let_def list.inject) blast
qed

theorem cursor_on_path_witness:
  "\<exists>s1 s. xp_set_xml_buffer_from_file (\<lambda>p. Inr [Node node_element ''scenario'' [] [] []]) ''x'' undefined = (1, s1) \<and>
     run_res cursor_step [Open 0, Close] s1 = Inr s \<and> (\<exists>n ns. xp_stack s = n # ns \<and> xname n \<noteq> ''xi:include'')"
proof -
  let ?load = "\<lambda>p. Inr [Node node_element ''scenario'' [] [] []] :: load_error + xml_node list"
  obtain s1 where 1: "xp_set_xml_buffer_from_file ?load ''x'' undefined = (1, s1)"
    by (simp add: xp_set_xml_buffer_from_file_def xp_loaded_def)
  obtain s where 2: "run_res cursor_step [Open 0, Close] s1 = Inr s" by simp
  show ?thesis using 1 2 cursor_on_path [OF 1 2] by blast
qed

section \<open>Escapes\<close>

definition escape :: "string \<Rightarrow> string" where
  "escape s = concat (map (\<lambda>c. if c = CHR 0x5C then [CHR 0x5C, CHR 0x5C] else if c = DQUOTE then [CHR 0x5C, DQUOTE]
     else if c = LF then [CHR 0x5C, CHR ''n''] else if c = TAB then [CHR 0x5C, CHR ''t'']
     else if c = CR then [CHR 0x5C, CHR ''r''] else [c]) s)"

lemma process_plain: "p \<noteq> CHR 0x5C \<Longrightarrow> xp_process_escapes (p # s) = p # xp_process_escapes s"
  by (cases s) auto

lemma process_escaped: "xp_process_escapes (escape s) = s"
  by (induction s) (auto simp: escape_def process_plain)

text \<open>
  Attribute values. A value written with the escapes of the old parser reads as the text, and a
  value without a backslash reads as it is.
\<close>

theorem get_value_unescapes:
  "fst (xp_get_value name (s\<lparr>xp_stack := Node t n v ((name, escape x) # as) cs # ns\<rparr>)) = Some x \<and>
   (CHR 0x5C \<notin> set x \<longrightarrow> fst (xp_get_value name (s\<lparr>xp_stack := Node t n v ((name, x) # as) cs # ns\<rparr>)) = Some x)"
proof -
  have "CHR 0x5C \<notin> set x \<Longrightarrow> xp_process_escapes x = x" by (induction x) (auto simp: process_plain)
  then show ?thesis by (simp add: xp_get_value_def attribute_def process_escaped Let_def)
qed

theorem get_value_unescapes_witness:
  "fst (xp_get_value ''a'' (undefined\<lparr>xp_stack := [Node node_element [] [] [(''a'', ''b'')] []]\<rparr>)) = Some ''b''"
  by (rule get_value_unescapes [THEN conjunct2, rule_format]) simp

end
