(* ===== verification/Stat.thy ===== *)
theory Stat
  imports C_Strings
begin

text \<open>
  The statistics of \<^verbatim>\<open>stat.cpp\<close>: counters, repartition tables, named counters and response time
  durations. A counter is a 64 bit word. The global counters are shared by all objects of the class;
  they are part of the state of the one object modelled here. The clock and the time of day are
  arguments. Files, printing and floating point averages are left out.
\<close>

section \<open>Names\<close>

datatype e_action =
    E_NO_ACTION | E_CREATE_OUTGOING_CALL | E_CREATE_INCOMING_CALL | E_CALL_FAILED | E_CALL_SUCCESSFULLY_ENDED
  | E_CALL_ENDED_UNCOUNTED | E_RESET_C_COUNTERS | E_RESET_PD_COUNTERS | E_RESET_PL_COUNTERS | E_ADD_CALL_DURATION
  | E_ADD_RESPONSE_TIME_DURATION | E_FAILED_CANNOT_SEND_MSG | E_FAILED_MAX_UDP_RETRANS | E_FAILED_TCP_CONNECT
  | E_FAILED_TCP_CLOSED | E_FAILED_UNEXPECTED_MSG | E_FAILED_CALL_REJECTED | E_FAILED_CMD_NOT_SENT
  | E_FAILED_REGEXP_DOESNT_MATCH | E_FAILED_REGEXP_SHOULDNT_MATCH | E_FAILED_REGEXP_HDR_NOT_FOUND
  | E_FAILED_OUTBOUND_CONGESTION | E_FAILED_TIMEOUT_ON_RECV | E_FAILED_TIMEOUT_ON_SEND | E_FAILED_TEST_DOESNT_MATCH
  | E_FAILED_TEST_SHOULDNT_MATCH | E_FAILED_STRCMP_DOESNT_MATCH | E_FAILED_STRCMP_SHOULDNT_MATCH | E_OUT_OF_CALL_MSGS
  | E_WATCHDOG_MAJOR | E_WATCHDOG_MINOR | E_DEAD_CALL_MSGS | E_FATAL_ERRORS | E_WARNING | E_RETRANSMISSION
  | E_AUTO_ANSWERED | E_ADD_GENERIC_COUNTER

text \<open>A counter name of the enumeration is a period and what it counts: \<^verbatim>\<open>CPT_PD_FailedCall\<close> is \<open>(PD, FailedCall)\<close>.\<close>

datatype period = Cumul | PD | PL

datatype cpt =
    IncomingCallCreated | OutgoingCallCreated | SuccessfulCall | FailedCall | CurrentCall | CurrentCallPeak
  | CurrentCallPeakTime | NbOfCallUsedForAverageCallLength | AverageCallLength_Sum | AverageCallLength_Squares
  | NbOfCallUsedForAverageResponseTime nat | AverageResponseTime_Sum nat | AverageResponseTime_Squares nat
  | FailedCallCannotSendMessage | FailedCallMaxUdpRetrans | FailedCallTcpConnect | FailedCallTcpClosed
  | FailedCallUnexpectedMessage | FailedCallCallRejected | FailedCallCmdNotSent | FailedCallRegexpDoesntMatch
  | FailedCallRegexpShouldntMatch | FailedCallRegexpHdrNotFound | FailedCallTestDoesntMatch
  | FailedCallTestShouldntMatch | FailedCallStrcmpDoesntMatch | FailedCallStrcmpShouldntMatch
  | FailedOutboundCongestion | FailedTimeoutOnRecv | FailedTimeoutOnSend | Retransmissions

datatype g_cpt = OutOfCallMsgs | DeadCallMsgs | FatalErrors | Warnings | WatchdogMajor | WatchdogMinor | AutoAnswered

type_synonym counter_name = "period \<times> cpt"

definition failed_names :: "cpt list" where
  "failed_names =
     [FailedCallCannotSendMessage, FailedCallMaxUdpRetrans, FailedCallTcpConnect, FailedCallTcpClosed,
      FailedCallUnexpectedMessage, FailedCallCallRejected, FailedCallCmdNotSent, FailedCallRegexpDoesntMatch,
      FailedCallRegexpShouldntMatch, FailedCallRegexpHdrNotFound, FailedCallTestDoesntMatch, FailedCallTestShouldntMatch,
      FailedCallStrcmpDoesntMatch, FailedCallStrcmpShouldntMatch, FailedOutboundCongestion, FailedTimeoutOnRecv,
      FailedTimeoutOnSend, Retransmissions]"

definition periodic_names :: "cpt list" where
  "periodic_names =
     [IncomingCallCreated, OutgoingCallCreated, SuccessfulCall, FailedCall, CurrentCallPeak, CurrentCallPeakTime,
      NbOfCallUsedForAverageCallLength, AverageCallLength_Sum, AverageCallLength_Squares] @
     map NbOfCallUsedForAverageResponseTime [1, 2, 3, 4, 5] @ map AverageResponseTime_Sum [1, 2, 3, 4, 5] @
     map AverageResponseTime_Squares [1, 2, 3, 4, 5] @ failed_names"

text \<open>The per-scenario counters in the order of the enumeration.\<close>

definition E_CounterName :: "counter_name list" where
  "E_CounterName =
     map (Pair Cumul) ([IncomingCallCreated, OutgoingCallCreated, SuccessfulCall, FailedCall, CurrentCall, CurrentCallPeak,
        CurrentCallPeakTime, NbOfCallUsedForAverageCallLength, AverageCallLength_Sum, AverageCallLength_Squares] @ failed_names) @
     map (Pair PD) periodic_names @ map (Pair PL) periodic_names"

definition E_GlobalName :: "(period \<times> g_cpt) list" where
  "E_GlobalName = List.product [Cumul, PD, PL]
     [OutOfCallMsgs, DeadCallMsgs, FatalErrors, Warnings, WatchdogMajor, WatchdogMinor, AutoAnswered]"

text \<open>The names from one to another in an enumeration: what a loop over their numbers visits.\<close>

definition enum_range :: "'a list \<Rightarrow> 'a \<Rightarrow> 'a \<Rightarrow> 'a list" where
  "enum_range xs a b = (let r = dropWhile (\<lambda>x. x \<noteq> a) xs in takeWhile (\<lambda>x. x \<noteq> b) r @ [b])"

section \<open>State\<close>

record repartition =
  borderMax :: nat
  nbInThisBorder :: "64 word"
  nbInThisBorderPL :: "64 word"

record cstat =
  M_counters :: "counter_name \<Rightarrow> 64 word"
  M_G_counters :: "period \<times> g_cpt \<Rightarrow> 64 word"
  M_genericCounters :: "64 word list"
  M_genericMap :: "string \<Rightarrow> int option"
  M_genericSize :: nat
  M_revGenericMap :: "int \<Rightarrow> string option"
  M_genericDisplay :: "int \<Rightarrow> string option"
  rtd_started :: "string list"
  rtd_stopped :: "string list"
  M_rtdInfo :: "64 word list"
  M_rtdMap :: "string \<Rightarrow> int option"
  M_rtdSize :: nat
  M_revRtdMap :: "int \<Rightarrow> string option"
  M_ResponseTimeRepartition :: "repartition list option list"
  M_CallLengthRepartition :: "repartition list option"
  M_startTime :: int
  M_pdStartTime :: int
  M_plStartTime :: int
  M_rtpEchoErrors :: int

text \<open>
  \<open>M_genericSize\<close> and \<open>M_rtdSize\<close> are the sizes of the maps. The size of a repartition table is its
  length. \<open>rtd_started\<close> and \<open>rtd_stopped\<close> are the names with the value \<^verbatim>\<open>true\<close>.
\<close>

definition GENERIC_TYPES :: nat where "GENERIC_TYPES = 3"
definition RTD_TYPES :: nat where "RTD_TYPES = 3"
definition GENERIC_C :: nat where "GENERIC_C = 0"
definition GENERIC_PD :: nat where "GENERIC_PD = 1"
definition GENERIC_PL :: nat where "GENERIC_PL = 2"
definition RTD_COUNT :: nat where "RTD_COUNT = 0"
definition RTD_SUM :: nat where "RTD_SUM = 1"
definition RTD_SUMSQ :: nat where "RTD_SUMSQ = 2"

definition new_CStat :: "(period \<times> g_cpt \<Rightarrow> 64 word) \<Rightarrow> int \<Rightarrow> cstat" where
  "new_CStat g now =
     \<lparr>M_counters = (\<lambda>c. 0), M_G_counters = g, M_genericCounters = [], M_genericMap = Map.empty, M_genericSize = 0,
      M_revGenericMap = Map.empty, M_genericDisplay = Map.empty, rtd_started = [], rtd_stopped = [], M_rtdInfo = [],
      M_rtdMap = Map.empty, M_rtdSize = 0, M_revRtdMap = Map.empty, M_ResponseTimeRepartition = [],
      M_CallLengthRepartition = None, M_startTime = now, M_pdStartTime = now, M_plStartTime = now, M_rtpEchoErrors = 0\<rparr>"

section \<open>Resets\<close>

definition zero_all :: "'a list \<Rightarrow> ('a \<Rightarrow> 64 word) \<Rightarrow> 'a \<Rightarrow> 64 word" where
  "zero_all cs f c = (if c \<in> set cs then 0 else f c)"

definition zero_at :: "nat list \<Rightarrow> 64 word list \<Rightarrow> 64 word list" where
  "zero_at is xs = foldl (\<lambda>xs i. xs[i := 0]) xs is"

text \<open>The macros \<^verbatim>\<open>RESET_C_COUNTERS\<close>, \<^verbatim>\<open>RESET_PD_COUNTERS\<close> and \<^verbatim>\<open>RESET_PL_COUNTERS\<close>.\<close>

definition RESET_COUNTERS_OF :: "period \<Rightarrow> nat \<Rightarrow> cstat \<Rightarrow> cstat" where
  "RESET_COUNTERS_OF p t s =
     s\<lparr>M_G_counters := zero_all (enum_range E_GlobalName (p, OutOfCallMsgs) (p, AutoAnswered)) (M_G_counters s),
       M_counters := zero_all (enum_range E_CounterName (p, IncomingCallCreated) (p, Retransmissions)) (M_counters s),
       M_genericCounters := zero_at (map (\<lambda>j. j * GENERIC_TYPES + t) [0..<M_genericSize s]) (M_genericCounters s),
       M_rtdInfo := zero_at (concat (map (\<lambda>j.
           map (\<lambda>k. j * GENERIC_TYPES * RTD_TYPES + t * RTD_TYPES + k) [RTD_COUNT, RTD_SUM, RTD_SUMSQ]) [0..<M_rtdSize s]))
         (M_rtdInfo s)\<rparr>"

definition RESET_C_COUNTERS :: "cstat \<Rightarrow> cstat" where "RESET_C_COUNTERS = RESET_COUNTERS_OF Cumul GENERIC_C"
definition RESET_PD_COUNTERS :: "cstat \<Rightarrow> cstat" where "RESET_PD_COUNTERS = RESET_COUNTERS_OF PD GENERIC_PD"
definition RESET_PL_COUNTERS :: "cstat \<Rightarrow> cstat" where "RESET_PL_COUNTERS = RESET_COUNTERS_OF PL GENERIC_PL"

definition resetRepartition :: "repartition list option \<Rightarrow> repartition list option" where
  "resetRepartition tab = map_option (map (\<lambda>r. r\<lparr>nbInThisBorderPL := 0\<rparr>)) tab"

section \<open>Counting\<close>

definition inc :: "counter_name \<Rightarrow> cstat \<Rightarrow> cstat" where
  "inc c s = s\<lparr>M_counters := (M_counters s)(c := M_counters s c + 1)\<rparr>"

definition inc3 :: "cpt \<Rightarrow> cstat \<Rightarrow> cstat" where
  "inc3 n s = inc (PL, n) (inc (PD, n) (inc (Cumul, n) s))"

definition current_down :: "cstat \<Rightarrow> cstat" where
  "current_down s = s\<lparr>M_counters := (M_counters s)((Cumul, CurrentCall) := M_counters s (Cumul, CurrentCall) - 1)\<rparr>"

definition note_peak :: "nat \<Rightarrow> period \<Rightarrow> cstat \<Rightarrow> cstat" where
  "note_peak clock_tick p s =
     (let cur = M_counters s (Cumul, CurrentCall)
      in if cur > M_counters s (p, CurrentCallPeak)
         then s\<lparr>M_counters := (M_counters s)((p, CurrentCallPeak) := cur, (p, CurrentCallPeakTime) := of_nat (clock_tick div 1000))\<rparr>
         else s)"

definition created :: "cpt \<Rightarrow> nat \<Rightarrow> cstat \<Rightarrow> cstat" where
  "created n clock_tick s =
     note_peak clock_tick PL (note_peak clock_tick PD (note_peak clock_tick Cumul (inc (Cumul, CurrentCall) (inc3 n s))))"

text \<open>The actions that count one thing in the three periods.\<close>

definition failure_counter :: "e_action \<Rightarrow> cpt option" where
  "failure_counter a =
     (case a of
        E_FAILED_CANNOT_SEND_MSG \<Rightarrow> Some FailedCallCannotSendMessage
      | E_FAILED_MAX_UDP_RETRANS \<Rightarrow> Some FailedCallMaxUdpRetrans
      | E_FAILED_TCP_CONNECT \<Rightarrow> Some FailedCallTcpConnect
      | E_FAILED_TCP_CLOSED \<Rightarrow> Some FailedCallTcpClosed
      | E_FAILED_UNEXPECTED_MSG \<Rightarrow> Some FailedCallUnexpectedMessage
      | E_FAILED_CALL_REJECTED \<Rightarrow> Some FailedCallCallRejected
      | E_FAILED_CMD_NOT_SENT \<Rightarrow> Some FailedCallCmdNotSent
      | E_FAILED_REGEXP_DOESNT_MATCH \<Rightarrow> Some FailedCallRegexpDoesntMatch
      | E_FAILED_REGEXP_SHOULDNT_MATCH \<Rightarrow> Some FailedCallRegexpShouldntMatch
      | E_FAILED_REGEXP_HDR_NOT_FOUND \<Rightarrow> Some FailedCallRegexpHdrNotFound
      | E_FAILED_OUTBOUND_CONGESTION \<Rightarrow> Some FailedOutboundCongestion
      | E_FAILED_TIMEOUT_ON_RECV \<Rightarrow> Some FailedTimeoutOnRecv
      | E_FAILED_TEST_DOESNT_MATCH \<Rightarrow> Some FailedCallTestDoesntMatch
      | E_FAILED_TEST_SHOULDNT_MATCH \<Rightarrow> Some FailedCallTestShouldntMatch
      | E_FAILED_STRCMP_DOESNT_MATCH \<Rightarrow> Some FailedCallStrcmpDoesntMatch
      | E_FAILED_STRCMP_SHOULDNT_MATCH \<Rightarrow> Some FailedCallStrcmpShouldntMatch
      | E_FAILED_TIMEOUT_ON_SEND \<Rightarrow> Some FailedTimeoutOnSend
      | E_RETRANSMISSION \<Rightarrow> Some Retransmissions
      | _ \<Rightarrow> None)"

definition computeStat :: "nat \<Rightarrow> int \<Rightarrow> e_action \<Rightarrow> cstat \<Rightarrow> cstat res" where
  "computeStat clock_tick now a s =
     (case a of
        E_CREATE_OUTGOING_CALL \<Rightarrow> Inr (created OutgoingCallCreated clock_tick s)
      | E_CREATE_INCOMING_CALL \<Rightarrow> Inr (created IncomingCallCreated clock_tick s)
      | E_CALL_FAILED \<Rightarrow> Inr (current_down (inc3 FailedCall s))
      | E_CALL_SUCCESSFULLY_ENDED \<Rightarrow> Inr (current_down (inc3 SuccessfulCall s))
      | E_CALL_ENDED_UNCOUNTED \<Rightarrow> Inr (current_down s)
      | E_RESET_C_COUNTERS \<Rightarrow> Inr ((RESET_C_COUNTERS s)\<lparr>M_startTime := now\<rparr>)
      | E_RESET_PD_COUNTERS \<Rightarrow> Inr ((RESET_PD_COUNTERS s)\<lparr>M_pdStartTime := now\<rparr>)
      | E_RESET_PL_COUNTERS \<Rightarrow>
          Inr ((RESET_PL_COUNTERS s)\<lparr>M_plStartTime := now,
            M_CallLengthRepartition := resetRepartition (M_CallLengthRepartition s),
            M_ResponseTimeRepartition := map resetRepartition (M_ResponseTimeRepartition s)\<rparr>)
      | _ \<Rightarrow> (case failure_counter a of
               Some n \<Rightarrow> Inr (inc3 n s)
             | None \<Rightarrow> Inl (ERROR ''CStat::ComputeStat() - Unrecognized Action'')))"

definition global_counter :: "e_action \<Rightarrow> g_cpt option" where
  "global_counter a =
     (case a of
        E_OUT_OF_CALL_MSGS \<Rightarrow> Some OutOfCallMsgs
      | E_WATCHDOG_MAJOR \<Rightarrow> Some WatchdogMajor
      | E_WATCHDOG_MINOR \<Rightarrow> Some WatchdogMinor
      | E_DEAD_CALL_MSGS \<Rightarrow> Some DeadCallMsgs
      | E_FATAL_ERRORS \<Rightarrow> Some FatalErrors
      | E_WARNING \<Rightarrow> Some Warnings
      | E_AUTO_ANSWERED \<Rightarrow> Some AutoAnswered
      | _ \<Rightarrow> None)"

definition globalStat :: "e_action \<Rightarrow> cstat \<Rightarrow> cstat res" where
  "globalStat a s =
     (case global_counter a of
        None \<Rightarrow> Inl (ERROR ''CStat::ComputeStat() - Unrecognized Action'')
      | Some g \<Rightarrow>
          Inr (s\<lparr>M_G_counters := foldl (\<lambda>f p. f((p, g) := f (p, g) + 1)) (M_G_counters s) [Cumul, PD, PL]\<rparr>))"

definition GetStat :: "cstat \<Rightarrow> counter_name + (period \<times> g_cpt) \<Rightarrow> 64 word" where
  "GetStat s c = (case c of Inl n \<Rightarrow> M_counters s n | Inr g \<Rightarrow> M_G_counters s g)"

definition setRtpEchoErrors :: "int \<Rightarrow> cstat \<Rightarrow> cstat" where
  "setRtpEchoErrors v s = s\<lparr>M_rtpEchoErrors := v\<rparr>"

definition getRtpEchoErrors :: "cstat \<Rightarrow> int" where
  "getRtpEchoErrors s = M_rtpEchoErrors s"

section \<open>Repartition tables\<close>

text \<open>\<^verbatim>\<open>isWellFormed\<close>: whether the list is well formed, and how many numbers it has.\<close>

fun well_formed_loop :: "string \<Rightarrow> bool \<Rightarrow> nat \<Rightarrow> nat option" where
  "well_formed_loop [] isANumber n = (if isANumber then Some (n + 1) else None)"
| "well_formed_loop (c # s) isANumber n =
     (if c = CHR '','' then (if isANumber then well_formed_loop s False (n + 1) else None)
      else if isdigit c then well_formed_loop s True n
      else if c = TAB \<or> c = SP then well_formed_loop s isANumber n
      else None)"

definition isWellFormed :: "string \<Rightarrow> nat option" where
  "isWellFormed l = (if l = [] then Some 0 else well_formed_loop l False 0)"

text \<open>
  \<^verbatim>\<open>createIntegerTable\<close>. \<^verbatim>\<open>sscanf\<close> with \<^verbatim>\<open>%u\<close> reads as \<^verbatim>\<open>strtoul\<close> and keeps 32 bits; a text without a number
  would leave the last value, which a well formed list does not have. Numbers after the expected count
  are dropped.
\<close>

definition sscanf_u :: "string \<Rightarrow> nat" where
  "sscanf_u s = strtoul s mod 2 ^ 32"

function split_comma :: "string \<Rightarrow> string list" where
  "split_comma s =
     (if CHR '','' \<in> set s
      then s # split_comma (tl (dropWhile (\<lambda>c. c \<noteq> CHR '','') s))
      else [s])"
  by pat_completeness auto
termination
proof (relation "measure length")
  fix s :: string
  assume "CHR '','' \<in> set s"
  then have "s \<noteq> []" "length (dropWhile (\<lambda>c. c \<noteq> CHR '','') s) \<le> length s" by (auto simp: length_dropWhile_le)
  then show "(tl (dropWhile (\<lambda>c. c \<noteq> CHR '','') s), s) \<in> measure length" by (cases s) auto
qed simp

declare split_comma.simps [simp del]

definition createIntegerTable :: "string \<Rightarrow> nat list option" where
  "createIntegerTable l =
     (case isWellFormed l of
        None \<Rightarrow> None
      | Some n \<Rightarrow> Some (take n (map sscanf_u (split_comma l))))"

text \<open>The bubble sort of \<^verbatim>\<open>initRepartition\<close>: one pass, with whether it swapped, and passes until none does.\<close>

fun bubble_pass :: "nat list \<Rightarrow> nat list \<times> bool" where
  "bubble_pass (x # y # xs) =
     (if x > y then (case bubble_pass (x # xs) of (ys, _) \<Rightarrow> (y # ys, True))
      else (case bubble_pass (y # xs) of (ys, b) \<Rightarrow> (x # ys, b)))"
| "bubble_pass xs = (xs, False)"

fun inversions :: "nat list \<Rightarrow> nat" where
  "inversions [] = 0"
| "inversions (x # xs) = length (filter (\<lambda>y. y < x) xs) + inversions xs"

lemma bubble_pass_mset [simp]: "mset (fst (bubble_pass xs)) = mset xs"
  by (induction xs rule: bubble_pass.induct) (auto split: prod.splits)

lemma filter_length_mset: "mset xs = mset ys \<Longrightarrow> length (filter p xs) = length (filter p ys)"
  by (metis mset_filter size_mset)

lemma bubble_pass_inversions:
  "inversions (fst (bubble_pass xs)) + (if snd (bubble_pass xs) then 1 else 0) \<le> inversions xs"
proof (induction xs rule: bubble_pass.induct)
  case (1 x y xs)
  show ?case
  proof (cases "x > y")
    case True
    obtain ys b where p: "bubble_pass (x # xs) = (ys, b)" by force
    then have "mset ys = mset (x # xs)" using bubble_pass_mset [of "x # xs"] by simp
    then have f: "length (filter (\<lambda>z. z < y) ys) = length (filter (\<lambda>z. z < y) (x # xs))" by (rule filter_length_mset)
    have "inversions ys \<le> inversions (x # xs)" using "1.IH"(1) [OF True] p by (auto split: if_splits)
    then show ?thesis using True p f by simp
  next
    case False
    obtain ys b where p: "bubble_pass (y # xs) = (ys, b)" by force
    then have "mset ys = mset (y # xs)" using bubble_pass_mset [of "y # xs"] by simp
    then have f: "length (filter (\<lambda>z. z < x) ys) = length (filter (\<lambda>z. z < x) (y # xs))" by (rule filter_length_mset)
    show ?thesis using False p f "1.IH"(2) [OF False] by auto
  qed
qed auto

lemma bubble_pass_less: "bubble_pass xs = (ys, True) \<Longrightarrow> inversions ys < inversions xs"
  using bubble_pass_inversions [of xs] by simp

function bubble_sort :: "nat list \<Rightarrow> nat list" where
  "bubble_sort xs = (case bubble_pass xs of (ys, swapped) \<Rightarrow> if swapped then bubble_sort ys else ys)"
  by pat_completeness auto
termination by (relation "measure inversions") (auto dest!: bubble_pass_less [OF sym])

declare bubble_sort.simps [simp del]

definition initRepartition :: "nat list \<Rightarrow> repartition list option" where
  "initRepartition borders =
     (if borders = [] then None
      else let sorted_borders = bubble_sort borders
        in Some (map (\<lambda>b. \<lparr>borderMax = b, nbInThisBorder = 0, nbInThisBorderPL = 0\<rparr>) (sorted_borders @ [last sorted_borders])))"

definition hit :: "repartition \<Rightarrow> repartition" where
  "hit r = r\<lparr>nbInThisBorder := nbInThisBorder r + 1, nbInThisBorderPL := nbInThisBorderPL r + 1\<rparr>"

fun repartition_loop :: "repartition list \<Rightarrow> nat \<Rightarrow> repartition list res" where
  "repartition_loop [r] v = (if v \<ge> borderMax r then Inr [hit r] else Inl AssertFailed)"
| "repartition_loop (r # rs) v =
     (if v < borderMax r then Inr (hit r # rs) else bindE (repartition_loop rs v) (\<lambda>rs'. Inr (r # rs')))"
| "repartition_loop [] v = Inl Undefined"

definition updateRepartition :: "repartition list option \<Rightarrow> nat \<Rightarrow> repartition list option res" where
  "updateRepartition tab v = (case tab of None \<Rightarrow> Inr None | Some rs \<Rightarrow> bindE (repartition_loop rs v) (\<lambda>rs'. Inr (Some rs')))"

definition setRepartitionCallLength :: "string \<Rightarrow> cstat \<Rightarrow> cstat res" where
  "setRepartitionCallLength l s =
     (case createIntegerTable l of
        None \<Rightarrow> Inl (ERROR ''Could not create table for call length repartition'')
      | Some xs \<Rightarrow> Inr (s\<lparr>M_CallLengthRepartition := initRepartition xs\<rparr>))"

definition setRepartitionResponseTime :: "string \<Rightarrow> cstat \<Rightarrow> cstat res" where
  "setRepartitionResponseTime l s =
     (if M_rtdSize s = 0 then Inr s
      else case createIntegerTable l of
        None \<Rightarrow> Inl (ERROR ''Could not create table for response time repartition'')
      | Some xs \<Rightarrow> Inr (s\<lparr>M_ResponseTimeRepartition := replicate (M_rtdSize s) (initRepartition xs)\<rparr>))"

section \<open>Durations and named counters\<close>

definition updateAverageCounter :: "period \<Rightarrow> nat \<Rightarrow> cstat \<Rightarrow> cstat" where
  "updateAverageCounter p v s =
     (let n = (p, NbOfCallUsedForAverageCallLength); sm = (p, AverageCallLength_Sum); sq = (p, AverageCallLength_Squares);
          c = M_counters s
      in if c n = 0
         then s\<lparr>M_counters := c(n := c n + 1, sm := of_nat v, sq := of_nat v * of_nat v)\<rparr>
         else s\<lparr>M_counters := c(sm := c sm + of_nat v, sq := c sq + of_nat v * of_nat v, n := c n + 1)\<rparr>)"

definition add_at :: "nat \<Rightarrow> 64 word \<Rightarrow> 64 word list \<Rightarrow> 64 word list res" where
  "add_at i v xs = (if i < length xs then Inr (xs[i := xs ! i + v]) else Inl Undefined)"

fun add_list :: "(nat \<times> 64 word) list \<Rightarrow> 64 word list \<Rightarrow> 64 word list res" where
  "add_list [] xs = Inr xs"
| "add_list ((i, v) # ps) xs = bindE (add_at i v xs) (add_list ps)"

definition rtd_index :: "nat \<Rightarrow> nat \<Rightarrow> nat \<Rightarrow> nat" where
  "rtd_index which t k = which * RTD_TYPES * GENERIC_TYPES + t * RTD_TYPES + k"

definition computeStat_value :: "e_action \<Rightarrow> nat \<Rightarrow> nat \<Rightarrow> cstat \<Rightarrow> cstat res" where
  "computeStat_value a v which s =
     (case a of
        E_ADD_CALL_DURATION \<Rightarrow>
          (let s1 = updateAverageCounter Cumul v s
           in bindE (updateRepartition (M_CallLengthRepartition s1) v) (\<lambda>tab.
             Inr (updateAverageCounter PL v (updateAverageCounter PD v (s1\<lparr>M_CallLengthRepartition := tab\<rparr>)))))
      | E_ADD_GENERIC_COUNTER \<Rightarrow>
          bindE (add_list (map (\<lambda>t. (which * GENERIC_TYPES + t, of_nat v)) [GENERIC_C, GENERIC_PD, GENERIC_PL]) (M_genericCounters s))
            (\<lambda>xs. Inr (s\<lparr>M_genericCounters := xs\<rparr>))
      | E_ADD_RESPONSE_TIME_DURATION \<Rightarrow>
          bindE (add_list (concat (map (\<lambda>t. [(rtd_index which t RTD_COUNT, 1), (rtd_index which t RTD_SUM, of_nat v),
                    (rtd_index which t RTD_SUMSQ, of_nat v * of_nat v)]) [GENERIC_C, GENERIC_PD, GENERIC_PL])) (M_rtdInfo s))
            (\<lambda>xs. if which < length (M_ResponseTimeRepartition s) then
               bindE (updateRepartition (M_ResponseTimeRepartition s ! which) v) (\<lambda>tab.
                 Inr (s\<lparr>M_rtdInfo := xs, M_ResponseTimeRepartition := (M_ResponseTimeRepartition s)[which := tab]\<rparr>))
               else Inl Undefined)
      | _ \<Rightarrow> Inl (ERROR ''CStat::ComputeStat() - Unrecognized Action''))"

definition findCounter :: "string \<Rightarrow> bool \<Rightarrow> cstat \<Rightarrow> int \<times> cstat" where
  "findCounter counter alloc s =
     (case M_genericMap s counter of
        Some i \<Rightarrow> (i, s)
      | None \<Rightarrow>
          if \<not> alloc then (-1, s)
          else
            let ret = int (M_genericSize s) + 1;
                numeric = list_all isdigit counter
            in (ret, s\<lparr>M_genericMap := (M_genericMap s)(counter \<mapsto> ret), M_genericSize := M_genericSize s + 1,
                 M_revGenericMap := (M_revGenericMap s)(ret \<mapsto> (if numeric then take 19 (''GenericCounter'' @ counter) else counter)),
                 M_genericDisplay := (M_genericDisplay s)(ret \<mapsto> counter),
                 M_genericCounters := M_genericCounters s @ replicate GENERIC_TYPES 0\<rparr>))"

definition mark_rtd :: "bool \<Rightarrow> string \<Rightarrow> cstat \<Rightarrow> cstat" where
  "mark_rtd start n s =
     (if start then s\<lparr>rtd_started := List.insert n (rtd_started s)\<rparr> else s\<lparr>rtd_stopped := List.insert n (rtd_stopped s)\<rparr>)"

definition findRtd :: "string \<Rightarrow> bool \<Rightarrow> cstat \<Rightarrow> int \<times> cstat" where
  "findRtd n start s =
     (case M_rtdMap s n of
        Some i \<Rightarrow> (i, mark_rtd start n s)
      | None \<Rightarrow>
          let ret = int (M_rtdSize s) + 1
          in (ret, mark_rtd start n (s\<lparr>M_rtdMap := (M_rtdMap s)(n \<mapsto> ret), M_rtdSize := M_rtdSize s + 1,
               M_revRtdMap := (M_revRtdMap s)(ret \<mapsto> n),
               M_rtdInfo := M_rtdInfo s @ replicate (RTD_TYPES * GENERIC_TYPES) 0,
               M_ResponseTimeRepartition := M_ResponseTimeRepartition s @ [None]\<rparr>)))"

definition nRtds :: "cstat \<Rightarrow> nat" where "nRtds s = M_rtdSize s"

definition validateRtds :: "cstat \<Rightarrow> unit res" where
  "validateRtds s =
     (if list_all (\<lambda>n. n \<in> set (rtd_stopped s)) (rtd_started s) then Inr ()
      else Inl (ERROR ''You have started a Response Time Duration, but have never stopped it!''))"

section \<open>Times\<close>

definition pad2 :: "nat \<Rightarrow> nat \<Rightarrow> string" where
  "pad2 w n = (let ds = to_string n in replicate (w - length ds) CHR ''0'' @ ds)"

definition msToHHMMSS :: "nat \<Rightarrow> string" where
  "msToHHMMSS P_ms =
     (let sec = P_ms div 1000; hh = sec div 3600; mm = (sec - hh * 3600) div 60; ss = sec - hh * 3600 - mm * 60
      in pad2 2 hh @ '':'' @ pad2 2 mm @ '':'' @ pad2 2 ss)"

definition msToHHMMSSus :: "nat \<Rightarrow> string" where
  "msToHHMMSSus P_ms =
     (let sec = P_ms div 1000; hh = sec div 3600; mm = (sec - hh * 3600) div 60; ss = sec - hh * 3600 - mm * 60;
          us = 1000 * (P_ms - hh * 3600000 - mm * 60000 - ss * 1000)
      in pad2 2 hh @ '':'' @ pad2 2 mm @ '':'' @ pad2 2 ss @ '':'' @ pad2 6 us)"

definition computeDiffTimeInMs :: "int \<times> int \<Rightarrow> int \<times> int \<Rightarrow> int" where
  "computeDiffTimeInMs tf ti =
     (let v1 = fst tf - fst ti; v2 = snd tf - snd ti;
          (v1, v2) = (if v2 < 0 then (v1 - 1, v2 + 1000000) else (v1, v2))
      in v1 * 1000 + v2 div 1000)"

end
