(* ===== verification/Stat_Correct.thy ===== *)
theory Stat_Correct
  imports Stat
begin

text \<open>
  Statistics: what each counter holds after any sequence of actions, what a reset does to the number of
  current calls, that repartition tables count every value once, and that named counters are separate.
\<close>

section \<open>Counters of a period\<close>

lemma range_names:
  "enum_range E_CounterName (Cumul, IncomingCallCreated) (Cumul, Retransmissions) =
     map (Pair Cumul) ([IncomingCallCreated, OutgoingCallCreated, SuccessfulCall, FailedCall, CurrentCall, CurrentCallPeak,
        CurrentCallPeakTime, NbOfCallUsedForAverageCallLength, AverageCallLength_Sum, AverageCallLength_Squares] @ failed_names)"
  "enum_range E_CounterName (PD, IncomingCallCreated) (PD, Retransmissions) = map (Pair PD) periodic_names"
  "enum_range E_CounterName (PL, IncomingCallCreated) (PL, Retransmissions) = map (Pair PL) periodic_names"
  by (simp_all add: enum_range_def E_CounterName_def failed_names_def periodic_names_def)

text \<open>What an action counts, and the action that resets a period.\<close>

definition counted :: "e_action \<Rightarrow> cpt option" where
  "counted a =
     (case a of
        E_CREATE_OUTGOING_CALL \<Rightarrow> Some OutgoingCallCreated
      | E_CREATE_INCOMING_CALL \<Rightarrow> Some IncomingCallCreated
      | E_CALL_FAILED \<Rightarrow> Some FailedCall
      | E_CALL_SUCCESSFULLY_ENDED \<Rightarrow> Some SuccessfulCall
      | _ \<Rightarrow> failure_counter a)"

fun reset_of :: "period \<Rightarrow> e_action" where
  "reset_of Cumul = E_RESET_C_COUNTERS"
| "reset_of PD = E_RESET_PD_COUNTERS"
| "reset_of PL = E_RESET_PL_COUNTERS"

lemma counted_inj: "counted a = Some n \<Longrightarrow> counted b = Some n \<Longrightarrow> a = b"
  by (cases a; cases b) (auto simp: counted_def failure_counter_def)

lemma counted_names: "counted a = Some n \<Longrightarrow>
    n \<in> {IncomingCallCreated, OutgoingCallCreated, SuccessfulCall, FailedCall} \<union> set failed_names"
  by (cases a) (auto simp: counted_def failure_counter_def failed_names_def)

lemma inc3_counters: "M_counters (inc3 m s) (p, n) = M_counters s (p, n) + (if m = n then 1 else 0)"
  by (cases p) (auto simp: inc3_def inc_def)

lemma note_peak_counters: "n \<noteq> CurrentCallPeak \<Longrightarrow> n \<noteq> CurrentCallPeakTime \<Longrightarrow> M_counters (note_peak t q s) (p, n) = M_counters s (p, n)"
  by (auto simp: note_peak_def Let_def)

lemma created_counters: "n \<noteq> CurrentCallPeak \<Longrightarrow> n \<noteq> CurrentCallPeakTime \<Longrightarrow>
    M_counters (created m t s) (p, n) = M_counters s (p, n) + (if m = n then 1 else 0) + (if (p, n) = (Cumul, CurrentCall) then 1 else 0)"
  by (auto simp: created_def note_peak_counters) (auto simp: inc_def inc3_counters)

lemma down_counters: "M_counters (current_down s) (p, n) = M_counters s (p, n) - (if (p, n) = (Cumul, CurrentCall) then 1 else 0)"
  by (auto simp: current_down_def)

lemma reset_counters:
  assumes "n \<in> {IncomingCallCreated, OutgoingCallCreated, SuccessfulCall, FailedCall} \<union> set failed_names \<or> (p, n) = (Cumul, CurrentCall)"
  shows "M_counters (RESET_COUNTERS_OF q t s) (p, n) = (if p = q then 0 else M_counters s (p, n))"
  using assms
  by (cases p; cases q) (auto simp: RESET_COUNTERS_OF_def zero_all_def range_names periodic_names_def)

lemma computeStat_counted:
  assumes c: "computeStat clk now a s = Inr s'" and n: "counted b = Some n"
  shows "M_counters s' (p, n) = (if a = reset_of p then 0 else M_counters s (p, n) + (if a = b then 1 else 0))"
proof -
  note names = counted_names [OF n]
  then have ne: "n \<noteq> CurrentCallPeak" "n \<noteq> CurrentCallPeakTime" "n \<noteq> CurrentCall" by (auto simp: failed_names_def)
  have e: "a = b \<longleftrightarrow> counted a = Some n" using counted_inj n by metis
  have R: "M_counters (RESET_COUNTERS_OF q t s) (p, n) = (if p = q then 0 else M_counters s (p, n))" for p q t
    using reset_counters names by blast
  show ?thesis
    unfolding e using c ne
    by (cases a; cases p) (auto simp: computeStat_def counted_def failure_counter_def created_counters down_counters inc3_counters
        RESET_C_COUNTERS_def RESET_PD_COUNTERS_def RESET_PL_COUNTERS_def R)
qed

section \<open>Histories\<close>

definition since :: "e_action \<Rightarrow> e_action list \<Rightarrow> e_action list" where
  "since r as = rev (takeWhile (\<lambda>a. a \<noteq> r) (rev as))"

lemma since_snoc: "since r (as @ [a]) = (if a = r then [] else since r as @ [a])"
  by (simp add: since_def)

lemma since_Nil [simp]: "since r [] = []"
  by (simp add: since_def)

fun stat_step :: "nat \<times> int \<times> e_action \<Rightarrow> cstat \<Rightarrow> cstat res" where
  "stat_step (clk, now, a) s = computeStat clk now a s"

abbreviation actions :: "(nat \<times> int \<times> e_action) list \<Rightarrow> e_action list" where
  "actions xs \<equiv> map (\<lambda>(clk, now, a). a) xs"

lemma run_counted:
  assumes "run_res stat_step xs (new_CStat g t) = Inr s" and n: "counted a = Some n"
  shows "M_counters s (p, n) = of_nat (count_list (since (reset_of p) (actions xs)) a)"
  using assms(1)
proof (induction xs arbitrary: s rule: rev_induct)
  case Nil
  then show ?case by (auto simp: new_CStat_def)
next
  case (snoc x xs)
  obtain clk now b where x: "x = (clk, now, b)" by (cases x)
  obtain s1 where s1: "run_res stat_step xs (new_CStat g t) = Inr s1" "computeStat clk now b s1 = Inr s"
    using snoc.prems x by (auto simp: run_res_append)
  show ?case using computeStat_counted [OF s1(2) n, of p] snoc.IH [OF s1(1)] x
    by (auto simp: since_snoc)
qed

definition starts_call :: "e_action \<Rightarrow> bool" where
  "starts_call a \<longleftrightarrow> a = E_CREATE_OUTGOING_CALL \<or> a = E_CREATE_INCOMING_CALL"

definition ends_call :: "e_action \<Rightarrow> bool" where
  "ends_call a \<longleftrightarrow> a = E_CALL_FAILED \<or> a = E_CALL_SUCCESSFULLY_ENDED \<or> a = E_CALL_ENDED_UNCOUNTED"

lemma computeStat_current:
  assumes "computeStat clk now a s = Inr s'"
  shows "M_counters s' (Cumul, CurrentCall) =
    (if a = E_RESET_C_COUNTERS then 0
     else M_counters s (Cumul, CurrentCall) + (if starts_call a then 1 else 0) - (if ends_call a then 1 else 0))"
proof -
  have R: "M_counters (RESET_COUNTERS_OF q t s) (Cumul, CurrentCall) = (if q = Cumul then 0 else M_counters s (Cumul, CurrentCall))" for q t
    using reset_counters [of CurrentCall Cumul q t s] by auto
  show ?thesis using assms
    by (cases a) (auto simp: computeStat_def failure_counter_def starts_call_def ends_call_def created_counters down_counters
        inc3_counters RESET_C_COUNTERS_def RESET_PD_COUNTERS_def RESET_PL_COUNTERS_def R)
qed

lemma run_current:
  assumes "run_res stat_step xs (new_CStat g t) = Inr s"
  shows "M_counters s (Cumul, CurrentCall) =
    of_nat (length (filter starts_call (since E_RESET_C_COUNTERS (actions xs)))) -
    of_nat (length (filter ends_call (since E_RESET_C_COUNTERS (actions xs))))"
  using assms
proof (induction xs arbitrary: s rule: rev_induct)
  case Nil
  then show ?case by (auto simp: new_CStat_def)
next
  case (snoc x xs)
  obtain clk now b where x: "x = (clk, now, b)" by (cases x)
  obtain s1 where s1: "run_res stat_step xs (new_CStat g t) = Inr s1" "computeStat clk now b s1 = Inr s"
    using snoc.prems x by (auto simp: run_res_append)
  show ?case using computeStat_current [OF s1(2)] snoc.IH [OF s1(1)] x by (auto simp: since_snoc)
qed

text \<open>
  C32: the counters. After any sequence of actions on a new object, the counter of an action in each of
  the three periods is the number of times the action was counted since the last reset of that
  period, and the number of current calls is the number of calls started minus those ended since the
  last reset of the cumulative counters, all modulo two to the 64.
\<close>

theorem counters_count:
  assumes "run_res stat_step xs (new_CStat g t) = Inr s"
  shows "(\<forall>p a n. counted a = Some n \<longrightarrow>
      GetStat s (Inl (p, n)) = of_nat (count_list (since (reset_of p) (actions xs)) a)) \<and>
    GetStat s (Inl (Cumul, CurrentCall)) =
      of_nat (length (filter starts_call (since E_RESET_C_COUNTERS (actions xs)))) -
      of_nat (length (filter ends_call (since E_RESET_C_COUNTERS (actions xs))))"
  using run_counted [OF assms] run_current [OF assms] by (simp add: GetStat_def)

theorem counters_count_witness:
  "\<exists>s. run_res stat_step [(0, 0, E_CREATE_INCOMING_CALL), (1, 0, E_RESET_PD_COUNTERS), (2, 0, E_CALL_FAILED)] (new_CStat (\<lambda>c. 0) 0) = Inr s \<and>
     GetStat s (Inl (PD, IncomingCallCreated)) = 0 \<and> GetStat s (Inl (PL, IncomingCallCreated)) = 1"
proof -
  let ?xs = "[(0, 0, E_CREATE_INCOMING_CALL), (1, 0, E_RESET_PD_COUNTERS), (2, 0, E_CALL_FAILED)]"
  obtain s where s: "run_res stat_step ?xs (new_CStat (\<lambda>c. 0) 0) = Inr s" by (simp add: computeStat_def)
  have c: "counted E_CREATE_INCOMING_CALL = Some IncomingCallCreated" by (simp add: counted_def)
  show ?thesis using s counters_count [OF s] c by (auto simp: since_def)
qed

text \<open>
  Resetting the statistics forgets the calls in progress: the first of them that ends after a reset
  of the cumulative counters takes the number of current calls below zero, to the largest number a
  counter holds.
\<close>

theorem reset_loses_current_calls:
  "bindE (computeStat clk now E_RESET_C_COUNTERS s) (\<lambda>s1.
     bindE (computeStat clk2 now2 E_CALL_SUCCESSFULLY_ENDED s1) (\<lambda>s2. Inr (unat (GetStat s2 (Inl (Cumul, CurrentCall)))))) =
   Inr (2 ^ 64 - 1)"
proof -
  obtain s1 where 1: "computeStat clk now E_RESET_C_COUNTERS s = Inr s1" by (simp add: computeStat_def)
  obtain s2 where 2: "computeStat clk2 now2 E_CALL_SUCCESSFULLY_ENDED s1 = Inr s2" by (simp add: computeStat_def)
  have "M_counters s2 (Cumul, CurrentCall) = - 1"
    using computeStat_current [OF 1] computeStat_current [OF 2] by (simp add: starts_call_def ends_call_def)
  then show ?thesis using 1 2 by (simp add: GetStat_def unsigned_minus_1_eq_mask mask_eq_exp_minus_1)
qed

section \<open>Repartition tables\<close>

lemma bubble_pass_sorted: "snd (bubble_pass xs) = False \<Longrightarrow> sorted xs \<and> fst (bubble_pass xs) = xs"
  by (induction xs rule: bubble_pass.induct) (auto split: prod.splits if_splits)

lemma bubble_sort_sort: "bubble_sort xs = sort xs"
proof (induction xs rule: bubble_sort.induct)
  case (1 xs)
  obtain ys b where p: "bubble_pass xs = (ys, b)" by force
  show ?case
  proof (cases b)
    case True
    have "mset ys = mset xs" using bubble_pass_mset [of xs] p by simp
    then have "sort ys = sort xs" by (metis properties_for_sort sorted_sort mset_sort)
    then show ?thesis using "1.IH" [OF p [symmetric] True] p True by (subst bubble_sort.simps) simp
  next
    case False
    then show ?thesis using bubble_pass_sorted [of xs] p by (subst bubble_sort.simps) (simp add: sorted_sort_id)
  qed
qed

text \<open>The cell of a value: the first whose border is above it, else the last.\<close>

definition cell :: "nat list \<Rightarrow> nat \<Rightarrow> nat" where
  "cell bs v = length (takeWhile (\<lambda>b. b \<le> v) bs)"

lemma cell_le: "cell bs v \<le> length bs"
  by (simp add: cell_def length_takeWhile_le)

lemma repartition_loop_cell:
  assumes "map borderMax rs = bs @ [b]" and "bs = [] \<Longrightarrow> b \<le> v" and "bs \<noteq> [] \<Longrightarrow> b = last bs"
  shows "repartition_loop rs v = Inr (rs[cell bs v := hit (rs ! cell bs v)])"
  using assms
proof (induction bs arbitrary: rs)
  case Nil
  then obtain r where "rs = [r]" "borderMax r = b" by (cases rs) auto
  then show ?case using Nil by (simp add: cell_def)
next
  case (Cons c bs)
  then obtain r q rs' where rs: "rs = r # q # rs'" "borderMax r = c" "map borderMax (q # rs') = bs @ [b]"
    by (cases rs; cases "tl rs") auto
  show ?case
  proof (cases "v < c")
    case True
    then show ?thesis using rs by (simp add: cell_def)
  next
    case False
    have "bs = [] \<Longrightarrow> b \<le> v" using Cons.prems(3) False by simp
    moreover have "bs \<noteq> [] \<Longrightarrow> b = last bs" using Cons.prems(3) by simp
    ultimately have "repartition_loop (q # rs') v = Inr ((q # rs')[cell bs v := hit ((q # rs') ! cell bs v)])"
      by (rule Cons.IH [OF rs(3)])
    then show ?thesis using False rs by (simp add: cell_def)
  qed
qed

fun update_all :: "nat list \<Rightarrow> repartition list option \<Rightarrow> repartition list option res" where
  "update_all [] tab = Inr tab"
| "update_all (v # vs) tab = bindE (updateRepartition tab v) (update_all vs)"

lemma update_all_cells:
  assumes "map borderMax rs = bs @ [last bs]" and "bs \<noteq> []"
  shows "\<exists>rs'. update_all vs (Some rs) = Inr (Some rs') \<and> map borderMax rs' = bs @ [last bs] \<and>
    (\<forall>i\<le>length bs. nbInThisBorder (rs' ! i) = nbInThisBorder (rs ! i) + of_nat (length (filter (\<lambda>v. cell bs v = i) vs)))"
  using assms(1)
proof (induction vs arbitrary: rs)
  case (Cons v vs)
  let ?rs = "rs[cell bs v := hit (rs ! cell bs v)]"
  have len: "length rs = length bs + 1" using Cons.prems by (metis length_append_singleton length_map Suc_eq_plus1)
  have u: "repartition_loop rs v = Inr ?rs" by (rule repartition_loop_cell [OF Cons.prems]) (use assms(2) in auto)
  have b: "map borderMax ?rs = bs @ [last bs]"
    unfolding map_update Cons.prems [symmetric] using len cell_le [of bs v]
    by (metis (no_types, lifting) hit_def list_update_id map_update nth_map less_Suc_eq_le Suc_eq_plus1 repartition.select_convs(1)
        repartition.surjective repartition.update_convs(2) repartition.update_convs(3))
  obtain rs' where rs': "update_all vs (Some ?rs) = Inr (Some rs')" "map borderMax rs' = bs @ [last bs]"
    "\<forall>i\<le>length bs. nbInThisBorder (rs' ! i) = nbInThisBorder (?rs ! i) + of_nat (length (filter (\<lambda>v. cell bs v = i) vs))"
    using Cons.IH [OF b] by blast
  have "nbInThisBorder (?rs ! i) = nbInThisBorder (rs ! i) + (if cell bs v = i then 1 else 0)" if "i \<le> length bs" for i
    using that len by (auto simp: nth_list_update hit_def)
  then show ?case using rs' u by (auto simp: updateRepartition_def)
qed simp

text \<open>The cells are the intervals of the sorted borders.\<close>

lemma cell_interval:
  assumes "sorted bs" and "i < length bs"
  shows "cell bs v = i \<longleftrightarrow> (i = 0 \<or> bs ! (i - 1) \<le> v) \<and> v < bs ! i"
proof
  assume c: "cell bs v = i"
  have "\<not> bs ! i \<le> v" using c assms(2) nth_length_takeWhile [of "\<lambda>b. b \<le> v" bs] by (simp add: cell_def)
  moreover have "bs ! (i - 1) \<le> v" if "i \<noteq> 0"
  proof -
    have k: "i - 1 < length (takeWhile (\<lambda>b. b \<le> v) bs)" using c that by (simp add: cell_def)
    then show ?thesis using nth_mem [OF k] takeWhile_nth [OF k] set_takeWhileD by metis
  qed
  ultimately show "(i = 0 \<or> bs ! (i - 1) \<le> v) \<and> v < bs ! i" by auto
next
  assume a: "(i = 0 \<or> bs ! (i - 1) \<le> v) \<and> v < bs ! i"
  have "bs ! k \<le> v" if "k < i" for k
  proof -
    have "k \<le> i - 1" "i - 1 < length bs" "i \<noteq> 0" using that assms(2) by auto
    then show ?thesis using a sorted_nth_mono [OF assms(1), of k "i - 1"] by (meson order_trans)
  qed
  then have "takeWhile (\<lambda>b. b \<le> v) bs = take i bs" using a assms(2) by (intro takeWhile_eq_take_P_nth) auto
  then show "cell bs v = i" using assms(2) by (simp add: cell_def)
qed

lemma le_last: "sorted bs \<Longrightarrow> b \<in> set bs \<Longrightarrow> b \<le> last (bs :: nat list)"
proof -
  assume s: "sorted bs" and b: "b \<in> set bs"
  then have bs: "bs = butlast bs @ [last bs]" by (metis append_butlast_last_id empty_iff list.set(1))
  then have "sorted (butlast bs @ [last bs])" "b \<in> set (butlast bs @ [last bs])" using s b by metis+
  then show ?thesis by (auto simp: sorted_append)
qed

lemma takeWhile_whole: "length (takeWhile p xs) = length xs \<longleftrightarrow> (\<forall>x\<in>set xs. p x)"
  by (induction xs) auto

lemma cell_last: "sorted bs \<Longrightarrow> bs \<noteq> [] \<Longrightarrow> cell bs v = length bs \<longleftrightarrow> last bs \<le> v"
  unfolding cell_def takeWhile_whole using le_last last_in_set order_trans by metis

text \<open>
  C33: a repartition table counts every value once. Made from any list of borders it has the borders
  sorted and a last cell with no upper border; after any values no assertion failed, each cell holds
  the number of values from the border below it up to its own, and the last cell those from the
  largest border on.
\<close>

theorem repartition_counts:
  assumes "xs \<noteq> []"
  shows "\<exists>tab. update_all vs (initRepartition xs) = Inr (Some tab) \<and> map borderMax tab = sort xs @ [Max (set xs)] \<and>
    (\<forall>i<length xs. nbInThisBorder (tab ! i) =
       of_nat (length (filter (\<lambda>v. (i = 0 \<or> sort xs ! (i - 1) \<le> v) \<and> v < sort xs ! i) vs))) \<and>
    nbInThisBorder (tab ! length xs) = of_nat (length (filter (\<lambda>v. Max (set xs) \<le> v) vs))"
proof -
  let ?bs = "sort xs"
  have ne: "?bs \<noteq> []" using assms by (metis length_0_conv length_sort)
  have mx: "last ?bs = Max (set xs)"
  proof (rule Max_eqI [symmetric])
    show "finite (set xs)" "last ?bs \<in> set xs" using last_in_set [OF ne] by auto
    show "y \<le> last ?bs" if "y \<in> set xs" for y
      using that le_last [OF sorted_sort, of y xs] by simp
  qed
  let ?rs = "map (\<lambda>b. \<lparr>borderMax = b, nbInThisBorder = 0, nbInThisBorderPL = 0\<rparr>) (?bs @ [last ?bs])"
  have i: "initRepartition xs = Some ?rs" using assms by (simp add: initRepartition_def bubble_sort_sort Let_def)
  have b: "map borderMax ?rs = ?bs @ [last ?bs]" by (simp add: comp_def)
  have z: "nbInThisBorder (?rs ! i) = 0" if "i \<le> length ?bs" for i using that by (simp add: nth_append)
  obtain tab where tab: "update_all vs (Some ?rs) = Inr (Some tab)" "map borderMax tab = ?bs @ [last ?bs]"
    "\<forall>i\<le>length ?bs. nbInThisBorder (tab ! i) = nbInThisBorder (?rs ! i) + of_nat (length (filter (\<lambda>v. cell ?bs v = i) vs))"
    using update_all_cells [OF b ne, of vs] by blast
  have "nbInThisBorder (tab ! i) = of_nat (length (filter (\<lambda>v. (i = 0 \<or> ?bs ! (i - 1) \<le> v) \<and> v < ?bs ! i) vs))" if "i < length xs" for i
    using tab(3) z [of i] that cell_interval [OF sorted_sort, of i xs] by simp
  moreover have "nbInThisBorder (tab ! length xs) = of_nat (length (filter (\<lambda>v. Max (set xs) \<le> v) vs))"
    using tab(3) z [of "length xs"] cell_last [OF sorted_sort ne] mx by simp
  ultimately show ?thesis using i tab mx by auto
qed

theorem repartition_counts_witness:
  "\<exists>tab. update_all [5, 25, 12] (initRepartition [20, 10]) = Inr (Some tab) \<and> map borderMax tab = sort [20, 10] @ [Max (set [20, 10])]"
  using repartition_counts [of "[20, 10]" "[5, 25, 12]"] by blast

section \<open>Named counters\<close>

definition named_ok :: "cstat \<Rightarrow> bool" where
  "named_ok s \<longleftrightarrow> length (M_genericCounters s) = M_genericSize s * GENERIC_TYPES \<and>
     (\<forall>n i. M_genericMap s n = Some i \<longrightarrow> 1 \<le> i \<and> i \<le> int (M_genericSize s)) \<and>
     (\<forall>n n' i. M_genericMap s n = Some i \<longrightarrow> M_genericMap s n' = Some i \<longrightarrow> n = n')"

text \<open>The value of a named counter in a period, 0 when there is no such counter.\<close>

definition named_value :: "cstat \<Rightarrow> string \<Rightarrow> nat \<Rightarrow> 64 word" where
  "named_value s n t = (case M_genericMap s n of None \<Rightarrow> 0 | Some i \<Rightarrow> M_genericCounters s ! (nat (i - 1) * GENERIC_TYPES + t))"

fun count_named :: "string \<times> nat \<Rightarrow> cstat \<Rightarrow> cstat res" where
  "count_named (n, v) s =
     (case findCounter n True s of (i, s') \<Rightarrow> computeStat_value E_ADD_GENERIC_COUNTER v (nat (i - 1)) s')"

lemma findCounter_ok:
  assumes "named_ok s" and "findCounter n True s = (i, s')"
  shows "named_ok s' \<and> M_genericMap s' n = Some i \<and> (\<forall>n' t. t < GENERIC_TYPES \<longrightarrow> named_value s' n' t = named_value s n' t)"
proof (cases "M_genericMap s n")
  case (Some j)
  then show ?thesis using assms by (simp add: findCounter_def)
next
  case None
  have len: "length (M_genericCounters s) = M_genericSize s * GENERIC_TYPES" using assms(1) by (simp add: named_ok_def)
  have i: "i = int (M_genericSize s) + 1" and s': "M_genericMap s' = (M_genericMap s)(n \<mapsto> i)"
    "M_genericSize s' = M_genericSize s + 1" "M_genericCounters s' = M_genericCounters s @ replicate GENERIC_TYPES 0"
    using assms(2) None by (auto simp: findCounter_def Let_def)
  have old: "1 \<le> k \<and> k \<le> int (M_genericSize s)" if "M_genericMap s n' = Some k" for n' k
    using assms(1) that by (simp add: named_ok_def)
  have "named_ok s'"
    using assms(1) unfolding named_ok_def s' i by (auto simp: GENERIC_TYPES_def dest: old split: if_splits)
  moreover have "named_value s' n' t = named_value s n' t" if t: "t < GENERIC_TYPES" for n' t
  proof (cases "M_genericMap s n'")
    case n': None
    then show ?thesis using t len by (auto simp: named_value_def s' i nth_append)
  next
    case (Some k)
    then have "nat (k - 1) < M_genericSize s" using old [OF Some] by linarith
    then have "nat (k - 1) * GENERIC_TYPES + t < length (M_genericCounters s)"
      using t len by (metis add.commute mult.commute mult_less_cancel2 less_le_trans mult_Suc_right Suc_leI mult_le_mono2 nat_add_left_cancel_less)
    then show ?thesis using Some None by (auto simp: named_value_def s' nth_append)
  qed
  ultimately show ?thesis using s' by simp
qed

lemma add_three:
  assumes "3 * k + 2 < length xs"
  shows "add_list [(3 * k, v), (3 * k + 1, v), (3 * k + 2, v)] xs =
    Inr (xs[3 * k := xs ! (3 * k) + v, 3 * k + 1 := xs ! (3 * k + 1) + v, 3 * k + 2 := xs ! (3 * k + 2) + v])"
  using assms by (simp add: add_at_def nth_list_update)

lemma count_named_ok:
  assumes "named_ok s"
  shows "\<exists>s'. count_named (n, v) s = Inr s' \<and> named_ok s' \<and>
    (\<forall>n' t. t < GENERIC_TYPES \<longrightarrow> named_value s' n' t = named_value s n' t + (if n' = n then of_nat v else 0))"
proof -
  obtain i s1 where f: "findCounter n True s = (i, s1)" by force
  have ok: "named_ok s1" and m: "M_genericMap s1 n = Some i"
    and same: "\<And>n' t. t < GENERIC_TYPES \<Longrightarrow> named_value s1 n' t = named_value s n' t"
    using findCounter_ok [OF assms f] by auto
  define k where "k = nat (i - 1)"
  have inj: "M_genericMap s1 n' = Some j \<Longrightarrow> nat (j - 1) = k \<Longrightarrow> n' = n" for n' j
    using ok m unfolding named_ok_def k_def by (smt (verit) nat_eq_iff)
  have "k < M_genericSize s1" using ok m unfolding named_ok_def k_def by (smt (verit) nat_less_iff)
  then have b: "3 * k + 2 < length (M_genericCounters s1)" using ok by (simp add: named_ok_def GENERIC_TYPES_def)
  let ?xs = "M_genericCounters s1"
  let ?ys = "?xs[3 * k := ?xs ! (3 * k) + of_nat v, 3 * k + 1 := ?xs ! (3 * k + 1) + of_nat v, 3 * k + 2 := ?xs ! (3 * k + 2) + of_nat v]"
  let ?s = "s1\<lparr>M_genericCounters := ?ys\<rparr>"
  have c: "count_named (n, v) s = Inr ?s"
    using f add_three [OF b, of "of_nat v"]
    by (simp add: computeStat_value_def k_def [symmetric] GENERIC_TYPES_def GENERIC_C_def GENERIC_PD_def GENERIC_PL_def mult.commute) blast
  have okn: "named_ok ?s" using ok by (simp add: named_ok_def)
  have nth: "?ys ! (j * 3 + t) = ?xs ! (j * 3 + t) + (if j = k then of_nat v else 0)" if "t < 3" for j t
  proof -
    have "j * 3 + t = 3 * k \<longleftrightarrow> j = k \<and> t = 0" "j * 3 + t = 3 * k + 1 \<longleftrightarrow> j = k \<and> t = 1"
      "j * 3 + t = 3 * k + 2 \<longleftrightarrow> j = k \<and> t = 2" using \<open>t < 3\<close> by presburger+
    moreover have "t = 0 \<or> t = 1 \<or> t = 2" using \<open>t < 3\<close> by linarith
    ultimately show ?thesis using b by (auto simp: nth_list_update mult.commute)
  qed
  have "named_value ?s n' t = named_value s1 n' t + (if n' = n then of_nat v else 0)" if t: "t < GENERIC_TYPES" for n' t
  proof (cases "M_genericMap s1 n'")
    case None
    then show ?thesis using m by (auto simp: named_value_def)
  next
    case (Some j)
    have "nat (j - 1) = k \<longleftrightarrow> n' = n" using inj [OF Some] Some m by (auto simp: k_def)
    then show ?thesis using Some nth [of t "nat (j - 1)"] t by (simp add: named_value_def GENERIC_TYPES_def)
  qed
  then show ?thesis using c okn same by simp
qed

text \<open>
  named counters. Counting by name on a new object always succeeds, whatever the names and in any
  order, and each counter holds, in each of the three periods, the sum of what was added under its
  name.
\<close>

theorem named_counters_sum:
  "\<exists>s. run_res count_named xs (new_CStat g t0) = Inr s \<and>
    (\<forall>n t. t < GENERIC_TYPES \<longrightarrow> named_value s n t = of_nat (sum_list (map snd (filter (\<lambda>(m, v). m = n) xs))))"
proof -
  have "\<exists>s'. run_res count_named xs s = Inr s' \<and>
    (\<forall>n t. t < GENERIC_TYPES \<longrightarrow> named_value s' n t = named_value s n t + of_nat (sum_list (map snd (filter (\<lambda>(m, v). m = n) xs))))"
    if "named_ok s" for s
    using that
  proof (induction xs arbitrary: s)
    case (Cons x xs)
    obtain n v where x: "x = (n, v)" by (cases x)
    obtain s1 where s1: "count_named (n, v) s = Inr s1" "named_ok s1"
      "\<And>n' t. t < GENERIC_TYPES \<Longrightarrow> named_value s1 n' t = named_value s n' t + (if n' = n then of_nat v else 0)"
      using count_named_ok [OF Cons.prems, of n v] by blast
    obtain s2 where "run_res count_named xs s1 = Inr s2"
      "\<And>n t. t < GENERIC_TYPES \<Longrightarrow> named_value s2 n t = named_value s1 n t + of_nat (sum_list (map snd (filter (\<lambda>(m, v). m = n) xs)))"
      using Cons.IH [OF s1(2)] by blast
    then show ?case using s1 x by (simp del: count_named.simps)
  qed simp
  from this [of "new_CStat g t0"] show ?thesis by (auto simp: new_CStat_def named_ok_def named_value_def)
qed

theorem named_counters_sum_witness:
  "\<exists>s. run_res count_named [(''a'', 2), (''b'', 1), (''a'', 3)] (new_CStat (\<lambda>c. 0) 0) = Inr s \<and> named_value s ''a'' 0 = 5"
  using named_counters_sum [of "[(''a'', 2), (''b'', 1), (''a'', 3)]" "\<lambda>c. 0" 0]
  by (auto simp: GENERIC_TYPES_def simp del: run_res.simps)

end
