(* ===== verification/Milenage.thy ===== *)
theory Milenage
  imports Sipp_Prelude
begin

unbundle bit_operations_syntax

text \<open>
  The functions of the Milenage algorithm set (\<^verbatim>\<open>milenage.c\<close>): an AKA response computes with them the
  keys, the response and the network's authentication code. The block cipher AES-128, which the
  source takes from the SSL library, is the argument \<open>E\<close>: \<open>E k x\<close> is the block \<open>x\<close> encrypted with the
  key \<open>k\<close>. The loops over an array are a fold of updates of the array, in the order of the source.

  The reference is the formula of 3GPP TS 35.206 4.1, with its rotations as rotations of a list of
  bytes; the functions of the source are shown to compute it.
\<close>

type_synonym u8 = "8 word"
type_synonym aes = "u8 list \<Rightarrow> u8 list \<Rightarrow> u8 list"

section \<open>The source\<close>

text \<open>\<^verbatim>\<open>for (i = 0; i < n; i++) a[i] = f(i)\<close> and, in place, \<^verbatim>\<open>a[(i + r) % 16] = f(i)\<close>.\<close>

definition store_at :: "nat \<Rightarrow> nat \<Rightarrow> (nat \<Rightarrow> u8) \<Rightarrow> u8 list \<Rightarrow> u8 list" where
  "store_at n r f a = fold (\<lambda>i a. a[(i + r) mod 16 := f i]) [0..<n] a"

definition xor_at :: "(nat \<Rightarrow> u8) \<Rightarrow> u8 list \<Rightarrow> u8 list" where
  "xor_at f a = fold (\<lambda>i a. a[i := (a ! i) XOR f i]) [0..<16] a"

definition copied :: "nat \<Rightarrow> nat \<Rightarrow> u8 list \<Rightarrow> u8 list" where
  "copied n from a = map (\<lambda>i. a ! (i + from)) [0..<n]"

text \<open>A local array before it is written; every element of it is written before it is read.\<close>

abbreviation fresh16 :: "u8 list" where
  "fresh16 \<equiv> replicate 16 0"

definition ComputeOPc :: "aes \<Rightarrow> u8 list \<Rightarrow> u8 list \<Rightarrow> u8 list" where
  "ComputeOPc E k op = xor_at (\<lambda>i. op ! i) (E k op)"

definition temp_of :: "aes \<Rightarrow> u8 list \<Rightarrow> u8 list \<Rightarrow> u8 list \<Rightarrow> u8 list" where
  "temp_of E k rand op_c = E k (store_at 16 0 (\<lambda>i. (rand ! i) XOR (op_c ! i)) fresh16)"

definition in1_of :: "u8 list \<Rightarrow> u8 list \<Rightarrow> u8 list" where
  "in1_of sqn amf =
     fold (\<lambda>i a. a[i + 6 := amf ! i, i + 14 := amf ! i]) [0..<2]
       (fold (\<lambda>i a. a[i := sqn ! i, i + 8 := sqn ! i]) [0..<6] fresh16)"

definition out1_of :: "aes \<Rightarrow> u8 list \<Rightarrow> u8 list \<Rightarrow> u8 list \<Rightarrow> u8 list \<Rightarrow> u8 list \<Rightarrow> u8 list" where
  "out1_of E k rand sqn amf op =
     (let op_c = ComputeOPc E k op;
          temp = temp_of E k rand op_c;
          in1 = in1_of sqn amf;
          rijndaelInput = store_at 16 8 (\<lambda>i. (in1 ! i) XOR (op_c ! i)) fresh16;
          rijndaelInput = xor_at (\<lambda>i. temp ! i) rijndaelInput
      in xor_at (\<lambda>i. op_c ! i) (E k rijndaelInput))"

definition f1 :: "aes \<Rightarrow> u8 list \<Rightarrow> u8 list \<Rightarrow> u8 list \<Rightarrow> u8 list \<Rightarrow> u8 list \<Rightarrow> u8 list" where
  "f1 E k rand sqn amf op = copied 8 0 (out1_of E k rand sqn amf op)"

definition f1star :: "aes \<Rightarrow> u8 list \<Rightarrow> u8 list \<Rightarrow> u8 list \<Rightarrow> u8 list \<Rightarrow> u8 list \<Rightarrow> u8 list" where
  "f1star E k rand sqn amf op = copied 8 8 (out1_of E k rand sqn amf op)"

text \<open>One output block: the rotation \<open>r\<close> in bytes and the last byte \<open>c\<close> of the constant.\<close>

definition out_of :: "aes \<Rightarrow> u8 list \<Rightarrow> u8 list \<Rightarrow> u8 list \<Rightarrow> nat \<Rightarrow> u8 \<Rightarrow> u8 list" where
  "out_of E k temp op_c r c =
     (let rijndaelInput = store_at 16 r (\<lambda>i. (temp ! i) XOR (op_c ! i)) fresh16;
          rijndaelInput = rijndaelInput[15 := (rijndaelInput ! 15) XOR c]
      in xor_at (\<lambda>i. op_c ! i) (E k rijndaelInput))"

text \<open>The results \<^verbatim>\<open>res\<close>, \<^verbatim>\<open>ck\<close>, \<^verbatim>\<open>ik\<close> and \<^verbatim>\<open>ak\<close>.\<close>

definition f2345 :: "aes \<Rightarrow> u8 list \<Rightarrow> u8 list \<Rightarrow> u8 list \<Rightarrow> u8 list \<times> u8 list \<times> u8 list \<times> u8 list" where
  "f2345 E k rand op =
     (let op_c = ComputeOPc E k op;
          temp = temp_of E k rand op_c;
          out2 = out_of E k temp op_c 0 1
      in (copied 8 8 out2, copied 16 0 (out_of E k temp op_c 12 2), copied 16 0 (out_of E k temp op_c 8 4), copied 6 0 out2))"

definition f5star :: "aes \<Rightarrow> u8 list \<Rightarrow> u8 list \<Rightarrow> u8 list \<Rightarrow> u8 list" where
  "f5star E k rand op =
     (let op_c = ComputeOPc E k op;
          temp = temp_of E k rand op_c
      in copied 6 0 (out_of E k temp op_c 4 8))"

section \<open>The reference\<close>

definition bxor :: "u8 list \<Rightarrow> u8 list \<Rightarrow> u8 list" where
  "bxor a b = map2 (\<lambda>x y. x XOR y) a b"

text \<open>
  \<open>OUT\<^sub>i = E\<^sub>K(rot(x, r\<^sub>i) XOR c\<^sub>i) XOR OP\<^sub>C\<close> for the block \<open>x\<close> to rotate, and what else is added before the
  encryption. The rotation is by \<open>8 * r\<close> bits towards the most significant bit, which is a rotation of the
  list of bytes to the left.
\<close>

definition OPc :: "aes \<Rightarrow> u8 list \<Rightarrow> u8 list \<Rightarrow> u8 list" where
  "OPc E k op = bxor (E k op) op"

definition TEMP :: "aes \<Rightarrow> u8 list \<Rightarrow> u8 list \<Rightarrow> u8 list \<Rightarrow> u8 list" where
  "TEMP E k op rand = E k (bxor rand (OPc E k op))"

definition const_block :: "u8 \<Rightarrow> u8 list" where
  "const_block c = replicate 15 0 @ [c]"

definition OUT1 :: "aes \<Rightarrow> u8 list \<Rightarrow> u8 list \<Rightarrow> u8 list \<Rightarrow> u8 list \<Rightarrow> u8 list \<Rightarrow> u8 list" where
  "OUT1 E k op rand sqn amf =
     bxor (E k (bxor (TEMP E k op rand) (rotate 8 (bxor (sqn @ amf @ sqn @ amf) (OPc E k op))))) (OPc E k op)"

definition OUTn :: "aes \<Rightarrow> u8 list \<Rightarrow> u8 list \<Rightarrow> u8 list \<Rightarrow> nat \<Rightarrow> u8 \<Rightarrow> u8 list" where
  "OUTn E k op rand r c =
     bxor (E k (bxor (rotate r (bxor (TEMP E k op rand) (OPc E k op))) (const_block c))) (OPc E k op)"

section \<open>The source computes the reference\<close>

text \<open>The cipher keeps the length of a block.\<close>

definition block_cipher :: "aes \<Rightarrow> bool" where
  "block_cipher E \<longleftrightarrow> (\<forall>k x. length k = 16 \<and> length x = 16 \<longrightarrow> length (E k x) = 16)"

lemma length_bxor [simp]: "length (bxor a b) = min (length a) (length b)"
  by (simp add: bxor_def)

lemma nth_bxor [simp]: "i < length a \<Longrightarrow> i < length b \<Longrightarrow> bxor a b ! i = (a ! i) XOR (b ! i)"
  by (simp add: bxor_def)

lemma length_store_at [simp]: "length (store_at n r f a) = length a"
  unfolding store_at_def by (induction n) simp_all

lemma length_xor_at [simp]: "length (xor_at f a) = length a"
proof -
  have "length (fold (\<lambda>i a. a[i := (a ! i) XOR f i]) xs a) = length a" for xs
    by (induction xs arbitrary: a) auto
  then show ?thesis by (simp add: xor_at_def)
qed

lemma length_copied [simp]: "length (copied n k a) = n"
  by (simp add: copied_def)

lemma fold_xor_nth:
  "i < length a \<Longrightarrow> n \<le> length a \<Longrightarrow>
    fold (\<lambda>i a. a[i := (a ! i) XOR f i]) [0..<n] a ! i = (if i < n then (a ! i) XOR f i else a ! i)"
proof (induction n)
  case (Suc n)
  have "length (fold (\<lambda>i a. a[i := (a ! i) XOR f i]) xs a) = length a" for xs
    by (induction xs arbitrary: a) auto
  then show ?case using Suc by (auto simp: nth_list_update)
qed simp

lemma nth_xor_at: "length a = 16 \<Longrightarrow> i < 16 \<Longrightarrow> xor_at f a ! i = (a ! i) XOR f i"
  unfolding xor_at_def by (subst fold_xor_nth) simp_all

lemma xor_at_bxor:
  assumes "length a = 16" and "length b = 16"
  shows "xor_at (\<lambda>i. b ! i) a = bxor a b"
  using assms by (intro nth_equalityI) (simp_all add: nth_xor_at)

lemma store_at_nth:
  assumes "n \<le> 16" and "i < n" and "length a = 16"
  shows "store_at n r f a ! ((i + r) mod 16) = f i"
  using assms
proof (induction n)
  case (Suc n)
  have "i = n" if "(i + r) mod 16 = (n + r) mod 16"
  proof -
    have "16 dvd n + r - (i + r)" using that Suc.prems(2) by (subst mod_eq_dvd_iff_nat [symmetric]) auto
    then have "16 dvd n - i" by simp
    then show ?thesis using Suc.prems(1,2) nat_dvd_not_less [of "n - i" 16] by linarith
  qed
  then show ?case using Suc
    by (cases "i = n") (auto simp: store_at_def nth_list_update length_store_at [unfolded store_at_def])
qed simp

lemma store_at_rotate:
  assumes "length a = 16" and "r \<le> 16"
  shows "store_at 16 r f a = rotate (16 - r) (map f [0..<16])"
proof (rule nth_equalityI)
  fix j assume "j < length (store_at 16 r f a)"
  then have j: "j < 16" using assms by simp
  let ?i = "(16 - r + j) mod 16"
  have "(?i + r) mod 16 = j" using j assms(2) by (simp add: mod_add_left_eq)
  then have "store_at 16 r f a ! j = f ?i"
    using store_at_nth [of 16 ?i a r f] assms by simp
  then show "store_at 16 r f a ! j = rotate (16 - r) (map f [0..<16]) ! j"
    using j by (simp add: nth_rotate)
qed (use assms in simp)

lemma map_xor: "length a = 16 \<Longrightarrow> length b = 16 \<Longrightarrow> map (\<lambda>i. (a ! i) XOR (b ! i)) [0..<16] = bxor a b"
  by (intro nth_equalityI) simp_all

lemma in1_of_eq:
  assumes "length sqn = 6" and "length amf = 2"
  shows "in1_of sqn amf = sqn @ amf @ sqn @ amf"
proof -
  obtain s0 s1 s2 s3 s4 s5 where s: "sqn = [s0, s1, s2, s3, s4, s5]"
    using assms(1) by (auto simp: numeral_eq_Suc length_Suc_conv)
  obtain a0 a1 where a: "amf = [a0, a1]" using assms(2) by (auto simp: numeral_eq_Suc length_Suc_conv)
  show ?thesis by (simp add: s a in1_of_def numeral_eq_Suc)
qed

lemma copied_take: "n \<le> length a - k \<Longrightarrow> copied n k a = take n (drop k a)"
  by (intro nth_equalityI) (auto simp: copied_def add.commute)

text \<open>The sizes of the arrays the functions are called with.\<close>

definition aka_sizes :: "u8 list \<Rightarrow> u8 list \<Rightarrow> u8 list \<Rightarrow> bool" where
  "aka_sizes k op rand \<longleftrightarrow> length k = 16 \<and> length op = 16 \<and> length rand = 16"

lemma milenage_parts:
  assumes "block_cipher E" and "aka_sizes k op rand"
  shows ComputeOPc_eq: "ComputeOPc E k op = OPc E k op" and length_OPc: "length (OPc E k op) = 16"
    and temp_of_eq: "temp_of E k rand (OPc E k op) = TEMP E k op rand" and length_TEMP: "length (TEMP E k op rand) = 16"
proof -
  have E: "length (E k x) = 16" if "length x = 16" for x
    using assms that by (auto simp: block_cipher_def aka_sizes_def)
  have s: "length k = 16" "length op = 16" "length rand = 16" using assms(2) by (auto simp: aka_sizes_def)
  show "ComputeOPc E k op = OPc E k op" using E s by (simp add: ComputeOPc_def OPc_def xor_at_bxor)
  show l: "length (OPc E k op) = 16" using E s by (simp add: OPc_def)
  show "temp_of E k rand (OPc E k op) = TEMP E k op rand"
    using s l by (simp add: temp_of_def TEMP_def store_at_rotate map_xor)
  show "length (TEMP E k op rand) = 16" using E s l by (simp add: TEMP_def)
qed

lemma xor_const: "length a = 16 \<Longrightarrow> a[15 := (a ! 15) XOR c] = bxor a (const_block c)"
  by (intro nth_equalityI) (auto simp: const_block_def nth_list_update nth_append)

lemma out_of_eq:
  assumes "block_cipher E" and "aka_sizes k op rand" and "r \<le> 16"
  shows "out_of E k (TEMP E k op rand) (OPc E k op) r c = OUTn E k op rand (16 - r) c"
    and "length (OUTn E k op rand r' c) = 16"
proof -
  note l = length_OPc [OF assms(1,2)] length_TEMP [OF assms(1,2)]
  have E: "length (E k x) = 16" if "length x = 16" for x
    using assms that by (auto simp: block_cipher_def aka_sizes_def)
  show "out_of E k (TEMP E k op rand) (OPc E k op) r c = OUTn E k op rand (16 - r) c"
    using l assms(3) by (simp add: out_of_def OUTn_def store_at_rotate map_xor xor_const xor_at_bxor E Let_def const_block_def)
  show "length (OUTn E k op rand r' c) = 16" using l by (simp add: OUTn_def E const_block_def)
qed

lemma out1_of_eq:
  assumes "block_cipher E" and "aka_sizes k op rand" and "length sqn = 6" and "length amf = 2"
  shows "out1_of E k rand sqn amf op = OUT1 E k op rand sqn amf" and "length (OUT1 E k op rand sqn amf) = 16"
proof -
  note l = length_OPc [OF assms(1,2)] length_TEMP [OF assms(1,2)]
  have E: "length (E k x) = 16" if "length x = 16" for x
    using assms that by (auto simp: block_cipher_def aka_sizes_def)
  have comm: "bxor a b = bxor b a" for a b
    by (auto simp: bxor_def intro!: nth_equalityI) (metis xor.commute)
  show "length (OUT1 E k op rand sqn amf) = 16" using l assms(3,4) by (simp add: OUT1_def E)
  show "out1_of E k rand sqn amf op = OUT1 E k op rand sqn amf"
    using l assms(3,4)
    by (simp add: out1_of_def OUT1_def ComputeOPc_eq [OF assms(1,2)] temp_of_eq [OF assms(1,2)] in1_of_eq
        store_at_rotate map_xor xor_at_bxor E Let_def comm [of "TEMP E k op rand"])
qed

end
