(* ===== verification/Auth.thy ===== *)
theory Auth
  imports Url_Strings Milenage
begin

text \<open>
  Digest and AKA authentication (\<^verbatim>\<open>auth.cpp\<close>): the parameters of a challenge, the choice of one of
  several challenges, the response to it (\<^verbatim>\<open>createAuthHeader\<close>) and the check of a response
  (\<^verbatim>\<open>verifyAuthHeader\<close>).

  The SSL library is the record \<open>ssl_lib\<close>: its hashes, \<open>None\<close> where the library fails to compute one,
  its AES-128 and its base64 decoder, \<open>None\<close> for a text that is not base64. A \<^verbatim>\<open>std::string_view\<close> is a
  string; a position in it is a natural number and \<^verbatim>\<open>npos\<close> is \<open>None\<close>. The texts of \<^verbatim>\<open>WARNING\<close> and
  \<^verbatim>\<open>TRACE_CALLDEBUG\<close> are left out. A header is made with \<open>Inr\<close> the header or \<open>Inl\<close> the message of the
  failure.
\<close>

section \<open>The SSL library\<close>

datatype evp_md = EVP_md5 | EVP_sha256 | EVP_sha512_256

record ssl_lib =
  has_sha512_256 :: bool
  evp_digest :: "evp_md \<Rightarrow> string \<Rightarrow> string option"
  evp_aes128 :: aes
  evp_decode_block :: "string \<Rightarrow> string option"

text \<open>The kinds of text the functions take, to tell their arguments apart.\<close>

type_synonym account = string
type_synonym uri_text = string
type_synonym qop_text = string
type_synonym body_text = string
type_synonym nonce_text = string

section \<open>Text\<close>

definition lower_hex :: "nat \<Rightarrow> char" where
  "lower_hex j = (if j \<le> 9 then chr (j + 48) else chr (j + 97 - 10))"

fun hashToHex :: "string \<Rightarrow> string" where
  "hashToHex [] = []"
| "hashToHex (b # bs) = lower_hex (drop_bit 4 (byte b) AND 0xf) # lower_hex (byte b AND 0xf) # hashToHex bs"

fun same_upper :: "string \<Rightarrow> string \<Rightarrow> bool" where
  "same_upper s1 [] = True"
| "same_upper [] (b # s2) = False"
| "same_upper (a # s1) (b # s2) = (toupper a = toupper b \<and> same_upper s1 s2)"

fun stristr :: "string \<Rightarrow> string \<Rightarrow> bool" where
  "stristr s1 s2 =
     (if length s2 \<le> length s1
      then same_upper s1 s2 \<or> (case s1 of [] \<Rightarrow> False | _ # t \<Rightarrow> stristr t s2)
      else False)"

declare stristr.simps [simp del]

text \<open>\<^verbatim>\<open>strncasecmp(a, b, n) == 0\<close>; the source calls it with \<open>n\<close> bytes at both pointers.\<close>

fun strncasecmp_eq :: "nat \<Rightarrow> string \<Rightarrow> string \<Rightarrow> bool" where
  "strncasecmp_eq 0 a b = True"
| "strncasecmp_eq (Suc n) (x # a) (y # b) = (tolower x = tolower y \<and> (x = NUL \<or> strncasecmp_eq n a b))"
| "strncasecmp_eq (Suc n) a b = (a = [] \<and> b = [])"

definition equalNoCase :: "string \<Rightarrow> string \<Rightarrow> bool" where
  "equalNoCase s1 s2 \<longleftrightarrow> length s1 = length s2 \<and> strncasecmp_eq (length s1) s1 s2"

definition span :: "string \<Rightarrow> nat \<Rightarrow> string \<Rightarrow> nat" where
  "span s p cs = min (p + length (takeWhile (\<lambda>c. c \<in> set cs) (drop p s))) (length s)"

definition cspan :: "string \<Rightarrow> nat \<Rightarrow> string \<Rightarrow> nat" where
  "cspan s p cs = min (p + length (takeWhile (\<lambda>c. c \<notin> set cs) (drop p s))) (length s)"

definition BLANKS :: string where
  "BLANKS = [SP, TAB, CR, LF]"

section \<open>Algorithms\<close>

definition digestAlgorithms :: "(string \<times> evp_md \<times> bool) list" where
  "digestAlgorithms =
     [(''MD5'', EVP_md5, False), (''MD5-sess'', EVP_md5, True),
      (''SHA-256'', EVP_sha256, False), (''SHA-256-sess'', EVP_sha256, True),
      (''SHA-512-256'', EVP_sha512_256, False), (''SHA-512-256-sess'', EVP_sha512_256, True)]"

definition digestAlgorithm :: "string \<Rightarrow> (string \<times> evp_md \<times> bool) option" where
  "digestAlgorithm algo = find (\<lambda>a. equalNoCase algo (fst a)) digestAlgorithms"

text \<open>The hash of an algorithm is not null.\<close>

definition has_md :: "ssl_lib \<Rightarrow> evp_md \<Rightarrow> bool" where
  "has_md lib md \<longleftrightarrow> md \<noteq> EVP_sha512_256 \<or> has_sha512_256 lib"

section \<open>Parameters of a header\<close>

function find_parameter_loop :: "string \<Rightarrow> string \<Rightarrow> bool \<Rightarrow> nat \<Rightarrow> nat option" where
  "find_parameter_loop name header quoted p =
     (if p < length header then
        if quoted \<and> header ! p = CHR 0x5C \<and> p + 1 < length header then find_parameter_loop name header quoted (p + 2)
        else if header ! p = DQUOTE then find_parameter_loop name header (\<not> quoted) (p + 1)
        else if \<not> quoted \<and> (p = 0 \<or> header ! (p - 1) = CHR '','' \<or> isspace (header ! (p - 1))) \<and>
            length name \<le> length header - p \<and> strncasecmp_eq (length name) (drop p header) name then
          let eq = span header (p + length name) BLANKS
          in if eq < length header \<and> header ! eq = CHR ''='' then Some (span header (eq + 1) BLANKS)
             else find_parameter_loop name header quoted (p + 1)
        else find_parameter_loop name header quoted (p + 1)
      else None)"
  by pat_completeness auto
termination by (relation "measure (\<lambda>(name, header, quoted, p). length header - p)") auto

declare find_parameter_loop.simps [simp del]

definition findAuthParameter :: "string \<Rightarrow> string \<Rightarrow> nat option" where
  "findAuthParameter name header = find_parameter_loop name header False 0"

definition getAuthParameter :: "string \<Rightarrow> string \<Rightarrow> string" where
  "getAuthParameter name header =
     (case findAuthParameter name header of
        None \<Rightarrow> []
      | Some start \<Rightarrow>
          if start < length header \<and> header ! start = DQUOTE
          then let stop = cspan header (start + 1) [DQUOTE] in take (stop - (start + 1)) (drop (start + 1) header)
          else let stop = cspan header start [SP, CHR '','', DQUOTE, CR, LF] in take (stop - start) (drop start header))"

section \<open>Challenges\<close>

function next_challenge_loop :: "string \<Rightarrow> bool \<Rightarrow> nat \<Rightarrow> nat option" where
  "next_challenge_loop auth quoted p =
     (if p < length auth then
        if quoted \<and> auth ! p = CHR 0x5C \<and> p + 1 < length auth then next_challenge_loop auth quoted (p + 2)
        else if auth ! p = DQUOTE then next_challenge_loop auth (\<not> quoted) (p + 1)
        else if auth ! p = CHR '','' \<and> \<not> quoted then
          let start = span auth (p + 1) BLANKS;
              stop = cspan auth start (BLANKS @ ''=,'');
              after = span auth stop BLANKS
          in if stop > start \<and> after > stop \<and> after < length auth \<and> auth ! after \<noteq> CHR ''='' \<and> auth ! after \<noteq> CHR '',''
             then Some start else next_challenge_loop auth quoted (p + 1)
        else next_challenge_loop auth quoted (p + 1)
      else None)"
  by pat_completeness auto
termination by (relation "measure (\<lambda>(auth, quoted, p). length auth - p)") auto

declare next_challenge_loop.simps [simp del]

definition nextChallenge :: "string \<Rightarrow> nat \<Rightarrow> nat option" where
  "nextChallenge auth p = next_challenge_loop auth False p"

lemma span_ge: "p \<le> length s \<Longrightarrow> p \<le> span s p cs"
  by (simp add: span_def)

lemma span_le: "span s p cs \<le> length s"
  by (simp add: span_def)

lemma cspan_le: "cspan s p cs \<le> length s"
  by (simp add: cspan_def)

lemma next_challenge_gt: "next_challenge_loop auth q p = Some n \<Longrightarrow> p < n \<and> n \<le> length auth"
proof (induction "length auth - p" arbitrary: p q rule: less_induct)
  case less
  have p: "p < length auth"
    using less.prems by (subst (asm) next_challenge_loop.simps) (auto split: if_splits)
  have IH: "p < n \<and> n \<le> length auth" if "next_challenge_loop auth r m = Some n" "p < m" for r m
    using less.hyps [of m r] that p by fastforce
  have "Suc p \<le> span auth (Suc p) BLANKS" using p by (intro span_ge) simp
  then show ?case using less.prems p span_le [of auth "Suc p" BLANKS] IH [of _ "p + 1"] IH [of _ "p + 2"]
    by (subst (asm) (1) next_challenge_loop.simps) (simp add: Let_def split: if_splits)
qed

text \<open>The challenge from \<open>start\<close> up to the next one, and whether it can be answered.\<close>

definition challenge_at :: "string \<Rightarrow> nat \<Rightarrow> string" where
  "challenge_at auth start =
     (case nextChallenge auth start of None \<Rightarrow> drop start auth | Some n \<Rightarrow> take (n - start) (drop start auth))"

definition answerable :: "ssl_lib \<Rightarrow> string \<Rightarrow> bool" where
  "answerable lib challenge =
     (let algo = getAuthParameter ''algorithm'' challenge
      in algo = [] \<or> equalNoCase algo ''AKAv1-MD5'' \<or>
         (case digestAlgorithm algo of
            None \<Rightarrow> False
          | Some (_, md, sess) \<Rightarrow> has_md lib md \<and> (\<not> sess \<or> getAuthParameter ''qop'' challenge \<noteq> [])))"

definition rstrip_set :: "string \<Rightarrow> string \<Rightarrow> string" where
  "rstrip_set cs s = rev (dropWhile (\<lambda>c. c \<in> set cs) (rev s))"

function select_loop :: "ssl_lib \<Rightarrow> string \<Rightarrow> nat option \<Rightarrow> string" where
  "select_loop lib auth starto =
     (case starto of
        None \<Rightarrow> auth
      | Some start \<Rightarrow>
          if length auth - start > 6 \<and> strncasecmp_eq 6 (drop start auth) ''Digest'' \<and> isspace (auth ! (start + 6)) \<and>
             answerable lib (challenge_at auth start)
          then rstrip_set (BLANKS @ '','') (challenge_at auth start)
          else select_loop lib auth (nextChallenge auth start))"
  by pat_completeness auto
termination
  by (relation "measure (\<lambda>(lib, auth, starto). case starto of None \<Rightarrow> 0 | Some s \<Rightarrow> Suc (length auth - s))")
    (auto simp: nextChallenge_def dest!: next_challenge_gt split: option.splits)

declare select_loop.simps [simp del]

definition selectAuthChallenge :: "ssl_lib \<Rightarrow> string \<Rightarrow> string" where
  "selectAuthChallenge lib auth = select_loop lib auth (Some (span auth 0 [SP, TAB]))"

section \<open>The response\<close>

text \<open>The hexadecimal digits of a hash; none when the library fails.\<close>

definition digest_hex :: "ssl_lib \<Rightarrow> evp_md \<Rightarrow> string \<Rightarrow> string" where
  "digest_hex lib md s = (case evp_digest lib md s of None \<Rightarrow> [] | Some h \<Rightarrow> hashToHex h)"

definition createAuthResponse ::
  "ssl_lib \<Rightarrow> uri_text option \<Rightarrow> evp_md \<Rightarrow> bool \<Rightarrow> account \<Rightarrow> account \<Rightarrow> string \<Rightarrow> uri_text \<Rightarrow> qop_text \<Rightarrow> body_text \<Rightarrow>
   account \<Rightarrow> nonce_text \<Rightarrow> nonce_text \<Rightarrow> nonce_text \<Rightarrow> string option" where
  "createAuthResponse lib auth_uri md sess user password meth uri authtype msgbody realm nonce cnonce nc =
     (let auth_int = stristr authtype ''auth-int'';
          H = digest_hex lib md;
          ha1 = H (user @ '':'' @ realm @ '':'' @ password);
          hex_len = length ha1;
          ha1s = (if sess then H (ha1 @ '':'' @ nonce @ '':'' @ cnonce) else ha1);
          body = (if auth_int then H msgbody else []);
          ha2 = H (meth @ '':'' @ (case auth_uri of Some u \<Rightarrow> ''sip:'' @ u | None \<Rightarrow> uri) @
            (if auth_int then '':'' @ body else []));
          response = H (ha1s @ '':'' @ nonce @
            (if cnonce \<noteq> [] then '':'' @ nc @ '':'' @ cnonce @ '':'' @ authtype else []) @ '':'' @ ha2)
      in if hex_len = 0 then None
         else if sess \<and> length ha1s \<noteq> hex_len then None
         else if auth_int \<and> length body \<noteq> hex_len then None
         else if length ha2 \<noteq> hex_len then None
         else if length response \<noteq> hex_len then None
         else Some response)"

text \<open>\<^verbatim>\<open>%08x\<close> of a 32 bit number.\<close>

definition print_08x :: "32 word \<Rightarrow> string" where
  "print_08x n = map (\<lambda>i. lower_hex (unat n div 16 ^ (7 - i) mod 16)) [0..<8]"

definition the_qop :: "string \<Rightarrow> string" where
  "the_qop authtype =
     (if authtype = [] then []
      else if stristr authtype ''auth-int'' then ''auth-int''
      else if stristr authtype ''auth'' then ''auth''
      else authtype)"

definition createAuthHeaderDigest ::
  "ssl_lib \<Rightarrow> uri_text option \<Rightarrow> 32 word \<times> 32 word \<Rightarrow> evp_md \<Rightarrow> bool \<Rightarrow> account \<Rightarrow> account \<Rightarrow> string \<Rightarrow> uri_text \<Rightarrow>
   body_text \<Rightarrow> string \<Rightarrow> string \<Rightarrow> 32 word \<Rightarrow> string + string" where
  "createAuthHeaderDigest lib auth_uri rd md sess user password meth uri msgbody auth algo nonce_count =
     (let authtype = the_qop (getAuthParameter ''qop'' auth);
          cnonce = (if authtype = [] then [] else print_08x (fst rd) @ print_08x (snd rd));
          nc = (if authtype = [] then [] else print_08x nonce_count);
          opaque = getAuthParameter ''opaque'' auth;
          realm = getAuthParameter ''realm'' auth;
          nonce = getAuthParameter ''nonce'' auth;
          sipuri = ''sip:'' @ (case auth_uri of Some u \<Rightarrow> u | None \<Rightarrow> uri)
      in if sess \<and> cnonce = [] then Inl (''createAuthHeader: '' @ algo @ '' needs a qop in the challenge, for a cnonce'')
         else if realm = [] then Inl (''createAuthHeader: couldn't parse realm in '' @ [CHR 0x27] @ auth @ [CHR 0x27])
         else if nonce = [] then Inl ''createAuthHeader: couldn't parse nonce''
         else case createAuthResponse lib auth_uri md sess user password meth sipuri authtype msgbody realm nonce cnonce nc of
             None \<Rightarrow> Inl (''createAuthHeader: the SSL library failed to compute the '' @ algo @ '' response'')
           | Some resp_hex \<Rightarrow> Inr
               (''Digest username='' @ [DQUOTE] @ user @ [DQUOTE] @ '',realm='' @ [DQUOTE] @ realm @ [DQUOTE] @
                (if cnonce \<noteq> [] then '',cnonce='' @ [DQUOTE] @ cnonce @ [DQUOTE] @ '',nc='' @ nc @ '',qop='' @ authtype else []) @
                '',uri='' @ [DQUOTE] @ sipuri @ [DQUOTE] @ '',nonce='' @ [DQUOTE] @ nonce @ [DQUOTE] @
                '',response='' @ [DQUOTE] @ resp_hex @ [DQUOTE] @ '',algorithm='' @ algo @
                (if opaque \<noteq> [] then '',opaque='' @ [DQUOTE] @ opaque @ [DQUOTE] else [])))"

section \<open>AKA\<close>

definition base64_decode_string :: "ssl_lib \<Rightarrow> string \<Rightarrow> string" where
  "base64_decode_string lib buf =
     (case evp_decode_block lib buf of
        None \<Rightarrow> []
      | Some out \<Rightarrow>
          let len = length buf;
              padded = (length out = len div 4 * 3);
              n = length out - (if padded \<and> len > 0 \<and> buf ! (len - 1) = CHR ''='' then 1 else 0)
                - (if padded \<and> len > 1 \<and> buf ! (len - 2) = CHR ''='' then 1 else 0)
          in take n out)"

text \<open>The pairs of hexadecimal digits at the start of a text.\<close>

fun hex_bytes :: "string \<Rightarrow> u8 list" where
  "hex_bytes (a # b # s) =
     (if isxdigit a then
        if isxdigit b then of_int (get_decimal_from_hex a * 16 + get_decimal_from_hex b) # hex_bytes s
        else [of_int (get_decimal_from_hex a)]
      else [])"
| "hex_bytes [a] = (if isxdigit a then [of_int (get_decimal_from_hex a)] else [])"
| "hex_bytes [] = []"

definition u8_of :: "char \<Rightarrow> u8" where
  "u8_of c = of_nat (byte c)"

definition char_of_u8 :: "u8 \<Rightarrow> char" where
  "char_of_u8 b = chr (unat b)"

definition getAKAKey :: "string \<Rightarrow> nat \<Rightarrow> u8 list" where
  "getAKAKey txt len =
     (let bytes = take len (if length txt \<ge> 2 \<and> txt ! 0 = CHR ''0'' \<and> txt ! 1 = CHR ''x''
                            then hex_bytes (drop 2 txt) else map u8_of txt)
      in bytes @ replicate (len - length bytes) 0)"

definition MAC_error :: string where
  "MAC_error = ''createAuthHeaderAKAv1MD5 : MAC != expectedMAC -> Server might not know the secret (man-in-the-middle attack?)'' @ [LF]"

definition createAuthHeaderAKAv1MD5 ::
  "ssl_lib \<Rightarrow> uri_text option \<Rightarrow> 32 word \<times> 32 word \<Rightarrow> u8 list \<Rightarrow> account \<Rightarrow> string \<Rightarrow> string \<Rightarrow> string \<Rightarrow> uri_text \<Rightarrow>
   body_text \<Rightarrow> string \<Rightarrow> string \<Rightarrow> 32 word \<Rightarrow> (string + string) \<times> u8 list" where
  "createAuthHeaderAKAv1MD5 lib auth_uri rd sqn_he user aka_OP aka_K meth uri msgbody auth algo nonce_count =
     (let nonce64 = getAuthParameter ''nonce'' auth;
          nonce = base64_decode_string lib nonce64
      in if nonce64 = [] then (Inl ''createAuthHeaderAKAv1MD5: couldn't parse nonce'', sqn_he)
         else if length nonce < 32 then
           (Inl (''createAuthHeaderAKAv1MD5 : Nonce is too short '' @ to_string (length nonce) @ '' < 32 expected'' @ [LF]), sqn_he)
         else
           let rnd = map u8_of (take 16 nonce);
               sqnxoraka = map u8_of (take 6 (drop 16 nonce));
               amf = map u8_of (take 2 (drop 22 nonce));
               mac = map u8_of (take 8 (drop 24 nonce));
               k = getAKAKey aka_K 16;
               op = getAKAKey aka_OP 16;
               E = evp_aes128 lib
           in case f2345 E k rnd op of (res, ck, ik, ak) \<Rightarrow>
             let sqn = map (\<lambda>i. (sqnxoraka ! i) XOR (ak ! i)) [0..<6];
                 xmac = f1 E k rnd sqn amf op
             in if mac \<noteq> xmac then (Inl MAC_error, sqn_he)
                else
                  (case createAuthHeaderDigest lib auth_uri rd EVP_md5 False user (map char_of_u8 res) meth uri msgbody auth algo nonce_count of
                     Inl _ \<Rightarrow> Inl (''createAuthHeaderAKAv1MD5 : Unexpected return value from createAuthHeaderDigest'' @ [LF])
                   | Inr h \<Rightarrow> Inr h, sqn_he[5 := sqn ! 5]))"

section \<open>Making and checking a header\<close>

definition createAuthHeader ::
  "ssl_lib \<Rightarrow> uri_text option \<Rightarrow> 32 word \<times> 32 word \<Rightarrow> u8 list \<Rightarrow> account \<Rightarrow> account \<Rightarrow> string option \<Rightarrow> uri_text \<Rightarrow>
   body_text \<Rightarrow> string \<Rightarrow> string option \<Rightarrow> string option \<Rightarrow> 32 word \<Rightarrow> ((string + string) \<times> u8 list) res" where
  "createAuthHeader lib auth_uri rd sqn_he user password methodo uri msgbody auth aka_OP aka_K nonce_count =
     (if \<not> stristr auth ''Digest'' then Inr (Inl ''createAuthHeader: authentication must be digest'', sqn_he)
      else case methodo of
        None \<Rightarrow> Inr (Inl ''createAuthHeader: authentication requires a method'', sqn_he)
      | Some meth \<Rightarrow>
          let given = getAuthParameter ''algorithm'' auth;
              algo = (if given = [] then ''MD5'' else given)
          in if equalNoCase algo ''AKAv1-MD5'' then
               (case (aka_K, aka_OP) of
                  (None, _) \<Rightarrow> Inr (Inl ''createAuthHeader: AKAv1-MD5 authentication requires a key'', sqn_he)
                | (Some _, None) \<Rightarrow> Inl Undefined
                | (Some k, Some op) \<Rightarrow>
                    Inr (createAuthHeaderAKAv1MD5 lib auth_uri rd sqn_he user op k meth uri msgbody auth algo nonce_count))
             else case digestAlgorithm algo of
               Some (name, md, sess) \<Rightarrow>
                 if \<not> has_md lib md
                 then Inr (Inl (''createAuthHeader: '' @ name @ '' is not supported by the SSL library SIPp is built with''), sqn_he)
                 else Inr (createAuthHeaderDigest lib auth_uri rd md sess user password meth uri msgbody auth algo nonce_count, sqn_he)
             | None \<Rightarrow>
                 Inr (Inl (''createAuthHeader: authentication must use MD5, MD5-sess, SHA-256, SHA-256-sess, SHA-512-256, SHA-512-256-sess or AKAv1-MD5, not '' @
                   [CHR 0x27] @ algo @ [CHR 0x27]), sqn_he))"

definition verifyAuthHeader :: "ssl_lib \<Rightarrow> uri_text option \<Rightarrow> account \<Rightarrow> account \<Rightarrow> string \<Rightarrow> string \<Rightarrow> body_text \<Rightarrow> int" where
  "verifyAuthHeader lib auth_uri user password meth auth msgbody =
     (if \<not> stristr auth ''Digest'' then 0
      else
        let given = getAuthParameter ''algorithm'' auth;
            algo = (if given = [] then ''MD5'' else given)
        in case digestAlgorithm algo of
             None \<Rightarrow> 0
           | Some (_, md, sess) \<Rightarrow>
               if \<not> has_md lib md then 0
               else
                 let realm = getAuthParameter ''realm'' auth;
                     uri = getAuthParameter ''uri'' auth;
                     nonce = getAuthParameter ''nonce'' auth;
                     cnonce = getAuthParameter ''cnonce'' auth;
                     nc = getAuthParameter ''nc'' auth;
                     authtype = getAuthParameter ''qop'' auth
                 in if sess \<and> cnonce = [] then 0
                    else case createAuthResponse lib auth_uri md sess user password meth uri authtype msgbody realm nonce cnonce nc of
                        None \<Rightarrow> 0
                      | Some result \<Rightarrow>
                          let response = getAuthParameter ''response'' auth
                          in of_bool (response \<noteq> [] \<and> result = response))"

end
