(* ===== verification/Auth_Correct.thy ===== *)
theory Auth_Correct
  imports Auth
begin

text \<open>
  What the authentication does: the parameters of a header are read back as they were written, whatever
  else the header holds; a response that SIPp makes to a challenge is one that SIPp accepts; and an
  AKA challenge is accepted exactly when its authentication code is that of the standard.
\<close>

section \<open>A header as a list of parameters\<close>

text \<open>A parameter has a name, whether its value is quoted, and its value.\<close>

type_synonym auth_item = "string \<times> bool \<times> string"

fun item_text :: "auth_item \<Rightarrow> string" where
  "item_text (n, q, v) = n @ CHR ''='' # (if q then DQUOTE # v @ [DQUOTE] else v)"

fun items_text :: "auth_item list \<Rightarrow> string" where
  "items_text [] = []"
| "items_text [i] = item_text i"
| "items_text (i # is) = item_text i @ CHR '','' # items_text is"

definition bare_char :: "char \<Rightarrow> bool" where
  "bare_char c \<longleftrightarrow> \<not> isspace c \<and> c \<noteq> CHR '','' \<and> c \<noteq> DQUOTE"

definition bare_ok :: "string \<Rightarrow> bool" where
  "bare_ok v \<longleftrightarrow> list_all bare_char v"

definition quoted_ok :: "string \<Rightarrow> bool" where
  "quoted_ok v \<longleftrightarrow> DQUOTE \<notin> set v \<and> CHR 0x5C \<notin> set v"

definition name_ok :: "string \<Rightarrow> bool" where
  "name_ok n \<longleftrightarrow> n \<noteq> [] \<and> bare_ok n \<and> CHR ''='' \<notin> set n \<and> NUL \<notin> set n"

fun item_ok :: "auth_item \<Rightarrow> bool" where
  "item_ok (n, q, v) = (name_ok n \<and> (if q then quoted_ok v else bare_ok v))"

fun item_value :: "string \<Rightarrow> auth_item list \<Rightarrow> string" where
  "item_value name [] = []"
| "item_value name ((n, q, v) # is) = (if eq_nocase name n then v else item_value name is)"

section \<open>Scanning\<close>

lemma tolower_NUL: "tolower c = NUL \<longleftrightarrow> c = NUL"
proof -
  have "byte NUL = 0" by (simp add: byte_def)
  then show ?thesis by (auto simp: tolower_def isupper_def dest!: arg_cong [of _ _ byte])
qed

lemma strncasecmp_conv:
  "NUL \<notin> set b \<Longrightarrow> strncasecmp_eq (length b) a b \<longleftrightarrow>
    length b \<le> length a \<and> map tolower (take (length b) a) = map tolower b"
proof (induction b arbitrary: a)
  case (Cons y b)
  have "tolower y \<noteq> NUL" using Cons.prems by (auto simp: tolower_NUL)
  then have "tolower NUL \<noteq> tolower y" using tolower_NUL [of NUL] by simp
  then show ?case using Cons by (cases a) auto
qed simp

lemma blank_space: "c \<in> set BLANKS \<Longrightarrow> isspace c"
  by (auto simp: BLANKS_def isspace_def byte_def)

lemma bare_char_facts: "bare_char c \<Longrightarrow> c \<noteq> DQUOTE \<and> c \<noteq> CHR '','' \<and> \<not> isspace c \<and> c \<notin> set BLANKS"
  using blank_space by (auto simp: bare_char_def)

lemma step_quote:
  assumes "p < length H" and "H ! p = DQUOTE"
  shows "find_parameter_loop name H q p = find_parameter_loop name H (\<not> q) (p + 1)"
  using assms by (subst find_parameter_loop.simps) simp

lemma step_quoted:
  assumes "p < length H" and "H ! p \<noteq> DQUOTE" and "H ! p \<noteq> CHR 0x5C"
  shows "find_parameter_loop name H True p = find_parameter_loop name H True (p + 1)"
  using assms by (subst find_parameter_loop.simps) simp

lemma step_inside:
  assumes "p < length H" and "H ! p \<noteq> DQUOTE" and "0 < p" and "H ! (p - 1) \<noteq> CHR '',''" and "\<not> isspace (H ! (p - 1))"
  shows "find_parameter_loop name H False p = find_parameter_loop name H False (p + 1)"
  using assms by (subst find_parameter_loop.simps) simp

lemma run_quoted:
  "quoted_ok v \<Longrightarrow> find_parameter_loop name (pre @ v @ rest) True (length pre) =
    find_parameter_loop name (pre @ v @ rest) True (length pre + length v)"
proof (induction v arbitrary: pre)
  case (Cons c v)
  have "find_parameter_loop name (pre @ (c # v) @ rest) True (length pre) =
      find_parameter_loop name (pre @ (c # v) @ rest) True (length pre + 1)"
    using Cons.prems by (intro step_quoted) (auto simp: quoted_ok_def nth_append)
  also have "\<dots> = find_parameter_loop name (pre @ (c # v) @ rest) True (length pre + length (c # v))"
    using Cons.IH [of "pre @ [c]"] Cons.prems by (simp add: quoted_ok_def)
  finally show ?case .
qed simp

lemma run_bare:
  "pre \<noteq> [] \<Longrightarrow> bare_char (last pre) \<Longrightarrow> bare_ok v \<Longrightarrow>
    find_parameter_loop name (pre @ v @ rest) False (length pre) =
    find_parameter_loop name (pre @ v @ rest) False (length pre + length v)"
proof (induction v arbitrary: pre)
  case (Cons c v)
  have c: "bare_char c" "bare_ok v" using Cons.prems by (auto simp: bare_ok_def)
  have "(pre @ (c # v) @ rest) ! (length pre - 1) = last pre"
    using Cons.prems(1) by (simp add: nth_append last_conv_nth)
  then have "find_parameter_loop name (pre @ (c # v) @ rest) False (length pre) =
      find_parameter_loop name (pre @ (c # v) @ rest) False (length pre + 1)"
    using Cons.prems c(1) by (intro step_inside) (auto simp: bare_char_def nth_append)
  also have "\<dots> = find_parameter_loop name (pre @ (c # v) @ rest) False (length pre + length (c # v))"
    using Cons.IH [of "pre @ [c]"] c by simp
  finally show ?case .
qed simp

lemma span_here: "p \<le> length s \<Longrightarrow> p = length s \<or> s ! p \<notin> set cs \<Longrightarrow> span s p cs = p"
  by (cases "drop p s") (auto simp: span_def dest: nth_via_drop)

text \<open>A name that is not the one looked for is passed over.\<close>

lemma other_name:
  assumes n: "name_ok n" and name: "name_ok name" and no: "\<not> eq_nocase name n"
    and x: "x = CHR ''='' \<or> isspace x" and H_def: "H = pre @ n @ x # rest"
  shows "find_parameter_loop name H False (length pre) = find_parameter_loop name H False (length pre + 1)"
proof -
  obtain c m where cm: "n = c # m" using n by (cases n) (auto simp: name_ok_def)
  have c: "H ! length pre = c" "c \<noteq> DQUOTE" "length pre < length H"
    using n cm by (auto simp: H_def name_ok_def bare_ok_def bare_char_def nth_append)
  have "\<not> (span H (length pre + length name) BLANKS < length H \<and> H ! span H (length pre + length name) BLANKS = CHR ''='')"
    if eq: "strncasecmp_eq (length name) (drop (length pre) H) name"
  proof -
    have d: "drop (length pre) H = n @ x # rest" by (simp add: H_def)
    have m: "map tolower (take (length name) (n @ x # rest)) = map tolower name"
      using eq strncasecmp_conv [of name "n @ x # rest"] name by (simp add: d name_ok_def)
    have lt: "length name < length n"
    proof (rule ccontr)
      assume "\<not> length name < length n"
      then consider "length name = length n" | "length n < length name" by linarith
      then show False
      proof cases
        case 1
        then show False using m no by (simp add: eq_nocase_def)
      next
        case 2
        then have "tolower (name ! length n) = tolower x"
          using m by (metis nth_append_length nth_map nth_take length_map length_take min.absorb2 \<open>length n < length name\<close> length_append less_imp_le_nat)
        moreover have "name ! length n \<in> set name" using 2 by simp
        then have "bare_char (name ! length n)" "name ! length n \<noteq> CHR ''=''"
          using name by (auto simp: name_ok_def bare_ok_def list_all_iff)
        ultimately show False using x
          by (auto simp: tolower_def isupper_def isspace_def bare_char_def byte_def split: if_splits dest!: arg_cong [of _ _ byte])
      qed
    qed
    then have "H ! (length pre + length name) = n ! length name" by (simp add: H_def nth_append)
    moreover have "n ! length name \<in> set n" using lt by simp
    then have "bare_char (n ! length name)" "n ! length name \<noteq> CHR ''=''"
      using n by (auto simp: name_ok_def bare_ok_def list_all_iff)
    moreover have "length pre + length name \<le> length H" using lt by (simp add: H_def)
    ultimately show ?thesis using span_here [of "length pre + length name" H BLANKS] bare_char_facts by auto
  qed
  then show ?thesis using c by (subst find_parameter_loop.simps) (auto simp: Let_def)
qed

lemma this_name:
  assumes name: "name_ok name" and eq: "eq_nocase name n"
    and before: "pre = [] \<or> last pre = CHR '','' \<or> isspace (last pre)"
    and n: "name_ok n" and H: "H = pre @ n @ CHR ''='' # rest" and rest: "rest = [] \<or> hd rest \<notin> set BLANKS"
  shows "find_parameter_loop name H False (length pre) = Some (length pre + length n + 1)"
proof -
  have len: "length name = length n" using eq map_eq_imp_length_eq by (auto simp: eq_nocase_def)
  obtain c m where cm: "n = c # m" using n by (cases n) (auto simp: name_ok_def)
  have c: "H ! length pre = c" "c \<noteq> DQUOTE" "length pre < length H"
    using n cm by (auto simp: H name_ok_def bare_ok_def bare_char_def nth_append)
  have b: "length pre = 0 \<or> H ! (length pre - 1) = CHR '','' \<or> isspace (H ! (length pre - 1))"
    using before by (cases pre rule: rev_cases) (auto simp: H nth_append)
  have "strncasecmp_eq (length name) (drop (length pre) H) name"
    using strncasecmp_conv [of name "drop (length pre) H"] name eq len by (simp add: H name_ok_def eq_nocase_def)
  moreover have e: "H ! (length pre + length n) = CHR ''=''" "length pre + length n < length H"
    by (simp_all add: H nth_append)
  have "span H (length pre + length name) BLANKS = length pre + length n"
    using e len by (subst span_here) (auto simp: BLANKS_def)
  moreover have "H ! (length pre + length n + 1) = hd rest" if "rest \<noteq> []"
    using that by (simp add: H nth_append hd_conv_nth)
  then have "span H (length pre + length n + 1) BLANKS = length pre + length n + 1"
    using rest by (intro span_here) (auto simp: H)
  ultimately show ?thesis using b c e len
    by (subst find_parameter_loop.simps) (auto simp: Let_def H)
qed

text \<open>The value that starts at a position.\<close>

definition value_at :: "string \<Rightarrow> nat \<Rightarrow> string" where
  "value_at header start =
     (if start < length header \<and> header ! start = DQUOTE
      then let stop = cspan header (start + 1) [DQUOTE] in take (stop - (start + 1)) (drop (start + 1) header)
      else let stop = cspan header start [SP, CHR '','', DQUOTE, CR, LF] in take (stop - start) (drop start header))"

lemma cspan_value: "start \<le> length H \<Longrightarrow>
    take (cspan H start cs - start) (drop start H) = takeWhile (\<lambda>c. c \<notin> set cs) (drop start H)"
proof -
  assume le: "start \<le> length H"
  have "length (takeWhile (\<lambda>c. c \<notin> set cs) (drop start H)) \<le> length H - start"
    using length_takeWhile_le [of _ "drop start H"] by simp
  then have "cspan H start cs - start = length (takeWhile (\<lambda>c. c \<notin> set cs) (drop start H))"
    using le by (simp add: cspan_def)
  then show ?thesis by (metis takeWhile_eq_take)
qed

lemma value_quoted:
  assumes "H = pre @ DQUOTE # v @ DQUOTE # rest" and "DQUOTE \<notin> set v"
  shows "value_at H (length pre) = v"
proof -
  have "drop (length pre + 1) H = v @ DQUOTE # rest" using assms(1) by simp
  then show ?thesis using assms cspan_value [of "length pre + 1" H "[DQUOTE]"]
    by (simp add: value_at_def Let_def takeWhile_append nth_append takeWhile_eq_all_conv)
qed

lemma value_bare:
  assumes H: "H = pre @ v @ rest" and v: "bare_ok v" and rest: "rest = [] \<or> hd rest = CHR '',''"
  shows "value_at H (length pre) = v"
proof -
  have no: "c \<notin> set [SP, CHR '','', DQUOTE, CR, LF]" if "c \<in> set v" for c
  proof -
    have "bare_char c" using v that by (simp add: bare_ok_def list_all_iff)
    moreover have "isspace SP" "isspace CR" "isspace LF" by (simp_all add: isspace_def byte_def)
    ultimately show ?thesis by (auto simp: bare_char_def)
  qed
  have t: "takeWhile (\<lambda>c. c \<notin> set [SP, CHR '','', DQUOTE, CR, LF]) (v @ rest) = v"
  proof -
    have "takeWhile (\<lambda>c. c \<notin> set [SP, CHR '','', DQUOTE, CR, LF]) rest = []" using rest by (cases rest) auto
    then show ?thesis using no by (subst takeWhile_append2) auto
  qed
  have "\<not> (length pre < length H \<and> H ! length pre = DQUOTE)"
  proof (cases v)
    case Nil
    then show ?thesis using rest by (cases rest) (auto simp: H)
  next
    case (Cons c w)
    then show ?thesis using no [of c] by (auto simp: H nth_append)
  qed
  then have "value_at H (length pre) = take (cspan H (length pre) [SP, CHR '','', DQUOTE, CR, LF] - length pre) (drop (length pre) H)"
    unfolding value_at_def Let_def by (rule if_not_P)
  also have "\<dots> = v" using cspan_value [of "length pre" H] t by (simp add: H)
  finally show ?thesis .
qed

section \<open>Parameters are read back\<close>

lemma items_text_Cons: "items_text (i # is) = item_text i @ (if is = [] then [] else CHR '','' # items_text is)"
  by (cases "is") auto

lemma blank_DQUOTE [simp]: "DQUOTE \<notin> set BLANKS" "CHR '','' \<notin> set BLANKS"
  by (simp_all add: BLANKS_def)

lemma bare_rest: "bare_ok v \<Longrightarrow> r = [] \<or> hd r = CHR '','' \<Longrightarrow> v @ r = [] \<or> hd (v @ r) \<notin> set BLANKS"
  using bare_char_facts by (cases v) (auto simp: bare_ok_def)

text \<open>Past a parameter with another name, to the comma after it.\<close>

lemma past_item:
  assumes ok: "item_ok (n, q, v)" and name: "name_ok name" and no: "\<not> eq_nocase name n"
    and H: "H = pre @ item_text (n, q, v) @ rest"
  shows "find_parameter_loop name H False (length pre) = find_parameter_loop name H False (length (pre @ item_text (n, q, v)))"
proof -
  have n: "name_ok n" using ok by simp
  obtain c m where cm: "n = c # m" using n by (cases n) (auto simp: name_ok_def)
  have bare: "bare_char c" "bare_ok m" "bare_char CHR ''=''"
    using n cm by (auto simp: name_ok_def bare_ok_def bare_char_def isspace_def byte_def)
  have "find_parameter_loop name H False (length pre) = find_parameter_loop name H False (length (pre @ [c]))"
    using other_name [OF n name no, of "CHR ''=''" H pre "(if q then DQUOTE # v @ [DQUOTE] else v) @ rest"] H by simp
  also have "\<dots> = find_parameter_loop name H False (length (pre @ n @ ''=''))"
    using run_bare [of "pre @ [c]" "m @ ''=''" name "(if q then DQUOTE # v @ [DQUOTE] else v) @ rest"] bare cm H
    by (simp add: bare_ok_def)
  also have "\<dots> = find_parameter_loop name H False (length (pre @ item_text (n, q, v)))"
  proof (cases q)
    case False
    then show ?thesis
      using run_bare [of "pre @ n @ ''=''" v name rest] ok bare H by (simp add: add.assoc)
  next
    case True
    have "find_parameter_loop name H False (length (pre @ n @ ''='')) = find_parameter_loop name H True (length (pre @ n @ ''='' @ [DQUOTE]))"
      using step_quote [of "length (pre @ n @ ''='')" H name False] True H by (simp add: nth_append)
    also have "\<dots> = find_parameter_loop name H True (length (pre @ n @ ''='' @ [DQUOTE] @ v))"
      using run_quoted [of v name "pre @ n @ ''='' @ [DQUOTE]" "DQUOTE # rest"] True ok H by (simp add: add.assoc)
    also have "\<dots> = find_parameter_loop name H False (length (pre @ item_text (n, q, v)))"
      using step_quote [of "length (pre @ n @ ''='' @ [DQUOTE] @ v)" H name True] True H by (simp add: nth_append)
    finally show ?thesis .
  qed
  finally show ?thesis .
qed

lemma last_item:
  assumes "item_ok (n, q, v)"
  shows "item_text (n, q, v) \<noteq> [] \<and> (bare_char (last (item_text (n, q, v))) \<or> last (item_text (n, q, v)) = DQUOTE)"
proof -
  have "bare_char CHR ''=''" by (simp add: bare_char_def isspace_def byte_def)
  then show ?thesis using assms by (cases v rule: rev_cases) (auto simp: bare_ok_def)
qed

lemma nth_before: "xs \<noteq> [] \<Longrightarrow> (xs @ ys) ! (length xs - 1) = last xs"
  by (simp add: nth_append last_conv_nth)

lemma items_read:
  assumes "\<forall>i\<in>set is. item_ok i" and name: "name_ok name"
    and "pre \<noteq> []" and "last pre = CHR '','' \<or> isspace (last pre)" and "H = pre @ items_text is"
  shows "(case find_parameter_loop name H False (length pre) of None \<Rightarrow> [] | Some p \<Rightarrow> value_at H p) = item_value name is"
  using assms
proof (induction "is" arbitrary: pre)
  case Nil
  then show ?case by (subst find_parameter_loop.simps) simp
next
  case (Cons i "is")
  obtain n q v where i: "i = (n, q, v)" by (cases i)
  define r where "r = (if is = [] then [] else CHR '','' # items_text is)"
  have H: "H = pre @ item_text (n, q, v) @ r" using Cons.prems(5) by (simp only: items_text_Cons i r_def)
  have ok: "item_ok (n, q, v)" "name_ok n" using Cons.prems(1) i by auto
  have r: "r = [] \<or> hd r = CHR '',''" by (simp add: r_def)
  show ?case
  proof (cases "eq_nocase name n")
    case True
    let ?w = "(if q then DQUOTE # v @ [DQUOTE] else v)"
    have H': "H = pre @ n @ CHR ''='' # ?w @ r" using H by simp
    have "?w @ r = [] \<or> hd (?w @ r) \<notin> set BLANKS" using bare_rest [OF _ r, of v] ok by auto
    then have "find_parameter_loop name H False (length pre) = Some (length (pre @ n @ ''=''))"
      using this_name [OF name True _ ok(2) H'] Cons.prems(4) by auto
    moreover have "value_at H (length (pre @ n @ ''='')) = v"
    proof (cases q)
      case True
      then show ?thesis using value_quoted [of H "pre @ n @ ''=''" v r] ok H' by (simp add: quoted_ok_def)
    next
      case False
      then show ?thesis using value_bare [of H "pre @ n @ ''=''" v r] ok H' r by simp
    qed
    ultimately show ?thesis using True i by simp
  next
    case False
    note past = past_item [OF ok(1) name False H]
    show ?thesis
    proof (cases "is")
      case Nil
      then have "length (pre @ item_text (n, q, v)) = length H" using H by (simp add: r_def)
      then have "find_parameter_loop name H False (length (pre @ item_text (n, q, v))) = None"
        by (subst find_parameter_loop.simps) simp
      then show ?thesis using past False i Nil by simp
    next
      case Cons
      let ?p = "pre @ item_text (n, q, v)"
      have c: "H ! length ?p = CHR '',''" "length ?p < length H" "H = (?p @ '','') @ items_text is"
        using H Cons by (auto simp: r_def nth_append)
      have ne: "?p \<noteq> []" "bare_char (last ?p) \<or> last ?p = DQUOTE" using last_item [OF ok(1)] by (auto simp del: item_text.simps)
      then have l: "0 < length ?p" "H ! (length ?p - 1) = last ?p"
        using nth_before [OF ne(1), of "'','' @ items_text is"] c(3) by (simp_all del: item_text.simps)
      have "find_parameter_loop name H False (length ?p) = find_parameter_loop name H False (length (?p @ '',''))"
        using step_inside [of "length ?p" H name] c l ne(2) by (auto simp: bare_char_def isspace_def byte_def simp del: item_text.simps)
      then show ?thesis using Cons.IH [of "?p @ '',''"] Cons.prems(1) name c(3) past False i by simp
    qed
  qed
qed

text \<open>The credentials of a Digest header.\<close>

lemma digest_parameter:
  assumes "\<forall>i\<in>set is. item_ok i" and name: "name_ok name" and no: "\<not> eq_nocase name ''Digest''"
  shows "getAuthParameter name (''Digest '' @ items_text is) = item_value name is"
proof -
  let ?H = "''Digest '' @ items_text is"
  have D: "name_ok ''Digest''" by (simp add: name_ok_def bare_ok_def bare_char_def isspace_def byte_def)
  have "find_parameter_loop name ?H False 0 = find_parameter_loop name ?H False (length ''D'')"
    using other_name [OF D name no, of SP ?H "[]"] by (simp add: isspace_def byte_def)
  also have "\<dots> = find_parameter_loop name ?H False (length ''Digest'')"
    using run_bare [of "''D''" "''igest''" name "'' '' @ items_text is"]
    by (simp add: bare_ok_def bare_char_def isspace_def byte_def)
  also have "\<dots> = find_parameter_loop name ?H False (length ''Digest '')"
    using step_inside [of 6 ?H name] by (simp add: isspace_def byte_def numeral_eq_Suc)
  finally have "find_parameter_loop name ?H False 0 = find_parameter_loop name ?H False (length ''Digest '')" .
  then show ?thesis using items_read [OF assms(1) name, of "''Digest ''" ?H]
    by (simp add: getAuthParameter_def findAuthParameter_def value_at_def isspace_def byte_def cong: option.case_cong)
qed

section \<open>A response is accepted\<close>

lemma lower_hex_bare: "j < 16 \<Longrightarrow> bare_char (lower_hex j) \<and> lower_hex j \<noteq> CHR 0x5C"
proof -
  have "list_all (\<lambda>j. bare_char (lower_hex j) \<and> lower_hex j \<noteq> CHR 0x5C) [0..<16]"
    by (simp add: upt_rec lower_hex_def bare_char_def isspace_def char_of_def bit_Suc_0_iff byte_def)
  then show "j < 16 \<Longrightarrow> ?thesis" by (rule all_below)
qed

lemma nibble: "n AND 0xf < (16 :: nat)"
proof -
  have "(0xf :: nat) = mask 4" by (simp add: mask_eq_exp_minus_1)
  then have "n AND 0xf = take_bit 4 n" by (simp only: take_bit_eq_mask)
  then show ?thesis by (simp add: take_bit_eq_mod)
qed

lemma hashToHex_ok: "bare_ok (hashToHex b) \<and> quoted_ok (hashToHex b)"
proof (induction b)
  case (Cons c b)
  then show ?case
    using lower_hex_bare [OF nibble, of "drop_bit 4 (byte c)"] lower_hex_bare [OF nibble, of "byte c"]
    by (auto simp: bare_ok_def quoted_ok_def bare_char_def)
qed (simp add: bare_ok_def quoted_ok_def)

lemma print_08x_ok: "bare_ok (print_08x n)" "quoted_ok (print_08x n)" "print_08x n \<noteq> []"
proof -
  have "bare_char (lower_hex (m mod 16)) \<and> lower_hex (m mod 16) \<noteq> CHR 0x5C" for m by (rule lower_hex_bare) simp
  then have "\<forall>c\<in>set (print_08x n). bare_char c \<and> c \<noteq> CHR 0x5C" by (auto simp: print_08x_def)
  then show "bare_ok (print_08x n)" "quoted_ok (print_08x n)" "print_08x n \<noteq> []"
    by (auto simp: bare_ok_def quoted_ok_def list_all_iff bare_char_def print_08x_def)
qed

text \<open>What is read from a header has none but its characters, and no quote.\<close>

lemma parameter_chars: "set (getAuthParameter name H) \<subseteq> set H - {DQUOTE}"
proof -
  have le: "findAuthParameter name H = Some p \<Longrightarrow> p \<le> length H" for p
  proof -
    have "find_parameter_loop name H q p' = Some p \<Longrightarrow> p \<le> length H" for q p'
      by (induction name H q p' rule: find_parameter_loop.induct)
        (subst (asm) (5) find_parameter_loop.simps, auto simp: Let_def span_le split: if_splits)
    then show "findAuthParameter name H = Some p \<Longrightarrow> ?thesis" by (simp add: findAuthParameter_def)
  qed
  have tw: "set (takeWhile (\<lambda>c. c \<notin> set cs) (drop p H)) \<subseteq> set H - {DQUOTE}" if "DQUOTE \<in> set cs" for cs p
    using that by (auto dest: set_takeWhileD in_set_dropD)
  show ?thesis
  proof (cases "findAuthParameter name H")
    case (Some p)
    have "getAuthParameter name H = value_at H p" using Some by (simp add: getAuthParameter_def value_at_def)
    also have "set \<dots> \<subseteq> set H - {DQUOTE}"
    proof (cases "p < length H \<and> H ! p = DQUOTE")
      case True
      then have "value_at H p = takeWhile (\<lambda>c. c \<notin> set [DQUOTE]) (drop (p + 1) H)"
        using cspan_value [of "p + 1" H "[DQUOTE]"] by (simp add: value_at_def Let_def)
      then show ?thesis using tw [of "[DQUOTE]" "p + 1"] by simp
    next
      case False
      then have "value_at H p = takeWhile (\<lambda>c. c \<notin> set [SP, CHR '','', DQUOTE, CR, LF]) (drop p H)"
        using cspan_value [OF le [OF Some], of "[SP, CHR '','', DQUOTE, CR, LF]"] unfolding value_at_def Let_def
        by (subst if_not_P) simp_all
      then show ?thesis using tw [of "[SP, CHR '','', DQUOTE, CR, LF]" p] by simp
    qed
    finally show ?thesis .
  qed (simp add: getAuthParameter_def)
qed

lemma bare_char_byte: "bare_char c \<longleftrightarrow> byte c \<noteq> 32 \<and> \<not> (9 \<le> byte c \<and> byte c \<le> 13) \<and> byte c \<noteq> 44 \<and> byte c \<noteq> 34"
proof -
  have "byte (CHR '','') = 44" "byte DQUOTE = 34" by (simp_all add: byte_def)
  then have "c = CHR '','' \<longleftrightarrow> byte c = 44" "c = DQUOTE \<longleftrightarrow> byte c = 34" by (metis byte_eq)+
  then show ?thesis by (auto simp: bare_char_def isspace_def)
qed

lemma bare_tolower: "bare_char (tolower c) \<longleftrightarrow> bare_char c"
  by (auto simp: bare_char_byte tolower_def isupper_def)

lemma algorithm_bare:
  assumes "digestAlgorithm algo = Some a"
  shows "bare_ok algo" and "algo \<noteq> []"
proof -
  have a: "a \<in> set digestAlgorithms" "equalNoCase algo (fst a)"
    using assms by (auto simp: digestAlgorithm_def find_Some_iff)
  have names: "\<forall>n\<in>fst ` set digestAlgorithms. bare_ok n \<and> n \<noteq> [] \<and> NUL \<notin> set n"
    by (simp add: digestAlgorithms_def bare_ok_def bare_char_def isspace_def byte_def)
  have "map tolower algo = map tolower (fst a)"
    using a names strncasecmp_conv [of "fst a" algo] by (auto simp: equalNoCase_def)
  moreover have "list_all bare_char (map tolower (fst a))"
    using a(1) names by (auto simp: bare_ok_def list_all_iff bare_tolower)
  ultimately have "list_all bare_char (map tolower algo)" by simp
  then show "bare_ok algo" by (auto simp: bare_ok_def list_all_iff bare_tolower)
  show "algo \<noteq> []" using a names by (auto simp: equalNoCase_def)
qed

text \<open>The parameters of the header that \<open>createAuthHeaderDigest\<close> makes.\<close>

definition digest_items :: "account \<Rightarrow> account \<Rightarrow> nonce_text \<Rightarrow> nonce_text \<Rightarrow> qop_text \<Rightarrow> uri_text \<Rightarrow> nonce_text \<Rightarrow> string \<Rightarrow> string \<Rightarrow> string \<Rightarrow> auth_item list" where
  "digest_items user realm cnonce nc authtype sipuri nonce resp algo opaque =
     [(''username'', True, user), (''realm'', True, realm)] @
     (if cnonce \<noteq> [] then [(''cnonce'', True, cnonce), (''nc'', False, nc), (''qop'', False, authtype)] else []) @
     [(''uri'', True, sipuri), (''nonce'', True, nonce), (''response'', True, resp), (''algorithm'', False, algo)] @
     (if opaque \<noteq> [] then [(''opaque'', True, opaque)] else [])"

lemma digest_names: "list_all name_ok [''username'', ''realm'', ''cnonce'', ''nc'', ''qop'', ''uri'', ''nonce'', ''response'', ''algorithm'', ''opaque'']"
  by (simp add: name_ok_def bare_ok_def bare_char_def isspace_def byte_def)

lemma digest_values:
  assumes "list_all quoted_ok [user, realm, cnonce, sipuri, nonce, resp, opaque]" and "list_all bare_ok [nc, authtype, algo]"
  shows "list_all (\<lambda>(name, v). getAuthParameter name (''Digest '' @ items_text (digest_items user realm cnonce nc authtype sipuri nonce resp algo opaque)) = v)
    [(''realm'', realm), (''cnonce'', cnonce), (''nc'', if cnonce = [] then [] else nc), (''qop'', if cnonce = [] then [] else authtype),
     (''uri'', sipuri), (''nonce'', nonce), (''response'', resp), (''algorithm'', algo)]"
proof -
  let ?is = "digest_items user realm cnonce nc authtype sipuri nonce resp algo opaque"
  define H where "H = ''Digest '' @ items_text ?is"
  have "\<forall>i\<in>set ?is. item_ok i" using assms digest_names by (auto simp: digest_items_def)
  then have get: "getAuthParameter n H = item_value n ?is" if "name_ok n" "\<not> eq_nocase n ''Digest''" for n
    using digest_parameter that unfolding H_def by blast
  have "list_all (\<lambda>(name, v). item_value name ?is = v)
    [(''realm'', realm), (''cnonce'', cnonce), (''nc'', if cnonce = [] then [] else nc), (''qop'', if cnonce = [] then [] else authtype),
     (''uri'', sipuri), (''nonce'', nonce), (''response'', resp), (''algorithm'', algo)]"
    by (simp add: digest_items_def eq_nocase_def tolower_def isupper_def byte_def)
  moreover have "list_all (\<lambda>n. \<not> eq_nocase n ''Digest'') [''realm'', ''cnonce'', ''nc'', ''qop'', ''uri'', ''nonce'', ''response'', ''algorithm'']"
    by (simp add: eq_nocase_def tolower_def isupper_def byte_def)
  ultimately show ?thesis using digest_names unfolding H_def [symmetric] by (simp add: get)
qed

lemma createAuthResponse_hex:
  assumes "createAuthResponse lib u md sess user password meth uri authtype msgbody realm nonce cnonce nc = Some r"
  shows "r \<noteq> [] \<and> quoted_ok r"
proof -
  have "quoted_ok (digest_hex lib md t)" for t
    using hashToHex_ok by (auto simp: digest_hex_def quoted_ok_def split: option.splits)
  then show ?thesis using assms by (auto simp: createAuthResponse_def Let_def split: if_splits)
qed

lemma digest_header_made:
  assumes "createAuthHeaderDigest lib u rd md sess user password meth uri msgbody auth algo nonce_count = Inr h"
  obtains cnonce nc resp where
    "cnonce = (if the_qop (getAuthParameter ''qop'' auth) = [] then [] else print_08x (fst rd) @ print_08x (snd rd))"
    and "nc = (if cnonce = [] then [] else print_08x nonce_count)" and "sess \<longrightarrow> cnonce \<noteq> []"
    and "createAuthResponse lib u md sess user password meth (''sip:'' @ (case u of Some x \<Rightarrow> x | None \<Rightarrow> uri))
      (the_qop (getAuthParameter ''qop'' auth)) msgbody (getAuthParameter ''realm'' auth) (getAuthParameter ''nonce'' auth) cnonce nc = Some resp"
    and "h = ''Digest '' @ items_text (digest_items user (getAuthParameter ''realm'' auth) cnonce nc (the_qop (getAuthParameter ''qop'' auth))
      (''sip:'' @ (case u of Some x \<Rightarrow> x | None \<Rightarrow> uri)) (getAuthParameter ''nonce'' auth) resp algo (getAuthParameter ''opaque'' auth))"
proof -
  let ?q = "the_qop (getAuthParameter ''qop'' auth)"
  define cnonce where "cnonce = (if ?q = [] then [] else print_08x (fst rd) @ print_08x (snd rd))"
  define nc where "nc = (if cnonce = [] then [] else print_08x nonce_count)"
  have nc: "nc = (if ?q = [] then [] else print_08x nonce_count)" by (simp add: nc_def cnonce_def print_08x_ok)
  from assms obtain resp where
    r: "createAuthResponse lib u md sess user password meth (''sip:'' @ (case u of Some x \<Rightarrow> x | None \<Rightarrow> uri))
      ?q msgbody (getAuthParameter ''realm'' auth) (getAuthParameter ''nonce'' auth) cnonce nc = Some resp" and s: "sess \<longrightarrow> cnonce \<noteq> []"
    and h: "h = ''Digest username='' @ [DQUOTE] @ user @ [DQUOTE] @ '',realm='' @ [DQUOTE] @ getAuthParameter ''realm'' auth @ [DQUOTE] @
                (if cnonce \<noteq> [] then '',cnonce='' @ [DQUOTE] @ cnonce @ [DQUOTE] @ '',nc='' @ nc @ '',qop='' @ ?q else []) @
                '',uri='' @ [DQUOTE] @ (''sip:'' @ (case u of Some x \<Rightarrow> x | None \<Rightarrow> uri)) @ [DQUOTE] @ '',nonce='' @ [DQUOTE] @ getAuthParameter ''nonce'' auth @ [DQUOTE] @
                '',response='' @ [DQUOTE] @ resp @ [DQUOTE] @ '',algorithm='' @ algo @
                (if getAuthParameter ''opaque'' auth \<noteq> [] then '',opaque='' @ [DQUOTE] @ getAuthParameter ''opaque'' auth @ [DQUOTE] else [])"
    unfolding createAuthHeaderDigest_def Let_def cnonce_def [symmetric] nc [symmetric] by (auto split: if_splits option.splits)
  show ?thesis
    by (rule that [OF cnonce_def nc_def s r]) (simp add: h digest_items_def)
qed


text \<open>A library and a challenge to try the statement on.\<close>

definition some_lib :: ssl_lib where
  "some_lib = \<lparr>has_sha512_256 = False, evp_digest = (\<lambda>md s. Some ''ab''), evp_aes128 = (\<lambda>k x. x), evp_decode_block = Some\<rparr>"

definition some_items :: "auth_item list" where
  "some_items = [(''realm'', True, ''r''), (''nonce'', True, ''n''), (''qop'', True, ''auth'')]"

lemma some_parameter: "name_ok n \<Longrightarrow> \<not> eq_nocase n ''Digest'' \<Longrightarrow>
    getAuthParameter n (''Digest '' @ items_text some_items) = item_value n some_items"
  by (rule digest_parameter)
    (auto simp: some_items_def name_ok_def bare_ok_def bare_char_def quoted_ok_def isspace_def byte_def)

lemma some_parameters:
  "list_all (\<lambda>(n, v). getAuthParameter n (''Digest '' @ items_text some_items) = v)
    [(''algorithm'', []), (''qop'', ''auth''), (''opaque'', []), (''realm'', ''r''), (''nonce'', ''n'')]"
proof -
  define H where "H = ''Digest '' @ items_text some_items"
  have "list_all (\<lambda>(n, v). \<not> eq_nocase n ''Digest'' \<and> item_value n some_items = v)
    [(''algorithm'', []), (''qop'', ''auth''), (''opaque'', []), (''realm'', ''r''), (''nonce'', ''n'')]"
    by (simp add: some_items_def eq_nocase_def tolower_def isupper_def byte_def)
  then show ?thesis using digest_names some_parameter unfolding H_def [symmetric] by simp
qed


section \<open>AKA\<close>

lemma u8_char [simp]: "u8_of (char_of_u8 b) = b"
proof -
  have "unat b < 2 ^ LENGTH(8)" by (rule unsigned_less)
  then show ?thesis by (simp add: u8_of_def char_of_u8_def)
qed

lemma getAKAKey_length [simp]: "length (getAKAKey t n) = n"
  by (simp add: getAKAKey_def Let_def)

lemma bxor_twice: "length a = length b \<Longrightarrow> bxor (bxor a b) b = a"
  by (intro nth_equalityI) (simp_all add: xor.assoc)

text \<open>The response and the anonymity key of the standard, and its authentication code.\<close>

definition spec_RES :: "aes \<Rightarrow> u8 list \<Rightarrow> u8 list \<Rightarrow> u8 list \<Rightarrow> u8 list" where
  "spec_RES E k op rand = drop 8 (OUTn E k op rand 0 1)"

definition spec_AK :: "aes \<Rightarrow> u8 list \<Rightarrow> u8 list \<Rightarrow> u8 list \<Rightarrow> u8 list" where
  "spec_AK E k op rand = take 6 (OUTn E k op rand 0 1)"

definition spec_MAC :: "aes \<Rightarrow> u8 list \<Rightarrow> u8 list \<Rightarrow> u8 list \<Rightarrow> u8 list \<Rightarrow> u8 list \<Rightarrow> u8 list" where
  "spec_MAC E k op rand sqn amf = take 8 (OUT1 E k op rand sqn amf)"

lemma f2345_spec:
  assumes "block_cipher E" and "aka_sizes k op rand"
  shows "\<exists>ck ik. f2345 E k rand op = (spec_RES E k op rand, ck, ik, spec_AK E k op rand)"
proof -
  have out: "out_of E k (TEMP E k op rand) (OPc E k op) 0 1 = OUTn E k op rand 0 1"
    using out_of_eq(1) [OF assms, of 0 1] length_TEMP [OF assms] length_OPc [OF assms] by (simp add: OUTn_def rotate_id)
  have "copied 8 8 (OUTn E k op rand 0 1) = spec_RES E k op rand" "copied 6 0 (OUTn E k op rand 0 1) = spec_AK E k op rand"
    using out_of_eq(2) [OF assms, of 0 0 1] by (simp_all add: copied_take spec_RES_def spec_AK_def)
  then show ?thesis by (simp add: f2345_def Let_def ComputeOPc_eq [OF assms] temp_of_eq [OF assms] out)
qed

lemma f1_spec:
  assumes "block_cipher E" and "aka_sizes k op rand" and "length sqn = 6" and "length amf = 2"
  shows "f1 E k rand sqn amf op = spec_MAC E k op rand sqn amf"
  using out1_of_eq [OF assms] by (simp add: f1_def copied_take spec_MAC_def)

text \<open>
  C35: AKA. The nonce of an AKA challenge holds a random number, a sequence number hidden by the
  anonymity key, a management field and an authentication code. The answer is made, with the response
  of the standard (3GPP TS 35.206) as the password and the sequence number noted, exactly when the
  code is the one of the standard for the secret key, the random number, the sequence number and the field; for
  any other code the answer is the error that the server does not know the secret, and nothing is noted.
\<close>

theorem aka_challenge_checked:
  assumes E: "block_cipher (evp_aes128 lib)"
    and sizes: "length rand = 16" "length sqn = 6" "length amf = 2" "length mac = 8"
    and k: "k = getAKAKey aka_K 16" and op: "op = getAKAKey aka_OP 16"
    and given: "getAuthParameter ''nonce'' auth \<noteq> []"
    and nonce: "base64_decode_string lib (getAuthParameter ''nonce'' auth) =
      map char_of_u8 (rand @ bxor sqn (spec_AK (evp_aes128 lib) k op rand) @ amf @ mac)"
  shows "createAuthHeaderAKAv1MD5 lib auth_uri rd sqn_he user aka_OP aka_K meth uri msgbody auth algo nonce_count =
    (if mac = spec_MAC (evp_aes128 lib) k op rand sqn amf
     then (case createAuthHeaderDigest lib auth_uri rd EVP_md5 False user
               (map char_of_u8 (spec_RES (evp_aes128 lib) k op rand)) meth uri msgbody auth algo nonce_count of
             Inl _ \<Rightarrow> Inl (''createAuthHeaderAKAv1MD5 : Unexpected return value from createAuthHeaderDigest'' @ [LF])
           | Inr h \<Rightarrow> Inr h, sqn_he[5 := sqn ! 5])
     else (Inl MAC_error, sqn_he))"
proof -
  let ?E = "evp_aes128 lib" and ?ak = "spec_AK (evp_aes128 lib) k op rand"
  have s: "aka_sizes k op rand" using sizes k op by (simp add: aka_sizes_def)
  have ak: "length ?ak = 6" using out_of_eq(2) [OF E s, of 0 0 1] by (simp add: spec_AK_def)
  obtain ck ik where f: "f2345 ?E k rand op = (spec_RES ?E k op rand, ck, ik, ?ak)"
    using f2345_spec [OF E s] by blast
  have parts: "map u8_of (take 16 (map char_of_u8 (rand @ bxor sqn ?ak @ amf @ mac))) = rand"
    "map u8_of (take 6 (drop 16 (map char_of_u8 (rand @ bxor sqn ?ak @ amf @ mac)))) = bxor sqn ?ak"
    "map u8_of (take 2 (drop 22 (map char_of_u8 (rand @ bxor sqn ?ak @ amf @ mac)))) = amf"
    "map u8_of (take 8 (drop 24 (map char_of_u8 (rand @ bxor sqn ?ak @ amf @ mac)))) = mac"
    using sizes ak by (simp_all add: comp_def)
  have "map (\<lambda>i. (bxor sqn ?ak ! i) XOR (?ak ! i)) [0..<6] = sqn"
    using sizes ak by (intro nth_equalityI) (simp_all add: xor.assoc)
  moreover have "\<not> length (map char_of_u8 (rand @ bxor sqn ?ak @ amf @ mac)) < 32" using sizes ak by simp
  ultimately show ?thesis
    using given f f1_spec [OF E s sizes(2,3)] unfolding createAuthHeaderAKAv1MD5_def Let_def nonce parts k [symmetric] op [symmetric]
    by simp
qed

text \<open>A library whose decoder gives a challenge of zeros, to try the statement on.\<close>

definition zero_lib :: ssl_lib where
  "zero_lib = \<lparr>has_sha512_256 = False, evp_digest = (\<lambda>md s. Some ''ab''), evp_aes128 = (\<lambda>k x. x),
     evp_decode_block = (\<lambda>s. Some (replicate 32 NUL))\<rparr>"

theorem aka_challenge_checked_witness:
  "createAuthHeaderAKAv1MD5 zero_lib None (1, 2) (replicate 6 9) ''u'' [] [] ''INVITE'' ''h'' [] (''Digest '' @ items_text some_items) ''AKAv1-MD5'' 1 =
    (case createAuthHeaderDigest zero_lib None (1, 2) EVP_md5 False ''u'' (map char_of_u8 [0, 0, 0, 0, 0, 0, 0, 1])
        ''INVITE'' ''h'' [] (''Digest '' @ items_text some_items) ''AKAv1-MD5'' 1 of
       Inl _ \<Rightarrow> Inl (''createAuthHeaderAKAv1MD5 : Unexpected return value from createAuthHeaderDigest'' @ [LF])
     | Inr h \<Rightarrow> Inr h, [9, 9, 9, 9, 9, 0])"
proof -
  let ?z = "\<lambda>n. replicate n (0 :: u8)"
  define H where "H = ''Digest '' @ items_text some_items"
  have n: "getAuthParameter ''nonce'' H = ''n''" using some_parameters unfolding H_def [symmetric] by simp
  have E: "block_cipher (evp_aes128 zero_lib)" by (simp add: block_cipher_def zero_lib_def)
  have e: "evp_aes128 zero_lib = (\<lambda>k x. x)" by (simp add: zero_lib_def)
  have spec: "spec_AK (\<lambda>k x. x) (getAKAKey [] 16) (getAKAKey [] 16) (?z 16) = ?z 6"
    "spec_MAC (\<lambda>k x. x) (getAKAKey [] 16) (getAKAKey [] 16) (?z 16) (?z 6) (?z 2) = ?z 8"
    "spec_RES (\<lambda>k x. x) (getAKAKey [] 16) (getAKAKey [] 16) (?z 16) = [0, 0, 0, 0, 0, 0, 0, 1]"
    by code_simp+
  have "base64_decode_string zero_lib ''n'' = replicate 32 NUL"
    by (simp add: base64_decode_string_def zero_lib_def)
  moreover have "replicate 32 NUL = map char_of_u8 (?z 16 @ bxor (?z 6) (?z 6) @ ?z 2 @ ?z 8)" by code_simp
  ultimately have dec: "base64_decode_string zero_lib (getAuthParameter ''nonce'' H) =
      map char_of_u8 (?z 16 @ bxor (?z 6) (spec_AK (evp_aes128 zero_lib) (getAKAKey [] 16) (getAKAKey [] 16) (?z 16)) @ ?z 2 @ ?z 8)"
    by (simp only: n e spec)
  have "(replicate 6 9)[5 := ?z 6 ! 5] = [9, 9, 9, 9, 9, 0]" by code_simp
  then show ?thesis
    using aka_challenge_checked [OF E _ _ _ _ refl refl _ dec, of None "(1, 2)" "replicate 6 9" "''u''" "''INVITE''" "''h''" "[]" "''AKAv1-MD5''" 1]
    unfolding H_def [symmetric] by (simp add: n e spec)
qed

end
