(* ===== verification/Message_Template.thy ===== *)
theory Message_Template
  imports Url_Strings Variables
begin

text \<open>
  Message templates (\<^verbatim>\<open>message.cpp\<close>): a message of a scenario is text with keywords in brackets, and the
  constructor of \<^verbatim>\<open>SendingMessage\<close> parses it into components that a call fills in each time it sends the
  message. A keyword can have parameters, whose values are templates themselves.

  A \<^verbatim>\<open>char *\<close> is the suffix of the C string that starts there. The nesting of templates is the depth of the
  recursion of the constructor: the first argument of \<open>parse_text\<close> bounds it, and reaching the bound is the overflow
  of the stack. The variables that keywords name are allocated in the scenario's table, in the store of \<open>Variables\<close>.
  Of the texts of errors the arguments are left out.
\<close>

section \<open>Components\<close>

text \<open>
  The enumeration of the source has one constant for each use of a cipher in SRTP; they are grouped here by
  cipher, length of the tag, number and medium.
\<close>

datatype media = Audio | Video
datatype cipher = AesCm128 | AesCm192 | AesCm256 | NullCipher
datatype auth_tag = Sha180 | Sha132

datatype (plugins only: code) MessageCompType =
    E_Message_Literal | E_Message_Remote_IP | E_Message_Remote_Host | E_Message_Remote_Port
  | E_Message_Transport | E_Message_Local_IP | E_Message_Local_IP_Type | E_Message_Local_Port
  | E_Message_Server_IP | E_Message_Media_IP | E_Message_Media_Port | E_Message_Auto_Media_Port
  | E_Message_Media_IP_Type | E_Message_Call_Number | E_Message_DynamicId | E_Message_Call_ID
  | E_Message_CSEQ | E_Message_PID | E_Message_Service | E_Message_Branch
  | E_Message_Index | E_Message_Next_Url | E_Message_Len | E_Message_Peer_Tag_Param
  | E_Message_Routes | E_Message_Variable | E_Message_Fill | E_Message_Injection
  | E_Message_Last_Header | E_Message_Last_Header_Value | E_Message_Last_Request_URI | E_Message_Last_CSeq_Number
  | E_Message_Last_Message | E_Message_TDM_Map | E_Message_Authentication | E_Message_ClockTick
  | E_Message_Users | E_Message_UserID | E_Message_Timestamp | E_Message_Date
  | E_Message_SippVersion | E_Message_File | E_Message_Custom | E_Message_RTPStream_Audio_Port
  | E_Message_RTPStream_Video_Port
  | E_Message_CryptoTag nat media
  | E_Message_CryptoSuite cipher auth_tag nat media
  | E_Message_CryptoKeyParams nat media
  | E_Message_UEAesCm128 auth_tag nat media

text \<open>A component, with the parameters that its type uses.\<close>

datatype MessageComponent =
    MessageComponent (comp_type: MessageCompType) (comp_literal: string) (comp_offset: int) (comp_varId: int) (comp_param: comp_param)
and comp_param =
    No_param
  | Fxn string
  | Filename "MessageComponent list"
  | Auth_param (auth_user: "MessageComponent list") (auth_pass: "MessageComponent list") (aka_OP: "MessageComponent list")
      (aka_AMF: "MessageComponent list") (aka_K: "MessageComponent list")
  | Field_param string int "MessageComponent list option"

definition Literal :: "string \<Rightarrow> MessageComponent" where
  "Literal s = MessageComponent E_Message_Literal s 0 0 No_param"

definition SimpleKeywords :: "(string \<times> MessageCompType) list" where
  "SimpleKeywords =
     [(''remote_ip'', E_Message_Remote_IP), (''remote_host'', E_Message_Remote_Host), (''remote_port'', E_Message_Remote_Port),
      (''transport'', E_Message_Transport), (''local_ip'', E_Message_Local_IP), (''local_ip_type'', E_Message_Local_IP_Type),
      (''local_port'', E_Message_Local_Port), (''server_ip'', E_Message_Server_IP), (''media_ip'', E_Message_Media_IP),
      (''rtpstream_audio_port'', E_Message_RTPStream_Audio_Port), (''rtpstream_video_port'', E_Message_RTPStream_Video_Port), (''cryptotag1audio'', E_Message_CryptoTag 1 Audio),
      (''cryptotag2audio'', E_Message_CryptoTag 2 Audio), (''cryptosuiteaescm128sha1801audio'', E_Message_CryptoSuite AesCm128 Sha180 1 Audio), (''cryptosuiteaescm128sha1802audio'', E_Message_CryptoSuite AesCm128 Sha180 2 Audio),
      (''cryptosuiteaescm128sha1321audio'', E_Message_CryptoSuite AesCm128 Sha132 1 Audio), (''cryptosuiteaescm128sha1322audio'', E_Message_CryptoSuite AesCm128 Sha132 2 Audio), (''cryptokeyparams1audio'', E_Message_CryptoKeyParams 1 Audio),
      (''cryptokeyparams2audio'', E_Message_CryptoKeyParams 2 Audio), (''cryptotag1video'', E_Message_CryptoTag 1 Video), (''cryptotag2video'', E_Message_CryptoTag 2 Video),
      (''cryptosuiteaescm128sha1801video'', E_Message_CryptoSuite AesCm128 Sha180 1 Video), (''cryptosuiteaescm128sha1802video'', E_Message_CryptoSuite AesCm128 Sha180 2 Video), (''cryptosuiteaescm128sha1321video'', E_Message_CryptoSuite AesCm128 Sha132 1 Video),
      (''cryptosuiteaescm128sha1322video'', E_Message_CryptoSuite AesCm128 Sha132 2 Video), (''cryptokeyparams1video'', E_Message_CryptoKeyParams 1 Video), (''cryptokeyparams2video'', E_Message_CryptoKeyParams 2 Video),
      (''cryptosuitenullsha1801audio'', E_Message_CryptoSuite NullCipher Sha180 1 Audio), (''cryptosuitenullsha1802audio'', E_Message_CryptoSuite NullCipher Sha180 2 Audio), (''cryptosuitenullsha1321audio'', E_Message_CryptoSuite NullCipher Sha132 1 Audio),
      (''cryptosuitenullsha1322audio'', E_Message_CryptoSuite NullCipher Sha132 2 Audio), (''cryptosuitenullsha1801video'', E_Message_CryptoSuite NullCipher Sha180 1 Video), (''cryptosuitenullsha1802video'', E_Message_CryptoSuite NullCipher Sha180 2 Video),
      (''cryptosuitenullsha1321video'', E_Message_CryptoSuite NullCipher Sha132 1 Video), (''cryptosuitenullsha1322video'', E_Message_CryptoSuite NullCipher Sha132 2 Video), (''ueaescm128sha1801audio'', E_Message_UEAesCm128 Sha180 1 Audio),
      (''ueaescm128sha1802audio'', E_Message_UEAesCm128 Sha180 2 Audio), (''ueaescm128sha1321audio'', E_Message_UEAesCm128 Sha132 1 Audio), (''ueaescm128sha1322audio'', E_Message_UEAesCm128 Sha132 2 Audio),
      (''ueaescm128sha1801video'', E_Message_UEAesCm128 Sha180 1 Video), (''ueaescm128sha1802video'', E_Message_UEAesCm128 Sha180 2 Video), (''ueaescm128sha1321video'', E_Message_UEAesCm128 Sha132 1 Video),
      (''ueaescm128sha1322video'', E_Message_UEAesCm128 Sha132 2 Video), (''cryptosuiteaescm192sha1801audio'', E_Message_CryptoSuite AesCm192 Sha180 1 Audio), (''cryptosuiteaescm192sha1802audio'', E_Message_CryptoSuite AesCm192 Sha180 2 Audio),
      (''cryptosuiteaescm192sha1321audio'', E_Message_CryptoSuite AesCm192 Sha132 1 Audio), (''cryptosuiteaescm192sha1322audio'', E_Message_CryptoSuite AesCm192 Sha132 2 Audio), (''cryptosuiteaescm256sha1801audio'', E_Message_CryptoSuite AesCm256 Sha180 1 Audio),
      (''cryptosuiteaescm256sha1802audio'', E_Message_CryptoSuite AesCm256 Sha180 2 Audio), (''cryptosuiteaescm256sha1321audio'', E_Message_CryptoSuite AesCm256 Sha132 1 Audio), (''cryptosuiteaescm256sha1322audio'', E_Message_CryptoSuite AesCm256 Sha132 2 Audio),
      (''cryptosuiteaescm192sha1801video'', E_Message_CryptoSuite AesCm192 Sha180 1 Video), (''cryptosuiteaescm192sha1802video'', E_Message_CryptoSuite AesCm192 Sha180 2 Video), (''cryptosuiteaescm192sha1321video'', E_Message_CryptoSuite AesCm192 Sha132 1 Video),
      (''cryptosuiteaescm192sha1322video'', E_Message_CryptoSuite AesCm192 Sha132 2 Video), (''cryptosuiteaescm256sha1801video'', E_Message_CryptoSuite AesCm256 Sha180 1 Video), (''cryptosuiteaescm256sha1802video'', E_Message_CryptoSuite AesCm256 Sha180 2 Video),
      (''cryptosuiteaescm256sha1321video'', E_Message_CryptoSuite AesCm256 Sha132 1 Video), (''cryptosuiteaescm256sha1322video'', E_Message_CryptoSuite AesCm256 Sha132 2 Video), (''media_port'', E_Message_Media_Port),
      (''auto_media_port'', E_Message_Auto_Media_Port), (''media_ip_type'', E_Message_Media_IP_Type), (''call_number'', E_Message_Call_Number),
      (''dynamic_id'', E_Message_DynamicId), (''call_id'', E_Message_Call_ID), (''cseq'', E_Message_CSEQ),
      (''pid'', E_Message_PID), (''service'', E_Message_Service), (''branch'', E_Message_Branch),
      (''msg_index'', E_Message_Index), (''next_url'', E_Message_Next_Url), (''len'', E_Message_Len),
      (''peer_tag_param'', E_Message_Peer_Tag_Param), (''last_Request_URI'', E_Message_Last_Request_URI), (''last_cseq_number'', E_Message_Last_CSeq_Number),
      (''last_message'', E_Message_Last_Message), (''routes'', E_Message_Routes), (''tdmmap'', E_Message_TDM_Map),
      (''clock_tick'', E_Message_ClockTick), (''users'', E_Message_Users), (''userid'', E_Message_UserID),
      (''timestamp'', E_Message_Timestamp), (''date'', E_Message_Date), (''sipp_version'', E_Message_SippVersion)]"

text \<open>The globals that the parser reads.\<close>

record msg_env =
  keyword_map :: "string \<rightharpoonup> string"
  default_file :: string
  inFiles :: "string list"
  generic :: "string \<rightharpoonup> string"
  auth_username :: "string option"
  service :: string
  auth_password :: string
  msg_scenario :: "addr option"

definition registerKeyword :: "string \<Rightarrow> string \<Rightarrow> msg_env \<Rightarrow> msg_env res" where
  "registerKeyword keyword fxn env =
     (if keyword_map env keyword \<noteq> None then Inl (ERROR ''Can not register keyword, already registered!'')
      else Inr (env\<lparr>keyword_map := (keyword_map env)(keyword \<mapsto> fxn)\<rparr>))"

section \<open>Quotes and brackets\<close>

abbreviation BACKSLASH :: char where "BACKSLASH \<equiv> CHR 0x5C"

definition KEYWORD_SIZE :: nat where "KEYWORD_SIZE = 256"

definition has_prefix :: "string \<Rightarrow> string \<Rightarrow> bool" where
  "has_prefix p s \<longleftrightarrow> take (length p) s = p"

lemma dropWhile_two: "dropWhile P s = c # d # t \<Longrightarrow> length t < length s"
  using length_dropWhile_le [of P s] by simp

function closing_quote :: "string \<Rightarrow> string" where
  "closing_quote s =
     (case dropWhile (\<lambda>c. c \<noteq> BACKSLASH \<and> c \<noteq> DQUOTE \<and> c \<noteq> LF) s of
        c # d # t \<Rightarrow> if c = BACKSLASH then closing_quote t else c # d # t
      | t \<Rightarrow> t)"
  by pat_completeness auto
termination
  by (relation "measure length") (auto dest!: dropWhile_two)

declare closing_quote.simps [simp del]

lemma closing_quote_le: "length (closing_quote s) \<le> length s"
proof (induction s rule: closing_quote.induct)
  case (1 s)
  have "length (dropWhile (\<lambda>c. c \<noteq> BACKSLASH \<and> c \<noteq> DQUOTE \<and> c \<noteq> LF) s) \<le> length s" by (rule length_dropWhile_le)
  then show ?case using "1.IH" by (subst closing_quote.simps) (fastforce split: list.splits)
qed

function closing_bracket_loop :: "string \<Rightarrow> nat \<Rightarrow> string option" where
  "closing_bracket_loop p depth =
     (case p of
        [] \<Rightarrow> None
      | c # t \<Rightarrow>
          if c = DQUOTE then (case closing_quote t of [] \<Rightarrow> None | _ # u \<Rightarrow> closing_bracket_loop u depth)
          else if c = CHR ''['' then closing_bracket_loop t (depth + 1)
          else if c = CHR '']'' then (if depth = 0 then Some p else closing_bracket_loop t (depth - 1))
          else closing_bracket_loop t depth)"
  by pat_completeness auto
termination
proof (relation "measure (\<lambda>(p, depth). length p)")
  fix p depth c t d u
  assume "p = c # t" and "closing_quote t = d # u"
  then show "((u, depth), p, depth) \<in> measure (\<lambda>(p, depth). length p)" using closing_quote_le [of t] by simp
qed auto

declare closing_bracket_loop.simps [simp del]

definition closing_bracket :: "string \<Rightarrow> string option" where
  "closing_bracket s = closing_bracket_loop s 0"

lemma closing_bracket_loop_lt: "closing_bracket_loop p depth = Some q \<Longrightarrow> length q \<le> length p \<and> q \<noteq> []"
proof (induction p depth rule: closing_bracket_loop.induct)
  case (1 p depth)
  show ?case
  proof (cases p)
    case Nil
    then show ?thesis using "1.prems" by (subst (asm) closing_bracket_loop.simps) simp
  next
    case (Cons c t)
    then show ?thesis using 1 closing_quote_le [of t]
      by (subst (asm) (5) closing_bracket_loop.simps) (fastforce split: if_splits list.splits)
  qed
qed

text \<open>\<open>prev\<close> is the character before the pointer, none at the start.\<close>

function find_param_loop :: "string \<Rightarrow> char option \<Rightarrow> string \<Rightarrow> string option" where
  "find_param_loop param prev p =
     (case p of
        [] \<Rightarrow> None
      | c # t \<Rightarrow>
          if c = DQUOTE then (case closing_quote t of [] \<Rightarrow> None | d # u \<Rightarrow> find_param_loop param (Some d) u)
          else if c = CHR ''['' then
            (case closing_bracket t of None \<Rightarrow> None | Some q \<Rightarrow> find_param_loop param (Some (CHR '']'')) (tl q))
          else if (case prev of None \<Rightarrow> True | Some d \<Rightarrow> isspace d) \<and> has_prefix param p then Some p
          else find_param_loop param (Some c) t)"
  by pat_completeness auto
termination
proof (relation "measure (\<lambda>(param, prev, p). length p)")
  fix param prev p c t d u
  assume "p = c # t" and "closing_quote t = d # u"
  then show "((param, Some d, u), param, prev, p) \<in> measure (\<lambda>(param, prev, p). length p)" using closing_quote_le [of t] by simp
next
  fix param prev p c t q
  assume "p = c # t" and "closing_bracket t = Some q"
  then show "((param, Some (CHR '']''), tl q), param, prev, p) \<in> measure (\<lambda>(param, prev, p). length p)"
    using closing_bracket_loop_lt [of t 0 q] by (auto simp: closing_bracket_def)
qed auto

declare find_param_loop.simps [simp del]

definition find_param :: "string \<Rightarrow> string \<Rightarrow> string option" where
  "find_param s param = find_param_loop param None s"

section \<open>Parameters\<close>

fun getQuotedParam :: "string \<Rightarrow> string" where
  "getQuotedParam [] = []"
| "getQuotedParam (c # s) =
     (if c = DQUOTE then []
      else if c = BACKSLASH then (case s of [] \<Rightarrow> [] | d # t \<Rightarrow> d # getQuotedParam t)
      else c # getQuotedParam s)"

fun getHexStringParam :: "string \<Rightarrow> string" where
  "getHexStringParam (a # b # s) =
     (if isxdigit a then
        if isxdigit b then chr (nat (get_decimal_from_hex a * 16 + get_decimal_from_hex b)) # getHexStringParam s
        else [chr (nat (get_decimal_from_hex a))]
      else [])"
| "getHexStringParam [a] = (if isxdigit a then [chr (nat (get_decimal_from_hex a))] else [])"
| "getHexStringParam [] = []"

text \<open>The end of a value that is neither quoted nor hexadecimal; \<open>n\<close> is the length of the whole keyword.\<close>

function plain_end :: "nat \<Rightarrow> string \<Rightarrow> string res" where
  "plain_end n key =
     (case key of
        [] \<Rightarrow> Inr []
      | c # t \<Rightarrow>
          if n - length key > KEYWORD_SIZE \<or> n - length key = 0 then Inl (ERROR ''Syntax error parsing parameter'')
          else if c = CHR ''['' then
            (case closing_bracket t of None \<Rightarrow> Inl (ERROR ''Syntax error parsing parameter'') | Some q \<Rightarrow> plain_end n (tl q))
          else if c = CHR '']'' \<or> \<not> (33 \<le> byte c \<and> byte c \<le> 126) then Inr key
          else plain_end n t)"
  by pat_completeness auto
termination
proof (relation "measure (\<lambda>(n, key). length key)")
  fix n key c t q
  assume "key = c # t" and "closing_bracket t = Some q"
  then show "((n, tl q), n, key) \<in> measure (\<lambda>(n, key). length key)"
    using closing_bracket_loop_lt [of t 0 q] by (auto simp: closing_bracket_def)
qed auto

declare plain_end.simps [simp del]

text \<open>
  The bytes written to the output, and whether a zero byte is written after them: it is not after hexadecimal
  digits.
\<close>

definition getKeywordParam :: "string \<Rightarrow> string \<Rightarrow> bool \<Rightarrow> (string \<times> bool) res" where
  "getKeywordParam src param decode_hex =
     (case find_param src param of
        None \<Rightarrow> Inr ([], True)
      | Some p \<Rightarrow>
          let tmp = drop (length param) p
          in if decode_hex \<and> has_prefix ''0x'' tmp then Inr (getHexStringParam (drop 2 tmp), False)
             else if has_prefix [DQUOTE] tmp then Inr (getQuotedParam (tl tmp), True)
             else bindE (plain_end (length src) tmp) (\<lambda>key. Inr (upto_ptr tmp key, True)))"

text \<open>The parameter as a C string, in a buffer that is not initialised.\<close>

definition param_text :: "string \<Rightarrow> string \<Rightarrow> string res" where
  "param_text src param =
     bindE (getKeywordParam src param True) (\<lambda>(v, ended). if ended then Inr (c_str v) else Inl Undefined)"

definition get_var :: "'d \<Rightarrow> msg_env \<Rightarrow> string \<Rightarrow> 'd store \<Rightarrow> (int \<times> 'd store) res" where
  "get_var zero env varName h =
     (case msg_scenario env of
        None \<Rightarrow> Inl (ERROR ''SendingMessage with variable usage outside of scenario!'')
      | Some allocVars \<Rightarrow>
          if varName = [] then Inl (ERROR ''Variable names may not be empty'')
          else if CHR ''$'' \<in> set varName \<or> CHR '','' \<in> set varName then Inl (ERROR ''Variable names may not contain '$' or ',' '')
          else find_var zero h allocVars varName True)"

section \<open>Keywords\<close>

text \<open>The offset after the name of a keyword, and the keyword without it.\<close>

definition parse_offset :: "string \<Rightarrow> int \<times> string" where
  "parse_offset keyword =
     (let name = takeWhile (\<lambda>c. c \<noteq> SP) keyword;
          key = (case strchr name CHR ''+'' of Some k \<Rightarrow> Some k | None \<Rightarrow> strchr name CHR ''-'')
      in case key of
           Some k \<Rightarrow>
             let i = length name - length k
             in if \<not> has_prefix ''authentication'' keyword \<and> \<not> has_prefix ''tdmmap'' keyword \<and>
                   i + 1 < length keyword \<and> isdigit (keyword ! (i + 1))
                then (to_int32 (atol (drop i keyword)), take i keyword) else (0, keyword)
         | None \<Rightarrow> (0, keyword))"

text \<open>The text of a template given as an argument; \<open>rec\<close> parses it.\<close>

type_synonym 'd parser = "string \<Rightarrow> 'd store \<Rightarrow> (MessageComponent list \<times> 'd store) res"

text \<open>\<^verbatim>\<open>strncpy\<close> of a default into a buffer of which the last byte is not initialised.\<close>

definition copy_default :: "string \<Rightarrow> string res" where
  "copy_default s = (if length (c_str s) \<ge> KEYWORD_SIZE then Inl Undefined else Inr (c_str s))"

definition parseAuthenticationKeyword :: "'d parser \<Rightarrow> msg_env \<Rightarrow> int \<Rightarrow> string \<Rightarrow> 'd store \<Rightarrow> (MessageComponent \<times> 'd store) res" where
  "parseAuthenticationKeyword rec env off keyword h =
     bindE (getKeywordParam keyword ''username='' True) (\<lambda>(u0, _).
     bindE (getKeywordParam keyword ''password='' True) (\<lambda>(p0, _).
     bindE (if c_str u0 = [] then copy_default (case auth_username env of Some a \<Rightarrow> a | None \<Rightarrow> service env) else Inr (c_str u0)) (\<lambda>user.
     bindE (if c_str p0 = [] then copy_default (auth_password env) else Inr (c_str p0)) (\<lambda>pass.
     bindE (rec user h) (\<lambda>(cu, h1).
     bindE (rec pass h1) (\<lambda>(cp, h2).
     bindE (getKeywordParam keyword ''aka_K='' False) (\<lambda>(k0, _).
     bindE (if c_str k0 = [] then getKeywordParam keyword ''password='' False else Inr (k0, True)) (\<lambda>(k1, _).
     bindE (rec (if c_str k1 = [] then pass else c_str k1) h2) (\<lambda>(ck, h3).
     bindE (getKeywordParam keyword ''aka_OP='' False) (\<lambda>(op, _).
     bindE (rec (c_str op) h3) (\<lambda>(cop, h4).
     bindE (getKeywordParam keyword ''aka_AMF='' False) (\<lambda>(amf, _).
     bindE (rec (c_str amf) h4) (\<lambda>(camf, h5).
       Inr (MessageComponent E_Message_Authentication [] off 0 (Auth_param cu cp cop camf ck), h5))))))))))))))"

definition last_header :: "int \<Rightarrow> string \<Rightarrow> MessageComponent" where
  "last_header off name =
     (let n = length name
      in if n > 6 \<and> drop (n - 6) name = ''.value''
         then MessageComponent E_Message_Last_Header_Value (take (n - 6) name) off 0 No_param
         else MessageComponent E_Message_Last_Header name off 0 No_param)"

definition field_keyword :: "'d parser \<Rightarrow> msg_env \<Rightarrow> int \<Rightarrow> string \<Rightarrow> 'd store \<Rightarrow> (MessageComponent \<times> 'd store) res" where
  "field_keyword rec env off keyword h =
     bindE (param_text keyword ''file='') (\<lambda>fileName.
     bindE (if fileName = [] then if default_file env = [] then Inl (ERROR ''No injection file was specified!'') else Inr (default_file env)
            else Inr fileName) (\<lambda>filename.
       if filename \<notin> set (inFiles env) then Inl (ERROR ''Invalid injection file'')
       else
         bindE (param_text keyword ''line='') (\<lambda>line.
           if line = [] then Inr (MessageComponent E_Message_Injection [] off 0 (Field_param filename (to_int32 (atol (drop 5 keyword))) None), h)
           else bindE (rec line h) (\<lambda>(cs, h1).
             Inr (MessageComponent E_Message_Injection [] off 0 (Field_param filename (to_int32 (atol (drop 5 keyword))) (Some cs)), h1)))))"

definition keyword_component :: "'d \<Rightarrow> 'd parser \<Rightarrow> msg_env \<Rightarrow> string \<Rightarrow> 'd store \<Rightarrow> (MessageComponent \<times> 'd store) res" where
  "keyword_component zero rec env keyword0 h =
     (case parse_offset keyword0 of (off, keyword) \<Rightarrow>
        case keyword_map env (takeWhile (\<lambda>c. c \<noteq> SP) keyword) of
          Some fxn \<Rightarrow> Inr (MessageComponent E_Message_Custom [] off 0 (Fxn fxn), h)
        | None \<Rightarrow>
            (case map_of SimpleKeywords keyword of
               Some ty \<Rightarrow> Inr (MessageComponent ty [] off 0 No_param, h)
             | None \<Rightarrow>
                 if has_prefix ''field'' keyword then field_keyword rec env off keyword h
                 else if has_prefix ''file'' keyword then
                   bindE (param_text keyword ''name='') (\<lambda>fileName.
                     if fileName = [] then Inl (ERROR ''No name specified for 'file' keyword!'')
                     else bindE (rec fileName h) (\<lambda>(cs, h1). Inr (MessageComponent E_Message_File [] off 0 (Filename cs), h1)))
                 else if has_prefix ''$'' keyword then
                   bindE (get_var zero env (tl keyword) h) (\<lambda>(v, h1). Inr (MessageComponent E_Message_Variable [] off v No_param, h1))
                 else if has_prefix ''fill'' keyword then
                   bindE (param_text keyword ''text='') (\<lambda>filltext.
                   bindE (param_text keyword ''variable='') (\<lambda>varName.
                   bindE (get_var zero env varName h) (\<lambda>(v, h1).
                     Inr (MessageComponent E_Message_Fill (if filltext = [] then ''X'' else filltext) off v No_param, h1))))
                 else if has_prefix ''last_'' keyword then Inr (last_header off (drop 5 keyword), h)
                 else if has_prefix ''authentication'' keyword then parseAuthenticationKeyword rec env off keyword h
                 else case generic env keyword of
                   Some v \<Rightarrow> Inr (MessageComponent E_Message_Literal v off 0 No_param, h)
                 | None \<Rightarrow> Inl (ERROR ''Unsupported keyword in xml scenario file'')))"

section \<open>Messages\<close>

definition flush_literal :: "string \<Rightarrow> MessageComponent list" where
  "flush_literal literal = (if literal = [] then [] else [Literal literal])"

text \<open>The literal at the end is kept only when its first byte is not zero.\<close>

definition last_literal :: "string \<Rightarrow> MessageComponent list" where
  "last_literal literal = (if literal = [] \<or> hd literal = NUL then [] else [Literal literal])"

text \<open>The loop over the template; the components so far are in \<open>acc\<close>.\<close>

function parse_loop :: "'d \<Rightarrow> 'd parser \<Rightarrow> msg_env \<Rightarrow> string \<Rightarrow> string \<Rightarrow> MessageComponent list \<Rightarrow> 'd store \<Rightarrow>
    (MessageComponent list \<times> 'd store) res" where
  "parse_loop zero rec env src literal acc h =
     (case src of
        [] \<Rightarrow> Inr (acc @ last_literal literal, h)
      | c # t \<Rightarrow>
          if c = BACKSLASH \<and> has_prefix ''x'' t \<and> tl t \<noteq> [] \<and> isxdigit (hd (tl t)) then
            let d = hd (tl t); u = tl (tl t)
            in if u \<noteq> [] \<and> isxdigit (hd u)
               then parse_loop zero rec env (tl u) (literal @ [chr (nat (get_decimal_from_hex d * 16 + get_decimal_from_hex (hd u)))]) acc h
               else parse_loop zero rec env u (literal @ [chr (nat (get_decimal_from_hex d))]) acc h
          else if c = LF then parse_loop zero rec env t (literal @ CRLF) acc h
          else if c \<noteq> CHR ''['' then parse_loop zero rec env t (literal @ [c]) acc h
          else
            (case closing_bracket t of
               None \<Rightarrow> Inl (ERROR ''Syntax error or invalid [keyword] in scenario'')
             | Some q \<Rightarrow>
                 let keyword = upto_ptr t q
                 in if length keyword > KEYWORD_SIZE \<or> keyword = [] then Inl (ERROR ''Syntax error or invalid [keyword] in scenario'')
                    else bindE (keyword_component zero rec env keyword h) (\<lambda>(mc, h1).
                      parse_loop zero rec env (tl q) [] (acc @ flush_literal literal @ [mc]) h1)))"
  by pat_completeness auto
termination
proof (relation "measure (\<lambda>(zero, rec, env, src, literal, acc, h). length src)")
  fix zero :: 'd and rec env src literal acc h c t q keyword x mc h1
  assume "src = c # t" and "closing_bracket t = Some q"
  then show "((zero, rec, env, tl q, [], acc @ flush_literal literal @ [mc], h1), zero, rec, env, src, literal, acc, h)
      \<in> measure (\<lambda>(zero, rec, env, src, literal, acc, h). length src)"
    using closing_bracket_loop_lt [of t 0 q] by (auto simp: closing_bracket_def)
qed (auto simp: has_prefix_def)

declare parse_loop.simps [simp del]

primrec parse_text :: "nat \<Rightarrow> 'd \<Rightarrow> msg_env \<Rightarrow> 'd parser" where
  "parse_text 0 zero env src h = Inl Undefined"
| "parse_text (Suc n) zero env src h = parse_loop zero (parse_text n zero env) env src [] [] h"

record sending_message =
  messageComponents :: "MessageComponent list"
  msg_method :: "string option"
  code :: int
  ack :: bool
  cancel :: bool
  response :: bool

definition bad_start :: cpp_error where
  "bad_start = ERROR ''You can not use a keyword for the METHOD or to generate SIP/2.0 to ensure proper [cseq] operation!''"

text \<open>The method or the code that the first literal of a message starts with.\<close>

definition message_start :: "MessageComponent list \<Rightarrow> sending_message res" where
  "message_start cs =
     (case cs of
        [] \<Rightarrow> Inl (ERROR ''Can not create a message that is empty!'')
      | mc # _ \<Rightarrow>
          if comp_type mc \<noteq> E_Message_Literal then Inl bad_start
          else
            let text0 = c_str (comp_literal mc);
                p = length (takeWhile isspace text0);
                q = length (takeWhile (\<lambda>c. c \<noteq> SP) text0)
            in if q = length text0 then Inl bad_start
               else if take q text0 = ''SIP/2.0'' then
                 (case strtol (dropWhile isspace (drop (q + 1) text0)) of (v, rest) \<Rightarrow>
                    if rest \<noteq> [] \<and> \<not> isspace (hd rest) then Inl (ERROR ''Invalid reply code'')
                    else if to_int32 v < 100 \<or> to_int32 v \<ge> 700 then Inl (ERROR ''Response codes must be in the range of 100-700'')
                    else Inr \<lparr>messageComponents = cs, msg_method = None, code = to_int32 v, ack = False, cancel = False, response = True\<rparr>)
               else
                 let m = (if p \<le> q then take (q - p) (drop p text0) else drop p text0)
                 in Inr \<lparr>messageComponents = cs, msg_method = Some m, code = 0, ack = (m = ''ACK''), cancel = (m = ''CANCEL''), response = False\<rparr>)"

definition SendingMessage :: "nat \<Rightarrow> 'd \<Rightarrow> msg_env \<Rightarrow> string \<Rightarrow> bool \<Rightarrow> 'd store \<Rightarrow> (sending_message \<times> 'd store) res" where
  "SendingMessage n zero env osrc skip_sanity h =
     bindE (parse_text n zero env osrc h) (\<lambda>(cs, h1).
       if skip_sanity
       then Inr (\<lparr>messageComponents = cs, msg_method = None, code = 0, ack = False, cancel = False, response = False\<rparr>, h1)
       else bindE (message_start cs) (\<lambda>m. Inr (m, h1)))"

end
