(* ===== verification/Message_Correct.thy ===== *)
theory Message_Correct
  imports Message_Template
begin

text \<open>
  What the parser of templates does: a template written from text, keywords with offsets, headers of the last message and
  files whose names are templates in turn is parsed into exactly those components. Brackets and backslashes
  in the text are written as hexadecimal escapes, and quotes and backslashes of a nested template are
  escaped in its quotes, so any text can be written.
\<close>

section \<open>Templates and their components\<close>

datatype piece = Text string | Key string int | Last string bool | File "piece list"

definition escape :: "char \<Rightarrow> string" where
  "escape c = (if c = CHR ''['' then BACKSLASH # ''x5B'' else if c = BACKSLASH then BACKSLASH # ''x5C'' else [c])"

definition in_quotes :: "string \<Rightarrow> string" where
  "in_quotes s = concat (map (\<lambda>c. if c = DQUOTE \<or> c = BACKSLASH then [BACKSLASH, c] else [c]) s)"

definition offset_text :: "int \<Rightarrow> string" where
  "offset_text n = (if n = 0 then [] else if n > 0 then CHR ''+'' # to_string (nat n) else CHR ''-'' # to_string (nat (- n)))"

fun key_text :: "piece \<Rightarrow> string" and template :: "piece list \<Rightarrow> string" where
  "key_text (Text t) = []"
| "key_text (Key n off) = n @ offset_text off"
| "key_text (Last n v) = ''last_'' @ n @ (if v then ''.value'' else [])"
| "key_text (File ps) = ''file name='' @ DQUOTE # in_quotes (template ps) @ [DQUOTE]"
| "template [] = []"
| "template (p # ps) = (case p of Text t \<Rightarrow> concat (map escape t) | _ \<Rightarrow> CHR ''['' # key_text p @ '']'') @ template ps"

definition lines_CRLF :: "string \<Rightarrow> string" where
  "lines_CRLF t = concat (map (\<lambda>c. if c = LF then CRLF else [c]) t)"

fun components :: "string \<Rightarrow> piece list \<Rightarrow> MessageComponent list" where
  "components lit [] = flush_literal lit"
| "components lit (Text t # ps) = components (lit @ lines_CRLF t) ps"
| "components lit (Key n off # ps) =
     flush_literal lit @ MessageComponent (the (map_of SimpleKeywords n)) [] off 0 No_param # components [] ps"
| "components lit (Last n v # ps) =
     flush_literal lit @ MessageComponent (if v then E_Message_Last_Header_Value else E_Message_Last_Header) n 0 0 No_param # components [] ps"
| "components lit (File qs # ps) =
     flush_literal lit @ MessageComponent E_Message_File [] 0 0 (Filename (components [] qs)) # components [] ps"

text \<open>What can be written: keywords of the table with an offset that fits, names of headers, nested templates on one line.\<close>

definition plain_char :: "char \<Rightarrow> bool" where
  "plain_char c \<longleftrightarrow> c \<noteq> DQUOTE \<and> c \<noteq> CHR ''['' \<and> c \<noteq> CHR '']'' \<and> c \<noteq> NUL \<and> c \<noteq> LF"

fun piece_ok :: "msg_env \<Rightarrow> piece \<Rightarrow> bool" and pieces_ok :: "msg_env \<Rightarrow> piece list \<Rightarrow> bool" where
  "piece_ok env (Text t) = (NUL \<notin> set t)"
| "piece_ok env (Key n off) =
     (n \<in> fst ` set SimpleKeywords \<and> keyword_map env n = None \<and> \<bar>off\<bar> < 2 ^ 31 \<and> (off \<noteq> 0 \<longrightarrow> n \<noteq> ''tdmmap''))"
| "piece_ok env (Last n v) =
     (list_all (\<lambda>c. plain_char c \<and> c \<noteq> SP \<and> \<not> isdigit c) n \<and> length n < 200 \<and> n \<noteq> [] \<and>
      ''last_'' @ n \<notin> fst ` set SimpleKeywords \<and> keyword_map env (''last_'' @ n @ (if v then ''.value'' else [])) = None \<and>
      (v \<or> \<not> (length n > 6 \<and> drop (length n - 6) n = ''.value'')))"
| "piece_ok env (File ps) =
     (pieces_ok env ps \<and> ps \<noteq> [] \<and> template ps \<noteq> [] \<and> LF \<notin> set (template ps) \<and> length (in_quotes (template ps)) < 200 \<and>
      keyword_map env ''file'' = None)"
| "pieces_ok env [] = True"
| "pieces_ok env (p # ps) = (piece_ok env p \<and> pieces_ok env ps)"

fun depth :: "piece \<Rightarrow> nat" and depths :: "piece list \<Rightarrow> nat" where
  "depth (File ps) = Suc (depths ps)"
| "depth _ = 0"
| "depths [] = 0"
| "depths (p # ps) = max (depth p) (depths ps)"

section \<open>Quotes and brackets\<close>

lemma closing_quote_step:
  "closing_quote (BACKSLASH # c # s) = closing_quote s"
  "c \<noteq> BACKSLASH \<Longrightarrow> c \<noteq> DQUOTE \<Longrightarrow> c \<noteq> LF \<Longrightarrow> closing_quote (c # s) = closing_quote s"
  "closing_quote (DQUOTE # s) = DQUOTE # s"
  by (subst closing_quote.simps, simp)
    (subst (1 2) closing_quote.simps, simp,
     subst closing_quote.simps, simp split: list.splits)

lemma closing_quote_in_quotes: "LF \<notin> set s \<Longrightarrow> closing_quote (in_quotes s @ DQUOTE # r) = DQUOTE # r"
  by (induction s) (auto simp: in_quotes_def closing_quote_step)

lemma getQuotedParam_in_quotes: "getQuotedParam (in_quotes s @ DQUOTE # r) = s"
  by (induction s) (auto simp: in_quotes_def)

lemma closing_bracket_plain:
  "list_all plain_char w \<Longrightarrow> closing_bracket_loop (w @ r) d = closing_bracket_loop r d"
proof (induction w)
  case (Cons c w)
  then show ?case by (subst closing_bracket_loop.simps) (simp add: plain_char_def)
qed simp

lemma closing_bracket_here: "closing_bracket_loop (CHR '']'' # r) 0 = Some (CHR '']'' # r)"
  by (subst closing_bracket_loop.simps) simp

lemma closing_bracket_quoted:
  assumes "LF \<notin> set s"
  shows "closing_bracket_loop (DQUOTE # in_quotes s @ DQUOTE # r) d = closing_bracket_loop r d"
  by (subst closing_bracket_loop.simps) (simp add: closing_quote_in_quotes [OF assms])

lemma closing_key:
  assumes "list_all plain_char w"
  shows "closing_bracket (w @ CHR '']'' # r) = Some (CHR '']'' # r)"
  using assms by (simp add: closing_bracket_def closing_bracket_plain closing_bracket_here)

lemma closing_file:
  assumes "LF \<notin> set s"
  shows "closing_bracket ((''file name='' @ DQUOTE # in_quotes s @ [DQUOTE]) @ CHR '']'' # r) = Some (CHR '']'' # r)"
proof -
  have "list_all plain_char ''file name=''" by (simp add: plain_char_def)
  then have "closing_bracket_loop (''file name='' @ DQUOTE # in_quotes s @ DQUOTE # CHR '']'' # r) 0 =
      closing_bracket_loop (DQUOTE # in_quotes s @ DQUOTE # CHR '']'' # r) 0"
    by (rule closing_bracket_plain)
  then show ?thesis by (simp add: closing_bracket_def closing_bracket_quoted [OF assms] closing_bracket_here)
qed

lemma file_name_param:
  assumes "NUL \<notin> set s" and "LF \<notin> set s"
  shows "param_text (''file name='' @ DQUOTE # in_quotes s @ [DQUOTE]) ''name='' = Inr s"
proof -
  have "find_param (''file name='' @ DQUOTE # in_quotes s @ [DQUOTE]) ''name='' = Some (''name='' @ DQUOTE # in_quotes s @ [DQUOTE])"
    unfolding find_param_def
    by (simp add: find_param_loop.simps has_prefix_def isspace_def byte_def)
  then show ?thesis using assms getQuotedParam_in_quotes [of s "[]"]
    by (simp add: param_text_def getKeywordParam_def has_prefix_def)
qed

section \<open>Offsets\<close>

lemma takeWhile_all: "\<forall>c\<in>set s. P c \<Longrightarrow> takeWhile P s = s"
  by (simp add: takeWhile_eq_all_conv)

lemma atol_signed:
  assumes "n < 2 ^ 31"
  shows "atol (CHR ''+'' # to_string n) = int n" and "atol (CHR ''-'' # to_string n) = - int n"
proof -
  have ds: "takeWhile isdigit (to_string n) = to_string n" using to_string_digits by (intro takeWhile_all) blast
  have "\<not> isspace CHR ''+''" "\<not> isspace CHR ''-''" by (simp_all add: isspace_def byte_def)
  moreover have "clamp_long (int n) = int n" "clamp_long (- int n) = - int n" using assms by (simp_all add: clamp_long_def LONG_MAX_def)
  ultimately show "atol (CHR ''+'' # to_string n) = int n" "atol (CHR ''-'' # to_string n) = - int n"
    by (simp_all add: atol_def strtol_def Let_def ds)
qed

lemma prefix_append: "has_prefix p (n @ w) \<Longrightarrow> has_prefix p n \<or> w \<noteq> [] \<and> hd w \<in> set p"
proof (cases "length p \<le> length n")
  case False
  assume h: "has_prefix p (n @ w)"
  then have p: "p = n @ take (length p - length n) w" using False by (simp add: has_prefix_def)
  show ?thesis
  proof (cases "take (length p - length n) w")
    case Nil
    then show ?thesis using p False by simp
  next
    case (Cons c u)
    then have "hd w = c" "w \<noteq> []" by (cases w; auto simp: take_Cons' split: if_splits)+
    then show ?thesis using p Cons by (metis in_set_conv_decomp)
  qed
qed (simp add: has_prefix_def)

text \<open>The names of the table.\<close>

definition key_name :: "string \<Rightarrow> bool" where
  "key_name n \<longleftrightarrow> n \<noteq> [] \<and> length n < 40 \<and> list_all (\<lambda>c. isalnum c \<or> c = CHR ''_'') n \<and>
     \<not> has_prefix ''authentication'' n \<and> (has_prefix ''tdmmap'' n \<longrightarrow> n = ''tdmmap'')"

lemma simple_names: "list_all (\<lambda>k. key_name (fst k)) SimpleKeywords"
  by (simp add: SimpleKeywords_def key_name_def has_prefix_def isalnum_def isdigit_def isupper_def islower_def byte_def)

lemma key_name_chars:
  assumes "key_name n" and "c \<in> set n"
  shows "plain_char c" and "c \<noteq> SP" and "c \<noteq> CHR ''+''" and "c \<noteq> CHR ''-''" and "c \<noteq> CHR ''=''"
proof -
  have "isalnum c \<or> c = CHR ''_''" using assms by (auto simp: key_name_def list_all_iff)
  then show "plain_char c" "c \<noteq> SP" "c \<noteq> CHR ''+''" "c \<noteq> CHR ''-''" "c \<noteq> CHR ''=''"
    by (auto simp: plain_char_def isalnum_def isdigit_def isupper_def islower_def byte_def)
qed

lemma digit_chars: "isdigit c \<Longrightarrow> plain_char c \<and> c \<noteq> SP \<and> c \<noteq> CHR ''+'' \<and> c \<noteq> CHR ''-''"
  by (auto simp: plain_char_def isdigit_def byte_def)

lemma offset_chars: "c \<in> set (offset_text off) \<Longrightarrow> plain_char c \<and> c \<noteq> SP"
  using digit_chars [OF to_string_digits] by (auto simp: offset_text_def plain_char_def split: if_splits)

lemma parse_offset_at:
  assumes n: "key_name n" "n \<noteq> ''tdmmap''" and d: "d \<noteq> []" "\<forall>c\<in>set d. isdigit c" and x: "x = CHR ''+'' \<or> x = CHR ''-''"
  shows "parse_offset (n @ x # d) = (to_int32 (atol (x # d)), n)"
proof -
  have name: "takeWhile (\<lambda>c. c \<noteq> SP) (n @ x # d) = n @ x # d"
    using key_name_chars(2) [OF n(1)] digit_chars d(2) x by (intro takeWhile_all) fastforce
  have no: "CHR ''+'' \<notin> set n" "CHR ''-'' \<notin> set n" "CHR ''+'' \<notin> set d"
    using key_name_chars [OF n(1)] digit_chars d(2) by blast+
  have key: "(case strchr (n @ x # d) CHR ''+'' of Some k \<Rightarrow> Some k | None \<Rightarrow> strchr (n @ x # d) CHR ''-'') = Some (x # d)"
  proof (cases "x = CHR ''+''")
    case True
    then show ?thesis using strchr_first [OF no(1), of d] by simp
  next
    case False
    then have "strchr (n @ x # d) CHR ''+'' = None" using no x by (auto simp: strchr_None)
    then show ?thesis using strchr_first [OF no(2), of d] False x by simp
  qed
  have dig: "isdigit ((n @ x # d) ! (length n + 1))" using d by (cases d) (auto simp: nth_append)
  have pre: "\<not> has_prefix ''authentication'' (n @ x # d)" "\<not> has_prefix ''tdmmap'' (n @ x # d)"
    using n x prefix_append [of "''authentication''" n "x # d"] prefix_append [of "''tdmmap''" n "x # d"] by (auto simp: key_name_def)
  show ?thesis using d(1) dig pre unfolding parse_offset_def Let_def name key by simp
qed

lemma parse_offset_none:
  assumes "\<forall>c\<in>set (takeWhile (\<lambda>c. c \<noteq> SP) w). c \<noteq> CHR ''+'' \<and> c \<noteq> CHR ''-''"
  shows "parse_offset w = (0, w)"
proof -
  have "strchr (takeWhile (\<lambda>c. c \<noteq> SP) w) CHR ''+'' = None" "strchr (takeWhile (\<lambda>c. c \<noteq> SP) w) CHR ''-'' = None"
    using assms by (auto simp: strchr_None)
  then show ?thesis by (simp add: parse_offset_def)
qed

lemma parse_offset_key:
  assumes n: "key_name n" and off: "\<bar>off\<bar> < 2 ^ 31" "off \<noteq> 0 \<longrightarrow> n \<noteq> ''tdmmap''"
  shows "parse_offset (n @ offset_text off) = (off, n)"
proof -
  have d: "to_string k \<noteq> []" "\<forall>c\<in>set (to_string k). isdigit c" for k using to_string_digits by auto
  consider "off = 0" | "off > 0" | "off < 0" by linarith
  then show ?thesis
  proof cases
    case 1
    then show ?thesis using parse_offset_none [of n] key_name_chars [OF n] set_takeWhileD [of _ _ n] by (fastforce simp: offset_text_def)
  next
    case 2
    then show ?thesis
      using parse_offset_at [OF n _ d, of "CHR ''+''" "nat off"] off atol_signed(1) [of "nat off"] to_int32_id [of off]
      by (simp add: offset_text_def)
  next
    case 3
    then show ?thesis
      using parse_offset_at [OF n _ d, of "CHR ''-''" "nat (- off)"] off atol_signed(2) [of "nat (- off)"] to_int32_id [of off]
      by (simp add: offset_text_def)
  qed
qed

section \<open>Keywords\<close>

lemma in_table: "n \<in> fst ` set SimpleKeywords \<Longrightarrow> key_name n"
  using simple_names by (auto simp: list_all_iff)

lemma not_in_table: "c \<in> set w \<Longrightarrow> c = CHR ''='' \<or> c = CHR ''.'' \<Longrightarrow> map_of SimpleKeywords w = None"
proof -
  assume c: "c \<in> set w" "c = CHR ''='' \<or> c = CHR ''.''"
  have "\<not> key_name w"
  proof
    assume "key_name w"
    then have "isalnum c \<or> c = CHR ''_''" using c(1) by (auto simp: key_name_def list_all_iff)
    then show False using c(2) by (auto simp: isalnum_def isdigit_def isupper_def islower_def byte_def)
  qed
  then show ?thesis using in_table by (auto simp: map_of_eq_None_iff)
qed

lemma key_component:
  assumes "piece_ok env (Key n off)"
  shows "keyword_component zero rec env (key_text (Key n off)) h = Inr (MessageComponent (the (map_of SimpleKeywords n)) [] off 0 No_param, h)"
proof -
  have mem: "n \<in> fst ` set SimpleKeywords" and n: "key_name n" "keyword_map env n = None"
    and off: "\<bar>off\<bar> < 2 ^ 31" "off \<noteq> 0 \<longrightarrow> n \<noteq> ''tdmmap''"
    using assms in_table by simp_all
  have name: "takeWhile (\<lambda>c. c \<noteq> SP) n = n" using key_name_chars(2) [OF n(1)] by (intro takeWhile_all) blast
  have "map_of SimpleKeywords n \<noteq> None" using mem by (simp only: map_of_eq_None_iff not_not)
  then obtain ty where ty: "map_of SimpleKeywords n = Some ty" by blast
  have "parse_offset (n @ offset_text off) = (off, n)" using n(1) off by (rule parse_offset_key)
  then show ?thesis by (simp only: keyword_component_def key_text.simps prod.case name n(2) option.case ty option.sel)
qed

lemma parse_offset_no_digit: "\<forall>c\<in>set w. \<not> isdigit c \<Longrightarrow> parse_offset w = (0, w)"
  by (auto simp: parse_offset_def Let_def split: option.splits)

lemma last_component:
  assumes "piece_ok env (Last n v)"
  shows "keyword_component zero rec env (key_text (Last n v)) h =
    Inr (MessageComponent (if v then E_Message_Last_Header_Value else E_Message_Last_Header) n 0 0 No_param, h)"
proof -
  let ?w = "''last_'' @ n @ (if v then ''.value'' else [])"
  have n: "\<forall>c\<in>set n. plain_char c \<and> c \<noteq> SP \<and> \<not> isdigit c" "n \<noteq> []" "''last_'' @ n \<notin> fst ` set SimpleKeywords"
    "keyword_map env ?w = None" "v \<or> \<not> (length n > 6 \<and> drop (length n - 6) n = ''.value'')"
    using assms unfolding piece_ok.simps list_all_iff by blast+
  have nd: "\<forall>c\<in>set ''last_''. \<not> isdigit c" "\<forall>c\<in>set ''.value''. \<not> isdigit c" by (simp_all add: isdigit_def byte_def)
  have "\<forall>c\<in>set ?w. \<not> isdigit c" using n(1) nd unfolding set_append by (cases v) (simp_all only: if_True if_False Un_iff list.set ball_Un, blast+)
  then have off: "parse_offset ?w = (0, ?w)" by (rule parse_offset_no_digit)
  have name: "takeWhile (\<lambda>c. c \<noteq> SP) ?w = ?w" using n(1) by (intro takeWhile_all) auto
  have tab: "map_of SimpleKeywords ?w = None"
  proof (cases v)
    case False
    then show ?thesis using n(3) by (simp only: map_of_eq_None_iff if_False append_Nil2 simp_thms)
  next
    case True
    then show ?thesis by (intro not_in_table [of "CHR ''.''"]) simp_all
  qed
  have lh: "last_header 0 (drop 5 ?w) = MessageComponent (if v then E_Message_Last_Header_Value else E_Message_Last_Header) n 0 0 No_param"
    using n(2,5) by (auto simp: last_header_def Let_def)
  have pre: "\<not> has_prefix ''field'' ?w" "\<not> has_prefix ''file'' ?w" "\<not> has_prefix ''$'' ?w" "\<not> has_prefix ''fill'' ?w" "has_prefix ''last_'' ?w"
    by (simp_all add: has_prefix_def)
  show ?thesis unfolding key_text.simps keyword_component_def off prod.case name n(4) option.case tab
    using pre lh by (simp del: append.simps drop_append)
qed

lemma file_component:
  assumes ok: "piece_ok env (File ps)" and s: "NUL \<notin> set (template ps)" and rec: "rec (template ps) h = Inr (cs, h)"
  shows "keyword_component zero rec env (key_text (File ps)) h = Inr (MessageComponent E_Message_File [] 0 0 (Filename cs), h)"
proof -
  let ?w = "''file name='' @ DQUOTE # in_quotes (template ps) @ [DQUOTE]"
  have name: "takeWhile (\<lambda>c. c \<noteq> SP) ?w = ''file''" by simp
  have off: "parse_offset ?w = (0, ?w)" by (rule parse_offset_none) (simp add: name)
  have tab: "map_of SimpleKeywords ?w = None" by (rule not_in_table [of "CHR ''=''"]) simp_all
  have par: "param_text ?w ''name='' = Inr (template ps)" using ok s by (intro file_name_param) auto
  have pre: "\<not> has_prefix ''field'' ?w" "has_prefix ''file'' ?w" by (simp_all add: has_prefix_def)
  have kw: "keyword_map env ''file'' = None" "template ps \<noteq> []" using ok by auto
  show ?thesis unfolding key_text.simps keyword_component_def off prod.case name kw(1) option.case tab
    using pre par kw(2) rec by (simp del: append.simps)
qed

section \<open>The whole template\<close>

lemma set_in_quotes: "set (in_quotes s) \<subseteq> insert BACKSLASH (set s)"
  by (auto simp: in_quotes_def)

lemma key_no_NUL:
  "piece_ok env p \<Longrightarrow> (case p of Text t \<Rightarrow> True | _ \<Rightarrow> NUL \<notin> set (key_text p))"
  "pieces_ok env ps \<Longrightarrow> NUL \<notin> set (template ps)"
proof (induction env p and env ps rule: piece_ok_pieces_ok.induct)
  case (2 env n off)
  then show ?case using key_name_chars(1) [OF in_table, of n] offset_chars [of _ off] by (fastforce simp: plain_char_def)
next
  case (3 env n v)
  then show ?case by (auto simp: list_all_iff plain_char_def)
next
  case (4 env ps)
  then show ?case using set_in_quotes [of "template ps"] by auto
next
  case (6 env p ps)
  then show ?case by (cases p) (auto simp: escape_def)
qed auto

text \<open>A text with its escapes is added to the literal.\<close>

lemma hex_values: "isxdigit CHR ''5''" "isxdigit CHR ''B''" "isxdigit CHR ''C''"
  "chr (nat (get_decimal_from_hex CHR ''5'' * 16 + get_decimal_from_hex CHR ''B'')) = CHR ''[''"
  "chr (nat (get_decimal_from_hex CHR ''5'' * 16 + get_decimal_from_hex CHR ''C'')) = BACKSLASH"
  by code_simp+

lemma parse_text_char:
  "parse_loop zero rec env (escape c @ r) lit acc h =
    parse_loop zero rec env r (lit @ (if c = LF then CRLF else [c])) acc h"
proof -
  consider "c = CHR ''[''" | "c = BACKSLASH" | "c \<noteq> CHR ''[''" "c \<noteq> BACKSLASH" by blast
  then show ?thesis
    by cases (subst parse_loop.simps; simp add: escape_def has_prefix_def hex_values Let_def)+
qed

lemma parse_text_chars:
  "parse_loop zero rec env (concat (map escape t) @ r) lit acc h = parse_loop zero rec env r (lit @ lines_CRLF t) acc h"
  by (induction t arbitrary: lit) (simp_all add: parse_text_char lines_CRLF_def)

text \<open>A keyword ends at its bracket and gives its component.\<close>

lemma parse_keyword:
  assumes w: "closing_bracket (w @ CHR '']'' # r) = Some (CHR '']'' # r)" "w \<noteq> []" "length w \<le> KEYWORD_SIZE"
    and k: "keyword_component zero rec env w h = Inr (mc, h)"
  shows "parse_loop zero rec env (CHR ''['' # w @ CHR '']'' # r) lit acc h =
    parse_loop zero rec env r [] (acc @ flush_literal lit @ [mc]) h"
  using assms by (subst parse_loop.simps) (simp add: Let_def)

lemma to_string_short: "n < 10 ^ k \<Longrightarrow> 0 < k \<Longrightarrow> length (to_string n) \<le> k"
proof (induction n arbitrary: k rule: to_string.induct)
  case (1 n)
  show ?case
  proof (cases "n < 10")
    case False
    then obtain j where k: "k = Suc j" "0 < j" using "1.prems" by (cases k; cases "k - 1") auto
    then have "n div 10 < 10 ^ j" using "1.prems" by (simp add: less_mult_imp_div_less)
    then show ?thesis using "1.IH" [OF False] k False by (subst to_string.simps) simp
  qed (use "1.prems" in \<open>subst to_string.simps, simp\<close>)
qed

lemma offset_short: "\<bar>off\<bar> < 2 ^ 31 \<Longrightarrow> length (offset_text off) \<le> 11"
  using to_string_short [of "nat off" 10] to_string_short [of "nat (- off)" 10] by (auto simp: offset_text_def)

lemma key_closes:
  assumes "piece_ok env (Key n off)"
  shows "closing_bracket (key_text (Key n off) @ CHR '']'' # r) = Some (CHR '']'' # r)" "key_text (Key n off) \<noteq> []"
    "length (key_text (Key n off)) \<le> KEYWORD_SIZE"
proof -
  have n: "key_name n" using assms in_table by (simp only: piece_ok.simps)
  have "list_all plain_char (n @ offset_text off)" using key_name_chars(1) [OF n] offset_chars by (auto simp: list_all_iff)
  then show "closing_bracket (key_text (Key n off) @ CHR '']'' # r) = Some (CHR '']'' # r)"
    unfolding key_text.simps by (rule closing_key)
  have l: "length n < 40" "n \<noteq> []" using n by (auto simp: key_name_def)
  have "\<bar>off\<bar> < 2 ^ 31" using assms by (simp only: piece_ok.simps)
  then show "length (key_text (Key n off)) \<le> KEYWORD_SIZE" "key_text (Key n off) \<noteq> []"
    using l offset_short [of off] by (simp_all add: KEYWORD_SIZE_def)
qed

lemma last_closes:
  assumes "piece_ok env (Last n v)"
  shows "closing_bracket (key_text (Last n v) @ CHR '']'' # r) = Some (CHR '']'' # r)" "key_text (Last n v) \<noteq> []"
    "length (key_text (Last n v)) \<le> KEYWORD_SIZE"
proof -
  have n: "list_all plain_char n" "length n < 200" using assms unfolding piece_ok.simps list_all_iff by blast+
  have "list_all plain_char (''last_'' @ n @ (if v then ''.value'' else []))" using n(1) by (auto simp: plain_char_def)
  then show "closing_bracket (key_text (Last n v) @ CHR '']'' # r) = Some (CHR '']'' # r)"
    unfolding key_text.simps by (rule closing_key)
  show "length (key_text (Last n v)) \<le> KEYWORD_SIZE" "key_text (Last n v) \<noteq> []"
    using n(2) by (simp_all add: KEYWORD_SIZE_def)
qed

lemma last_literal_flush: "NUL \<notin> set lit \<Longrightarrow> last_literal lit = flush_literal lit"
  by (cases lit) (auto simp: last_literal_def flush_literal_def)

lemma parse_template:
  assumes rec: "\<And>qs h. pieces_ok env qs \<Longrightarrow> depths qs < d \<Longrightarrow> rec (template qs) h = Inr (components [] qs, h)"
  shows "pieces_ok env ps \<Longrightarrow> depths ps \<le> d \<Longrightarrow> NUL \<notin> set lit \<Longrightarrow>
    parse_loop zero rec env (template ps) lit acc h = Inr (acc @ components lit ps, h)"
proof (induction ps arbitrary: lit acc)
  case Nil
  then show ?case by (subst parse_loop.simps) (simp add: last_literal_flush)
next
  case (Cons p ps)
  have ok: "piece_ok env p" "pieces_ok env ps" "depth p \<le> d" "depths ps \<le> d" using Cons.prems by simp_all
  have rest: "parse_loop zero rec env (template ps) [] acc' h = Inr (acc' @ components [] ps, h)" for acc'
    using Cons.IH [OF ok(2,4)] by simp
  show ?case
  proof (cases p)
    case (Text t)
    have "NUL \<notin> set (lit @ lines_CRLF t)" using ok(1) Cons.prems(3) Text by (auto simp: lines_CRLF_def)
    then show ?thesis using Text Cons.IH [OF ok(2,4)] by (simp add: parse_text_chars)
  next
    case (Key n off)
    note ok' = ok(1) [unfolded Key]
    show ?thesis using parse_keyword [OF key_closes [OF ok'] key_component [where zero = zero, OF ok']] rest Key
      by (simp del: key_text.simps piece_ok.simps)
  next
    case (Last n v)
    note ok' = ok(1) [unfolded Last]
    show ?thesis using parse_keyword [OF last_closes [OF ok'] last_component [where zero = zero, OF ok']] rest Last
      by (simp del: key_text.simps piece_ok.simps)
  next
    case (File qs)
    note ok' = ok(1) [unfolded File]
    have q: "pieces_ok env qs" "LF \<notin> set (template qs)" "length (in_quotes (template qs)) < 200" "depths qs < d"
      using ok' ok(3) File by simp_all
    have "closing_bracket (key_text (File qs) @ CHR '']'' # r) = Some (CHR '']'' # r)" for r
      unfolding key_text.simps by (rule closing_file [OF q(2)])
    moreover have "key_text (File qs) \<noteq> []" "length (key_text (File qs)) \<le> KEYWORD_SIZE" using q(3) by (simp_all add: KEYWORD_SIZE_def)
    ultimately show ?thesis
      using parse_keyword [OF _ _ _ file_component [where zero = zero and rec = rec and h = h, OF ok' key_no_NUL(2) [OF q(1)] rec [OF q(1,4)]]] rest File
      by (simp del: key_text.simps piece_ok.simps)
  qed
qed

text \<open>
  C16: templates. A template written from texts, keywords of the table with offsets, headers of the last message
  and files named by templates in turn, nested to any depth that the stack allows, is parsed into exactly the
  components it was written from: texts with their line ends as CRLF, adjacent texts joined, and nothing else,
  and no variable is allocated.
\<close>

theorem template_parses:
  assumes "pieces_ok env ps" and "depths ps < n"
  shows "SendingMessage n zero env (template ps) True h =
    Inr (\<lparr>messageComponents = components [] ps, msg_method = None, code = 0, ack = False, cancel = False, response = False\<rparr>, h)"
proof -
  have "pieces_ok env ps \<Longrightarrow> depths ps < n \<Longrightarrow> parse_text n zero env (template ps) h = Inr (components [] ps, h)" for ps h
  proof (induction n arbitrary: ps h)
    case (Suc n)
    then show ?case using parse_template [of env n "parse_text n zero env" ps "[]" zero "[]" h] by simp
  qed simp
  then show ?thesis using assms by (simp add: SendingMessage_def)
qed


lemma table_entries:
  "map_of SimpleKeywords ''service'' = Some E_Message_Service"
  "map_of SimpleKeywords ''call_number'' = Some E_Message_Call_Number"
  by (simp_all add: SimpleKeywords_def)

theorem template_parses_witness:
  "SendingMessage 2 (0 :: int) \<lparr>keyword_map = Map.empty, default_file = [], inFiles = [], generic = Map.empty, auth_username = None,
      service = ''service'', auth_password = [], msg_scenario = None\<rparr>
    (template [Text ''INVITE sip:'', Key ''service'' 0, Text ''@[x]'', File [Text ''log-'', Key ''call_number'' 3]]) True [] =
    Inr (\<lparr>messageComponents = [Literal ''INVITE sip:'', MessageComponent E_Message_Service [] 0 0 No_param, Literal ''@[x]'',
       MessageComponent E_Message_File [] 0 0 (Filename [Literal ''log-'', MessageComponent E_Message_Call_Number [] 3 0 No_param])],
      msg_method = None, code = 0, ack = False, cancel = False, response = False\<rparr>, [])"
  (is "SendingMessage 2 0 ?env (template ?ps) True [] = ?r")
proof -
  have "''service'' \<in> fst ` set SimpleKeywords" "''call_number'' \<in> fst ` set SimpleKeywords"
    using table_entries map_of_eq_None_iff [of SimpleKeywords] by (metis option.distinct(1))+
  moreover have "to_string 3 = ''3''" by (subst to_string.simps) code_simp
  ultimately have "pieces_ok ?env ?ps" by (simp add: in_quotes_def escape_def offset_text_def)
  then have "SendingMessage 2 (0 :: int) ?env (template ?ps) True [] =
      Inr (\<lparr>messageComponents = components [] ?ps, msg_method = None, code = 0, ack = False, cancel = False, response = False\<rparr>, [])"
    by (rule template_parses) simp
  also have "components [] ?ps = messageComponents (fst (projr ?r))"
    by (simp add: table_entries flush_literal_def lines_CRLF_def)
  finally show ?thesis by simp
qed

section \<open>Where the parser drops or misreads its input\<close>

text \<open>A template that ends with a literal whose first byte is zero loses the whole literal.\<close>

lemma zero_literal_dropped: "parse_text (Suc n) zero env (BACKSLASH # ''x00'' @ concat (map escape t)) h = Inr ([], h)"
proof -
  have "parse_loop zero rec env (BACKSLASH # ''x00'' @ r) [] [] h = parse_loop zero rec env r [NUL] [] h" for rec r
    by (subst parse_loop.simps) (simp add: has_prefix_def isxdigit_def isdigit_def byte_def get_decimal_from_hex_def char_of_def)
  moreover have "parse_loop zero rec env [] (NUL # lines_CRLF t) [] h = Inr ([], h)" for rec
    by (subst parse_loop.simps) (simp add: last_literal_def)
  ultimately show ?thesis using parse_text_chars [where r = "[]" and lit = "[NUL]" and zero = zero] by simp
qed

text \<open>The hexadecimal name of an injection file is read from a buffer without its end.\<close>

lemma hex_param_unterminated: "param_text ''field0 file=0x61'' ''file='' = Inl Undefined"
proof -
  have "find_param ''field0 file=0x61'' ''file='' = Some ''file=0x61''"
    by (simp add: find_param_def find_param_loop.simps has_prefix_def isspace_def byte_def)
  then show ?thesis by (simp add: param_text_def getKeywordParam_def has_prefix_def)
qed

end
