(* ===== verification/Call_Text.thy ===== *)
theory Call_Text
  imports Sip_Parser Message_Template
begin

text \<open>
  The text of calls (\<^verbatim>\<open>call.cpp\<close>): the Call-ID of a new call, the circuits of \<^verbatim>\<open>-tdmmap\<close>, the addresses of the
  media in an SDP, the hash that finds retransmissions, the method and the branch of a message and the route
  set of a dialog. Random numbers, the clock and the process id are arguments.
\<close>

unbundle bit_operations_syntax

section \<open>Lists of words\<close>

text \<open>\<^verbatim>\<open>std::getline\<close> until the end: a separator at the end starts no item.\<close>

function split :: "string \<Rightarrow> char \<Rightarrow> string list" where
  "split s delim =
     (if s = [] then []
      else takeWhile (\<lambda>c. c \<noteq> delim) s # split (drop 1 (dropWhile (\<lambda>c. c \<noteq> delim) s)) delim)"
  by pat_completeness auto
termination
proof (relation "measure (\<lambda>(s, delim). length s)")
  fix s :: string and delim
  assume "s \<noteq> []"
  then have "0 < length s" by simp
  moreover have "length (dropWhile (\<lambda>c. c \<noteq> delim) s) \<le> length s" by (rule length_dropWhile_le)
  ultimately show "((drop 1 (dropWhile (\<lambda>c. c \<noteq> delim) s), delim), s, delim) \<in> measure (\<lambda>(s, delim). length s)"
    unfolding in_measure prod.case length_drop by linarith
qed simp

declare split.simps [simp del]

fun join :: "string list \<Rightarrow> string \<Rightarrow> string" where
  "join [] delim = []"
| "join [s] delim = s"
| "join (s # t # ss) delim = s @ delim @ join (t # ss) delim"

text \<open>A text of spaces only stays as it is.\<close>

definition trim :: "string \<Rightarrow> string" where
  "trim s = (if list_all (\<lambda>c. c = SP) s then s else rstrip (\<lambda>c. c = SP) (dropWhile (\<lambda>c. c = SP) s))"

section \<open>The Call-ID of a new call\<close>

record call_id_env =
  call_id_string :: string
  local_ip :: string
  pid :: nat
  rand :: "nat \<Rightarrow> nat"
  timestamp_micros :: "64 word"

text \<open>\<open>k\<close> is the number of random numbers taken so far.\<close>

fun build_format_loop :: "call_id_env \<Rightarrow> nat \<Rightarrow> nat \<Rightarrow> string \<Rightarrow> string" where
  "build_format_loop e call_number k [] = []"
| "build_format_loop e call_number k (c # src) =
     (if c \<noteq> CHR ''%'' then c # build_format_loop e call_number k src
      else case src of
        [] \<Rightarrow> ''%''
      | d # rest \<Rightarrow>
          if d = CHR ''u'' then to_string call_number @ build_format_loop e call_number k rest
          else if d = CHR ''p'' then to_string (pid e) @ build_format_loop e call_number k rest
          else if d = CHR ''s'' then local_ip e @ build_format_loop e call_number k rest
          else if d = CHR ''r'' then to_string (rand e k) @ build_format_loop e call_number (k + 1) rest
          else if d = CHR ''%'' then CHR ''%'' # build_format_loop e call_number k rest
          else CHR ''%'' # d # build_format_loop e call_number k rest)"

definition build_format :: "call_id_env \<Rightarrow> nat \<Rightarrow> string" where
  "build_format e call_number = build_format_loop e call_number 0 (call_id_string e)"

definition fill_seed :: "call_id_env \<Rightarrow> nat \<Rightarrow> 64 word" where
  "fill_seed e call_number =
     (timestamp_micros e XOR push_bit 32 (of_nat call_number)) XOR push_bit 8 (of_nat (pid e))"

fun fill_loop :: "call_id_env \<Rightarrow> nat \<Rightarrow> nat \<Rightarrow> 64 word \<Rightarrow> nat list" where
  "fill_loop e i 0 seed = []"
| "fill_loop e i (Suc n) seed =
     (let s = (seed XOR push_bit (i mod 4 * 8) (of_nat (rand e i))) * 2862933555777941757 + 3037000493 + of_nat i
      in unat (drop_bit (i mod 8 * 8) s AND 255) # fill_loop e (i + 1) n s)"

definition fill_bytes :: "call_id_env \<Rightarrow> nat \<Rightarrow> nat \<Rightarrow> nat list" where
  "fill_bytes e call_number n = fill_loop e 0 n (fill_seed e call_number)"

definition hex_char :: "nat \<Rightarrow> char" where
  "hex_char n = ''0123456789abcdef'' ! n"

definition append_hex_bytes :: "nat list \<Rightarrow> string" where
  "append_hex_bytes bs = concat (map (\<lambda>b. [hex_char (b div 16), hex_char (b mod 16)]) bs)"

definition set_version :: "nat list \<Rightarrow> nat list" where
  "set_version bs = (bs[6 := (bs ! 6 AND 0x0f) OR 0x40])[8 := (bs ! 8 AND 0x3f) OR 0x80]"

definition build_uuid :: "call_id_env \<Rightarrow> nat \<Rightarrow> bool \<Rightarrow> string" where
  "build_uuid e call_number compact =
     (let bs = set_version (fill_bytes e call_number 16); dash = (if compact then [] else ''-'')
      in append_hex_bytes (take 4 bs) @ dash @ append_hex_bytes (take 2 (drop 4 bs)) @ dash @
         append_hex_bytes (take 2 (drop 6 bs)) @ dash @ append_hex_bytes (take 2 (drop 8 bs)) @ dash @
         append_hex_bytes (take 6 (drop 10 bs)) @ ''@'' @ local_ip e)"

definition build_random :: "call_id_env \<Rightarrow> nat \<Rightarrow> string" where
  "build_random e call_number =
     to_string call_number @ ''-'' @ append_hex_bytes (fill_bytes e call_number 16) @ ''@'' @ local_ip e"

definition build_timestamp :: "call_id_env \<Rightarrow> nat \<Rightarrow> string" where
  "build_timestamp e call_number =
     to_string (unat (timestamp_micros e)) @ ''-'' @ to_string call_number @ ''-'' @ to_string (pid e) @ ''@'' @ local_ip e"

datatype call_id_mode = CID_MODE_FORMAT | CID_MODE_UUID | CID_MODE_UUID_COMPACT | CID_MODE_RANDOM | CID_MODE_TIMESTAMP

definition build_call_id :: "call_id_mode \<Rightarrow> call_id_env \<Rightarrow> nat \<Rightarrow> string" where
  "build_call_id mode e call_number =
     take (MAX_HEADER_LEN - 1)
       (case mode of
          CID_MODE_UUID \<Rightarrow> build_uuid e call_number False
        | CID_MODE_UUID_COMPACT \<Rightarrow> build_uuid e call_number True
        | CID_MODE_RANDOM \<Rightarrow> build_random e call_number
        | CID_MODE_TIMESTAMP \<Rightarrow> build_timestamp e call_number
        | CID_MODE_FORMAT \<Rightarrow> build_format e call_number)"

section \<open>Circuits\<close>

fun tdm_loop :: "bool list \<Rightarrow> nat \<Rightarrow> nat \<Rightarrow> nat \<Rightarrow> nat" where
  "tdm_loop tdm_map random i 0 = 0"
| "tdm_loop tdm_map random i (Suc n) =
     (if \<not> tdm_map ! ((random + i) mod length tdm_map) then (random + i) mod length tdm_map + 1
      else tdm_loop tdm_map random (i + 1) n)"

text \<open>The number of a circuit that is not busy, from 1, or 0. The map has one entry for each circuit.\<close>

definition get_tdm_map_number :: "bool list \<Rightarrow> nat \<Rightarrow> nat" where
  "get_tdm_map_number tdm_map r = tdm_loop tdm_map (r mod length tdm_map) 0 (length tdm_map)"

section \<open>SDP\<close>

fun sdp_type_loop :: "string \<Rightarrow> string \<Rightarrow> bool" where
  "sdp_type_loop [] sdp = (sdp = [])"
| "sdp_type_loop (c # ct) sdp =
     (if c = CHR '';'' then sdp = []
      else if c = SP \<or> c = TAB \<or> c = CR \<or> c = LF then sdp_type_loop ct sdp
      else case sdp of [] \<Rightarrow> False | d # sdp' \<Rightarrow> if tolower c \<noteq> d then False else sdp_type_loop ct sdp')"

definition is_sdp_content_type :: "string \<Rightarrow> bool" where
  "is_sdp_content_type ct = sdp_type_loop ct ''application/sdp''"

definition sdp_end :: "char \<Rightarrow> bool" where
  "sdp_end c \<longleftrightarrow> c = SP \<or> c = CHR ''/'' \<or> c = CR \<or> c = LF"

definition find_in_sdp :: "string \<Rightarrow> string \<Rightarrow> string" where
  "find_in_sdp pattern msg =
     (case find_sub pattern msg of
        None \<Rightarrow> []
      | Some i \<Rightarrow>
          let rest = drop (i + length pattern) msg; v = takeWhile (\<lambda>c. \<not> sdp_end c) rest
          in if length v = length rest then [] else v)"

definition sdp_connection :: "string \<Rightarrow> string \<times> bool" where
  "sdp_connection part =
     (let host = find_in_sdp ''c=IN IP4 '' part
      in if host = [] then (find_in_sdp ''c=IN IP6 '' part, True) else (host, False))"

abbreviation M_LINE :: string where "M_LINE \<equiv> LF # ''m=''"

definition sdp_media_section :: "string \<Rightarrow> nat \<Rightarrow> string" where
  "sdp_media_section sdp pos =
     (case find_sub M_LINE (drop (pos + 1) sdp) of
        None \<Rightarrow> drop pos sdp
      | Some k \<Rightarrow> take (k + 1) (drop pos sdp))"

definition sdp_media_connection :: "string \<Rightarrow> string \<Rightarrow> string \<times> bool" where
  "sdp_media_connection sdp section =
     (case sdp_connection section of (host, ipv6) \<Rightarrow>
        if host = [] then sdp_connection (case find_sub M_LINE sdp of None \<Rightarrow> sdp | Some k \<Rightarrow> take k sdp)
        else (host, ipv6))"

text \<open>
  The port, its section and the position after it, where \<open>None\<close> is \<^verbatim>\<open>npos\<close>. \<^verbatim>\<open>std::from_chars\<close> reads a sign and digits
  and leaves the port at zero when there are none or the number does not fit in 32 bits.
\<close>

definition from_chars_int :: "string \<Rightarrow> int" where
  "from_chars_int s =
     (let neg = (s \<noteq> [] \<and> hd s = CHR ''-''); ds = takeWhile isdigit (if neg then tl s else s);
          v = (if neg then - int (decimal ds) else int (decimal ds))
      in if ds = [] \<or> v < - (2 ^ 31) \<or> v \<ge> 2 ^ 31 then 0 else v)"

definition sdp_media_port :: "string \<Rightarrow> string \<Rightarrow> nat option \<Rightarrow> int \<times> string \<times> nat option" where
  "sdp_media_port sdp prefix pos =
     (case pos of
        None \<Rightarrow> (0, [], None)
      | Some p \<Rightarrow>
          (case find_sub prefix (drop p sdp) of
             None \<Rightarrow> (0, [], None)
           | Some k \<Rightarrow>
               let section = sdp_media_section sdp (p + k); q = p + k + length prefix + 1
               in case find_sub [SP] (drop q sdp) of
                    None \<Rightarrow> (0, section, None)
                  | Some e \<Rightarrow> (from_chars_int (take e (drop q sdp)), section, Some (q + e))))"

definition sdp_media_remote :: "string \<Rightarrow> string \<Rightarrow> (string \<times> int) res" where
  "sdp_media_remote sdp prefix =
     (case sdp_media_port sdp prefix (Some 0) of (port1, section1, pos) \<Rightarrow>
        case (if port1 = 0 then sdp_media_port sdp prefix pos else (port1, section1, pos)) of (port, section, _) \<Rightarrow>
          if port = 0 then Inr ([], 0)
          else let host = fst (sdp_media_connection sdp section)
               in if host = [] then Inl (ERROR ''extract_rtp_remote_addr: no c= line in SDP message body'') else Inr (host, port))"

definition extract_rtp_remote_addr :: "string \<Rightarrow> ((string \<times> int) \<times> string \<times> int) res" where
  "extract_rtp_remote_addr msg =
     (case find_sub (CRLF @ CRLF) msg of
        None \<Rightarrow> Inl (ERROR ''extract_rtp_remote_addr: SDP message body not found'')
      | Some k \<Rightarrow>
          let sdp = drop (k + 2) msg
          in bindE (sdp_media_remote sdp (LF # ''m=audio'')) (\<lambda>audio.
             bindE (sdp_media_remote sdp (LF # ''m=video'')) (\<lambda>video. Inr (audio, video))))"

section \<open>Retransmissions\<close>

definition same_cseq :: "string \<Rightarrow> string \<Rightarrow> bool res" where
  "same_cseq a b = bindE (get_header_content a ''CSeq:'') (\<lambda>x. bindE (get_header_content b ''CSeq:'') (\<lambda>y. Inr (x = y)))"

text \<open>A \<^verbatim>\<open>char\<close> is signed.\<close>

definition char_ul :: "char \<Rightarrow> 64 word" where
  "char_ul c = (if byte c < 128 then of_nat (byte c) else of_nat (byte c) - 256)"

definition sdbm_p1 :: "64 word" where "sdbm_p1 = 65599"

fun sdbm_tail :: "string \<Rightarrow> 64 word \<Rightarrow> 64 word" where
  "sdbm_tail [] h = h"
| "sdbm_tail (c # s) h = sdbm_tail s (h * sdbm_p1 + char_ul c)"

fun sdbm_four :: "string \<Rightarrow> 64 word \<Rightarrow> 64 word" where
  "sdbm_four (a # b # c # d # s) h =
     (let p1 = sdbm_p1; p2 = p1 * p1; p3 = p2 * p1; p4 = p3 * p1
      in sdbm_four s (h * p4 + char_ul a * p3 + char_ul b * p2 + char_ul c * p1 + char_ul d))"
| "sdbm_four s h = sdbm_tail s h"

definition sdbm_hash :: "string \<Rightarrow> 64 word" where
  "sdbm_hash s = sdbm_four s 0"

definition hash_char :: "char \<Rightarrow> 64 word \<Rightarrow> 64 word" where
  "hash_char c h = char_ul c + push_bit 6 h + push_bit 16 h - h"

datatype rtcheck = RTCHECK_FULL | RTCHECK_LOOSE

fun hash_headers :: "string \<Rightarrow> string list \<Rightarrow> 64 word \<Rightarrow> 64 word res" where
  "hash_headers msg [] h = Inr h"
| "hash_headers msg (n # ns) h = bindE (get_header_content msg n) (\<lambda>v. hash_headers msg ns (fold hash_char v h))"

definition hash :: "rtcheck \<Rightarrow> string \<Rightarrow> 64 word res" where
  "hash check msg =
     (case check of
        RTCHECK_FULL \<Rightarrow> Inr (sdbm_hash msg)
      | RTCHECK_LOOSE \<Rightarrow>
          bindE (hash_headers msg [''To:'', ''From:'', ''Call-ID:'', ''CSeq:''] 0) (\<lambda>h.
            if has_prefix ''SIP/2.0'' msg then
              let h1 = fold hash_char (takeWhile (\<lambda>c. c \<noteq> CR) (drop 7 msg)) h
              in case find_sub (CRLF @ CRLF) msg of
                   None \<Rightarrow> Inr h1
                 | Some k \<Rightarrow> Inr (fold hash_char (drop (k + 4) msg) h1)
            else Inr h))"

section \<open>Methods and branches\<close>

definition is_lws :: "char \<Rightarrow> bool" where
  "is_lws c \<longleftrightarrow> c = SP \<or> c = TAB \<or> c = CR \<or> c = LF"

text \<open>\<open>n\<close> is the size of the buffer.\<close>

definition extract_cseq_method :: "nat \<Rightarrow> string \<Rightarrow> string res" where
  "extract_cseq_method n msg =
     bindE (get_header_content msg ''CSeq:'') (\<lambda>value.
       let v = dropWhile is_lws (dropWhile (\<lambda>c. \<not> is_lws c) (dropWhile is_lws value))
       in Inr (take (n - 1) (takeWhile (\<lambda>c. c \<noteq> CR \<and> c \<noteq> LF) v)))"

definition extract_transaction :: "nat \<Rightarrow> string \<Rightarrow> string res" where
  "extract_transaction n msg =
     bindE (get_header_content msg ''via:'') (\<lambda>value.
       case find_sub '';branch='' value of
         None \<Rightarrow> Inr []
       | Some k \<Rightarrow> Inr (take (n - 1) (takeWhile (\<lambda>c. c \<noteq> CHR '';'' \<and> c \<noteq> CHR '','' \<and> \<not> isspace c) (drop (k + 8) value))))"

section \<open>Route sets\<close>

definition formatNextReqUrl :: "string \<Rightarrow> string" where
  "formatNextReqUrl contact0 =
     (let contact = dropWhile is_blank contact0
      in case (strchr contact CHR ''<'', strchr contact CHR ''>'') of
           (Some start, Some end1) \<Rightarrow> if length end1 < length start then upto_ptr (tl start) end1 else contact
         | _ \<Rightarrow> contact)"

text \<open>The headers in the order of the dialog, the routes and the target so far, and whether a loose router was not seen yet.\<close>

fun route_loop :: "string list \<Rightarrow> bool \<Rightarrow> string list \<Rightarrow> string \<Rightarrow> string list \<times> string" where
  "route_loop [] first routes targetUri = (routes, targetUri)"
| "route_loop (header # hs) first routes targetUri =
     (if first \<and> find_sub '';lr'' header = None then route_loop hs first routes header
      else route_loop hs False (routes @ [trim header]) targetUri)"

text \<open>The route set and the target of the next request, where \<open>None\<close> leaves them as they are.\<close>

definition computeRouteSetAndRemoteTargetUri :: "string \<Rightarrow> string \<Rightarrow> bool \<Rightarrow> string option \<times> string option" where
  "computeRouteSetAndRemoteTargetUri rr contact bRequestIncoming =
     (if contact = [] then (None, None)
      else if rr = [] then (None, Some (formatNextReqUrl contact))
      else
        case route_loop (if bRequestIncoming then split rr CHR '','' else rev (split rr CHR '','')) True [] [] of
          (routes, targetUri) \<Rightarrow>
            let routes' = (if targetUri \<noteq> [] then routes @ [trim contact] else routes);
                target' = (if targetUri \<noteq> [] then targetUri else contact)
            in (if routes' \<noteq> [] then Some (join routes' '', '') else None, Some (formatNextReqUrl target')))"

section \<open>Headers for actions\<close>

definition is_token_char :: "char \<Rightarrow> bool" where
  "is_token_char c \<longleftrightarrow> isalnum c \<or> c \<in> set ''-.!%*_+`'~''"

definition colon_follows :: "string \<Rightarrow> bool" where
  "colon_follows ptr \<longleftrightarrow> (case dropWhile is_blank ptr of [] \<Rightarrow> False | c # _ \<Rightarrow> c = CHR '':'')"

text \<open>Where the next comparison is made, from the position \<open>ptr\<close> in the message; \<open>None\<close> ends the search.\<close>

definition sub_candidate :: "string \<Rightarrow> string \<Rightarrow> bool \<Rightarrow> bool \<Rightarrow> nat \<Rightarrow> nat option" where
  "sub_candidate msg m case_indep headers ptr =
     (if \<not> case_indep then map_option (\<lambda>k. ptr + k) (find_sub m (drop ptr msg))
      else if headers then
        if ptr = 0 then Some 0
        else (case find_sub [LF] (drop ptr msg) of
                None \<Rightarrow> None
              | Some k \<Rightarrow> if ptr + k + 1 < length msg then Some (ptr + k + 1) else None)
      else if m = [] then None
      else case (find_sub [toupper (hd m)] (drop ptr msg), find_sub [tolower (hd m)] (drop ptr msg)) of
             (None, None) \<Rightarrow> None
           | (None, Some k1) \<Rightarrow> Some (ptr + k1)
           | (Some k, None) \<Rightarrow> Some (ptr + k)
           | (Some k, Some k1) \<Rightarrow> Some (ptr + min k k1))"

lemma sub_candidate_ge: "sub_candidate msg m ci hs ptr = Some q \<Longrightarrow> ptr \<le> q"
  by (auto simp: sub_candidate_def split: if_splits option.splits)

function sub_loop :: "string \<Rightarrow> string \<Rightarrow> bool \<Rightarrow> bool \<Rightarrow> bool \<Rightarrow> int \<Rightarrow> nat \<Rightarrow> nat option" where
  "sub_loop msg m case_indep headers need_colon occurrence ptr =
     (if \<not> ptr < length msg then None
      else case sub_candidate msg m case_indep headers ptr of
        None \<Rightarrow> None
      | Some q \<Rightarrow>
          if case_indep \<and> \<not> starts_nocase msg q m then sub_loop msg m case_indep headers need_colon occurrence (q + 1)
          else if headers \<and> q \<noteq> 0 \<and> msg ! (q - 1) \<noteq> LF then sub_loop msg m case_indep headers need_colon occurrence (q + 1)
          else if need_colon \<and> \<not> colon_follows (drop (q + length m) msg)
            then sub_loop msg m case_indep headers need_colon occurrence (q + 1)
          else if occurrence \<le> 1 then (if q < length msg then Some q else None)
          else sub_loop msg m case_indep headers need_colon (occurrence - 1) (q + 1))"
  by pat_completeness auto
termination
  by (relation "measure (\<lambda>(msg, m, ci, hs, nc, occ, ptr). length msg - ptr)") (auto dest: sub_candidate_ge)

declare sub_loop.simps [simp del]

definition extractSubMessage :: "string \<Rightarrow> string \<Rightarrow> bool \<Rightarrow> int \<Rightarrow> bool \<Rightarrow> string" where
  "extractSubMessage msg m case_indep occurrence headers =
     (let rest = dropWhile is_token_char m;
          name = (rest \<noteq> m \<and> (rest = [] \<or> rest = '':''));
          need_colon = (name \<and> rest = [])
      in case sub_loop msg m case_indep (headers \<or> name) need_colon occurrence 0 of
           None \<Rightarrow> []
         | Some q \<Rightarrow> takeWhile (\<lambda>c. c \<noteq> CR \<and> c \<noteq> LF) (drop (q + length m) msg))"

end
