(* ===== verification/Call_Text_Correct.thy ===== *)
theory Call_Text_Correct
  imports Call_Text
begin

text \<open>
  The hash of retransmissions and the choice of a circuit.
\<close>

section \<open>The hash\<close>

lemma hash_char_poly: "hash_char c h = h * sdbm_p1 + char_ul c"
proof -
  have "push_bit 6 h + push_bit 16 h - h = h * 65599"
    by (simp add: push_bit_eq_mult algebra_simps)
  then show ?thesis by (simp add: hash_char_def sdbm_p1_def algebra_simps)
qed

lemma sdbm_tail_fold: "sdbm_tail s h = fold hash_char s h"
  by (induction s arbitrary: h) (simp_all add: hash_char_poly)

lemma sdbm_four_fold: "sdbm_four s h = fold hash_char s h"
  by (induction s h rule: sdbm_four.induct) (simp_all add: sdbm_tail_fold hash_char_poly Let_def algebra_simps)

text \<open>
  The hash of a whole message, which takes four characters at a time, is the one that the loose check makes a character at a time.
\<close>

theorem sdbm_hash_by_char: "sdbm_hash s = fold hash_char s 0"
  by (simp add: sdbm_hash_def sdbm_four_fold)

section \<open>Circuits\<close>

lemma tdm_loop_free:
  assumes "tdm_map \<noteq> []"
  shows "tdm_loop tdm_map r i n = m + 1 \<Longrightarrow> m < length tdm_map \<and> \<not> tdm_map ! m"
  using assms by (induction tdm_map r i n rule: tdm_loop.induct) (auto split: if_splits)

lemma tdm_loop_busy: "tdm_loop tdm_map r i n = 0 \<Longrightarrow> j < n \<Longrightarrow> tdm_map ! ((r + i + j) mod length tdm_map)"
proof (induction tdm_map r i n arbitrary: j rule: tdm_loop.induct)
  case (2 tdm_map r i n)
  then show ?case by (cases j) (auto split: if_splits)
qed simp

text \<open>
  A circuit that is found is one of the map and not busy; none is found only when all are busy, wherever the search starts.
\<close>

theorem tdm_circuit_found:
  assumes "tdm_map \<noteq> []"
  shows "if get_tdm_map_number tdm_map r = 0 then list_all (\<lambda>b. b) tdm_map
    else get_tdm_map_number tdm_map r \<le> length tdm_map \<and> \<not> tdm_map ! (get_tdm_map_number tdm_map r - 1)"
proof (cases "get_tdm_map_number tdm_map r")
  case 0
  let ?n = "length tdm_map"
  have n: "?n > 0" using assms by simp
  have busy: "j < ?n \<Longrightarrow> tdm_map ! ((r mod ?n + j) mod ?n)" for j
    using tdm_loop_busy [of tdm_map "r mod ?n" 0 ?n j] 0 by (simp add: get_tdm_map_number_def)
  have "tdm_map ! k" if "k < ?n" for k
  proof -
    let ?j = "(k + (?n - r mod ?n)) mod ?n"
    have "(r mod ?n + ?j) mod ?n = (r mod ?n + (k + (?n - r mod ?n))) mod ?n" by (simp add: mod_add_right_eq)
    also have "r mod ?n + (k + (?n - r mod ?n)) = k + ?n" using mod_less_divisor [OF n, of r] by linarith
    also have "(k + ?n) mod ?n = k" using that by simp
    finally show ?thesis using busy [of ?j] n by simp
  qed
  then show ?thesis using 0 by (simp add: list_all_length)
next
  case (Suc m)
  then show ?thesis using tdm_loop_free [OF assms, of "r mod length tdm_map" 0 "length tdm_map" m]
    by (auto simp: get_tdm_map_number_def)
qed

section \<open>Route sets\<close>

text \<open>
  Two routers, both strict: the request goes to the second, with the contact as its only route, and the first is in neither.
  With the second one loose it goes to the first.
\<close>

lemma strict_router_lost:
  "computeRouteSetAndRemoteTargetUri ''<sip:a>,<sip:b>'' ''<sip:c>'' True = (Some ''<sip:c>'', Some ''sip:b'')"
  "computeRouteSetAndRemoteTargetUri ''<sip:a>,<sip:b;lr>'' ''<sip:c>'' True = (Some ''<sip:b;lr>, <sip:c>'', Some ''sip:a'')"
  by code_simp+

end
