(* ===== verification/Call_State.thy ===== *)
theory Call_State
  imports Call_Text Stat Infile Auth
begin

text \<open>
  The state of a call (\<^verbatim>\<open>call.hpp\<close>), the messages of its scenario (\<^verbatim>\<open>scenario.hpp\<close>) and their actions (\<^verbatim>\<open>actions.hpp\<close>), and the world
  that the operations of a call change.

  A call is deleted by its own operations. The call in the world is an option: an operation reads its members through
  \<open>with_call\<close>, and doing so after the call was deleted is \<open>Undefined\<close>, the access to freed memory that it is in the source.

  What a call asks of its surroundings is in \<open>outside\<close>: results of sockets, random numbers, clocks, the
  regular expressions of the C library, the text that a template is filled to, media. Each question takes the next
  number, so two questions can have different answers. Doubles are a type of values with the operations in \<open>doubles\<close>.
  What a call does to its surroundings is the list \<open>trace\<close>.
\<close>

section \<open>Actions\<close>

text \<open>The types of actions. Those of media that only start, pause or resume a stream are one.\<close>

datatype T_ActionType =
    E_AT_NO_ACTION | E_AT_ASSIGN_FROM_REGEXP | E_AT_ASSIGN_FROM_VALUE | E_AT_ASSIGN_FROM_INDEX | E_AT_ASSIGN_FROM_GETTIMEOFDAY
  | E_AT_ASSIGN_FROM_SAMPLE | E_AT_ASSIGN_FROM_STRING | E_AT_JUMP | E_AT_PAUSE_RESTORE | E_AT_LOOKUP | E_AT_INSERT
  | E_AT_REPLACE | E_AT_LOG_TO_FILE | E_AT_LOG_WARNING | E_AT_LOG_ERROR | E_AT_EXECUTE_CMD | E_AT_EXEC_LUA
  | E_AT_VERIFY_CMD | E_AT_EXEC_INTCMD | E_AT_VAR_ADD | E_AT_VAR_SUBTRACT | E_AT_VAR_MULTIPLY | E_AT_VAR_DIVIDE
  | E_AT_VAR_TEST | E_AT_VAR_TO_DOUBLE | E_AT_VAR_STRCMP | E_AT_VAR_TRIM | E_AT_VAR_URLDECODE | E_AT_VAR_URLENCODE
  | E_AT_VERIFY_AUTH | E_AT_SET_DEST | E_AT_CLOSE_CON | E_AT_RTP_STREAM_WAIT | E_AT_RTP_STREAM_RTPECHO_STOP
  | E_AT_RTP_STATS | E_AT_RTP_DTMF | E_AT_RTP_STREAM_OTHER

datatype T_LookingPlace = E_LP_MSG | E_LP_HDR | E_LP_BODY | E_LP_VAR
datatype T_Comparator = E_C_EQ | E_C_NE | E_C_GT | E_C_LT | E_C_GEQ | E_C_LEQ
datatype T_IntCmdType = E_INTCMD_INVALID | E_INTCMD_STOPCALL | E_INTCMD_STOP_ALL | E_INTCMD_STOP_NOW

record 'd caction =
  M_action :: T_ActionType
  M_lookingPlace :: T_LookingPlace
  M_comp :: T_Comparator
  M_checkIt :: bool
  M_checkItInverse :: bool
  M_caseIndep :: bool
  M_headersOnly :: bool
  M_varId :: int
  M_varInId :: int
  M_varIn2Id :: int
  M_occurrence :: int
  M_subVarId :: "int list"
  M_lookingChar :: string
  M_message :: "sending_message list"
  M_IntCmd :: T_IntCmdType
  M_doubleValue :: 'd
  M_stringValue :: string
  M_regularExpression :: string

section \<open>Messages of a scenario\<close>

datatype message_type = MSG_TYPE_SENDCMD | MSG_TYPE_RECVCMD | MSG_TYPE_SEND | MSG_TYPE_RECV | MSG_TYPE_PAUSE | MSG_TYPE_NOP
datatype optionality = OPTIONAL_FALSE | OPTIONAL_TRUE | OPTIONAL_GLOBAL

text \<open>The counters of a message are in the world. \<open>pause_distribution\<close> tells whether there is one.\<close>

record 'd message =
  m_index :: int
  m_type :: message_type
  pause_distribution :: bool
  pause_variable :: int
  m_timewait :: bool
  bShouldRecordRoutes :: bool
  bShouldAuthenticate :: bool
  send_scheme :: "sending_message option"
  retrans_delay :: "32 word"
  m_timeout :: "32 word"
  timeout_variable :: int
  peer_dest :: string
  peer_src :: string
  recv_response :: "string option"
  recv_response_code :: int
  recv_request :: "string option"
  m_optional :: optionality
  advance_state :: bool
  regexp_match :: bool
  start_rtd :: "int list"
  stop_rtd :: "int list"
  repeat_rtd :: bool
  m_counter :: int
  ignoresdp :: bool
  m_next :: int
  m_test :: int
  condexec :: int
  condexec_inverse :: bool
  chance :: int
  on_timeout :: int
  M_actions :: "'d caction list"
  M_sendCmdData :: "sending_message option"
  cseq_method_list :: string
  start_txn :: nat
  ack_txn :: nat
  response_txn :: nat
  m_dialog :: int

text \<open>A message as it is made, before its attributes are read.\<close>

definition new_message :: "int \<Rightarrow> 'd message" where
  "new_message i =
     \<lparr>m_index = i, m_type = MSG_TYPE_SENDCMD, pause_distribution = False, pause_variable = - 1, m_timewait = False,
      bShouldRecordRoutes = False, bShouldAuthenticate = False, send_scheme = None, retrans_delay = 0, m_timeout = 0,
      timeout_variable = - 1, peer_dest = [], peer_src = [], recv_response = None, recv_response_code = 0, recv_request = None,
      m_optional = OPTIONAL_FALSE, advance_state = True, regexp_match = False, start_rtd = [], stop_rtd = [], repeat_rtd = False,
      m_counter = 0, ignoresdp = False, m_next = - 1, m_test = - 1, condexec = - 1, condexec_inverse = False, chance = 0,
      on_timeout = - 1, M_actions = [], M_sendCmdData = None, cseq_method_list = [], start_txn = 0, ack_txn = 0,
      response_txn = 0, m_dialog = 0\<rparr>"

record 'd scenario =
  messages :: "'d message list"
  initmessages :: "'d message list"
  txn_is_invite :: "bool list"
  unexpected_jump :: int
  retaddr :: int
  pausedaddr :: int
  has_dialogs :: bool

section \<open>Calls\<close>

record txnInstanceInfo =
  txnID :: "string option"
  txnResp :: "64 word"
  ackIndex :: int
  txn_request :: string
  requestHash :: "64 word"
  requestIndex :: int
  txn_response :: string
  responseIndex :: int
  txn_dialog :: int

record call_dialog =
  d_call_id :: string
  d_cseq :: "32 word"
  d_last_recv_invite_cseq :: nat
  d_peer_tag :: "string option"
  d_last_recv_msg :: string
  d_dialog_route_set :: "string option"
  d_next_req_url :: string

text \<open>The dialogs by number, in the order of their numbers.\<close>

record call_dialogs =
  dialog_list :: "(int \<times> call_dialog) list"
  current :: int
  incoming :: int

datatype T_ActionResult =
    E_AR_NO_ERROR | E_AR_REGEXP_DOESNT_MATCH | E_AR_REGEXP_SHOULDNT_MATCH | E_AR_STOP_CALL | E_AR_CONNECT_FAILED
  | E_AR_HDR_NOT_FOUND | E_AR_TEST_DOESNT_MATCH | E_AR_TEST_SHOULDNT_MATCH | E_AR_STRCMP_DOESNT_MATCH
  | E_AR_STRCMP_SHOULDNT_MATCH | E_AR_RTPECHO_ERROR | E_AR_VERIFY_FAILED

datatype SessionState = eNoSession | eOfferReceived | eOfferSent | eOfferRejected | eAnswerReceived | eAnswerSent | eCompleted

record call =
  c_id :: string
  c_running :: bool
  msg_index :: int
  zombie :: bool
  initCall :: bool
  last_send_index :: int
  last_send_msg :: string
  last_send_unanswered :: bool
  send_timeout :: "32 word"
  last_recv_hash :: "64 word"
  last_recv_index :: int
  last_recv_msg :: string
  last_recv_invite_cseq :: nat
  recv_retrans_hash :: "64 word"
  recv_retrans_recv_index :: int
  recv_retrans_send_index :: int
  recv_retrans_last :: bool
  recv_retrans_msg :: string
  recv_timeout :: "32 word"
  cseq :: "32 word"
  next_retrans :: "32 word"
  nb_retrans :: int
  nb_last_delay :: "32 word"
  paused_until :: "32 word"
  rtpstream_wait_check :: "32 word"
  rtpstream_wait_until :: "32 word"
  rtpstream_wait_msg :: "(bool \<times> int) option"
  verify_pending :: int
  start_time :: "64 word"
  start_time_rtd :: "64 word list"
  rtd_done :: "bool list"
  peer_tag :: "string option"
  call_established :: bool
  ack_is_pending :: bool
  bye_after_peer_request :: bool
  M_callVariableTable :: "addr option"
  transactions :: "txnInstanceInfo list"
  last_action_result :: T_ActionResult
  timewait :: bool
  call_socket :: bool
  dialogs :: "call_dialogs option"
  dialog_route_set :: "string option"
  next_req_url :: string
  dialog_authentication :: string
  dialog_challenge_type :: int
  next_nonce_count :: "32 word"
  queued_msg :: string
  queued_sdp_read :: bool
  queued_cmd :: string
  sessionStateCurrent :: SessionState
  sessionStateOld :: SessionState

section \<open>The world of a call\<close>

text \<open>What happens, in order.\<close>

datatype call_event =
    Counted e_action
  | Counted_value e_action "64 word" int
  | Counted_global e_action
  | Response_code nat
  | Rtp_echo_errors int
  | Sent int string
  | Command_sent string
  | Dead_call string string int bool bool
  | Listening string
  | Stopped_listening
  | Duration "64 word"
  | Socket_closed
  | Quit

datatype counter_of_message = nb_sent | nb_recv | nb_sent_retrans | nb_recv_retrans | nb_timeout | nb_unexp | nb_lost | sessions | M_nbCmdSent | M_nbCmdRecv

text \<open>A message is known by whether it is an \<^verbatim>\<open><init>\<close> message and its index.\<close>

record 'd world =
  this :: "call option"
  vars :: "'d store"
  files :: "string \<Rightarrow> infile option"
  counts :: "bool \<times> int \<Rightarrow> counter_of_message \<Rightarrow> 64 word"
  trace :: "call_event list"
  answers :: nat

datatype write_result = Written | Would_block | Write_failed
datatype connect_result = Connected | Connect_failed | Connect_fatal

record 'd doubles =
  d_zero :: 'd
  d_nonzero :: "'d \<Rightarrow> bool"
  d_of_int :: "int \<Rightarrow> 'd"
  d_to_int :: "'d \<Rightarrow> int"
  d_of_bool :: "bool \<Rightarrow> 'd"
  d_add :: "'d \<Rightarrow> 'd \<Rightarrow> 'd"
  d_sub :: "'d \<Rightarrow> 'd \<Rightarrow> 'd"
  d_mul :: "'d \<Rightarrow> 'd \<Rightarrow> 'd"
  d_div :: "'d \<Rightarrow> 'd \<Rightarrow> 'd"
  d_eq :: "'d \<Rightarrow> 'd \<Rightarrow> bool"
  d_less :: "'d \<Rightarrow> 'd \<Rightarrow> bool"
  d_strtod :: "string \<Rightarrow> 'd \<times> string"

record 'd outside =
  o_write :: "nat \<Rightarrow> write_result"
  o_all_written :: "nat \<Rightarrow> bool"
  o_rand :: "nat \<Rightarrow> int"
  o_lost :: "nat \<Rightarrow> int \<Rightarrow> bool"
  o_ms :: "nat \<Rightarrow> 64 word"
  o_us :: "nat \<Rightarrow> 64 word"
  o_timeofday :: "nat \<Rightarrow> 'd \<times> 'd"
  o_sample :: "nat \<Rightarrow> 'd"
  o_connect :: "nat \<Rightarrow> connect_result"
  o_setdest :: "nat \<Rightarrow> connect_result"
  o_render :: "nat \<Rightarrow> sending_message \<Rightarrow> int \<Rightarrow> string"
  o_regexec :: "string \<Rightarrow> string \<Rightarrow> (nat \<times> nat) option list option"
  o_play_end :: "nat \<Rightarrow> 64 word"
  o_echo_stop :: "nat \<Rightarrow> int"
  o_received :: "nat \<Rightarrow> 'd \<times> 'd \<times> string \<times> (int \<times> char) list"
  o_strcmp :: "string \<Rightarrow> string \<Rightarrow> int"
  o_lua :: "nat \<Rightarrow> 'd store \<Rightarrow> 'd store"
  o_srtp_error :: "string \<Rightarrow> bool"

record 'd call_env =
  clock_tick :: "64 word"
  call_scenario :: "'d scenario"
  dbl :: "'d doubles"
  out :: "'d outside"
  ssl :: ssl_lib
  auth_uri_opt :: "string option"
  transport_udp :: bool
  multisocket :: bool
  mode_client :: bool
  retrans_enabled :: bool
  pause_msg_ign :: bool
  lose_packets :: bool
  rtcheck_mode :: rtcheck
  behavior_bye :: bool
  behavior_abortunexp :: bool
  behavior_pingreply :: bool
  behavior_badcseq :: bool
  auto_answer :: bool
  twinSippSocket :: bool
  extendedTwinSippMode :: bool
  sendbuffer_warn :: bool
  has_media :: bool
  dump_in_rtt :: bool
  callidSlash :: bool
  deadcall_wait :: "64 word"
  defl_recv_timeout :: "64 word"
  defl_send_timeout :: "64 word"
  global_t2 :: "32 word"
  base_cseq :: "32 word"
  max_invite_retrans :: int
  max_non_invite_retrans :: int
  max_udp_retrans :: int
  default_message :: "string \<Rightarrow> sending_message"

end
