(* ===== verification/State_Ops.thy ===== *)
theory State_Ops
  imports Sipp_Prelude
begin

text \<open>
  Operations on a state that can fail. An operation takes the state and returns its result with the new state, or
  the failure. The calls and the building of scenarios are written with these.
\<close>

type_synonym ('s, 'a) sop = "'s \<Rightarrow> ('a \<times> 's) res"

definition ret :: "'a \<Rightarrow> ('s, 'a) sop" where
  "ret a w = Inr (a, w)"

definition bindM :: "('s, 'a) sop \<Rightarrow> ('a \<Rightarrow> ('s, 'b) sop) \<Rightarrow> ('s, 'b) sop" where
  "bindM m f w = bindE (m w) (\<lambda>(a, w'). f a w')"

definition thenM :: "('s, 'a) sop \<Rightarrow> ('s, 'b) sop \<Rightarrow> ('s, 'b) sop" where
  "thenM m k = bindM m (\<lambda>_. k)"

definition fail :: "cpp_error \<Rightarrow> ('s, 'a) sop" where
  "fail e w = Inl e"

definition lift :: "'a res \<Rightarrow> ('s, 'a) sop" where
  "lift r w = bindE r (\<lambda>a. Inr (a, w))"

definition whenM :: "bool \<Rightarrow> ('s, unit) sop \<Rightarrow> ('s, unit) sop" where
  "whenM b m = (if b then m else ret ())"

fun for_each :: "('a \<Rightarrow> ('s, unit) sop) \<Rightarrow> 'a list \<Rightarrow> ('s, unit) sop" where
  "for_each f [] = ret ()"
| "for_each f (x # xs) = thenM (f x) (for_each f xs)"

section \<open>Operations along a relation\<close>

text \<open>The new state is related to the old one.\<close>

definition along :: "('s \<Rightarrow> 's \<Rightarrow> bool) \<Rightarrow> ('s, 'a) sop \<Rightarrow> bool" where
  "along R m \<longleftrightarrow> (\<forall>w a w'. m w = Inr (a, w') \<longrightarrow> R w w')"

lemma alongD: "along R m \<Longrightarrow> m w = Inr (a, w') \<Longrightarrow> R w w'"
  by (simp add: along_def)

lemma along_weaken: "along R m \<Longrightarrow> (\<And>w w'. R w w' \<Longrightarrow> Q w w') \<Longrightarrow> along Q m"
  by (auto simp: along_def)

lemma along_fail: "along R (fail e)"
  by (simp add: along_def fail_def)

lemma along_if: "(b \<Longrightarrow> along R x) \<Longrightarrow> (\<not> b \<Longrightarrow> along R y) \<Longrightarrow> along R (if b then x else y)"
  by simp

lemma along_option: "(r = None \<Longrightarrow> along R x) \<Longrightarrow> (\<And>a. r = Some a \<Longrightarrow> along R (f a)) \<Longrightarrow> along R (case r of None \<Rightarrow> x | Some a \<Rightarrow> f a)"
  by (cases r) simp_all

lemma along_prod: "(\<And>a b. along R (f a b)) \<Longrightarrow> along R (case p of (a, b) \<Rightarrow> f a b)"
  by (cases p) simp

lemma along_list: "along R x \<Longrightarrow> (\<And>a as. along R (f a as)) \<Longrightarrow> along R (case xs of [] \<Rightarrow> x | a # as \<Rightarrow> f a as)"
  by (cases xs) simp_all

lemma along_let: "(\<And>x. along R (f x)) \<Longrightarrow> along R (Let a f)"
  by simp

locale step_relation =
  fixes R :: "'s \<Rightarrow> 's \<Rightarrow> bool"
  assumes R_refl: "R w w" and R_trans: "R w w' \<Longrightarrow> R w' w'' \<Longrightarrow> R w w''"
begin

lemma along_ret: "along R (ret a)"
  by (simp add: along_def ret_def R_refl)

lemma along_lift: "along R (lift r)"
  by (auto simp: along_def lift_def R_refl)

lemma along_bind: "along R m \<Longrightarrow> (\<And>a. along R (f a)) \<Longrightarrow> along R (bindM m f)"
  unfolding along_def bindM_def by (auto split: prod.splits) (blast intro: R_trans)

lemma along_then: "along R m \<Longrightarrow> along R k \<Longrightarrow> along R (thenM m k)"
  by (simp add: thenM_def along_bind)

lemma along_when: "along R m \<Longrightarrow> along R (whenM b m)"
  by (simp add: whenM_def along_ret)

lemma along_each: "(\<And>x. along R (f x)) \<Longrightarrow> along R (for_each f xs)"
  by (induction xs) (simp_all add: along_ret along_then)

lemmas along_rules = along_then along_bind along_when along_each along_if along_option along_prod along_list along_let along_ret along_lift along_fail

end

section \<open>Results of operations\<close>

text \<open>When the new state satisfies \<open>C\<close>, the result satisfies \<open>Q\<close>.\<close>

definition yields :: "('s \<Rightarrow> bool) \<Rightarrow> ('a \<Rightarrow> bool) \<Rightarrow> ('s, 'a) sop \<Rightarrow> bool" where
  "yields C Q m \<longleftrightarrow> (\<forall>w a w'. m w = Inr (a, w') \<longrightarrow> C w' \<longrightarrow> Q a)"

lemma yieldsD: "yields C Q m \<Longrightarrow> m w = Inr (a, w') \<Longrightarrow> C w' \<Longrightarrow> Q a"
  by (simp add: yields_def)

lemma yields_weaken: "yields C P m \<Longrightarrow> (\<And>a. P a \<Longrightarrow> Q a) \<Longrightarrow> yields C Q m"
  by (auto simp: yields_def)

lemma yields_ret: "Q a \<Longrightarrow> yields C Q (ret a)"
  by (simp add: yields_def ret_def)

lemma yields_fail: "yields C Q (fail e)"
  by (simp add: yields_def fail_def)

lemma yields_bind: "(\<And>a. yields C Q (f a)) \<Longrightarrow> yields C Q (bindM m f)"
  unfolding yields_def bindM_def by (auto split: prod.splits)

lemma yields_known: "yields (\<lambda>_. True) P m \<Longrightarrow> (\<And>a. P a \<Longrightarrow> yields C Q (f a)) \<Longrightarrow> yields C Q (bindM m f)"
  unfolding yields_def bindM_def by (auto split: prod.splits) blast

lemma yields_then: "yields C Q k \<Longrightarrow> yields C Q (thenM m k)"
  by (simp add: thenM_def yields_bind)

lemma yields_if: "(b \<Longrightarrow> yields C Q x) \<Longrightarrow> (\<not> b \<Longrightarrow> yields C Q y) \<Longrightarrow> yields C Q (if b then x else y)"
  by simp

lemma yields_option:
  "(r = None \<Longrightarrow> yields C Q x) \<Longrightarrow> (\<And>a. r = Some a \<Longrightarrow> yields C Q (f a)) \<Longrightarrow> yields C Q (case r of None \<Rightarrow> x | Some a \<Rightarrow> f a)"
  by (cases r) simp_all

lemma yields_prod: "(\<And>a b. yields C Q (f a b)) \<Longrightarrow> yields C Q (case p of (a, b) \<Rightarrow> f a b)"
  by (cases p) simp

lemmas yields_rules = yields_then yields_bind yields_if yields_option yields_prod yields_fail yields_ret

text \<open>A condition on the last state that held of all earlier ones.\<close>

locale traced_back = step_relation +
  fixes C :: "'a \<Rightarrow> bool"
  assumes C_back: "R w w' \<Longrightarrow> C w' \<Longrightarrow> C w"
begin

lemma yields_use: "yields C P m \<Longrightarrow> (\<And>a. P a \<Longrightarrow> yields C Q (f a)) \<Longrightarrow> (\<And>a. along R (f a)) \<Longrightarrow> yields C Q (bindM m f)"
  unfolding yields_def along_def bindM_def by (auto split: prod.splits) (blast intro: C_back)

lemma yields_use_then: "yields C (\<lambda>_. p) m \<Longrightarrow> (p \<Longrightarrow> yields C Q k) \<Longrightarrow> along R k \<Longrightarrow> yields C Q (thenM m k)"
  unfolding thenM_def by (rule yields_use)

end

end
