(* ===== verification/Call_Ops.thy ===== *)
theory Call_Ops
  imports Call_State State_Ops
begin

text \<open>
  The operations of a call that do not run its scenario further: counting, sending, ending, dialogs, timeouts and
  the responses that need no scenario. An operation takes the world and returns its result with the new world.
\<close>

section \<open>Operations\<close>

type_synonym ('d, 'a) op = "('d world, 'a) sop"

definition ask :: "(nat \<Rightarrow> 'a) \<Rightarrow> ('d, 'a) op" where
  "ask f w = Inr (f (answers w), w\<lparr>answers := Suc (answers w)\<rparr>)"

definition emit :: "call_event \<Rightarrow> ('d, unit) op" where
  "emit e w = Inr ((), w\<lparr>trace := trace w @ [e]\<rparr>)"

definition get_call :: "('d, call) op" where
  "get_call w = (case this w of None \<Rightarrow> Inl Undefined | Some c \<Rightarrow> Inr (c, w))"

definition with_call :: "(call \<Rightarrow> ('d, 'a) op) \<Rightarrow> ('d, 'a) op" where
  "with_call f = bindM get_call f"

definition set_call :: "(call \<Rightarrow> call) \<Rightarrow> ('d, unit) op" where
  "set_call f = with_call (\<lambda>c w. Inr ((), w\<lparr>this := Some (f c)\<rparr>))"

definition bump_count :: "bool \<times> int \<Rightarrow> counter_of_message \<Rightarrow> ('d, unit) op" where
  "bump_count m k w = Inr ((), w\<lparr>counts := (counts w)(m := (counts w m)(k := counts w m k + 1))\<rparr>)"

definition nth_message :: "'d message list \<Rightarrow> int \<Rightarrow> ('d, 'd message) op" where
  "nth_message ms i w = (if 0 \<le> i \<and> i < int (length ms) then Inr (ms ! nat i, w) else Inl Undefined)"

abbreviation msgs :: "'d call_env \<Rightarrow> 'd message list" where
  "msgs env \<equiv> messages (call_scenario env)"

definition msgs_of :: "'d call_env \<Rightarrow> call \<Rightarrow> 'd message list" where
  "msgs_of env c = (if initCall c then initmessages (call_scenario env) else msgs env)"

definition count_stat :: "e_action \<Rightarrow> ('d, unit) op" where
  "count_stat a = with_call (\<lambda>c. emit (Counted a))"

definition count_value :: "e_action \<Rightarrow> 64 word \<Rightarrow> int \<Rightarrow> ('d, unit) op" where
  "count_value a v which = with_call (\<lambda>c. emit (Counted_value a v which))"

section \<open>Variables\<close>

definition read_var :: "int \<Rightarrow> ('d, 'd call_variable) op" where
  "read_var i = with_call (\<lambda>c w.
     case M_callVariableTable c of
       None \<Rightarrow> Inl Undefined
     | Some p \<Rightarrow> bindE (getVar (vars w) p i) (\<lambda>(q, j). bindE (table_at (vars w) q) (\<lambda>t. Inr (variableTable t ! j, w))))"

definition write_var :: "int \<Rightarrow> ('d call_variable \<Rightarrow> 'd call_variable) \<Rightarrow> ('d, unit) op" where
  "write_var i f = with_call (\<lambda>c w.
     case M_callVariableTable c of
       None \<Rightarrow> Inl Undefined
     | Some p \<Rightarrow> bindE (getVar (vars w) p i) (\<lambda>(q, j). bindE (table_at (vars w) q) (\<lambda>t.
         Inr ((), w\<lparr>vars := put_at q (t\<lparr>variableTable := (variableTable t)[j := f (variableTable t ! j)]\<rparr>) (vars w)\<rparr>))))"

definition var_is_set :: "'d call_env \<Rightarrow> int \<Rightarrow> ('d, bool) op" where
  "var_is_set env i = bindM (read_var i) (\<lambda>v. lift (isSet (d_nonzero (dbl env)) v))"

definition get_var_double :: "'d call_env \<Rightarrow> int \<Rightarrow> ('d, 'd) op" where
  "get_var_double env varId =
     bindM (read_var varId) (\<lambda>v.
     bindM (lift (toDouble (d_strtod (dbl env)) (d_of_bool (dbl env)) v)) (\<lambda>r.
       case r of Some d \<Rightarrow> ret d | None \<Rightarrow> bindM (lift (isSet (d_nonzero (dbl env)) v)) (\<lambda>_. ret (d_zero (dbl env)))))"

section \<open>Timers\<close>

definition setPaused_call :: "('d, unit) op" where
  "setPaused_call = set_call (\<lambda>c. c\<lparr>c_running := False\<rparr>)"

definition setRunning_call :: "('d, unit) op" where
  "setRunning_call = set_call (\<lambda>c. c\<lparr>c_running := True\<rparr>)"

definition earlier :: "32 word \<Rightarrow> 32 word \<Rightarrow> 32 word" where
  "earlier w t = (if t \<noteq> 0 \<and> (w = 0 \<or> t < w) then t else w)"

definition wake :: "call \<Rightarrow> 32 word" where
  "wake c =
     (if zombie c then 0
      else earlier (earlier (earlier (paused_until c) (next_retrans c)) (recv_timeout c)) (rtpstream_wait_check c))"

abbreviation INT_MAX :: int where "INT_MAX \<equiv> 2 ^ 31 - 1"

definition recvTimeout :: "'d call_env \<Rightarrow> 'd message \<Rightarrow> ('d, 32 word) op" where
  "recvTimeout env curmsg =
     (if timeout_variable curmsg = - 1 then ret (m_timeout curmsg)
      else bindM (get_var_double env (timeout_variable curmsg)) (\<lambda>t.
        if d_less (dbl env) t (d_of_int (dbl env) 1) \<or> \<not> (d_less (dbl env) (d_of_int (dbl env) 1) t \<or> d_eq (dbl env) t (d_of_int (dbl env) 1))
        then ret 0
        else if d_less (dbl env) (d_of_int (dbl env) INT_MAX) t then ret (of_int INT_MAX)
        else ret (of_int (d_to_int (dbl env) t))))"

definition pastLastMessage :: "'d call_env \<Rightarrow> call \<Rightarrow> bool" where
  "pastLastMessage env c \<longleftrightarrow> msg_index c \<ge> int (length (msgs_of env c))"

definition rtpstreamWaitNextCheck :: "'d call_env \<Rightarrow> 64 word \<Rightarrow> ('d, unit) op" where
  "rtpstreamWaitNextCheck env play_end =
     set_call (\<lambda>c.
       let check = (if play_end > clock_tick env \<and> play_end \<noteq> - 1 then ucast play_end else ucast (clock_tick env + 20)) :: 32 word
       in c\<lparr>rtpstream_wait_check :=
              (if rtpstream_wait_until c \<noteq> 0 \<and> rtpstream_wait_until c < check then rtpstream_wait_until c else check)\<rparr>)"

section \<open>The end of a call\<close>

definition dialogIds :: "call \<Rightarrow> string list" where
  "dialogIds c =
     (case dialogs c of None \<Rightarrow> [] | Some d \<Rightarrow> filter (\<lambda>s. s \<noteq> []) (map (d_call_id \<circ> snd) (dialog_list d)))"

definition put_vars :: "addr option \<Rightarrow> ('d, unit) op" where
  "put_vars po w = (case po of None \<Rightarrow> Inr ((), w) | Some p \<Rightarrow> bindE (putTable (vars w) p) (\<lambda>h. Inr ((), w\<lparr>vars := h\<rparr>)))"

definition forget_this :: "('d, unit) op" where
  "forget_this w = Inr ((), w\<lparr>this := None\<rparr>)"

text \<open>\<^verbatim>\<open>delete this\<close>: the destructor of the call and of its socket.\<close>

definition delete_this :: "'d call_env \<Rightarrow> ('d, unit) op" where
  "delete_this env = with_call (\<lambda>c.
     thenM (count_value E_ADD_CALL_DURATION (clock_tick env - start_time c) 0)
     (thenM (put_vars (M_callVariableTable c))
     (thenM (whenM (call_socket c) (emit Socket_closed)) forget_this)))"

fun dead_calls :: "string list \<Rightarrow> string \<Rightarrow> int \<Rightarrow> bool \<Rightarrow> bool \<Rightarrow> ('d, unit) op" where
  "dead_calls [] reason i sent_bye sent_cancel = ret ()"
| "dead_calls (s # ss) reason i sent_bye sent_cancel =
     thenM (emit (Dead_call s reason i sent_bye sent_cancel)) (dead_calls ss reason i sent_bye sent_cancel)"

text \<open>The call goes, and leaves dead calls under its Call-IDs when there is a reason.\<close>

definition delete_leaving :: "'d call_env \<Rightarrow> string option \<Rightarrow> bool \<Rightarrow> bool \<Rightarrow> ('d, unit) op" where
  "delete_leaving env reason sent_bye sent_cancel = with_call (\<lambda>c.
     case reason of
       None \<Rightarrow> delete_this env
     | Some r \<Rightarrow> thenM (delete_this env) (dead_calls (c_id c # dialogIds c) r (msg_index c) sent_bye sent_cancel))"

text \<open>The counter of a result of actions and the reason it leaves; some count no more than the failure.\<close>

fun failed_counter :: "T_ActionResult \<Rightarrow> e_action option \<times> string" where
  "failed_counter E_AR_REGEXP_DOESNT_MATCH = (Some E_FAILED_REGEXP_DOESNT_MATCH, ''regexp match failure at index %d'')"
| "failed_counter E_AR_REGEXP_SHOULDNT_MATCH = (Some E_FAILED_REGEXP_SHOULDNT_MATCH, ''regexp matched, but shouldn't at index %d'')"
| "failed_counter E_AR_HDR_NOT_FOUND = (Some E_FAILED_REGEXP_HDR_NOT_FOUND, ''regexp header not found at index %d'')"
| "failed_counter E_AR_CONNECT_FAILED = (Some E_FAILED_TCP_CONNECT, ''connection failed %d'')"
| "failed_counter E_AR_RTPECHO_ERROR = (None, ''rtp echo error %d'')"
| "failed_counter E_AR_VERIFY_FAILED = (None, ''exec verify failure at index %d'')"
| "failed_counter E_AR_TEST_DOESNT_MATCH = (Some E_FAILED_TEST_DOESNT_MATCH, ''test failure at index %d'')"
| "failed_counter E_AR_TEST_SHOULDNT_MATCH = (Some E_FAILED_TEST_SHOULDNT_MATCH, ''test succeeded, but shouldn't at index %d'')"
| "failed_counter E_AR_STRCMP_DOESNT_MATCH = (Some E_FAILED_STRCMP_DOESNT_MATCH, ''test failure at index %d'')"
| "failed_counter E_AR_STRCMP_SHOULDNT_MATCH = (Some E_FAILED_STRCMP_SHOULDNT_MATCH, ''test succeeded, but shouldn't at index %d'')"
| "failed_counter E_AR_NO_ERROR = (None, [])"
| "failed_counter E_AR_STOP_CALL = (None, [])"

definition terminate :: "'d call_env \<Rightarrow> e_action \<Rightarrow> ('d, unit) op" where
  "terminate env reason =
     thenM (emit Stopped_listening) (with_call (\<lambda>c.
       let leaves = (\<lambda>r. if deadcall_wait env \<noteq> 0 \<and> \<not> initCall c then Some r else None);
           res = last_action_result c
       in if res = E_AR_STOP_CALL then delete_leaving env None False False
          else if res \<noteq> E_AR_NO_ERROR then
            thenM (count_stat E_CALL_FAILED)
            (thenM (case fst (failed_counter res) of
                      Some a \<Rightarrow> count_stat a
                    | None \<Rightarrow> whenM (res = E_AR_RTPECHO_ERROR) (emit (Rtp_echo_errors 1)))
            (delete_leaving env (leaves (snd (failed_counter res))) False False))
          else if reason = E_CALL_SUCCESSFULLY_ENDED \<or> timewait c then
            thenM (count_stat E_CALL_SUCCESSFULLY_ENDED) (delete_leaving env (leaves ''successful'') False False)
          else
            thenM (count_stat E_CALL_FAILED)
            (thenM (whenM (reason \<noteq> E_NO_ACTION) (count_stat reason))
            (delete_leaving env (leaves ''failed at index %d'') False False))))"

definition rejectCall :: "'d call_env \<Rightarrow> ('d, bool) op" where
  "rejectCall env =
     thenM (count_stat E_CALL_FAILED) (thenM (count_stat E_FAILED_CALL_REJECTED) (thenM (delete_this env) (ret False)))"

definition tcpClose :: "'d call_env \<Rightarrow> ('d, bool) op" where
  "tcpClose env =
     thenM (with_call (\<lambda>c.
       if 0 \<le> msg_index c \<and> msg_index c < int (length (msgs_of env c)) \<and> m_timewait (msgs_of env c ! nat (msg_index c))
       then set_call (\<lambda>c. c\<lparr>timewait := True\<rparr>) else ret ()))
     (with_call (\<lambda>c.
       let failed = (last_action_result c \<noteq> E_AR_NO_ERROR \<or> \<not> timewait c)
       in thenM (terminate env E_FAILED_TCP_CLOSED) (ret failed)))"

text \<open>The next message of the scenario; a chance is compared with a random number.\<close>

definition branch_taken :: "'d call_env \<Rightarrow> 'd message \<Rightarrow> ('d, bool) op" where
  "branch_taken env m =
     (if m_next m \<ge> 0 then
        bindM (if m_test m = - 1 then ret True else var_is_set env (m_test m)) (\<lambda>set.
          if \<not> set then ret False
          else if chance m \<le> 0 then ret True
          else bindM (ask (o_rand (out env))) (\<lambda>r. ret (r > chance m)))
      else ret False)"

definition next_index :: "'d call_env \<Rightarrow> ('d, int) op" where
  "next_index env = with_call (\<lambda>c.
     if msg_index c \<ge> 0 then
       bindM (nth_message (msgs_of env c) (msg_index c)) (\<lambda>m.
       bindM (branch_taken env m) (\<lambda>b. ret (if b then m_next m else msg_index c + 1)))
     else ret (msg_index c + 1))"

definition next_message :: "'d call_env \<Rightarrow> ('d, bool) op" where
  "next_message env =
     bindM (next_index env) (\<lambda>i.
     thenM (set_call (\<lambda>c. c\<lparr>msg_index := i, recv_timeout := 0\<rparr>))
     (with_call (\<lambda>c.
       if pastLastMessage env c then
         if verify_pending c \<noteq> 0 then
           thenM (set_call (\<lambda>c. c\<lparr>next_retrans := 0, rtpstream_wait_check := 0\<rparr>)) (thenM setPaused_call (ret True))
         else thenM (terminate env E_CALL_SUCCESSFULLY_ENDED) (ret False)
       else ret True)))"

definition handleActionResult :: "'d call_env \<Rightarrow> T_ActionResult \<Rightarrow> ('d, bool) op" where
  "handleActionResult env r =
     (if r = E_AR_NO_ERROR then ret True
      else thenM (set_call (\<lambda>c. c\<lparr>last_action_result := r\<rparr>))
        (if r = E_AR_STOP_CALL then rejectCall env
         else if r = E_AR_CONNECT_FAILED then thenM (terminate env E_FAILED_TCP_CONNECT) (ret False)
         else ret True))"

section \<open>Sending\<close>

definition lost :: "'d call_env \<Rightarrow> int \<Rightarrow> ('d, bool) op" where
  "lost env i = (if \<not> lose_packets env then ret False else ask (\<lambda>k. o_lost (out env) k i))"

text \<open>
  The result is that of the socket, whose choice is left out. A failure of a message of the scenario deletes the call.
\<close>

definition send_raw :: "'d call_env \<Rightarrow> string \<Rightarrow> int \<Rightarrow> ('d, write_result) op" where
  "send_raw env msg i = with_call (\<lambda>c.
     bindM (if i \<noteq> - 1 then lost env i else ret False) (\<lambda>l.
       if l then thenM (bump_count (False, i) nb_lost) (ret Written)
       else if \<not> call_socket c then fail AssertFailed
       else bindM (ask (o_write (out env))) (\<lambda>rc.
         case rc of
           Written \<Rightarrow> thenM (emit (Sent i msg)) (ret Written)
         | Would_block \<Rightarrow> ret Would_block
         | Write_failed \<Rightarrow>
             if i \<noteq> - 1 then
               thenM (count_stat E_CALL_FAILED) (thenM (count_stat E_FAILED_CANNOT_SEND_MSG) (thenM (delete_this env) (ret Write_failed)))
             else ret Write_failed)))"

definition sendBuffer :: "'d call_env \<Rightarrow> string \<Rightarrow> ('d, unit) op" where
  "sendBuffer env msg =
     bindM (send_raw env msg (- 1)) (\<lambda>rc.
       if rc \<noteq> Written \<and> sendbuffer_warn env then fail (ERROR ''Error sending raw message'') else ret ())"

definition createSendingMessage :: "'d call_env \<Rightarrow> sending_message \<Rightarrow> int \<Rightarrow> ('d, string) op" where
  "createSendingMessage env src i = with_call (\<lambda>c. ask (\<lambda>k. o_render (out env) k src i))"

text \<open>A default message, filled and sent.\<close>

definition send_default :: "'d call_env \<Rightarrow> string \<Rightarrow> int \<Rightarrow> ('d, unit) op" where
  "send_default env which i = bindM (createSendingMessage env (default_message env which) i) (sendBuffer env)"

definition connect_socket_if_needed :: "'d call_env \<Rightarrow> ('d, bool) op" where
  "connect_socket_if_needed env = with_call (\<lambda>c.
     if call_socket c \<or> \<not> multisocket env then ret True
     else if transport_udp env \<and> \<not> mode_client env then ret True
     else bindM (ask (o_connect (out env))) (\<lambda>r.
       case r of
         Connected \<Rightarrow> thenM (set_call (\<lambda>c. c\<lparr>call_socket := True\<rparr>)) (ret True)
       | Connect_fatal \<Rightarrow> fail (ERROR ''Unable to get or connect a socket'')
       | Connect_failed \<Rightarrow>
           if transport_udp env then fail (ERROR ''Unable to bind UDP socket'')
           else thenM (set_call (\<lambda>c. c\<lparr>call_socket := True\<rparr>))
             (thenM (count_stat E_CALL_FAILED) (thenM (count_stat E_FAILED_TCP_CONNECT) (thenM (delete_this env) (ret False))))))"

definition MAX_MSG_NAME_SIZE :: nat where "MAX_MSG_NAME_SIZE = 30"

text \<open>
  The first word of the message, copied to a buffer: the copy has no bound but the end of the word, and a word that does
  not fit with its end is written past the buffer.
\<close>

definition message_name :: "string \<Rightarrow> string res" where
  "message_name dest =
     (let first = takeWhile (\<lambda>c. c \<noteq> SP \<and> c \<noteq> LF \<and> c \<noteq> TAB) dest
      in if length first = length dest \<or> length first \<ge> MAX_MSG_NAME_SIZE then Inl Undefined else Inr (c_str first))"

text \<open>\<open>None\<close> is the null pointer.\<close>

definition send_scene :: "'d call_env \<Rightarrow> int \<Rightarrow> ('d, (string \<times> write_result) option) op" where
  "send_scene env i =
     bindM (connect_socket_if_needed env) (\<lambda>ok.
       if \<not> ok then ret None
       else with_call (\<lambda>c.
         if \<not> call_socket c then fail (ERROR ''Call has no socket to send on'')
         else bindM (nth_message (msgs env) i) (\<lambda>m.
           case send_scheme m of
             None \<Rightarrow> fail AssertFailed
           | Some scheme \<Rightarrow>
               bindM (createSendingMessage env scheme i) (\<lambda>dest.
               bindM (lift (message_name dest)) (\<lambda>name.
               thenM (whenM (name = ''ACK'') (set_call (\<lambda>c. c\<lparr>call_established := True, ack_is_pending := False\<rparr>)))
               (bindM (send_raw env dest i) (\<lambda>rc. ret (Some (dest, rc)))))))))"

definition set_rtd :: "int \<Rightarrow> 64 word \<Rightarrow> ('d, unit) op" where
  "set_rtd rtd now = with_call (\<lambda>c.
     if 1 \<le> rtd \<and> rtd \<le> int (length (start_time_rtd c))
     then set_call (\<lambda>c. c\<lparr>start_time_rtd := (start_time_rtd c)[nat (rtd - 1) := now]\<rparr>) else fail Undefined)"

definition stop_one_rtd :: "'d call_env \<Rightarrow> bool \<Rightarrow> 64 word \<Rightarrow> int \<Rightarrow> ('d, unit) op" where
  "stop_one_rtd env repeats now rtd = with_call (\<lambda>c.
     if \<not> (1 \<le> rtd \<and> rtd \<le> int (length (start_time_rtd c)) \<and> rtd \<le> int (length (rtd_done c))) then fail Undefined
     else if rtd_done c ! nat (rtd - 1) then ret ()
     else
       thenM (count_value E_ADD_RESPONSE_TIME_DURATION ((now - start_time_rtd c ! nat (rtd - 1)) div 1000) (rtd - 1))
       (if repeats then ret () else set_call (\<lambda>c. c\<lparr>rtd_done := (rtd_done c)[nat (rtd - 1) := True]\<rparr>)))"

definition do_bookkeeping :: "'d call_env \<Rightarrow> 'd message \<Rightarrow> ('d, unit) op" where
  "do_bookkeeping env curmsg =
     thenM (whenM (m_counter curmsg \<noteq> 0) (count_value E_ADD_GENERIC_COUNTER 1 (m_counter curmsg - 1)))
     (if start_rtd curmsg = [] \<and> stop_rtd curmsg = [] then ret ()
      else bindM (ask (o_us (out env))) (\<lambda>now.
        thenM (for_each (\<lambda>rtd. set_rtd rtd now) (start_rtd curmsg))
          (for_each (stop_one_rtd env (repeat_rtd curmsg) now) (stop_rtd curmsg))))"

definition tcpReconnected :: "'d call_env \<Rightarrow> ('d, unit) op" where
  "tcpReconnected env = with_call (\<lambda>c.
     if last_send_unanswered c then thenM (send_raw env (last_send_msg c) (last_send_index c)) (ret ()) else ret ())"

section \<open>Commands between instances\<close>

abbreviation ESC :: char where "ESC \<equiv> CHR 0x1B"

text \<open>\<^verbatim>\<open>true\<close> is the result 0.\<close>

definition sendCmdMessage :: "'d call_env \<Rightarrow> 'd message \<Rightarrow> ('d, bool) op" where
  "sendCmdMessage env curmsg =
     (case M_sendCmdData curmsg of
        None \<Rightarrow> with_call (\<lambda>c. ret False)
      | Some src \<Rightarrow>
          bindM (createSendingMessage env src (- 1)) (\<lambda>dest.
          bindM (if peer_dest curmsg \<noteq> [] \<or> twinSippSocket env then ask (o_write (out env)) else ret Write_failed) (\<lambda>rc.
            if rc = Written then thenM (emit (Command_sent (c_str dest @ [ESC]))) (ret True)
            else thenM (count_stat E_CALL_FAILED) (thenM (count_stat E_FAILED_CMD_NOT_SENT) (thenM (delete_this env) (ret False))))))"

definition sendCmdBuffer :: "'d call_env \<Rightarrow> string \<Rightarrow> ('d, bool) op" where
  "sendCmdBuffer env cmd =
     bindM (ask (o_write (out env))) (\<lambda>rc.
       if rc = Written then thenM (emit (Command_sent (c_str cmd @ [ESC]))) (ret True)
       else thenM (count_stat E_CALL_FAILED) (thenM (count_stat E_FAILED_CMD_NOT_SENT) (thenM (delete_this env) (ret False))))"

text \<open>The twin is told that the call is aborted; \<^verbatim>\<open>false\<close> when the call was deleted.\<close>

definition abort_twin :: "'d call_env \<Rightarrow> ('d, bool) op" where
  "abort_twin env = with_call (\<lambda>c.
     if twinSippSocket env \<and> msg_index c > 0
     then bindM (createSendingMessage env (default_message env ''3pcc_abort'') (- 1)) (sendCmdBuffer env)
     else ret True)"

section \<open>Aborting\<close>

fun createsDialog_loop :: "'d message list \<Rightarrow> bool" where
  "createsDialog_loop [] = False"
| "createsDialog_loop (m # ms) =
     (if m_type m = MSG_TYPE_RECV then False
      else case send_scheme m of Some s \<Rightarrow> \<not> response s | None \<Rightarrow> createsDialog_loop ms)"

definition createsDialog :: "'d call_env \<Rightarrow> bool" where
  "createsDialog env = createsDialog_loop (msgs env)"

text \<open>What an abort sends, and whether that is a BYE and a CANCEL.\<close>

definition abort_messages :: "'d call_env \<Rightarrow> call \<Rightarrow> (string \<times> int) list \<times> bool \<times> bool" where
  "abort_messages env c =
     (let byeIndex = int (length (msgs env)); received = (last_recv_msg c \<noteq> [])
      in if createsDialog env \<and> msg_index c > 0 then
           if \<not> call_established c \<and> has_prefix ''INVITE'' (last_send_msg c) then
             if received \<and> get_reply_code (c_str (last_recv_msg c)) \<ge> 400 then ([(''ack'', - 1)], False, False)
             else if received then
               if ack_is_pending c then ([(''ack'', - 1), (''bye'', byeIndex)], True, False)
               else ([(''cancel'', - 1)], False, True)
             else ([], False, False)
           else if received then ([(''bye'', byeIndex)], True, False)
           else ([], False, False)
         else ([], False, False))"

text \<open>The flags that the messages of an abort are filled with.\<close>

definition abort_flags :: "'d call_env \<Rightarrow> call \<Rightarrow> call" where
  "abort_flags env c =
     (if createsDialog env \<and> msg_index c > 0 \<and> last_recv_msg c \<noteq> [] then
        if \<not> call_established c \<and> has_prefix ''INVITE'' (last_send_msg c) then
          if get_reply_code (c_str (last_recv_msg c)) \<ge> 400 then c else c\<lparr>ack_is_pending := False\<rparr>
        else c\<lparr>bye_after_peer_request := (get_reply_code (c_str (last_recv_msg c)) = 0)\<rparr>
      else c)"

definition abortCall :: "'d call_env \<Rightarrow> ('d, bool) op" where
  "abortCall env = with_call (\<lambda>c.
     case abort_messages env c of (ms, sent_bye, sent_cancel) \<Rightarrow>
       thenM (set_call (abort_flags env))
       (thenM (for_each (\<lambda>(which, i). send_default env which i) ms)
       (thenM (emit Stopped_listening)
       (thenM (delete_leaving env (if deadcall_wait env \<noteq> 0 \<and> \<not> initCall c then Some ''aborted at index %d'' else None) sent_bye sent_cancel)
         (ret False)))))"

definition abort_op :: "'d call_env \<Rightarrow> ('d, unit) op" where
  "abort_op env = thenM (count_stat E_CALL_FAILED) (thenM (abortCall env) (ret ()))"

text \<open>The end after a failure that was counted: with a BYE, or without.\<close>

definition bye_or_delete :: "'d call_env \<Rightarrow> ('d, bool) op" where
  "bye_or_delete env = (if behavior_bye env then abortCall env else thenM (delete_this env) (ret False))"

definition process_unexpected :: "'d call_env \<Rightarrow> string \<Rightarrow> ('d, bool) op" where
  "process_unexpected env msg = with_call (\<lambda>c.
     bindM (nth_message (msgs env) (msg_index c)) (\<lambda>curmsg.
     thenM (bump_count (False, msg_index c) nb_unexp)
     (thenM (whenM (get_reply_code msg \<noteq> 0) (emit (Response_code (get_reply_code msg))))
     (if behavior_abortunexp env then
        bindM (abort_twin env) (\<lambda>ok.
          if \<not> ok then ret False
          else thenM (set_call (\<lambda>c. c\<lparr>last_recv_msg := msg\<rparr>))
            (thenM (count_stat E_CALL_FAILED) (thenM (count_stat E_FAILED_UNEXPECTED_MSG) (bye_or_delete env))))
      else ret False))))"

definition rtpstreamWaitTimeout :: "'d call_env \<Rightarrow> ('d, bool) op" where
  "rtpstreamWaitTimeout env = with_call (\<lambda>c.
     case rtpstream_wait_msg c of
       None \<Rightarrow> fail Undefined
     | Some (ini, i) \<Rightarrow>
         thenM (set_call (\<lambda>c. c\<lparr>rtpstream_wait_check := 0\<rparr>))
         (thenM (bump_count (ini, i) nb_timeout)
         (bindM (nth_message (if ini then initmessages (call_scenario env) else msgs env) i) (\<lambda>waitmsg.
         thenM (whenM (on_timeout waitmsg \<ge> 0) (set_call (\<lambda>c. c\<lparr>msg_index := on_timeout waitmsg\<rparr>)))
         (if on_timeout waitmsg \<ge> 0 \<and> on_timeout waitmsg < int (length (msgs env)) then ret True
          else thenM (count_stat E_CALL_FAILED) (bye_or_delete env))))))"

definition verifyDone :: "'d call_env \<Rightarrow> bool \<Rightarrow> ('d, unit) op" where
  "verifyDone env good =
     thenM (set_call (\<lambda>c. c\<lparr>last_action_result := (if good then last_action_result c else E_AR_VERIFY_FAILED),
                           verify_pending := verify_pending c - 1\<rparr>))
     (with_call (\<lambda>c.
       if verify_pending c \<noteq> 0 then ret ()
       else if pastLastMessage env c then terminate env E_CALL_SUCCESSFULLY_ENDED
       else setRunning_call))"

end
