(* ===== verification/Call_Actions.thy ===== *)
theory Call_Actions
  imports Call_Ops
begin

text \<open>
  The actions of a message (\<^verbatim>\<open>call::executeAction\<close>, \<^verbatim>\<open>CAction::executeRegExp\<close>, \<^verbatim>\<open>CAction::compare\<close>): assignments and tests of
  variables, injection files, jumps. A message that is not there (a \<^verbatim>\<open><nop>\<close> has none) is \<open>None\<close>, and reading it is \<open>Undefined\<close>.
\<close>

definition get_rhs :: "'d call_env \<Rightarrow> 'd caction \<Rightarrow> ('d, 'd) op" where
  "get_rhs env a = (if M_varInId a \<noteq> 0 then get_var_double env (M_varInId a) else ret (M_doubleValue a))"

definition var_get_double :: "'d call_env \<Rightarrow> int \<Rightarrow> ('d, 'd) op" where
  "var_get_double env i = bindM (read_var i) (\<lambda>v. lift (getDouble (d_zero (dbl env)) v))"

definition rhs_double :: "'d call_env \<Rightarrow> 'd caction \<Rightarrow> ('d, 'd) op" where
  "rhs_double env a = (if M_varIn2Id a \<noteq> 0 then var_get_double env (M_varIn2Id a) else ret (M_doubleValue a))"

fun compares :: "'d doubles \<Rightarrow> T_Comparator \<Rightarrow> 'd \<Rightarrow> 'd \<Rightarrow> bool" where
  "compares d E_C_EQ x y = d_eq d x y"
| "compares d E_C_NE x y = (\<not> d_eq d x y)"
| "compares d E_C_GT x y = d_less d y x"
| "compares d E_C_LT x y = d_less d x y"
| "compares d E_C_GEQ x y = (d_less d y x \<or> d_eq d x y)"
| "compares d E_C_LEQ x y = (d_less d x y \<or> d_eq d x y)"

definition compare :: "'d call_env \<Rightarrow> 'd caction \<Rightarrow> ('d, bool) op" where
  "compare env a =
     bindM (var_get_double env (M_varInId a)) (\<lambda>lhs. bindM (rhs_double env a) (\<lambda>rhs. ret (compares (dbl env) (M_comp a) lhs rhs)))"

section \<open>Regular expressions\<close>

text \<open>The groups of a match are put in the variables; a group that did not take part is \<open>None\<close>.\<close>

fun put_groups :: "string \<Rightarrow> int list \<Rightarrow> (nat \<times> nat) option list \<Rightarrow> nat \<Rightarrow> ('d, nat) op" where
  "put_groups text0 [] gs n = ret n"
| "put_groups text0 (v # vs) gs n =
     (case gs of
        Some (so, eo) # gs' \<Rightarrow>
          thenM (write_var v (setMatchingValue (take (eo - so) (drop so text0)))) (put_groups text0 vs gs' (n + 1))
      | None # gs' \<Rightarrow> thenM (read_var v) (put_groups text0 vs gs' n)
      | [] \<Rightarrow> thenM (read_var v) (put_groups text0 vs [] n))"

definition executeRegExp :: "'d call_env \<Rightarrow> 'd caction \<Rightarrow> string \<Rightarrow> ('d, nat) op" where
  "executeRegExp env a text0 =
     (if length (M_subVarId a) > 9 then fail (ERROR ''You can only have nine sub expressions!'')
      else case o_regexec (out env) (M_regularExpression a) text0 of
             None \<Rightarrow> ret 0
           | Some gs \<Rightarrow> put_groups text0 (M_varId a # M_subVarId a) gs 0)"

text \<open>Where to look: the text, or the result when it is not found and had to be.\<close>

definition haystack :: "'d caction \<Rightarrow> string option \<Rightarrow> ('d, T_ActionResult + string) op" where
  "haystack a msg =
     (case M_lookingPlace a of
        E_LP_HDR \<Rightarrow>
          (case msg of
             None \<Rightarrow> fail Undefined
           | Some m \<Rightarrow>
               let part = extractSubMessage m (M_lookingChar a) (M_caseIndep a) (M_occurrence a) (M_headersOnly a)
               in ret (if M_checkIt a \<and> part = [] then Inl E_AR_HDR_NOT_FOUND else Inr part))
      | E_LP_BODY \<Rightarrow>
          (case msg of
             None \<Rightarrow> fail Undefined
           | Some m \<Rightarrow>
               (case find_sub (CRLF @ CRLF) m of
                  Some k \<Rightarrow> ret (Inr (drop (k + 4) m))
                | None \<Rightarrow> ret (if M_checkIt a then Inl E_AR_HDR_NOT_FOUND else Inr [])))
      | E_LP_MSG \<Rightarrow> (case msg of None \<Rightarrow> fail Undefined | Some m \<Rightarrow> ret (Inr m))
      | E_LP_VAR \<Rightarrow> bindM (read_var (M_varInId a)) (\<lambda>v. ret (Inr (getString v))))"

definition assign_regexp :: "'d call_env \<Rightarrow> 'd caction \<Rightarrow> string option \<Rightarrow> ('d, T_ActionResult) op" where
  "assign_regexp env a msg =
     bindM (haystack a msg) (\<lambda>h.
       case h of
         Inl r \<Rightarrow> ret r
       | Inr text0 \<Rightarrow> bindM (executeRegExp env a text0) (\<lambda>n.
           ret (if n = 0 \<and> M_checkIt a then E_AR_REGEXP_DOESNT_MATCH
                else if n > 0 \<and> M_checkItInverse a then E_AR_REGEXP_SHOULDNT_MATCH else E_AR_NO_ERROR)))"

section \<open>Variables\<close>

definition arithmetic :: "'d call_env \<Rightarrow> 'd caction \<Rightarrow> ('d \<Rightarrow> 'd \<Rightarrow> 'd) \<Rightarrow> ('d, unit) op" where
  "arithmetic env a f =
     bindM (get_var_double env (M_varId a)) (\<lambda>value. bindM (get_rhs env a) (\<lambda>operand. write_var (M_varId a) (setDouble (f value operand))))"

definition divide_var :: "'d call_env \<Rightarrow> 'd caction \<Rightarrow> ('d, unit) op" where
  "divide_var env a =
     bindM (get_var_double env (M_varId a)) (\<lambda>value. bindM (get_rhs env a) (\<lambda>operand.
       if d_eq (dbl env) operand (d_zero (dbl env)) then ret ()
       else write_var (M_varId a) (setDouble (d_div (dbl env) value operand))))"

text \<open>The result of a test goes to a variable unless it is only checked.\<close>

definition assigns_result :: "'d caction \<Rightarrow> bool" where
  "assigns_result a \<longleftrightarrow> M_varId a \<noteq> 0 \<or> \<not> M_checkIt a \<and> \<not> M_checkItInverse a"

definition test_var :: "'d call_env \<Rightarrow> 'd caction \<Rightarrow> ('d, T_ActionResult) op" where
  "test_var env a =
     bindM (compare env a) (\<lambda>value.
       if M_checkIt a \<and> \<not> value \<or> M_checkItInverse a \<and> value
       then ret (if M_checkIt a then E_AR_TEST_DOESNT_MATCH else E_AR_TEST_SHOULDNT_MATCH)
       else thenM (whenM (assigns_result a) (write_var (M_varId a) (setBool value))) (ret E_AR_NO_ERROR))"

definition strcmp_var :: "'d call_env \<Rightarrow> 'd caction \<Rightarrow> ('d, T_ActionResult) op" where
  "strcmp_var env a =
     bindM (read_var (M_varInId a)) (\<lambda>l.
     bindM (if M_varIn2Id a \<noteq> 0 then bindM (read_var (M_varIn2Id a)) (\<lambda>r. ret (getString r)) else ret (M_stringValue a)) (\<lambda>rhs.
       let value = o_strcmp (out env) (getString l) rhs
       in if M_checkIt a \<and> value \<noteq> 0 \<or> M_checkItInverse a \<and> value = 0
          then ret (if M_checkIt a then E_AR_STRCMP_DOESNT_MATCH else E_AR_STRCMP_SHOULDNT_MATCH)
          else thenM (whenM (assigns_result a) (write_var (M_varId a) (setDouble (d_of_int (dbl env) value)))) (ret E_AR_NO_ERROR)))"

definition trim_text :: "string \<Rightarrow> string" where
  "trim_text s = rstrip isspace (dropWhile isspace s)"

definition change_string :: "'d caction \<Rightarrow> (string \<Rightarrow> string) \<Rightarrow> ('d, unit) op" where
  "change_string a f = bindM (read_var (M_varId a)) (\<lambda>v. write_var (M_varId a) (setString (f (getString v))))"

definition to_double_var :: "'d call_env \<Rightarrow> 'd caction \<Rightarrow> ('d, unit) op" where
  "to_double_var env a =
     bindM (read_var (M_varInId a)) (\<lambda>v.
     bindM (lift (toDouble (d_strtod (dbl env)) (d_of_bool (dbl env)) v)) (\<lambda>r.
       case r of Some d \<Rightarrow> write_var (M_varId a) (setDouble d) | None \<Rightarrow> ret ()))"

section \<open>Injection files\<close>

definition nth_text :: "'d call_env \<Rightarrow> 'd caction \<Rightarrow> nat \<Rightarrow> ('d, string) op" where
  "nth_text env a n = (if n < length (M_message a) then createSendingMessage env (M_message a ! n) (- 1) else fail Undefined)"

definition get_file :: "string \<Rightarrow> ('d, infile) op" where
  "get_file name w = (case files w (c_str name) of None \<Rightarrow> Inl (ERROR ''Invalid injection file'') | Some f \<Rightarrow> Inr (f, w))"

definition put_file :: "string \<Rightarrow> infile \<Rightarrow> ('d, unit) op" where
  "put_file name f w = Inr ((), w\<lparr>files := (files w)(c_str name \<mapsto> f)\<rparr>)"

definition lookup_action :: "'d call_env \<Rightarrow> 'd caction \<Rightarrow> ('d, unit) op" where
  "lookup_action env a =
     bindM (nth_text env a 0) (\<lambda>fl. bindM (nth_text env a 1) (\<lambda>key. bindM (get_file fl) (\<lambda>f.
     bindM (lift (lookup f key)) (\<lambda>v. write_var (M_varId a) (setDouble (d_of_int (dbl env) v))))))"

definition insert_action :: "'d call_env \<Rightarrow> 'd caction \<Rightarrow> ('d, unit) op" where
  "insert_action env a =
     bindM (nth_text env a 0) (\<lambda>fl. bindM (nth_text env a 1) (\<lambda>value. bindM (get_file fl) (\<lambda>f.
     bindM (lift (insert_line f value)) (put_file fl))))"

definition replace_action :: "'d call_env \<Rightarrow> 'd caction \<Rightarrow> ('d, unit) op" where
  "replace_action env a =
     bindM (nth_text env a 0) (\<lambda>fl. bindM (nth_text env a 1) (\<lambda>line. bindM (nth_text env a 2) (\<lambda>value. bindM (get_file fl) (\<lambda>f.
       case d_strtod (dbl env) (c_str line) of (d, rest) \<Rightarrow>
         if rest \<noteq> [] then fail (ERROR ''Invalid line number for replace'')
         else bindM (lift (replace_line f (d_to_int (dbl env) d) value)) (put_file fl)))))"

section \<open>Authentication, destinations and jumps\<close>

definition verify_auth :: "'d call_env \<Rightarrow> 'd caction \<Rightarrow> string option \<Rightarrow> ('d, unit) op" where
  "verify_auth env a msg =
     (case msg of
        None \<Rightarrow> fail Undefined
      | Some m \<Rightarrow>
          (case (find_sub [LF] m, find_sub [SP] m) of
             (Some lf, Some e) \<Rightarrow>
               if lf < e then write_var (M_varId a) (setBool False)
               else
                 bindM (lift (get_header m ''Authorization:'' True)) (\<lambda>auth.
                 bindM (nth_text env a 0) (\<lambda>username.
                 bindM (nth_text env a 1) (\<lambda>password.
                   let body = (case find_sub (CRLF @ CRLF) m of Some k \<Rightarrow> drop (k + 4) m | None \<Rightarrow> [])
                   in write_var (M_varId a) (setBool
                        (verifyAuthHeader (ssl env) (auth_uri_opt env) (c_str username) (c_str password) (take e m) auth body \<noteq> 0)))))
           | _ \<Rightarrow> write_var (M_varId a) (setBool False)))"

definition known_protocol :: "string \<Rightarrow> bool" where
  "known_protocol s \<longleftrightarrow>
     s \<in> {''udp'', ''UDP'', ''tcp'', ''TCP'', ''tls'', ''TLS'', ''sctp'', ''SCTP'', ''ws'', ''WS'', ''wss'', ''WSS''}"

text \<open>What the socket and the resolver do with the host, the port and the protocol is an answer.\<close>

definition set_dest :: "'d call_env \<Rightarrow> 'd caction \<Rightarrow> ('d, T_ActionResult) op" where
  "set_dest env a =
     bindM (nth_text env a 0) (\<lambda>host. bindM (nth_text env a 1) (\<lambda>port_text. bindM (nth_text env a 2) (\<lambda>protocol_text.
     case d_strtod (dbl env) (c_str port_text) of (d, rest) \<Rightarrow>
       if rest \<noteq> [] then fail (ERROR ''Invalid port for setdest'')
       else if \<not> known_protocol (c_str protocol_text) then fail (ERROR ''Unknown transport for setdest'')
       else bindM (ask (o_setdest (out env))) (\<lambda>r.
         case r of
           Connect_fatal \<Rightarrow> fail (ERROR ''Unable to change the destination'')
         | Connected \<Rightarrow> thenM (set_call (\<lambda>c. c\<lparr>call_socket := True\<rparr>)) (ret E_AR_NO_ERROR)
         | Connect_failed \<Rightarrow> thenM (set_call (\<lambda>c. c\<lparr>call_socket := True\<rparr>)) (ret E_AR_CONNECT_FAILED)))))"

definition close_con :: "('d, unit) op" where
  "close_con = with_call (\<lambda>c.
     if call_socket c then thenM (set_call (\<lambda>c. c\<lparr>call_socket := False\<rparr>)) (emit Socket_closed) else ret ())"

definition jump :: "'d call_env \<Rightarrow> 'd caction \<Rightarrow> ('d, unit) op" where
  "jump env a =
     bindM (get_rhs env a) (\<lambda>operand. with_call (\<lambda>c.
       let target = d_to_int (dbl env) operand
       in if msg_index c = target then fail (ERROR ''Jump statement jumps to itself and causes an infinite loop'')
          else if target - 1 < - 1 \<or> target - 1 \<ge> int (length (msgs env)) then fail (ERROR ''Jump statement out of range'')
          else set_call (\<lambda>c. c\<lparr>msg_index := target - 1\<rparr>)))"

definition pause_restore :: "'d call_env \<Rightarrow> 'd caction \<Rightarrow> ('d, unit) op" where
  "pause_restore env a =
     bindM (get_rhs env a) (\<lambda>operand. set_call (\<lambda>c. c\<lparr>paused_until := of_int (d_to_int (dbl env) operand)\<rparr>))"

definition rtp_stream_wait :: "'d call_env \<Rightarrow> 'd caction \<Rightarrow> bool \<times> int \<Rightarrow> ('d, unit) op" where
  "rtp_stream_wait env a which =
     bindM (ask (o_play_end (out env))) (\<lambda>play_end.
       if play_end = 0 then ret ()
       else
         let timeout = of_int (d_to_int (dbl env) (M_doubleValue a)) :: 32 word
         in thenM (set_call (\<lambda>c. c\<lparr>rtpstream_wait_until := (if timeout \<noteq> 0 then ucast (clock_tick env + ucast timeout) else 0),
                                   rtpstream_wait_msg := Some which\<rparr>))
              (rtpstreamWaitNextCheck env play_end))"

definition rtp_stats :: "'d call_env \<Rightarrow> 'd caction \<Rightarrow> ('d, unit) op" where
  "rtp_stats env a =
     bindM (ask (o_received (out env))) (\<lambda>(packets, first_pt, payload, dtmf).
     thenM (write_var (M_varId a) (setDouble packets))
     (thenM (whenM (length (M_subVarId a) > 0) (write_var (M_subVarId a ! 0) (setDouble first_pt)))
       (whenM (length (M_subVarId a) > 1) (write_var (M_subVarId a ! 1) (setString (append_hex_bytes (map byte payload)))))))"

definition rtp_dtmf :: "'d call_env \<Rightarrow> 'd caction \<Rightarrow> ('d, unit) op" where
  "rtp_dtmf env a =
     bindM (ask (o_received (out env))) (\<lambda>(packets, first_pt, payload, dtmf).
       write_var (M_varId a) (setString (map snd (filter (\<lambda>d. fst d = d_to_int (dbl env) (M_doubleValue a)) dtmf))))"

section \<open>All the actions of a message\<close>

definition no_error :: "('d, unit) op \<Rightarrow> ('d, T_ActionResult) op" where
  "no_error m = thenM m (ret E_AR_NO_ERROR)"

definition exec_action :: "'d call_env \<Rightarrow> string option \<Rightarrow> bool \<times> int \<Rightarrow> 'd caction \<Rightarrow> ('d, T_ActionResult) op" where
  "exec_action env msg which a =
     (case M_action a of
        E_AT_ASSIGN_FROM_REGEXP \<Rightarrow> assign_regexp env a msg
      | E_AT_ASSIGN_FROM_VALUE \<Rightarrow> no_error (bindM (get_rhs env a) (\<lambda>d. write_var (M_varId a) (setDouble d)))
      | E_AT_ASSIGN_FROM_INDEX \<Rightarrow> no_error (with_call (\<lambda>c. write_var (M_varId a) (setDouble (d_of_int (dbl env) (msg_index c)))))
      | E_AT_ASSIGN_FROM_GETTIMEOFDAY \<Rightarrow>
          no_error (bindM (ask (o_timeofday (out env))) (\<lambda>(sec, usec).
            thenM (write_var (M_varId a) (setDouble sec))
              (if M_subVarId a = [] then fail Undefined else write_var (M_subVarId a ! 0) (setDouble usec))))
      | E_AT_ASSIGN_FROM_SAMPLE \<Rightarrow> no_error (bindM (ask (o_sample (out env))) (\<lambda>d. write_var (M_varId a) (setDouble d)))
      | E_AT_ASSIGN_FROM_STRING \<Rightarrow> no_error (bindM (nth_text env a 0) (\<lambda>s. write_var (M_varId a) (setString s)))
      | E_AT_JUMP \<Rightarrow> no_error (jump env a)
      | E_AT_PAUSE_RESTORE \<Rightarrow> no_error (pause_restore env a)
      | E_AT_LOOKUP \<Rightarrow> no_error (lookup_action env a)
      | E_AT_INSERT \<Rightarrow> no_error (insert_action env a)
      | E_AT_REPLACE \<Rightarrow> no_error (replace_action env a)
      | E_AT_LOG_TO_FILE \<Rightarrow> no_error (thenM (nth_text env a 0) (ret ()))
      | E_AT_LOG_WARNING \<Rightarrow> no_error (thenM (nth_text env a 0) (ret ()))
      | E_AT_LOG_ERROR \<Rightarrow> bindM (nth_text env a 0) (\<lambda>s. fail (ERROR s))
      | E_AT_EXECUTE_CMD \<Rightarrow> no_error (thenM (nth_text env a 0) (ret ()))
      | E_AT_EXEC_LUA \<Rightarrow>
          no_error (thenM (nth_text env a 0) (bindM (ask (o_lua (out env))) (\<lambda>f w. Inr ((), w\<lparr>vars := f (vars w)\<rparr>))))
      | E_AT_VERIFY_CMD \<Rightarrow> no_error (thenM (nth_text env a 0) (set_call (\<lambda>c. c\<lparr>verify_pending := verify_pending c + 1\<rparr>)))
      | E_AT_EXEC_INTCMD \<Rightarrow>
          (case M_IntCmd a of
             E_INTCMD_STOP_ALL \<Rightarrow> no_error (emit Quit)
           | E_INTCMD_STOP_NOW \<Rightarrow> fail (ERROR ''sipp_exit'')
           | _ \<Rightarrow> ret E_AR_STOP_CALL)
      | E_AT_VAR_ADD \<Rightarrow> no_error (arithmetic env a (d_add (dbl env)))
      | E_AT_VAR_SUBTRACT \<Rightarrow> no_error (arithmetic env a (d_sub (dbl env)))
      | E_AT_VAR_MULTIPLY \<Rightarrow> no_error (arithmetic env a (d_mul (dbl env)))
      | E_AT_VAR_DIVIDE \<Rightarrow> no_error (divide_var env a)
      | E_AT_VAR_TEST \<Rightarrow> test_var env a
      | E_AT_VAR_TO_DOUBLE \<Rightarrow> no_error (to_double_var env a)
      | E_AT_VAR_STRCMP \<Rightarrow> strcmp_var env a
      | E_AT_VAR_TRIM \<Rightarrow> no_error (change_string a trim_text)
      | E_AT_VAR_URLDECODE \<Rightarrow> no_error (change_string a url_decode)
      | E_AT_VAR_URLENCODE \<Rightarrow> no_error (change_string a url_encode)
      | E_AT_VERIFY_AUTH \<Rightarrow> no_error (verify_auth env a msg)
      | E_AT_SET_DEST \<Rightarrow> set_dest env a
      | E_AT_CLOSE_CON \<Rightarrow> no_error close_con
      | E_AT_RTP_STREAM_WAIT \<Rightarrow> no_error (rtp_stream_wait env a which)
      | E_AT_RTP_STREAM_RTPECHO_STOP \<Rightarrow>
          bindM (ask (o_echo_stop (out env))) (\<lambda>rc. ret (if rc < 0 then E_AR_RTPECHO_ERROR else E_AR_NO_ERROR))
      | E_AT_RTP_STATS \<Rightarrow> no_error (rtp_stats env a)
      | E_AT_RTP_DTMF \<Rightarrow> no_error (rtp_dtmf env a)
      | E_AT_RTP_STREAM_OTHER \<Rightarrow> ret E_AR_NO_ERROR
      | E_AT_NO_ACTION \<Rightarrow> fail (ERROR ''call::executeAction unknown action''))"

fun exec_actions :: "'d call_env \<Rightarrow> string option \<Rightarrow> bool \<times> int \<Rightarrow> 'd caction list \<Rightarrow> ('d, T_ActionResult) op" where
  "exec_actions env msg which [] = ret E_AR_NO_ERROR"
| "exec_actions env msg which (a # as) =
     bindM (exec_action env msg which a) (\<lambda>r. if r \<noteq> E_AR_NO_ERROR then ret r else exec_actions env msg which as)"

text \<open>A message of \<open>initmessages\<close> is told by the call.\<close>

definition executeAction :: "'d call_env \<Rightarrow> string option \<Rightarrow> bool \<Rightarrow> 'd message \<Rightarrow> ('d, T_ActionResult) op" where
  "executeAction env msg ini curmsg = exec_actions env msg (ini, m_index curmsg) (M_actions curmsg)"

end
