(* ===== verification/Call_Incoming.thy ===== *)
theory Call_Incoming
  imports Call_Actions
begin

text \<open>
  What a call does with a message it receives (\<^verbatim>\<open>call::process_incoming\<close>): which message of the scenario it is, whether it is
  a retransmission, and what changes. The operation that runs the scenario further is an argument here, and is given in \<open>Call_Run\<close>.
\<close>

section \<open>Transactions and dialogs\<close>

definition txn_at :: "call \<Rightarrow> nat \<Rightarrow> txnInstanceInfo res" where
  "txn_at c n = (if 1 \<le> n \<and> n \<le> length (transactions c) then Inr (transactions c ! (n - 1)) else Inl Undefined)"

definition set_txn :: "nat \<Rightarrow> (txnInstanceInfo \<Rightarrow> txnInstanceInfo) \<Rightarrow> ('d, unit) op" where
  "set_txn n f = with_call (\<lambda>c. bindM (lift (txn_at c n)) (\<lambda>t.
     set_call (\<lambda>c. c\<lparr>transactions := (transactions c)[n - 1 := f t]\<rparr>)))"

definition empty_dialog :: call_dialog where
  "empty_dialog = \<lparr>d_call_id = [], d_cseq = 0, d_last_recv_invite_cseq = 0, d_peer_tag = None, d_last_recv_msg = [],
     d_dialog_route_set = None, d_next_req_url = []\<rparr>"

fun put_dialog :: "int \<Rightarrow> call_dialog \<Rightarrow> (int \<times> call_dialog) list \<Rightarrow> (int \<times> call_dialog) list" where
  "put_dialog n d [] = [(n, d)]"
| "put_dialog n d ((k, e) # ds) = (if n < k then (n, d) # (k, e) # ds else if n = k then (n, d) # ds else (k, e) # put_dialog n d ds)"

definition dialog_entry :: "'d call_env \<Rightarrow> (int \<times> call_dialog) list \<Rightarrow> int \<Rightarrow> call_dialog" where
  "dialog_entry env ds n = (case map_of ds n of Some d \<Rightarrow> d | None \<Rightarrow> empty_dialog\<lparr>d_cseq := base_cseq env\<rparr>)"

definition swap_state :: "call \<Rightarrow> call_dialog \<Rightarrow> call \<times> call_dialog" where
  "swap_state c d =
     (c\<lparr>cseq := d_cseq d, last_recv_invite_cseq := d_last_recv_invite_cseq d, peer_tag := d_peer_tag d,
        last_recv_msg := d_last_recv_msg d, dialog_route_set := d_dialog_route_set d, next_req_url := d_next_req_url d\<rparr>,
      d\<lparr>d_cseq := cseq c, d_last_recv_invite_cseq := last_recv_invite_cseq c, d_peer_tag := peer_tag c,
        d_last_recv_msg := last_recv_msg c, d_dialog_route_set := dialog_route_set c, d_next_req_url := next_req_url c\<rparr>)"

definition switch_dialog :: "'d call_env \<Rightarrow> int \<Rightarrow> call \<Rightarrow> call" where
  "switch_dialog env n c =
     (case dialogs c of
        None \<Rightarrow> c
      | Some ds \<Rightarrow>
          if current ds = n then c
          else
            let (c1, d1) = swap_state c (case map_of (dialog_list ds) (current ds) of Some d \<Rightarrow> d | None \<Rightarrow> empty_dialog);
                l1 = put_dialog (current ds) d1 (dialog_list ds);
                (c2, d2) = swap_state c1 (dialog_entry env l1 n)
            in c2\<lparr>dialogs := Some (ds\<lparr>dialog_list := put_dialog n d2 l1, current := n\<rparr>)\<rparr>)"

definition msgDialog :: "call \<Rightarrow> 'd message \<Rightarrow> int res" where
  "msgDialog c m =
     (if m_dialog m \<noteq> 0 then Inr (m_dialog m)
      else
        let txn = (if response_txn m \<noteq> 0 then response_txn m else ack_txn m)
        in if txn = 0 then Inr 1
           else bindE (txn_at c txn) (\<lambda>t. Inr (if txn_dialog t \<noteq> 0 then txn_dialog t else 1)))"

definition dialogKnown :: "call_dialogs \<Rightarrow> int \<Rightarrow> bool" where
  "dialogKnown ds n \<longleftrightarrow> n = 1 \<or> (case map_of (dialog_list ds) n of Some d \<Rightarrow> d_call_id d \<noteq> [] | None \<Rightarrow> False)"

text \<open>A call listens to its own Call-ID and those of its dialogs.\<close>

definition setDialogCallId :: "'d call_env \<Rightarrow> int \<Rightarrow> string \<Rightarrow> ('d, unit) op" where
  "setDialogCallId env n cid = with_call (\<lambda>c.
     case dialogs c of
       None \<Rightarrow> fail Undefined
     | Some ds \<Rightarrow>
         if cid \<in> set (c_id c # dialogIds c) then ret ()
         else
           thenM (set_call (\<lambda>c. c\<lparr>dialogs := Some (ds\<lparr>dialog_list :=
               put_dialog n ((dialog_entry env (dialog_list ds) n)\<lparr>d_call_id := cid\<rparr>) (dialog_list ds)\<rparr>)\<rparr>))
             (emit (Listening cid)))"

text \<open>The Call-ID without what is before three slashes in a row, unless \<^verbatim>\<open>-callid_slash_ign\<close> keeps it.\<close>

definition get_trimmed_call_id :: "bool \<Rightarrow> string \<Rightarrow> string" where
  "get_trimmed_call_id slash msg =
     (let cid = get_call_id msg in case find_sub ''///'' cid of None \<Rightarrow> cid | Some k \<Rightarrow> if slash then cid else drop (k + 3) cid)"

definition dialogOf :: "'d call_env \<Rightarrow> call_dialogs \<Rightarrow> string \<Rightarrow> int" where
  "dialogOf env ds msg =
     (case List.find (\<lambda>(n, d). d_call_id d \<noteq> [] \<and> (d_call_id d = get_call_id msg \<or> d_call_id d = get_trimmed_call_id (callidSlash env) msg)) (dialog_list ds) of
        Some (n, _) \<Rightarrow> n
      | None \<Rightarrow> 1)"

section \<open>Matching\<close>

definition matchesRequest :: "'d call_env \<Rightarrow> 'd message \<Rightarrow> string \<Rightarrow> bool" where
  "matchesRequest env m meth =
     (case recv_request m of
        None \<Rightarrow> False
      | Some r \<Rightarrow> if regexp_match m then o_regexec (out env) r meth \<noteq> None else r = meth)"

definition int_text :: "int \<Rightarrow> string" where
  "int_text n = (if n < 0 then CHR ''-'' # to_string (nat (- n)) else to_string (nat n))"

definition matchesResponse :: "'d call_env \<Rightarrow> 'd message \<Rightarrow> int \<Rightarrow> bool" where
  "matchesResponse env m code0 =
     (case recv_response m of
        None \<Rightarrow> False
      | Some r \<Rightarrow> if regexp_match m then o_regexec (out env) r (take 7 (int_text code0)) \<noteq> None else recv_response_code m = code0)"

text \<open>What is read of a message once: the code of a response, the method of a request, the method in the CSeq and the branch.\<close>

record msg_info =
  i_code :: int
  i_request :: string
  i_cseq_method :: string
  i_txn :: string

definition matches_scenario :: "'d call_env \<Rightarrow> call \<Rightarrow> msg_info \<Rightarrow> nat \<Rightarrow> bool res" where
  "matches_scenario env c info i =
     (if \<not> i < length (msgs env) then Inl Undefined
      else
        let m = msgs env ! i
        in bindE (case dialogs c of None \<Rightarrow> Inr True | Some ds \<Rightarrow> bindE (msgDialog c m) (\<lambda>d. Inr (d = incoming ds))) (\<lambda>here.
          if \<not> here then Inr False
          else if recv_request m \<noteq> None then Inr (matchesRequest env m (i_request info))
          else if recv_response m \<noteq> None then
            if \<not> matchesResponse env m (i_code info) then Inr False
            else if response_txn m \<noteq> 0 then bindE (txn_at c (response_txn m)) (\<lambda>t. Inr (txnID t = Some (i_txn info)))
            else if i = 0 then Inr True
            else Inr (cseq_method_list m \<noteq> [] \<and> find_sub (i_cseq_method info) (cseq_method_list m) \<noteq> None)
          else Inr False))"

text \<open>The first expected message that matches, up to the first that is not optional.\<close>

fun expected_loop :: "'d call_env \<Rightarrow> call \<Rightarrow> msg_info \<Rightarrow> nat list \<Rightarrow> nat option res" where
  "expected_loop env c info [] = Inr None"
| "expected_loop env c info (i # is) =
     bindE (matches_scenario env c info i) (\<lambda>b.
       if b then Inr (Some i)
       else if m_optional (msgs env ! i) \<noteq> OPTIONAL_FALSE then expected_loop env c info is else Inr None)"

text \<open>What a message that was expected before means: found, ignored, answered with the ACK at an index, or nothing.\<close>

datatype old_message = Old_found nat | Old_ignored | Old_ack nat | Old_none

definition is_provisional :: "int \<Rightarrow> bool" where
  "is_provisional code0 \<longleftrightarrow> 100 \<le> code0 \<and> code0 \<le> 199"

text \<open>\<^verbatim>\<open>strncmp(m, "INVITE", strlen(m)) == 0\<close>\<close>

definition prefix_of_INVITE :: "string \<Rightarrow> bool" where
  "prefix_of_INVITE m \<longleftrightarrow> has_prefix m ''INVITE''"

definition old_match :: "'d call_env \<Rightarrow> call \<Rightarrow> string \<Rightarrow> msg_info \<Rightarrow> nat \<Rightarrow> old_message res" where
  "old_match env c msg info i =
     (let m = msgs env ! i
      in if response_txn m \<noteq> 0 then
           bindE (txn_at c (response_txn m)) (\<lambda>t.
             case txnID t of
               None \<Rightarrow> Inl Undefined
             | Some tid \<Rightarrow>
                 if tid \<noteq> i_txn info then Inr Old_none
                 else if is_provisional (i_code info) then Inr Old_ignored
                 else if ackIndex t \<noteq> 0 then
                   if \<not> (response_txn m \<le> length (txn_is_invite (call_scenario env)) \<and> txn_is_invite (call_scenario env) ! (response_txn m - 1))
                   then Inl AssertFailed
                   else if ackIndex t < 0 then Inl Undefined else Inr (Old_ack (nat (ackIndex t)))
                 else bindE (hash (rtcheck_mode env) msg) (\<lambda>h. Inr (if txnResp t = h then Old_ignored else Old_none)))
         else if is_provisional (i_code info) then Inr Old_ignored
         else if i_code info \<noteq> 0 \<and> prefix_of_INVITE (i_cseq_method info) \<and> \<not> i + 1 < length (msgs env) then Inl Undefined
         else if i_code info \<noteq> 0 \<and> prefix_of_INVITE (i_cseq_method info) \<and> m_type (msgs env ! (i + 1)) = MSG_TYPE_SEND \<and>
                 (case send_scheme (msgs env ! (i + 1)) of Some s \<Rightarrow> ack s | None \<Rightarrow> False) then Inr (Old_ack (i + 1))
         else if i_code info = 0 \<and> i_request info = ''ACK'' then Inr Old_ignored
         else Inr Old_none)"

text \<open>The search backwards; \<open>contig\<close> tells that only optional messages were passed.\<close>

fun old_loop :: "'d call_env \<Rightarrow> call \<Rightarrow> string \<Rightarrow> msg_info \<Rightarrow> bool \<Rightarrow> nat list \<Rightarrow> old_message res" where
  "old_loop env c msg info contig [] = Inr Old_none"
| "old_loop env c msg info contig (i # is) =
     (if \<not> i < length (msgs env) then Inl Undefined
      else
        let contig' = (contig \<and> m_optional (msgs env ! i) \<noteq> OPTIONAL_FALSE)
        in bindE (matches_scenario env c info i) (\<lambda>b.
          if \<not> b then old_loop env c msg info contig' is
          else if contig' \<or> m_optional (msgs env ! i) = OPTIONAL_GLOBAL then Inr (Old_found i)
          else bindE (old_match env c msg info i) (\<lambda>r.
            if r = Old_none then old_loop env c msg info contig' is else Inr r)))"

definition find_message :: "'d call_env \<Rightarrow> call \<Rightarrow> string \<Rightarrow> msg_info \<Rightarrow> old_message res" where
  "find_message env c msg info =
     bindE (expected_loop env c info [nat (msg_index c)..<length (msgs env)]) (\<lambda>r.
       case r of
         Some i \<Rightarrow> Inr (Old_found i)
       | None \<Rightarrow> old_loop env c msg info True (rev [0..<nat (msg_index c)]))"

section \<open>Reading the message\<close>

definition is_response :: "string \<Rightarrow> bool" where
  "is_response msg = has_prefix ''SIP/2.0'' msg"

text \<open>The method of a request.\<close>

definition request_method :: "string \<Rightarrow> string res" where
  "request_method msg =
     (case find_sub [SP] msg of
        Some k \<Rightarrow> if k < 64 then Inr (take k msg) else Inl (ERROR ''SIP method too long in received message'')
      | None \<Rightarrow> Inl (ERROR ''Invalid SIP message received''))"

definition checkAckCSeq :: "'d call_env \<Rightarrow> call \<Rightarrow> string \<Rightarrow> bool res" where
  "checkAckCSeq env c msg =
     bindE (if is_response msg then Inr [] else request_method msg) (\<lambda>request.
       Inr (\<not> (behavior_badcseq env \<and> has_prefix ''ACK'' request \<and> get_cseq_value msg \<noteq> last_recv_invite_cseq c)))"

definition setSessionState :: "SessionState \<Rightarrow> call \<Rightarrow> call" where
  "setSessionState s c = c\<lparr>sessionStateOld := sessionStateCurrent c, sessionStateCurrent := s\<rparr>"

definition offer_received :: "call \<Rightarrow> call" where
  "offer_received c =
     (case sessionStateCurrent c of
        eNoSession \<Rightarrow> setSessionState eOfferReceived c
      | eCompleted \<Rightarrow> setSessionState eOfferReceived c
      | eOfferSent \<Rightarrow> setSessionState eCompleted (setSessionState eAnswerReceived c)
      | _ \<Rightarrow> c)"

text \<open>The SDP of a message. The streams it sets up are left out; \<^verbatim>\<open>false\<close> when the call was rejected.\<close>

definition take_sdp :: "'d call_env \<Rightarrow> 'd message \<Rightarrow> string \<Rightarrow> bool \<Rightarrow> ('d, bool) op" where
  "take_sdp env curmsg msg sdp_read =
     bindM (lift (get_header_content msg ''Content-Type:'')) (\<lambda>ct.
       if (is_sdp_content_type ct \<or> find_sub ''multipart/'' ct \<noteq> None \<and> find_sub ''application/sdp'' msg \<noteq> None) \<and>
          \<not> sdp_read \<and> \<not> ignoresdp curmsg then
         bindM (lift (get_header_content msg ''Content-Length:'')) (\<lambda>len.
           if header_number len > 0 then
             thenM (set_call offer_received)
             (if o_srtp_error (out env) msg then rejectCall env
              else if has_media env then thenM (lift (extract_rtp_remote_addr msg)) (ret True)
              else ret True)
           else ret True)
       else ret True)"

text \<open>The parts of a message that are matched with the scenario. \<open>None\<close> when the message was unexpected and that ended its processing.\<close>

definition read_start :: "'d call_env \<Rightarrow> string \<Rightarrow> ('d, msg_info option) op" where
  "read_start env msg =
     (if is_response msg then
        let reply_code = int (get_reply_code msg)
        in bindM (if to_int32 reply_code = 0 then process_unexpected env msg else ret True) (\<lambda>ok.
          if \<not> ok then ret None
          else
            thenM (case get_peer_tag msg of Some t \<Rightarrow> set_call (\<lambda>c. c\<lparr>peer_tag := Some t\<rparr>) | None \<Rightarrow> ret ())
            (bindM (lift (extract_cseq_method 65 msg)) (\<lambda>cm.
            bindM (lift (extract_transaction MAX_HEADER_LEN msg)) (\<lambda>txn.
              ret (Some \<lparr>i_code = to_int32 reply_code, i_request = [], i_cseq_method = cm, i_txn = txn\<rparr>)))))
      else
        bindM (lift (request_method msg)) (\<lambda>request.
        thenM (whenM (request = ''ACK'') (set_call (\<lambda>c. c\<lparr>call_established := True\<rparr>)))
        (thenM (whenM (has_prefix ''INVITE'' request) (set_call (\<lambda>c. c\<lparr>last_recv_invite_cseq := get_cseq_value msg\<rparr>)))
          (ret (Some \<lparr>i_code = 0, i_request = request, i_cseq_method = [], i_txn = []\<rparr>)))))"

section \<open>Retransmissions\<close>

text \<open>The message is sent again and counted; \<^verbatim>\<open>false\<close> when it was not sent.\<close>

definition resend :: "'d call_env \<Rightarrow> string \<Rightarrow> int \<Rightarrow> ('d, bool) op" where
  "resend env msg i =
     bindM (send_raw env msg i) (\<lambda>rc.
       if rc = Written then thenM (bump_count (False, i) nb_sent_retrans) (thenM (count_stat E_RETRANSMISSION) (ret True))
       else ret False)"

definition txn_retransmitted :: "call \<Rightarrow> 64 word \<Rightarrow> txnInstanceInfo option" where
  "txn_retransmitted c cookie = List.find (\<lambda>t. txn_request t \<noteq> [] \<and> requestHash t = cookie) (transactions c)"

text \<open>\<open>None\<close> when the message is no retransmission.\<close>

definition check_retransmission :: "'d call_env \<Rightarrow> 64 word \<Rightarrow> ('d, bool option) op" where
  "check_retransmission env cookie = with_call (\<lambda>c.
     if recv_retrans_recv_index c \<ge> 0 \<and> recv_retrans_hash c = cookie then
       bindM (lost env (recv_retrans_recv_index c)) (\<lambda>l.
         if l then thenM (bump_count (False, recv_retrans_recv_index c) nb_lost) (ret (Some True))
         else
           thenM (bump_count (False, recv_retrans_recv_index c) nb_recv_retrans)
           (bindM (resend env (if recv_retrans_last c then last_send_msg c else recv_retrans_msg c) (recv_retrans_send_index c))
             (\<lambda>ok. ret (Some ok))))
     else if last_recv_index c \<ge> 0 \<and> last_recv_hash c = cookie then
       thenM (bump_count (False, last_recv_index c) nb_recv_retrans) (ret (Some True))
     else
       case txn_retransmitted c cookie of
         None \<Rightarrow> ret None
       | Some t \<Rightarrow>
           thenM (bump_count (False, requestIndex t) nb_recv_retrans)
           (if txn_response t = [] then ret (Some True)
            else bindM (resend env (txn_response t) (responseIndex t)) (\<lambda>ok. ret (Some ok))))"

section \<open>Responses without a scenario\<close>

datatype T_AutoMode = E_AM_DEFAULT | E_AM_UNEXP_BYE | E_AM_UNEXP_CANCEL | E_AM_PING | E_AM_AA | E_AM_OOCALL

definition checkAutomaticResponseMode :: "'d call_env \<Rightarrow> string \<Rightarrow> T_AutoMode" where
  "checkAutomaticResponseMode env request =
     (if request = ''BYE'' then E_AM_UNEXP_BYE
      else if request = ''CANCEL'' then E_AM_UNEXP_CANCEL
      else if request = ''PING'' then E_AM_PING
      else if auto_answer env \<and> request \<in> {''INFO'', ''NOTIFY'', ''OPTIONS'', ''UPDATE''} then E_AM_AA
      else E_AM_DEFAULT)"

definition unexpected_end :: "'d call_env \<Rightarrow> string \<Rightarrow> ('d, bool) op" where
  "unexpected_end env msg =
     thenM (set_call (\<lambda>c. c\<lparr>last_recv_msg := msg\<rparr>)) (with_call (\<lambda>c.
     bindM (nth_message (msgs env) (msg_index c)) (\<lambda>_.
     thenM (bump_count (False, msg_index c) nb_unexp)
     (if behavior_abortunexp env then
        thenM (whenM (behavior_bye env) (send_default env ''200'' (- 1)))
        (bindM (abort_twin env) (\<lambda>ok.
          if \<not> ok then ret False
          else thenM (count_stat E_CALL_FAILED) (thenM (count_stat E_FAILED_UNEXPECTED_MSG) (thenM (delete_this env) (ret False)))))
      else ret False))))"

definition automaticResponseMode :: "'d call_env \<Rightarrow> T_AutoMode \<Rightarrow> string \<Rightarrow> ('d, bool) op" where
  "automaticResponseMode env m msg =
     (case m of
        E_AM_UNEXP_BYE \<Rightarrow> unexpected_end env msg
      | E_AM_UNEXP_CANCEL \<Rightarrow> unexpected_end env msg
      | E_AM_PING \<Rightarrow>
          thenM (set_call (\<lambda>c. c\<lparr>last_recv_msg := msg\<rparr>))
          (if behavior_pingreply env then
             thenM (send_default env ''200'' (- 1))
             (bindM (abort_twin env) (\<lambda>ok.
               if \<not> ok then ret False
               else thenM (emit (Counted_global E_AUTO_ANSWERED))
                 (thenM (count_stat E_CALL_ENDED_UNCOUNTED) (thenM (delete_this env) (ret False)))))
           else ret False)
      | E_AM_AA \<Rightarrow> with_call (\<lambda>c.
          thenM (set_call (\<lambda>c. c\<lparr>last_recv_msg := msg\<rparr>))
          (thenM (send_default env ''200'' (- 1))
          (thenM (whenM (last_recv_msg c \<noteq> []) (set_call (\<lambda>c'. c'\<lparr>last_recv_msg := last_recv_msg c\<rparr>)))
          (thenM (emit (Counted_global E_AUTO_ANSWERED)) (ret True)))))
      | _ \<Rightarrow> fail (ERROR ''Internal error for automaticResponseMode - mode is not implemented!''))"

section \<open>Taking an expected message\<close>

definition stops_retransmission :: "msg_info \<Rightarrow> bool" where
  "stops_retransmission info \<longleftrightarrow> i_code info \<noteq> 0 \<or> i_request info \<in> {''ACK'', ''CANCEL'', ''BYE'', ''PRACK''}"

text \<open>The retransmission timer after the message at the index \<open>i\<close> came.\<close>

definition update_retrans :: "'d call_env \<Rightarrow> msg_info \<Rightarrow> int \<Rightarrow> call \<Rightarrow> call" where
  "update_retrans env info i c =
     (if stops_retransmission info \<and> i > last_send_index c then
        if i_code info = 0 \<or> 200 \<le> i_code info \<or> prefix_of_INVITE (i_cseq_method info) then c\<lparr>next_retrans := 0\<rparr>
        else c\<lparr>next_retrans := ucast (clock_tick env + ucast (global_t2 env)), nb_last_delay := global_t2 env\<rparr>
      else c)"

definition update_cseq :: "msg_info \<Rightarrow> string \<Rightarrow> call \<Rightarrow> call" where
  "update_cseq info msg c =
     (if i_request info \<noteq> [] \<and> get_cseq_value msg > unat (cseq c) then c\<lparr>cseq := of_nat (get_cseq_value msg)\<rparr> else c)"

definition record_route :: "msg_info \<Rightarrow> string \<Rightarrow> string \<Rightarrow> call \<Rightarrow> call" where
  "record_route info rr contact c =
     (case computeRouteSetAndRemoteTargetUri (c_str rr) (c_str contact) (i_code info = 0) of
        (routes, target) \<Rightarrow>
          c\<lparr>dialog_route_set := (case routes of Some r \<Rightarrow> Some r | None \<Rightarrow> dialog_route_set c),
            next_req_url := (case target of Some t \<Rightarrow> t | None \<Rightarrow> [])\<rparr>)"

definition store_challenge :: "'d call_env \<Rightarrow> string \<Rightarrow> int \<Rightarrow> ('d, unit) op" where
  "store_challenge env msg code0 =
     bindM (lift (get_header_content msg ''Proxy-Authenticate:'')) (\<lambda>a.
     bindM (if a = [] then lift (get_header_content msg ''WWW-Authenticate:'') else ret a) (\<lambda>auth.
       if auth = [] then fail (ERROR ''Couldn't find 'Proxy-Authenticate' or 'WWW-Authenticate' in 401 or 407!'')
       else set_call (\<lambda>c. c\<lparr>dialog_authentication := selectAuthChallenge (ssl env) auth, dialog_challenge_type := code0, next_nonce_count := 1\<rparr>)))"

definition keep_request :: "'d message \<Rightarrow> string \<Rightarrow> 64 word \<Rightarrow> int \<Rightarrow> ('d, unit) op" where
  "keep_request m msg cookie i = with_call (\<lambda>c.
     set_txn (start_txn m) (\<lambda>t. t\<lparr>txn_request := msg, requestHash := cookie, requestIndex := i, txn_response := [],
       txn_dialog := (case dialogs c of Some ds \<Rightarrow> current ds | None \<Rightarrow> 1)\<rparr>))"

text \<open>The timeouts of the messages that may come instead, which are read and not used.\<close>

fun candidate_timeouts :: "'d call_env \<Rightarrow> 'd message list \<Rightarrow> ('d, unit) op" where
  "candidate_timeouts env [] = ret ()"
| "candidate_timeouts env (m # ms) =
     (if m_type m \<noteq> MSG_TYPE_RECV then ret () else bindM (recvTimeout env m) (\<lambda>_. candidate_timeouts env ms))"

text \<open>The state advances: the message at the index \<open>i\<close> was the last one received.\<close>

definition advance :: "'d call_env \<Rightarrow> 'd message \<Rightarrow> string \<Rightarrow> 64 word \<Rightarrow> int \<Rightarrow> ('d, bool) op" where
  "advance env m msg cookie i =
     thenM (set_call (\<lambda>c. c\<lparr>last_recv_index := i, last_recv_hash := cookie, last_recv_msg := msg\<rparr>))
     (bindM (if m_optional m = OPTIONAL_FALSE then ret True
             else if m_next m = 0 then ret False
             else if m_test m = - 1 then ret True
             else var_is_set env (m_test m)) (\<lambda>go.
       if go then
         thenM (set_call (\<lambda>c. c\<lparr>paused_until := 0,
             rtpstream_wait_check := (if rtpstream_wait_msg c \<noteq> Some (False, i) then 0 else rtpstream_wait_check c), msg_index := i\<rparr>))
           (next_message env)
       else
         thenM (whenM (m_next m \<noteq> 0) (thenM (var_is_set env (m_test m)) (ret ())))
         (thenM (candidate_timeouts env (drop (nat i + 1) (msgs env))) (thenM setPaused_call (ret True)))))"

definition take_message :: "'d call_env \<Rightarrow> string \<Rightarrow> 64 word \<Rightarrow> msg_info \<Rightarrow> int \<Rightarrow> ('d, bool) op" where
  "take_message env msg cookie info i =
     bindM (nth_message (msgs env) i) (\<lambda>m.
     bindM (lost env i) (\<lambda>l.
       if l then thenM (bump_count (False, i) nb_lost) (ret True)
       else
         thenM (whenM (response_txn m \<noteq> 0) (bindM (lift (hash (rtcheck_mode env) msg)) (\<lambda>h. set_txn (response_txn m) (\<lambda>t. t\<lparr>txnResp := h\<rparr>))))
         (thenM (whenM (start_txn m \<noteq> 0) (keep_request m msg cookie i))
         (thenM (do_bookkeeping env m)
         (thenM (bump_count (False, i) nb_recv)
         (bindM (executeAction env (Some msg) False m) (\<lambda>r.
         bindM (handleActionResult env r) (\<lambda>ok.
           if \<not> ok then ret False
           else
             thenM (set_call (update_retrans env info i \<circ> update_cseq info msg))
             (thenM (whenM (i_code info = 200) (set_call (\<lambda>c. c\<lparr>ack_is_pending := True\<rparr>)))
             (thenM (with_call (\<lambda>c. whenM (bShouldRecordRoutes m \<and> dialog_route_set c = None)
                (bindM (lift (get_header_content msg ''Record-Route:'')) (\<lambda>rr.
                 bindM (lift (get_header_content msg ''Contact:'')) (\<lambda>contact. set_call (record_route info rr contact))))))
             (thenM (whenM (bShouldAuthenticate m \<and> (i_code info = 401 \<or> i_code info = 407)) (store_challenge env msg (i_code info)))
               (if \<not> advance_state m then ret True else advance env m msg cookie i))))))))))))"

section \<open>The message as a whole\<close>

definition queue_up :: "string \<Rightarrow> bool \<Rightarrow> ('d, unit) op" where
  "queue_up msg sdp_read = set_call (\<lambda>c. c\<lparr>queued_msg := msg, queued_sdp_read := sdp_read\<rparr>)"

text \<open>A message that no part of the scenario takes. \<open>runs\<close> runs the scenario.\<close>

definition not_found :: "'d call_env \<Rightarrow> ('d, bool) op \<Rightarrow> string \<Rightarrow> string \<Rightarrow> ('d, bool) op" where
  "not_found env runs msg request =
     (let sc = call_scenario env
      in if unexpected_jump sc \<ge> 0 then
           bindM (if retaddr sc \<ge> 0 then
                    bindM (var_get_double env (retaddr sc)) (\<lambda>d.
                      if \<not> d_eq (dbl env) d (d_zero (dbl env)) then ret True
                      else with_call (\<lambda>c. thenM (write_var (retaddr sc) (setDouble (d_of_int (dbl env) (msg_index c)))) (ret False)))
                  else ret False) (\<lambda>recursive.
             if recursive then process_unexpected env msg
             else
               thenM (if pausedaddr sc \<ge> 0
                      then with_call (\<lambda>c. write_var (pausedaddr sc) (setDouble (d_of_int (dbl env) (uint (paused_until c)))))
                      else ret ())
               (thenM (set_call (\<lambda>c. c\<lparr>msg_index := unexpected_jump sc, paused_until := 0, rtpstream_wait_check := 0\<rparr>))
               (thenM (queue_up msg True) runs)))
         else
           let m = checkAutomaticResponseMode env request
           in if m = E_AM_DEFAULT then process_unexpected env msg else automaticResponseMode env m msg)"

definition match_and_take :: "'d call_env \<Rightarrow> ('d, bool) op \<Rightarrow> string \<Rightarrow> 64 word \<Rightarrow> msg_info \<Rightarrow> ('d, bool) op" where
  "match_and_take env runs msg cookie info = with_call (\<lambda>c.
     bindM (lift (find_message env c msg info)) (\<lambda>r.
       case r of
         Old_found i \<Rightarrow> take_message env msg cookie info (int i)
       | Old_ignored \<Rightarrow> ret True
       | Old_ack i \<Rightarrow>
           bindM (nth_message (msgs env) (int i)) (\<lambda>m.
             case send_scheme m of
               None \<Rightarrow> fail Undefined
             | Some s \<Rightarrow> bindM (createSendingMessage env s (int i)) (\<lambda>t. thenM (sendBuffer env t) (ret True)))
       | Old_none \<Rightarrow> not_found env runs msg (i_request info)))"

text \<open>From the check of the ACK on.\<close>

definition process_expected :: "'d call_env \<Rightarrow> ('d, bool) op \<Rightarrow> 'd message \<Rightarrow> string \<Rightarrow> bool \<Rightarrow> ('d, bool) op" where
  "process_expected env runs curmsg msg sdp_read = with_call (\<lambda>c.
     bindM (lift (checkAckCSeq env c msg)) (\<lambda>good.
       if \<not> good then thenM (count_stat E_CALL_FAILED) (thenM (delete_this env) (ret False))
       else
         bindM (lift (get_header msg ''To:'' False)) (\<lambda>to.
         bindM (if to = [] then process_unexpected env msg else ret True) (\<lambda>ok.
           if \<not> ok then ret False
           else
             let udp = (transport_udp env \<and> retrans_enabled env)
             in bindM (if udp then lift (hash (rtcheck_mode env) msg) else ret 0) (\<lambda>cookie.
                bindM (if udp then check_retransmission env cookie else ret None) (\<lambda>again.
                  case again of
                    Some b \<Rightarrow> ret b
                  | None \<Rightarrow>
                      bindM (take_sdp env curmsg msg sdp_read) (\<lambda>ok2.
                        if \<not> ok2 then ret False
                        else bindM (read_start env msg) (\<lambda>info.
                          case info of None \<Rightarrow> ret False | Some i \<Rightarrow> match_and_take env runs msg cookie i))))))))"

definition process_incoming_with :: "'d call_env \<Rightarrow> ('d, bool) op \<Rightarrow> string \<Rightarrow> bool \<Rightarrow> ('d, bool) op" where
  "process_incoming_with env runs msg sdp_read = with_call (\<lambda>c0.
     bindM (if last_send_unanswered c0 \<and> is_response msg then lift (same_cseq (c_str (last_send_msg c0)) msg) else ret False) (\<lambda>answered.
     thenM (whenM answered (set_call (\<lambda>c. c\<lparr>last_send_unanswered := False\<rparr>)))
     (if pastLastMessage env c0 then ret True
      else
        thenM setRunning_call
        (bindM (nth_message (msgs env) (msg_index c0)) (\<lambda>curmsg.
          if m_type curmsg = MSG_TYPE_PAUSE \<and> pause_msg_ign env then ret True
          else if m_type curmsg = MSG_TYPE_NOP \<or> m_type curmsg = MSG_TYPE_SENDCMD then
            thenM (queue_up msg False) (thenM (set_call (\<lambda>c. c\<lparr>paused_until := 0\<rparr>)) runs)
          else
            thenM (set_call (\<lambda>c.
                case dialogs c of
                  None \<Rightarrow> c
                | Some ds \<Rightarrow> switch_dialog env (dialogOf env ds msg) (c\<lparr>dialogs := Some (ds\<lparr>incoming := dialogOf env ds msg\<rparr>)\<rparr>)))
              (process_expected env runs curmsg msg sdp_read))))))"

end
