(* ===== verification/Call_Run.thy ===== *)
theory Call_Run
  imports Call_Incoming
begin

text \<open>
  The running of a call: the execution of the message it is at (\<^verbatim>\<open>call::executeMessage\<close>), its timers (\<^verbatim>\<open>call::run\<close>), commands of the
  twin, and the start of a call (\<^verbatim>\<open>call::init\<close>).

  \<^verbatim>\<open>run\<close>, \<^verbatim>\<open>executeMessage\<close> and \<^verbatim>\<open>process_incoming\<close> call one another. The number that \<open>process_incoming\<close> takes is the depth of this
  recursion that the stack has room for; beyond it is the overflow of the stack.
\<close>

section \<open>Sending the message of the scenario\<close>

definition pause_length :: "'d call_env \<Rightarrow> 'd message \<Rightarrow> ('d, 32 word) op" where
  "pause_length env m =
     bindM (if pause_distribution m then
              bindM (ask (o_sample (out env))) (\<lambda>d.
                ret (if d_less (dbl env) d (d_of_int (dbl env) 1) then 0 else of_int (d_to_int (dbl env) d)))
            else bindM (get_var_double env (pause_variable m)) (\<lambda>d. ret (of_int (d_to_int (dbl env) d)))) (\<lambda>p.
       ret (if uint p > INT_MAX then of_int INT_MAX else p))"

definition is_pause :: "'d message \<Rightarrow> bool" where
  "is_pause m \<longleftrightarrow> pause_distribution m \<or> pause_variable m \<noteq> - 1"

definition execute_pause :: "'d call_env \<Rightarrow> 'd message \<Rightarrow> ('d, bool) op" where
  "execute_pause env m = with_call (\<lambda>c0.
     bindM (pause_length env m) (\<lambda>p.
     thenM (set_call (\<lambda>c. c\<lparr>paused_until := ucast (clock_tick env + ucast p), timewait := m_timewait m\<rparr>))
     (thenM (bump_count (initCall c0, m_index m) sessions)
     (thenM (do_bookkeeping env m)
     (bindM (executeAction env None (initCall c0) m) (\<lambda>r.
     bindM (handleActionResult env r) (\<lambda>ok. if \<not> ok then ret False else thenM setPaused_call (ret True))))))))"

definition execute_sendCmd :: "'d call_env \<Rightarrow> 'd message \<Rightarrow> ('d, bool) op" where
  "execute_sendCmd env m = with_call (\<lambda>c0.
     if next_retrans c0 \<noteq> 0 then ret True
     else bindM (sendCmdMessage env m) (\<lambda>sent.
       if \<not> sent then ret False
       else
         thenM (bump_count (initCall c0, m_index m) M_nbCmdSent)
         (thenM (set_call (\<lambda>c. c\<lparr>next_retrans := 0\<rparr>))
         (thenM (do_bookkeeping env m)
         (bindM (executeAction env None (initCall c0) m) (\<lambda>r.
         bindM (handleActionResult env r) (\<lambda>ok. if \<not> ok then ret False else next_message env)))))))"

definition execute_nop :: "'d call_env \<Rightarrow> 'd message \<Rightarrow> ('d, bool) op" where
  "execute_nop env m = with_call (\<lambda>c0.
     thenM (do_bookkeeping env m)
     (bindM (executeAction env None (initCall c0) m) (\<lambda>r.
     bindM (handleActionResult env r) (\<lambda>ok.
       if \<not> ok then ret False
       else if r = E_AR_RTPECHO_ERROR then thenM (terminate env E_CALL_FAILED) (ret False)
       else next_message env))))"

text \<open>The request that a response in a transaction answers is the last message while the response is filled.\<close>

definition swap_request :: "nat \<Rightarrow> ('d, unit) op" where
  "swap_request n = with_call (\<lambda>c. bindM (lift (txn_at c n)) (\<lambda>t.
     thenM (set_call (\<lambda>c. c\<lparr>last_recv_msg := txn_request t\<rparr>)) (set_txn n (\<lambda>t. t\<lparr>txn_request := last_recv_msg c\<rparr>))))"

text \<open>The message could not be sent now: the send timeout starts, or is over.\<close>

definition send_blocked :: "'d call_env \<Rightarrow> 'd message \<Rightarrow> ('d, bool) op" where
  "send_blocked env m = with_call (\<lambda>c.
     if send_timeout c \<noteq> 0 then
       if clock_tick env > ucast (send_timeout c) then
         thenM (count_stat E_CALL_FAILED) (thenM (count_stat E_FAILED_TIMEOUT_ON_SEND) (bye_or_delete env))
       else ret True
     else if m_timeout m \<noteq> 0 then
       thenM (set_call (\<lambda>c. c\<lparr>send_timeout := ucast (clock_tick env + ucast (m_timeout m))\<rparr>)) (ret True)
     else if defl_send_timeout env \<noteq> 0 then
       thenM (set_call (\<lambda>c. c\<lparr>send_timeout := ucast (clock_tick env + defl_send_timeout env)\<rparr>)) (ret True)
     else ret True)"

definition keepRecvRetransMsg :: "call \<Rightarrow> call" where
  "keepRecvRetransMsg c =
     (if recv_retrans_last c then c\<lparr>recv_retrans_msg := last_send_msg c, recv_retrans_last := False\<rparr> else c)"

definition resend_last :: "'d call_env \<Rightarrow> call \<Rightarrow> call" where
  "resend_last env c = (if transport_udp env \<and> retrans_enabled env then c\<lparr>recv_retrans_msg := [], recv_retrans_last := True\<rparr> else c)"

text \<open>What a retransmission of the last received message gets.\<close>

definition note_cause :: "'d call_env \<Rightarrow> 'd message \<Rightarrow> bool \<Rightarrow> 64 word option \<Rightarrow> ('d, unit) op" where
  "note_cause env m is_resp answered = with_call (\<lambda>c.
     if last_recv_index c \<ge> 0 \<and> last_recv_hash c \<noteq> 0 \<and> (case answered of None \<Rightarrow> True | Some h \<Rightarrow> h = last_recv_hash c) then
       set_call (\<lambda>c. resend_last env (c\<lparr>recv_retrans_hash := last_recv_hash c, recv_retrans_recv_index := last_recv_index c,
           recv_retrans_send_index := m_index m, last_recv_hash := 0\<rparr>))
     else if last_recv_index c \<ge> 0 \<and> recv_retrans_recv_index c = last_recv_index c then
       bindM (nth_message (msgs env) (last_recv_index c)) (\<lambda>lm.
         if recv_request lm \<noteq> None \<and> is_resp then
           bindM (lift (same_cseq (c_str (last_send_msg c)) (c_str (last_recv_msg c)))) (\<lambda>same.
             whenM same (set_call (\<lambda>c. resend_last env (c\<lparr>recv_retrans_send_index := m_index m\<rparr>))))
         else ret ())
     else ret ())"

definition start_retrans :: "'d call_env \<Rightarrow> 'd message \<Rightarrow> call \<Rightarrow> call" where
  "start_retrans env m c =
     (if retrans_delay m \<noteq> 0 then
        if transport_udp env \<and> retrans_enabled env
        then c\<lparr>next_retrans := ucast (clock_tick env + ucast (retrans_delay m)), nb_retrans := 0, nb_last_delay := retrans_delay m\<rparr>
        else c
      else c\<lparr>next_retrans := 0\<rparr>)"

text \<open>After the message was sent.\<close>

definition message_sent :: "'d call_env \<Rightarrow> 'd message \<Rightarrow> sending_message \<Rightarrow> string \<Rightarrow> bool \<Rightarrow> ('d, bool) op" where
  "message_sent env m scheme msg_snd answering =
     thenM (set_call (\<lambda>c. (keepRecvRetransMsg (c\<lparr>send_timeout := 0\<rparr>))\<lparr>last_send_index := m_index m, last_send_msg := msg_snd\<rparr>))
     (bindM (if \<not> response scheme \<and> \<not> ack scheme then with_call (\<lambda>c. if call_socket c then ask (o_all_written (out env)) else ret False)
             else ret False) (\<lambda>unanswered.
     thenM (set_call (\<lambda>c. c\<lparr>last_send_unanswered := unanswered\<rparr>))
     (thenM (whenM (start_txn m \<noteq> 0)
        (bindM (lift (extract_transaction MAX_HEADER_LEN (c_str msg_snd))) (\<lambda>br. with_call (\<lambda>c.
          set_txn (start_txn m) (\<lambda>t. t\<lparr>txnID := Some br, txn_dialog := (case dialogs c of Some ds \<Rightarrow> current ds | None \<Rightarrow> 1)\<rparr>)))))
     (thenM (with_call (\<lambda>c.
        case dialogs c of
          None \<Rightarrow> ret ()
        | Some ds \<Rightarrow>
            let sent_id = get_call_id (c_str msg_snd)
            in whenM (\<not> dialogKnown ds (current ds) \<and> sent_id \<noteq> []) (setDialogCallId env (current ds) sent_id)))
     (thenM (whenM (ack_txn m \<noteq> 0) (set_txn (ack_txn m) (\<lambda>t. t\<lparr>ackIndex := m_index m\<rparr>)))
     (thenM (whenM answering (set_txn (response_txn m) (\<lambda>t. t\<lparr>txn_response := msg_snd, responseIndex := m_index m\<rparr>)))
     (bindM (if answering then with_call (\<lambda>c. bindM (lift (txn_at c (response_txn m))) (\<lambda>t. ret (Some (requestHash t)))) else ret None) (\<lambda>h.
     thenM (note_cause env m (response scheme) h)
     (thenM (set_call (start_retrans env m))
     (with_call (\<lambda>c0.
       thenM (bump_count (initCall c0, m_index m) nb_sent)
       (bindM (executeAction env (Some msg_snd) (initCall c0) m) (\<lambda>r.
       bindM (handleActionResult env r) (\<lambda>ok. if \<not> ok then ret False else next_message env))))))))))))))"

definition counts_cseq :: "sending_message \<Rightarrow> bool" where
  "counts_cseq s \<longleftrightarrow> \<not> ack s \<and> \<not> cancel s \<and> \<not> response s"

definition execute_send :: "'d call_env \<Rightarrow> 'd message \<Rightarrow> sending_message \<Rightarrow> ('d, bool) op" where
  "execute_send env m scheme = with_call (\<lambda>c0.
     if next_retrans c0 \<noteq> 0 then thenM setPaused_call (ret True)
     else
       thenM (if dialogs c0 \<noteq> None then bindM (lift (msgDialog c0 m)) (\<lambda>d. set_call (switch_dialog env d)) else ret ())
       (thenM (do_bookkeeping env m)
       (thenM (whenM (counts_cseq scheme) (set_call (\<lambda>c. c\<lparr>cseq := cseq c + 1\<rparr>)))
       (bindM (if response_txn m \<noteq> 0
               then with_call (\<lambda>c. bindM (lift (txn_at c (response_txn m))) (\<lambda>t. ret (txn_request t \<noteq> []))) else ret False) (\<lambda>answering.
       thenM (whenM answering (swap_request (response_txn m)))
       (bindM (send_scene env (msg_index c0)) (\<lambda>r.
         case r of
           None \<Rightarrow> ret False
         | Some (msg_snd, rc) \<Rightarrow>
             if rc = Write_failed then ret False
             else
               thenM (whenM answering (swap_request (response_txn m)))
               (if rc = Would_block then
                  thenM (whenM (counts_cseq scheme) (set_call (\<lambda>c. c\<lparr>cseq := cseq c - 1\<rparr>))) (send_blocked env m)
                else message_sent env m scheme msg_snd answering))))))))"

section \<open>Commands of the twin\<close>

fun recvCmdFollows :: "'d message list \<Rightarrow> bool" where
  "recvCmdFollows [] = False"
| "recvCmdFollows (m # ms) =
     (if m_type m = MSG_TYPE_RECVCMD then True else if m_type m = MSG_TYPE_SENDCMD then False else recvCmdFollows ms)"

text \<open>The word after a name in a command, if white space ends it.\<close>

definition command_word :: "string \<Rightarrow> string \<Rightarrow> string option" where
  "command_word name cmd =
     (case find_sub name cmd of
        None \<Rightarrow> None
      | Some k \<Rightarrow>
          let p = dropWhile is_blank (drop (k + length name) cmd); v = takeWhile (\<lambda>c. \<not> is_lws c) p
          in if p = [] \<or> length v = length p then None else Some v)"

definition checkInternalCmd :: "'d call_env \<Rightarrow> string \<Rightarrow> ('d, bool) op" where
  "checkInternalCmd env cmd =
     (if command_word ''internal-cmd:'' cmd = Some ''abort_call''
      then thenM (count_stat E_CALL_FAILED) (thenM (abortCall env) (ret True)) else ret False)"

definition check_peer_src :: "string \<Rightarrow> 'd message \<Rightarrow> bool" where
  "check_peer_src msg m \<longleftrightarrow> command_word ''From:'' msg = Some (peer_src m)"

datatype cmd_search = Cmd_at int | Cmd_kept | Cmd_rejected

fun cmd_loop :: "'d call_env \<Rightarrow> call \<Rightarrow> string \<Rightarrow> int \<Rightarrow> 'd message list \<Rightarrow> cmd_search" where
  "cmd_loop env c msg i [] = Cmd_rejected"
| "cmd_loop env c msg i (m # ms) =
     (if m_type m \<noteq> MSG_TYPE_RECVCMD then
        if m_optional m \<noteq> OPTIONAL_FALSE \<or> m_type m = MSG_TYPE_NOP then cmd_loop env c msg (i + 1) ms
        else if (m_type m = MSG_TYPE_RECV \<or> m_type m = MSG_TYPE_SEND) \<and> queued_cmd c = [] \<and> recvCmdFollows ms then Cmd_kept
        else Cmd_rejected
      else if extendedTwinSippMode env \<and> \<not> check_peer_src msg m then Cmd_rejected
      else Cmd_at i)"

definition chop_blank_line :: "string \<Rightarrow> string" where
  "chop_blank_line msg =
     (if length msg \<ge> 4 \<and> drop (length msg - 4) msg = CRLF @ CRLF then take (length msg - 4) msg else msg)"

definition process_twinSippCom :: "'d call_env \<Rightarrow> string \<Rightarrow> ('d, bool) op" where
  "process_twinSippCom env msg =
     thenM setRunning_call
     (bindM (checkInternalCmd env msg) (\<lambda>internal.
       if internal then ret False
       else with_call (\<lambda>c.
         if msg_index c < 0 then fail Undefined
         else case cmd_loop env c msg (msg_index c) (drop (nat (msg_index c)) (msgs env)) of
           Cmd_rejected \<Rightarrow> rejectCall env
         | Cmd_kept \<Rightarrow> thenM (set_call (\<lambda>c. c\<lparr>queued_cmd := msg\<rparr>)) (ret True)
         | Cmd_at i \<Rightarrow>
             bindM (nth_message (msgs env) i) (\<lambda>m.
             thenM (bump_count (False, i) M_nbCmdRecv)
             (thenM (do_bookkeeping env m)
             (bindM (executeAction env (Some (chop_blank_line msg)) False m) (\<lambda>r.
             bindM (handleActionResult env r) (\<lambda>ok.
               if \<not> ok then ret False
               else thenM (set_call (\<lambda>c. c\<lparr>msg_index := i\<rparr>)) (next_message env)))))))))"

section \<open>Waiting for a message\<close>

text \<open>The timeout of a \<^verbatim>\<open><recv>\<close> is over.\<close>

definition recv_timed_out :: "'d call_env \<Rightarrow> 'd message \<Rightarrow> ('d, bool) op" where
  "recv_timed_out env m = with_call (\<lambda>c0.
     thenM (set_call (\<lambda>c. c\<lparr>recv_timeout := 0\<rparr>))
     (thenM (bump_count (initCall c0, m_index m) nb_timeout)
     (if on_timeout m < 0 then
        thenM (count_stat E_CALL_FAILED) (thenM (count_stat E_FAILED_TIMEOUT_ON_RECV) (bye_or_delete env))
      else
        thenM (set_call (\<lambda>c. c\<lparr>msg_index := on_timeout m, recv_timeout := 0\<rparr>))
        (if on_timeout m < int (length (msgs env)) then ret True
         else thenM (count_stat E_CALL_FAILED) (thenM (count_stat E_FAILED_TIMEOUT_ON_RECV) (bye_or_delete env))))))"

definition execute_recv :: "'d call_env \<Rightarrow> (string \<Rightarrow> bool \<Rightarrow> ('d, bool) op) \<Rightarrow> 'd message \<Rightarrow> ('d, bool) op" where
  "execute_recv env incoming0 m = with_call (\<lambda>c.
     if m_type m = MSG_TYPE_RECVCMD \<and> queued_cmd c \<noteq> [] then
       thenM (set_call (\<lambda>c. c\<lparr>queued_cmd := []\<rparr>)) (process_twinSippCom env (queued_cmd c))
     else if queued_msg c \<noteq> [] then
       thenM (set_call (\<lambda>c. c\<lparr>queued_msg := []\<rparr>)) (incoming0 (c_str (queued_msg c)) (queued_sdp_read c))
     else if recv_timeout c \<noteq> 0 then
       bindM (ask (o_ms (out env))) (\<lambda>now.
         if ucast (recv_timeout c) > now then thenM setPaused_call (ret True) else recv_timed_out env m)
     else
       bindM (recvTimeout env m) (\<lambda>t.
         if t \<noteq> 0 \<or> defl_recv_timeout env \<noteq> 0 then
           bindM (ask (o_ms (out env))) (\<lambda>now.
             thenM (set_call (\<lambda>c. c\<lparr>recv_timeout := ucast (now + (if t \<noteq> 0 then ucast t else defl_recv_timeout env))\<rparr>)) (ret True))
         else thenM setPaused_call (ret True)))"

definition executeMessage :: "'d call_env \<Rightarrow> (string \<Rightarrow> bool \<Rightarrow> ('d, bool) op) \<Rightarrow> 'd message \<Rightarrow> ('d, bool) op" where
  "executeMessage env incoming0 m =
     (if is_pause m then execute_pause env m
      else if m_type m = MSG_TYPE_SENDCMD then execute_sendCmd env m
      else if m_type m = MSG_TYPE_NOP then execute_nop env m
      else case send_scheme m of
        Some scheme \<Rightarrow> execute_send env m scheme
      | None \<Rightarrow>
          if m_type m = MSG_TYPE_RECV \<or> m_type m = MSG_TYPE_RECVCMD then execute_recv env incoming0 m else with_call (\<lambda>c. ret True))"

section \<open>Running\<close>

definition invite_sent :: "call \<Rightarrow> bool" where
  "invite_sent c = has_prefix ''INVITE'' (last_send_msg c)"

definition rt_allowed :: "'d call_env \<Rightarrow> call \<Rightarrow> int" where
  "rt_allowed env c = min (if invite_sent c then max_invite_retrans env else max_non_invite_retrans env) (max_udp_retrans env)"

definition next_delay :: "'d call_env \<Rightarrow> call \<Rightarrow> 32 word" where
  "next_delay env c =
     (let d = nb_last_delay c * 2 in if global_t2 env < d \<and> \<not> invite_sent c then global_t2 env else d)"

text \<open>The message was sent as often as it may be: \<^verbatim>\<open>Inr\<close> jumps to the label of its timeout.\<close>

definition give_up :: "'d call_env \<Rightarrow> ('d, bool) op" where
  "give_up env = with_call (\<lambda>c.
     bindM (nth_message (msgs env) (last_send_index c)) (\<lambda>lm.
     thenM (bump_count (False, last_send_index c) nb_timeout)
     (if on_timeout lm \<ge> 0 then
        thenM (set_call (\<lambda>c. c\<lparr>msg_index := on_timeout lm, next_retrans := 0, recv_timeout := 0\<rparr>))
        (if on_timeout lm < int (length (msgs env)) then ret True
         else thenM (count_stat E_CALL_FAILED) (thenM (count_stat E_FAILED_MAX_UDP_RETRANS) (bye_or_delete env)))
      else thenM (count_stat E_CALL_FAILED) (thenM (count_stat E_FAILED_MAX_UDP_RETRANS) (bye_or_delete env)))))"

text \<open>The retransmission timer: \<open>Some b\<close> ends the run with the result \<open>b\<close>.\<close>

definition retransmit :: "'d call_env \<Rightarrow> ('d, bool option) op" where
  "retransmit env = with_call (\<lambda>c0.
     if next_retrans c0 \<noteq> 0 \<and> ucast (next_retrans c0) < clock_tick env then
       thenM (set_call (\<lambda>c. c\<lparr>nb_retrans := nb_retrans c + 1\<rparr>))
       (with_call (\<lambda>c.
         if nb_retrans c > rt_allowed env c then bindM (give_up env) (\<lambda>b. ret (Some b))
         else
           thenM (set_call (\<lambda>c. c\<lparr>nb_last_delay := next_delay env c\<rparr>))
           (bindM (send_raw env (last_send_msg c) (last_send_index c)) (\<lambda>rc.
             if rc \<noteq> Written then ret (Some False)
             else
               thenM (bump_count (False, last_send_index c) nb_sent_retrans)
               (thenM (count_stat E_RETRANSMISSION)
               (thenM (set_call (\<lambda>c. c\<lparr>next_retrans := ucast (clock_tick env + ucast (nb_last_delay c))\<rparr>)) (ret None)))))))
     else ret None)"

text \<open>\<open>true\<close> when the message waits for the end of a playback.\<close>

definition wait_playback :: "'d call_env \<Rightarrow> ('d, bool option) op" where
  "wait_playback env = with_call (\<lambda>c.
     if rtpstream_wait_check c = 0 then ret None
     else bindM (ask (o_play_end (out env))) (\<lambda>play_end.
       if play_end = 0 then thenM (set_call (\<lambda>c. c\<lparr>rtpstream_wait_check := 0\<rparr>)) (ret None)
       else if rtpstream_wait_until c \<noteq> 0 \<and> ucast (rtpstream_wait_until c) \<le> clock_tick env then
         bindM (rtpstreamWaitTimeout env) (\<lambda>b. ret (Some b))
       else thenM (rtpstreamWaitNextCheck env play_end) (thenM setPaused_call (ret (Some True)))))"

definition skips :: "'d call_env \<Rightarrow> 'd message \<Rightarrow> ('d, bool) op" where
  "skips env m =
     (if condexec m = - 1 then ret False
      else bindM (var_is_set env (condexec m)) (\<lambda>set. ret (if condexec_inverse m then set else \<not> set)))"

definition continue_run :: "'d call_env \<Rightarrow> (string \<Rightarrow> bool \<Rightarrow> ('d, bool) op) \<Rightarrow> 'd message \<Rightarrow> ('d, bool) op" where
  "continue_run env incoming0 m = with_call (\<lambda>c.
     if paused_until c \<noteq> 0 then
       if ucast (paused_until c) > clock_tick env then thenM setPaused_call (ret True)
       else thenM (set_call (\<lambda>c. c\<lparr>paused_until := 0\<rparr>)) (next_message env)
     else
       bindM (wait_playback env) (\<lambda>waits.
         case waits of
           Some b \<Rightarrow> ret b
         | None \<Rightarrow> with_call (\<lambda>c.
             if verify_pending c \<noteq> 0 then thenM setPaused_call (ret True) else executeMessage env incoming0 m)))"

definition run_with :: "'d call_env \<Rightarrow> (string \<Rightarrow> bool \<Rightarrow> ('d, bool) op) \<Rightarrow> ('d, bool) op" where
  "run_with env incoming0 = with_call (\<lambda>c.
     if \<not> c_running c then fail AssertFailed
     else if zombie c then thenM (delete_this env) (ret False)
     else if verify_pending c \<noteq> 0 \<and> pastLastMessage env c then thenM setPaused_call (ret True)
     else if pastLastMessage env c then fail (ERROR ''Scenario overrun'')
     else
       bindM (nth_message (msgs_of env c) (msg_index c)) (\<lambda>m.
       bindM (skips env m) (\<lambda>skip.
         if skip then next_message env
         else
           bindM (retransmit env) (\<lambda>r.
             case r of Some b \<Rightarrow> ret b | None \<Rightarrow> continue_run env incoming0 m))))"

primrec process_incoming :: "nat \<Rightarrow> 'd call_env \<Rightarrow> string \<Rightarrow> bool \<Rightarrow> ('d, bool) op" where
  "process_incoming 0 env msg sdp_read w = Inl Undefined"
| "process_incoming (Suc n) env msg sdp_read w = process_incoming_with env (run_with env (process_incoming n env)) msg sdp_read w"

definition run_call :: "nat \<Rightarrow> 'd call_env \<Rightarrow> ('d, bool) op" where
  "run_call n env = run_with env (process_incoming n env)"

section \<open>A new call\<close>

text \<open>
  The table of variables is the one that the caller makes for the user; \<open>circuit\<close> is whether a circuit was found, when they are used.
\<close>

definition init_call :: "'d call_env \<Rightarrow> string \<Rightarrow> bool \<Rightarrow> bool \<Rightarrow> addr option \<Rightarrow> nat \<Rightarrow> 64 word \<Rightarrow> call" where
  "init_call env cid ini socket table rtds now =
     \<lparr>c_id = cid, c_running = True, msg_index = 0, zombie = False, initCall = ini, last_send_index = 0, last_send_msg = [],
      last_send_unanswered = False, send_timeout = 0, last_recv_hash = 0, last_recv_index = - 1, last_recv_msg = [],
      last_recv_invite_cseq = 0, recv_retrans_hash = 0, recv_retrans_recv_index = - 1, recv_retrans_send_index = - 1,
      recv_retrans_last = False, recv_retrans_msg = [], recv_timeout = 0, cseq = base_cseq env, next_retrans = 0, nb_retrans = 0,
      nb_last_delay = 0, paused_until = 0, rtpstream_wait_check = 0, rtpstream_wait_until = 0, rtpstream_wait_msg = None,
      verify_pending = 0, start_time = clock_tick env, start_time_rtd = replicate rtds now, rtd_done = replicate rtds False,
      peer_tag = None, call_established = False, ack_is_pending = False, bye_after_peer_request = False,
      M_callVariableTable = table,
      transactions = replicate (length (txn_is_invite (call_scenario env)))
        \<lparr>txnID = None, txnResp = 0, ackIndex = 0, txn_request = [], requestHash = 0, requestIndex = 0, txn_response = [],
         responseIndex = 0, txn_dialog = 0\<rparr>,
      last_action_result = E_AR_NO_ERROR, timewait = False, call_socket = socket,
      dialogs = (if has_dialogs (call_scenario env) then Some \<lparr>dialog_list = [(1, empty_dialog)], current = 1, incoming = 1\<rparr> else None),
      dialog_route_set = None, next_req_url = [], dialog_authentication = [], dialog_challenge_type = 0, next_nonce_count = 1,
      queued_msg = [], queued_sdp_read = False, queued_cmd = [], sessionStateCurrent = eNoSession, sessionStateOld = eNoSession\<rparr>"

end
