(* ===== verification/Call_Counted.thy ===== *)
theory Call_Counted
  imports Call_Run Stat_Correct
begin

text \<open>
  A call that ends is counted once. The balance of a world is the number of ends that were counted, plus one while the call is there. An
  operation shifts it by a fixed number: counting an end by one, deleting the call by minus one, and everything a call does by
  zero. Shifts add up over sequences, so the proofs follow the structure of the operations.
\<close>

section \<open>The balance\<close>

definition ok_call :: "call \<Rightarrow> bool" where
  "ok_call c \<longleftrightarrow> \<not> zombie c \<and> last_action_result c \<noteq> E_AR_STOP_CALL"

definition ok_world :: "'d world \<Rightarrow> bool" where
  "ok_world w \<longleftrightarrow> (case this w of None \<Rightarrow> True | Some c \<Rightarrow> ok_call c)"

definition is_end :: "call_event \<Rightarrow> bool" where
  "is_end e \<longleftrightarrow> (case e of Counted a \<Rightarrow> ends_call a | _ \<Rightarrow> False)"

definition ends :: "'d world \<Rightarrow> nat" where
  "ends w = length (filter is_end (trace w))"

definition balance :: "'d world \<Rightarrow> int" where
  "balance w = int (ends w) + (if this w = None then 0 else 1)"

definition shifts :: "int \<Rightarrow> ('d, 'a) op \<Rightarrow> bool" where
  "shifts n m \<longleftrightarrow> (\<forall>w a w'. ok_world w \<longrightarrow> m w = Inr (a, w') \<longrightarrow> ok_world w' \<and> balance w' = balance w + n)"

lemma shiftsI: "(\<And>w a w'. ok_world w \<Longrightarrow> m w = Inr (a, w') \<Longrightarrow> ok_world w' \<and> balance w' = balance w + n) \<Longrightarrow> shifts n m"
  by (auto simp: shifts_def)

lemma shiftsD: "shifts n m \<Longrightarrow> ok_world w \<Longrightarrow> m w = Inr (a, w') \<Longrightarrow> ok_world w' \<and> balance w' = balance w + n"
  by (auto simp: shifts_def)

lemma shifts_bind_sum:
  assumes m: "shifts j m" and f: "\<And>a. shifts k (f a)"
  shows "shifts (j + k) (bindM m f)"
proof (rule shiftsI)
  fix w b w'
  assume ok: "ok_world w" and r: "bindM m f w = Inr (b, w')"
  then obtain a w1 where a: "m w = Inr (a, w1)" "f a w1 = Inr (b, w')" by (auto simp: bindM_def)
  have 1: "ok_world w1 \<and> balance w1 = balance w + j" using m ok a(1) by (rule shiftsD)
  then show "ok_world w' \<and> balance w' = balance w + (j + k)" using shiftsD [OF f, of w1 a b w'] a(2) by simp
qed

lemma shifts_bind: "shifts 0 m \<Longrightarrow> (\<And>a. shifts n (f a)) \<Longrightarrow> shifts n (bindM m f)"
  using shifts_bind_sum [of 0 m n f] by simp

lemma shifts_then: "shifts 0 m \<Longrightarrow> shifts n k \<Longrightarrow> shifts n (thenM m k)"
  unfolding thenM_def by (rule shifts_bind)

lemma shifts_leaf [simp]: "shifts 0 (ret a)" "shifts n (fail e)" "shifts 0 (ask f)"
  by (auto simp: shifts_def ret_def fail_def ask_def ok_world_def balance_def ends_def)

lemma shifts_lift: "shifts 0 (lift r)"
  by (auto simp: shifts_def lift_def)

lemma shifts_emit: "\<not> is_end e \<Longrightarrow> shifts 0 (emit e)"
  by (auto simp: shifts_def emit_def ok_world_def balance_def ends_def)

lemma shifts_get: "shifts 0 get_call"
  by (auto simp: shifts_def get_call_def split: option.splits)

lemma shifts_with_call: "(\<And>c. ok_call c \<Longrightarrow> shifts n (f c)) \<Longrightarrow> shifts n (with_call f)"
proof (rule shiftsI)
  fix w a w'
  assume f: "\<And>c. ok_call c \<Longrightarrow> shifts n (f c)" and ok: "ok_world w" and r: "with_call f w = Inr (a, w')"
  then obtain c where "this w = Some c" "f c w = Inr (a, w')"
    by (auto simp: with_call_def bindM_def get_call_def split: option.splits)
  moreover have "ok_call c" using ok calculation(1) by (simp add: ok_world_def)
  ultimately show "ok_world w' \<and> balance w' = balance w + n" using f ok by (blast dest: shiftsD)
qed

lemma shifts_set: "(\<And>c. ok_call c \<Longrightarrow> ok_call (f c)) \<Longrightarrow> shifts 0 (set_call f)"
  by (auto simp: shifts_def set_call_def with_call_def bindM_def get_call_def ok_world_def balance_def ends_def split: option.splits)

lemma shifts_bump: "shifts 0 (bump_count m k)"
  by (auto simp: shifts_def bump_count_def ok_world_def balance_def ends_def)

lemma shifts_nth: "shifts 0 (nth_message ms i)"
  by (auto simp: shifts_def nth_message_def)

lemma shifts_when: "shifts 0 m \<Longrightarrow> shifts 0 (whenM b m)"
  by (simp add: whenM_def)

lemma shifts_if: "(b \<Longrightarrow> shifts n x) \<Longrightarrow> (\<not> b \<Longrightarrow> shifts n y) \<Longrightarrow> shifts n (if b then x else y)"
  by simp

lemma shifts_option: "(r = None \<Longrightarrow> shifts n x) \<Longrightarrow> (\<And>a. r = Some a \<Longrightarrow> shifts n (f a)) \<Longrightarrow> shifts n (case r of None \<Rightarrow> x | Some a \<Rightarrow> f a)"
  by (cases r) auto

lemma shifts_prod: "(\<And>a b. shifts n (f a b)) \<Longrightarrow> shifts n (case p of (a, b) \<Rightarrow> f a b)"
  by (cases p) auto

lemma shifts_sum: "(\<And>a. shifts n (f a)) \<Longrightarrow> (\<And>b. shifts n (g b)) \<Longrightarrow> shifts n (case r of Inl a \<Rightarrow> f a | Inr b \<Rightarrow> g b)"
  by (cases r) auto

lemma shifts_let: "(\<And>x. shifts n (f x)) \<Longrightarrow> shifts n (Let a f)"
  by simp

lemma shifts_each: "(\<And>x. shifts 0 (f x)) \<Longrightarrow> shifts 0 (for_each f xs)"
  by (induction xs) (auto intro: shifts_then)

lemma shifts_vars: "(\<And>w a w'. m w = Inr (a, w') \<Longrightarrow> this w' = this w \<and> trace w' = trace w) \<Longrightarrow> shifts 0 m"
  by (fastforce simp: shifts_def ok_world_def balance_def ends_def)

lemma shifts_count: "\<not> ends_call a \<Longrightarrow> shifts 0 (count_stat a)"
  unfolding count_stat_def by (intro shifts_with_call shifts_emit) (simp add: is_end_def)

lemma shifts_value: "shifts 0 (count_value a v i)"
  unfolding count_value_def by (intro shifts_with_call shifts_emit) (simp add: is_end_def)

text \<open>An end is counted, and the call is deleted.\<close>

lemma shifts_count_end:
  assumes "ends_call a" and k: "shifts (- 1) k"
  shows "shifts 0 (thenM (count_stat a) k)"
proof -
  have "shifts 1 (count_stat a)" using assms(1)
    by (auto simp: shifts_def count_stat_def with_call_def bindM_def get_call_def emit_def ok_world_def balance_def ends_def is_end_def split: option.splits)
  then show ?thesis using shifts_bind_sum [of 1 "count_stat a" "- 1" "\<lambda>_. k"] k by (simp add: thenM_def)
qed

lemma shifts_delete_this: "shifts (- 1) (delete_this env)"
proof -
  show ?thesis unfolding shifts_def
  proof (intro allI impI)
    fix w :: "'a world" and a w'
    assume ok: "ok_world w" and r: "delete_this env w = Inr (a, w')"
    then have "ok_world w'" "this w \<noteq> None" "this w' = None" "filter is_end (trace w') = filter is_end (trace w)"
      by (auto simp: delete_this_def with_call_def bindM_def thenM_def get_call_def count_value_def emit_def put_vars_def whenM_def
          forget_this_def ret_def ok_world_def is_end_def split: option.splits if_splits)
    then show "ok_world w' \<and> balance w' = balance w + - 1" by (simp add: balance_def ends_def)
  qed
qed

lemma shifts_delete: "shifts 0 k \<Longrightarrow> shifts (- 1) (thenM (delete_this env) k)"
  using shifts_bind_sum [OF shifts_delete_this, of 0 "\<lambda>_. k" env] by (simp add: thenM_def)

lemma ends_facts: "ends_call E_CALL_FAILED" "ends_call E_CALL_SUCCESSFULLY_ENDED" "ends_call E_CALL_ENDED_UNCOUNTED"
  "\<not> ends_call E_FAILED_CANNOT_SEND_MSG" "\<not> ends_call E_FAILED_CMD_NOT_SENT" "\<not> ends_call E_FAILED_TCP_CONNECT"
  "\<not> ends_call E_FAILED_CALL_REJECTED" "\<not> ends_call E_FAILED_UNEXPECTED_MSG" "\<not> ends_call E_FAILED_TIMEOUT_ON_SEND"
  "\<not> ends_call E_FAILED_TIMEOUT_ON_RECV" "\<not> ends_call E_FAILED_MAX_UDP_RETRANS" "\<not> ends_call E_RETRANSMISSION"
  "\<not> ends_call E_FAILED_TCP_CLOSED"
  by (simp_all add: ends_call_def)

lemma end_events: "\<not> is_end (Counted_value b v i)" "\<not> is_end (Counted_global b)" "\<not> is_end (Response_code n)" "\<not> is_end (Rtp_echo_errors i)"
  "\<not> is_end (Sent i s)" "\<not> is_end (Command_sent s)" "\<not> is_end (Dead_call s r i x y)" "\<not> is_end (Listening s)"
  "\<not> is_end Stopped_listening" "\<not> is_end (Duration v)" "\<not> is_end Socket_closed" "\<not> is_end Quit"
  by (simp_all add: is_end_def)

text \<open>The rules in the order in which they are tried: the ending ones first.\<close>

lemmas shifts_rules = ends_facts end_events shifts_count_end shifts_delete shifts_delete_this shifts_then shifts_bind shifts_with_call
  shifts_if shifts_option shifts_prod shifts_sum shifts_let shifts_leaf shifts_lift shifts_emit shifts_get shifts_bump shifts_nth shifts_when
  shifts_each shifts_count shifts_value shifts_set


section \<open>Operations of a call\<close>

lemma sh_read_var: "shifts 0 (read_var i)"
  unfolding read_var_def by (intro shifts_with_call shifts_vars) (auto split: option.splits)

lemma sh_write_var: "shifts 0 (write_var i f)"
  unfolding write_var_def by (intro shifts_with_call shifts_vars) (auto split: option.splits)

lemmas shifts_var = sh_read_var sh_write_var shifts_rules

lemma sh_var_is_set: "shifts 0 (var_is_set env i)"
  unfolding var_is_set_def by (rule shifts_var)+

lemma sh_get_var_double: "shifts 0 (get_var_double env i)"
  unfolding get_var_double_def by (rule shifts_var)+

lemma sh_paused: "shifts 0 setPaused_call"
  unfolding setPaused_call_def by (rule shifts_set) (simp add: ok_call_def)

lemma sh_running: "shifts 0 setRunning_call"
  unfolding setRunning_call_def by (rule shifts_set) (simp add: ok_call_def)

lemmas shifts_small = sh_var_is_set sh_get_var_double sh_paused sh_running shifts_var

lemma sh_recvTimeout: "shifts 0 (recvTimeout env m)"
  unfolding recvTimeout_def by (rule shifts_small)+

lemma sh_wait_next: "shifts 0 (rtpstreamWaitNextCheck env p)"
  unfolding rtpstreamWaitNextCheck_def by (rule shifts_set) (simp add: ok_call_def Let_def)

lemma sh_dead_calls: "shifts 0 (dead_calls ss r i x y)"
  by (induction ss) (auto intro!: shifts_then shifts_emit simp: is_end_def)

lemma sh_delete_leaving: "shifts (- 1) (delete_leaving env r x y)"
  unfolding delete_leaving_def by (rule sh_dead_calls shifts_small)+

lemma failed_counters: "fst (failed_counter r) = Some a \<Longrightarrow> \<not> ends_call a"
  by (cases r) (auto simp: ends_call_def)


lemma sh_terminate:
  assumes "\<not> ends_call reason \<or> reason = E_CALL_SUCCESSFULLY_ENDED"
  shows "shifts 0 (terminate env reason)"
proof -
  have sub: "shifts 0 (case fst (failed_counter r) of Some a \<Rightarrow> count_stat a | None \<Rightarrow> whenM b (emit (Rtp_echo_errors 1)))" for r b
    by (cases "fst (failed_counter r)") (auto intro!: shifts_count shifts_when shifts_emit failed_counters simp: is_end_def)
  have reason: "shifts 0 (whenM (reason \<noteq> E_NO_ACTION) (count_stat reason))" if "reason \<noteq> E_CALL_SUCCESSFULLY_ENDED"
    using assms that by (intro shifts_when shifts_count) blast
  show ?thesis unfolding terminate_def Let_def
    by (rule sh_delete_leaving sub reason shifts_small | (simp add: ok_call_def; fail))+
qed

lemma sh_reject: "shifts 0 (rejectCall env)"
  unfolding rejectCall_def by (rule shifts_small)+

lemma sh_next: "shifts 0 (next_message env)"
  unfolding next_message_def next_index_def branch_taken_def
  by (rule sh_terminate shifts_small disjI2 refl | (simp add: ok_call_def; fail))+

lemma terminate_reason:
  "this w = Some c \<Longrightarrow> last_action_result c \<noteq> E_AR_NO_ERROR \<Longrightarrow> terminate env r w = terminate env r' w"
  by (auto simp: terminate_def thenM_def bindM_def emit_def with_call_def get_call_def Let_def)


lemma sh_stop_call: "shifts 0 (thenM (set_call (\<lambda>c. c\<lparr>last_action_result := r\<rparr>)) (rejectCall env))"
  unfolding shifts_def
proof (intro allI impI)
  fix w :: "'a world" and a w'
  assume ok: "ok_world w" and r: "thenM (set_call (\<lambda>c. c\<lparr>last_action_result := r\<rparr>)) (rejectCall env) w = Inr (a, w')"
  then have "this w \<noteq> None" "this w' = None" "length (filter is_end (trace w')) = Suc (length (filter is_end (trace w)))"
    by (auto simp: rejectCall_def set_call_def count_stat_def delete_this_def with_call_def bindM_def thenM_def get_call_def count_value_def
        emit_def put_vars_def whenM_def forget_this_def ret_def is_end_def ends_call_def split: option.splits if_splits)
  then show "ok_world w' \<and> balance w' = balance w + 0" by (simp add: balance_def ends_def ok_world_def)
qed

lemma sh_action_result: "shifts 0 (handleActionResult env r)"
proof (cases "r = E_AR_STOP_CALL")
  case True
  then show ?thesis by (simp add: handleActionResult_def sh_stop_call)
next
  case False
  then show ?thesis unfolding handleActionResult_def
    by - (rule sh_terminate sh_reject shifts_small | (simp add: ok_call_def ends_call_def; fail))+
qed

lemma sh_lost: "shifts 0 (lost env i)"
  unfolding lost_def by (rule shifts_small)+

lemma shifts_write: "(r = Written \<Longrightarrow> shifts n x) \<Longrightarrow> (r = Would_block \<Longrightarrow> shifts n y) \<Longrightarrow> (r = Write_failed \<Longrightarrow> shifts n z) \<Longrightarrow>
    shifts n (case r of Written \<Rightarrow> x | Would_block \<Rightarrow> y | Write_failed \<Rightarrow> z)"
  by (cases r) auto

lemma shifts_connect: "shifts n x \<Longrightarrow> shifts n y \<Longrightarrow> shifts n z \<Longrightarrow>
    shifts n (case r of Connected \<Rightarrow> x | Connect_failed \<Rightarrow> y | Connect_fatal \<Rightarrow> z)"
  by (cases r) auto

lemma sh_send_raw: "shifts 0 (send_raw env msg i)"
  unfolding send_raw_def by (rule sh_lost shifts_write shifts_small)+

lemma sh_sendBuffer: "shifts 0 (sendBuffer env msg)"
  unfolding sendBuffer_def by (rule sh_send_raw shifts_small)+

lemma sh_create: "shifts 0 (createSendingMessage env s i)"
  unfolding createSendingMessage_def by (rule shifts_small)+

lemmas shifts_send = sh_send_raw sh_sendBuffer sh_create sh_next sh_action_result sh_reject sh_lost sh_recvTimeout sh_wait_next shifts_write shifts_connect shifts_small

lemma sh_send_default: "shifts 0 (send_default env which i)"
  unfolding send_default_def by (rule shifts_send)+

lemma sh_connect: "shifts 0 (connect_socket_if_needed env)"
  unfolding connect_socket_if_needed_def by (rule shifts_send | (simp add: ok_call_def; fail))+

lemma sh_send_scene: "shifts 0 (send_scene env i)"
  unfolding send_scene_def by (rule sh_connect shifts_send | (simp add: ok_call_def; fail))+

lemma sh_bookkeeping: "shifts 0 (do_bookkeeping env m)"
  unfolding do_bookkeeping_def set_rtd_def stop_one_rtd_def by (rule shifts_send | (simp add: ok_call_def; fail))+

lemma sh_reconnected: "shifts 0 (tcpReconnected env)"
  unfolding tcpReconnected_def by (rule shifts_send)+

lemma sh_tcpClose: "shifts 0 (tcpClose env)"
  unfolding tcpClose_def Let_def
  by (rule sh_terminate disjI1 shifts_send | (simp add: ok_call_def; fail))+

lemma sh_cmd_message: "shifts 0 (sendCmdMessage env m)"
  unfolding sendCmdMessage_def by (rule shifts_send)+

lemma sh_cmd_buffer: "shifts 0 (sendCmdBuffer env c)"
  unfolding sendCmdBuffer_def by (rule shifts_send)+

lemma sh_abort_twin: "shifts 0 (abort_twin env)"
  unfolding abort_twin_def by (rule sh_cmd_buffer shifts_send)+

lemma sh_abortCall: "shifts (- 1) (abortCall env)"
proof -
  have flags: "ok_call c \<Longrightarrow> ok_call (abort_flags env c)" for c by (simp add: abort_flags_def ok_call_def)
  have leave: "shifts 0 k \<Longrightarrow> shifts (- 1) (thenM (delete_leaving env r x y) k)" for r x y and k :: "('a, bool) op"
    using shifts_bind_sum [OF sh_delete_leaving, of 0 "\<lambda>_. k" env r x y] by (simp add: thenM_def)
  have each: "shifts 0 (for_each (\<lambda>(which, i). send_default env which i) ms)" for ms
    by (rule sh_send_default shifts_small)+
  show ?thesis unfolding abortCall_def by (rule leave each flags shifts_small | assumption)+
qed

lemma sh_bye_or_delete: "shifts (- 1) (bye_or_delete env)"
  unfolding bye_or_delete_def by (rule sh_abortCall shifts_small)+

lemma sh_abort: "shifts 0 (abort_op env)"
proof -
  have "shifts (- 1) (thenM (abortCall env) (ret ()))" using shifts_bind_sum [OF sh_abortCall, of 0 "\<lambda>_. ret ()" env] by (simp add: thenM_def)
  then show ?thesis unfolding abort_op_def by (rule shifts_count_end [OF ends_facts(1)])
qed

lemma sh_unexpected: "shifts 0 (process_unexpected env msg)"
  unfolding process_unexpected_def by (rule sh_bye_or_delete sh_abort_twin shifts_send | (simp add: ok_call_def; fail))+

lemma sh_wait_timeout: "shifts 0 (rtpstreamWaitTimeout env)"
  unfolding rtpstreamWaitTimeout_def by (rule sh_bye_or_delete shifts_send | (simp add: ok_call_def; fail))+

lemma sh_verifyDone: "shifts 0 (verifyDone env good)"
  unfolding verifyDone_def by (rule sh_terminate disjI2 refl shifts_send | (simp add: ok_call_def; fail))+


section \<open>Actions\<close>

lemma sh_get_rhs: "shifts 0 (get_rhs env a)"
  unfolding get_rhs_def by (rule shifts_small)+

lemma sh_put_groups: "shifts 0 (put_groups t vs gs n)"
  by (induction t vs gs n rule: put_groups.induct) (auto intro!: shifts_then sh_read_var sh_write_var split: list.splits option.splits)

lemma sh_files: "shifts 0 (get_file f)" "shifts 0 (put_file f x)"
  by (rule shifts_vars, auto simp: get_file_def put_file_def split: option.splits)+

lemma sh_lua: "shifts 0 (\<lambda>w. Inr (a, w\<lparr>vars := f (vars w)\<rparr>))"
  by (rule shifts_vars) auto

lemma sh_no_error: "shifts 0 m \<Longrightarrow> shifts 0 (no_error m)"
  unfolding no_error_def by (rule shifts_small | assumption)+

lemmas shifts_action = sh_get_rhs sh_put_groups sh_files sh_lua sh_no_error shifts_send

lemma sh_regexp: "shifts 0 (assign_regexp env a msg)"
proof -
  have "shifts 0 (haystack a msg)" unfolding haystack_def Let_def
    by (cases "M_lookingPlace a"; simp only: T_LookingPlace.case; (rule shifts_action)+)
  then show ?thesis unfolding assign_regexp_def executeRegExp_def by - (rule shifts_action | assumption)+
qed

lemma sh_compare: "shifts 0 (compare env a)"
  unfolding compare_def rhs_double_def var_get_double_def by (rule shifts_action)+

lemma sh_var_actions: "shifts 0 (arithmetic env a f)" "shifts 0 (divide_var env a)" "shifts 0 (test_var env a)" "shifts 0 (strcmp_var env a)"
  "shifts 0 (change_string a g)" "shifts 0 (to_double_var env a)"
  unfolding arithmetic_def divide_var_def test_var_def strcmp_var_def change_string_def to_double_var_def
  by (rule sh_compare shifts_action)+

lemma sh_nth_text: "shifts 0 (nth_text env a n)"
  unfolding nth_text_def by (rule shifts_action)+

lemma sh_file_actions: "shifts 0 (lookup_action env a)" "shifts 0 (insert_action env a)" "shifts 0 (replace_action env a)"
  unfolding lookup_action_def insert_action_def replace_action_def by (rule sh_nth_text shifts_action)+

lemma sh_call_actions: "shifts 0 (verify_auth env a msg)" "shifts 0 (set_dest env a)" "shifts 0 close_con" "shifts 0 (jump env a)"
  "shifts 0 (pause_restore env a)" "shifts 0 (rtp_stream_wait env a x)" "shifts 0 (rtp_stats env a)" "shifts 0 (rtp_dtmf env a)"
  unfolding verify_auth_def set_dest_def close_con_def jump_def pause_restore_def rtp_stream_wait_def rtp_stats_def rtp_dtmf_def
  by (rule sh_nth_text shifts_action | (simp add: ok_call_def; fail))+

lemma sh_exec_action: "shifts 0 (exec_action env msg x a)"
proof -
  note rules = sh_regexp sh_var_actions sh_nth_text sh_file_actions sh_call_actions shifts_action
  have intcmd: "shifts 0 (case r of E_INTCMD_INVALID \<Rightarrow> ret E_AR_STOP_CALL | E_INTCMD_STOPCALL \<Rightarrow> ret E_AR_STOP_CALL
      | E_INTCMD_STOP_ALL \<Rightarrow> no_error (emit Quit) | E_INTCMD_STOP_NOW \<Rightarrow> fail e)" for r e
    by (cases r; simp only: T_IntCmdType.case; (rule rules)+)
  show ?thesis unfolding exec_action_def
    by (cases "M_action a"; simp only: T_ActionType.case; (rule intcmd rules | (simp add: ok_call_def; fail))+)
qed

lemma sh_executeAction: "shifts 0 (executeAction env msg ini m)"
proof -
  have "shifts 0 (exec_actions env msg x as)" for x as
    by (induction as) (auto intro!: shifts_bind sh_exec_action)
  then show ?thesis by (simp add: executeAction_def)
qed


section \<open>Messages and commands that come in\<close>

lemma sh_set_txn: "shifts 0 (set_txn n f)"
  unfolding set_txn_def by (rule shifts_send | (simp add: ok_call_def; fail))+

lemma sh_set_dialog: "shifts 0 (setDialogCallId env n s)"
  unfolding setDialogCallId_def by (rule shifts_send | (simp add: ok_call_def; fail))+

lemma ok_updates [simp]: "ok_call (switch_dialog env n c) = ok_call c" "ok_call (offer_received c) = ok_call c"
  "ok_call (update_retrans env info i c) = ok_call c" "ok_call (update_cseq info msg c) = ok_call c"
  "ok_call (record_route info rr ct c) = ok_call c" "ok_call (keepRecvRetransMsg c) = ok_call c" "ok_call (resend_last env c) = ok_call c"
  "ok_call (start_retrans env m c) = ok_call c"
  by (auto simp: ok_call_def switch_dialog_def swap_state_def offer_received_def setSessionState_def update_retrans_def update_cseq_def
      record_route_def keepRecvRetransMsg_def resend_last_def start_retrans_def Let_def split: option.splits SessionState.splits prod.splits)

lemmas shifts_more = sh_executeAction sh_set_txn sh_set_dialog sh_bookkeeping sh_send_default sh_unexpected sh_abort_twin sh_send_scene
  sh_cmd_message sh_bye_or_delete shifts_send

lemma sh_take_sdp: "shifts 0 (take_sdp env m msg b)"
  unfolding take_sdp_def by (rule shifts_more | (simp; fail))+

lemma sh_read_message: "shifts 0 (read_start env msg)"
  unfolding read_start_def by (rule shifts_more | (simp add: ok_call_def; fail))+

lemma sh_resend: "shifts 0 (resend env msg i)"
  unfolding resend_def by (rule shifts_more)+

lemma sh_check_retrans: "shifts 0 (check_retransmission env k)"
  unfolding check_retransmission_def by (rule sh_resend shifts_more)+

lemma sh_unexpected_end: "shifts 0 (unexpected_end env msg)"
  unfolding unexpected_end_def by (rule shifts_more | (simp add: ok_call_def; fail))+

lemma sh_automatic: "shifts 0 (automaticResponseMode env m msg)"
  unfolding automaticResponseMode_def
  by (cases m; simp only: T_AutoMode.case; (rule sh_unexpected_end shifts_more | (simp add: ok_call_def; fail))+)

lemma sh_candidates: "shifts 0 (candidate_timeouts env ms)"
  by (induction ms) (auto intro!: shifts_bind sh_recvTimeout)

lemma sh_advance: "shifts 0 (advance env m msg k i)"
  unfolding advance_def by (rule sh_candidates shifts_more | (simp add: ok_call_def; fail))+

lemma sh_take_message: "shifts 0 (take_message env msg k info i)"
  unfolding take_message_def keep_request_def store_challenge_def
  by (rule sh_advance shifts_more | (simp; fail) | (simp add: ok_call_def; fail))+

lemma sh_not_found: "shifts 0 r \<Longrightarrow> shifts 0 (not_found env r msg req)"
  unfolding not_found_def queue_up_def var_get_double_def
  by (rule sh_automatic shifts_more | assumption | (simp add: ok_call_def; fail))+

lemma shifts_old: "(\<And>i. shifts n (f i)) \<Longrightarrow> shifts n x \<Longrightarrow> (\<And>i. shifts n (g i)) \<Longrightarrow> shifts n y \<Longrightarrow>
    shifts n (case r of Old_found i \<Rightarrow> f i | Old_ignored \<Rightarrow> x | Old_ack i \<Rightarrow> g i | Old_none \<Rightarrow> y)"
  by (cases r) auto

lemma sh_match: "shifts 0 r \<Longrightarrow> shifts 0 (match_and_take env r msg k info)"
  unfolding match_and_take_def by (rule shifts_old sh_take_message sh_not_found shifts_more | assumption)+

lemma sh_expected: "shifts 0 r \<Longrightarrow> shifts 0 (process_expected env r m msg b)"
  unfolding process_expected_def by (rule sh_check_retrans sh_take_sdp sh_read_message sh_match shifts_more | assumption)+

lemma sh_incoming: "shifts 0 r \<Longrightarrow> shifts 0 (process_incoming_with env r msg b)"
proof -
  assume r: "shifts 0 r"
  have d: "ok_call c \<Longrightarrow> ok_call (case dialogs c of None \<Rightarrow> c | Some ds \<Rightarrow> switch_dialog env (h ds) (c\<lparr>dialogs := Some (g ds)\<rparr>))" for c h g
    by (auto simp: ok_call_def [of "dialogs_update _ _"] split: option.splits) (simp_all add: ok_call_def)
  show ?thesis unfolding process_incoming_with_def queue_up_def
    by (rule r sh_expected d shifts_more | assumption | (simp add: ok_call_def; fail))+
qed


section \<open>Running\<close>

lemma sh_pause: "shifts 0 (execute_pause env m)"
  unfolding execute_pause_def pause_length_def by (rule shifts_more | (simp add: ok_call_def; fail))+

lemma sh_sendCmd: "shifts 0 (execute_sendCmd env m)"
  unfolding execute_sendCmd_def by (rule shifts_more | (simp add: ok_call_def; fail))+

lemma sh_echo_error:
  "shifts 0 (bindM (handleActionResult env E_AR_RTPECHO_ERROR) (\<lambda>ok. if \<not> ok then ret False else thenM (terminate env r) (ret False)))"
    (is "shifts 0 (?op r)")
proof -
  have "?op r w = ?op E_NO_ACTION w" for w
  proof (cases "this w")
    case (Some c)
    let ?w = "w\<lparr>this := Some (c\<lparr>last_action_result := E_AR_RTPECHO_ERROR\<rparr>)\<rparr>"
    have "handleActionResult env E_AR_RTPECHO_ERROR w = Inr (True, ?w)"
      using Some by (simp add: handleActionResult_def thenM_def bindM_def set_call_def with_call_def get_call_def ret_def)
    moreover have "terminate env r ?w = terminate env E_NO_ACTION ?w"
      by (rule terminate_reason [where c = "c\<lparr>last_action_result := E_AR_RTPECHO_ERROR\<rparr>"]) simp_all
    ultimately show ?thesis by (simp add: bindM_def thenM_def)
  qed (simp add: handleActionResult_def thenM_def bindM_def set_call_def with_call_def get_call_def)
  moreover have "shifts 0 (?op E_NO_ACTION)"
    by (rule sh_terminate disjI1 shifts_send | (simp add: ends_call_def; fail))+
  ultimately show ?thesis by (simp add: shifts_def)
qed

lemma sh_nop: "shifts 0 (execute_nop env m)"
proof -
  have "shifts 0 (bindM (handleActionResult env r) (\<lambda>ok.
      if \<not> ok then ret False else if r = E_AR_RTPECHO_ERROR then thenM (terminate env E_CALL_FAILED) (ret False) else next_message env))" for r
  proof (cases "r = E_AR_RTPECHO_ERROR")
    case True
    then show ?thesis using sh_echo_error [of env E_CALL_FAILED] by simp
  next
    case False
    then show ?thesis by (simp only: if_False) (rule shifts_more)+
  qed
  then show ?thesis unfolding execute_nop_def by - (rule shifts_with_call shifts_then sh_bookkeeping shifts_bind [OF sh_executeAction] | assumption)+
qed

lemma sh_swap_request: "shifts 0 (swap_request n)"
  unfolding swap_request_def by (rule shifts_more | (simp add: ok_call_def; fail))+

lemma sh_send_blocked: "shifts 0 (send_blocked env m)"
  unfolding send_blocked_def by (rule shifts_more | (simp add: ok_call_def; fail))+

lemma sh_note_cause: "shifts 0 (note_cause env m b h)"
  unfolding note_cause_def by (rule shifts_more | (simp; simp add: ok_call_def; fail))+

lemma sh_sent: "shifts 0 (message_sent env m s t b)"
proof -
  have k: "ok_call c \<Longrightarrow> ok_call ((keepRecvRetransMsg (c\<lparr>send_timeout := 0\<rparr>))\<lparr>last_send_index := i, last_send_msg := t\<rparr>)" for c i
    by (simp add: ok_call_def keepRecvRetransMsg_def)
  show ?thesis unfolding message_sent_def
    by (rule k sh_note_cause shifts_more | assumption | (simp; fail) | (simp add: ok_call_def; fail))+
qed

lemma sh_send: "shifts 0 (execute_send env m s)"
  unfolding execute_send_def
  by (rule sh_swap_request sh_send_blocked sh_sent shifts_more | (simp; fail) | (simp add: ok_call_def; fail))+

lemma sh_twin: "shifts 0 (process_twinSippCom env msg)"
proof -
  have cmd: "shifts 0 (checkInternalCmd env msg)"
  proof -
    have "shifts (- 1) (thenM (abortCall env) (ret True))" using shifts_bind_sum [OF sh_abortCall, of 0 "\<lambda>_. ret True" env] by (simp add: thenM_def)
    then show ?thesis unfolding checkInternalCmd_def by - (rule shifts_if shifts_count_end ends_facts shifts_leaf | assumption)+
  qed
  have search: "(\<And>i. shifts 0 (f i)) \<Longrightarrow> shifts 0 x \<Longrightarrow> shifts 0 y \<Longrightarrow> shifts 0 (case r of Cmd_at i \<Rightarrow> f i | Cmd_kept \<Rightarrow> x | Cmd_rejected \<Rightarrow> y)" for f :: "int \<Rightarrow> ('a, bool) op" and x y r
    by (cases r) auto
  show ?thesis unfolding process_twinSippCom_def
    by (rule cmd search shifts_more | (simp add: ok_call_def; fail))+
qed

lemma sh_recv: "(\<And>t b. shifts 0 (incom t b)) \<Longrightarrow> shifts 0 (execute_recv env incom m)"
  unfolding execute_recv_def recv_timed_out_def by (rule sh_twin shifts_more | assumption | (simp add: ok_call_def; fail))+

lemma sh_execute: "(\<And>t b. shifts 0 (incom t b)) \<Longrightarrow> shifts 0 (executeMessage env incom m)"
  unfolding executeMessage_def by (rule sh_pause sh_sendCmd sh_nop sh_send sh_recv shifts_more | assumption)+

lemma sh_retransmit: "shifts 0 (retransmit env)"
  unfolding retransmit_def give_up_def by (rule shifts_more | (simp add: ok_call_def; fail))+

lemma sh_playback: "shifts 0 (wait_playback env)"
  unfolding wait_playback_def by (rule sh_wait_timeout shifts_more | (simp add: ok_call_def; fail))+

lemma sh_continue: "(\<And>t b. shifts 0 (incom t b)) \<Longrightarrow> shifts 0 (continue_run env incom m)"
  unfolding continue_run_def by (rule sh_playback sh_execute shifts_more | assumption | (simp add: ok_call_def; fail))+

lemma sh_run: "(\<And>t b. shifts 0 (incom t b)) \<Longrightarrow> shifts 0 (run_with env incom)"
proof -
  assume incom: "\<And>t b. shifts 0 (incom t b)"
  have z: "shifts 0 (if zombie c then thenM (delete_this env) (ret False) else k)" if "ok_call c" "shifts 0 k" for c and k :: "('a, bool) op"
    using that by (simp add: ok_call_def)
  show ?thesis unfolding run_with_def skips_def
    by (rule z sh_retransmit sh_continue [OF incom] shifts_with_call | assumption | rule shifts_more)+
qed

lemma sh_process_incoming: "shifts 0 (process_incoming n env msg b)"
proof (induction n arbitrary: msg b)
  case (Suc n)
  have "shifts 0 (process_incoming_with env (run_with env (process_incoming n env)) msg b)"
    by (intro sh_incoming sh_run Suc.IH)
  then show ?case by (simp add: shifts_def)
qed (simp add: shifts_def)

lemma sh_run_call: "shifts 0 (run_call n env)"
  unfolding run_call_def by (intro sh_run sh_process_incoming)

end
