(* ===== verification/Call_Correct.thy ===== *)
theory Call_Correct
  imports Call_Counted
begin

text \<open>
  What the operations of a call guarantee, and where they do not do what they are meant to.
\<close>

section \<open>A concrete environment\<close>

text \<open>Integers for doubles, sockets that take everything, and the defaults of the command line over UDP, for the examples.\<close>

definition int_doubles :: "int doubles" where
  "int_doubles = \<lparr>d_zero = 0, d_nonzero = (\<lambda>d. d \<noteq> 0), d_of_int = (\<lambda>i. i), d_to_int = (\<lambda>i. i), d_of_bool = of_bool, d_add = (+), d_sub = (-),
     d_mul = (*), d_div = (div), d_eq = (=), d_less = (<), d_strtod = (\<lambda>s. (atol s, []))\<rparr>"

definition quiet :: "int outside" where
  "quiet = \<lparr>o_write = (\<lambda>k. Written), o_all_written = (\<lambda>k. True), o_rand = (\<lambda>k. 0), o_lost = (\<lambda>k i. False), o_ms = (\<lambda>k. 0), o_us = (\<lambda>k. 0),
     o_timeofday = (\<lambda>k. (0, 0)), o_sample = (\<lambda>k. 1000), o_connect = (\<lambda>k. Connected), o_setdest = (\<lambda>k. Connected),
     o_render = (\<lambda>k m i. ''OPTIONS sip:a''), o_regexec = (\<lambda>r s. None), o_play_end = (\<lambda>k. 0), o_echo_stop = (\<lambda>k. 0),
     o_received = (\<lambda>k. (0, 0, [], [])), o_strcmp = (\<lambda>a b. of_bool (a \<noteq> b)), o_lua = (\<lambda>k h. h), o_srtp_error = (\<lambda>m. False)\<rparr>"

definition plain_message :: sending_message where
  "plain_message = \<lparr>messageComponents = [], msg_method = Some ''OPTIONS'', code = 0, ack = False, cancel = False, response = False\<rparr>"

definition plain_scenario :: "int message list \<Rightarrow> int scenario" where
  "plain_scenario ms = \<lparr>messages = ms, initmessages = [], txn_is_invite = [], unexpected_jump = - 1, retaddr = - 1, pausedaddr = - 1,
     has_dialogs = False\<rparr>"

definition plain_env :: "int scenario \<Rightarrow> 64 word \<Rightarrow> int call_env" where
  "plain_env sc now = \<lparr>clock_tick = now, call_scenario = sc, dbl = int_doubles, out = quiet,
     ssl = \<lparr>has_sha512_256 = False, evp_digest = (\<lambda>m s. None), evp_aes128 = (\<lambda>k b. b), evp_decode_block = (\<lambda>s. None)\<rparr>,
     auth_uri_opt = None, transport_udp = True, multisocket = False, mode_client = True, retrans_enabled = True, pause_msg_ign = False,
     lose_packets = False, rtcheck_mode = RTCHECK_FULL, behavior_bye = True, behavior_abortunexp = True, behavior_pingreply = True,
     behavior_badcseq = True, auto_answer = False, twinSippSocket = False, extendedTwinSippMode = False, sendbuffer_warn = False,
     has_media = False, dump_in_rtt = False, callidSlash = False, deadcall_wait = 0, defl_recv_timeout = 0, defl_send_timeout = 0,
     global_t2 = 4000, base_cseq = 1, max_invite_retrans = 5, max_non_invite_retrans = 9, max_udp_retrans = 10,
     default_message = (\<lambda>s. plain_message)\<rparr>"

definition plain_world :: "int call_env \<Rightarrow> int world" where
  "plain_world env = \<lparr>this = Some (init_call env ''1@a'' False True None 0 0), vars = [], files = Map.empty, counts = (\<lambda>m k. 0), trace = [], answers = 0\<rparr>"

abbreviation nop :: "int \<Rightarrow> int message" where
  "nop i \<equiv> (new_message i)\<lparr>m_type := MSG_TYPE_NOP\<rparr>"

section \<open>Every call that ends is counted once\<close>

datatype call_op = Resume | Run nat | Incoming nat string | Twin_command string | Tcp_close | Tcp_reconnected | Verify_done bool | Abort

text \<open>An operation in its environment, which has the time; the number bounds the stack.\<close>

definition call_step :: "'d call_env \<times> call_op \<Rightarrow> 'd world \<Rightarrow> 'd world res" where
  "call_step eo w =
     (case eo of (env, x) \<Rightarrow>
        case x of
          Resume \<Rightarrow> bindE (setRunning_call w) (\<lambda>(_, w'). Inr w')
        | Run n \<Rightarrow> bindE (run_call n env w) (\<lambda>(_, w'). Inr w')
        | Incoming n msg \<Rightarrow> bindE (process_incoming n env msg False w) (\<lambda>(_, w'). Inr w')
        | Twin_command msg \<Rightarrow> bindE (process_twinSippCom env msg w) (\<lambda>(_, w'). Inr w')
        | Tcp_close \<Rightarrow> bindE (tcpClose env w) (\<lambda>(_, w'). Inr w')
        | Tcp_reconnected \<Rightarrow> bindE (tcpReconnected env w) (\<lambda>(_, w'). Inr w')
        | Verify_done b \<Rightarrow> bindE (verifyDone env b w) (\<lambda>(_, w'). Inr w')
        | Abort \<Rightarrow> bindE (abort_op env w) (\<lambda>(_, w'). Inr w'))"

lemma shifts_result: "shifts 0 m \<Longrightarrow> ok_world w \<and> balance w = b \<Longrightarrow> bindE (m w) (\<lambda>(_, w'). Inr w') = Inr w' \<Longrightarrow> ok_world w' \<and> balance w' = b"
  using shiftsD [of 0 m w] by auto

interpretation one_call: invariant call_step "\<lambda>w :: 'd world. ok_world w \<and> balance w = 1"
proof
  fix w w' :: "'d world" and eo
  assume w: "ok_world w \<and> balance w = 1" and s: "call_step eo w = Inr w'"
  obtain env x where eo: "eo = (env, x)" by (cases eo)
  note ops = sh_running sh_run_call sh_process_incoming sh_twin sh_tcpClose sh_reconnected sh_verifyDone sh_abort
  show "ok_world w' \<and> balance w' = 1"
    using s unfolding call_step_def eo prod.case
    by (cases x) (simp_all only: call_op.case ops [THEN shifts_result, OF w])
qed




end
