(* ===== verification/Call_Matching.thy ===== *)
theory Call_Matching
  imports Call_Correct
begin

text \<open>
  Which message of the scenario a received message is taken for.
\<close>

text \<open>
  \<open>f\<close> tells which messages of the scenario the received one matches. Ahead: the first that matches, with only optional ones before it
  that do not. Behind: one that matches, with only optional ones from it on, or an optional one for the whole scenario.
\<close>

definition ahead :: "'d call_env \<Rightarrow> (nat \<Rightarrow> bool) \<Rightarrow> nat \<Rightarrow> nat \<Rightarrow> bool" where
  "ahead env f k i \<longleftrightarrow> k \<le> i \<and> i < length (msgs env) \<and> f i \<and> (\<forall>j. k \<le> j \<and> j < i \<longrightarrow> \<not> f j \<and> m_optional (msgs env ! j) \<noteq> OPTIONAL_FALSE)"

definition behind :: "'d call_env \<Rightarrow> (nat \<Rightarrow> bool) \<Rightarrow> nat \<Rightarrow> nat \<Rightarrow> bool" where
  "behind env f k i \<longleftrightarrow> i < k \<and> f i \<and>
     ((\<forall>j. i \<le> j \<and> j < k \<longrightarrow> m_optional (msgs env ! j) \<noteq> OPTIONAL_FALSE) \<or> m_optional (msgs env ! i) = OPTIONAL_GLOBAL)"

lemma expected_loop_first:
  assumes "\<forall>i < length (msgs env). matches_scenario env c info i = Inr (f i)" and "k \<le> length (msgs env)"
  shows "\<exists>r. expected_loop env c info [k..<length (msgs env)] = Inr r \<and> (\<forall>i. r = Some i \<longleftrightarrow> ahead env f k i)"
  using assms(2)
proof (induction "length (msgs env) - k" arbitrary: k)
  case 0
  then show ?case by (simp add: ahead_def)
next
  case (Suc n)
  then have k: "k < length (msgs env)" and "n = length (msgs env) - Suc k" by simp_all
  then obtain r where r: "expected_loop env c info [Suc k..<length (msgs env)] = Inr r" "\<forall>i. r = Some i \<longleftrightarrow> ahead env f (Suc k) i"
    using Suc.hyps(1) [of "Suc k"] by auto
  have step: "expected_loop env c info [k..<length (msgs env)] =
      (if f k then Inr (Some k) else if m_optional (msgs env ! k) \<noteq> OPTIONAL_FALSE then Inr r else Inr None)"
    using k r(1) assms(1) by (simp add: upt_conv_Cons)
  have here: "f k \<Longrightarrow> ahead env f k i \<longleftrightarrow> i = k" for i using k by (auto simp: ahead_def le_less)
  have later: "\<not> f k \<Longrightarrow> ahead env f k i \<longleftrightarrow> m_optional (msgs env ! k) \<noteq> OPTIONAL_FALSE \<and> ahead env f (Suc k) i" for i
    using k by (fastforce simp: ahead_def Suc_le_eq dest: le_neq_implies_less)
  show ?case using step here later r(2) by (cases "f k") auto
qed

lemma old_match_not_found: "old_match env c msg info k \<noteq> Inr (Old_found j)"
  unfolding old_match_def Let_def by (auto split: if_splits option.splits)

lemma old_loop_Suc:
  assumes "matches_scenario env c info k = Inr b" and "k < length (msgs env)"
    and "old_loop env c msg info contig (rev [0..<Suc k]) = Inr (Old_found i)"
  shows "i = k \<and> b \<and> (contig \<and> m_optional (msgs env ! k) \<noteq> OPTIONAL_FALSE \<or> m_optional (msgs env ! k) = OPTIONAL_GLOBAL) \<or>
    old_loop env c msg info (contig \<and> m_optional (msgs env ! k) \<noteq> OPTIONAL_FALSE) (rev [0..<k]) = Inr (Old_found i)"
proof (cases "b \<and> \<not> (contig \<and> m_optional (msgs env ! k) \<noteq> OPTIONAL_FALSE \<or> m_optional (msgs env ! k) = OPTIONAL_GLOBAL)")
  case True
  then show ?thesis using assms old_match_not_found [of env c msg info k i]
    by (cases "old_match env c msg info k") (auto split: if_splits)
next
  case False
  then show ?thesis using assms by (auto simp: Let_def split: if_splits)
qed

lemma old_loop_found:
  assumes "\<forall>i < length (msgs env). matches_scenario env c info i = Inr (f i)"
  shows "k \<le> length (msgs env) \<Longrightarrow> old_loop env c msg info contig (rev [0..<k]) = Inr (Old_found i) \<Longrightarrow>
    i < k \<and> f i \<and> (contig \<and> (\<forall>j. i \<le> j \<and> j < k \<longrightarrow> m_optional (msgs env ! j) \<noteq> OPTIONAL_FALSE) \<or> m_optional (msgs env ! i) = OPTIONAL_GLOBAL)"
proof (induction k arbitrary: contig)
  case (Suc k)
  consider "i = k" "f k" "contig \<and> m_optional (msgs env ! k) \<noteq> OPTIONAL_FALSE \<or> m_optional (msgs env ! k) = OPTIONAL_GLOBAL"
    | "old_loop env c msg info (contig \<and> m_optional (msgs env ! k) \<noteq> OPTIONAL_FALSE) (rev [0..<k]) = Inr (Old_found i)"
    using old_loop_Suc [OF _ _ Suc.prems(2), of "f k"] Suc.prems(1) assms by auto
  then show ?case
  proof cases
    case 2
    then show ?thesis using Suc.IH [OF _ 2] Suc.prems(1) by (auto simp: less_Suc_eq)
  qed (auto simp: less_Suc_eq)
qed simp

text \<open>
  C3: matching. The received message is taken as the first expected message of the scenario that it matches, past optional messages
  that it does not match and no others; only when there is none is it taken as one that was expected before,
  and then only if nothing but optional messages followed it or it is optional for the whole scenario.
\<close>

theorem message_found:
  assumes "\<forall>i < length (msgs env). matches_scenario env c info i = Inr (f i)"
    and "0 \<le> msg_index c" and "msg_index c \<le> int (length (msgs env))"
  shows "(\<forall>i. ahead env f (nat (msg_index c)) i \<longrightarrow> find_message env c msg info = Inr (Old_found i)) \<and>
    (\<forall>i. find_message env c msg info = Inr (Old_found i) \<longrightarrow>
       ahead env f (nat (msg_index c)) i \<or> (\<nexists>j. ahead env f (nat (msg_index c)) j) \<and> behind env f (nat (msg_index c)) i)"
proof -
  let ?k = "nat (msg_index c)"
  have k: "?k \<le> length (msgs env)" using assms(2,3) by simp
  obtain r where r: "expected_loop env c info [?k..<length (msgs env)] = Inr r" "\<forall>i. r = Some i \<longleftrightarrow> ahead env f ?k i"
    using expected_loop_first [OF assms(1) k] by blast
  show ?thesis
  proof (cases r)
    case None
    have "behind env f ?k i" if "find_message env c msg info = Inr (Old_found i)" for i
      using old_loop_found [OF assms(1) k, of msg True i] that r(1) None unfolding find_message_def behind_def by simp
    then show ?thesis using r None by simp
  next
    case (Some i)
    then have "ahead env f ?k j \<longleftrightarrow> j = i" for j using spec [OF r(2), of j] by auto
    then show ?thesis using r(1) Some by (simp add: find_message_def)
  qed
qed

text \<open>A call that waits for a 100, which may not come, and then for a 200: the 200 is the second message.\<close>

abbreviation answer :: "int \<Rightarrow> optionality \<Rightarrow> int \<Rightarrow> int message" where
  "answer i opt n \<equiv> (new_message i)\<lparr>m_type := MSG_TYPE_RECV, m_optional := opt, recv_response := Some (to_string (nat n)), recv_response_code := n,
     cseq_method_list := ''INVITE''\<rparr>"

abbreviation invite_scenario :: "int scenario" where
  "invite_scenario \<equiv> plain_scenario [nop 0, answer 1 OPTIONAL_TRUE 100, answer 2 OPTIONAL_FALSE 200]"

theorem message_found_witness:
  "find_message (plain_env invite_scenario 5) ((init_call (plain_env invite_scenario 5) ''1@a'' False True None 0 0)\<lparr>msg_index := 1\<rparr>) []
     \<lparr>i_code = 200, i_request = [], i_cseq_method = ''INVITE'', i_txn = []\<rparr> = Inr (Old_found 2)"
proof -
  let ?e = "plain_env invite_scenario 5"
  let ?c = "(init_call ?e ''1@a'' False True None 0 0)\<lparr>msg_index := 1\<rparr>"
  let ?i = "\<lparr>i_code = 200, i_request = [], i_cseq_method = ''INVITE'', i_txn = []\<rparr>"
  have "list_all (\<lambda>i. matches_scenario ?e ?c ?i i = Inr (i = 2)) [0..<3]" by code_simp
  then have m: "\<forall>i < length (msgs ?e). matches_scenario ?e ?c ?i i = Inr (i = 2)"
    by (simp add: list_all_iff plain_env_def plain_scenario_def)
  have "ahead ?e (\<lambda>i. i = 2) (nat (msg_index ?c)) 2"
    by (auto simp: ahead_def plain_env_def plain_scenario_def new_message_def)
  then show ?thesis
    using message_found [OF m, of "[]"] by (simp add: plain_env_def plain_scenario_def init_call_def)
qed


end
