(* ===== verification/Call_Retrans.thy ===== *)
theory Call_Retrans
  imports Call_Correct
begin

text \<open>
  A message that gets no answer is sent again as often as allowed, and then its call ends.
\<close>

lemmas op_defs = ret_def bindM_def thenM_def lift_def whenM_def ask_def emit_def get_call_def with_call_def set_call_def bump_count_def
  nth_message_def count_stat_def count_value_def

section \<open>The timer\<close>

text \<open>The call waits for a message, with the timer of the last one that it sent as the only timer, and all that is sent goes out.\<close>

definition waits :: "'d call_env \<Rightarrow> call \<Rightarrow> bool" where
  "waits env c \<longleftrightarrow>
     \<not> zombie c \<and> \<not> initCall c \<and> call_socket c \<and> verify_pending c = 0 \<and> paused_until c = 0 \<and> recv_timeout c = 0 \<and> rtpstream_wait_check c = 0 \<and>
     queued_msg c = [] \<and> 0 \<le> msg_index c \<and> msg_index c < int (length (msgs env)) \<and>
     0 \<le> last_send_index c \<and> last_send_index c < int (length (msgs env)) \<and> on_timeout (msgs env ! nat (last_send_index c)) < 0 \<and>
     (let m = msgs env ! nat (msg_index c)
      in m_type m = MSG_TYPE_RECV \<and> \<not> is_pause m \<and> send_scheme m = None \<and> condexec m = - 1 \<and> timeout_variable m = - 1 \<and> m_timeout m = 0)"

definition sends_all :: "'d call_env \<Rightarrow> bool" where
  "sends_all env \<longleftrightarrow> (\<forall>k. o_write (out env) k = Written) \<and> \<not> lose_packets env \<and> defl_recv_timeout env = 0"

definition releasable :: "'d world \<Rightarrow> call \<Rightarrow> bool" where
  "releasable w c \<longleftrightarrow> (case M_callVariableTable c of None \<Rightarrow> True | Some p \<Rightarrow> \<not> isl (putTable (vars w) p))"

lemma releasable_same: "releasable w c \<Longrightarrow> vars w' = vars w \<Longrightarrow> M_callVariableTable c' = M_callVariableTable c \<Longrightarrow> releasable w' c'"
  by (simp add: releasable_def cong: option.case_cong)

text \<open>The timer rings: the scheduler makes the call run.\<close>

definition rings :: "'d call_env \<Rightarrow> 64 word \<Rightarrow> ('d, bool) op" where
  "rings env t = thenM setRunning_call (run_call 1 (env\<lparr>clock_tick := t\<rparr>))"

definition sent_again :: "'d call_env \<Rightarrow> 64 word \<Rightarrow> call \<Rightarrow> call" where
  "sent_again env t c =
     c\<lparr>c_running := False, nb_retrans := nb_retrans c + 1, nb_last_delay := next_delay env c,
       next_retrans := ucast (t + ucast (next_delay env c))\<rparr>"

definition due :: "call \<Rightarrow> 64 word \<Rightarrow> bool" where
  "due c t \<longleftrightarrow> next_retrans c \<noteq> 0 \<and> ucast (next_retrans c) < t"

lemma rings_again:
  assumes "sends_all env" "waits env c" "this w = Some c" "due c t" "nb_retrans c < rt_allowed env c"
  shows "rings env t w = Inr (True, w\<lparr>this := Some (sent_again env t c),
      counts := (counts w)((False, last_send_index c) := (counts w (False, last_send_index c))(nb_sent_retrans := counts w (False, last_send_index c) nb_sent_retrans + 1)),
      trace := trace w @ [Sent (last_send_index c) (last_send_msg c), Counted E_RETRANSMISSION], answers := Suc (answers w)\<rparr>)"
proof -
  have "rt_allowed (env\<lparr>clock_tick := t\<rparr>) (c\<lparr>c_running := True, nb_retrans := nb_retrans c + 1\<rparr>) = rt_allowed env c"
    "next_delay (env\<lparr>clock_tick := t\<rparr>) (c\<lparr>c_running := True, nb_retrans := nb_retrans c + 1\<rparr>) = next_delay env c"
    by (simp_all add: rt_allowed_def next_delay_def invite_sent_def Let_def)
  then show ?thesis using assms
    by (simp add: rings_def run_call_def run_with_def op_defs waits_def Let_def pastLastMessage_def msgs_of_def skips_def retransmit_def
      due_def send_raw_def lost_def sends_all_def continue_run_def wait_playback_def executeMessage_def execute_recv_def recvTimeout_def
      setPaused_call_def setRunning_call_def sent_again_def)
qed

section \<open>The end of the call\<close>

text \<open>What leaves the call and its variables and only adds to the trace; and what ends the call.\<close>

definition goes_on :: "('d, unit) op \<Rightarrow> 'd world \<Rightarrow> bool" where
  "goes_on m w \<longleftrightarrow> (\<exists>w' r. m w = Inr ((), w') \<and> this w' = this w \<and> vars w' = vars w \<and> trace w' = trace w @ r)"

definition ends_with :: "('d, 'a) op \<Rightarrow> 'a \<Rightarrow> 'd world \<Rightarrow> bool" where
  "ends_with m a w \<longleftrightarrow> (\<exists>w' r. m w = Inr (a, w') \<and> this w' = None \<and> trace w' = trace w @ r)"

lemma goes_on_then: "goes_on m w \<Longrightarrow> (\<And>w'. this w' = this w \<Longrightarrow> vars w' = vars w \<Longrightarrow> goes_on k w') \<Longrightarrow> goes_on (thenM m k) w"
  by (fastforce simp: goes_on_def thenM_def bindM_def)

lemma ends_with_after: "goes_on m w \<Longrightarrow> (\<And>w'. this w' = this w \<Longrightarrow> vars w' = vars w \<Longrightarrow> ends_with k a w') \<Longrightarrow> ends_with (thenM m k) a w"
  by (fastforce simp: goes_on_def ends_with_def thenM_def bindM_def)

lemma goes_on_each: "(\<And>x w'. this w' = this w \<Longrightarrow> goes_on (f x) w') \<Longrightarrow> goes_on (for_each f xs) w"
proof (induction xs arbitrary: w)
  case Nil
  then show ?case by (auto simp: goes_on_def ret_def)
next
  case (Cons x xs)
  then show ?case using goes_on_then by (metis for_each.simps(2))
qed

lemma goes_on_emit: "goes_on (emit e) w"
  by (auto simp: goes_on_def emit_def)

lemma goes_on_dead_calls: "goes_on (dead_calls ss r i x y) w"
proof (induction ss arbitrary: w)
  case Nil
  then show ?case by (simp add: goes_on_def ret_def)
next
  case (Cons s ss)
  then show ?case unfolding dead_calls.simps by (intro goes_on_then goes_on_emit)
qed

lemma goes_on_send_default:
  assumes "sends_all env" "this w = Some c" "call_socket c"
  shows "goes_on (send_default env which i) w"
  using assms by (auto simp: goes_on_def send_default_def createSendingMessage_def sendBuffer_def send_raw_def op_defs sends_all_def)

lemma with_call_this: "this w = Some c \<Longrightarrow> with_call f w = f c w"
  by (simp add: with_call_def bindM_def get_call_def)

lemma delete_this_ends:
  assumes "this w = Some c" "releasable w c"
  shows "ends_with (delete_this env) () w"
proof -
  obtain h where "put_vars (M_callVariableTable c) w' = Inr ((), w'\<lparr>vars := h\<rparr>)" if "vars w' = vars w" for w' :: "'a world"
  proof (cases "M_callVariableTable c")
    case None
    then show ?thesis using that [of "vars w"] by (simp add: put_vars_def)
  next
    case (Some p)
    then obtain h where "putTable (vars w) p = Inr h" using assms(2) by (auto simp: releasable_def isl_def split: sum.splits) (metis sumE)
    then show ?thesis using that [of h] Some by (simp add: put_vars_def)
  qed
  then show ?thesis using assms(1) by (simp add: ends_with_def delete_this_def op_defs forget_this_def)
qed

lemma delete_leaving_ends:
  assumes "this w = Some c" "releasable w c"
  shows "ends_with (delete_leaving env reason x y) () w"
proof -
  obtain w' r where d: "delete_this env w = Inr ((), w')" "this w' = None" "trace w' = trace w @ r"
    using delete_this_ends [OF assms, of env] unfolding ends_with_def by blast
  have "ends_with (thenM (delete_this env) (dead_calls ss z i x y)) () w" for ss z i
    using goes_on_dead_calls [of ss z i x y w'] d by (auto simp: ends_with_def goes_on_def thenM_def bindM_def)
  then show ?thesis using delete_this_ends [OF assms, of env]
    unfolding delete_leaving_def ends_with_def with_call_this [OF assms(1)] by (cases reason) (simp_all only: option.case)
qed

lemma abort_flags_keeps: "call_socket (abort_flags env c) = call_socket c" "M_callVariableTable (abort_flags env c) = M_callVariableTable c"
  by (simp_all add: abort_flags_def)

lemma set_then: "this w = Some c \<Longrightarrow> thenM (set_call f) k w = k (w\<lparr>this := Some (f c)\<rparr>)"
  by (simp add: thenM_def bindM_def set_call_def with_call_this)

lemma ends_with_ret: "ends_with m () w \<Longrightarrow> ends_with (thenM m (ret a)) a w"
  by (auto simp: ends_with_def thenM_def bindM_def ret_def)

lemma abortCall_ends:
  assumes "sends_all env" "this w = Some c" "call_socket c" "releasable w c"
  shows "ends_with (abortCall env) False w"
proof -
  obtain ms x y where ms: "abort_messages env c = (ms, x, y)" by (cases "abort_messages env c")
  let ?c = "abort_flags env c" and ?w = "w\<lparr>this := Some (abort_flags env c)\<rparr>"
  let ?reason = "if deadcall_wait env \<noteq> 0 \<and> \<not> initCall c then Some ''aborted at index %d'' else None"
  have "ends_with (thenM (for_each (\<lambda>(which, i). send_default env which i) ms)
      (thenM (emit Stopped_listening) (thenM (delete_leaving env ?reason x y) (ret False)))) False ?w"
  proof (intro ends_with_ret ends_with_after goes_on_each goes_on_emit)
    show "goes_on (case p of (which, i) \<Rightarrow> send_default env which i) w'" if "this w' = this ?w" for p w'
      using goes_on_send_default [OF assms(1), of w' ?c] that assms(3) by (simp add: abort_flags_keeps split: prod.split)
    show "ends_with (delete_leaving env ?reason x y) () w''"
      if "this w' = this ?w" "vars w' = vars ?w" "this w'' = this w'" "vars w'' = vars w'" for w' w''
      using that assms(4) by (intro delete_leaving_ends [where c = ?c]) (simp_all add: abort_flags_keeps releasable_same [OF assms(4)])
  qed
  then show ?thesis using assms(2) ms by (simp add: ends_with_def abortCall_def with_call_this set_then)
qed

lemma bye_or_delete_ends:
  assumes "sends_all env" "this w = Some c" "call_socket c" "releasable w c"
  shows "ends_with (bye_or_delete env) False w"
  using abortCall_ends [OF assms] ends_with_ret [OF delete_this_ends [OF assms(2,4), of env], of False] by (simp add: bye_or_delete_def)

lemma rings_last:
  assumes "sends_all env" "waits env c" "this w = Some c" "due c t" "rt_allowed env c \<le> nb_retrans c" "releasable w c"
  shows "\<exists>w' r. rings env t w = Inr (False, w') \<and> this w' = None \<and>
    trace w' = trace w @ [Counted E_CALL_FAILED, Counted E_FAILED_MAX_UDP_RETRANS] @ r"
proof -
  let ?c = "c\<lparr>c_running := True, nb_retrans := nb_retrans c + 1\<rparr>" and ?e = "env\<lparr>clock_tick := t\<rparr>"
  let ?counts = "(counts w)((False, last_send_index c) := (counts w (False, last_send_index c))(nb_timeout := counts w (False, last_send_index c) nb_timeout + 1))"
  let ?w = "w\<lparr>this := Some ?c, counts := ?counts, trace := trace w @ [Counted E_CALL_FAILED, Counted E_FAILED_MAX_UDP_RETRANS]\<rparr>"
  have "rt_allowed ?e ?c = rt_allowed env c" by (simp add: rt_allowed_def invite_sent_def)
  then have "rings env t w = bindM (bye_or_delete ?e) ret ?w" using assms
    by (simp add: rings_def run_call_def run_with_def op_defs waits_def Let_def pastLastMessage_def msgs_of_def skips_def retransmit_def
      due_def give_up_def setPaused_call_def setRunning_call_def bindE_assoc split_def)
  moreover have "ends_with (bye_or_delete ?e) False ?w"
    using assms(1,2) by (intro bye_or_delete_ends [where c = ?c]) (simp_all add: sends_all_def waits_def releasable_same [OF assms(6)])
  ultimately show ?thesis by (auto simp: ends_with_def bindM_def ret_def)
qed

section \<open>Until the call ends\<close>

text \<open>The timer rings at each of the times, while the call is there.\<close>

fun rings_at :: "'d call_env \<Rightarrow> 64 word list \<Rightarrow> 'd world \<Rightarrow> 'd world res" where
  "rings_at env [] w = Inr w"
| "rings_at env (t # ts) w = (if this w = None then Inr w else bindE (rings env t w) (\<lambda>(_, w'). rings_at env ts w'))"

text \<open>Each time comes after the one that the timer was set to at the time before.\<close>

fun all_due :: "'d call_env \<Rightarrow> call \<Rightarrow> 64 word list \<Rightarrow> bool" where
  "all_due env c [] = True"
| "all_due env c (t # ts) \<longleftrightarrow> due c t \<and> all_due env (sent_again env t c) ts"

lemma sent_again_keeps:
  "waits env (sent_again env t c) = waits env c" "rt_allowed env (sent_again env t c) = rt_allowed env c"
  "last_send_index (sent_again env t c) = last_send_index c" "last_send_msg (sent_again env t c) = last_send_msg c"
  "M_callVariableTable (sent_again env t c) = M_callVariableTable c" "nb_retrans (sent_again env t c) = nb_retrans c + 1"
  by (simp_all add: sent_again_def waits_def rt_allowed_def invite_sent_def)


text \<open>An OPTIONS request, first sent at 0 and then 9 times, which doubles the delay from half a second up to 4 seconds.\<close>

abbreviation options_env :: "int call_env" where
  "options_env \<equiv> plain_env (plain_scenario
     [(new_message 0)\<lparr>m_type := MSG_TYPE_SEND, send_scheme := Some plain_message, retrans_delay := 500\<rparr>,
      (new_message 1)\<lparr>m_type := MSG_TYPE_RECV, recv_response := Some ''200'', recv_response_code := 200\<rparr>]) 0"

abbreviation options_call :: call where
  "options_call \<equiv> (init_call options_env ''1@a'' False True None 0 0)
     \<lparr>msg_index := 1, next_retrans := 500, nb_last_delay := 500, last_send_msg := ''OPTIONS sip:a'', c_running := False\<rparr>"

abbreviation options_times :: "64 word list" where
  "options_times \<equiv> [501, 1502, 3503, 7504, 11505, 15506, 19507, 23508, 27509, 31510]"


end
