(* ===== verification/Call_Findings.thy ===== *)
theory Call_Findings
  imports Call_Correct
begin

text \<open>
  Where a call does not do what it is meant to.
\<close>

lemma with_this: "this w = Some c \<Longrightarrow> with_call f w = f c w"
  by (simp add: with_call_def bindM_def get_call_def)

section \<open>An unexpected message and the label for it\<close>

text \<open>
  The scenario of \<^verbatim>\<open>regress/github-#0334/unexp.xml\<close> without its last message: it waits for an INVITE,
  and for an OPTIONS request at the label \<^verbatim>\<open>_unexp.main\<close>.
\<close>

abbreviation request :: "int \<Rightarrow> string \<Rightarrow> int message" where
  "request i meth \<equiv> (new_message i)\<lparr>m_type := MSG_TYPE_RECV, recv_request := Some meth\<rparr>"

definition unexp_env :: "int call_env" where
  "unexp_env = plain_env ((plain_scenario [request 0 ''INVITE'', request 1 ''OPTIONS''])\<lparr>unexpected_jump := 1\<rparr>) 5"

definition bye_message :: string where
  "bye_message = ''BYE sip:a SIP/2.0'' @ CRLF @ ''To: a'' @ CRLF @ ''Call-ID: 1@a'' @ CRLF @ ''CSeq: 1 BYE'' @ CRLF @ CRLF"

definition fresh :: "call \<Rightarrow> bool" where
  "fresh c \<longleftrightarrow> \<not> zombie c \<and> \<not> initCall c \<and> dialogs c = None \<and> \<not> last_send_unanswered c \<and> transactions c = [] \<and> recv_retrans_recv_index c = - 1 \<and>
     last_recv_index c = - 1 \<and> verify_pending c = 0 \<and> next_retrans c = 0 \<and> (msg_index c = 0 \<or> msg_index c = 1)"

lemma bye_read: "is_response bye_message = False" "request_method bye_message = Inr ''BYE''" "get_header bye_message ''To:'' False = Inr ''To: a''"
  "get_header_content bye_message ''Content-Type:'' = Inr []" "is_sdp_content_type [] = False" "find_sub ''multipart/'' [] = None"
  "has_prefix ''ACK'' ''BYE'' = False" "has_prefix ''INVITE'' ''BYE'' = False"
  by code_simp+

lemma bye_hash: "\<exists>h. hash RTCHECK_FULL bye_message = Inr h"
proof -
  have "\<not> isl (hash RTCHECK_FULL bye_message)" by code_simp
  then show ?thesis by (auto simp: isl_def) (metis sumE)
qed

lemma unexp_env_parts: "msgs unexp_env = [request 0 ''INVITE'', request 1 ''OPTIONS'']" "unexpected_jump (call_scenario unexp_env) = 1"
  "retaddr (call_scenario unexp_env) = - 1" "pausedaddr (call_scenario unexp_env) = - 1" "rtcheck_mode unexp_env = RTCHECK_FULL"
  "behavior_badcseq unexp_env"
  by (simp_all add: unexp_env_def plain_env_def plain_scenario_def)

lemma bye_no_match:
  assumes "fresh c" "i < 2"
  shows "matches_scenario unexp_env c \<lparr>i_code = 0, i_request = ''BYE'', i_cseq_method = [], i_txn = []\<rparr> i = Inr False"
proof -
  have "i = 0 \<or> i = 1" using assms(2) by auto
  then show ?thesis using assms(1)
    by (elim disjE) (simp_all add: fresh_def unexp_env_parts matches_scenario_def matchesRequest_def new_message_def)
qed

lemma bye_not_found:
  assumes "fresh c"
  shows "find_message unexp_env c bye_message \<lparr>i_code = 0, i_request = ''BYE'', i_cseq_method = [], i_txn = []\<rparr> = Inr Old_none"
proof -
  have ups: "[0..<2] = [0, 1]" "[1..<2] = [1]" "[Suc 0..<2] = [1]" "[0..<1] = [0]" "length (msgs unexp_env) = 2"
    "m_optional (msgs unexp_env ! 0) = OPTIONAL_FALSE" "m_optional (msgs unexp_env ! 1) = OPTIONAL_FALSE"
    by (simp_all add: unexp_env_parts new_message_def upt_conv_Cons)
  consider "msg_index c = 0" | "msg_index c = 1" using assms by (auto simp: fresh_def)
  then show ?thesis
  proof cases
    case 1
    then show ?thesis using bye_no_match [OF assms] by (simp add: find_message_def ups del: bindE_eq_Inr)
  next
    case 2
    then show ?thesis using bye_no_match [OF assms] by (simp add: find_message_def ups del: bindE_eq_Inr)
  qed
qed

lemma bye_jumps:
  assumes "this w = Some c" "fresh c"
  shows "\<exists>c'. fresh c' \<and> msg_index c' = 1 \<and> c_running c' \<and> queued_msg c' = bye_message \<and> paused_until c' = 0 \<and> rtpstream_wait_check c' = 0 \<and>
    process_incoming_with unexp_env runs bye_message b w = runs (w\<lparr>this := Some c'\<rparr>)"
proof -
  obtain h where h: "hash RTCHECK_FULL bye_message = Inr h" using bye_hash by blast
  let ?c = "c\<lparr>c_running := True, msg_index := 1, paused_until := 0, rtpstream_wait_check := 0, queued_msg := bye_message, queued_sdp_read := True\<rparr>"
  have c: "fresh (c\<lparr>c_running := True\<rparr>)" "fresh ?c" using assms(2) by (simp_all add: fresh_def)
  let ?m = "msgs unexp_env ! nat (msg_index c)"
  have m: "\<not> pastLastMessage unexp_env c" "nth_message (msgs unexp_env) (msg_index c) w' = Inr (?m, w')" "m_type ?m = MSG_TYPE_RECV" for w'
    using assms(2) by (auto simp: fresh_def pastLastMessage_def msgs_of_def unexp_env_parts nth_message_def new_message_def)
  have udp: "transport_udp unexp_env \<and> retrans_enabled unexp_env" by (simp add: unexp_env_def plain_env_def)
  have "process_incoming_with unexp_env runs bye_message b w = runs (w\<lparr>this := Some ?c\<rparr>)"
    using assms h bye_not_found [OF c(1)] m udp
    by (simp add: process_incoming_with_def fresh_def with_this thenM_def bindM_def set_call_def setRunning_call_def ret_def whenM_def lift_def
      unexp_env_parts(2-) process_expected_def checkAckCSeq_def bye_read
      check_retransmission_def txn_retransmitted_def take_sdp_def read_start_def match_and_take_def not_found_def Let_def queue_up_def
      del: bindE_eq_Inr)
  then show ?thesis using c by auto
qed

lemma bye_again:
  assumes "this w = Some c" "fresh c" "msg_index c = 1" "c_running c" "queued_msg c = bye_message" "paused_until c = 0" "rtpstream_wait_check c = 0"
  shows "run_with unexp_env incoming0 w = incoming0 bye_message (queued_sdp_read c) (w\<lparr>this := Some (c\<lparr>queued_msg := []\<rparr>)\<rparr>)"
proof -
  have "c_str bye_message = bye_message" "bye_message \<noteq> []" by code_simp+
  then show ?thesis using assms
    by (simp add: run_with_def fresh_def with_this thenM_def bindM_def set_call_def ret_def pastLastMessage_def msgs_of_def unexp_env_parts
      nth_message_def new_message_def skips_def retransmit_def continue_run_def wait_playback_def executeMessage_def is_pause_def execute_recv_def
      del: bindE_eq_Inr)
qed

lemma unexpected_again: "this w = Some c \<Longrightarrow> fresh c \<Longrightarrow> process_incoming n unexp_env bye_message b w = Inl Undefined"
proof (induction n arbitrary: w c b)
  case (Suc n)
  from bye_jumps [OF Suc.prems] obtain c' where c': "fresh c'" "msg_index c' = 1" "c_running c'" "queued_msg c' = bye_message" "paused_until c' = 0"
      "rtpstream_wait_check c' = 0" and run: "process_incoming (Suc n) unexp_env bye_message b w = run_with unexp_env (process_incoming n unexp_env) (w\<lparr>this := Some c'\<rparr>)"
    by auto
  have "run_with unexp_env (process_incoming n unexp_env) (w\<lparr>this := Some c'\<rparr>) =
      process_incoming n unexp_env bye_message (queued_sdp_read c') (w\<lparr>this := Some c'\<rparr>\<lparr>this := Some (c'\<lparr>queued_msg := []\<rparr>)\<rparr>)"
    by (rule bye_again) (use c' in simp_all)
  also have "\<dots> = Inl Undefined" using c'(1) by (intro Suc.IH [where c = "c'\<lparr>queued_msg := []\<rparr>"]) (simp_all add: fresh_def)
  finally show ?case using run by simp
qed simp

text \<open>
  With the label \<^verbatim>\<open>_unexp.main\<close> at a \<^verbatim>\<open><recv>\<close> and no variable \<^verbatim>\<open>_unexp.retaddr\<close>, a message that is
  expected neither there nor where the call is makes the processing call itself again and again: no depth of the stack is enough.
\<close>

theorem unexpected_overflows: "process_incoming n unexp_env bye_message False (plain_world unexp_env) = Inl Undefined"
  by (rule unexpected_again) (simp_all add: plain_world_def, simp add: fresh_def init_call_def unexp_env_def plain_env_def plain_scenario_def)

section \<open>Jumps\<close>

definition jump_to :: "int \<Rightarrow> int caction" where
  "jump_to i = \<lparr>M_action = E_AT_JUMP, M_lookingPlace = E_LP_MSG, M_comp = E_C_EQ, M_checkIt = False, M_checkItInverse = False, M_caseIndep = False,
     M_headersOnly = False, M_varId = 0, M_varInId = 0, M_varIn2Id = 0, M_occurrence = 1, M_subVarId = [], M_lookingChar = [], M_message = [],
     M_IntCmd = E_INTCMD_INVALID, M_doubleValue = i, M_stringValue = [], M_regularExpression = []\<rparr>"

definition at_index :: "(bool \<times> 'd world) res \<Rightarrow> int option" where
  "at_index r = (case r of Inl e \<Rightarrow> None | Inr (b, w) \<Rightarrow> map_option msg_index (this w))"

text \<open>A \<^verbatim>\<open><nop>\<close> that jumps to the index 3 goes there; a \<^verbatim>\<open><recv>\<close> that does goes to the message after it.\<close>

abbreviation jump_env :: "int message \<Rightarrow> int call_env" where
  "jump_env m \<equiv> (plain_env (plain_scenario [m\<lparr>M_actions := [jump_to 3]\<rparr>, nop 1, nop 2, nop 3]) 5)\<lparr>retrans_enabled := False\<rparr>"

lemma jump_in_nop: "at_index (run_call 1 (jump_env (nop 0)) (plain_world (jump_env (nop 0)))) = Some 3"
  by code_simp

definition short_bye :: string where
  "short_bye = ''BYE sip:a SIP/2.0'' @ CRLF @ ''To: a'' @ CRLF @ CRLF"

lemma jump_in_recv_ignored:
  "at_index (process_incoming 1 (jump_env (request 0 ''BYE'')) short_bye False (plain_world (jump_env (request 0 ''BYE'')))) = Some 1"
  by code_simp

text \<open>A \<^verbatim>\<open><pause>\<close> that jumps to the first message is left at the index - 1, which the next run reads.\<close>

abbreviation pause_env :: "64 word \<Rightarrow> int call_env" where
  "pause_env now \<equiv> plain_env (plain_scenario [nop 0, (new_message 1)\<lparr>m_type := MSG_TYPE_PAUSE, pause_distribution := True, M_actions := [jump_to 0]\<rparr>]) now"

definition fault :: "'a res \<Rightarrow> cpp_error option" where
  "fault r = (case r of Inl e \<Rightarrow> Some e | Inr a \<Rightarrow> None)"

lemma pause_jumps_to_start:
  "fault (run_res call_step [(pause_env 5, Run 1), (pause_env 6, Run 1)] (plain_world (pause_env 5))) = None"
  "fault (run_res call_step [(pause_env 5, Run 1), (pause_env 6, Run 1), (pause_env 2000, Resume), (pause_env 2000, Run 1)]
     (plain_world (pause_env 5))) = Some Undefined"
  by code_simp+

section \<open>Messages that come while the call runs a command\<close>

text \<open>The second message that comes at a \<^verbatim>\<open><nop>\<close> replaces the first, which is lost.\<close>

definition queued :: "'d world res \<Rightarrow> string option" where
  "queued r = (case r of Inl e \<Rightarrow> None | Inr w \<Rightarrow> map_option queued_msg (this w))"

abbreviation busy_env :: "int call_env" where
  "busy_env \<equiv> plain_env (plain_scenario [nop 0, nop 1, nop 2, request 3 ''INFO'', request 4 ''BYE'']) 5"

lemma queued_message_lost:
  "queued (run_res call_step [(busy_env, Incoming 1 ''INFO''), (busy_env, Incoming 1 short_bye)] (plain_world busy_env)) = Some short_bye"
  by code_simp

end
