(* ===== verification/Call_Generation.thy ===== *)
theory Call_Generation
  imports Stat
begin

text \<open>
  The task that opens calls (\<^verbatim>\<open>call_generation_task.cpp\<close>). With \<^verbatim>\<open>-users\<close> every call belongs to a user,
  taken from the free users when the call is opened and given back when it ends; the number of users
  can be changed while the calls run. Without, calls are opened at a rate.

  The state is the task's static members and the globals it uses. A call in progress is its user (0 for
  none) and the index of the remote address it was given. Values computed in floating point are
  arguments: the calls due at the rate (\<^verbatim>\<open>rate_calls_to_open\<close>) and the limit of open calls. Arithmetic
  between \<^verbatim>\<open>int\<close> and the 64 bit counters is done in 64 bits, as in C++, and converted back to 32.
  The task itself is its scheduling state: running, or paused until its wake time.
\<close>

section \<open>State\<close>

datatype transport_type = T_UDP | T_TCP | T_TLS | T_SCTP | T_WS | T_WSS

record open_call =
  call_user :: int
  call_remote :: "nat option"

record call_gen =
  task_instance :: bool
  task_running :: bool
  calls_since_last_rate_change :: "64 word"
  last_rate_change_time :: "64 word"
  ramping :: bool
  users :: int
  rate_set :: bool
  freeUsers :: "int list"
  retiredUsers :: "int list"
  userVarMap :: "int \<rightharpoonup> nat"
  tables_made :: nat
  open_calls_allowed :: "32 word"
  open_calls_user_setting :: bool
  paused :: bool
  quitting :: nat
  stop_after :: "64 word"
  outbound_congestion :: bool
  multisocket :: bool
  transport :: transport_type
  tcp_multiplex :: bool
  main_ss_count :: nat
  tcp_ss_count :: nat
  remote_addresses :: nat
  next_remote :: nat
  main_stats :: cstat
  calls :: "open_call list"

text \<open>\<^verbatim>\<open>GetStat(CPT_C_CurrentCall)\<close> and the calls created.\<close>

definition current_calls :: "call_gen \<Rightarrow> 64 word" where
  "current_calls g = GetStat (main_stats g) (Inl (Cumul, CurrentCall))"

definition total_calls :: "call_gen \<Rightarrow> 64 word" where
  "total_calls g = GetStat (main_stats g) (Inl (Cumul, IncomingCallCreated)) + GetStat (main_stats g) (Inl (Cumul, OutgoingCallCreated))"

text \<open>A 64 bit value stored in an \<^verbatim>\<open>int\<close>, and an \<^verbatim>\<open>int\<close> used in 64 bits.\<close>

definition int_of_64 :: "64 word \<Rightarrow> int" where
  "int_of_64 w = to_int32 (uint w)"

section \<open>Users and rate\<close>

definition gen_setRunning :: "call_gen \<Rightarrow> call_gen" where
  "gen_setRunning g = g\<lparr>task_running := True\<rparr>"

definition gen_setPaused :: "call_gen \<Rightarrow> call_gen" where
  "gen_setPaused g = g\<lparr>task_running := False\<rparr>"

definition initialize :: "call_gen \<Rightarrow> call_gen res" where
  "initialize g =
     (if task_instance g then Inl AssertFailed
      else Inr ((gen_setRunning (g\<lparr>task_instance := True\<rparr>))\<lparr>ramping := users g \<ge> 0 \<and> rate_set g\<rparr>))"

text \<open>One user more: one that was retired, or a new one with a table of variables of its own.\<close>

definition add_user :: "call_gen \<Rightarrow> call_gen" where
  "add_user g =
     (if retiredUsers g \<noteq> []
      then g\<lparr>freeUsers := last (retiredUsers g) # freeUsers g, retiredUsers := butlast (retiredUsers g), users := users g + 1\<rparr>
      else
        let userid = users g + 1
        in g\<lparr>userVarMap := (userVarMap g)(userid \<mapsto> tables_made g), tables_made := tables_made g + 1,
             freeUsers := userid # freeUsers g, users := users g + 1\<rparr>)"

function add_users :: "int \<Rightarrow> call_gen \<Rightarrow> call_gen" where
  "add_users new_users g = (if users g < new_users then add_users new_users (add_user g) else g)"
  by pat_completeness auto
termination by (relation "measure (\<lambda>(n, g). nat (n - users g))") (auto simp: add_user_def Let_def)

declare add_users.simps [simp del]

definition set_users :: "64 word \<Rightarrow> int \<Rightarrow> call_gen \<Rightarrow> call_gen res" where
  "set_users clock_tick new_users0 g =
     (if \<not> task_instance g then Inr g
      else
        let new_users = max 0 new_users0
        in if users g < 0 then Inl AssertFailed
           else
             let g1 = add_users new_users g;
                 g2 = g1\<lparr>users := new_users, open_calls_allowed := of_int new_users\<rparr>;
                 g3 = (if rate_set g2 then g2\<lparr>ramping := current_calls g2 < of_int new_users\<rparr> else g2);
                 g4 = g3\<lparr>last_rate_change_time := clock_tick, calls_since_last_rate_change := 0\<rparr>
             in if \<not> open_calls_user_setting g4 then Inl AssertFailed else Inr (gen_setRunning g4))"

text \<open>
  \<open>limit d\<close> is \<^verbatim>\<open>(int)((3.0 * rate * d) / (double)rate_period_ms)\<close>; \<open>scenario_duration\<close> and \<open>duration\<close> are the
  length of the scenario and of its pauses.
\<close>

definition set_rate :: "64 word \<Rightarrow> (int \<Rightarrow> int) \<Rightarrow> int \<Rightarrow> int \<Rightarrow> call_gen \<Rightarrow> call_gen" where
  "set_rate now limit scenario_duration duration g =
     (let g1 = g\<lparr>last_rate_change_time := now, calls_since_last_rate_change := 0\<rparr>
      in if open_calls_user_setting g1 then g1
         else
           let d = max 1000 (max scenario_duration duration);
               n = of_int (limit d)
           in g1\<lparr>open_calls_allowed := (if n = 0 then 1 else n)\<rparr>)"

definition set_paused :: "64 word \<Rightarrow> 64 word \<Rightarrow> (int \<Rightarrow> int) \<Rightarrow> int \<Rightarrow> int \<Rightarrow> bool \<Rightarrow> call_gen \<Rightarrow> call_gen res" where
  "set_paused clock_tick now limit scenario_duration duration new_paused g =
     (if \<not> task_instance g then Inr g
      else
        bindE (if new_paused then Inr (gen_setPaused g)
               else if users g \<ge> 0 then set_users clock_tick (users g) (gen_setRunning g)
               else Inr (set_rate now limit scenario_duration duration (gen_setRunning g)))
          (\<lambda>g1. Inr (g1\<lparr>paused := new_paused\<rparr>)))"

definition free_user :: "int \<Rightarrow> call_gen \<Rightarrow> call_gen" where
  "free_user userId g =
     (if current_calls g > ucast (open_calls_allowed g) then g\<lparr>retiredUsers := userId # retiredUsers g\<rparr>
      else
        let g1 = g\<lparr>freeUsers := userId # freeUsers g\<rparr>
        in if task_instance g1 then gen_setRunning g1 else g1)"

text \<open>The next time the task runs; \<open>due\<close> is the time of the next call at the rate.\<close>

definition gen_wake :: "32 word \<Rightarrow> call_gen \<Rightarrow> 32 word" where
  "gen_wake due g = (if paused g \<or> users g \<ge> 0 \<and> \<not> ramping g then 0 else if due = 0 then 1 else due)"

section \<open>Opening calls\<close>

definition open_one :: "nat \<Rightarrow> int \<Rightarrow> call_gen \<Rightarrow> call_gen res" where
  "open_one clk now g =
     bindE (if users g \<ge> 0
            then if freeUsers g = [] then Inl Undefined
                 else Inr (last (freeUsers g), g\<lparr>freeUsers := butlast (freeUsers g)\<rparr>)
            else Inr (0, g)) (\<lambda>(userid, g1).
     bindE (computeStat clk now E_CREATE_OUTGOING_CALL (main_stats g1)) (\<lambda>st.
       let remote = (if remote_addresses g1 > 1 then Some (next_remote g1 mod remote_addresses g1) else None);
           g2 = g1\<lparr>main_stats := st, next_remote := (if remote_addresses g1 > 1 then next_remote g1 + 1 else next_remote g1)\<rparr>;
           g3 = g2\<lparr>calls := \<lparr>call_user = userid, call_remote = remote\<rparr> # calls g2, outbound_congestion := False\<rparr>
       in Inr (if multisocket g3 then g3
               else if transport g3 = T_UDP then g3\<lparr>main_ss_count := main_ss_count g3 + 1\<rparr>
               else if tcp_multiplex g3 then g3\<lparr>tcp_ss_count := tcp_ss_count g3 + 1\<rparr>
               else g3)))"

text \<open>
  The loop opens \<open>n\<close> calls unless the clock moves on: \<open>late k\<close> says so after the call numbered \<open>k\<close>. Its second
  result is the value the counter is left with.
\<close>

fun open_loop :: "nat \<Rightarrow> int \<Rightarrow> (nat \<Rightarrow> bool) \<Rightarrow> nat \<Rightarrow> nat \<Rightarrow> call_gen \<Rightarrow> (call_gen \<times> int) res" where
  "open_loop clk now late 0 k g = Inr (g, -1)"
| "open_loop clk now late (Suc n) k g =
     bindE (open_one clk now g) (\<lambda>g1. if late k then Inr (g1, int n) else open_loop clk now late n (k + 1) g1)"

text \<open>The number of calls to open, from the calls due at the rate; and the count kept for the rate.\<close>

definition calls_to_open :: "32 word \<Rightarrow> call_gen \<Rightarrow> nat \<times> call_gen" where
  "calls_to_open rate_calls g =
     (let n0 = (if users g \<ge> 0
                then let n = int_of_64 (of_int (users g) - current_calls g) in if ramping g then min n (sint rate_calls) else n
                else sint rate_calls);
          n1 = (if total_calls g + of_int n0 > stop_after g then int_of_64 (stop_after g - total_calls g) else n0);
          g1 = g\<lparr>calls_since_last_rate_change := calls_since_last_rate_change g + of_int n1\<rparr>;
          n2 = (if open_calls_allowed g1 \<noteq> 0 \<and> current_calls g1 + of_int n1 > ucast (open_calls_allowed g1)
                then int_of_64 (ucast (open_calls_allowed g1) - current_calls g1) else n1)
      in (nat n2, g1))"

text \<open>The result of \<^verbatim>\<open>run\<close> is whether the task goes on.\<close>

definition gen_run :: "nat \<Rightarrow> int \<Rightarrow> 32 word \<Rightarrow> (nat \<Rightarrow> bool) \<Rightarrow> call_gen \<Rightarrow> (call_gen \<times> bool) res" where
  "gen_run clk now rate_calls late g =
     (if quitting g \<noteq> 0 then Inr (g\<lparr>task_instance := False\<rparr>, False)
      else if paused g then Inr (gen_setPaused g, True)
      else
        let total = total_calls g
        in case calls_to_open rate_calls g of (n, g1) \<Rightarrow>
          bindE (open_loop clk now late n 0 g1) (\<lambda>(g2, left).
            let g3 = (if ramping g2 \<and> current_calls g2 \<ge> of_int (users g2) then g2\<lparr>ramping := False\<rparr> else g2);
                g4 = (if left \<le> 0 then gen_setPaused g3 else g3)
            in if total \<ge> stop_after g4
               then Inr (if quitting g4 = 0 then g4\<lparr>quitting := 1\<rparr> else g4, False)
               else Inr (g4, True)))"

text \<open>
  The end of a call: it is counted, and its destructor gives its user back. The call is the one at an
  index in the list of calls.
\<close>

definition call_ends :: "nat \<Rightarrow> int \<Rightarrow> e_action \<Rightarrow> nat \<Rightarrow> call_gen \<Rightarrow> call_gen res" where
  "call_ends clk now how i g =
     (if i < length (calls g) then
        bindE (computeStat clk now how (main_stats g)) (\<lambda>st.
          let u = call_user (calls g ! i);
              g1 = g\<lparr>main_stats := st, calls := take i (calls g) @ drop (Suc i) (calls g)\<rparr>
          in Inr (if u \<noteq> 0 then free_user u g1 else g1))
      else Inr g)"

text \<open>The users at the start: the loop of \<^verbatim>\<open>main\<close> that makes them.\<close>

definition make_user :: "call_gen \<Rightarrow> int \<Rightarrow> call_gen" where
  "make_user g i = g\<lparr>freeUsers := freeUsers g @ [i], userVarMap := (userVarMap g)(i \<mapsto> tables_made g), tables_made := tables_made g + 1\<rparr>"

definition make_users :: "call_gen \<Rightarrow> call_gen" where
  "make_users g = foldl make_user g [1..users g]"

end
