(* ===== verification/Call_Users.thy ===== *)
theory Call_Users
  imports Call_Generation Stat_Correct
begin

text \<open>
  The users of the calls: while the number of users is not lowered, no two calls in progress have the
  same user, a free user can always be taken, and every user has a table of variables of its own. After the
  number is lowered and raised again, two calls can have the same user.
\<close>

section \<open>The invariant\<close>

definition users_core :: "nat \<Rightarrow> call_gen \<Rightarrow> bool" where
  "users_core a g \<longleftrightarrow> users g = int a \<and> 1 \<le> a \<and> a < 2 ^ 31 \<and> open_calls_user_setting g \<and>
     retiredUsers g = [] \<and> distinct (freeUsers g @ map call_user (calls g)) \<and>
     set (freeUsers g @ map call_user (calls g)) = {1..int a} \<and>
     current_calls g = of_nat (length (calls g)) \<and>
     dom (userVarMap g) = {1..int a} \<and> inj_on (userVarMap g) {1..int a} \<and> ran (userVarMap g) \<subseteq> {..<tables_made g}"

definition users_ok :: "nat \<Rightarrow> call_gen \<Rightarrow> bool" where
  "users_ok a g \<longleftrightarrow> users_core a g \<and> open_calls_allowed g = of_nat a"

lemma users_count:
  assumes "users_core a g"
  shows "length (freeUsers g) + length (calls g) = a"
proof -
  have "length (freeUsers g @ map call_user (calls g)) = card {1..int a}"
    using assms distinct_card unfolding users_core_def by metis
  then show ?thesis by simp
qed

text \<open>The invariant does not depend on what else the state holds.\<close>

lemma users_core_cong:
  "users g' = users g \<Longrightarrow> open_calls_user_setting g' = open_calls_user_setting g \<Longrightarrow> retiredUsers g' = retiredUsers g \<Longrightarrow>
   freeUsers g' = freeUsers g \<Longrightarrow> calls g' = calls g \<Longrightarrow> main_stats g' = main_stats g \<Longrightarrow> userVarMap g' = userVarMap g \<Longrightarrow>
   tables_made g' = tables_made g \<Longrightarrow> users_core a g' = users_core a g"
  by (simp add: users_core_def current_calls_def)

lemma current_of_stat: "computeStat clk now how (main_stats g) = Inr st \<Longrightarrow>
    current_calls (g\<lparr>main_stats := st\<rparr>) = (if how = E_RESET_C_COUNTERS then 0
      else current_calls g + (if starts_call how then 1 else 0) - (if ends_call how then 1 else 0))"
  using computeStat_current [of clk now how "main_stats g" st] by (simp add: current_calls_def GetStat_def)

section \<open>More users\<close>

lemma add_user_core:
  assumes ok: "users_core a g" and "Suc a < 2 ^ 31"
  shows "users_core (Suc a) (add_user g)"
proof -
  have new: "{1..int (Suc a)} = insert (int a + 1) {1..int a}" by auto
  have fresh: "int a + 1 \<notin> set (freeUsers g @ map call_user (calls g))" "int a + 1 \<notin> dom (userVarMap g)"
    using ok unfolding users_core_def by auto
  have "inj_on ((userVarMap g)(int a + 1 \<mapsto> tables_made g)) (insert (int a + 1) {1..int a})"
  proof (rule inj_onI)
    fix x y assume x: "x \<in> insert (int a + 1) {1..int a}" and y: "y \<in> insert (int a + 1) {1..int a}"
      and eq: "((userVarMap g)(int a + 1 \<mapsto> tables_made g)) x = ((userVarMap g)(int a + 1 \<mapsto> tables_made g)) y"
    have no: "userVarMap g z \<noteq> Some (tables_made g)" for z using ok unfolding users_core_def by (auto simp: ran_def)
    have "inj_on (userVarMap g) {1..int a}" using ok unfolding users_core_def by blast
    then show "x = y" using x y eq no [of x] no [of y] by (auto simp: fun_upd_apply inj_on_def split: if_splits)
  qed
  moreover have "ran ((userVarMap g)(int a + 1 \<mapsto> tables_made g)) \<subseteq> {..<Suc (tables_made g)}"
  proof -
    have "ran (userVarMap g) \<subseteq> {..<tables_made g}" using ok unfolding users_core_def by blast
    moreover have "ran ((userVarMap g)(int a + 1 \<mapsto> tables_made g)) \<subseteq> insert (tables_made g) (ran (userVarMap g))"
      by (auto simp: ran_def split: if_splits)
    ultimately show ?thesis by force
  qed
  ultimately show ?thesis using assms fresh unfolding users_core_def new
    by (auto simp: add_user_def Let_def current_calls_def)
qed

lemma add_users_core: "users_core a g \<Longrightarrow> int a \<le> n \<Longrightarrow> n < 2 ^ 31 \<Longrightarrow> users_core (nat n) (add_users n g)"
proof (induction "nat n - a" arbitrary: a g)
  case 0
  then have "users g = n" "nat n = a" by (auto simp: users_core_def)
  then show ?case using 0 by (subst add_users.simps) simp
next
  case (Suc d)
  have u: "users g = int a" using Suc.prems by (simp add: users_core_def)
  have le: "int (Suc a) \<le> n" using Suc.hyps(2) Suc.prems(2) by linarith
  then have lt: "Suc a < 2 ^ 31" using Suc.prems(3) by simp
  then have "users_core (nat n) (add_users n (add_user g))"
    using Suc.hyps(1) [of "Suc a" "add_user g"] Suc.hyps(2) add_user_core [OF Suc.prems(1) lt] le Suc.prems(3) by simp
  then show ?case using u le by (subst add_users.simps) simp
qed

lemma set_users_ok:
  assumes ok: "users_ok a g" and n: "int a \<le> n" "n < 2 ^ 31"
  shows "\<exists>g' a'. set_users clk n g = Inr g' \<and> users_ok a' g' \<and> a' \<le> nat n"
proof (cases "task_instance g")
  case False
  then show ?thesis using ok n by (auto simp: set_users_def intro!: exI [of _ a])
next
  case True
  have core: "users_core (nat n) (add_users n g)" using ok add_users_core [OF _ n] unfolding users_ok_def by blast
  have u: "0 \<le> users g" "max 0 n = n" using ok n by (auto simp: users_ok_def users_core_def)
  let ?g = "add_users n g"
  have set: "open_calls_user_setting ?g" using core by (simp add: users_core_def)
  have "users_core (nat n) (?g\<lparr>users := n, open_calls_allowed := x, ramping := r, last_rate_change_time := t,
      calls_since_last_rate_change := c, task_running := b\<rparr>)" for x r t c b
    using core n by (auto simp: users_core_def current_calls_def)
  moreover have "users_core (nat n) (?g\<lparr>users := n, open_calls_allowed := x, last_rate_change_time := t,
      calls_since_last_rate_change := c, task_running := b\<rparr>)" for x t c b
    using core n by (auto simp: users_core_def current_calls_def)
  ultimately show ?thesis using True u set n
    by (auto simp: set_users_def Let_def gen_setRunning_def users_ok_def intro!: exI [of _ "nat n"])
qed

section \<open>Opening and ending calls\<close>

lemma open_one_ok:
  assumes ok: "users_ok a g" and free: "freeUsers g \<noteq> []"
  shows "\<exists>g'. open_one clk now g = Inr g' \<and> users_ok a g' \<and> length (freeUsers g) = Suc (length (freeUsers g'))"
proof -
  obtain fs u where f: "freeUsers g = fs @ [u]" using free by (cases "freeUsers g" rule: rev_cases) auto
  obtain st where st: "computeStat clk now E_CREATE_OUTGOING_CALL (main_stats g) = Inr st" by (simp add: computeStat_def)
  have cur: "GetStat st (Inl (Cumul, CurrentCall)) = GetStat (main_stats g) (Inl (Cumul, CurrentCall)) + 1"
    using computeStat_current [OF st] by (simp add: GetStat_def starts_call_def ends_call_def)
  have core: "users_core a g" "0 \<le> users g" using ok by (auto simp: users_ok_def users_core_def)
  have "users_core a (g\<lparr>freeUsers := fs, main_stats := st, calls := \<lparr>call_user = u, call_remote = r\<rparr> # calls g\<rparr>)" for r
    using core(1) f cur by (auto simp: users_core_def current_calls_def)
  then have frame: "users_core a g'" if "freeUsers g' = fs" "main_stats g' = st" "calls g' = \<lparr>call_user = u, call_remote = r\<rparr> # calls g"
    "users g' = users g" "open_calls_user_setting g' = open_calls_user_setting g" "retiredUsers g' = retiredUsers g"
    "userVarMap g' = userVarMap g" "tables_made g' = tables_made g" for g' r
    using that by (subst users_core_cong [where g = "g\<lparr>freeUsers := fs, main_stats := st, calls := \<lparr>call_user = u, call_remote = r\<rparr> # calls g\<rparr>"]) simp_all
  show ?thesis using core(2) f st ok
    by (auto simp: open_one_def Let_def users_ok_def intro!: frame)
qed

lemma open_loop_ok:
  "users_ok a g \<Longrightarrow> n \<le> length (freeUsers g) \<Longrightarrow> \<exists>g' l. open_loop clk now late n k g = Inr (g', l) \<and> users_ok a g'"
proof (induction n arbitrary: k g)
  case (Suc n)
  then have "freeUsers g \<noteq> []" by auto
  then obtain g1 where g1: "open_one clk now g = Inr g1" "users_ok a g1" "length (freeUsers g) = Suc (length (freeUsers g1))"
    using open_one_ok [OF Suc.prems(1)] by blast
  then show ?case using Suc.IH [of g1 "k + 1"] Suc.prems(2) by auto
qed simp

lemma to_int32_range: "- (2 ^ 31) \<le> to_int32 n \<and> to_int32 n < 2 ^ 31"
  by (simp add: to_int32_def)

lemma current_calls_frame [simp]: "current_calls (g\<lparr>calls_since_last_rate_change := x\<rparr>) = current_calls g"
  by (simp add: current_calls_def)

lemma small_word: "m < 2 ^ 33 \<Longrightarrow> unat (of_nat m :: 64 word) = m"
  by (simp add: unsigned_of_nat take_bit_nat_eq_self)

lemma allowed_word:
  assumes "users_core a g" and "open_calls_allowed g = of_nat a"
  shows "(ucast (open_calls_allowed g) :: 64 word) = of_nat a" and "open_calls_allowed g \<noteq> 0"
proof -
  have a: "1 \<le> a" "a < 2 ^ 31" using assms(1) by (auto simp: users_core_def)
  then have "unat (open_calls_allowed g) = a" using assms(2) by (simp add: unsigned_of_nat take_bit_nat_eq_self)
  then show "(ucast (open_calls_allowed g) :: 64 word) = of_nat a" "open_calls_allowed g \<noteq> 0"
    using a(1) by (metis of_nat_unat, metis not_one_le_zero unsigned_0)
qed

lemma calls_to_open_le:
  assumes ok: "users_ok a g" and n: "calls_to_open r g = (n, g1)"
  shows "n \<le> length (freeUsers g) \<and> users_ok a g1 \<and> freeUsers g1 = freeUsers g"
proof -
  let ?L = "length (calls g)" and ?F = "length (freeUsers g)"
  have core: "users_core a g" and allowed: "open_calls_allowed g = of_nat a" using ok by (auto simp: users_ok_def)
  have a: "1 \<le> a" "a < 2 ^ 31" "users g = int a" and cur: "current_calls g = of_nat ?L"
    using core by (auto simp: users_core_def)
  have sum: "?F + ?L = a" by (rule users_count [OF core])
  note w = allowed_word [OF core allowed]
  have diff: "(of_nat a :: 64 word) - of_nat ?L = of_nat ?F" using sum by (metis add_diff_cancel_right' of_nat_add)
  have room: "int_of_64 (of_nat a - of_nat ?L) = int ?F"
    unfolding diff using sum a by (simp add: int_of_64_def to_int32_id unsigned_of_nat take_bit_nat_eq_self)
  define n1 where "n1 = (if total_calls g + of_int (if ramping g then min (int ?F) (sint r) else int ?F) > stop_after g
    then int_of_64 (stop_after g - total_calls g) else if ramping g then min (int ?F) (sint r) else int ?F)"
  define g2 where "g2 = g\<lparr>calls_since_last_rate_change := calls_since_last_rate_change g + of_int n1\<rparr>"
  have n1: "n1 < 2 ^ 31"
    using to_int32_range sum a by (auto simp: n1_def int_of_64_def min_def)
  have of_int_a: "(of_int (users g) :: 64 word) = of_nat a" using a by simp
  have e: "calls_to_open r g = (nat (if of_nat ?L + of_int n1 > (of_nat a :: 64 word) then int ?F else n1), g2)"
    using w room unfolding calls_to_open_def Let_def of_int_a cur by (simp add: n1_def g2_def a(3) cur room)
  have "n \<le> ?F"
  proof (cases "of_nat ?L + of_int n1 > (of_nat a :: 64 word)")
    case False
    show ?thesis
    proof (cases "0 \<le> n1")
      case True
      then obtain m where m: "n1 = int m" by (metis nonneg_int_cases)
      then have "(of_nat (?L + m) :: 64 word) \<le> of_nat a" using False by (simp add: not_less)
      then have "?L + m \<le> a" using small_word [of "?L + m"] small_word [of a] n1 m sum a(2) by (simp add: word_le_nat_alt)
      then show ?thesis using e n m False sum by simp
    qed (use e n False in simp)
  qed (use e n in simp)
  moreover have "users_ok a g2" using ok users_core_cong [of g2 g] by (simp add: users_ok_def g2_def)
  ultimately show ?thesis using e n by (simp add: g2_def)
qed

lemma gen_run_ok:
  assumes ok: "users_ok a g"
  shows "\<exists>g' b. gen_run clk now r late g = Inr (g', b) \<and> users_ok a g'"
proof -
  have frame: "users_ok a (g'\<lparr>task_instance := x\<rparr>)" "users_ok a (g'\<lparr>task_running := x\<rparr>)" "users_ok a (g'\<lparr>ramping := x\<rparr>)"
    "users_ok a (g'\<lparr>quitting := y\<rparr>)" if "users_ok a g'" for g' x y
    using that by (simp_all add: users_ok_def users_core_def current_calls_def)
  obtain n g1 where n: "calls_to_open r g = (n, g1)" by force
  obtain g2 l where "open_loop clk now late n 0 g1 = Inr (g2, l)" "users_ok a g2"
    using open_loop_ok [of a g1 n clk now late 0] calls_to_open_le [OF ok n] by auto
  then show ?thesis using n ok by (auto simp: gen_run_def gen_setPaused_def Let_def frame)
qed

lemma call_ends_ok:
  assumes ok: "users_ok a g" and how: "ends_call how"
  shows "\<exists>g'. call_ends clk now how i g = Inr g' \<and> users_ok a g'"
proof (cases "i < length (calls g)")
  case True
  obtain st where st: "computeStat clk now how (main_stats g) = Inr st" using how by (auto simp: ends_call_def computeStat_def)
  let ?cs = "take i (calls g) @ drop (Suc i) (calls g)" and ?u = "call_user (calls g ! i)"
  let ?g = "g\<lparr>main_stats := st, calls := ?cs\<rparr>"
  have core: "users_core a g" "open_calls_allowed g = of_nat a" using ok by (auto simp: users_ok_def)
  have split: "calls g = take i (calls g) @ calls g ! i # drop (Suc i) (calls g)" using True by (rule id_take_nth_drop)
  have m: "mset (map call_user (calls g)) = add_mset ?u (mset (map call_user ?cs))" by (subst split) simp
  have perm: "mset (freeUsers g @ map call_user (calls g)) = mset ((?u # freeUsers g) @ map call_user ?cs)"
    using m by simp
  have d: "distinct ((?u # freeUsers g) @ map call_user ?cs)" "set ((?u # freeUsers g) @ map call_user ?cs) = {1..int a}"
    using core(1) mset_eq_imp_distinct_iff [OF perm] mset_eq_setD [OF perm] by (auto simp: users_core_def)
  have len: "Suc (length ?cs) = length (calls g)" using True by simp
  have "?u \<in> {1..int a}" by (subst d(2) [symmetric]) simp
  then have u: "?u \<noteq> 0" by simp
  have cur: "current_calls ?g = of_nat (length ?cs)"
  proof -
    have "current_calls ?g = current_calls g - 1"
      using current_of_stat [OF st] how by (auto simp: current_calls_def starts_call_def ends_call_def)
    also have "\<dots> = of_nat (Suc (length ?cs)) - 1" using core(1) len by (simp add: users_core_def)
    finally show ?thesis by simp
  qed
  have le: "length ?cs < a" using users_count [OF core(1)] len by simp
  have "\<not> current_calls ?g > ucast (open_calls_allowed ?g)"
    using cur le allowed_word(1) [OF core] small_word [of a] small_word [of "length ?cs"] core(1)
    by (simp add: users_core_def word_less_nat_alt)
  moreover have "users_core a (?g\<lparr>freeUsers := ?u # freeUsers g, task_running := x\<rparr>)"
    "users_core a (?g\<lparr>freeUsers := ?u # freeUsers g\<rparr>)" for x
    using core(1) d cur unfolding users_core_def by (simp_all add: current_calls_def)
  ultimately show ?thesis using True st u core(2)
    by (auto simp: call_ends_def Let_def free_user_def users_ok_def gen_setRunning_def)
qed (use ok in \<open>simp add: call_ends_def\<close>)

section \<open>Sequences of events\<close>

text \<open>
  What can happen: the number of users is set, the task is paused or resumed, the scheduler runs the
  task while it exists, a call ends.
\<close>

datatype gen_event =
    Set_users "64 word" int
  | Set_paused "64 word" bool
  | Gen_run nat int "32 word" "nat \<Rightarrow> bool"
  | Call_ends nat int e_action nat

fun gen_step :: "gen_event \<Rightarrow> call_gen \<Rightarrow> call_gen res" where
  "gen_step (Set_users clk n) g = set_users clk n g"
| "gen_step (Set_paused clk p) g = set_paused clk 0 (\<lambda>d. 0) 0 0 p g"
| "gen_step (Gen_run clk now r late) g =
     (if task_instance g then bindE (gen_run clk now r late g) (\<lambda>(g1, _). Inr g1) else Inr g)"
| "gen_step (Call_ends clk now how i) g = call_ends clk now how i g"

text \<open>The largest number of users so far; it is not gone below.\<close>

fun most_users :: "gen_event \<Rightarrow> nat \<Rightarrow> nat" where
  "most_users (Set_users clk n) m = nat n"
| "most_users _ m = m"

fun not_lowered :: "gen_event \<Rightarrow> nat \<Rightarrow> bool" where
  "not_lowered (Set_users clk n) m = (int m \<le> n \<and> n < 2 ^ 31)"
| "not_lowered (Call_ends clk now how i) m = ends_call how"
| "not_lowered _ m = True"

definition users_rel :: "nat \<Rightarrow> call_gen \<Rightarrow> bool" where
  "users_rel m g \<longleftrightarrow> (\<exists>a. a \<le> m \<and> users_ok a g)"

lemma set_paused_ok:
  assumes ok: "users_ok a g"
  shows "\<exists>g'. set_paused clk now l d1 d2 p g = Inr g' \<and> (\<exists>a'. a' \<le> a \<and> users_ok a' g')"
proof -
  have frame: "users_ok b (g'\<lparr>task_running := x\<rparr>)" "users_ok b (g'\<lparr>paused := x\<rparr>)" if "users_ok b g'" for b g' x
    using that by (simp_all add: users_ok_def users_core_def current_calls_def)
  have u: "users g = int a" "a < 2 ^ 31" using ok by (auto simp: users_ok_def users_core_def)
  then obtain g1 a1 where "set_users clk (users g) (gen_setRunning g) = Inr g1" "users_ok a1 g1" "a1 \<le> a"
    using set_users_ok [of a "gen_setRunning g" "users g" clk] frame(1) [OF ok] by (auto simp: gen_setRunning_def)
  then show ?thesis using u frame ok by (auto simp: set_paused_def gen_setPaused_def)
qed

lemma gen_step_sim:
  assumes rel: "users_rel m g" and ok: "not_lowered x m"
  shows "\<exists>g'. gen_step x g = Inr g' \<and> users_rel (most_users x m) g'"
proof -
  obtain a where a: "a \<le> m" "users_ok a g" using rel by (auto simp: users_rel_def)
  show ?thesis
  proof (cases x)
    case (Set_users clk n)
    then show ?thesis using set_users_ok [OF a(2), of n clk] a(1) ok by (auto simp: users_rel_def)
  next
    case (Set_paused clk p)
    then show ?thesis using set_paused_ok [OF a(2), of clk 0 "\<lambda>d. 0" 0 0 p] a(1) by (auto simp: users_rel_def) (meson le_trans)
  next
    case (Gen_run clk now r late)
    then show ?thesis using gen_run_ok [OF a(2), of clk now r late] rel a(1) by (auto simp: users_rel_def)
  next
    case (Call_ends clk now how i)
    then show ?thesis using call_ends_ok [OF a(2), of how clk now i] ok a(1) by (auto simp: users_rel_def)
  qed
qed

interpretation gen: simulation gen_step most_users not_lowered users_rel
  by unfold_locales (rule gen_step_sim)

text \<open>The state when the options have been read, with \<^verbatim>\<open>-users\<close>.\<close>

definition before_start :: "call_gen \<Rightarrow> bool" where
  "before_start g \<longleftrightarrow> \<not> task_instance g \<and> 1 \<le> users g \<and> users g < 2 ^ 31 \<and> open_calls_allowed g = of_int (users g) \<and>
     open_calls_user_setting g \<and> freeUsers g = [] \<and> retiredUsers g = [] \<and> userVarMap g = Map.empty \<and> calls g = [] \<and>
     current_calls g = 0"

lemma made_users:
  assumes "before_start g"
  shows "users_ok (nat (users g)) (make_users g)"
proof -
  have "\<exists>vm tm. foldl make_user g [1..int n] = g\<lparr>freeUsers := [1..int n], userVarMap := vm, tables_made := tm\<rparr> \<and>
    dom vm = {1..int n} \<and> inj_on vm {1..int n} \<and> ran vm \<subseteq> {..<tm}" for n
  proof (induction n)
    case 0
    show ?case using assms
      by (intro exI [of _ Map.empty] exI [of _ "tables_made g"]) (simp add: before_start_def)
  next
    case (Suc n)
    then obtain vm tm where IH: "foldl make_user g [1..int n] = g\<lparr>freeUsers := [1..int n], userVarMap := vm, tables_made := tm\<rparr>"
      "dom vm = {1..int n}" "inj_on vm {1..int n}" "ran vm \<subseteq> {..<tm}" by blast
    have up: "[1..int (Suc n)] = [1..int n] @ [int (Suc n)]" by (simp add: upto_rec2)
    have set: "{1..int (Suc n)} = insert (int (Suc n)) {1..int n}" by auto
    have no: "vm x \<noteq> Some tm" for x using IH(4) by (auto simp: ran_def)
    have "inj_on (vm(int (Suc n) \<mapsto> tm)) (insert (int (Suc n)) {1..int n})"
      using IH(3) no unfolding inj_on_def by (metis fun_upd_apply insert_iff)
    moreover have "ran (vm(int (Suc n) \<mapsto> tm)) \<subseteq> {..<Suc tm}"
      using IH(4) by (auto simp: ran_def split: if_splits)
    moreover have "dom (vm(int (Suc n) \<mapsto> tm)) = {1..int (Suc n)}" using IH(2) set by simp
    moreover have "foldl make_user g [1..int (Suc n)] =
        g\<lparr>freeUsers := [1..int (Suc n)], userVarMap := vm(int (Suc n) \<mapsto> tm), tables_made := Suc tm\<rparr>"
      unfolding up foldl_append IH(1) by (simp add: make_user_def)
    ultimately show ?case unfolding set by blast
  qed
  from this [of "nat (users g)"] obtain vm tm where m: "make_users g = g\<lparr>freeUsers := [1..users g], userVarMap := vm, tables_made := tm\<rparr>"
    and vm: "dom vm = {1..users g}" "inj_on vm {1..users g}" "ran vm \<subseteq> {..<tm}"
    using assms by (auto simp: make_users_def before_start_def)
  have g: "0 \<le> users g" "1 \<le> nat (users g)" "nat (users g) < 2 ^ 31" "open_calls_allowed g = of_int (users g)"
    "open_calls_user_setting g" "retiredUsers g = []" "calls g = []" "current_calls g = 0"
    using assms by (auto simp: before_start_def)
  have cc: "current_calls (make_users g) = 0" using g(8) by (simp add: m current_calls_def)
  show ?thesis unfolding users_ok_def users_core_def cc
    using g vm by (simp add: m)
qed

text \<open>
  C36: users. While the number of users is never lowered, whatever the order in which the task runs, calls
  end, the number of users is raised and the task is paused and resumed, nothing fails (a free user is
  there whenever one is taken), no user has two calls or is free and in a call at once, and no
  two users share a table of variables.
\<close>

theorem users_not_shared:
  assumes start: "before_start g" and legal: "legal_run not_lowered most_users xs (nat (users g))"
  shows "\<exists>g'. bindE (initialize (make_users g)) (run_res gen_step xs) = Inr g' \<and>
    distinct (freeUsers g' @ map call_user (calls g')) \<and>
    set (map call_user (calls g')) \<subseteq> {1..users g'} \<and> inj_on (userVarMap g') {1..users g'}"
proof -
  have ok: "users_ok (nat (users g)) (make_users g)" by (rule made_users [OF start])
  have "task_instance (foldl make_user g is) = task_instance g" for "is"
    by (induction "is" arbitrary: g) (auto simp: make_user_def)
  then have inst: "\<not> task_instance (make_users g)" using start by (simp add: before_start_def make_users_def)
  then obtain g1 where g1: "initialize (make_users g) = Inr g1" "users_ok (nat (users g)) g1"
    using ok by (auto simp: initialize_def gen_setRunning_def users_ok_def users_core_def current_calls_def)
  then have "users_rel (nat (users g)) g1" by (auto simp: users_rel_def)
  then obtain g' where "run_res gen_step xs g1 = Inr g'" "users_rel (fold most_users xs (nat (users g))) g'"
    using gen.run_sim [OF _ legal] by blast
  then show ?thesis using g1 by (auto simp: users_rel_def users_ok_def users_core_def)
qed

text \<open>A start with two users.\<close>

definition two_users :: call_gen where
  "two_users = \<lparr>task_instance = False, task_running = False, calls_since_last_rate_change = 0, last_rate_change_time = 0,
     ramping = False, users = 2, rate_set = False, freeUsers = [], retiredUsers = [], userVarMap = Map.empty, tables_made = 0,
     open_calls_allowed = 2, open_calls_user_setting = True, paused = False, quitting = 0, stop_after = 4294967295,
     outbound_congestion = False, multisocket = False, transport = T_UDP, tcp_multiplex = False, main_ss_count = 0,
     tcp_ss_count = 0, remote_addresses = 1, next_remote = 0, main_stats = new_CStat (\<lambda>c. 0) 0, calls = []\<rparr>"

theorem users_not_shared_witness:
  "\<exists>g'. bindE (initialize (make_users two_users)) (run_res gen_step
      [Gen_run 0 0 0 (\<lambda>k. False), Set_users 5 3, Call_ends 6 0 E_CALL_FAILED 1, Gen_run 7 0 0 (\<lambda>k. True)]) = Inr g' \<and>
    distinct (freeUsers g' @ map call_user (calls g'))"
proof -
  have "before_start two_users" by (simp add: before_start_def two_users_def current_calls_def new_CStat_def GetStat_def)
  moreover have "legal_run not_lowered most_users
      [Gen_run 0 0 0 (\<lambda>k. False), Set_users 5 3, Call_ends 6 0 E_CALL_FAILED 1, Gen_run 7 0 0 (\<lambda>k. True)] (nat (users two_users))"
    by (simp add: two_users_def ends_call_def)
  ultimately show ?thesis using users_not_shared by blast
qed

text \<open>The equations to run the generator on a concrete state.\<close>

lemma GetStat_created: "GetStat (created OutgoingCallCreated t s) (Inl (Cumul, n)) = GetStat s (Inl (Cumul, n)) +
    (if n = OutgoingCallCreated \<or> n = CurrentCall then 1 else 0)" if "n \<noteq> CurrentCallPeak" "n \<noteq> CurrentCallPeakTime"
  using that by (auto simp: GetStat_def created_counters)

lemma GetStat_ended: "GetStat (current_down (inc3 SuccessfulCall s)) (Inl (Cumul, n)) = GetStat s (Inl (Cumul, n)) +
    (if n = SuccessfulCall then 1 else 0) - (if n = CurrentCall then 1 else 0)"
  by (auto simp: GetStat_def down_counters inc3_counters)

lemma GetStat_new: "GetStat (new_CStat g t) (Inl c) = 0"
  by (simp add: GetStat_def new_CStat_def)

lemmas run_the_generator = initialize_def make_users_def make_user_def upto.simps gen_run_def calls_to_open_def
  open_one_def set_users_def add_users.simps add_user_def call_ends_def free_user_def gen_setRunning_def gen_setPaused_def
  current_calls_def total_calls_def computeStat_def Let_def GetStat_created GetStat_ended GetStat_new int_of_64_def to_int32_def

lemma open_loop_two: "open_loop clk now late 2 k g =
     bindE (open_one clk now g) (\<lambda>g1. if late k then Inr (g1, 1) else open_loop clk now late 1 (k + 1) g1)"
  "open_loop clk now late 1 k g = bindE (open_one clk now g) (\<lambda>g1. if late k then Inr (g1, 0) else Inr (g1, -1))"
  by (simp_all add: numeral_2_eq_2 cong: if_cong)

text \<open>
  Users lost track of. With two users, when the number of users is lowered to one and raised to two again
  while no call is in progress, the user 2 is made a second time: two calls open, the call of user 1 ends, and
  the call opened in its place has user 2 as well, whose other call is still in progress.
\<close>

theorem lowered_users_shared:
  "\<exists>g. bindE (initialize (make_users two_users)) (run_res gen_step
      [Set_users 0 1, Set_users 0 2, Gen_run 0 0 0 (\<lambda>k. False), Call_ends 1 0 E_CALL_SUCCESSFULLY_ENDED 0,
       Gen_run 2 0 0 (\<lambda>k. False)]) = Inr g \<and> map call_user (calls g) = [2, 2]"
  by (rule result_ok) (simp add: two_users_def run_the_generator open_loop_two del: bindE_eq_Inr One_nat_def)

end
