(* ===== verification/Scenario_Text.thy ===== *)
theory Scenario_Text
  imports Call_State
begin

text \<open>
  The numbers, times and texts of a scenario (\<^verbatim>\<open>scenario.cpp\<close>): how attributes are read and how the text of a message is cleaned.
\<close>

section \<open>Numbers\<close>

text \<open>Where the digits start, whether a minus sign is before them, and the base.\<close>

definition number_start :: "string \<Rightarrow> bool \<times> string" where
  "number_start s =
     (let t = dropWhile isspace s
      in (t \<noteq> [] \<and> hd t = CHR ''-'', if t \<noteq> [] \<and> (hd t = CHR ''-'' \<or> hd t = CHR ''+'') then tl t else t))"

definition integer_base :: "string \<Rightarrow> nat" where
  "integer_base s =
     (let u = snd (number_start s)
      in if length u \<ge> 2 \<and> u ! 0 = CHR ''0'' \<and> (u ! 1 = CHR ''x'' \<or> u ! 1 = CHR ''X'') then 16 else 10)"

text \<open>\<^verbatim>\<open>strtol\<close> in that base, when it takes the whole text. \<^verbatim>\<open>0x\<close> without a digit after it leaves its \<^verbatim>\<open>x\<close>.\<close>

definition whole_number :: "string \<Rightarrow> int option" where
  "whole_number s =
     (case number_start s of (neg, u) \<Rightarrow>
        let base = integer_base s; ds = (if base = 16 then drop 2 u else u)
        in if ds = [] then None
           else case digits_in base ds 0 of (v, r) \<Rightarrow> if r \<noteq> [] then None else Some (if neg then - int v else int v))"

definition get_long :: "string \<Rightarrow> int res" where
  "get_long s =
     (case whole_number s of
        None \<Rightarrow> Inl (ERROR ''not a valid integer!'')
      | Some v \<Rightarrow> if - (2 ^ 63) \<le> v \<and> v < 2 ^ 63 then Inr v else Inl (ERROR ''not a valid integer!''))"

definition get_int :: "string \<Rightarrow> int res" where
  "get_int s = bindE (get_long s) (\<lambda>v. if - (2 ^ 31) \<le> v \<and> v < 2 ^ 31 then Inr v else Inl (ERROR ''not a valid integer!''))"

text \<open>\<^verbatim>\<open>strtoull\<close> negates in 64 bits, and is out of range only above them.\<close>

definition get_long_long :: "string \<Rightarrow> nat res" where
  "get_long_long s =
     (case whole_number s of
        None \<Rightarrow> Inl (ERROR ''not a valid integer!'')
      | Some v \<Rightarrow> if \<bar>v\<bar> < 2 ^ 64 then Inr (nat (v mod 2 ^ 64)) else Inl (ERROR ''not a valid integer!''))"

definition get_double :: "'d doubles \<Rightarrow> string \<Rightarrow> 'd res" where
  "get_double D s =
     (case d_strtod D s of (d, rest) \<Rightarrow> if s = [] \<or> rest \<noteq> [] then Inl (ERROR ''not a floating point number!'') else Inr d)"

definition get_bool :: "string \<Rightarrow> bool res" where
  "get_bool s =
     (if eq_nocase s ''true'' then Inr True
      else if eq_nocase s ''false'' then Inr False
      else case whole_number s of None \<Rightarrow> Inl (ERROR ''not a valid boolean!'') | Some v \<Rightarrow> Inr (v \<noteq> 0))"

definition get_time :: "'d doubles \<Rightarrow> string \<Rightarrow> int \<Rightarrow> int res" where
  "get_time D s multiplier =
     (if s = [] \<or> \<not> isdigit (hd s) then Inl (ERROR ''not a valid time!'')
      else if CHR '':'' \<in> set s then Inl (ERROR ''not a valid time!'')
      else case d_strtod D s of (d, rest) \<Rightarrow>
        let times = (\<lambda>n. d_to_int D (d_mul D d (d_of_int D n)))
        in if rest = [] then Inr (times multiplier)
           else if rest = ''s'' then Inr (times 1000)
           else if rest = ''ms'' then Inr (d_to_int D d)
           else if rest = ''m'' then Inr (times 60000)
           else if rest = ''h'' then
             Inr (d_to_int D (d_mul D (d_mul D (d_mul D d (d_of_int D 60)) (d_of_int D 60)) (d_of_int D 1000)))
           else Inl (ERROR ''not a valid time!''))"

section \<open>Lists of names\<close>

function createStringTable :: "string \<Rightarrow> string list" where
  "createStringTable s =
     (case find_sub '','' s of
        None \<Rightarrow> [s]
      | Some comma \<Rightarrow> take comma s # createStringTable (drop (comma + 1) s))"
  by pat_completeness auto
termination
proof (relation "measure length")
  fix s :: string and comma
  assume "find_sub '','' s = Some comma"
  then have "s \<noteq> []" by auto
  then show "(drop (comma + 1) s, s) \<in> measure length" by simp
qed simp

declare createStringTable.simps [simp del]

definition valid_name :: "string \<Rightarrow> bool" where
  "valid_name s \<longleftrightarrow> s \<noteq> [] \<and> CHR ''$'' \<notin> set s \<and> CHR '','' \<notin> set s"

section \<open>The text of a message\<close>

text \<open>Each pair loses one of its two characters, until there is none.\<close>

function remove_pairs :: "string \<Rightarrow> string \<Rightarrow> nat \<Rightarrow> string" where
  "remove_pairs msg pair which =
     (case find_sub pair msg of
        None \<Rightarrow> msg
      | Some pos \<Rightarrow>
          if pos + which < length msg then remove_pairs (take (pos + which) msg @ drop (pos + which + 1) msg) pair which else msg)"
  by pat_completeness auto
termination by (relation "measure (\<lambda>(msg, pair, which). length msg)") auto

declare remove_pairs.simps [simp del]

definition is_layout :: "char \<Rightarrow> bool" where
  "is_layout c \<longleftrightarrow> c = SP \<or> c = TAB \<or> c = LF"

text \<open>The text without the white space around it and around the ends of its lines, and how many line ends were cut from its end.\<close>

definition clean_cdata :: "string \<Rightarrow> (string \<times> nat) res" where
  "clean_cdata ptr =
     (let msg = dropWhile is_layout ptr;
          cut_end = takeWhile is_layout (rev msg);
          msg1 = take (length msg - length cut_end) msg;
          removed = length (filter (\<lambda>c. c = LF) cut_end)
      in if msg1 = [] then Inl (ERROR ''Empty cdata in xml scenario file'')
         else
           let msg2 = remove_pairs (remove_pairs (remove_pairs (remove_pairs msg1 [LF, SP] 1) [SP, LF] 0) [LF, TAB] 1) [TAB, LF] 0
           in Inr (if find_sub [LF, LF] msg2 = None then msg2 @ [LF, LF] else msg2, removed))"

end
