(* ===== verification/Scenario_Load.thy ===== *)
theory Scenario_Load
  imports Scenario_Text State_Ops Xp_Parser
begin

text \<open>
  What is read while a scenario is built from its document (\<^verbatim>\<open>scenario.cpp\<close>): attributes, transactions, response times, counters
  and the actions of a message. What is being built is a state; the document is behind the cursor of \<open>Xp_Parser\<close>.
\<close>

section \<open>The state\<close>

record txnControlInfo =
  txn_name :: string
  isInvite :: bool
  acks :: nat
  started :: nat
  responses :: nat
  server :: bool
  sent_responses :: nat

text \<open>A message with the labels that are not resolved yet.\<close>

record 'd labelled = "'d message" +
  nextLabel :: "string option"
  onTimeoutLabel :: "string option"

datatype 'd distribution =
    CFixed 'd | CUniform 'd 'd | CDefaultPause | CNormal 'd 'd | CLogNormal 'd 'd | CExponential 'd | CWeibull 'd 'd | CPareto 'd 'd
  | CGPareto 'd 'd 'd | CGamma 'd 'd | CNegBin 'd 'd

record 'd loading =
  xp :: xp_state
  ld_vars :: "'d store"
  allocVars :: addr
  stats :: cstat
  ld_messages :: "'d labelled list"
  ld_init :: "'d labelled list"
  labelMap :: "string \<rightharpoonup> int"
  initLabelMap :: "string \<rightharpoonup> int"
  txnMap :: "string \<rightharpoonup> nat"
  ld_transactions :: "txnControlInfo list"
  method_list :: string
  last_recv_optional :: bool
  found_timewait :: bool
  ld_dialogs :: bool
  new_dialogs :: bool
  uses_lua :: bool
  hidedefault :: bool
  default_messages :: "(string \<times> string) list"
  ld_peers :: "string list"

text \<open>
  The surroundings: floating point with the rounding to \<^verbatim>\<open>float\<close>, the keywords of templates and the depth of their nesting, the
  tables of global and user variables, the names of default messages, which regular expressions compile,
  which peers have an address, which values the media accept, which distributions are too long for a pause, and the options of the build.
\<close>

record 'd load_env =
  ld_dbl :: "'d doubles"
  ld_float :: "'d \<Rightarrow> 'd"
  ld_msg :: msg_env
  ld_depth :: nat
  ld_global :: addr
  ld_user :: addr
  default_names :: "string list"
  ld_regcomp :: "string \<Rightarrow> bool"
  ld_peer_addr :: "string \<Rightarrow> bool"
  ld_media :: "string \<Rightarrow> string \<Rightarrow> bool"
  ld_long_pause :: "'d distribution \<Rightarrow> bool"
  ld_extended :: bool
  ld_gsl :: bool
  ld_with_lua :: bool
  ld_pcap :: bool
  ld_stats :: cstat
  ld_names :: "addr \<Rightarrow> string list"

type_synonym ('d, 'a) load = "('d loading, 'a) sop"

definition get_loading :: "('d, 'd loading) load" where
  "get_loading s = Inr (s, s)"

definition change :: "('d loading \<Rightarrow> 'd loading) \<Rightarrow> ('d, unit) load" where
  "change f s = Inr ((), f s)"

section \<open>The document\<close>

definition open_element :: "int \<Rightarrow> ('d, string option) load" where
  "open_element i s = (case xp_open_element i (xp s) of (e, x) \<Rightarrow> Inr (e, s\<lparr>xp := x\<rparr>))"

definition close_element :: "('d, unit) load" where
  "close_element s = Inr ((), s\<lparr>xp := xp_close_element (xp s)\<rparr>)"

definition get_value :: "string \<Rightarrow> ('d, string option) load" where
  "get_value name s = (case xp_get_value name (xp s) of (v, x) \<Rightarrow> Inr (v, s\<lparr>xp := x\<rparr>))"

definition get_cdata :: "('d, string option) load" where
  "get_cdata s = (case xp_get_cdata (xp s) of (v, x) \<Rightarrow> Inr (v, s\<lparr>xp := x\<rparr>))"

text \<open>
  The loop over the elements below the current one. The first argument bounds the turns; \<open>each_element\<close> starts it with more than there
  are elements.
\<close>

primrec element_loop :: "nat \<Rightarrow> (string \<Rightarrow> ('d, 'a) load) \<Rightarrow> int \<Rightarrow> ('d, 'a list) load" where
  "element_loop 0 body i = fail Undefined"
| "element_loop (Suc n) body i =
     bindM (open_element i) (\<lambda>e.
       case e of
         None \<Rightarrow> ret []
       | Some elem \<Rightarrow>
           bindM (body elem) (\<lambda>a. thenM close_element (bindM (element_loop n body (i + 1)) (\<lambda>as. ret (a # as)))))"

definition below :: "xp_state \<Rightarrow> xml_node list" where
  "below x = (case xp_stack x of [] \<Rightarrow> [] | node # _ \<Rightarrow> children node)"

definition each_element :: "(string \<Rightarrow> ('d, 'a) load) \<Rightarrow> ('d, 'a list) load" where
  "each_element body s = element_loop (Suc (length (below (xp s)))) body 0 s"

section \<open>Attributes\<close>

definition missing :: "string \<Rightarrow> cpp_error" where
  "missing name = ERROR (''missing the required parameter '' @ name)"

definition required :: "string \<Rightarrow> ('d, string) load" where
  "required name = bindM (get_value name) (\<lambda>v. case v of None \<Rightarrow> fail (missing name) | Some t \<Rightarrow> ret t)"

definition given :: "string \<Rightarrow> ('d, bool) load" where
  "given name = bindM (get_value name) (\<lambda>v. ret (v \<noteq> None))"

definition xp_get_string :: "string \<Rightarrow> ('d, string) load" where
  "xp_get_string name = required name"

definition xp_get_double :: "'d load_env \<Rightarrow> string \<Rightarrow> ('d, 'd) load" where
  "xp_get_double env name = bindM (required name) (\<lambda>t. lift (get_double (ld_dbl env) t))"

definition xp_get_long :: "string \<Rightarrow> ('d, int) load" where
  "xp_get_long name = bindM (required name) (\<lambda>t. lift (get_long t))"

definition xp_get_long_or :: "string \<Rightarrow> int \<Rightarrow> ('d, int) load" where
  "xp_get_long_or name defval = bindM (given name) (\<lambda>g. if g then xp_get_long name else ret defval)"

definition xp_get_bool :: "string \<Rightarrow> ('d, bool) load" where
  "xp_get_bool name = bindM (required name) (\<lambda>t. lift (get_bool t))"

definition xp_get_bool_or :: "string \<Rightarrow> bool \<Rightarrow> ('d, bool) load" where
  "xp_get_bool_or name defval = bindM (given name) (\<lambda>g. if g then xp_get_bool name else ret defval)"

definition xp_get_optional :: "string \<Rightarrow> ('d, optionality) load" where
  "xp_get_optional name = bindM (get_value name) (\<lambda>v.
     case v of
       None \<Rightarrow> ret OPTIONAL_FALSE
     | Some t \<Rightarrow>
         if t = ''true'' then ret OPTIONAL_TRUE
         else if t = ''global'' then ret OPTIONAL_GLOBAL
         else if t = ''false'' then ret OPTIONAL_FALSE
         else fail (ERROR ''Could not understand optional value''))"

section \<open>Variables, transactions, response times and counters\<close>

text \<open>An operation on the tables of variables.\<close>

definition on_vars :: "('d store \<Rightarrow> ('a \<times> 'd store) res) \<Rightarrow> ('d, 'a) load" where
  "on_vars f s = bindE (f (ld_vars s)) (\<lambda>(a, h). Inr (a, s\<lparr>ld_vars := h\<rparr>))"

definition here :: "'d load_env \<Rightarrow> 'd loading \<Rightarrow> msg_env" where
  "here env s = (ld_msg env)\<lparr>msg_scenario := Some (allocVars s)\<rparr>"

definition scenario_get_var :: "'d load_env \<Rightarrow> string \<Rightarrow> ('d, int) load" where
  "scenario_get_var env name = bindM get_loading (\<lambda>s. on_vars (get_var (d_zero (ld_dbl env)) (here env s) name))"

definition scenario_find_var :: "'d load_env \<Rightarrow> string \<Rightarrow> ('d, int) load" where
  "scenario_find_var env name = bindM get_loading (\<lambda>s. on_vars (\<lambda>h. find_var (d_zero (ld_dbl env)) h (allocVars s) name False))"

definition xp_get_var :: "'d load_env \<Rightarrow> string \<Rightarrow> ('d, int) load" where
  "xp_get_var env name = bindM (required name) (scenario_get_var env)"

definition xp_get_var_or :: "'d load_env \<Rightarrow> string \<Rightarrow> int \<Rightarrow> ('d, int) load" where
  "xp_get_var_or env name defval = bindM (given name) (\<lambda>g. if g then xp_get_var env name else ret defval)"

definition template :: "'d load_env \<Rightarrow> string \<Rightarrow> bool \<Rightarrow> ('d, sending_message) load" where
  "template env t skip_sanity =
     bindM get_loading (\<lambda>s. on_vars (SendingMessage (ld_depth env) (d_zero (ld_dbl env)) (here env s) t skip_sanity))"

definition new_txn :: "string \<Rightarrow> bool \<Rightarrow> txnControlInfo" where
  "new_txn name invite = \<lparr>txn_name = name, isInvite = invite, acks = 0, started = 0, responses = 0, server = False, sent_responses = 0\<rparr>"

definition use_txn :: "bool \<Rightarrow> bool \<Rightarrow> bool \<Rightarrow> txnControlInfo \<Rightarrow> txnControlInfo res" where
  "use_txn start isAck srv t =
     (if start then
        if started t \<noteq> 0 \<and> server t \<noteq> srv then Inl (ERROR ''Transaction is started by both a sent and a received message'')
        else Inr (t\<lparr>started := started t + 1, server := srv\<rparr>)
      else if isAck then Inr (t\<lparr>acks := acks t + 1\<rparr>)
      else if srv then Inr (t\<lparr>sent_responses := sent_responses t + 1\<rparr>)
      else Inr (t\<lparr>responses := responses t + 1\<rparr>))"

text \<open>The number of a transaction, from 1; a name that is new gets the next one.\<close>

definition get_txn :: "string \<Rightarrow> bool \<Rightarrow> bool \<Rightarrow> bool \<Rightarrow> bool \<Rightarrow> ('d, nat) load" where
  "get_txn name start invite isAck srv =
     (if name = [] then fail (ERROR ''Transaction names may not be empty'')
      else if \<not> valid_name name then fail (ERROR ''Transaction names may not contain '$' or ',' '')
      else
        thenM (change (\<lambda>s. if txnMap s name = None
            then s\<lparr>ld_transactions := ld_transactions s @ [new_txn name (start \<and> invite)],
                   txnMap := (txnMap s)(name \<mapsto> length (ld_transactions s) + 1)\<rparr>
            else s))
        (bindM get_loading (\<lambda>s.
          case txnMap s name of
            None \<Rightarrow> fail Undefined
          | Some k \<Rightarrow>
              if \<not> (1 \<le> k \<and> k \<le> length (ld_transactions s)) then fail Undefined
              else bindM (lift (use_txn start isAck srv (ld_transactions s ! (k - 1)))) (\<lambda>t.
                thenM (change (\<lambda>s. s\<lparr>ld_transactions := (ld_transactions s)[k - 1 := t]\<rparr>)) (ret k)))))"

definition on_stats :: "(cstat \<Rightarrow> 'a \<times> cstat) \<Rightarrow> ('d, 'a) load" where
  "on_stats f s = (case f (stats s) of (a, st) \<Rightarrow> Inr (a, s\<lparr>stats := st\<rparr>))"

definition get_rtd :: "string \<Rightarrow> bool \<Rightarrow> ('d, int) load" where
  "get_rtd ptr start =
     (if ptr = ''false'' then ret 0
      else on_stats (findRtd (if ptr = ''true'' then ''1'' else ptr) start))"

fun rtd_loop :: "string list \<Rightarrow> bool \<Rightarrow> ('d, int list) load" where
  "rtd_loop [] start = ret []"
| "rtd_loop (n # ns) start =
     bindM (get_rtd n start) (\<lambda>rtd. bindM (rtd_loop ns start) (\<lambda>rtds. ret (if rtd \<noteq> 0 then rtd # rtds else rtds)))"

definition get_rtds :: "string \<Rightarrow> bool \<Rightarrow> ('d, int list) load" where
  "get_rtds ptr start = rtd_loop (split ptr CHR '','') start"

definition get_counter :: "string \<Rightarrow> ('d, int) load" where
  "get_counter ptr =
     (if \<not> valid_name ptr then fail (ERROR ''Counter names may not be empty or contain '$' or ',' '')
      else on_stats (findCounter ptr True))"

section \<open>Distributions\<close>

definition two :: "'d load_env \<Rightarrow> ('d \<Rightarrow> 'd \<Rightarrow> 'd distribution) \<Rightarrow> string \<Rightarrow> string \<Rightarrow> ('d, 'd distribution) load" where
  "two env f a b = bindM (xp_get_double env a) (\<lambda>x. bindM (xp_get_double env b) (\<lambda>y. ret (f x y)))"

definition gsl_names :: "string list" where
  "gsl_names = [''normal'', ''lognormal'', ''exponential'', ''pareto'', ''gamma'', ''negbin'', ''weibull'']"

definition named_distribution :: "'d load_env \<Rightarrow> string \<Rightarrow> ('d, 'd distribution) load" where
  "named_distribution env distname =
     (if distname = ''fixed'' then bindM (xp_get_double env ''value'') (\<lambda>v. ret (CFixed v))
      else if distname = ''uniform'' then two env CUniform ''min'' ''max''
      else if ld_gsl env then
        if distname = ''normal'' then two env CNormal ''mean'' ''stdev''
        else if distname = ''lognormal'' then two env CLogNormal ''mean'' ''stdev''
        else if distname = ''exponential'' then bindM (xp_get_double env ''mean'') (\<lambda>v. ret (CExponential v))
        else if distname = ''weibull'' then two env CWeibull ''lambda'' ''k''
        else if distname = ''pareto'' then two env CPareto ''k'' ''x_m''
        else if distname = ''gpareto'' then
          bindM (xp_get_double env ''shape'') (\<lambda>x. bindM (xp_get_double env ''scale'') (\<lambda>y.
            bindM (xp_get_double env ''location'') (\<lambda>z. ret (CGPareto x y z))))
        else if distname = ''gamma'' then two env CGamma ''k'' ''theta''
        else if distname = ''negbin'' then two env (\<lambda>n p. CNegBin p n) ''n'' ''p''
        else fail (ERROR ''Unknown distribution'')
      else if distname \<in> set gsl_names then fail (ERROR ''The distribution is only available with GSL'')
      else fail (ERROR ''Unknown distribution''))"

text \<open>The attributes that name a distribution by themselves, in the order they are looked for.\<close>

fun old_style :: "string list \<Rightarrow> ('d, string option) load" where
  "old_style [] = ret None"
| "old_style (n # ns) = bindM (given n) (\<lambda>g. if g then ret (Some n) else old_style ns)"

definition parse_distribution :: "'d load_env \<Rightarrow> bool \<Rightarrow> ('d, 'd distribution) load" where
  "parse_distribution env oldstyle =
     bindM (get_value ''distribution'') (\<lambda>v.
       case v of
         Some distname \<Rightarrow> named_distribution env distname
       | None \<Rightarrow>
           if \<not> oldstyle then fail (ERROR ''statistically distributed actions or pauses requires 'distribution' parameter'')
           else bindM (old_style [''normal'', ''exponential'', ''lognormal'', ''weibull'', ''pareto'', ''gamma'', ''min'', ''max'']) (\<lambda>n.
             case n of
               Some name \<Rightarrow> named_distribution env (if name = ''min'' \<or> name = ''max'' then ''uniform'' else name)
             | None \<Rightarrow> bindM (get_value ''milliseconds'') (\<lambda>ms.
                 case ms of
                   Some t \<Rightarrow> bindM (lift (get_double (ld_dbl env) t)) (\<lambda>d. ret (CFixed d))
                 | None \<Rightarrow> ret CDefaultPause)))"

end
