(* ===== verification/Scenario_Actions.thy ===== *)
theory Scenario_Actions
  imports Scenario_Load
begin

text \<open>
  The actions of a message (\<^verbatim>\<open>scenario::parseAction\<close>). The actions of media other than waiting, counting and stopping an echo are one type,
  as in \<open>Call_State\<close>; whether the media accept the value of an attribute is an argument.
\<close>

section \<open>Parts that actions share\<close>

definition new_action :: "'d load_env \<Rightarrow> 'd caction" where
  "new_action env =
     \<lparr>M_action = E_AT_NO_ACTION, M_lookingPlace = E_LP_MSG, M_comp = E_C_EQ, M_checkIt = False, M_checkItInverse = False,
      M_caseIndep = False, M_headersOnly = True, M_varId = 0, M_varInId = 0, M_varIn2Id = 0, M_occurrence = 1, M_subVarId = [],
      M_lookingChar = [], M_message = [], M_IntCmd = E_INTCMD_INVALID, M_doubleValue = d_zero (ld_dbl env), M_stringValue = [],
      M_regularExpression = []\<rparr>"

definition setMessage :: "'d load_env \<Rightarrow> 'd caction \<Rightarrow> string \<Rightarrow> ('d, 'd caction) load" where
  "setMessage env a t = bindM (template env t True) (\<lambda>m. ret (a\<lparr>M_message := M_message a @ [m]\<rparr>))"

text \<open>The attributes that are the messages of the action, in order.\<close>

fun xp_set_messages :: "'d load_env \<Rightarrow> 'd caction \<Rightarrow> string list \<Rightarrow> ('d, 'd caction) load" where
  "xp_set_messages env a [] = ret a"
| "xp_set_messages env a (n # ns) =
     bindM (xp_get_string n) (\<lambda>t. bindM (setMessage env a t) (\<lambda>a'. xp_set_messages env a' ns))"

definition set_var :: "'d load_env \<Rightarrow> string \<Rightarrow> 'd caction \<Rightarrow> ('d, 'd caction) load" where
  "set_var env name a = bindM (xp_get_var env name) (\<lambda>v. ret (a\<lparr>M_varId := v\<rparr>))"

definition handle_rhs :: "'d load_env \<Rightarrow> 'd caction \<Rightarrow> ('d, 'd caction) load" where
  "handle_rhs env a =
     bindM (given ''value'') (\<lambda>val. bindM (given ''variable'') (\<lambda>var.
       if val then
         bindM (xp_get_double env ''value'') (\<lambda>d.
           if var then fail (ERROR ''Value and variable are mutually exclusive'') else ret (a\<lparr>M_doubleValue := d\<rparr>))
       else if var then bindM (xp_get_var env ''variable'') (\<lambda>v. ret (a\<lparr>M_varInId := v\<rparr>))
       else fail (ERROR ''No value or variable defined'')))"

definition handle_arithmetic :: "'d load_env \<Rightarrow> 'd caction \<Rightarrow> ('d, 'd caction) load" where
  "handle_arithmetic env a = bindM (set_var env ''assign_to'' a) (handle_rhs env)"

definition parse_check :: "'d caction \<Rightarrow> ('d, 'd caction) load" where
  "parse_check a =
     bindM (given ''check_it'') (\<lambda>c. bindM (given ''check_it_inverse'') (\<lambda>i.
       if c then
         bindM (xp_get_bool ''check_it'') (\<lambda>b.
           if i then fail (ERROR ''Can not have both check_it and check_it_inverse'') else ret (a\<lparr>M_checkIt := b\<rparr>))
       else if i then bindM (xp_get_bool ''check_it_inverse'') (\<lambda>b. ret (a\<lparr>M_checkItInverse := b\<rparr>))
       else ret a))"

text \<open>\<^verbatim>\<open>assign_to\<close> may be left out when the result is checked.\<close>

definition parse_assign :: "'d load_env \<Rightarrow> 'd caction \<Rightarrow> ('d, 'd caction) load" where
  "parse_assign env a =
     bindM (given ''assign_to'') (\<lambda>g. bindM (given ''check_it'') (\<lambda>c. bindM (given ''check_it_inverse'') (\<lambda>i.
       if g \<or> \<not> c \<and> \<not> i then set_var env ''assign_to'' a else ret a)))"

fun get_vars :: "'d load_env \<Rightarrow> string list \<Rightarrow> ('d, int list) load" where
  "get_vars env [] = ret []"
| "get_vars env (n # ns) = bindM (scenario_get_var env n) (\<lambda>v. bindM (get_vars env ns) (\<lambda>vs. ret (v # vs)))"

definition set_vars :: "'d load_env \<Rightarrow> string \<Rightarrow> 'd caction \<Rightarrow> ('d, 'd caction) load" where
  "set_vars env names a =
     bindM (get_vars env (createStringTable names)) (\<lambda>vs.
       case vs of [] \<Rightarrow> fail Undefined | v # subs \<Rightarrow> ret (a\<lparr>M_varId := v, M_subVarId := subs\<rparr>))"

section \<open>Regular expressions, tests and comparisons\<close>

definition parse_place :: "'d load_env \<Rightarrow> 'd caction \<Rightarrow> ('d, 'd caction) load" where
  "parse_place env a =
     bindM (get_value ''search_in'') (\<lambda>v.
       case v of
         None \<Rightarrow> ret (a\<lparr>M_lookingPlace := E_LP_MSG\<rparr>)
       | Some place \<Rightarrow>
           if place = ''msg'' then ret (a\<lparr>M_occurrence := 1, M_lookingPlace := E_LP_MSG\<rparr>)
           else if place = ''body'' then ret (a\<lparr>M_occurrence := 1, M_lookingPlace := E_LP_BODY\<rparr>)
           else if place = ''var'' then
             bindM (xp_get_var env ''variable'') (\<lambda>i. ret (a\<lparr>M_occurrence := 1, M_varInId := i, M_lookingPlace := E_LP_VAR\<rparr>))
           else if place = ''hdr'' then
             bindM (get_value ''header'') (\<lambda>h.
               case h of
                 None \<Rightarrow> fail (ERROR ''search_in=hdr requires header field'')
               | Some hdr \<Rightarrow>
                   if hdr = [] then fail (ERROR ''search_in=hdr requires header field'')
                   else
                     bindM (get_value ''occurrence'') (\<lambda>o1. bindM (get_value ''occurence'') (\<lambda>o2.
                       ret (a\<lparr>M_lookingPlace := E_LP_HDR, M_lookingChar := hdr,
                         M_occurrence := (case o1 of Some t \<Rightarrow> to_int32 (atol t) | None \<Rightarrow>
                           (case o2 of Some t \<Rightarrow> to_int32 (atol t) | None \<Rightarrow> 1))\<rparr>))))
           else fail (ERROR ''Unknown search_in value''))"

definition parse_ereg :: "'d load_env \<Rightarrow> 'd caction \<Rightarrow> ('d, 'd caction) load" where
  "parse_ereg env a =
     bindM (xp_get_string ''regexp'') (\<lambda>regexp.
     bindM (xp_get_bool_or ''case_indep'' False) (\<lambda>ci.
     bindM (xp_get_bool_or ''start_line'' False) (\<lambda>sl.
     bindM (parse_place env (a\<lparr>M_action := E_AT_ASSIGN_FROM_REGEXP, M_caseIndep := ci, M_headersOnly := sl\<rparr>)) (\<lambda>a1.
     bindM (parse_check a1) (\<lambda>a2.
     bindM (required ''assign_to'') (\<lambda>names.
     bindM (set_vars env names a2) (\<lambda>a3.
       if ld_regcomp env regexp then ret (a3\<lparr>M_regularExpression := regexp\<rparr>) else fail (ERROR ''recomp error'')))))))) "

definition comparator :: "string \<Rightarrow> T_Comparator option" where
  "comparator s =
     map_of [(''equal'', E_C_EQ), (''not_equal'', E_C_NE), (''greater_than'', E_C_GT), (''less_than'', E_C_LT),
       (''greater_than_equal'', E_C_GEQ), (''less_than_equal'', E_C_LEQ)] s"

definition parse_test :: "'d load_env \<Rightarrow> 'd caction \<Rightarrow> ('d, 'd caction) load" where
  "parse_test env a =
     bindM (parse_check a) (\<lambda>a1. bindM (parse_assign env a1) (\<lambda>a2.
     bindM (xp_get_var env ''variable'') (\<lambda>lhs. bindM (given ''value'') (\<lambda>val.
     bindM (if val then
              bindM (xp_get_double env ''value'') (\<lambda>d. bindM (given ''variable2'') (\<lambda>two.
                if two then fail (ERROR ''Can not have both a value and a variable2 for test!'') else ret (a2\<lparr>M_varInId := lhs, M_doubleValue := d\<rparr>)))
            else bindM (xp_get_var env ''variable2'') (\<lambda>rhs. ret (a2\<lparr>M_varInId := lhs, M_varIn2Id := rhs\<rparr>))) (\<lambda>a3.
     bindM (xp_get_string ''compare'') (\<lambda>cmp.
       case comparator cmp of
         None \<Rightarrow> fail (ERROR ''Invalid 'compare' parameter'')
       | Some k \<Rightarrow> ret (a3\<lparr>M_action := E_AT_VAR_TEST, M_comp := k\<rparr>)))))))"

definition parse_strcmp :: "'d load_env \<Rightarrow> 'd caction \<Rightarrow> ('d, 'd caction) load" where
  "parse_strcmp env a =
     bindM (parse_check a) (\<lambda>a1. bindM (parse_assign env a1) (\<lambda>a2.
     bindM (xp_get_var env ''variable'') (\<lambda>lhs. bindM (given ''value'') (\<lambda>val.
       if val then
         bindM (xp_get_string ''value'') (\<lambda>t. bindM (given ''variable2'') (\<lambda>two.
           if two then fail (ERROR ''Can not have both a value and a variable2 for strcmp!'')
           else ret (a2\<lparr>M_action := E_AT_VAR_STRCMP, M_varInId := lhs, M_stringValue := t\<rparr>)))
       else bindM (xp_get_var env ''variable2'') (\<lambda>rhs. ret (a2\<lparr>M_action := E_AT_VAR_STRCMP, M_varInId := lhs, M_varIn2Id := rhs\<rparr>))))))"

definition parse_divide :: "'d load_env \<Rightarrow> 'd caction \<Rightarrow> ('d, 'd caction) load" where
  "parse_divide env a =
     bindM (handle_arithmetic env (a\<lparr>M_action := E_AT_VAR_DIVIDE\<rparr>)) (\<lambda>a1.
       if M_varInId a1 = 0 \<and> d_eq (ld_dbl env) (M_doubleValue a1) (d_zero (ld_dbl env))
       then fail (ERROR ''divide actions can not have a value of zero!'') else ret a1)"

definition parse_gettimeofday :: "'d load_env \<Rightarrow> 'd caction \<Rightarrow> ('d, 'd caction) load" where
  "parse_gettimeofday env a =
     bindM (required ''assign_to'') (\<lambda>names.
       if length (createStringTable names) \<noteq> 2 then fail (ERROR ''The gettimeofday action requires two output variables!'')
       else set_vars env names (a\<lparr>M_action := E_AT_ASSIGN_FROM_GETTIMEOFDAY\<rparr>))"

section \<open>Executing\<close>

text \<open>A value in brackets is that of a keyword of the command line.\<close>

definition xp_get_keyword_value :: "'d load_env \<Rightarrow> string \<Rightarrow> ('d, string option) load" where
  "xp_get_keyword_value env name =
     bindM (get_value name) (\<lambda>v.
       case v of
         None \<Rightarrow> ret None
       | Some t \<Rightarrow>
           if t \<noteq> [] \<and> hd t = CHR ''['' \<and> last t = CHR '']'' then
             (case generic (ld_msg env) (take (length t - 2) (tl t)) of
                Some u \<Rightarrow> ret (Some u)
              | None \<Rightarrow> fail (ERROR ''looks like a keyword value, but keyword not supplied!''))
           else ret (Some t))"

definition media_action :: "'d load_env \<Rightarrow> string \<Rightarrow> string \<Rightarrow> 'd caction \<Rightarrow> ('d, 'd caction) load" where
  "media_action env name t a =
     (if ld_media env name t then ret (a\<lparr>M_action := E_AT_RTP_STREAM_OTHER\<rparr>) else fail (ERROR ''not a valid media action''))"

definition parse_rtp_stream :: "'d load_env \<Rightarrow> string \<Rightarrow> 'd caction \<Rightarrow> ('d, 'd caction) load" where
  "parse_rtp_stream env t a =
     (if t \<in> {''pauseapattern'', ''resumeapattern'', ''pausevpattern'', ''resumevpattern'', ''pause'', ''resume''} then
        ret (a\<lparr>M_action := E_AT_RTP_STREAM_OTHER\<rparr>)
      else if has_prefix ''apattern'' t \<or> has_prefix ''vpattern'' t then setMessage env (a\<lparr>M_action := E_AT_RTP_STREAM_OTHER\<rparr>) t
      else if t = ''wait'' then
        bindM (xp_get_long_or ''timeout'' 0) (\<lambda>timeout.
          if timeout < 0 then fail (ERROR ''rtp_stream wait timeout must not be negative'')
          else ret (a\<lparr>M_action := E_AT_RTP_STREAM_WAIT, M_doubleValue := d_of_int (ld_dbl env) timeout\<rparr>))
      else if CHR ''['' \<notin> set t then bindM (media_action env ''rtp_stream'' t a) (\<lambda>a1. setMessage env a1 t)
      else setMessage env (a\<lparr>M_action := E_AT_RTP_STREAM_OTHER\<rparr>) t)"

text \<open>A value with another start is taken and leaves the action without a type.\<close>

definition parse_rtp_echo :: "'d load_env \<Rightarrow> string \<Rightarrow> 'd caction \<Rightarrow> ('d, 'd caction) load" where
  "parse_rtp_echo env t a =
     (if has_prefix ''startaudio'' t \<or> has_prefix ''updateaudio'' t \<or> has_prefix ''startvideo'' t \<or> has_prefix ''updatevideo'' t then
        media_action env ''rtp_echo'' t a
      else if has_prefix ''stopaudio'' t \<or> has_prefix ''stopvideo'' t then
        bindM (media_action env ''rtp_echo'' t a) (\<lambda>a1. ret (a1\<lparr>M_action := E_AT_RTP_STREAM_RTPECHO_STOP\<rparr>))
      else ret a)"

text \<open>The attributes of packet captures, in order: \<open>None\<close> when there is none.\<close>

fun parse_pcap :: "'d load_env \<Rightarrow> string list \<Rightarrow> 'd caction \<Rightarrow> ('d, 'd caction option) load" where
  "parse_pcap env [] a = ret None"
| "parse_pcap env (n # ns) a =
     (if ld_pcap env then
        bindM (xp_get_keyword_value env n) (\<lambda>v.
          case v of
            None \<Rightarrow> parse_pcap env ns a
          | Some t \<Rightarrow> bindM (media_action env n t a) (\<lambda>a1. ret (Some a1)))
      else bindM (given n) (\<lambda>g. if g then fail (ERROR ''this version of SIPp does not have PCAP support'') else parse_pcap env ns a))"

definition parse_dtmf_action :: "'d load_env \<Rightarrow> 'd caction \<Rightarrow> ('d, 'd caction option) load" where
  "parse_dtmf_action env a =
     bindM (get_value ''play_dtmf'') (\<lambda>v.
       case v of
         None \<Rightarrow> ret None
       | Some t \<Rightarrow>
           if \<not> ld_pcap env then fail (ERROR ''this version of SIPp does not have PCAP support'')
           else if CHR ''['' \<notin> set t \<and> \<not> ld_media env ''play_dtmf'' t then fail (ERROR ''Invalid play_dtmf'')
           else bindM (setMessage env (a\<lparr>M_action := E_AT_RTP_STREAM_OTHER\<rparr>) t) (\<lambda>a1. ret (Some a1)))"

definition int_cmd :: "string \<Rightarrow> T_IntCmdType" where
  "int_cmd t =
     (if t = ''stop_now'' then E_INTCMD_STOP_NOW else if t = ''stop_gracefully'' then E_INTCMD_STOP_ALL else E_INTCMD_STOPCALL)"

text \<open>The attributes of media.\<close>

definition parse_exec_media :: "'d load_env \<Rightarrow> 'd caction \<Rightarrow> ('d, 'd caction) load" where
  "parse_exec_media env a =
     bindM (parse_pcap env [''play_pcap_audio'', ''play_pcap_image'', ''play_pcap_video'', ''play_pcap_text''] a) (\<lambda>p.
       case p of
         Some a1 \<Rightarrow> ret a1
       | None \<Rightarrow> bindM (parse_dtmf_action env a) (\<lambda>d.
           case d of
             Some a1 \<Rightarrow> ret a1
           | None \<Rightarrow> bindM (get_value ''rtp_stream'') (\<lambda>v.
               case v of
                 Some t \<Rightarrow> parse_rtp_stream env t a
               | None \<Rightarrow> bindM (get_value ''rtp_echo'') (\<lambda>e.
                   case e of Some t \<Rightarrow> parse_rtp_echo env t a | None \<Rightarrow> fail (ERROR ''illegal <exec> in the scenario'')))))"

definition parse_exec :: "'d load_env \<Rightarrow> 'd caction \<Rightarrow> ('d, 'd caction) load" where
  "parse_exec env a =
     bindM (get_value ''command'') (\<lambda>c.
       case c of
         Some t \<Rightarrow> setMessage env (a\<lparr>M_action := E_AT_EXECUTE_CMD\<rparr>) t
       | None \<Rightarrow> bindM (get_value ''lua'') (\<lambda>l.
           case l of
             Some t \<Rightarrow>
               if \<not> ld_with_lua env then fail (ERROR ''this version of SIPp does not have Lua support'')
               else thenM (change (\<lambda>s. s\<lparr>uses_lua := True\<rparr>)) (setMessage env (a\<lparr>M_action := E_AT_EXEC_LUA\<rparr>) t)
           | None \<Rightarrow> bindM (get_value ''verify'') (\<lambda>v.
               case v of
                 Some t \<Rightarrow> setMessage env (a\<lparr>M_action := E_AT_VERIFY_CMD\<rparr>) t
               | None \<Rightarrow> bindM (get_value ''int_cmd'') (\<lambda>i.
                   case i of
                     Some t \<Rightarrow> ret (a\<lparr>M_action := E_AT_EXEC_INTCMD, M_IntCmd := int_cmd t\<rparr>)
                   | None \<Rightarrow> parse_exec_media env a))))"

section \<open>Statistics of RTP\<close>

definition parse_rtp_stats :: "'d load_env \<Rightarrow> 'd caction \<Rightarrow> ('d, 'd caction) load" where
  "parse_rtp_stats env a =
     bindM (required ''assign_to'') (\<lambda>names.
       if length (createStringTable names) > 3 then fail (ERROR ''rtp_stats assigns one to three variables'')
       else bindM (set_vars env names a) (\<lambda>a1.
         bindM (get_value ''media'') (\<lambda>media.
           if media \<notin> {None, Some ''audio'', Some ''video''} then fail (ERROR ''rtp_stats media must be audio or video'')
           else ret (a1\<lparr>M_action := E_AT_RTP_STATS, M_doubleValue := d_of_bool (ld_dbl env) (media = Some ''video'')\<rparr>))))"

definition parse_rtp_dtmf :: "'d load_env \<Rightarrow> 'd caction \<Rightarrow> ('d, 'd caction) load" where
  "parse_rtp_dtmf env a =
     bindM (required ''assign_to'') (\<lambda>name.
     bindM (scenario_get_var env name) (\<lambda>v.
     bindM (get_value ''payload_type'') (\<lambda>p.
     bindM (case p of None \<Rightarrow> ret 96 | Some t \<Rightarrow> lift (get_long t)) (\<lambda>pt.
       if pt < 0 \<or> pt > 127 then fail (ERROR ''rtp_dtmf payload_type must be from 0 to 127'')
       else ret (a\<lparr>M_action := E_AT_RTP_DTMF, M_varId := v, M_doubleValue := d_of_int (ld_dbl env) pt\<rparr>)))))"

section \<open>All actions\<close>

text \<open>The actions that take a message, a variable or a right side and nothing else.\<close>

definition parse_simple :: "'d load_env \<Rightarrow> string \<Rightarrow> 'd caction \<Rightarrow> ('d, 'd caction) load option" where
  "parse_simple env e a =
     map_of
       [(''log'', xp_set_messages env (a\<lparr>M_action := E_AT_LOG_TO_FILE\<rparr>) [''message'']),
        (''warning'', xp_set_messages env (a\<lparr>M_action := E_AT_LOG_WARNING\<rparr>) [''message'']),
        (''error'', xp_set_messages env (a\<lparr>M_action := E_AT_LOG_ERROR\<rparr>) [''message'']),
        (''assign'', handle_arithmetic env (a\<lparr>M_action := E_AT_ASSIGN_FROM_VALUE\<rparr>)),
        (''index'', set_var env ''assign_to'' (a\<lparr>M_action := E_AT_ASSIGN_FROM_INDEX\<rparr>)),
        (''jump'', handle_rhs env (a\<lparr>M_action := E_AT_JUMP\<rparr>)),
        (''pauserestore'', handle_rhs env (a\<lparr>M_action := E_AT_PAUSE_RESTORE\<rparr>)),
        (''add'', handle_arithmetic env (a\<lparr>M_action := E_AT_VAR_ADD\<rparr>)),
        (''subtract'', handle_arithmetic env (a\<lparr>M_action := E_AT_VAR_SUBTRACT\<rparr>)),
        (''multiply'', handle_arithmetic env (a\<lparr>M_action := E_AT_VAR_MULTIPLY\<rparr>)),
        (''insert'', xp_set_messages env (a\<lparr>M_action := E_AT_INSERT\<rparr>) [''file'', ''value'']),
        (''replace'', xp_set_messages env (a\<lparr>M_action := E_AT_REPLACE\<rparr>) [''file'', ''line'', ''value'']),
        (''setdest'', xp_set_messages env (a\<lparr>M_action := E_AT_SET_DEST\<rparr>) [''host'', ''port'', ''protocol'']),
        (''closecon'', ret (a\<lparr>M_action := E_AT_CLOSE_CON\<rparr>)),
        (''trim'', set_var env ''assign_to'' (a\<lparr>M_action := E_AT_VAR_TRIM\<rparr>)),
        (''urldecode'', set_var env ''variable'' (a\<lparr>M_action := E_AT_VAR_URLDECODE\<rparr>)),
        (''urlencode'', set_var env ''variable'' (a\<lparr>M_action := E_AT_VAR_URLENCODE\<rparr>)),
        (''rtp_echo'', handle_rhs env (a\<lparr>M_action := E_AT_RTP_STREAM_OTHER\<rparr>))] e"

definition parse_one_action :: "'d load_env \<Rightarrow> string \<Rightarrow> ('d, 'd caction) load" where
  "parse_one_action env e =
     (let a = new_action env
      in case parse_simple env e a of
           Some m \<Rightarrow> m
         | None \<Rightarrow>
             if e = ''ereg'' then parse_ereg env a
             else if e = ''assignstr'' then
               bindM (set_var env ''assign_to'' (a\<lparr>M_action := E_AT_ASSIGN_FROM_STRING\<rparr>)) (\<lambda>a1. xp_set_messages env a1 [''value''])
             else if e = ''gettimeofday'' then parse_gettimeofday env a
             else if e = ''divide'' then parse_divide env a
             else if e = ''sample'' then
               bindM (set_var env ''assign_to'' (a\<lparr>M_action := E_AT_ASSIGN_FROM_SAMPLE\<rparr>)) (\<lambda>a1. thenM (parse_distribution env False) (ret a1))
             else if e = ''todouble'' then
               bindM (set_var env ''assign_to'' (a\<lparr>M_action := E_AT_VAR_TO_DOUBLE\<rparr>)) (\<lambda>a1.
                 bindM (xp_get_var env ''variable'') (\<lambda>v. ret (a1\<lparr>M_varInId := v\<rparr>)))
             else if e = ''test'' then parse_test env a
             else if e = ''verifyauth'' then
               bindM (set_var env ''assign_to'' (a\<lparr>M_action := E_AT_VERIFY_AUTH\<rparr>)) (\<lambda>a1.
                 thenM (xp_get_string ''username'') (thenM (xp_get_string ''password'') (xp_set_messages env a1 [''username'', ''password''])))
             else if e = ''lookup'' then
               bindM (set_var env ''assign_to'' (a\<lparr>M_action := E_AT_LOOKUP\<rparr>)) (\<lambda>a1. xp_set_messages env a1 [''file'', ''key''])
             else if e = ''strcmp'' then parse_strcmp env a
             else if e = ''exec'' then parse_exec env a
             else if e = ''rtp_stats'' then parse_rtp_stats env a
             else if e = ''rtp_dtmf'' then parse_rtp_dtmf env a
             else fail (ERROR ''Unknown action''))"

definition parseAction :: "'d load_env \<Rightarrow> ('d, 'd caction list) load" where
  "parseAction env = each_element (parse_one_action env)"

end
