(* ===== verification/Scenario_Build.thy ===== *)
theory Scenario_Build
  imports Scenario_Actions
begin

text \<open>
  The building of a scenario (\<^verbatim>\<open>scenario::scenario\<close>): its elements one after the other, the labels, the checks at the end, and what
  the scenario makes of the program (\<^verbatim>\<open>computeSippMode\<close>). The screen's parts of a message (\<^verbatim>\<open>hide\<close>, \<^verbatim>\<open>crlf\<close>,
  \<^verbatim>\<open>display\<close>), the flag of its Content-Length and the duration of the scenario are left out. A message is added to the scenario
  when it is complete; nothing reads it before.
\<close>

section \<open>The attributes of every message\<close>

definition getActionForThisMessage :: "'d load_env \<Rightarrow> 'd labelled \<Rightarrow> ('d, 'd labelled) load" where
  "getActionForThisMessage env m =
     bindM (open_element 0) (\<lambda>e.
       case e of
         None \<Rightarrow> ret m
       | Some elem \<Rightarrow>
           bindM (if elem = ''action'' then bindM (parseAction env) (\<lambda>as. ret (m\<lparr>M_actions := as\<rparr>)) else ret m) (\<lambda>m1.
             thenM close_element (ret m1)))"

definition getBookKeeping :: "'d labelled \<Rightarrow> ('d, 'd labelled) load" where
  "getBookKeeping m =
     bindM (get_value ''rtd'') (\<lambda>v.
     bindM (case v of None \<Rightarrow> ret m | Some t \<Rightarrow> bindM (get_rtds t False) (\<lambda>r. ret (m\<lparr>stop_rtd := r\<rparr>))) (\<lambda>m1.
     bindM (get_value ''repeat_rtd'') (\<lambda>v.
     bindM (case v of
              None \<Rightarrow> ret m1
            | Some t \<Rightarrow>
                if stop_rtd m1 \<noteq> [] then bindM (lift (get_bool t)) (\<lambda>b. ret (m1\<lparr>repeat_rtd := b\<rparr>))
                else fail (ERROR ''There is a repeat_rtd element without an rtd element'')) (\<lambda>m2.
     bindM (get_value ''start_rtd'') (\<lambda>v.
     bindM (case v of None \<Rightarrow> ret m2 | Some t \<Rightarrow> bindM (get_rtds t True) (\<lambda>r. ret (m2\<lparr>start_rtd := r\<rparr>))) (\<lambda>m3.
     bindM (get_value ''counter'') (\<lambda>v.
       case v of None \<Rightarrow> ret m3 | Some t \<Rightarrow> bindM (get_counter t) (\<lambda>k. ret (m3\<lparr>m_counter := k\<rparr>)))))))))"

definition RAND_MAX :: int where "RAND_MAX = 2 ^ 31 - 1"

definition branch_chance :: "'d load_env \<Rightarrow> string \<Rightarrow> int res" where
  "branch_chance env t =
     (let D = ld_dbl env
      in bindE (get_double D t) (\<lambda>d.
           let c = ld_float env d
           in if d_less D c (d_zero D) \<or> d_less D (d_of_int D 1) c then Inl (ERROR ''Chance not in range [0..1]'')
              else Inr (d_to_int D (d_mul D (d_sub D (d_of_int D 1) c) (d_of_int D RAND_MAX)))))"

definition getBranch :: "'d load_env \<Rightarrow> 'd labelled \<Rightarrow> ('d, 'd labelled) load" where
  "getBranch env m =
     bindM (get_value ''next'') (\<lambda>v.
       case v of
         None \<Rightarrow> ret m
       | Some label \<Rightarrow> bindM get_loading (\<lambda>s.
           if found_timewait s then fail (ERROR ''next labels are not allowed in <timewait> elements.'')
           else bindM (xp_get_var_or env ''test'' (- 1)) (\<lambda>t. bindM (get_value ''chance'') (\<lambda>c.
             bindM (case c of None \<Rightarrow> ret 0 | Some ch \<Rightarrow> lift (branch_chance env ch)) (\<lambda>k.
               ret (m\<lparr>nextLabel := Some label, m_test := t, chance := k\<rparr>))))))"

definition getTimeout :: "'d labelled \<Rightarrow> ('d, 'd labelled) load" where
  "getTimeout m =
     bindM (get_value ''ontimeout'') (\<lambda>v.
       case v of
         None \<Rightarrow> ret m
       | Some label \<Rightarrow> bindM get_loading (\<lambda>s.
           if found_timewait s then fail (ERROR ''ontimeout labels are not allowed in <timewait> elements.'')
           else ret (m\<lparr>onTimeoutLabel := Some label\<rparr>)))"

definition getCommonAttributes :: "'d load_env \<Rightarrow> 'd labelled \<Rightarrow> ('d, 'd labelled) load" where
  "getCommonAttributes env m =
     bindM (getBookKeeping m) (\<lambda>m1.
     bindM (getActionForThisMessage env m1) (\<lambda>m2.
     bindM (get_value ''lost'') (\<lambda>v.
     thenM (case v of None \<Rightarrow> ret () | Some t \<Rightarrow> thenM (lift (get_double (ld_dbl env) t)) (ret ()))
     (bindM (get_value ''ignoresdp'') (\<lambda>v.
     bindM (case v of None \<Rightarrow> ret m2 | Some t \<Rightarrow> bindM (lift (get_bool t)) (\<lambda>b. ret (m2\<lparr>ignoresdp := b\<rparr>))) (\<lambda>m3.
     bindM (given ''hiderest'') (\<lambda>g.
     thenM (if g then bindM (xp_get_bool ''hiderest'') (\<lambda>b. change (\<lambda>s. s\<lparr>hidedefault := b\<rparr>)) else ret ())
     (thenM (xp_get_bool_or ''hide'' False)
     (bindM (xp_get_var_or env ''condexec'' (- 1)) (\<lambda>c.
     bindM (xp_get_bool_or ''condexec_inverse'' False) (\<lambda>ci.
     bindM (getBranch env (m3\<lparr>condexec := c, condexec_inverse := ci\<rparr>)) getTimeout)))))))))))"

section \<open>The messages\<close>

definition checkOptionalRecv :: "('d, unit) load" where
  "checkOptionalRecv = bindM get_loading (\<lambda>s.
     if last_recv_optional s then fail (ERROR ''<recv> before sequence without a mandatory message. Please remove one 'optional=true' '')
     else ret ())"

definition fresh_message :: "nat \<Rightarrow> 'd labelled" where
  "fresh_message i = message.extend (new_message (int i)) \<lparr>nextLabel = None, onTimeoutLabel = None\<rparr>"

definition the_cdata :: "('d, string) load" where
  "the_cdata = bindM get_cdata (\<lambda>v. case v of None \<Rightarrow> fail (ERROR ''No CDATA in section of xml scenario file'') | Some t \<Rightarrow> ret t)"

text \<open>The transaction of a request that is sent.\<close>

definition send_request_txn :: "string \<Rightarrow> 'd labelled \<Rightarrow> ('d, 'd labelled) load" where
  "send_request_txn meth m =
     bindM (get_value ''start_txn'') (\<lambda>st. bindM (get_value ''ack_txn'') (\<lambda>at. bindM (given ''response_txn'') (\<lambda>rt.
       bindM (case st of
                Some t \<Rightarrow>
                  if meth = ''ACK'' then fail (ERROR ''An ACK message can not start a transaction!'')
                  else bindM (get_txn t True (meth = ''INVITE'') False False) (\<lambda>k. ret (m\<lparr>start_txn := k\<rparr>))
              | None \<Rightarrow>
                  (case at of
                     Some t \<Rightarrow>
                       if meth \<noteq> ''ACK'' then fail (ERROR ''The ack_txn attribute is valid only for ACK messages!'')
                       else bindM (get_txn t False False True False) (\<lambda>k. ret (m\<lparr>ack_txn := k\<rparr>))
                   | None \<Rightarrow> thenM (change (\<lambda>s. s\<lparr>method_list := method_list s @ meth\<rparr>)) (ret m))) (\<lambda>m1.
       if rt then fail (ERROR ''response_txn can only be used for received responses or sent responses.'') else ret m1))))"

definition send_response_txn :: "'d labelled \<Rightarrow> ('d, 'd labelled) load" where
  "send_response_txn m =
     bindM (given ''start_txn'') (\<lambda>st. bindM (given ''ack_txn'') (\<lambda>at. bindM (get_value ''response_txn'') (\<lambda>rt.
       if st then fail (ERROR ''Responses can not start a transaction'')
       else if at then fail (ERROR ''Responses can not ACK a transaction'')
       else case rt of
         None \<Rightarrow> ret m
       | Some t \<Rightarrow> bindM (get_txn t False False False True) (\<lambda>k. ret (m\<lparr>response_txn := k\<rparr>)))))"

definition parse_send :: "'d load_env \<Rightarrow> 'd labelled \<Rightarrow> ('d, 'd labelled) load" where
  "parse_send env m =
     thenM checkOptionalRecv
     (bindM the_cdata (\<lambda>ptr.
     bindM (lift (clean_cdata ptr)) (\<lambda>(msg, removed).
     bindM (template env (if last msg \<noteq> LF \<and> removed \<noteq> 0 then msg @ [LF] else msg) False) (\<lambda>scheme.
     bindM (let m0 = m\<lparr>m_type := MSG_TYPE_SEND, send_scheme := Some scheme\<rparr>
            in if response scheme then send_response_txn m0
               else case msg_method scheme of None \<Rightarrow> fail Undefined | Some meth \<Rightarrow> send_request_txn meth m0) (\<lambda>m1.
     bindM (xp_get_long_or ''retrans'' 0) (\<lambda>r.
     bindM (xp_get_long_or ''timeout'' 0) (\<lambda>t.
       ret (m1\<lparr>retrans_delay := of_int r, m_timeout := of_int t\<rparr>))))))))"

definition recv_response_part :: "'d labelled \<Rightarrow> ('d, 'd labelled) load" where
  "recv_response_part m =
     bindM (get_value ''response'') (\<lambda>v.
       case v of
         None \<Rightarrow> ret m
       | Some r \<Rightarrow> bindM get_loading (\<lambda>s. bindM (get_value ''response_txn'') (\<lambda>t.
           let m1 = m\<lparr>recv_response := Some r, recv_response_code := to_int32 (atol r), cseq_method_list := method_list s\<rparr>
           in case t of
                None \<Rightarrow> ret m1
              | Some n \<Rightarrow> bindM (get_txn n False False False False) (\<lambda>k. ret (m1\<lparr>response_txn := k\<rparr>)))))"

definition recv_request_part :: "'d labelled \<Rightarrow> ('d, 'd labelled) load" where
  "recv_request_part m =
     bindM (get_value ''request'') (\<lambda>v.
       case v of
         None \<Rightarrow> ret m
       | Some r \<Rightarrow> bindM (given ''response_txn'') (\<lambda>rt. bindM (get_value ''start_txn'') (\<lambda>t.
           if rt then fail (ERROR ''response_txn can only be used for received responses.'')
           else case t of
             None \<Rightarrow> ret (m\<lparr>recv_request := Some r\<rparr>)
           | Some n \<Rightarrow>
               if r = ''ACK'' then fail (ERROR ''An ACK message can not start a transaction!'')
               else bindM (get_txn n True False False True) (\<lambda>k. ret (m\<lparr>recv_request := Some r, start_txn := k\<rparr>)))))"

definition bool_attribute :: "string \<Rightarrow> ('d, bool) load" where
  "bool_attribute name = bindM (get_value name) (\<lambda>v. case v of None \<Rightarrow> ret False | Some t \<Rightarrow> lift (get_bool t))"

definition parse_recv :: "'d load_env \<Rightarrow> 'd labelled \<Rightarrow> ('d, 'd labelled) load" where
  "parse_recv env m =
     bindM (recv_response_part (m\<lparr>m_type := MSG_TYPE_RECV\<rparr>)) (\<lambda>m1.
     bindM (recv_request_part m1) (\<lambda>m2.
     bindM (xp_get_optional ''optional'') (\<lambda>opt.
     thenM (change (\<lambda>s. s\<lparr>last_recv_optional := opt \<noteq> OPTIONAL_FALSE\<rparr>))
     (bindM (xp_get_bool_or ''advance_state'' True) (\<lambda>adv.
       if \<not> adv \<and> opt = OPTIONAL_FALSE then fail (ERROR ''advance_state is allowed only for optional messages'')
       else
         bindM (get_value ''regexp_match'') (\<lambda>re.
         bindM (xp_get_long_or ''timeout'' 0) (\<lambda>t.
         bindM (xp_get_var_or env ''timeout_variable'' (- 1)) (\<lambda>tv.
         bindM (given ''timeout'') (\<lambda>gt.
           if tv \<noteq> - 1 \<and> gt then fail (ERROR ''timeout and timeout_variable cannot both be set'')
           else
             bindM (bool_attribute ''rrs'') (\<lambda>rrs.
             bindM (bool_attribute ''auth'') (\<lambda>auth.
               ret (m2\<lparr>m_optional := opt, advance_state := adv, regexp_match := (re = Some ''true''), m_timeout := of_int t, timeout_variable := tv,
                      bShouldRecordRoutes := rrs, bShouldAuthenticate := auth\<rparr>))))))))))))"

definition parse_pause :: "'d load_env \<Rightarrow> bool \<Rightarrow> 'd labelled \<Rightarrow> ('d, 'd labelled) load" where
  "parse_pause env tw m =
     thenM checkOptionalRecv
     (thenM (whenM tw (change (\<lambda>s. s\<lparr>found_timewait := True\<rparr>)))
     (bindM (xp_get_var_or env ''variable'' (- 1)) (\<lambda>v.
       let m1 = m\<lparr>m_type := MSG_TYPE_PAUSE, m_timewait := tw\<rparr>
       in if v \<noteq> - 1 then ret (m1\<lparr>pause_variable := v\<rparr>)
          else
            bindM (parse_distribution env True) (\<lambda>d.
            bindM (xp_get_bool_or ''sanity_check'' True) (\<lambda>sane.
              if sane \<and> ld_long_pause env d then fail (ERROR ''The distribution has a 99th percentile which is larger than INT_MAX.'')
              else ret (m1\<lparr>pause_distribution := True\<rparr>))))))"

definition parse_recvCmd :: "'d load_env \<Rightarrow> 'd labelled \<Rightarrow> ('d, 'd labelled) load" where
  "parse_recvCmd env m =
     bindM (xp_get_optional ''optional'') (\<lambda>opt.
     thenM (change (\<lambda>s. s\<lparr>last_recv_optional := opt \<noteq> OPTIONAL_FALSE\<rparr>))
     (bindM (get_value ''src'') (\<lambda>src.
       case src of
         Some t \<Rightarrow> ret (m\<lparr>m_type := MSG_TYPE_RECVCMD, m_optional := opt, peer_src := t\<rparr>)
       | None \<Rightarrow>
           if ld_extended env then fail (ERROR ''You must specify a 'src' for recvCmd when using extended 3pcc mode!'')
           else ret (m\<lparr>m_type := MSG_TYPE_RECVCMD, m_optional := opt\<rparr>))))"

definition parse_sendCmd :: "'d load_env \<Rightarrow> 'd labelled \<Rightarrow> ('d, 'd labelled) load" where
  "parse_sendCmd env m =
     thenM checkOptionalRecv
     (bindM (get_value ''dest'') (\<lambda>dest.
     bindM (case dest of
              Some peer \<Rightarrow> bindM get_loading (\<lambda>s.
                if peer \<in> set (ld_peers s) then ret peer
                else if \<not> ld_peer_addr env peer then fail (ERROR ''get_peer_addr: Peer not found'')
                else thenM (change (\<lambda>s. s\<lparr>ld_peers := peer # ld_peers s\<rparr>)) (ret peer))
            | None \<Rightarrow>
                if ld_extended env then fail (ERROR ''You must specify a 'dest' for sendCmd with extended 3pcc mode!'') else ret []) (\<lambda>peer.
     bindM the_cdata (\<lambda>ptr.
     bindM (lift (clean_cdata ptr)) (\<lambda>(msg, removed).
     bindM (template env msg True) (\<lambda>scheme.
       ret (m\<lparr>m_type := MSG_TYPE_SENDCMD, peer_dest := peer, M_sendCmdData := Some scheme\<rparr>)))))))"

definition parse_kind :: "'d load_env \<Rightarrow> string \<Rightarrow> 'd labelled \<Rightarrow> ('d, 'd labelled) load" where
  "parse_kind env elem m =
     (if elem = ''send'' then parse_send env m
      else if elem = ''recv'' then parse_recv env m
      else if elem = ''pause'' \<or> elem = ''timewait'' then parse_pause env (elem = ''timewait'') m
      else if elem = ''nop'' then thenM checkOptionalRecv (ret (m\<lparr>m_type := MSG_TYPE_NOP\<rparr>))
      else if elem = ''recvCmd'' then parse_recvCmd env m
      else if elem = ''sendCmd'' then parse_sendCmd env m
      else fail (ERROR ''Unknown element in xml scenario file''))"

definition parse_dialog :: "'d labelled \<Rightarrow> ('d, 'd labelled) load" where
  "parse_dialog m =
     (if m_type m = MSG_TYPE_SEND \<or> m_type m = MSG_TYPE_RECV then
        bindM (xp_get_long_or ''dialog'' 0) (\<lambda>d. bindM (given ''dialog'') (\<lambda>g.
          if g \<and> (d < 1 \<or> d > 2 ^ 31 - 1) then fail (ERROR ''dialog must be a positive number'')
          else
            thenM (whenM (d > 1) (change (\<lambda>s. s\<lparr>ld_dialogs := True, new_dialogs := new_dialogs s \<or> recv_request m \<noteq> None\<rparr>)))
              (ret (m\<lparr>m_dialog := d\<rparr>))))
      else ret m)"

definition parse_message :: "'d load_env \<Rightarrow> string \<Rightarrow> ('d, unit) load" where
  "parse_message env elem = bindM get_loading (\<lambda>s.
     if found_timewait s then fail (ERROR ''<timewait> can only be the last message in a scenario!'')
     else
       bindM (parse_kind env elem (fresh_message (length (ld_messages s)))) (\<lambda>m.
       bindM (parse_dialog m) (\<lambda>m1.
       bindM (getCommonAttributes env m1) (\<lambda>m2.
         change (\<lambda>s. s\<lparr>ld_messages := ld_messages s @ [m2]\<rparr>)))))"

section \<open>The other elements\<close>

definition add_label :: "('d, unit) load" where
  "add_label = bindM (xp_get_string ''id'') (\<lambda>n. bindM get_loading (\<lambda>s.
     if labelMap s n \<noteq> None then fail (ERROR ''The label name is used twice.'')
     else change (\<lambda>s. s\<lparr>labelMap := (labelMap s)(n \<mapsto> int (length (ld_messages s)))\<rparr>)))"

definition parse_init_element :: "'d load_env \<Rightarrow> string \<Rightarrow> ('d, unit) load" where
  "parse_init_element env elem =
     (if elem = ''nop'' then bindM get_loading (\<lambda>s.
        bindM (getCommonAttributes env ((fresh_message (length (ld_init s)))\<lparr>m_type := MSG_TYPE_NOP\<rparr>)) (\<lambda>m.
          change (\<lambda>s. s\<lparr>ld_init := ld_init s @ [m]\<rparr>)))
      else if elem = ''label'' then
        bindM (xp_get_string ''id'') (\<lambda>n. bindM get_loading (\<lambda>s.
          if initLabelMap s n \<noteq> None then fail (ERROR ''The label name is used twice.'')
          else change (\<lambda>s. s\<lparr>initLabelMap := (initLabelMap s)(n \<mapsto> int (length (ld_init s)))\<rparr>)))
      else fail (ERROR ''Invalid element in an init stanza''))"

text \<open>The variables of a list, in a table.\<close>

fun find_all :: "'d load_env \<Rightarrow> addr \<Rightarrow> string list \<Rightarrow> ('d, unit) load" where
  "find_all env p [] = ret ()"
| "find_all env p (n # ns) = thenM (on_vars (\<lambda>h. find_var (d_zero (ld_dbl env)) h p n True)) (find_all env p ns)"

fun reference_all :: "'d load_env \<Rightarrow> string list \<Rightarrow> ('d, unit) load" where
  "reference_all env [] = ret ()"
| "reference_all env (n # ns) =
     bindM (scenario_find_var env n) (\<lambda>i.
       if i = - 1 then fail (ERROR ''Could not reference non-existent variable'') else reference_all env ns)"

definition set_default_message :: "'d load_env \<Rightarrow> string \<Rightarrow> string \<Rightarrow> ('d, unit) load" where
  "set_default_message env which msg =
     (if which \<in> set (default_names env) then change (\<lambda>s. s\<lparr>default_messages := (which, msg) # default_messages s\<rparr>)
      else fail (ERROR ''Internal Error: Unknown default message''))"

definition on_stats_res :: "(cstat \<Rightarrow> cstat res) \<Rightarrow> ('d, unit) load" where
  "on_stats_res f s = bindE (f (stats s)) (\<lambda>st. Inr ((), s\<lparr>stats := st\<rparr>))"

definition parse_element :: "'d load_env \<Rightarrow> string \<Rightarrow> ('d, unit) load" where
  "parse_element env elem =
     (if elem = ''CallLengthRepartition'' then bindM (xp_get_string ''value'') (\<lambda>t. on_stats_res (setRepartitionCallLength t))
      else if elem = ''ResponseTimeRepartition'' then bindM (xp_get_string ''value'') (\<lambda>t. on_stats_res (setRepartitionResponseTime t))
      else if elem = ''Global'' then bindM (xp_get_string ''variables'') (\<lambda>t. find_all env (ld_global env) (createStringTable t))
      else if elem = ''User'' then bindM (xp_get_string ''variables'') (\<lambda>t. find_all env (ld_user env) (createStringTable t))
      else if elem = ''Reference'' then bindM (xp_get_string ''variables'') (\<lambda>t. reference_all env (createStringTable t))
      else if elem = ''DefaultMessage'' then
        bindM (xp_get_string ''id'') (\<lambda>i. bindM the_cdata (\<lambda>ptr. bindM (lift (clean_cdata ptr)) (\<lambda>(msg, _). set_default_message env i msg)))
      else if elem = ''label'' then add_label
      else if elem = ''init'' then thenM (each_element (parse_init_element env)) (ret ())
      else parse_message env elem)"

section \<open>Labels and checks\<close>

definition resolve :: "(string \<rightharpoonup> int) \<Rightarrow> string option \<Rightarrow> int \<Rightarrow> int res" where
  "resolve labels l i =
     (case l of
        None \<Rightarrow> Inr i
      | Some n \<Rightarrow> (case labels n of None \<Rightarrow> Inl (ERROR ''The label was not defined'') | Some k \<Rightarrow> Inr k))"

fun apply_labels :: "'d labelled list \<Rightarrow> (string \<rightharpoonup> int) \<Rightarrow> 'd message list res" where
  "apply_labels [] labels = Inr []"
| "apply_labels (m # ms) labels =
     bindE (resolve labels (nextLabel m) (m_next m)) (\<lambda>n.
     bindE (resolve labels (onTimeoutLabel m) (on_timeout m)) (\<lambda>t.
     bindE (apply_labels ms labels) (\<lambda>ms'. Inr (message.truncate (m\<lparr>m_next := n, on_timeout := t\<rparr>) # ms'))))"

definition txn_usage :: "txnControlInfo \<Rightarrow> unit res" where
  "txn_usage t =
     (if started t = 0 then Inl (ERROR ''Transaction is never started!'')
      else if server t then
        if sent_responses t = 0 then Inl (ERROR ''Transaction has no responses defined!'')
        else if responses t \<noteq> 0 \<or> acks t \<noteq> 0 then Inl (ERROR ''it takes no received responses or ACK!'')
        else Inr ()
      else if sent_responses t \<noteq> 0 then Inl (ERROR ''it takes no sent responses!'')
      else if responses t = 0 then Inl (ERROR ''Transaction has no responses defined!'')
      else if isInvite t \<and> acks t = 0 then Inl (ERROR ''Transaction is an INVITE transaction without an ACK!'')
      else if \<not> isInvite t \<and> acks t > 0 then Inl (ERROR ''Transaction is a non-INVITE transaction with an ACK!'')
      else Inr ())"

fun validate_txn_usage :: "txnControlInfo list \<Rightarrow> unit res" where
  "validate_txn_usage [] = Inr ()"
| "validate_txn_usage (t # ts) = bindE (txn_usage t) (\<lambda>_. validate_txn_usage ts)"

definition start_loading :: "'d load_env \<Rightarrow> xp_state \<Rightarrow> 'd store \<Rightarrow> 'd loading res" where
  "start_loading env x h =
     bindE (new_AllocVariableTable (d_zero (ld_dbl env)) (Some (ld_user env)) h) (\<lambda>(p, h1).
       Inr \<lparr>xp = x, ld_vars = h1, allocVars = p, stats = ld_stats env, ld_messages = [], ld_init = [], labelMap = Map.empty,
         initLabelMap = Map.empty, txnMap = Map.empty, ld_transactions = [], method_list = [], last_recv_optional = False,
         found_timewait = False, ld_dialogs = False, new_dialogs = False, uses_lua = False, hidedefault = False,
         default_messages = [], ld_peers = []\<rparr>)"

definition finish_loading :: "'d load_env \<Rightarrow> ('d, 'd scenario) load" where
  "finish_loading env =
     thenM close_element
     (bindM get_loading (\<lambda>s.
       if xp_is_invalid (xp s) then fail (ERROR ''Invalid XML in scenario'')
       else
         bindM (scenario_find_var env ''_unexp.retaddr'') (\<lambda>ra.
         bindM (scenario_find_var env ''_unexp.pausedaddr'') (\<lambda>pa.
         bindM (lift (apply_labels (ld_messages s) (labelMap s))) (\<lambda>ms.
         bindM (lift (apply_labels (ld_init s) (initLabelMap s))) (\<lambda>ini.
         thenM (lift (validateRtds (stats s)))
         (thenM (if uses_lua s then ret () else bindM get_loading (\<lambda>s. lift (validate (ld_names env) (ld_vars s) (allocVars s))))
         (thenM (lift (validate_txn_usage (ld_transactions s)))
         (if ms = [] then fail (ERROR ''Did not find any messages inside of scenario!'')
          else if m_type (hd ms) = MSG_TYPE_RECV \<and> m_dialog (hd ms) > 1
          then fail (ERROR ''A call begins in dialog 1'')
          else ret \<lparr>messages = ms, initmessages = ini, txn_is_invite = map isInvite (ld_transactions s),
                unexpected_jump = (case labelMap s ''_unexp.main'' of Some i \<Rightarrow> i | None \<Rightarrow> - 1), retaddr = ra, pausedaddr = pa,
                has_dialogs = ld_dialogs s\<rparr>)))))))))"

text \<open>The cursor is at a document that was loaded.\<close>

definition load_scenario :: "'d load_env \<Rightarrow> xp_state \<Rightarrow> 'd store \<Rightarrow> ('d scenario \<times> 'd loading) res" where
  "load_scenario env x h =
     bindE (start_loading env x h)
       (bindM (open_element 0) (\<lambda>e.
          case e of
            None \<Rightarrow> fail (ERROR ''No element in xml scenario file'')
          | Some elem \<Rightarrow>
              if elem \<noteq> ''scenario'' then fail (ERROR ''No 'scenario' section in xml scenario file'')
              else thenM (each_element (parse_element env)) (finish_loading env)))"

end
