(* ===== verification/Scenario_Quiet.thy ===== *)
theory Scenario_Quiet
  imports Scenario_Build Xp_Correct
begin

text \<open>
  What the parts of the loader leave alone. Every part returns with the cursor of the document where it was; the attributes and the
  actions of a message leave the messages and the labels read so far, and never take a transaction away. The loop over elements never
  runs out of turns.
\<close>

section \<open>The cursor\<close>

definition same_stack :: "'d loading \<Rightarrow> 'd loading \<Rightarrow> bool" where
  "same_stack s s' \<longleftrightarrow> xp_stack (xp s') = xp_stack (xp s)"

interpretation st: step_relation same_stack
  by unfold_locales (simp_all add: same_stack_def)

text \<open>A relation that does not look at the document, and the cursor at its place.\<close>

definition keeping :: "('d loading \<Rightarrow> 'd loading \<Rightarrow> bool) \<Rightarrow> 'd loading \<Rightarrow> 'd loading \<Rightarrow> bool" where
  "keeping P s s' \<longleftrightarrow> same_stack s s' \<and> P s s'"

locale off_document =
  fixes P :: "'d loading \<Rightarrow> 'd loading \<Rightarrow> bool"
  assumes P_refl: "P s s" and P_trans: "P s s' \<Longrightarrow> P s' s'' \<Longrightarrow> P s s''" and P_xp: "P s (s\<lparr>xp := x\<rparr>)"

sublocale off_document \<subseteq> step_relation "keeping P"
  by unfold_locales (auto simp: keeping_def same_stack_def P_refl intro: P_trans)

context off_document
begin

lemma along_value: "along (keeping P) (get_value n)"
  by (auto simp: along_def get_value_def xp_get_value_def keeping_def same_stack_def P_xp Let_def split: prod.splits list.splits option.splits)

lemma along_cdata: "along (keeping P) get_cdata"
  by (auto simp: along_def get_cdata_def xp_get_cdata_def keeping_def same_stack_def P_xp Let_def split: prod.splits list.splits option.splits)

lemma along_get: "along (keeping P) get_loading"
  by (simp add: along_def get_loading_def R_refl)

lemma along_change: "(\<And>s. xp (f s) = xp s \<and> P s (f s)) \<Longrightarrow> along (keeping P) (change f)"
  by (auto simp: along_def change_def keeping_def same_stack_def)

text \<open>An element that is opened and closed again.\<close>

lemma open_cases:
  assumes "open_element i s = Inr (e, s')"
  shows "P s s'" "e = None \<Longrightarrow> same_stack s s'"
    "e = Some n \<Longrightarrow> \<exists>c. xp_stack (xp s') = c # xp_stack (xp s) \<and> xp_stack (xp s) \<noteq> []"
  using assms by (auto simp: open_element_def xp_open_element_def same_stack_def P_xp Let_def P_refl split: prod.splits list.splits option.splits)

lemma close_cases:
  assumes "close_element s = Inr (u, s')" and "xp_stack (xp s) = c # st" and "st \<noteq> []"
  shows "P s s'" "xp_stack (xp s') = st"
  using assms by (auto simp: close_element_def xp_close_element_def P_xp)

lemma along_open:
  assumes none: "along (keeping P) none" and body: "\<And>e. along (keeping P) (body e)" and rest: "\<And>e a. along (keeping P) (rest e a)"
  shows "along (keeping P) (bindM (open_element i) (\<lambda>e. case e of None \<Rightarrow> none | Some n \<Rightarrow> bindM (body n) (\<lambda>a. thenM close_element (rest n a))))"
  unfolding along_def
proof (intro allI impI)
  fix s b s''
  assume run: "bindM (open_element i) (\<lambda>e. case e of None \<Rightarrow> none | Some n \<Rightarrow> bindM (body n) (\<lambda>a. thenM close_element (rest n a))) s = Inr (b, s'')"
  then obtain e s1 where o: "open_element i s = Inr (e, s1)" by (auto simp: bindM_def)
  show "keeping P s s''"
  proof (cases e)
    case None
    then have "none s1 = Inr (b, s'')" using run o by (simp add: bindM_def)
    then have "keeping P s1 s''" by (rule alongD [OF none])
    then show ?thesis using open_cases(1,2) [OF o] None P_trans by (auto simp: keeping_def same_stack_def)
  next
    case (Some n)
    then obtain a s2 u s3 where m: "body n s1 = Inr (a, s2)" and c: "close_element s2 = Inr (u, s3)" and k: "rest n a s3 = Inr (b, s'')"
      using run o by (auto simp: bindM_def thenM_def)
    obtain d where d: "xp_stack (xp s1) = d # xp_stack (xp s)" "xp_stack (xp s) \<noteq> []" using open_cases(3) [OF o Some] by blast
    have "keeping P s1 s2" by (rule alongD [OF body m])
    then have "xp_stack (xp s2) = d # xp_stack (xp s)" "P s1 s2" using d by (simp_all add: keeping_def same_stack_def)
    then have "keeping P s s3" using close_cases [OF c _ d(2)] open_cases(1) [OF o] P_trans by (metis keeping_def same_stack_def)
    then show ?thesis using alongD [OF rest k] R_trans by blast
  qed
qed

lemma along_loop: "(\<And>e. along (keeping P) (body e)) \<Longrightarrow> along (keeping P) (element_loop n body i)"
proof (induction n arbitrary: i)
  case (Suc n)
  show ?case by (simp, intro along_open along_rules Suc)
qed (simp add: along_fail)

lemma along_elements: "(\<And>e. along (keeping P) (body e)) \<Longrightarrow> along (keeping P) (each_element body)"
  unfolding along_def [of _ "each_element body"] each_element_def using alongD [OF along_loop] by blast

end

text \<open>The loop over elements has turns enough: more of them change nothing.\<close>

definition elements :: "xp_state \<Rightarrow> xml_node list" where
  "elements x = filter (\<lambda>c. xtype c = node_element) (below x)"

interpretation doc: off_document "\<lambda>_ _. True"
  by unfold_locales auto

lemma keeping_True: "keeping (\<lambda>_ _. True) = same_stack"
  by (simp add: keeping_def fun_eq_iff)

lemma open_beyond: "length (elements (xp s)) \<le> i \<Longrightarrow> open_element (int i) s = Inr (None, s)"
  by (auto simp: open_element_def xp_open_element_def open_nth_spec elements_def below_def Let_def split: list.splits)

lemma loop_turns:
  assumes "\<And>e. along same_stack (body e)" and "length (elements (xp s)) - i < n" and "length (elements (xp s)) - i < n'"
  shows "element_loop n body (int i) s = element_loop n' body (int i) s"
  using assms(2,3)
proof (induction n arbitrary: n' i s)
  case (Suc n)
  obtain m where n': "n' = Suc m" using Suc.prems(2) by (cases n') auto
  obtain e s1 where o: "open_element (int i) s = Inr (e, s1)" by (cases "xp_open_element (int i) (xp s)") (auto simp: open_element_def)
  show ?case
  proof (cases e)
    case None
    then show ?thesis using o by (simp add: n' bindM_def)
  next
    case (Some k)
    then have i: "i < length (elements (xp s))" using open_beyond [of s i] o by (cases "i < length (elements (xp s))") auto
    obtain d where d: "xp_stack (xp s1) = d # xp_stack (xp s)" "xp_stack (xp s) \<noteq> []" using doc.open_cases(3) [OF o Some] by blast
    have "thenM close_element (bindM (element_loop n body (int i + 1)) (\<lambda>as. ret (a # as))) s2 =
          thenM close_element (bindM (element_loop m body (int i + 1)) (\<lambda>as. ret (a # as))) s2" if b: "body k s1 = Inr (a, s2)" for a s2
    proof -
      have "xp_stack (xp s2) = d # xp_stack (xp s)" using alongD [OF assms(1) b] d by (simp add: same_stack_def)
      then have "xp_stack (xp_close_element (xp s2)) = xp_stack (xp s)" using d by (simp add: xp_close_element_def)
      then have "elements (xp (s2\<lparr>xp := xp_close_element (xp s2)\<rparr>)) = elements (xp s)" by (simp add: elements_def below_def)
      then have "element_loop n body (int (Suc i)) (s2\<lparr>xp := xp_close_element (xp s2)\<rparr>) =
          element_loop m body (int (Suc i)) (s2\<lparr>xp := xp_close_element (xp s2)\<rparr>)"
        using Suc.prems i n' by (intro Suc.IH) auto
      then show ?thesis by (simp add: thenM_def bindM_def close_element_def add.commute)
    qed
    then show ?thesis using o Some by (cases "body k s1") (auto simp: n' bindM_def simp del: bindE_eq_Inr)
  qed
qed simp

section \<open>The messages and labels read so far\<close>

definition unmoved :: "'d loading \<Rightarrow> 'd loading \<Rightarrow> bool" where
  "unmoved s s' \<longleftrightarrow>
     ld_messages s' = ld_messages s \<and> ld_init s' = ld_init s \<and> labelMap s' = labelMap s \<and> initLabelMap s' = initLabelMap s \<and>
     length (ld_transactions s) \<le> length (ld_transactions s') \<and> (found_timewait s \<longrightarrow> found_timewait s')"

text \<open>An optional message is remembered until the next element that is not a part of it.\<close>

definition calm :: "'d loading \<Rightarrow> 'd loading \<Rightarrow> bool" where
  "calm s s' \<longleftrightarrow> unmoved s s' \<and> last_recv_optional s' = last_recv_optional s"

interpretation qt: off_document unmoved
  by unfold_locales (auto simp: unmoved_def)

interpretation ca: off_document calm
  by unfold_locales (auto simp: unmoved_def calm_def)

lemma calm_quiet: "along (keeping calm) m \<Longrightarrow> along (keeping unmoved) m"
  by (erule along_weaken) (simp add: keeping_def calm_def)

lemma quiet_stack: "along (keeping unmoved) m \<Longrightarrow> along same_stack m"
  by (erule along_weaken) (simp add: keeping_def)

named_theorems calms

lemma on_vars_calm [calms]: "along (keeping calm) (on_vars f)"
  by (auto simp: along_def on_vars_def keeping_def same_stack_def calm_def unmoved_def split: prod.splits)

lemma on_stats_calm [calms]: "along (keeping calm) (on_stats f)"
  by (auto simp: along_def on_stats_def keeping_def same_stack_def calm_def unmoved_def split: prod.splits)

lemmas calm_steps = ca.along_value ca.along_cdata ca.along_get ca.along_rules

lemma attributes_calm [calms]:
  "along (keeping calm) (required n)" "along (keeping calm) (given n)" "along (keeping calm) (xp_get_string n)"
  "along (keeping calm) (xp_get_double env n)" "along (keeping calm) (xp_get_long n)" "along (keeping calm) (xp_get_long_or n i)"
  "along (keeping calm) (xp_get_bool n)" "along (keeping calm) (xp_get_bool_or n b)" "along (keeping calm) (xp_get_optional n)"
  unfolding required_def given_def xp_get_string_def xp_get_double_def xp_get_long_def xp_get_long_or_def xp_get_bool_def xp_get_bool_or_def
    xp_get_optional_def
  by (intro calms calm_steps)+

lemma variables_calm [calms]:
  "along (keeping calm) (scenario_get_var env n)" "along (keeping calm) (scenario_find_var env n)" "along (keeping calm) (xp_get_var env n)"
  "along (keeping calm) (xp_get_var_or env n i)" "along (keeping calm) (template env t b)"
  unfolding scenario_get_var_def scenario_find_var_def xp_get_var_def xp_get_var_or_def template_def
  by (intro calms calm_steps)+

lemma get_txn_calm [calms]: "along (keeping calm) (get_txn n b b1 b2 b3)"
  unfolding get_txn_def
  by (intro calms calm_steps ca.along_change) (auto simp: calm_def unmoved_def)

lemma rtd_loop_calm: "along (keeping calm) (rtd_loop ns b)"
  by (induction ns) (simp_all add: ca.along_ret, intro calms calm_steps, simp add: get_rtd_def, intro conjI impI calms calm_steps, assumption)

lemma old_style_calm: "along (keeping calm) (old_style ns)"
  by (induction ns) (simp_all add: ca.along_ret, intro calms calm_steps)

lemma numbers_calm [calms]:
  "along (keeping calm) (get_rtds t b)" "along (keeping calm) (get_counter t)" "along (keeping calm) (parse_distribution env b)"
  unfolding get_rtds_def get_counter_def parse_distribution_def named_distribution_def two_def
  by (intro rtd_loop_calm old_style_calm calms calm_steps)+

section \<open>Actions\<close>

lemma set_messages_calm [calms]: "along (keeping calm) (setMessage env a t)" "along (keeping calm) (xp_set_messages env a ns)"
  unfolding setMessage_def by (intro calms calm_steps) (induction ns arbitrary: a, simp_all add: ca.along_ret setMessage_def, intro calms calm_steps)

lemma parts_calm [calms]:
  "along (keeping calm) (set_var env n a)" "along (keeping calm) (handle_rhs env a)" "along (keeping calm) (handle_arithmetic env a)"
  "along (keeping calm) (parse_check a)" "along (keeping calm) (parse_assign env a)"
  unfolding set_var_def handle_rhs_def handle_arithmetic_def parse_check_def parse_assign_def
  by (intro calms calm_steps)+

lemma set_vars_calm [calms]: "along (keeping calm) (set_vars env t a)"
proof -
  have "along (keeping calm) (get_vars env ns)" for ns
    by (induction ns) (simp_all add: ca.along_ret, intro calms calm_steps)
  then show ?thesis unfolding set_vars_def by (intro calm_steps)
qed

lemma plain_actions_calm [calms]:
  "along (keeping calm) (parse_ereg env a)" "along (keeping calm) (parse_test env a)" "along (keeping calm) (parse_strcmp env a)"
  "along (keeping calm) (parse_divide env a)" "along (keeping calm) (parse_gettimeofday env a)" "along (keeping calm) (parse_rtp_stats env a)"
  "along (keeping calm) (parse_rtp_dtmf env a)"
  unfolding parse_ereg_def parse_place_def parse_test_def parse_strcmp_def parse_divide_def parse_gettimeofday_def parse_rtp_stats_def
    parse_rtp_dtmf_def
  by (intro calms calm_steps)+

lemma parse_pcap_calm: "along (keeping calm) (parse_pcap env ns a)"
  by (induction ns) (simp_all add: ca.along_ret xp_get_keyword_value_def media_action_def, intro conjI impI calms calm_steps)

lemma parse_exec_calm [calms]: "along (keeping calm) (parse_exec env a)"
  unfolding parse_exec_def parse_exec_media_def parse_rtp_stream_def parse_rtp_echo_def parse_dtmf_action_def media_action_def
  by (intro parse_pcap_calm calms calm_steps ca.along_change) (auto simp: calm_def unmoved_def)

lemma parse_simple_calm: "parse_simple env e a = Some m \<Longrightarrow> along (keeping calm) m"
  unfolding parse_simple_def by (drule map_of_SomeD) (auto intro: calms ca.along_ret simp del: xp_set_messages.simps)

lemma parseAction_calm [calms]: "along (keeping calm) (parseAction env)"
  unfolding parseAction_def parse_one_action_def Let_def
  by (rule ca.along_elements) (intro calms calm_steps, erule parse_simple_calm)

section \<open>The attributes of a message\<close>

lemma getActionForThisMessage_calm [calms]: "along (keeping calm) (getActionForThisMessage env m)"
  unfolding getActionForThisMessage_def by (intro ca.along_open calms calm_steps)

lemma getCommonAttributes_calm [calms]: "along (keeping calm) (getCommonAttributes env m)"
  unfolding getCommonAttributes_def getBookKeeping_def getBranch_def getTimeout_def
  by (intro calms calm_steps ca.along_change) (auto simp: calm_def unmoved_def)

end
