(* ===== verification/Scenario_Correct.thy ===== *)
theory Scenario_Correct
  imports Scenario_Quiet
begin

text \<open>
  What a scenario that was loaded is like. Every message is one its kind allows, with the number of its place; labels, timeouts and the
  transactions of messages are in range; a message that may be skipped is followed by one that is received.
\<close>

section \<open>One message\<close>

text \<open>The last state: at most so many transactions; whether the last message is optional, and whether a \<^verbatim>\<open>timewait\<close> was found.\<close>

definition few :: "nat \<Rightarrow> 'd loading \<Rightarrow> bool" where
  "few N s \<longleftrightarrow> length (ld_transactions s) \<le> N"

definition flags :: "bool \<Rightarrow> bool \<Rightarrow> 'd loading \<Rightarrow> bool" where
  "flags opt tw s \<longleftrightarrow> last_recv_optional s = opt \<and> (found_timewait s \<longrightarrow> tw)"

interpretation fw: traced_back "keeping unmoved" "few N" for N
  by unfold_locales (auto simp: few_def keeping_def unmoved_def)

interpretation fl: traced_back "keeping calm" "flags opt tw" for opt tw
  by unfold_locales (auto simp: flags_def keeping_def calm_def unmoved_def)

text \<open>The parts of a message that its kind settles.\<close>

definition same_kind :: "'d labelled \<Rightarrow> 'd labelled \<Rightarrow> bool" where
  "same_kind m m' \<longleftrightarrow>
     m_index m' = m_index m \<and> m_type m' = m_type m \<and> send_scheme m' = send_scheme m \<and> M_sendCmdData m' = M_sendCmdData m \<and>
     pause_distribution m' = pause_distribution m \<and> pause_variable m' = pause_variable m \<and> m_timewait m' = m_timewait m \<and>
     m_optional m' = m_optional m \<and> advance_state m' = advance_state m \<and> start_txn m' = start_txn m \<and> ack_txn m' = ack_txn m \<and>
     response_txn m' = response_txn m \<and> m_next m' = m_next m \<and> on_timeout m' = on_timeout m"

lemma same_kind_refl: "same_kind m m"
  by (simp add: same_kind_def)

lemma same_kind_trans: "same_kind m m' \<Longrightarrow> same_kind m' m'' \<Longrightarrow> same_kind m m''"
  by (simp add: same_kind_def)

lemma bookkeeping_kind: "yields (\<lambda>_. True) (same_kind m) (getBookKeeping m)"
  unfolding getBookKeeping_def
  apply (rule yields_bind, rule yields_known [where P = "same_kind m"])
   apply (intro yields_rules; simp add: same_kind_def)
  apply (rule yields_bind, rule yields_known [where P = "same_kind m"])
   apply (intro yields_rules; simp add: same_kind_def)
  apply (rule yields_bind, rule yields_known [where P = "same_kind m"])
   apply (intro yields_rules; simp add: same_kind_def)
  apply (intro yields_rules; simp add: same_kind_def)
  done

lemma actions_kind: "yields (\<lambda>_. True) (same_kind m) (getActionForThisMessage env m)"
  unfolding getActionForThisMessage_def
  apply (rule yields_bind, rule yields_option)
   apply (intro yields_rules, rule same_kind_refl)
  apply (rule yields_known [where P = "same_kind m"])
   apply (intro yields_rules; simp add: same_kind_def)
  apply (intro yields_rules, assumption)
  done

lemma branch_kind: "yields (\<lambda>_. True) (same_kind m) (getBranch env m)"
  unfolding getBranch_def by (intro yields_rules; simp add: same_kind_def)

lemma timeout_kind: "yields (\<lambda>_. True) (same_kind m) (getTimeout m)"
  unfolding getTimeout_def by (intro yields_rules; simp add: same_kind_def)

lemma dialog_kind: "yields (\<lambda>_. True) (same_kind m) (parse_dialog m)"
  unfolding parse_dialog_def by (intro yields_rules; simp add: same_kind_def)

lemma ignoresdp_kind:
  "yields (\<lambda>_. True) (same_kind m) (case v of None \<Rightarrow> ret m | Some t \<Rightarrow> bindM (lift (get_bool t)) (\<lambda>b. ret (m\<lparr>ignoresdp := b\<rparr>)))"
  by (intro yields_rules; simp add: same_kind_def)

lemma common_kind: "yields (\<lambda>_. True) (same_kind m) (getCommonAttributes env m)"
  unfolding getCommonAttributes_def
  apply (rule yields_known [OF bookkeeping_kind])
  apply (rule yields_known [OF actions_kind])
  apply (rule yields_bind, rule yields_then, rule yields_bind)
  apply (rule yields_known [OF ignoresdp_kind])
  apply (rule yields_bind, rule yields_then, rule yields_then, rule yields_bind, rule yields_bind)
  apply (rule yields_known [OF branch_kind])
  apply (rule yields_weaken [OF timeout_kind])
  apply (auto simp: same_kind_def)
  done

text \<open>What a message of a scenario is like, before its labels are resolved, with so many transactions.\<close>

definition message_ok :: "nat \<Rightarrow> 'd labelled \<Rightarrow> bool" where
  "message_ok N m \<longleftrightarrow>
     (m_type m = MSG_TYPE_SEND \<longleftrightarrow> send_scheme m \<noteq> None) \<and> (m_type m = MSG_TYPE_SENDCMD \<longleftrightarrow> M_sendCmdData m \<noteq> None) \<and>
     (m_type m = MSG_TYPE_PAUSE \<longleftrightarrow> pause_distribution m \<or> pause_variable m \<noteq> - 1) \<and>
     (m_optional m \<noteq> OPTIONAL_FALSE \<longrightarrow> m_type m = MSG_TYPE_RECV \<or> m_type m = MSG_TYPE_RECVCMD) \<and>
     (advance_state m \<or> m_optional m \<noteq> OPTIONAL_FALSE) \<and> (m_timewait m \<longrightarrow> m_type m = MSG_TYPE_PAUSE) \<and>
     start_txn m \<le> N \<and> ack_txn m \<le> N \<and> response_txn m \<le> N \<and> m_next m = - 1 \<and> on_timeout m = - 1"

lemma get_txn_range: "yields (few N) (\<lambda>k. k \<le> N) (get_txn n b b1 b2 b3)"
  unfolding get_txn_def
  by (auto simp: yields_def bindM_def thenM_def fail_def ret_def lift_def change_def get_loading_def few_def split: option.splits if_splits)

lemmas txn_then = fw.yields_use [OF get_txn_range]

lemmas quiet_steps = calms [THEN calm_quiet] qt.along_value qt.along_cdata qt.along_get qt.along_rules

lemmas fresh_defs = fresh_message_def new_message_def message.defs message_ok_def

text \<open>A message that is one of its kind, with its number.\<close>

definition one_of_kind :: "nat \<Rightarrow> nat \<Rightarrow> 'd labelled \<Rightarrow> bool" where
  "one_of_kind N i m \<longleftrightarrow> message_ok N m \<and> m_index m = int i"

lemmas kind_defs = one_of_kind_def fresh_defs

lemma send_request_txn_ok: "one_of_kind N i m \<Longrightarrow> yields (few N) (one_of_kind N i) (send_request_txn meth m)"
  unfolding send_request_txn_def
  apply (rule yields_bind, rule yields_bind, rule yields_bind, rule fw.yields_use [where P = "one_of_kind N i"])
    apply (intro txn_then yields_rules qt.along_ret; simp add: one_of_kind_def message_ok_def)
   apply (intro yields_rules)
   apply assumption
  apply (intro quiet_steps)
  done

lemma send_response_txn_ok: "one_of_kind N i m \<Longrightarrow> yields (few N) (one_of_kind N i) (send_response_txn m)"
  unfolding send_response_txn_def by (intro txn_then yields_rules qt.along_ret; simp add: one_of_kind_def message_ok_def)

lemma parse_send_ok: "yields (few N) (one_of_kind N i) (parse_send env (fresh_message i))"
  unfolding parse_send_def Let_def
  apply (rule yields_then, rule yields_bind, rule yields_bind, rule yields_prod, rule yields_bind)
  apply (rule fw.yields_use [where P = "one_of_kind N i"])
    apply (intro yields_rules send_request_txn_ok send_response_txn_ok; simp add: kind_defs)
   apply (intro yields_rules; simp add: one_of_kind_def message_ok_def)
  apply (intro quiet_steps)
  done

definition of_recv :: "nat \<Rightarrow> nat \<Rightarrow> 'd labelled \<Rightarrow> bool" where
  "of_recv N i m \<longleftrightarrow>
     m_type m = MSG_TYPE_RECV \<and> m_index m = int i \<and> send_scheme m = None \<and> M_sendCmdData m = None \<and> \<not> pause_distribution m \<and>
     pause_variable m = - 1 \<and> \<not> m_timewait m \<and> m_optional m = OPTIONAL_FALSE \<and> advance_state m \<and>
     start_txn m \<le> N \<and> ack_txn m \<le> N \<and> response_txn m \<le> N \<and> m_next m = - 1 \<and> on_timeout m = - 1"

lemma recv_parts_ok:
  "of_recv N i m \<Longrightarrow> yields (few N) (of_recv N i) (recv_response_part m)"
  "of_recv N i m \<Longrightarrow> yields (few N) (of_recv N i) (recv_request_part m)"
  unfolding recv_response_part_def recv_request_part_def Let_def
  by (intro txn_then yields_rules qt.along_ret; simp add: of_recv_def)+

lemma change_quiet [intro]: "(\<And>s. xp (f s) = xp s \<and> unmoved s (f s)) \<Longrightarrow> along (keeping unmoved) (change f)"
  by (rule qt.along_change)

lemma recv_parts_calm [calms]: "along (keeping calm) (recv_response_part m)" "along (keeping calm) (recv_request_part m)"
    "along (keeping calm) (bool_attribute n)"
  unfolding recv_response_part_def recv_request_part_def bool_attribute_def by (intro calms calm_steps)+

lemma parse_recv_ok: "yields (few N) (one_of_kind N i) (parse_recv env (fresh_message i))"
  unfolding parse_recv_def
  apply (rule fw.yields_use [where P = "of_recv N i"])
    apply (rule recv_parts_ok, simp add: of_recv_def kind_defs)
   apply (rule fw.yields_use [where P = "of_recv N i"])
     apply (erule recv_parts_ok)
    apply (intro yields_rules; simp add: of_recv_def one_of_kind_def message_ok_def)
   apply (intro qt.along_change recv_parts_calm [THEN calm_quiet] quiet_steps; simp add: unmoved_def)+
  done

lemma parse_pause_ok: "yields (few N) (one_of_kind N i) (parse_pause env tw (fresh_message i))"
  unfolding parse_pause_def Let_def by (intro yields_rules; simp add: kind_defs)

lemma parse_recvCmd_ok: "yields (few N) (one_of_kind N i) (parse_recvCmd env (fresh_message i))"
  unfolding parse_recvCmd_def by (intro yields_rules; simp add: kind_defs)

lemma parse_sendCmd_ok: "yields (few N) (one_of_kind N i) (parse_sendCmd env (fresh_message i))"
  unfolding parse_sendCmd_def by (intro yields_rules; simp add: kind_defs)

lemma parse_kind_ok: "yields (few N) (one_of_kind N i) (parse_kind env elem (fresh_message i))"
  unfolding parse_kind_def
  by (intro parse_send_ok parse_recv_ok parse_pause_ok parse_recvCmd_ok parse_sendCmd_ok yields_rules; simp add: kind_defs)

text \<open>The parts read with a message leave the others alone.\<close>

lemma parse_kind_quiet: "along (keeping unmoved) (parse_kind env elem m)"
  unfolding parse_kind_def parse_send_def parse_recv_def parse_pause_def parse_recvCmd_def parse_sendCmd_def checkOptionalRecv_def the_cdata_def
    send_request_txn_def send_response_txn_def Let_def
  by (intro qt.along_change recv_parts_calm [THEN calm_quiet] quiet_steps; (simp add: unmoved_def)?)+

text \<open>What is remembered of the message for the next one.\<close>

definition flagged :: "bool \<Rightarrow> bool \<Rightarrow> 'd labelled \<Rightarrow> bool" where
  "flagged opt tw m \<longleftrightarrow> (opt \<longleftrightarrow> m_optional m \<noteq> OPTIONAL_FALSE) \<and> (m_timewait m \<longrightarrow> tw)"

lemma check_flags: "yields (flags opt tw) (\<lambda>_. \<not> opt) checkOptionalRecv"
  by (auto simp: checkOptionalRecv_def yields_def bindM_def get_loading_def ret_def fail_def flags_def)

lemma set_optional_flags: "yields (flags opt tw) (\<lambda>_. opt = b) (change (\<lambda>s. s\<lparr>last_recv_optional := b\<rparr>))"
  by (simp add: yields_def change_def flags_def)

lemma set_timewait_flags: "yields (flags opt tw) (\<lambda>_. b \<longrightarrow> tw) (whenM b (change (\<lambda>s. s\<lparr>found_timewait := True\<rparr>)))"
  by (auto simp: yields_def change_def flags_def whenM_def ret_def)

lemma whenM_timewait_calm: "along (keeping calm) (whenM b (change (\<lambda>s. s\<lparr>found_timewait := True\<rparr>)))"
  by (intro ca.along_when ca.along_change) (simp add: calm_def unmoved_def)

lemma add_peer_calm: "along (keeping calm) (change (\<lambda>s. s\<lparr>ld_peers := f s\<rparr>))" "along (keeping calm) (change (\<lambda>s. s\<lparr>method_list := g s\<rparr>))"
  by (intro ca.along_change, simp add: calm_def unmoved_def)+

lemma pieces_calm [calms]: "along (keeping calm) checkOptionalRecv" "along (keeping calm) the_cdata"
  "along (keeping calm) (send_request_txn meth m)" "along (keeping calm) (send_response_txn m)"
  unfolding checkOptionalRecv_def the_cdata_def send_request_txn_def send_response_txn_def
  by (intro add_peer_calm calms calm_steps)+

lemma send_txn_flags:
  "flagged False tw m \<Longrightarrow> yields (\<lambda>_. True) (flagged False tw) (send_request_txn meth m)"
  "flagged False tw m \<Longrightarrow> yields (\<lambda>_. True) (flagged False tw) (send_response_txn m)"
  unfolding send_request_txn_def send_response_txn_def
   apply (rule yields_bind, rule yields_bind, rule yields_bind, rule yields_known [where P = "flagged False tw"])
    apply (intro yields_rules; simp add: flagged_def)
   apply (intro yields_rules, assumption)
  apply (intro yields_rules; simp add: flagged_def)
  done

lemma parse_send_flags: "yields (flags opt tw) (flagged opt tw) (parse_send env (fresh_message i))"
  unfolding parse_send_def
  apply (rule fl.yields_use_then [OF check_flags])
   apply (rule yields_bind, rule yields_bind, rule yields_prod, rule yields_bind, rule yields_known [where P = "flagged False tw"])
    apply (unfold Let_def, intro yields_option yields_if yields_fail send_txn_flags; simp add: flagged_def fresh_defs)
   apply (intro yields_rules; simp add: flagged_def)
  apply (intro calms calm_steps)
  done

lemma parse_recv_flags: "yields (flags opt tw) (flagged opt tw) (parse_recv env (fresh_message i))"
  unfolding parse_recv_def
  apply (rule yields_known [where P = "\<lambda>m. \<not> m_timewait m"])
   apply (unfold recv_response_part_def Let_def, intro yields_rules; simp add: fresh_defs)
  apply (rule yields_known [where P = "\<lambda>m. \<not> m_timewait m"])
   apply (unfold recv_request_part_def, intro yields_rules; simp)
  apply (rule yields_bind)
  apply (rule fl.yields_use_then [OF set_optional_flags])
   apply (intro yields_rules; simp add: flagged_def)
  apply (intro calms calm_steps)
  done

lemma parse_pause_flags: "yields (flags opt tw) (flagged opt tw) (parse_pause env b (fresh_message i))"
  unfolding parse_pause_def
  apply (rule fl.yields_use_then [OF check_flags])
   apply (rule fl.yields_use_then [OF set_timewait_flags])
    apply (unfold Let_def, intro yields_rules; simp add: flagged_def fresh_defs)
   apply (intro whenM_timewait_calm calms calm_steps)+
  done

lemma parse_recvCmd_flags: "yields (flags opt tw) (flagged opt tw) (parse_recvCmd env (fresh_message i))"
  unfolding parse_recvCmd_def
  apply (rule yields_bind, rule fl.yields_use_then [OF set_optional_flags])
   apply (intro yields_rules; simp add: flagged_def fresh_defs)
  apply (intro calms calm_steps)
  done

lemma parse_sendCmd_flags: "yields (flags opt tw) (flagged opt tw) (parse_sendCmd env (fresh_message i))"
  unfolding parse_sendCmd_def
  apply (rule fl.yields_use_then [OF check_flags])
   apply (intro yields_rules; simp add: flagged_def fresh_defs)
  apply (intro add_peer_calm calms calm_steps)
  done

lemma parse_nop_flags: "yields (flags opt tw) (flagged opt tw) (thenM checkOptionalRecv (ret ((fresh_message i)\<lparr>m_type := MSG_TYPE_NOP\<rparr>)))"
  by (rule fl.yields_use_then [OF check_flags]) (intro yields_ret ca.along_ret; simp add: flagged_def fresh_defs)+

lemma parse_kind_flags: "yields (flags opt tw) (flagged opt tw) (parse_kind env elem (fresh_message i))"
  unfolding parse_kind_def
  by (intro parse_send_flags parse_recv_flags parse_pause_flags parse_recvCmd_flags parse_sendCmd_flags parse_nop_flags yields_if yields_fail)

text \<open>An optional message is followed by one that is received.\<close>

definition receives :: "('d, 'x) message_scheme \<Rightarrow> bool" where
  "receives m \<longleftrightarrow> m_type m = MSG_TYPE_RECV \<or> m_type m = MSG_TYPE_RECVCMD"

lemma check_fails: "last_recv_optional s \<Longrightarrow> thenM checkOptionalRecv k s \<noteq> Inr x"
  by (simp add: thenM_def bindM_def checkOptionalRecv_def get_loading_def fail_def)

lemma recv_receives: "yields (\<lambda>_. True) receives (parse_recv env m)"
  unfolding parse_recv_def
  apply (rule yields_known [where P = "\<lambda>m. m_type m = MSG_TYPE_RECV"])
   apply (unfold recv_response_part_def Let_def, intro yields_rules; simp)
  apply (rule yields_known [where P = "\<lambda>m. m_type m = MSG_TYPE_RECV"])
   apply (unfold recv_request_part_def, intro yields_rules; simp)
  apply (intro yields_rules; simp add: receives_def)
  done

lemma recvCmd_receives: "yields (\<lambda>_. True) receives (parse_recvCmd env m)"
  unfolding parse_recvCmd_def by (intro yields_rules; simp add: receives_def)

lemma parse_kind_receives: "parse_kind env elem m s = Inr (m', s') \<Longrightarrow> last_recv_optional s \<Longrightarrow> receives m'"
  unfolding parse_kind_def parse_send_def parse_pause_def parse_sendCmd_def
  by (auto simp: check_fails fail_def split: if_splits dest: yieldsD [OF recv_receives] yieldsD [OF recvCmd_receives])

section \<open>The messages of a scenario\<close>

definition scenario_inv :: "'d loading \<Rightarrow> bool" where
  "scenario_inv s \<longleftrightarrow>
     (\<forall>i < length (ld_messages s). one_of_kind (length (ld_transactions s)) i (ld_messages s ! i)) \<and>
     (\<forall>i < length (ld_init s). one_of_kind 0 i (ld_init s ! i) \<and> m_type (ld_init s ! i) = MSG_TYPE_NOP) \<and>
     (\<forall>n k. labelMap s n = Some k \<longrightarrow> 0 \<le> k \<and> k \<le> int (length (ld_messages s))) \<and>
     (\<forall>n k. initLabelMap s n = Some k \<longrightarrow> 0 \<le> k \<and> k \<le> int (length (ld_init s))) \<and>
     (\<forall>i. Suc i < length (ld_messages s) \<longrightarrow> \<not> m_timewait (ld_messages s ! i) \<and>
        (m_optional (ld_messages s ! i) \<noteq> OPTIONAL_FALSE \<longrightarrow> receives (ld_messages s ! Suc i))) \<and>
     (ld_messages s \<noteq> [] \<longrightarrow> flagged (last_recv_optional s) (found_timewait s) (last (ld_messages s)))"

lemma one_of_kind_mono: "one_of_kind N i m \<Longrightarrow> N \<le> N' \<Longrightarrow> one_of_kind N' i m"
  by (simp add: one_of_kind_def message_ok_def)

lemma flagged_mono: "flagged opt tw m \<Longrightarrow> (tw \<longrightarrow> tw') \<Longrightarrow> flagged opt tw' m"
  by (auto simp: flagged_def)

lemma calm_inv: "calm s s' \<Longrightarrow> scenario_inv s \<Longrightarrow> scenario_inv s'"
proof -
  assume c: "calm s s'" and inv: "scenario_inv s"
  then have eqs: "ld_messages s' = ld_messages s" "ld_init s' = ld_init s" "labelMap s' = labelMap s" "initLabelMap s' = initLabelMap s"
      "last_recv_optional s' = last_recv_optional s" and le: "length (ld_transactions s) \<le> length (ld_transactions s')"
      and tw: "found_timewait s \<longrightarrow> found_timewait s'" by (simp_all add: calm_def unmoved_def)
  show "scenario_inv s'"
    using inv one_of_kind_mono [OF _ le] flagged_mono [OF _ tw] unfolding scenario_inv_def eqs by blast
qed

lemma xp_inv: "scenario_inv (s\<lparr>xp := x\<rparr>) \<longleftrightarrow> scenario_inv s"
  unfolding scenario_inv_def by simp

interpretation iv: off_document "\<lambda>s s'. scenario_inv s \<longrightarrow> scenario_inv s'"
  by unfold_locales (simp_all add: xp_inv)

lemma calm_keeps: "along (keeping calm) m \<Longrightarrow> along (keeping (\<lambda>s s'. scenario_inv s \<longrightarrow> scenario_inv s')) m"
  by (erule along_weaken) (unfold keeping_def, blast intro: calm_inv)

lemma dialog_calm: "along (keeping calm) (parse_dialog m)"
  unfolding parse_dialog_def by (intro ca.along_change calms calm_steps; simp add: calm_def unmoved_def)

lemma same_kind_one: "same_kind m m' \<Longrightarrow> one_of_kind N i m \<Longrightarrow> one_of_kind N i m'"
  by (simp add: same_kind_def one_of_kind_def message_ok_def)

lemma same_kind_flagged: "same_kind m m' \<Longrightarrow> flagged opt tw m \<Longrightarrow> flagged opt tw m'"
  by (simp add: same_kind_def flagged_def)

text \<open>A message is added.\<close>

lemma add_message_inv:
  assumes inv: "scenario_inv s" and q: "unmoved s s'" and new: "one_of_kind (length (ld_transactions s')) (length (ld_messages s)) m"
    and fl: "flagged (last_recv_optional s') (found_timewait s') m" and tw: "\<not> found_timewait s"
    and r: "last_recv_optional s \<Longrightarrow> receives m"
  shows "scenario_inv (s'\<lparr>ld_messages := ld_messages s' @ [m]\<rparr>)"
proof -
  let ?ms = "ld_messages s @ [m]"
  have old: "ld_messages s' = ld_messages s" "ld_init s' = ld_init s" "labelMap s' = labelMap s" "initLabelMap s' = initLabelMap s"
    "length (ld_transactions s) \<le> length (ld_transactions s')" using q by (simp_all add: unmoved_def)
  have "one_of_kind (length (ld_transactions s')) i (?ms ! i)" if "i < length ?ms" for i
    using that new inv one_of_kind_mono [OF _ old(5)] by (cases "i < length (ld_messages s)") (auto simp: scenario_inv_def nth_append less_Suc_eq)
  moreover have "\<not> m_timewait (?ms ! i) \<and> (m_optional (?ms ! i) \<noteq> OPTIONAL_FALSE \<longrightarrow> receives (?ms ! Suc i))" if "Suc i < length ?ms" for i
  proof (cases "Suc i < length (ld_messages s)")
    case True
    then show ?thesis using inv by (simp add: scenario_inv_def nth_append)
  next
    case False
    then have i: "Suc i = length (ld_messages s)" and ne: "ld_messages s \<noteq> []" using that by auto
    then have "i = length (ld_messages s) - 1" "i < length (ld_messages s)" by simp_all
    then have "?ms ! i = last (ld_messages s)" "?ms ! Suc i = m" using i ne by (simp_all add: nth_append last_conv_nth)
    then show ?thesis using inv ne tw r by (auto simp: scenario_inv_def flagged_def)
  qed
  moreover have "0 \<le> k \<and> k \<le> int (length ?ms)" if "labelMap s n = Some k" for n k
    using that inv by (fastforce simp: scenario_inv_def)
  ultimately show ?thesis using inv fl unfolding scenario_inv_def by (simp add: old)
qed

abbreviation keeps_inv :: "('d, 'a) load \<Rightarrow> bool" where
  "keeps_inv m \<equiv> along (keeping (\<lambda>s s'. scenario_inv s \<longrightarrow> scenario_inv s')) m"

lemma parse_message_keeps: "keeps_inv (parse_message env elem)"
  unfolding along_def
proof (intro allI impI)
  fix s u s'
  assume run: "parse_message env elem s = Inr (u, s')"
  obtain m s1 m1 s2 m2 s3 where tw: "\<not> found_timewait s"
    and k: "parse_kind env elem (fresh_message (length (ld_messages s))) s = Inr (m, s1)"
    and d: "parse_dialog m s1 = Inr (m1, s2)" and c: "getCommonAttributes env m1 s2 = Inr (m2, s3)"
    and s': "s' = s3\<lparr>ld_messages := ld_messages s3 @ [m2]\<rparr>"
    using run by (auto simp: parse_message_def bindM_def get_loading_def fail_def change_def split: if_splits)
  have q1: "keeping unmoved s s1" by (rule alongD [OF parse_kind_quiet k])
  have "keeping calm s1 s3" using alongD [OF dialog_calm d] alongD [OF getCommonAttributes_calm c] by (rule ca.R_trans)
  then have c3: "calm s1 s3" and st: "same_stack s1 s3" by (simp_all add: keeping_def)
  have same: "same_kind m m2"
    using yieldsD [OF dialog_kind d] yieldsD [OF common_kind c] same_kind_trans by blast
  have q: "unmoved s s3" using q1 c3 qt.P_trans by (auto simp: keeping_def calm_def)
  have "one_of_kind (length (ld_transactions s3)) (length (ld_messages s)) m"
    using c3 by (intro yieldsD [OF parse_kind_ok k]) (simp add: few_def calm_def unmoved_def)
  moreover have "flagged (last_recv_optional s3) (found_timewait s3) m"
    using c3 by (intro yieldsD [OF parse_kind_flags k]) (simp add: flags_def calm_def unmoved_def)
  moreover have "last_recv_optional s \<Longrightarrow> receives m2"
    using parse_kind_receives [OF k] same by (simp add: receives_def same_kind_def)
  ultimately have "scenario_inv s \<longrightarrow> scenario_inv s'"
    using add_message_inv [OF _ q _ _ tw] same_kind_one [OF same] same_kind_flagged [OF same] s' by blast
  moreover have "same_stack s s'" using q1 st s' by (simp add: keeping_def same_stack_def)
  ultimately show "keeping (\<lambda>s s'. scenario_inv s \<longrightarrow> scenario_inv s') s s'" by (simp add: keeping_def)
qed

lemma add_label_keeps: "keeps_inv add_label"
proof -
  have "keeps_inv (change (\<lambda>s. s\<lparr>labelMap := (labelMap s)(n \<mapsto> int (length (ld_messages s)))\<rparr>))" for n
    by (rule iv.along_change) (simp add: scenario_inv_def)
  then show ?thesis unfolding add_label_def by (intro iv.along_get iv.along_rules calms [THEN calm_keeps])
qed

lemma init_label_keeps: "keeps_inv (change (\<lambda>s. s\<lparr>initLabelMap := (initLabelMap s)(n \<mapsto> int (length (ld_init s)))\<rparr>))"
  by (rule iv.along_change) (simp add: scenario_inv_def)

lemma add_init_inv:
  assumes "scenario_inv s" and "unmoved s s'" and "last_recv_optional s' = last_recv_optional s" and "one_of_kind 0 (length (ld_init s)) m"
    and "m_type m = MSG_TYPE_NOP"
  shows "scenario_inv (s'\<lparr>ld_init := ld_init s' @ [m]\<rparr>)"
proof -
  have "scenario_inv s'" using assms by (intro calm_inv [of s s']) (simp_all add: calm_def)
  moreover have "ld_init s' = ld_init s" using assms(2) by (simp add: unmoved_def)
  ultimately show ?thesis using assms(4,5) unfolding scenario_inv_def by (fastforce simp: nth_append less_Suc_eq)
qed

lemma init_nop_keeps: "keeps_inv (bindM get_loading (\<lambda>s. bindM (getCommonAttributes env ((fresh_message (length (ld_init s)))\<lparr>m_type := MSG_TYPE_NOP\<rparr>))
  (\<lambda>m. change (\<lambda>s. s\<lparr>ld_init := ld_init s @ [m]\<rparr>))))"
  unfolding along_def
proof (intro allI impI)
  fix s u s'
  assume "bindM get_loading (\<lambda>s. bindM (getCommonAttributes env ((fresh_message (length (ld_init s)))\<lparr>m_type := MSG_TYPE_NOP\<rparr>))
    (\<lambda>m. change (\<lambda>s. s\<lparr>ld_init := ld_init s @ [m]\<rparr>))) s = Inr (u, s')"
  then obtain m s1 where c: "getCommonAttributes env ((fresh_message (length (ld_init s)))\<lparr>m_type := MSG_TYPE_NOP\<rparr>) s = Inr (m, s1)"
    and s': "s' = s1\<lparr>ld_init := ld_init s1 @ [m]\<rparr>" by (auto simp: bindM_def get_loading_def change_def)
  have "m_type m = MSG_TYPE_NOP" using yieldsD [OF common_kind c] by (simp add: same_kind_def)
  moreover have "one_of_kind 0 (length (ld_init s)) m"
    by (rule same_kind_one [OF yieldsD [OF common_kind c]]) (simp_all add: kind_defs)
  ultimately show "keeping (\<lambda>s s'. scenario_inv s \<longrightarrow> scenario_inv s') s s'"
    using alongD [OF getCommonAttributes_calm c] add_init_inv [of s s1 m] s' by (simp add: keeping_def same_stack_def calm_def)
qed

lemma parse_init_keeps: "keeps_inv (parse_init_element env elem)"
  unfolding parse_init_element_def
  by (intro init_nop_keeps init_label_keeps iv.along_get iv.along_rules calms [THEN calm_keeps])

lemma find_all_calm: "along (keeping calm) (find_all env p ns)"
  by (induction ns) (simp_all add: ca.along_ret ca.along_then on_vars_calm)

lemma reference_all_calm: "along (keeping calm) (reference_all env ns)"
  by (induction ns) (simp_all add: ca.along_ret, intro calms calm_steps)

lemma set_default_calm: "along (keeping calm) (set_default_message env i msg)"
  unfolding set_default_message_def by (intro calm_steps ca.along_change) (simp add: calm_def unmoved_def)

lemma on_stats_res_calm: "along (keeping calm) (on_stats_res f)"
  by (auto simp: along_def on_stats_res_def keeping_def same_stack_def calm_def unmoved_def)

lemma parse_element_keeps: "keeps_inv (parse_element env elem)"
  unfolding parse_element_def
  by (intro add_label_keeps parse_message_keeps iv.along_elements parse_init_keeps on_stats_res_calm [THEN calm_keeps]
      find_all_calm [THEN calm_keeps] reference_all_calm [THEN calm_keeps] set_default_calm [THEN calm_keeps]
      calms [THEN calm_keeps] iv.along_rules)

section \<open>A scenario that was loaded\<close>

text \<open>A place in a list of messages: one of its messages, its end, or -1 for none.\<close>

definition place :: "'d message list \<Rightarrow> int \<Rightarrow> bool" where
  "place ms i \<longleftrightarrow> - 1 \<le> i \<and> i \<le> int (length ms)"

definition loaded_message :: "'d message list \<Rightarrow> nat \<Rightarrow> nat \<Rightarrow> bool" where
  "loaded_message ms N i \<longleftrightarrow>
     m_index (ms ! i) = int i \<and> place ms (m_next (ms ! i)) \<and> place ms (on_timeout (ms ! i)) \<and>
     start_txn (ms ! i) \<le> N \<and> ack_txn (ms ! i) \<le> N \<and> response_txn (ms ! i) \<le> N \<and>
     (m_type (ms ! i) = MSG_TYPE_SEND \<longleftrightarrow> send_scheme (ms ! i) \<noteq> None) \<and>
     (m_type (ms ! i) = MSG_TYPE_SENDCMD \<longleftrightarrow> M_sendCmdData (ms ! i) \<noteq> None) \<and>
     (m_type (ms ! i) = MSG_TYPE_PAUSE \<longleftrightarrow> pause_distribution (ms ! i) \<or> pause_variable (ms ! i) \<noteq> - 1) \<and>
     (advance_state (ms ! i) \<or> m_optional (ms ! i) \<noteq> OPTIONAL_FALSE) \<and> (m_optional (ms ! i) \<noteq> OPTIONAL_FALSE \<longrightarrow> receives (ms ! i)) \<and>
     (Suc i < length ms \<longrightarrow> \<not> m_timewait (ms ! i) \<and> (m_optional (ms ! i) \<noteq> OPTIONAL_FALSE \<longrightarrow> receives (ms ! Suc i)))"

definition loaded_init :: "'d message list \<Rightarrow> nat \<Rightarrow> bool" where
  "loaded_init ms i \<longleftrightarrow>
     m_index (ms ! i) = int i \<and> m_type (ms ! i) = MSG_TYPE_NOP \<and> place ms (m_next (ms ! i)) \<and> place ms (on_timeout (ms ! i))"

definition scenario_ok :: "'d scenario \<Rightarrow> bool" where
  "scenario_ok sc \<longleftrightarrow>
     messages sc \<noteq> [] \<and>
     (\<forall>i < length (messages sc). loaded_message (messages sc) (length (txn_is_invite sc)) i) \<and>
     (\<forall>i < length (initmessages sc). loaded_init (initmessages sc) i) \<and>
     place (messages sc) (unexpected_jump sc)"

text \<open>Resolving labels changes where a message leads to, and nothing else.\<close>

definition resolved :: "nat \<Rightarrow> 'd labelled \<Rightarrow> 'd message \<Rightarrow> bool" where
  "resolved n m m' \<longleftrightarrow>
     (\<exists>k t. - 1 \<le> k \<and> k \<le> int n \<and> - 1 \<le> t \<and> t \<le> int n \<and> m' = message.truncate (m\<lparr>m_next := k, on_timeout := t\<rparr>))"

lemma resolve_range:
  "resolve labels l i = Inr k \<Longrightarrow> (\<And>nm j. labels nm = Some j \<Longrightarrow> 0 \<le> j \<and> j \<le> int n) \<Longrightarrow> i = - 1 \<Longrightarrow> - 1 \<le> k \<and> k \<le> int n"
  by (fastforce simp: resolve_def split: option.splits)

lemma apply_labels_resolved:
  assumes "apply_labels ms labels = Inr ms'" and "\<And>nm j. labels nm = Some j \<Longrightarrow> 0 \<le> j \<and> j \<le> int n"
    and "\<forall>m \<in> set ms. m_next m = - 1 \<and> on_timeout m = - 1"
  shows "list_all2 (resolved n) ms ms'"
  using assms(1,3)
proof (induction ms arbitrary: ms')
  case (Cons m ms)
  then obtain k t rest where k: "resolve labels (nextLabel m) (m_next m) = Inr k" and t: "resolve labels (onTimeoutLabel m) (on_timeout m) = Inr t"
    and r: "apply_labels ms labels = Inr rest" and ms': "ms' = message.truncate (m\<lparr>m_next := k, on_timeout := t\<rparr>) # rest" by auto
  have "m_next m = - 1" "on_timeout m = - 1" using Cons.prems(2) by simp_all
  then have "- 1 \<le> k \<and> k \<le> int n" "- 1 \<le> t \<and> t \<le> int n" using resolve_range [OF k assms(2)] resolve_range [OF t assms(2)] by simp_all
  then have "resolved n m (message.truncate (m\<lparr>m_next := k, on_timeout := t\<rparr>))" unfolding resolved_def by blast
  then show ?case using Cons.IH [OF r] Cons.prems(2) by (simp add: ms')
qed simp

lemma truncate_fields [simp]:
  "m_index (message.truncate m) = m_index m" "m_type (message.truncate m) = m_type m" "send_scheme (message.truncate m) = send_scheme m"
  "M_sendCmdData (message.truncate m) = M_sendCmdData m" "pause_distribution (message.truncate m) = pause_distribution m"
  "pause_variable (message.truncate m) = pause_variable m" "m_timewait (message.truncate m) = m_timewait m"
  "m_optional (message.truncate m) = m_optional m" "advance_state (message.truncate m) = advance_state m"
  "start_txn (message.truncate m) = start_txn m" "ack_txn (message.truncate m) = ack_txn m" "response_txn (message.truncate m) = response_txn m"
  "m_next (message.truncate m) = m_next m" "on_timeout (message.truncate m) = on_timeout m"
  by (simp_all add: message.defs)

lemma resolved_ok:
  "resolved n m m' \<Longrightarrow> one_of_kind N i m \<Longrightarrow>
     m_index m' = int i \<and> - 1 \<le> m_next m' \<and> m_next m' \<le> int n \<and> - 1 \<le> on_timeout m' \<and> on_timeout m' \<le> int n \<and>
     start_txn m' \<le> N \<and> ack_txn m' \<le> N \<and> response_txn m' \<le> N \<and>
     (m_type m' = MSG_TYPE_SEND \<longleftrightarrow> send_scheme m' \<noteq> None) \<and> (m_type m' = MSG_TYPE_SENDCMD \<longleftrightarrow> M_sendCmdData m' \<noteq> None) \<and>
     (m_type m' = MSG_TYPE_PAUSE \<longleftrightarrow> pause_distribution m' \<or> pause_variable m' \<noteq> - 1) \<and>
     (advance_state m' \<or> m_optional m' \<noteq> OPTIONAL_FALSE) \<and> (m_optional m' \<noteq> OPTIONAL_FALSE \<longrightarrow> receives m')"
  unfolding resolved_def one_of_kind_def message_ok_def receives_def by (elim exE conjE) simp

lemma resolved_kind:
  "resolved n m m' \<Longrightarrow> m_type m' = m_type m \<and> m_timewait m' = m_timewait m \<and> m_optional m' = m_optional m \<and> receives m' = receives m"
  unfolding resolved_def receives_def by (elim exE conjE) simp

lemma message_part:
  assumes inv: "scenario_inv s" and res: "list_all2 (resolved (length (ld_messages s))) (ld_messages s) ms" and i: "i < length ms"
  shows "loaded_message ms (length (ld_transactions s)) i"
proof -
  have len: "length ms = length (ld_messages s)" using res by (auto dest: list_all2_lengthD)
  have r: "resolved (length (ld_messages s)) (ld_messages s ! j) (ms ! j)" if "j < length ms" for j
    using list_all2_nthD [OF res] that len by simp
  have one: "one_of_kind (length (ld_transactions s)) i (ld_messages s ! i)" using inv i len by (simp add: scenario_inv_def)
  have "Suc i < length ms \<longrightarrow> \<not> m_timewait (ms ! i) \<and> (m_optional (ms ! i) \<noteq> OPTIONAL_FALSE \<longrightarrow> receives (ms ! Suc i))"
    using inv resolved_kind [OF r [OF i]] resolved_kind [OF r [of "Suc i"]] len by (simp add: scenario_inv_def)
  then show ?thesis using resolved_ok [OF r [OF i] one] unfolding loaded_message_def place_def len by blast
qed

lemma init_part:
  assumes inv: "scenario_inv s" and res: "list_all2 (resolved (length (ld_init s))) (ld_init s) ms" and i: "i < length ms"
  shows "loaded_init ms i"
proof -
  have len: "length ms = length (ld_init s)" using res by (auto dest: list_all2_lengthD)
  have r: "resolved (length (ld_init s)) (ld_init s ! i) (ms ! i)" using list_all2_nthD [OF res] i len by simp
  have "one_of_kind 0 i (ld_init s ! i)" "m_type (ld_init s ! i) = MSG_TYPE_NOP" using inv i len by (simp_all add: scenario_inv_def)
  then show ?thesis using resolved_ok [OF r, of 0 i] resolved_kind [OF r] by (simp add: loaded_init_def place_def len)
qed

lemma labels_unset: "\<forall>i < length ms. one_of_kind N i (ms ! i) \<Longrightarrow> \<forall>m \<in> set ms. m_next m = - 1 \<and> on_timeout m = - 1"
proof -
  have "one_of_kind N i m \<Longrightarrow> m_next m = - 1 \<and> on_timeout m = - 1" for i m by (simp add: one_of_kind_def message_ok_def)
  then show "\<forall>i < length ms. one_of_kind N i (ms ! i) \<Longrightarrow> \<forall>m \<in> set ms. m_next m = - 1 \<and> on_timeout m = - 1" by (metis in_set_conv_nth)
qed

lemma finish_ok:
  assumes run: "finish_loading env s0 = Inr (sc, s1)" and inv: "scenario_inv s0"
  shows "scenario_ok sc"
proof -
  define s where "s = s0\<lparr>xp := xp_close_element (xp s0)\<rparr>"
  obtain ms ini where ms: "apply_labels (ld_messages s) (labelMap s) = Inr ms" and ini: "apply_labels (ld_init s) (initLabelMap s) = Inr ini"
    and ne: "ms \<noteq> []" and sc: "messages sc = ms" "initmessages sc = ini" "txn_is_invite sc = map isInvite (ld_transactions s)"
      "unexpected_jump sc = (case labelMap s ''_unexp.main'' of Some i \<Rightarrow> i | None \<Rightarrow> - 1)"
    using run unfolding finish_loading_def s_def
    by (auto simp: thenM_def bindM_def close_element_def get_loading_def fail_def ret_def lift_def split: if_splits)
  have inv: "scenario_inv s" using inv by (simp add: s_def xp_inv)
  let ?n = "length (ld_messages s)" and ?N = "length (ld_transactions s)"
  have labels: "\<And>nm j. labelMap s nm = Some j \<Longrightarrow> 0 \<le> j \<and> j \<le> int ?n"
    "\<And>nm j. initLabelMap s nm = Some j \<Longrightarrow> 0 \<le> j \<and> j \<le> int (length (ld_init s))" using inv by (simp_all add: scenario_inv_def)
  have "\<forall>i < ?n. one_of_kind ?N i (ld_messages s ! i)" "\<forall>i < length (ld_init s). one_of_kind 0 i (ld_init s ! i)"
    using inv by (simp_all add: scenario_inv_def)
  note unset = this [THEN labels_unset]
  have res: "list_all2 (resolved ?n) (ld_messages s) ms" by (rule apply_labels_resolved [OF ms _ unset(1)]) (rule labels(1))
  have ires: "list_all2 (resolved (length (ld_init s))) (ld_init s) ini" by (rule apply_labels_resolved [OF ini _ unset(2)]) (rule labels(2))
  have len: "length ms = ?n" using res by (auto dest: list_all2_lengthD)
  have "place ms (unexpected_jump sc)" using labels(1) by (fastforce simp: sc place_def len split: option.splits)
  then show ?thesis using message_part [OF inv res] init_part [OF inv ires] unfolding scenario_ok_def by (simp add: sc ne)
qed

lemma load_ok:
  assumes "load_scenario env x h = Inr (sc, s)"
  shows "scenario_ok sc"
proof -
  obtain s0 e s1 u s2 where s0: "start_loading env x h = Inr s0" and o: "open_element 0 s0 = Inr (e, s1)"
    and r: "each_element (parse_element env) s1 = Inr (u, s2)" and f: "finish_loading env s2 = Inr (sc, s)"
    using assms by (auto simp: load_scenario_def bindM_def thenM_def fail_def split: option.splits if_splits)
  have "scenario_inv s0" using s0 by (auto simp: start_loading_def scenario_inv_def)
  then have "scenario_inv s1" using iv.open_cases(1) [OF o] by simp
  then have "scenario_inv s2" using alongD [OF iv.along_elements [OF parse_element_keeps] r] by (simp add: keeping_def)
  then show ?thesis by (rule finish_ok [OF f])
qed

end
