(* ===== verification/Scenario_Run.thy ===== *)
theory Scenario_Run
  imports Scenario_Correct Call_Correct
begin

text \<open>
  Loading a scenario and running calls on it: a scenario that loads is one a call can run, and the steps of the call stay in it.
\<close>

section \<open>A concrete scenario\<close>

definition small_load_env :: "int load_env" where
  "small_load_env = \<lparr>ld_dbl = int_doubles, ld_float = (\<lambda>d. d),
     ld_msg = \<lparr>keyword_map = Map.empty, default_file = [], inFiles = [], generic = Map.empty, auth_username = None, service = ''service'',
       auth_password = [], msg_scenario = None\<rparr>,
     ld_depth = 2, ld_global = 0, ld_user = 1, default_names = [], ld_regcomp = (\<lambda>r. True), ld_peer_addr = (\<lambda>p. False),
     ld_media = (\<lambda>n v. True), ld_long_pause = (\<lambda>d. False), ld_extended = False, ld_gsl = False, ld_with_lua = False, ld_pcap = False,
     ld_stats = new_CStat (\<lambda>_. 0) 0, ld_names = (\<lambda>a. [])\<rparr>"

definition small_store :: "int store" where
  "small_store = (case bindE (new_AllocVariableTable 0 None []) (\<lambda>(g, h). new_AllocVariableTable 0 (Some g) h) of Inr (p, h) \<Rightarrow> h | Inl _ \<Rightarrow> [])"

abbreviation elem :: "string \<Rightarrow> (string \<times> string) list \<Rightarrow> xml_node list \<Rightarrow> xml_node" where
  "elem n as cs \<equiv> Node node_element n [] as cs"

definition small_doc :: xp_state where
  "small_doc = \<lparr>xp_doc = [], xp_stack = [Node node_document [] [] [] [elem ''scenario'' [(''name'', ''small'')]
     [elem ''send'' [(''retrans'', ''500'')] [Node node_cdata [] (LF # ''OPTIONS sip:a SIP/2.0'' @ [LF]) [] []],
      elem ''label'' [(''id'', ''again'')] [],
      elem ''recv'' [(''response'', ''100''), (''optional'', ''true''), (''next'', ''again'')] [],
      elem ''recv'' [(''response'', ''200'')] [],
      elem ''timewait'' [(''milliseconds'', ''4000'')] []]]],
     xp_value_buffer = [], xp_cdata_buffer = [], xp_elem_name = [], xp_invalid_line = 0, xp_error = []\<rparr>"

section \<open>The scenario is one a call can run\<close>


lemma small_loads:
  "case load_scenario small_load_env small_doc small_store of Inr (sc, s) \<Rightarrow> map m_next (messages sc) = [- 1, 1, - 1, - 1] | Inl e \<Rightarrow> False"
  by code_simp


section \<open>The elements of the document\<close>

lemma loop_reads_all:
  assumes "\<And>e. along same_stack (body e)" and "element_loop n body (int i) s = Inr (as, s')"
  shows "length as = length (elements (xp s)) - i"
  using assms(2)
proof (induction n arbitrary: i s as)
  case (Suc n)
  obtain e s1 where o: "open_element (int i) s = Inr (e, s1)" by (cases "xp_open_element (int i) (xp s)") (auto simp: open_element_def)
  show ?case
  proof (cases e)
    case None
    then have "length (elements (xp s)) \<le> i"
      using o by (auto simp: open_element_def xp_open_element_def open_nth_spec elements_def below_def Let_def split: list.splits prod.splits if_splits)
    then show ?thesis using Suc.prems o None by (simp add: bindM_def ret_def)
  next
    case (Some k)
    then have i: "i < length (elements (xp s))" using open_beyond [of s i] o by (cases "i < length (elements (xp s))") auto
    obtain d where d: "xp_stack (xp s1) = d # xp_stack (xp s)" "xp_stack (xp s) \<noteq> []" using doc.open_cases(3) [OF o Some] by blast
    obtain a s2 as' where b: "body k s1 = Inr (a, s2)" and as: "as = a # as'"
      and r: "element_loop n body (int (Suc i)) (s2\<lparr>xp := xp_close_element (xp s2)\<rparr>) = Inr (as', s')"
      using Suc.prems o Some by (auto simp: bindM_def thenM_def ret_def close_element_def add.commute)
    have "xp_stack (xp s2) = d # xp_stack (xp s)" using alongD [OF assms(1) b] d by (simp add: same_stack_def)
    then have "elements (xp_close_element (xp s2)) = elements (xp s)" using d by (simp add: xp_close_element_def elements_def below_def)
    then show ?thesis using Suc.IH [OF r] i as by simp
  qed
qed (simp add: fail_def)

lemma parse_element_stack: "along same_stack (parse_element env e)"
  by (rule along_weaken [OF parse_element_keeps]) (simp add: keeping_def)

text \<open>
  C40: the loop over the elements of a scenario ends with the last one: it reads every element once, and with more turns than the bound it is
  given it does the same.
\<close>

theorem elements_all_read:
  "(each_element (parse_element env) s = Inr (us, s') \<longrightarrow>
      length us = length (filter (\<lambda>c. xtype c = node_element) (below (xp s)))) \<and>
   (n > length (below (xp s)) \<longrightarrow> element_loop n (parse_element env) 0 s = each_element (parse_element env) s)"
proof (intro conjI impI)
  assume "each_element (parse_element env) s = Inr (us, s')"
  then have "element_loop (Suc (length (below (xp s)))) (parse_element env) (int 0) s = Inr (us, s')" by (simp add: each_element_def)
  from loop_reads_all [OF parse_element_stack this]
  show "length us = length (filter (\<lambda>c. xtype c = node_element) (below (xp s)))" by (simp add: elements_def)
next
  assume "n > length (below (xp s))"
  moreover have "length (elements (xp s)) \<le> length (below (xp s))" by (simp add: elements_def)
  ultimately have "element_loop n (parse_element env) (int 0) s = element_loop (Suc (length (below (xp s)))) (parse_element env) (int 0) s"
    by (intro loop_turns parse_element_stack) simp_all
  then show "element_loop n (parse_element env) 0 s = each_element (parse_element env) s" by (simp add: each_element_def del: element_loop.simps)
qed

lemma small_elements:
  "\<exists>s us s'. each_element (parse_element small_load_env) s = Inr (us, s') \<and> map xname (below (xp s)) = [''send'', ''label'', ''recv'', ''recv'', ''timewait'']
     \<and> list_all (\<lambda>c. xtype c = node_element) (below (xp s))"
proof -
  obtain s0 e s1 us s2 where s0: "start_loading small_load_env small_doc small_store = Inr s0" and o: "open_element 0 s0 = Inr (e, s1)"
    and r: "each_element (parse_element small_load_env) s1 = Inr (us, s2)"
    using small_loads
    by (cases "load_scenario small_load_env small_doc small_store") (auto simp: load_scenario_def bindM_def thenM_def fail_def split: option.splits if_splits)
  have "xp s0 = small_doc" using s0 by (auto simp: start_loading_def)
  then have "map xname (below (xp s1)) = [''send'', ''label'', ''recv'', ''recv'', ''timewait''] \<and> list_all (\<lambda>c. xtype c = node_element) (below (xp s1))"
    using o by (auto simp: open_element_def xp_open_element_def small_doc_def below_def)
  then show ?thesis using r by (intro exI [of _ s1] exI [of _ us] exI [of _ s2]) simp
qed

theorem elements_all_read_witness:
  "\<exists>s us s'. each_element (parse_element small_load_env) s = Inr (us, s') \<and> length us = 5 \<and>
     element_loop 100 (parse_element small_load_env) 0 s = Inr (us, s')"
proof -
  obtain s us s' where r: "each_element (parse_element small_load_env) s = Inr (us, s')"
    and n: "map xname (below (xp s)) = [''send'', ''label'', ''recv'', ''recv'', ''timewait'']" and e: "list_all (\<lambda>c. xtype c = node_element) (below (xp s))"
    using small_elements by (elim exE conjE)
  have five: "length (below (xp s)) = 5" using arg_cong [OF n, of length] by simp
  have "filter (\<lambda>c. xtype c = node_element) (below (xp s)) = below (xp s)" using e by (simp add: list_all_iff)
  then show ?thesis using elements_all_read [of small_load_env s us s' 100] r five by auto
qed

section \<open>A call on a loaded scenario\<close>

lemma ok_places:
  assumes "scenario_ok (call_scenario env)" and "i < length (msgs_of env c)"
  shows "place (msgs_of env c) (m_next (msgs_of env c ! i))" "place (msgs_of env c) (on_timeout (msgs_of env c ! i))"
  using assms by (auto simp: scenario_ok_def msgs_of_def loaded_message_def loaded_init_def)

lemma ask_keeps: "ask f w = Inr (a, w') \<Longrightarrow> this w' = this w"
  by (auto simp: ask_def)

lemma branch_keeps: "branch_taken env m w = Inr (b, w') \<Longrightarrow> this w' = this w \<and> (b \<longrightarrow> m_next m \<ge> 0)"
  by (auto simp: branch_taken_def bindM_def ret_def var_is_set_def read_var_def with_call_def get_call_def lift_def
      split: if_splits option.splits prod.splits dest: ask_keeps)

lemma delete_gone: "delete_this env w = Inr (u, w') \<Longrightarrow> this w' = None"
  by (auto simp: delete_this_def thenM_def bindM_def with_call_def get_call_def count_value_def emit_def forget_this_def split: option.splits)

lemma dead_calls_gone: "dead_calls ids r i b1 b2 w = Inr (u, w') \<Longrightarrow> this w' = this w"
  by (induction ids arbitrary: w) (auto simp: ret_def thenM_def bindM_def emit_def)

lemma delete_leaving_gone: "delete_leaving env r b1 b2 w = Inr (u, w') \<Longrightarrow> this w' = None"
  by (auto simp: delete_leaving_def thenM_def bindM_def with_call_def get_call_def emit_def split: option.splits dest!: delete_gone dead_calls_gone)

lemma terminate_gone: "terminate env r w = Inr (u, w') \<Longrightarrow> this w' = None"
  unfolding terminate_def Let_def thenM_def bindM_def with_call_def
  by (auto split: option.splits if_splits dest!: delete_leaving_gone)

text \<open>
  C5: the step of a call to its next message stays in a scenario that was loaded. A call that is at one of its messages goes on at one of
  them, whether it takes a branch or not, or ends; past the last message it stays only while a command it started is running. No access
  is outside the scenario.
\<close>

theorem next_message_in_scenario:
  assumes "load_scenario lenv x h = Inr (sc, s)" and "call_scenario env = sc"
    and "this w = Some c" and "0 \<le> msg_index c" and "msg_index c < int (length (msgs_of env c))"
    and "next_message env w = Inr (goes_on, w')"
  shows "if goes_on then \<exists>c'. this w' = Some c' \<and> msgs_of env c' = msgs_of env c \<and> 0 \<le> msg_index c' \<and>
           (msg_index c' < int (length (msgs_of env c)) \<or> msg_index c' = int (length (msgs_of env c)) \<and> verify_pending c' \<noteq> 0)
         else this w' = None"
proof -
  let ?n = "length (msgs_of env c)"
  have ok: "scenario_ok (call_scenario env)" using load_ok [OF assms(1)] assms(2) by simp
  obtain m where m: "m = msgs_of env c ! nat (msg_index c)" by simp
  have place: "place (msgs_of env c) (m_next m)" using ok_places(1) [OF ok, of "nat (msg_index c)" c] assms(4,5) m by simp
  obtain i w1 where i: "next_index env w = Inr (i, w1)" using assms(6) by (auto simp: next_message_def bindM_def)
  then obtain b where b: "branch_taken env m w = Inr (b, w1)" and ib: "i = (if b then m_next m else msg_index c + 1)"
    using assms(3-5) by (auto simp: next_index_def with_call_def get_call_def bindM_def nth_message_def ret_def m)
  have w1: "this w1 = Some c" and range: "0 \<le> i" "i \<le> int ?n"
    using branch_keeps [OF b] ib assms(3-5) place by (auto simp: place_def split: if_splits)
  define c1 where "c1 = c\<lparr>msg_index := i, recv_timeout := 0\<rparr>"
  define w2 where "w2 = w1\<lparr>this := Some c1\<rparr>"
  have run: "next_message env w = (if pastLastMessage env c1 then
         if verify_pending c1 \<noteq> 0 then
           thenM (set_call (\<lambda>c. c\<lparr>next_retrans := 0, rtpstream_wait_check := 0\<rparr>)) (thenM setPaused_call (ret True)) w2
         else thenM (terminate env E_CALL_SUCCESSFULLY_ENDED) (ret False) w2
       else ret True w2)"
    using i w1 by (simp add: next_message_def bindM_def thenM_def set_call_def with_call_def get_call_def c1_def w2_def)
  have same: "msgs_of env c1 = msgs_of env c" "msg_index c1 = i" "verify_pending c1 = verify_pending c" by (simp_all add: msgs_of_def c1_def)
  have gone: "goes_on = False \<and> this w' = None" if "thenM (terminate env E_CALL_SUCCESSFULLY_ENDED) (ret False) w2 = Inr (goes_on, w')"
    using that terminate_gone by (fastforce simp: thenM_def bindM_def ret_def)
  have stays: "goes_on = True \<and> (\<exists>c'. this w' = Some c' \<and> msgs_of env c' = msgs_of env c \<and> msg_index c' = i \<and> verify_pending c' = verify_pending c)"
    if "\<not> pastLastMessage env c1 \<or> verify_pending c1 \<noteq> 0"
    using assms(6) that
    by (auto simp: run w2_def c1_def msgs_of_def ret_def thenM_def bindM_def set_call_def with_call_def get_call_def setPaused_call_def
        simp del: bindE_eq_Inr split: if_splits)
  have past: "pastLastMessage env c1 \<longleftrightarrow> i \<ge> int ?n" by (simp add: pastLastMessage_def same)
  show ?thesis
  proof (cases "pastLastMessage env c1 \<and> verify_pending c1 = 0")
    case True
    then show ?thesis using gone assms(6) by (simp add: run)
  next
    case False
    then obtain c' where "goes_on" "this w' = Some c'" "msgs_of env c' = msgs_of env c" "msg_index c' = i" "verify_pending c' = verify_pending c"
      using stays by blast
    then show ?thesis using False range past same(3) by (cases "i \<ge> int ?n") simp_all
  qed
qed

theorem next_message_in_scenario_witness:
  "\<exists>sc s w' c'. load_scenario small_load_env small_doc small_store = Inr (sc, s) \<and>
     next_message (plain_env sc 0) (plain_world (plain_env sc 0)) = Inr (True, w') \<and> this w' = Some c' \<and> msg_index c' = 1"
proof -
  obtain sc s where l: "load_scenario small_load_env small_doc small_store = Inr (sc, s)" and n: "map m_next (messages sc) = [- 1, 1, - 1, - 1]"
    using small_loads by (cases "load_scenario small_load_env small_doc small_store") auto
  let ?env = "plain_env sc 0" and ?w = "plain_world (plain_env sc 0)"
  obtain c where c: "this ?w = Some c" "msg_index c = 0" "msgs_of ?env c = messages sc"
    by (simp add: plain_world_def plain_env_def init_call_def msgs_of_def)
  have len: "length (messages sc) = 4" using arg_cong [OF n, of length] by simp
  have "m_next (messages sc ! 0) = - 1" using arg_cong [OF n, of hd] len by (cases "messages sc") simp_all
  then have "branch_taken ?env (messages sc ! 0) ?w = Inr (False, ?w)" by (simp add: branch_taken_def ret_def)
  then have run: "next_message ?env ?w = Inr (True, ?w\<lparr>this := Some (c\<lparr>msg_index := 1, recv_timeout := 0\<rparr>)\<rparr>)"
    using c len by (simp add: next_message_def next_index_def bindM_def thenM_def set_call_def with_call_def get_call_def nth_message_def ret_def
        pastLastMessage_def msgs_of_def del: bindE_eq_Inr)
  have env: "call_scenario ?env = sc" by (simp add: plain_env_def)
  have range: "0 \<le> msg_index c" "msg_index c < int (length (msgs_of ?env c))" using c len by simp_all
  have "\<exists>c'. this (?w\<lparr>this := Some (c\<lparr>msg_index := 1, recv_timeout := 0\<rparr>)\<rparr>) = Some c'"
    using next_message_in_scenario [OF l env c(1) range run] by (simp only: if_True) blast
  then show ?thesis using l run by auto
qed

end
