(* ===== verification/Scenario_Mode.thy ===== *)
theory Scenario_Mode
  imports Scenario_Run
begin

text \<open>
  What a scenario makes of the program: whether it starts calls or waits for them, its part in third party call control
  (\<^verbatim>\<open>computeSippMode\<close>), whether a message can begin one of its calls (\<^verbatim>\<open>startsWith\<close>), and the addresses of the peers.
\<close>

section \<open>The mode of the program\<close>

datatype sipp_mode = MODE_CLIENT | MODE_SERVER | MODE_MIXED

datatype third_party_mode =
    MODE_3PCC_NONE | MODE_3PCC_CONTROLLER_A | MODE_3PCC_CONTROLLER_B | MODE_3PCC_A_PASSIVE | MODE_MASTER | MODE_MASTER_PASSIVE | MODE_SLAVE

text \<open>A mode that is not known yet is \<open>None\<close>.\<close>

record modes =
  creationMode :: "sipp_mode option"
  sendMode :: "sipp_mode option"
  thirdPartyMode :: third_party_mode
  isRecvCmdFound :: bool
  isSendCmdFound :: bool

text \<open>The options that are read: third party call control, extended or not, and whether there is a name of a master or of a slave.\<close>

record mode_options =
  twinSippMode :: bool
  extendedTwin :: bool
  master_name :: bool
  slave_number :: bool

definition or_else :: "'a option \<Rightarrow> 'a \<Rightarrow> 'a option" where
  "or_else x a = (case x of None \<Rightarrow> Some a | Some b \<Rightarrow> Some b)"

definition send_cmd_mode :: "mode_options \<Rightarrow> modes \<Rightarrow> modes res" where
  "send_cmd_mode opts s =
     (let t = (if creationMode s = Some MODE_SERVER then
                 if twinSippMode opts then MODE_3PCC_A_PASSIVE
                 else if extendedTwin opts then MODE_MASTER_PASSIVE else thirdPartyMode s
               else if twinSippMode opts then MODE_3PCC_CONTROLLER_A
               else if extendedTwin opts then MODE_MASTER else thirdPartyMode s)
      in if (t = MODE_MASTER_PASSIVE \<or> t = MODE_MASTER) \<and> \<not> master_name opts
         then Inl (ERROR ''Inconsistency between command line and scenario: master scenario but -master/-primary option not set'')
         else if \<not> twinSippMode opts \<and> \<not> extendedTwin opts
         then Inl (ERROR ''sendCmd message found in scenario but no twin sipp address has been passed!'')
         else Inr (s\<lparr>thirdPartyMode := t\<rparr>))"

definition recv_cmd_mode :: "mode_options \<Rightarrow> modes \<Rightarrow> modes res" where
  "recv_cmd_mode opts s =
     (if twinSippMode opts then Inr (s\<lparr>thirdPartyMode := MODE_3PCC_CONTROLLER_B\<rparr>)
      else if extendedTwin opts then
        if \<not> slave_number opts
        then Inl (ERROR ''Inconsistency between command line and scenario: slave scenario but -slave/-secondary option not set'')
        else Inr (s\<lparr>thirdPartyMode := MODE_SLAVE\<rparr>)
      else Inl (ERROR ''recvCmd message found in scenario but no twin sipp address has been passed!''))"

definition mode_step :: "mode_options \<Rightarrow> 'd message \<Rightarrow> modes \<Rightarrow> modes res" where
  "mode_step opts m s =
     (case m_type m of
        MSG_TYPE_PAUSE \<Rightarrow> Inr s
      | MSG_TYPE_NOP \<Rightarrow> Inr s
      | MSG_TYPE_SEND \<Rightarrow> Inr (s\<lparr>sendMode := or_else (sendMode s) MODE_CLIENT, creationMode := or_else (creationMode s) MODE_CLIENT\<rparr>)
      | MSG_TYPE_RECV \<Rightarrow> Inr (s\<lparr>sendMode := or_else (sendMode s) MODE_SERVER, creationMode := or_else (creationMode s) MODE_SERVER\<rparr>)
      | MSG_TYPE_SENDCMD \<Rightarrow>
          let s1 = s\<lparr>isSendCmdFound := True, creationMode := or_else (creationMode s) MODE_CLIENT\<rparr>
          in if isRecvCmdFound s then Inr s1 else send_cmd_mode opts s1
      | MSG_TYPE_RECVCMD \<Rightarrow>
          let s1 = s\<lparr>creationMode := or_else (creationMode s) MODE_SERVER, isRecvCmdFound := True\<rparr>
          in if isSendCmdFound s then Inr s1 else recv_cmd_mode opts s1)"

fun mode_loop :: "mode_options \<Rightarrow> 'd message list \<Rightarrow> modes \<Rightarrow> modes res" where
  "mode_loop opts [] s = Inr s"
| "mode_loop opts (m # ms) s = bindE (mode_step opts m s) (mode_loop opts ms)"

definition computeSippMode :: "mode_options \<Rightarrow> 'd message list \<Rightarrow> sipp_mode option \<Rightarrow> modes res" where
  "computeSippMode opts ms creation =
     (if ms = [] then Inl AssertFailed
      else bindE (mode_loop opts ms
             \<lparr>creationMode = (if creation = Some MODE_MIXED then creation else None), sendMode = None, thirdPartyMode = MODE_3PCC_NONE,
              isRecvCmdFound = False, isSendCmdFound = False\<rparr>) (\<lambda>s.
        let s1 = (if sendMode s = None \<and> (isSendCmdFound s \<or> isRecvCmdFound s) then s\<lparr>sendMode := Some MODE_SERVER\<rparr> else s)
        in if creationMode s1 = None then Inl (ERROR ''Unable to determine creation mode of the tool (server, client)'')
           else if sendMode s1 = None then Inl (ERROR ''Unable to determine send mode of the tool (server, client)'')
           else Inr s1))"

section \<open>The message that begins a call\<close>

fun starts_loop :: "'d call_env \<Rightarrow> int \<Rightarrow> string \<Rightarrow> 'd message list \<Rightarrow> bool" where
  "starts_loop env c meth [] = True"
| "starts_loop env c meth (m # ms) =
     (if m_type m = MSG_TYPE_PAUSE \<or> m_type m = MSG_TYPE_NOP then starts_loop env c meth ms
      else if m_type m \<noteq> MSG_TYPE_RECV then True
      else if (if c \<noteq> 0 then matchesResponse env m c else matchesRequest env m meth) then True
      else if m_optional m = OPTIONAL_FALSE then False
      else starts_loop env c meth ms)"

definition startsWith :: "'d call_env \<Rightarrow> string \<Rightarrow> bool" where
  "startsWith env msg =
     (if unexpected_jump (call_scenario env) \<ge> 0 then True
      else starts_loop env (int (get_reply_code msg)) (takeWhile (\<lambda>c. c \<notin> {SP, TAB, CR, LF}) (c_str msg)) (msgs env))"

section \<open>The peers of third party call control\<close>

definition MAX_PEER_SIZE :: nat where "MAX_PEER_SIZE = 4096"

text \<open>What \<^verbatim>\<open>fgets\<close> reads of a file, one call after the other.\<close>

function fgets_all :: "nat \<Rightarrow> string \<Rightarrow> string list" where
  "fgets_all n s =
     (if s = [] \<or> n \<le> 1 then []
      else let line = takeWhile (\<lambda>c. c \<noteq> LF) s; k = min (n - 1) (if length line < length s then Suc (length line) else length line)
           in take k s # fgets_all n (drop k s))"
  by pat_completeness auto
termination
proof (relation "measure (\<lambda>(n, s). length s)")
  fix n :: nat and s line :: string and k
  assume "\<not> (s = [] \<or> n \<le> 1)" and "line = takeWhile (\<lambda>c. c \<noteq> LF) s"
    and "k = min (n - 1) (if length line < length s then Suc (length line) else length line)"
  then have "k \<noteq> 0" by (cases s) (auto split: if_splits)
  then show "((n, drop k s), n, s) \<in> measure (\<lambda>(n, s). length s)" using \<open>\<not> (s = [] \<or> n \<le> 1)\<close> by simp
qed simp

declare fgets_all.simps [simp del]

text \<open>\<^verbatim>\<open>strtok\<close> with a semicolon: the next token and what is after it.\<close>

definition next_token :: "string \<Rightarrow> (string \<times> string) option" where
  "next_token s =
     (let t = dropWhile (\<lambda>c. c = CHR '';'') s
      in if t = [] then None else Some (takeWhile (\<lambda>c. c \<noteq> CHR '';'') t, drop 1 (dropWhile (\<lambda>c. c \<noteq> CHR '';'') t)))"

definition peer_line :: "string \<Rightarrow> (string \<rightharpoonup> string) \<Rightarrow> (string \<rightharpoonup> string)" where
  "peer_line line peer_addrs =
     (case next_token (c_str line) of
        None \<Rightarrow> peer_addrs
      | Some (temp_peer, rest) \<Rightarrow>
          (case next_token rest of None \<Rightarrow> peer_addrs | Some (temp_host, _) \<Rightarrow> peer_addrs(temp_peer \<mapsto> temp_host)))"

definition parse_slave_cfg :: "string option \<Rightarrow> (string \<rightharpoonup> string) \<Rightarrow> (string \<rightharpoonup> string) res" where
  "parse_slave_cfg content peer_addrs =
     (case content of
        None \<Rightarrow> Inl (ERROR ''Can not open -slave_cfg/-secondary_cfg file'')
      | Some text \<Rightarrow> Inr (fold peer_line (fgets_all MAX_PEER_SIZE text) peer_addrs))"

definition get_peer_addr :: "(string \<rightharpoonup> string) \<Rightarrow> string \<Rightarrow> string res" where
  "get_peer_addr peer_addrs peer =
     (case peer_addrs peer of None \<Rightarrow> Inl (ERROR ''get_peer_addr: Peer not found'') | Some a \<Rightarrow> Inr a)"

section \<open>The mode is that of the first message\<close>

text \<open>What the first message that is neither a pause nor a \<^verbatim>\<open>nop\<close> makes of the program.\<close>

fun first_of :: "(message_type \<Rightarrow> sipp_mode option) \<Rightarrow> 'd message list \<Rightarrow> sipp_mode option" where
  "first_of f [] = None"
| "first_of f (m # ms) = (case f (m_type m) of None \<Rightarrow> first_of f ms | Some x \<Rightarrow> Some x)"

fun creates :: "message_type \<Rightarrow> sipp_mode option" where
  "creates MSG_TYPE_SEND = Some MODE_CLIENT"
| "creates MSG_TYPE_SENDCMD = Some MODE_CLIENT"
| "creates MSG_TYPE_RECV = Some MODE_SERVER"
| "creates MSG_TYPE_RECVCMD = Some MODE_SERVER"
| "creates _ = None"

fun talks :: "message_type \<Rightarrow> sipp_mode option" where
  "talks MSG_TYPE_SEND = Some MODE_CLIENT"
| "talks MSG_TYPE_RECV = Some MODE_SERVER"
| "talks _ = None"

lemma cmd_modes:
  "send_cmd_mode opts s = Inr s' \<Longrightarrow> creationMode s' = creationMode s \<and> sendMode s' = sendMode s \<and> isRecvCmdFound s' = isRecvCmdFound s \<and> isSendCmdFound s' = isSendCmdFound s"
  "recv_cmd_mode opts s = Inr s' \<Longrightarrow> creationMode s' = creationMode s \<and> sendMode s' = sendMode s \<and> isRecvCmdFound s' = isRecvCmdFound s \<and> isSendCmdFound s' = isSendCmdFound s"
  by (auto simp: send_cmd_mode_def recv_cmd_mode_def Let_def split: if_splits)

lemma mode_step_first:
  "mode_step opts m s = Inr s' \<Longrightarrow>
     creationMode s' = (case creationMode s of None \<Rightarrow> creates (m_type m) | Some x \<Rightarrow> Some x) \<and>
     sendMode s' = (case sendMode s of None \<Rightarrow> talks (m_type m) | Some x \<Rightarrow> Some x) \<and>
     (isRecvCmdFound s' \<longleftrightarrow> isRecvCmdFound s \<or> m_type m = MSG_TYPE_RECVCMD) \<and>
     (isSendCmdFound s' \<longleftrightarrow> isSendCmdFound s \<or> m_type m = MSG_TYPE_SENDCMD)"
  by (cases "m_type m")
    (auto simp: mode_step_def or_else_def Let_def split: option.splits if_splits dest: cmd_modes)

lemma mode_loop_first:
  "mode_loop opts ms s = Inr s' \<Longrightarrow>
     creationMode s' = (case creationMode s of None \<Rightarrow> first_of creates ms | Some x \<Rightarrow> Some x) \<and>
     sendMode s' = (case sendMode s of None \<Rightarrow> first_of talks ms | Some x \<Rightarrow> Some x) \<and>
     (isRecvCmdFound s' \<longleftrightarrow> isRecvCmdFound s \<or> (\<exists>m \<in> set ms. m_type m = MSG_TYPE_RECVCMD)) \<and>
     (isSendCmdFound s' \<longleftrightarrow> isSendCmdFound s \<or> (\<exists>m \<in> set ms. m_type m = MSG_TYPE_SENDCMD))"
proof (induction ms arbitrary: s)
  case (Cons m ms)
  then obtain s1 where st: "mode_step opts m s = Inr s1" and r: "mode_loop opts ms s1 = Inr s'" by auto
  show ?case using mode_step_first [OF st] Cons.IH [OF r] by (simp split: option.splits)
qed (simp split: option.splits)

text \<open>The first command, and what it makes of the program.\<close>

fun first_command :: "'d message list \<Rightarrow> message_type option" where
  "first_command [] = None"
| "first_command (m # ms) = (if m_type m = MSG_TYPE_SENDCMD \<or> m_type m = MSG_TYPE_RECVCMD then Some (m_type m) else first_command ms)"

definition third_party :: "mode_options \<Rightarrow> sipp_mode option \<Rightarrow> message_type option \<Rightarrow> third_party_mode" where
  "third_party opts creation cmd =
     (if cmd = None then MODE_3PCC_NONE
      else if cmd = Some MSG_TYPE_RECVCMD then if twinSippMode opts then MODE_3PCC_CONTROLLER_B else MODE_SLAVE
      else if creation = Some MODE_SERVER then if twinSippMode opts then MODE_3PCC_A_PASSIVE else MODE_MASTER_PASSIVE
      else if twinSippMode opts then MODE_3PCC_CONTROLLER_A else MODE_MASTER)"

text \<open>A command was found, and the part is that of the first one.\<close>

definition settled :: "mode_options \<Rightarrow> modes \<Rightarrow> bool" where
  "settled opts s \<longleftrightarrow> creationMode s \<noteq> None \<and>
     (isSendCmdFound s \<and> thirdPartyMode s = third_party opts (creationMode s) (Some MSG_TYPE_SENDCMD) \<or>
      isRecvCmdFound s \<and> thirdPartyMode s = third_party opts (creationMode s) (Some MSG_TYPE_RECVCMD))"

lemma or_else_Some [simp]: "or_else (Some x) a = Some x"
  by (simp add: or_else_def)

lemma send_cmd_third: "send_cmd_mode opts s = Inr s' \<Longrightarrow> thirdPartyMode s' = third_party opts (creationMode s') (Some MSG_TYPE_SENDCMD)"
  by (auto simp: send_cmd_mode_def third_party_def Let_def split: if_splits)

lemma recv_cmd_third: "recv_cmd_mode opts s = Inr s' \<Longrightarrow> thirdPartyMode s' = third_party opts (creationMode s') (Some MSG_TYPE_RECVCMD)"
  by (auto simp: recv_cmd_mode_def third_party_def split: if_splits)

lemma settled_step:
  assumes st: "mode_step opts m s = Inr s'" and se: "settled opts s"
  shows "settled opts s' \<and> thirdPartyMode s' = thirdPartyMode s"
proof -
  obtain x where x: "creationMode s = Some x" using se by (auto simp: settled_def)
  have f: "creationMode s' = Some x" "isSendCmdFound s \<Longrightarrow> isSendCmdFound s'" "isRecvCmdFound s \<Longrightarrow> isRecvCmdFound s'"
    using mode_step_first [OF st] x by simp_all
  have "thirdPartyMode s' = thirdPartyMode s"
  proof (cases "m_type m")
    case MSG_TYPE_SENDCMD
    then show ?thesis using st se x f(1) by (auto simp: mode_step_def settled_def Let_def split: if_splits dest: send_cmd_third)
  next
    case MSG_TYPE_RECVCMD
    then show ?thesis using st se x f(1) by (auto simp: mode_step_def settled_def Let_def split: if_splits dest: recv_cmd_third)
  qed (use st in \<open>auto simp: mode_step_def\<close>)
  then show ?thesis using se f x by (auto simp: settled_def)
qed

lemma settled_loop: "mode_loop opts ms s = Inr s' \<Longrightarrow> settled opts s \<Longrightarrow> thirdPartyMode s' = thirdPartyMode s"
  by (induction ms arbitrary: s) (auto dest: settled_step)

lemma third_party_loop:
  "mode_loop opts ms s = Inr s' \<Longrightarrow> \<not> isSendCmdFound s \<Longrightarrow> \<not> isRecvCmdFound s \<Longrightarrow> thirdPartyMode s = MODE_3PCC_NONE \<Longrightarrow>
     thirdPartyMode s' = third_party opts (creationMode s') (first_command ms)"
proof (induction ms arbitrary: s)
  case (Cons m ms)
  then obtain s1 where st: "mode_step opts m s = Inr s1" and r: "mode_loop opts ms s1 = Inr s'" by auto
  show ?case
  proof (cases "m_type m = MSG_TYPE_SENDCMD \<or> m_type m = MSG_TYPE_RECVCMD")
    case True
    have third: "thirdPartyMode s1 = third_party opts (creationMode s1) (Some (m_type m))"
      using st True Cons.prems(2,3) by (auto simp: mode_step_def Let_def dest: send_cmd_third recv_cmd_third)
    have "creates (m_type m) \<noteq> None" using True by auto
    then have found: "creationMode s1 \<noteq> None" "m_type m = MSG_TYPE_SENDCMD \<Longrightarrow> isSendCmdFound s1" "m_type m = MSG_TYPE_RECVCMD \<Longrightarrow> isRecvCmdFound s1"
      using mode_step_first [OF st] by (simp_all split: option.splits)
    then have "settled opts s1" using third True by (auto simp: settled_def)
    moreover have "creationMode s' = creationMode s1" using mode_loop_first [OF r] found(1) by (auto split: option.splits)
    ultimately show ?thesis using True third settled_loop [OF r] by auto
  next
    case False
    then have "thirdPartyMode s1 = MODE_3PCC_NONE" using st Cons.prems(4) by (cases "m_type m") (auto simp: mode_step_def)
    then show ?thesis using False Cons.IH [OF r] mode_step_first [OF st] Cons.prems(2,3) by simp
  qed
qed (simp add: third_party_def)

lemma loop_succeeds:
  "\<forall>m \<in> set ms. m_type m \<noteq> MSG_TYPE_SENDCMD \<and> m_type m \<noteq> MSG_TYPE_RECVCMD \<Longrightarrow> \<exists>s'. mode_loop opts ms s = Inr s'"
proof (induction ms arbitrary: s)
  case (Cons m ms)
  then have "\<exists>s1. mode_step opts m s = Inr s1" by (cases "m_type m") (simp_all add: mode_step_def)
  then show ?case using Cons by auto
qed simp

lemma first_of_None: "first_of f ms = None \<longleftrightarrow> (\<forall>m \<in> set ms. f (m_type m) = None)"
  by (induction ms) (auto split: option.splits)

lemma talks_None: "talks k = None \<longleftrightarrow> k \<noteq> MSG_TYPE_SEND \<and> k \<noteq> MSG_TYPE_RECV"
  by (cases k) simp_all

lemma creates_None: "creates k = None \<longleftrightarrow> k = MSG_TYPE_PAUSE \<or> k = MSG_TYPE_NOP"
  by (cases k) simp_all

text \<open>
  What a scenario makes of the program. Its first message that is neither a pause nor a \<^verbatim>\<open>nop\<close> decides whether the program starts
  calls, unless calls are mixed; its first message of SIP whether it is a client, and with commands alone it is a server; and its first
  command is the part in third party call control. A scenario without commands has a mode if and only if it sends or receives something.
\<close>

theorem sipp_mode_of_first:
  "(computeSippMode opts ms creation = Inr s \<longrightarrow>
     creationMode s = (if creation = Some MODE_MIXED then creation else first_of creates ms) \<and> creationMode s \<noteq> None \<and>
     sendMode s = (case first_of talks ms of None \<Rightarrow> Some MODE_SERVER | Some x \<Rightarrow> Some x) \<and>
     thirdPartyMode s = third_party opts (creationMode s) (first_command ms)) \<and>
   ((\<forall>m \<in> set ms. m_type m \<noteq> MSG_TYPE_SENDCMD \<and> m_type m \<noteq> MSG_TYPE_RECVCMD) \<longrightarrow>
     ((\<exists>s. computeSippMode opts ms creation = Inr s) \<longleftrightarrow> (\<exists>m \<in> set ms. m_type m = MSG_TYPE_SEND \<or> m_type m = MSG_TYPE_RECV)))"
proof (intro conjI impI)
  let ?s0 = "\<lparr>creationMode = (if creation = Some MODE_MIXED then creation else None), sendMode = None, thirdPartyMode = MODE_3PCC_NONE,
              isRecvCmdFound = False, isSendCmdFound = False\<rparr>"
  {
    assume "computeSippMode opts ms creation = Inr s"
    then obtain s1 where r: "mode_loop opts ms ?s0 = Inr s1"
      and s: "s = (if sendMode s1 = None \<and> (isSendCmdFound s1 \<or> isRecvCmdFound s1) then s1\<lparr>sendMode := Some MODE_SERVER\<rparr> else s1)"
      and k: "creationMode s \<noteq> None" "sendMode s \<noteq> None"
      by (auto simp: computeSippMode_def Let_def split: if_splits)
    note f = mode_loop_first [OF r]
    have c: "creationMode s1 = (if creation = Some MODE_MIXED then creation else first_of creates ms)" using f by simp
    have "thirdPartyMode s1 = third_party opts (creationMode s1) (first_command ms)" by (rule third_party_loop [OF r]) simp_all
    then show "thirdPartyMode s = third_party opts (creationMode s) (first_command ms)" by (simp add: s)
    show "creationMode s = (if creation = Some MODE_MIXED then creation else first_of creates ms)" using c by (simp add: s)
    show "creationMode s \<noteq> None" by (rule k)
    show "sendMode s = (case first_of talks ms of None \<Rightarrow> Some MODE_SERVER | Some x \<Rightarrow> Some x)"
      using f k(2) by (auto simp: s split: option.splits if_splits)
  next
    assume plain: "\<forall>m \<in> set ms. m_type m \<noteq> MSG_TYPE_SENDCMD \<and> m_type m \<noteq> MSG_TYPE_RECVCMD"
    obtain s1 where r: "mode_loop opts ms ?s0 = Inr s1" using loop_succeeds [OF plain] by blast
    note f = mode_loop_first [OF r]
    have none: "\<not> isSendCmdFound s1" "\<not> isRecvCmdFound s1" using f plain by simp_all
    have "(\<exists>s. computeSippMode opts ms creation = Inr s) \<longleftrightarrow> ms \<noteq> [] \<and> creationMode s1 \<noteq> None \<and> sendMode s1 \<noteq> None"
      using r none by (simp add: computeSippMode_def Let_def)
    also have "\<dots> \<longleftrightarrow> (\<exists>m \<in> set ms. talks (m_type m) \<noteq> None)"
    proof -
      have "first_of creates ms \<noteq> None" if "m \<in> set ms" "talks (m_type m) \<noteq> None" for m
        using that first_of_None [of creates ms] by (auto simp: talks_None creates_None)
      then show ?thesis using f by (auto simp: first_of_None simp del: not_None_eq)
    qed
    finally show "(\<exists>s. computeSippMode opts ms creation = Inr s) \<longleftrightarrow> (\<exists>m \<in> set ms. m_type m = MSG_TYPE_SEND \<or> m_type m = MSG_TYPE_RECV)"
      by (auto simp: talks_None)
  }
qed

theorem sipp_mode_of_first_witness:
  "\<exists>s. computeSippMode \<lparr>twinSippMode = False, extendedTwin = False, master_name = False, slave_number = False\<rparr>
     [nop 0, (new_message 1)\<lparr>m_type := MSG_TYPE_RECV\<rparr>, (new_message 2)\<lparr>m_type := MSG_TYPE_SEND\<rparr>] None = Inr s \<and>
     creationMode s = Some MODE_SERVER \<and> sendMode s = Some MODE_SERVER \<and> thirdPartyMode s = MODE_3PCC_NONE"
  using sipp_mode_of_first [of "\<lparr>twinSippMode = False, extendedTwin = False, master_name = False, slave_number = False\<rparr>"
     "[nop 0, (new_message 1)\<lparr>m_type := MSG_TYPE_RECV\<rparr>, (new_message 2)\<lparr>m_type := MSG_TYPE_SEND\<rparr>]" None]
  by (auto simp: third_party_def)

end
