(* ===== verification/Scenario_Findings.thy ===== *)
theory Scenario_Findings
  imports Scenario_Mode
begin

text \<open>Documents that load and give a scenario that does not do what they say.\<close>

text \<open>
  Lines of a message that are indented with a tab and then a space keep the space, and the line becomes a continuation of the header before
  it: the pairs of a line end and a space are removed before those of a line end and a tab.
\<close>

lemma mixed_indent_kept:
  "clean_cdata (''OPTIONS a'' @ [LF, TAB, SP] @ ''Via: b'') = Inr (''OPTIONS a'' @ [LF, SP] @ ''Via: b'' @ [LF, LF], 0)"
  by code_simp

text \<open>
  The label for unexpected messages may be the last element. An unexpected message then jumps past the last message, and the program ends
  when the call runs.
\<close>

definition label_at_end :: xp_state where
  "label_at_end = small_doc\<lparr>xp_stack := [Node node_document [] [] [] [elem ''scenario'' []
     [elem ''recv'' [(''request'', ''INVITE'')] [], elem ''label'' [(''id'', ''_unexp.main'')] []]]]\<rparr>"

lemma label_at_end_loads:
  "case load_scenario small_load_env label_at_end small_store of
     Inr (sc, s) \<Rightarrow> unexpected_jump sc = int (length (messages sc)) | Inl e \<Rightarrow> False"
  by code_simp

text \<open>An \<^verbatim>\<open>rtp_echo\<close> that starts with no known word is taken, and makes an action that ends the program when it runs.\<close>

lemma unknown_echo_taken:
  "parse_rtp_echo env ''stop'' (new_action env) s = Inr (new_action env, s) \<and> M_action (new_action env) = E_AT_NO_ACTION"
proof -
  have "has_prefix w ''stop'' = False" if "w \<in> {''startaudio'', ''updateaudio'', ''startvideo'', ''updatevideo'', ''stopaudio'', ''stopvideo''}" for w
    using that by (auto simp: has_prefix_def)
  then show ?thesis by (simp add: parse_rtp_echo_def ret_def new_action_def)
qed

end
