(* ===== verification/Socket_Input.thy ===== *)
theory Socket_Input
  imports C_Strings
begin

text \<open>
  What a socket does with the bytes that come in (\<^verbatim>\<open>socket.cpp\<close>): buffers of reads, the search for a whole message in them, and
  the reading of a message. A chain of buffers is a list; the length of a buffer is that of its text. An address is a number.
\<close>

datatype transport = T_UDP | T_TCP | T_TLS | T_SCTP | T_WS | T_WSS

definition TRANSPORT_IS_WS :: "transport \<Rightarrow> bool" where
  "TRANSPORT_IS_WS t \<longleftrightarrow> t = T_WS \<or> t = T_WSS"

record socketbuf =
  sb_buf :: string
  sb_offset :: nat
  sb_addr :: nat
  sb_untraced :: bool

text \<open>\<^verbatim>\<open>pending_messages\<close> counts the sockets with a message; this is the share of one socket.\<close>

record input =
  ss_transport :: transport
  ss_control :: bool
  ss_in :: "socketbuf list"
  ss_msglen :: nat
  pending_messages :: int

definition new_input :: "transport \<Rightarrow> bool \<Rightarrow> input" where
  "new_input t control = \<lparr>ss_transport = t, ss_control = control, ss_in = [], ss_msglen = 0, pending_messages = 0\<rparr>"

section \<open>The search for a message\<close>

datatype cfm = CFM_NORMAL | CFM_CONTROL | CFM_CR | CFM_CRLF | CFM_CRLFCR | CFM_CRLFCRLF

fun cfm_step :: "cfm \<Rightarrow> char \<Rightarrow> cfm" where
  "cfm_step CFM_NORMAL c = (if c = CR then CFM_CR else CFM_NORMAL)"
| "cfm_step CFM_CR c = (if c = LF then CFM_CRLF else CFM_NORMAL)"
| "cfm_step CFM_CRLF c = (if c = CR then CFM_CRLFCR else CFM_NORMAL)"
| "cfm_step CFM_CRLFCR c = (if c = LF then CFM_CRLFCRLF else CFM_NORMAL)"
| "cfm_step CFM_CONTROL c = CFM_CONTROL"
| "cfm_step CFM_CRLFCRLF c = CFM_CRLFCRLF"

abbreviation ESC :: char where "ESC \<equiv> CHR 0x1B"

fun merge_socketbufs :: "socketbuf list \<Rightarrow> socketbuf list res" where
  "merge_socketbufs [] = Inl Undefined"
| "merge_socketbufs [b] = Inr [b]"
| "merge_socketbufs (b # n # bs) =
     (if sb_offset n \<noteq> 0 then Inl (ERROR ''Internal error: can not merge a socketbuf with a non-zero offset.'')
      else Inr (b\<lparr>sb_buf := drop (sb_offset b) (sb_buf b) @ sb_buf n, sb_offset := 0\<rparr> # bs))"

text \<open>The bytes that were not read yet.\<close>

definition unread :: "socketbuf list \<Rightarrow> string" where
  "unread bs = concat (map (\<lambda>b. drop (sb_offset b) (sb_buf b)) bs)"

lemma unread_simps [simp]: "unread [] = []" "unread (b # bs) = drop (sb_offset b) (sb_buf b) @ unread bs"
  by (simp_all add: unread_def)

lemma merge_unread: "merge_socketbufs bs = Inr bs' \<Longrightarrow> unread bs' = unread bs \<and> bs' \<noteq> []"
  by (cases bs rule: merge_socketbufs.cases) (auto split: if_splits)

text \<open>What the scan of the headers ends with: no end, the escape that ends a command, or the position of the last line feed.\<close>

datatype scan_end = No_end | Command_end nat | Header_end nat

function scan :: "cfm \<Rightarrow> nat \<Rightarrow> socketbuf list \<Rightarrow> (scan_end \<times> socketbuf list) res" where
  "scan state len bs =
     (case bs of
        [] \<Rightarrow> Inl Undefined
      | b # _ \<Rightarrow>
          if \<not> sb_offset b + len < length (sb_buf b) then Inr (No_end, bs)
          else
            let c = sb_buf b ! (sb_offset b + len); state' = cfm_step state c
            in if state = CFM_CONTROL \<and> c = ESC then Inr (Command_end len, bs)
               else case (if sb_offset b + len = length (sb_buf b) - 1 then merge_socketbufs bs else Inr bs) of
                 Inl e \<Rightarrow> Inl e
               | Inr bs' \<Rightarrow> if state' = CFM_CRLFCRLF then Inr (Header_end len, bs') else scan state' (len + 1) bs')"
  by pat_completeness auto
termination
proof (relation "measure (\<lambda>(state, len, bs). length (unread bs) - len)", goal_cases)
  case (2 state len bs b rest c state' bs')
  have u: "unread bs' = unread bs" using 2(6) merge_unread by (auto split: if_splits)
  have "len < length (unread bs)" using 2(1,2) by auto
  then show ?case using u by simp
qed simp

declare scan.simps [simp del]

text \<open>\<^verbatim>\<open>strcasestr\<close>: where the second text is in the first one, whatever the case of the letters.\<close>

definition strcasestr :: "string \<Rightarrow> string \<Rightarrow> nat option" where
  "strcasestr hay needle = find_sub (map tolower needle) (map tolower (c_str hay))"

text \<open>Where the value of the length is in the headers, which end at \<open>len\<close>.\<close>

definition length_header :: "string \<Rightarrow> nat option" where
  "length_header headers =
     (case strcasestr headers (CRLF @ ''Content-Length:'') of
        Some i \<Rightarrow> Some (i + 17)
      | None \<Rightarrow> (case strcasestr headers (CRLF @ ''l:'') of Some i \<Rightarrow> Some (i + 4) | None \<Rightarrow> None))"

text \<open>The length in the text from there on; \<open>None\<close> when the line ends first. The read of a byte past the buffer is undefined.\<close>

definition content_length :: "string \<Rightarrow> int option res" where
  "content_length l =
     (let t = dropWhile (\<lambda>c. isspace c \<and> c \<noteq> CR \<and> c \<noteq> LF) l
      in case t of
           [] \<Rightarrow> Inl Undefined
         | c # _ \<Rightarrow>
             if c = CR \<or> c = LF then Inr None
             else case strtol t of (v, e) \<Rightarrow>
               (case e of [] \<Rightarrow> Inl Undefined | d # _ \<Rightarrow> Inr (Some (if d \<noteq> CR \<and> \<not> isspace d then 0 else to_int32 v))))"

text \<open>The whole message, when it is there; the sizes are 64 bit numbers without a sign, and the result is an \<^verbatim>\<open>int\<close>.\<close>

function whole_message :: "nat \<Rightarrow> int \<Rightarrow> socketbuf list \<Rightarrow> (int \<times> socketbuf list) res" where
  "whole_message len cl bs =
     (case bs of
        [] \<Rightarrow> Inl Undefined
      | b # rest \<Rightarrow>
          if (int (sb_offset b) + int len + cl) mod 2 ^ 64 < int (length (sb_buf b)) then Inr (int len + cl + 1, bs)
          else if rest = [] then Inr (0, bs)
          else case merge_socketbufs bs of Inl e \<Rightarrow> Inl e | Inr bs' \<Rightarrow> whole_message len cl bs')"
  by pat_completeness auto
termination
proof (relation "measure (\<lambda>(len, cl, bs). length bs)", goal_cases)
  case (2 len cl bs b rest bs')
  then show ?case by (cases bs rule: merge_socketbufs.cases) (auto split: if_splits)
qed simp

declare whole_message.simps [simp del]

definition one_by_one :: "transport \<Rightarrow> bool" where
  "one_by_one t \<longleftrightarrow> t = T_UDP \<or> t = T_SCTP \<or> TRANSPORT_IS_WS t"

definition check_for_message :: "input \<Rightarrow> (int \<times> input) res" where
  "check_for_message s =
     (case ss_in s of
        [] \<Rightarrow> Inr (0, s)
      | b # _ \<Rightarrow>
          if one_by_one (ss_transport s) then Inr (int (length (sb_buf b)), s)
          else
            bindE (scan (if ss_control s then CFM_CONTROL else CFM_NORMAL) 0 (ss_in s)) (\<lambda>(r, bs).
              case r of
                No_end \<Rightarrow> Inr (0, s\<lparr>ss_in := bs\<rparr>)
              | Command_end len \<Rightarrow> Inr (int len + 1, s\<lparr>ss_in := bs\<rparr>)
              | Header_end len \<Rightarrow>
                  (case bs of
                     [] \<Rightarrow> Inl Undefined
                   | b # _ \<Rightarrow>
                       (case length_header (take len (drop (sb_offset b) (sb_buf b))) of
                          None \<Rightarrow> Inr (int len + 1, s\<lparr>ss_in := bs\<rparr>)
                        | Some i \<Rightarrow>
                            bindE (content_length (drop (sb_offset b + i) (sb_buf b))) (\<lambda>cl.
                              case cl of
                                None \<Rightarrow> Inr (int len + 1, s\<lparr>ss_in := bs\<rparr>)
                              | Some n \<Rightarrow> bindE (whole_message len n bs) (\<lambda>(r, bs'). Inr (r, s\<lparr>ss_in := bs'\<rparr>)))))))"

section \<open>Reading\<close>

definition alloc_socketbuf :: "string \<Rightarrow> nat \<Rightarrow> socketbuf" where
  "alloc_socketbuf bytes from = \<lparr>sb_buf = bytes, sb_offset = 0, sb_addr = from, sb_untraced = False\<rparr>"

definition buffer_read :: "socketbuf \<Rightarrow> input \<Rightarrow> input" where
  "buffer_read newbuf s = s\<lparr>ss_in := ss_in s @ [newbuf]\<rparr>"

definition to_size :: "int \<Rightarrow> nat" where
  "to_size n = nat (n mod 2 ^ 64)"

text \<open>Bytes came in from an address (\<^verbatim>\<open>SIPpSocket::empty\<close> after the system call).\<close>

definition empty_socket :: "string \<Rightarrow> nat \<Rightarrow> input \<Rightarrow> input res" where
  "empty_socket bytes from s =
     (let s1 = buffer_read (alloc_socketbuf bytes from) s
      in if ss_msglen s1 \<noteq> 0 then Inr s1
         else bindE (check_for_message s1) (\<lambda>(n, s2).
           Inr (if n \<noteq> 0 then s2\<lparr>ss_msglen := to_size n, pending_messages := pending_messages s2 + 1\<rparr> else s2)))"

text \<open>
  A message is read into an array of so many bytes, with a zero byte after it. The result is the text, the address and the rest; \<open>None\<close> when
  there is no message.
\<close>

definition read_message :: "nat \<Rightarrow> input \<Rightarrow> ((string \<times> nat) option \<times> input) res" where
  "read_message room s =
     (if ss_msglen s = 0 then Inr (None, s)
      else if ss_msglen s > room then Inl (ERROR ''There is a message waiting that is bigger than the read size.'')
      else case ss_in s of
        [] \<Rightarrow> Inl Undefined
      | b # rest \<Rightarrow>
          let avail = min (length (sb_buf b) - sb_offset b) (ss_msglen s);
              text = take avail (drop (sb_offset b) (sb_buf b));
              text' = (if ss_control s \<and> text \<noteq> [] \<and> last text = ESC then butlast text else text);
              in' = (if sb_offset b + avail = length (sb_buf b) then rest else b\<lparr>sb_offset := sb_offset b + avail\<rparr> # rest)
          in if avail \<ge> room \<or> avail = 0 \<and> ss_control s then Inl Undefined
             else bindE (check_for_message (s\<lparr>ss_in := in'\<rparr>)) (\<lambda>(n, s1).
               Inr (Some (text', sb_addr b),
                 if n \<noteq> 0 then s1\<lparr>ss_msglen := to_size n\<rparr> else s1\<lparr>ss_msglen := 0, pending_messages := pending_messages s1 - 1\<rparr>)))"

end
