(* ===== verification/Socket_Framing.thy ===== *)
theory Socket_Framing
  imports Socket_Input
begin

text \<open>
  Messages over a stream. The search for a message depends on the bytes that were not read alone, however the reads cut them; a message that
  was written with its length comes out as it is, and one that is not whole yet does not.
\<close>

section \<open>The chain of buffers\<close>

text \<open>No buffer is empty, and only the first was read in part.\<close>

definition bufs_ok :: "socketbuf list \<Rightarrow> bool" where
  "bufs_ok bs \<longleftrightarrow> (\<forall>b \<in> set bs. sb_offset b < length (sb_buf b)) \<and> (\<forall>b \<in> set (tl bs). sb_offset b = 0)"

lemma bufs_ok_Nil [simp]: "bufs_ok []"
  by (simp add: bufs_ok_def)

lemma bufs_ok_snoc: "bufs_ok bs \<Longrightarrow> c \<noteq> [] \<Longrightarrow> bufs_ok (bs @ [alloc_socketbuf c a])"
  by (cases bs) (auto simp: bufs_ok_def alloc_socketbuf_def)

lemma merge_ok:
  assumes "bufs_ok (b # n # bs)"
  shows "\<exists>b'. merge_socketbufs (b # n # bs) = Inr (b' # bs) \<and> sb_offset b' = 0 \<and> bufs_ok (b' # bs) \<and> sb_addr b' = sb_addr b \<and>
    sb_buf b' = drop (sb_offset b) (sb_buf b) @ sb_buf n \<and> unread (b' # bs) = unread (b # n # bs)"
  using assms by (auto simp: bufs_ok_def)

text \<open>The position is in the first buffer, or there is no more.\<close>

definition reached :: "nat \<Rightarrow> socketbuf list \<Rightarrow> bool" where
  "reached len bs \<longleftrightarrow> (\<exists>b rest. bs = b # rest \<and> (sb_offset b + len < length (sb_buf b) \<or> rest = [] \<and> sb_offset b + len = length (sb_buf b)))"

fun hscan :: "cfm \<Rightarrow> nat \<Rightarrow> string \<Rightarrow> nat option" where
  "hscan st n [] = None"
| "hscan st n (c # cs) = (if cfm_step st c = CFM_CRLFCRLF then Some n else hscan (cfm_step st c) (n + 1) cs)"

lemma step_control: "st \<noteq> CFM_CONTROL \<Longrightarrow> cfm_step st c \<noteq> CFM_CONTROL"
  by (cases st) auto

lemma scan_flat:
  assumes "bufs_ok bs" and "reached len bs" and "st \<noteq> CFM_CONTROL"
  shows "\<exists>b rest. scan st len bs = Inr (case hscan st len (drop len (unread bs)) of None \<Rightarrow> No_end | Some k \<Rightarrow> Header_end k, b # rest) \<and>
    unread (b # rest) = unread bs \<and> bufs_ok (b # rest) \<and>
    (\<forall>k. hscan st len (drop len (unread bs)) = Some k \<longrightarrow> sb_offset b + k < length (sb_buf b))"
  using assms
proof (induction "length (unread bs) - len" arbitrary: st len bs rule: less_induct)
  case less
  obtain b rest where bs: "bs = b # rest"
    and at: "sb_offset b + len < length (sb_buf b) \<or> rest = [] \<and> sb_offset b + len = length (sb_buf b)"
    using less.prems(2) by (auto simp: reached_def)
  show ?case
  proof (cases "sb_offset b + len < length (sb_buf b)")
    case False
    then have "drop len (unread bs) = []" using at bs by simp
    then show ?thesis using False bs less.prems(1) by (subst scan.simps) auto
  next
    case True
    let ?c = "sb_buf b ! (sb_offset b + len)" let ?st = "cfm_step st ?c"
    have u: "drop len (unread bs) = ?c # drop (Suc len) (unread bs)"
    proof -
      have "len < length (sb_buf b) - sb_offset b" using True by simp
      then have "len < length (unread bs)" "unread bs ! len = ?c" by (simp_all add: bs nth_append)
      then show ?thesis by (metis Cons_nth_drop_Suc)
    qed
    obtain b' rest' where m: "(if sb_offset b + len = length (sb_buf b) - 1 then merge_socketbufs bs else Inr bs) = Inr (b' # rest')"
      and ok: "bufs_ok (b' # rest')" "unread (b' # rest') = unread bs" and in_b: "sb_offset b' + len < length (sb_buf b')"
      and r: "reached (Suc len) (b' # rest')"
    proof (cases rest)
      case Nil
      show ?thesis by (rule that [of b "[]"]) (use Nil True bs less.prems(1) in \<open>auto simp: reached_def\<close>)
    next
      case (Cons n ns)
      show ?thesis
      proof (cases "sb_offset b + len = length (sb_buf b) - 1")
        case last: True
        obtain b1 where b1: "merge_socketbufs bs = Inr (b1 # ns)" "sb_offset b1 = 0" "bufs_ok (b1 # ns)"
            "sb_buf b1 = drop (sb_offset b) (sb_buf b) @ sb_buf n" "unread (b1 # ns) = unread bs"
          using merge_ok [of b n ns] less.prems(1) bs Cons by auto
        have "sb_buf n \<noteq> []" using less.prems(1) bs Cons by (auto simp: bufs_ok_def)
        then have "Suc len < length (sb_buf b1)" using b1(4) True last by (cases "sb_buf n") auto
        then show ?thesis by (intro that [of b1 ns]) (use last b1 in \<open>auto simp: reached_def\<close>)
      next
        case False
        then show ?thesis by (intro that [of b rest]) (use False True bs less.prems(1) in \<open>auto simp: reached_def\<close>)
      qed
    qed
    have scan: "scan st len bs = (if ?st = CFM_CRLFCRLF then Inr (Header_end len, b' # rest') else scan ?st (len + 1) (b' # rest'))"
      using m True less.prems(3) by (subst scan.simps) (simp add: bs Let_def)
    show ?thesis
    proof (cases "?st = CFM_CRLFCRLF")
      case True
      then have h: "hscan st len (drop len (unread bs)) = Some len" and s: "scan st len bs = Inr (Header_end len, b' # rest')"
        using u scan by simp_all
      show ?thesis unfolding h s using ok in_b by (intro exI [of _ b'] exI [of _ rest']) simp
    next
      case False
      then have h: "hscan st len (drop len (unread bs)) = hscan ?st (Suc len) (drop (Suc len) (unread bs))"
        and s: "scan st len bs = scan ?st (Suc len) (b' # rest')" using u scan by simp_all
      have "len < length (unread bs)" using \<open>sb_offset b + len < length (sb_buf b)\<close> bs by simp
      then have "length (unread (b' # rest')) - Suc len < length (unread bs) - len" unfolding ok(2) by linarith
      from less.hyps [OF this ok(1) r step_control [OF less.prems(3)]]
      show ?thesis unfolding h s ok(2) by blast
    qed
  qed
qed

text \<open>The whole message is looked for in the bytes that were not read.\<close>

lemma whole_flat:
  assumes "bufs_ok (b # rest)" and "sb_offset b + len < length (sb_buf b)" and "sb_offset b + length (unread (b # rest)) + n < 2 ^ 64"
  shows "\<exists>b' rest'. whole_message len (int n) (b # rest) =
      Inr (if len + n < length (unread (b # rest)) then int (len + n + 1) else 0, b' # rest') \<and>
    unread (b' # rest') = unread (b # rest) \<and> bufs_ok (b' # rest') \<and>
    (len + n < length (unread (b # rest)) \<longrightarrow> sb_offset b' + len + n < length (sb_buf b'))"
  using assms
proof (induction rest arbitrary: b)
  case Nil
  have small: "(int (sb_offset b) + int len + int n) mod 2 ^ 64 = int (sb_offset b + len + n)"
    using Nil.prems(2,3) by (subst mod_pos_pos_trivial) simp_all
  then show ?case using Nil.prems by (subst whole_message.simps) (auto simp: small [simplified])
next
  case (Cons m rest)
  have small: "(int (sb_offset b) + int len + int n) mod 2 ^ 64 = int (sb_offset b + len + n)"
    using Cons.prems(2,3) by (subst mod_pos_pos_trivial) simp_all
  obtain b1 where b1: "merge_socketbufs (b # m # rest) = Inr (b1 # rest)" "sb_offset b1 = 0" "bufs_ok (b1 # rest)"
      "sb_buf b1 = drop (sb_offset b) (sb_buf b) @ sb_buf m" "unread (b1 # rest) = unread (b # m # rest)"
    using merge_ok [OF Cons.prems(1)] by auto
  show ?case
  proof (cases "sb_offset b + len + n < length (sb_buf b)")
    case True
    then have "len + n < length (unread (b # m # rest))" by simp
    moreover have "whole_message len (int n) (b # m # rest) = Inr (int len + int n + 1, b # m # rest)"
      using True by (subst whole_message.simps) (simp add: small [simplified])
    ultimately show ?thesis using True Cons.prems(1) by auto
  next
    case False
    have w: "whole_message len (int n) (b # m # rest) = whole_message len (int n) (b1 # rest)"
      using False b1(1) by (subst whole_message.simps) (simp add: small [simplified])
    have "sb_offset b1 + len < length (sb_buf b1)" using Cons.prems(2) b1(2,4) by simp
    moreover have "sb_offset b1 + length (unread (b1 # rest)) + n < 2 ^ 64" using Cons.prems(3) unfolding b1(2,5) by linarith
    ultimately show ?thesis using Cons.IH [OF b1(3)] unfolding b1(5) w by blast
  qed
qed

section \<open>Headers as text\<close>

lemma hscan_append:
  "hscan st n (a @ b) = (case hscan st n a of Some k \<Rightarrow> Some k | None \<Rightarrow> hscan (foldl cfm_step st a) (n + length a) b)"
  by (induction a arbitrary: st n) (auto split: option.split)

lemma hscan_bound: "hscan st n a = Some k \<Longrightarrow> k < n + length a"
  by (induction a arbitrary: st n) (force split: if_splits)+

text \<open>A line of the headers: not empty, and without the bytes that end a line or a text.\<close>

definition plain :: "string \<Rightarrow> bool" where
  "plain l \<longleftrightarrow> l \<noteq> [] \<and> CR \<notin> set l \<and> LF \<notin> set l \<and> NUL \<notin> set l"

lemma normal_line: "CR \<notin> set l \<Longrightarrow> hscan CFM_NORMAL n l = None \<and> foldl cfm_step CFM_NORMAL l = CFM_NORMAL"
  by (induction l arbitrary: n) auto

lemma hscan_line:
  assumes "plain l" and "st = CFM_NORMAL \<or> st = CFM_CRLF"
  shows "hscan st n (l @ CRLF) = None \<and> foldl cfm_step st (l @ CRLF) = CFM_CRLF"
proof -
  obtain c cs where "l = c # cs" "c \<noteq> CR" "CR \<notin> set cs" using assms(1) by (cases l) (auto simp: plain_def)
  then show ?thesis using assms(2) normal_line [of cs] by (auto simp: hscan_append)
qed

lemma hscan_lines:
  assumes "\<forall>l \<in> set hs. plain l" and "st = CFM_NORMAL \<or> st = CFM_CRLF"
  shows "hscan st n (lines hs) = None \<and> foldl cfm_step st (lines hs) = (if hs = [] then st else CFM_CRLF)"
  using assms
proof (induction hs arbitrary: st n)
  case (Cons l hs)
  have l: "hscan st n (l @ CRLF) = None" "foldl cfm_step st (l @ CRLF) = CFM_CRLF"
    using hscan_line [of l st n] Cons.prems by auto
  have hs: "hscan CFM_CRLF m (lines hs) = None" "foldl cfm_step CFM_CRLF (lines hs) = CFM_CRLF" for m
    using Cons.IH [of CFM_CRLF m] Cons.prems by auto
  have "lines (l # hs) = (l @ CRLF) @ lines hs" by simp
  then show ?case using l hs by (simp only: hscan_append foldl_append option.case) simp
qed simp

text \<open>The headers of a message end where the empty line does.\<close>

definition head_of :: "string list \<Rightarrow> string" where
  "head_of hs = lines hs @ CRLF"

lemma hscan_head:
  assumes "\<forall>l \<in> set hs. plain l" and "hs \<noteq> []"
  shows "hscan CFM_NORMAL 0 (head_of hs @ t) = Some (length (lines hs) + 1)"
  using hscan_lines [of hs CFM_NORMAL 0] assms by (simp add: head_of_def hscan_append)

lemma hscan_cut:
  assumes "\<forall>l \<in> set hs. plain l" and "hs \<noteq> []" and "head_of hs = p @ q" and "q \<noteq> []"
  shows "hscan CFM_NORMAL 0 p = None"
proof (cases "hscan CFM_NORMAL 0 p")
  case (Some k)
  have "hscan CFM_NORMAL 0 (head_of hs @ []) = Some k" using Some assms(3) by (simp add: hscan_append)
  then have "k = length (lines hs) + 1" using hscan_head [OF assms(1,2), of "[]"] by simp
  moreover have "k < length p" using hscan_bound [OF Some] by simp
  moreover have "length p < length (head_of hs)" using assms(3,4) by simp
  ultimately show ?thesis by (simp add: head_of_def)
qed simp

section \<open>The header with the length\<close>

definition starts_nocase :: "string \<Rightarrow> string \<Rightarrow> bool" where
  "starts_nocase name l \<longleftrightarrow> map tolower (take (length name) l) = map tolower name"

text \<open>The first line after the start line with that name; where it starts, from the end of the start line.\<close>

fun line_at :: "string \<Rightarrow> string list \<Rightarrow> nat option" where
  "line_at name [] = None"
| "line_at name (l # ls) = (if starts_nocase name l then Some 0 else map_option (\<lambda>i. length l + 2 + i) (line_at name ls))"

lemma tolower_NUL_CR_LF: "tolower c = CR \<longleftrightarrow> c = CR" "tolower c = LF \<longleftrightarrow> c = LF" "tolower c = NUL \<longleftrightarrow> c = NUL"
proof -
  have "byte CR = 13" "byte LF = 10" "byte NUL = 0" by (simp_all add: byte_def)
  then show "tolower c = CR \<longleftrightarrow> c = CR" "tolower c = LF \<longleftrightarrow> c = LF" "tolower c = NUL \<longleftrightarrow> c = NUL"
    by (auto simp: tolower_def isupper_def dest!: arg_cong [of _ _ byte])
qed

lemma CR_in_lower: "CR \<in> set (map tolower s) \<longleftrightarrow> CR \<in> set s"
  by (induction s) (simp_all add: tolower_NUL_CR_LF eq_commute [of CR])

lemma find_after_line:
  assumes "CR \<notin> set l" and "pat \<noteq> []"
  shows "find_sub (CRLF @ pat) (l @ CRLF @ r) =
    (if take (length pat) r = pat then Some (length l) else map_option (\<lambda>i. length l + 2 + i) (find_sub (CRLF @ pat) r))"
proof -
  have "find_sub (CR # LF # pat) (l @ CRLF @ r) = map_option (\<lambda>n. length l + n) (find_sub (CR # LF # pat) (CRLF @ r))"
    using assms(1) by (rule find_sub_skip)
  then show ?thesis by (simp add: option.map_comp o_def)
qed

lemma take_before: "CR \<notin> set p \<Longrightarrow> take (length p) (l @ CR # r) = p \<longleftrightarrow> take (length p) l = p"
proof (cases "length p \<le> length l")
  case False
  assume no: "CR \<notin> set p"
  have "take (length p) (l @ CR # r) \<noteq> p"
  proof
    assume eq: "take (length p) (l @ CR # r) = p"
    have "CR \<in> set (take (length p) (l @ CR # r))" using False by (auto simp: take_Cons')
    with eq no show False by simp
  qed
  moreover have "take (length p) l \<noteq> p" using False by (metis length_take min.cobounded1)
  ultimately show ?thesis by simp
qed simp

lemma find_line:
  assumes "\<forall>l \<in> set (l0 # ls). plain l" and "name \<noteq> []" and "CR \<notin> set name"
  shows "strcasestr (lines (l0 # ls) @ [CR]) (CRLF @ name) = map_option (\<lambda>i. length l0 + i) (line_at name ls)"
proof -
  let ?low = "map tolower"
  have low [simp]: "tolower CR = CR" "tolower LF = LF" by (simp_all only: tolower_NUL_CR_LF)
  have cr: "CR \<notin> set (?low name)" using assms(3) unfolding CR_in_lower .
  have find: "find_sub (CRLF @ ?low name) (?low (lines (l0 # ls) @ [CR])) = map_option (\<lambda>i. length l0 + i) (line_at name ls)"
    using assms(1)
  proof (induction ls arbitrary: l0)
    case Nil
    have "CR \<notin> set (?low l0)" unfolding CR_in_lower using Nil.prems by (simp add: plain_def)
    moreover have "take (length name) [CR] \<noteq> ?low name" using cr assms(2) by (cases name) auto
    ultimately have "find_sub (CRLF @ ?low name) (?low l0 @ CRLF @ [CR]) = None"
      using assms(2) by (subst find_after_line) simp_all
    then show ?case by simp
  next
    case (Cons l ls)
    have "CR \<notin> set (?low l0)" unfolding CR_in_lower using Cons.prems by (simp add: plain_def)
    moreover define R where "R = ?low (lines (l # ls) @ [CR])"
    ultimately have "find_sub (CRLF @ ?low name) (?low l0 @ CRLF @ R) = (if take (length name) R = ?low name then Some (length l0)
       else map_option (\<lambda>i. length l0 + 2 + i) (find_sub (CRLF @ ?low name) R))"
      using assms(2) find_after_line [of "?low l0" "?low name" R] by (simp only: length_map map_is_Nil_conv) simp
    moreover have "find_sub (CRLF @ ?low name) R = map_option (\<lambda>i. length l + i) (line_at name ls)"
      unfolding R_def by (rule Cons.IH) (use Cons.prems in simp)
    moreover have "take (length name) R = ?low name \<longleftrightarrow> starts_nocase name l"
      using take_before [OF cr, of "?low l"] by (simp add: R_def starts_nocase_def take_map)
    moreover have "?low (lines (l0 # l # ls) @ [CR]) = ?low l0 @ CRLF @ R" by (simp add: R_def)
    ultimately show ?case by (simp only:) (simp add: option.map_comp o_def)
  qed
  have "NUL \<notin> set (lines (l0 # ls) @ [CR])" using assms(1) by (auto simp: lines_def plain_def)
  then have "c_str (lines (l0 # ls) @ [CR]) = lines (l0 # ls) @ [CR]" by (rule c_str_no_NUL)
  with find show ?thesis by (simp add: strcasestr_def)
qed

text \<open>What is behind the name in the line that was found.\<close>

fun line_rest :: "string \<Rightarrow> string list \<Rightarrow> string option" where
  "line_rest name [] = None"
| "line_rest name (l # ls) = (if starts_nocase name l then Some (drop (length name) l) else line_rest name ls)"

lemma line_at_rest:
  "line_at name ls = Some i \<Longrightarrow> \<exists>v r. line_rest name ls = Some v \<and> drop (i + length name) (lines ls @ t) = v @ CRLF @ r @ t \<and>
    i + length name + length v + 2 + length r = length (lines ls)"
proof (induction ls arbitrary: i)
  case (Cons l ls)
  show ?case
  proof (cases "starts_nocase name l")
    case True
    then have "length name \<le> length l" by (auto simp: starts_nocase_def dest!: arg_cong [of _ _ length])
    then show ?thesis using True Cons.prems by simp
  next
    case False
    with Cons.prems obtain j where j: "line_at name ls = Some j" "i = length l + 2 + j" by auto
    from Cons.IH [OF j(1)] obtain v r where "line_rest name ls = Some v" "drop (j + length name) (lines ls @ t) = v @ CRLF @ r @ t"
        "j + length name + length v + 2 + length r = length (lines ls)" by blast
    moreover have "drop (i + length name) (lines (l # ls) @ t) = drop (j + length name) (lines ls @ t)" using j(2) by simp
    ultimately show ?thesis using False j(2) by simp
  qed
qed simp

lemma line_at_None: "line_at name ls = None \<longleftrightarrow> line_rest name ls = None"
  by (induction ls) auto

end
