(* ===== verification/Socket_Stream.thy ===== *)
theory Socket_Stream
  imports Socket_Framing "HOL-Library.Sublist"
begin

text \<open>
  Messages over a stream: whatever the pieces they come in, the messages that were sent with their lengths are read one by one, each as soon
  as it is whole.
\<close>

section \<open>Messages with their length\<close>

definition blank :: "char \<Rightarrow> bool" where
  "blank c \<longleftrightarrow> c = SP \<or> c = TAB"

text \<open>The number that a value of the length states: blanks, digits, blanks.\<close>

definition stated :: "string \<Rightarrow> nat option" where
  "stated v =
     (let t = dropWhile blank v; d = takeWhile isdigit t
      in if d \<noteq> [] \<and> list_all blank (dropWhile isdigit t) \<and> int (decimal d) < 2 ^ 31 then Some (decimal d) else None)"

definition length_value :: "string list \<Rightarrow> string option" where
  "length_value ls = (case line_rest ''Content-Length:'' ls of Some v \<Rightarrow> Some v | None \<Rightarrow> line_rest ''l:'' ls)"

text \<open>A message: its lines, the first of them the start line, and a body of the length that they state.\<close>

definition framed :: "string list \<times> string \<Rightarrow> bool" where
  "framed m = (case m of (hs, body) \<Rightarrow> hs \<noteq> [] \<and> list_all plain hs \<and>
     (case length_value (tl hs) of None \<Rightarrow> body = [] | Some v \<Rightarrow> stated v = Some (length body)))"

definition wire :: "string list \<times> string \<Rightarrow> string" where
  "wire m = head_of (fst m) @ snd m"

lemma wire_not_empty [simp]: "wire m \<noteq> []"
  by (simp add: wire_def head_of_def)

lemma blank_no_end: "blank c \<Longrightarrow> isspace c \<and> c \<noteq> CR \<and> c \<noteq> LF \<and> \<not> isdigit c"
  by (auto simp: blank_def isspace_def isdigit_def byte_def)

lemma content_length_stated:
  assumes "stated v = Some n"
  shows "content_length (v @ CR # r) = Inr (Some (int n))"
proof -
  let ?sp = "\<lambda>c. isspace c \<and> c \<noteq> CR \<and> c \<noteq> LF"
  define t where "t = dropWhile blank v"
  define d where "d = takeWhile isdigit t"
  define q where "q = dropWhile isdigit t"
  have d: "d \<noteq> []" "\<forall>c \<in> set d. isdigit c" and q: "\<forall>c \<in> set q. blank c" and n: "n = decimal d" "decimal d < 2 ^ 31"
    using assms by (auto simp: stated_def Let_def t_def d_def q_def list_all_iff dest: set_takeWhileD split: if_splits)
  have v: "v = takeWhile blank v @ d @ q" by (simp add: t_def d_def q_def)
  have p: "\<forall>c \<in> set (takeWhile blank v). ?sp c" using set_takeWhileD blank_no_end by fast
  obtain c cs where c: "d = c # cs" "isdigit c" using d by (cases d) auto
  have "\<not> isspace c" using c(2) digit_not_space by blast
  then have "dropWhile ?sp (v @ CR # r) = d @ q @ CR # r"
    using p c(1) by (subst v) (simp add: dropWhile_append2)
  moreover have cr: "\<not> isdigit CR" "isspace CR" by (simp_all add: isdigit_def isspace_def byte_def)
  have "\<not> isdigit (hd (q @ CR # r))" using q blank_no_end cr by (cases q) auto
  then have "strtol (d @ q @ CR # r) = (int (decimal d), q @ CR # r)"
    using strtol_digits [of d "q @ CR # r"] d n(2) by simp
  moreover have "isspace (hd (q @ CR # r))" using q blank_no_end cr by (cases q) auto
  moreover have "to_int32 (int n) = int n" using n by (intro to_int32_id) simp_all
  moreover have "c \<noteq> CR" "c \<noteq> LF" using \<open>\<not> isspace c\<close> by (auto simp: isspace_def byte_def)
  ultimately show ?thesis using c(1) n(1) by (cases q) (auto simp: content_length_def Let_def)
qed

text \<open>The header with the length is found in a text that has the whole head.\<close>

lemma length_header_head:
  assumes "framed (hs, body)"
  shows "case length_header (take (length (lines hs) + 1) (head_of hs @ t)) of
      None \<Rightarrow> body = []
    | Some i \<Rightarrow> content_length (drop i (head_of hs @ t)) = Inr (Some (int (length body)))"
proof -
  obtain l0 ls where hs: "hs = l0 # ls" and pl: "\<forall>l \<in> set (l0 # ls). plain l"
    using assms by (cases hs) (auto simp: framed_def list_all_iff)
  have tk: "take (length (lines hs) + 1) (head_of hs @ t) = lines (l0 # ls) @ [CR]"
  proof -
    have "head_of hs @ t = (lines hs @ [CR]) @ LF # t" by (simp add: head_of_def)
    then show ?thesis using hs by (metis append_eq_conv_conj length_append_singleton Suc_eq_plus1)
  qed
  have at: "content_length (drop j (head_of hs @ t)) = Inr (Some (int (length body)))"
    if "line_at name ls = Some i" and "line_rest name ls = length_value ls" and j: "j = length l0 + i + 2 + length name" for name i j
  proof -
    from line_at_rest [OF that(1), of "CRLF @ t"] obtain v r where v: "line_rest name ls = Some v"
      and d: "drop (i + length name) (lines ls @ CRLF @ t) = v @ CRLF @ r @ CRLF @ t" by blast
    have "stated v = Some (length body)" using v assms that(2) by (simp add: framed_def hs split: option.splits)
    moreover have "drop j (head_of hs @ t) = drop (i + length name) (lines ls @ CRLF @ t)"
      by (simp add: hs head_of_def j)
    ultimately show ?thesis unfolding d using content_length_stated by simp
  qed
  have long: "strcasestr (lines (l0 # ls) @ [CR]) (CRLF @ ''Content-Length:'') = map_option (\<lambda>i. length l0 + i) (line_at ''Content-Length:'' ls)"
    by (rule find_line [OF pl]) simp_all
  have short: "strcasestr (lines (l0 # ls) @ [CR]) (CRLF @ ''l:'') = map_option (\<lambda>i. length l0 + i) (line_at ''l:'' ls)"
    by (rule find_line [OF pl]) simp_all
  show ?thesis
  proof (cases "line_at ''Content-Length:'' ls")
    case (Some i)
    then have "length_header (lines (l0 # ls) @ [CR]) = Some (length l0 + i + 17)" unfolding length_header_def long by simp
    moreover have "line_rest ''Content-Length:'' ls = length_value ls"
      using Some line_at_None [of "''Content-Length:''" ls] by (auto simp: length_value_def)
    ultimately show ?thesis unfolding tk by (simp del: drop_append lines_simps) (rule at [OF Some], simp_all)
  next
    case long_None: None
    then have lv: "line_rest ''l:'' ls = length_value ls"
      using line_at_None [of "''Content-Length:''" ls] by (auto simp: length_value_def)
    show ?thesis
    proof (cases "line_at ''l:'' ls")
      case (Some i)
      then have "length_header (lines (l0 # ls) @ [CR]) = Some (length l0 + i + 4)"
        unfolding length_header_def long short using long_None by simp
      then show ?thesis unfolding tk by (simp del: drop_append lines_simps) (rule at [OF Some lv], simp)
    next
      case None
      then have "length_header (lines (l0 # ls) @ [CR]) = None" unfolding length_header_def long short using long_None by simp
      moreover have "length_value ls = None" using None lv line_at_None [of "''l:''" ls] by simp
      ultimately show ?thesis unfolding tk using assms by (simp add: framed_def hs)
    qed
  qed
qed

section \<open>The bytes that are held\<close>

definition stored :: "socketbuf list \<Rightarrow> nat" where
  "stored bs = sum_list (map (\<lambda>b. length (sb_buf b)) bs)"

lemma stored_simps [simp]: "stored [] = 0" "stored (b # bs) = length (sb_buf b) + stored bs" "stored (bs @ cs) = stored bs + stored cs"
  by (simp_all add: stored_def)

lemma stored_unread: "bufs_ok (b # bs) \<Longrightarrow> stored (b # bs) = sb_offset b + length (unread (b # bs))"
proof -
  assume ok: "bufs_ok (b # bs)"
  then have "\<forall>c \<in> set bs. sb_offset c = 0" by (simp add: bufs_ok_def)
  then have "length (unread bs) = stored bs" by (induction bs) auto
  then show ?thesis using ok by (simp add: bufs_ok_def)
qed

lemma stored_merge: "merge_socketbufs bs = Inr bs' \<Longrightarrow> stored bs' \<le> stored bs"
  by (cases bs rule: merge_socketbufs.cases) (auto split: if_splits)

lemma stored_scan: "scan st len bs = Inr (r, bs') \<Longrightarrow> stored bs' \<le> stored bs"
proof (induction st len bs rule: scan.induct)
  case (1 st len bs)
  show ?case
  proof (cases bs)
    case (Cons b rest)
    let ?c = "sb_buf b ! (sb_offset b + len)"
    show ?thesis
    proof (cases "sb_offset b + len < length (sb_buf b) \<and> \<not> (st = CFM_CONTROL \<and> ?c = ESC)")
      case True
      then obtain bs1 where m: "(if sb_offset b + len = length (sb_buf b) - 1 then merge_socketbufs bs else Inr bs) = Inr bs1"
        using 1(2) by (subst (asm) scan.simps) (auto simp: Cons Let_def split: sum.splits if_splits)
      have le: "stored bs1 \<le> stored bs" using m stored_merge by (auto split: if_splits)
      have "scan st len bs = (if cfm_step st ?c = CFM_CRLFCRLF then Inr (Header_end len, bs1) else scan (cfm_step st ?c) (len + 1) bs1)"
        using True m [unfolded Cons] unfolding Cons by (subst scan.simps) (auto simp: Let_def)
      then show ?thesis using 1(1) [OF Cons _ refl refl _ m] 1(2) True le by (auto split: if_splits)
    qed (use 1(2) in \<open>subst (asm) scan.simps, auto simp: Cons Let_def split: if_splits\<close>)
  qed (use 1(2) in \<open>subst (asm) scan.simps, simp\<close>)
qed

lemma stored_whole: "whole_message len n bs = Inr (r, bs') \<Longrightarrow> stored bs' \<le> stored bs"
proof (induction len n bs rule: whole_message.induct)
  case (1 len n bs)
  show ?case
  proof (cases bs)
    case (Cons b rest)
    show ?thesis
    proof (cases "(int (sb_offset b) + int len + n) mod 2 ^ 64 < int (length (sb_buf b)) \<or> rest = []")
      case False
      then have "whole_message len n bs = (case merge_socketbufs bs of Inl e \<Rightarrow> Inl e | Inr bs1 \<Rightarrow> whole_message len n bs1)"
        by (subst whole_message.simps) (simp add: Cons)
      then obtain bs1 where "merge_socketbufs bs = Inr bs1" "whole_message len n bs1 = Inr (r, bs')"
        using 1(2) by (auto split: sum.splits)
      then show ?thesis using 1(1) [OF Cons _ _ \<open>merge_socketbufs bs = Inr bs1\<close>] False stored_merge by (fastforce intro: le_trans)
    qed (use 1(2) in \<open>subst (asm) whole_message.simps, auto simp: Cons split: if_splits\<close>)
  qed (use 1(2) in \<open>subst (asm) whole_message.simps, simp\<close>)
qed

lemma longer_prefix: "a @ x = b @ y \<Longrightarrow> length b \<le> length a \<Longrightarrow> \<exists>c. a = b @ c"
  by (metis append_eq_append_conv_if append_take_drop_id)

section \<open>The search in a stream\<close>

definition stream :: "input \<Rightarrow> bool" where
  "stream s \<longleftrightarrow> \<not> one_by_one (ss_transport s) \<and> \<not> ss_control s"

text \<open>What the search is to find: so many bytes at the start of the first buffer, and the same bytes after it.\<close>

definition found :: "nat \<Rightarrow> input \<Rightarrow> bool" where
  "found n s \<longleftrightarrow> (\<exists>bs. check_for_message s = Inr (int n, s\<lparr>ss_in := bs\<rparr>) \<and> unread bs = unread (ss_in s) \<and> bufs_ok bs \<and>
    stored bs \<le> stored (ss_in s) \<and> (n \<noteq> 0 \<longrightarrow> bs \<noteq> [] \<and> sb_offset (hd bs) + n \<le> length (sb_buf (hd bs))))"

lemma found_none: "ss_in s = [] \<Longrightarrow> found 0 s"
  unfolding found_def by (intro exI [of _ "[]"]) (cases s, simp add: check_for_message_def)

lemma scan_start:
  assumes "stream s" and "ss_in s \<noteq> []"
  shows "check_for_message s = bindE (scan CFM_NORMAL 0 (ss_in s)) (\<lambda>(r, bs).
    case r of
      No_end \<Rightarrow> Inr (0, s\<lparr>ss_in := bs\<rparr>)
    | Command_end len \<Rightarrow> Inr (int len + 1, s\<lparr>ss_in := bs\<rparr>)
    | Header_end len \<Rightarrow>
        (case bs of
           [] \<Rightarrow> Inl Undefined
         | b # _ \<Rightarrow>
             (case length_header (take len (drop (sb_offset b) (sb_buf b))) of
                None \<Rightarrow> Inr (int len + 1, s\<lparr>ss_in := bs\<rparr>)
              | Some i \<Rightarrow>
                  bindE (content_length (drop (sb_offset b + i) (sb_buf b))) (\<lambda>cl.
                    case cl of
                      None \<Rightarrow> Inr (int len + 1, s\<lparr>ss_in := bs\<rparr>)
                    | Some n \<Rightarrow> bindE (whole_message len n bs) (\<lambda>(r, bs'). Inr (r, s\<lparr>ss_in := bs'\<rparr>))))))"
  using assms by (cases "ss_in s") (simp_all add: check_for_message_def stream_def)

lemma found_head:
  assumes "stream s" and ok: "bufs_ok (ss_in s)" and "framed (hs, body)" and u: "unread (ss_in s) = head_of hs @ t"
    and small: "stored (ss_in s) + length body < 2 ^ 64"
  shows "found (if length body \<le> length t then length (head_of hs) + length body else 0) s"
proof -
  let ?k = "length (lines hs) + 1"
  have ne: "ss_in s \<noteq> []" using u by (auto simp: head_of_def)
  then have r: "reached 0 (ss_in s)" using ok by (auto simp: reached_def bufs_ok_def neq_Nil_conv)
  have h: "hscan CFM_NORMAL 0 (drop 0 (unread (ss_in s))) = Some ?k"
    using hscan_head [of hs t] assms(3) by (simp add: u framed_def list_all_iff)
  from scan_flat [OF ok r, of CFM_NORMAL] obtain b rest where sc: "scan CFM_NORMAL 0 (ss_in s) = Inr (Header_end ?k, b # rest)"
    and ub: "unread (b # rest) = unread (ss_in s)" and okb: "bufs_ok (b # rest)" and in_b: "sb_offset b + ?k < length (sb_buf b)"
    unfolding h by auto
  have sm: "sb_offset b + length (unread (b # rest)) + length body < 2 ^ 64"
    using stored_scan [OF sc] small stored_unread [OF okb] by linarith
  obtain t' where t': "drop (sb_offset b) (sb_buf b) = head_of hs @ t'"
  proof -
    have "drop (sb_offset b) (sb_buf b) @ unread rest = head_of hs @ t" using ub u by simp
    moreover have "length (head_of hs) \<le> length (drop (sb_offset b) (sb_buf b))" using in_b by (simp add: head_of_def)
    ultimately show ?thesis using that longer_prefix by blast
  qed
  note lh = length_header_head [OF assms(3), of t', folded t']
  have len: "length (unread (ss_in s)) = length (head_of hs) + length t" by (simp add: u)
  show ?thesis
  proof (cases "length_header (take ?k (drop (sb_offset b) (sb_buf b)))")
    case None
    then have "body = []" using lh by simp
    moreover have "check_for_message s = Inr (int ?k + 1, s\<lparr>ss_in := b # rest\<rparr>)"
      using None by (simp add: scan_start [OF assms(1) ne] sc del: drop_drop)
    ultimately show ?thesis unfolding found_def
      by (intro exI [of _ "b # rest"]) (use ub okb in_b stored_scan [OF sc] in \<open>simp add: head_of_def\<close>)
  next
    case (Some i)
    then have cl: "content_length (drop (sb_offset b + i) (sb_buf b)) = Inr (Some (int (length body)))"
      using lh by (simp add: add.commute)
    from whole_flat [OF okb in_b sm] obtain b' rest' where
        w: "whole_message ?k (int (length body)) (b # rest) =
          Inr (if ?k + length body < length (unread (b # rest)) then int (?k + length body + 1) else 0, b' # rest')"
      and ok': "unread (b' # rest') = unread (b # rest)" "bufs_ok (b' # rest')"
      and in_b': "?k + length body < length (unread (b # rest)) \<longrightarrow> sb_offset b' + ?k + length body < length (sb_buf b')" by blast
    have iff: "?k + length body < length (unread (b # rest)) \<longleftrightarrow> length body \<le> length t"
      unfolding ub len by (auto simp: head_of_def)
    have "check_for_message s = Inr (if length body \<le> length t then int (?k + length body + 1) else 0, s\<lparr>ss_in := b' # rest'\<rparr>)"
      using Some cl w unfolding iff by (simp add: scan_start [OF assms(1) ne] sc del: drop_drop)
    then show ?thesis unfolding found_def
      by (intro exI [of _ "b' # rest'"]) (use ub ok' in_b' iff stored_scan [OF sc] stored_whole [OF w] in \<open>auto simp: head_of_def\<close>)
  qed
qed

lemma found_cut:
  assumes "stream s" and ok: "bufs_ok (ss_in s)" and "framed (hs, body)" and u: "head_of hs = unread (ss_in s) @ q" and "q \<noteq> []"
  shows "found 0 s"
proof (cases "ss_in s")
  case Nil
  then show ?thesis by (rule found_none)
next
  case (Cons b bs)
  then have r: "reached 0 (ss_in s)" and ne: "ss_in s \<noteq> []" using ok by (auto simp: reached_def bufs_ok_def)
  have h: "hscan CFM_NORMAL 0 (drop 0 (unread (ss_in s))) = None"
    using hscan_cut [OF _ _ u assms(5)] assms(3) by (simp add: framed_def list_all_iff)
  from scan_flat [OF ok r, of CFM_NORMAL] obtain b rest where sc: "scan CFM_NORMAL 0 (ss_in s) = Inr (No_end, b # rest)"
    and "unread (b # rest) = unread (ss_in s)" "bufs_ok (b # rest)" unfolding h by auto
  then show ?thesis unfolding found_def by (intro exI [of _ "b # rest"]) (use stored_scan [OF sc] in \<open>simp add: scan_start [OF assms(1) ne]\<close>)
qed

text \<open>The length of the first message, when all of it is in the text.\<close>

definition first_whole :: "(string list \<times> string) list \<Rightarrow> string \<Rightarrow> nat" where
  "first_whole ms u = (case ms of [] \<Rightarrow> 0 | m # _ \<Rightarrow> if length (wire m) \<le> length u then length (wire m) else 0)"

lemma check_stream:
  assumes "stream s" and ok: "bufs_ok (ss_in s)" and "\<forall>m \<in> set ms. framed m" and pre: "prefix (unread (ss_in s)) (concat (map wire ms))"
    and "stored (ss_in s) < 2 ^ 63" and "\<forall>m \<in> set ms. length (snd m) < 2 ^ 63"
  shows "found (first_whole ms (unread (ss_in s))) s"
proof (cases ms)
  case Nil
  then have "ss_in s = []" using pre ok by (cases "ss_in s") (auto simp: bufs_ok_def)
  then show ?thesis using Nil by (simp add: first_whole_def found_none)
next
  case (Cons m rest)
  obtain hs body where m: "m = (hs, body)" by force
  have fr: "framed (hs, body)" and small: "stored (ss_in s) + length body < 2 ^ 64" using assms(3,5,6) Cons m by auto
  obtain later where l: "head_of hs @ body @ concat (map wire rest) = unread (ss_in s) @ later"
    using pre Cons m by (auto simp: prefix_def wire_def)
  show ?thesis
  proof (cases "length (head_of hs) \<le> length (unread (ss_in s))")
    case True
    then obtain t where t: "unread (ss_in s) = head_of hs @ t" using longer_prefix [OF l [symmetric]] by blast
    then show ?thesis using found_head [OF assms(1,2) fr t small] by (simp add: first_whole_def Cons m wire_def split: if_splits)
  next
    case False
    then obtain q where q: "head_of hs = unread (ss_in s) @ q" "q \<noteq> []" using longer_prefix [OF l] by fastforce
    then show ?thesis using found_cut [OF assms(1,2) fr q] False by (simp add: first_whole_def Cons m wire_def)
  qed
qed

end
