(* ===== verification/Socket_Delivery.thy ===== *)
theory Socket_Delivery
  imports Socket_Stream
begin

text \<open>
  The reads of a stream socket, and what the code does with lengths and sizes that it does not expect.
\<close>

section \<open>Data that comes in, and messages that are read\<close>

datatype socket_op = Data string nat | Read

fun stream_step :: "socket_op \<Rightarrow> input \<times> string list \<Rightarrow> (input \<times> string list) res" where
  "stream_step (Data bytes from) (s, out) = bindE (empty_socket bytes from s) (\<lambda>s'. Inr (s', out))"
| "stream_step Read (s, out) =
     bindE (read_message SIPP_MAX_MSG_SIZE s) (\<lambda>(r, s'). Inr (s', case r of None \<Rightarrow> out | Some (m, _) \<Rightarrow> out @ [m]))"

text \<open>The specification: the bytes that came in, and how many messages were read.\<close>

definition sent :: "nat \<Rightarrow> (string list \<times> string) list \<Rightarrow> string" where
  "sent k ms = concat (map wire (take k ms))"

fun spec_step :: "(string list \<times> string) list \<Rightarrow> socket_op \<Rightarrow> string \<times> nat \<Rightarrow> string \<times> nat" where
  "spec_step ms (Data bytes from) (d, k) = (d @ bytes, k)"
| "spec_step ms Read (d, k) = (d, if first_whole (drop k ms) (drop (length (sent k ms)) d) \<noteq> 0 then k + 1 else k)"

fun spec_ok :: "(string list \<times> string) list \<Rightarrow> socket_op \<Rightarrow> string \<times> nat \<Rightarrow> bool" where
  "spec_ok ms (Data bytes from) (d, k) \<longleftrightarrow> bytes \<noteq> [] \<and> prefix (d @ bytes) (concat (map wire ms))"
| "spec_ok ms Read (d, k) \<longleftrightarrow> True"

text \<open>Messages that can be read: each fits in the array of the reader.\<close>

definition sound :: "(string list \<times> string) list \<Rightarrow> bool" where
  "sound ms \<longleftrightarrow> (\<forall>m \<in> set ms. framed m \<and> length (wire m) < SIPP_MAX_MSG_SIZE) \<and> length (concat (map wire ms)) < 2 ^ 63"

definition at_front :: "input \<Rightarrow> bool" where
  "at_front s \<longleftrightarrow> (ss_msglen s \<noteq> 0 \<longrightarrow> ss_in s \<noteq> [] \<and> sb_offset (hd (ss_in s)) + ss_msglen s \<le> length (sb_buf (hd (ss_in s))))"

fun reads :: "(string list \<times> string) list \<Rightarrow> string \<times> nat \<Rightarrow> input \<times> string list \<Rightarrow> bool" where
  "reads ms (d, k) (s, out) \<longleftrightarrow>
     sound ms \<and> k \<le> length ms \<and> prefix d (concat (map wire ms)) \<and> stream s \<and> bufs_ok (ss_in s) \<and> stored (ss_in s) \<le> length d \<and>
     out = map wire (take k ms) \<and> d = sent k ms @ unread (ss_in s) \<and> ss_msglen s = first_whole (drop k ms) (unread (ss_in s)) \<and>
     at_front s \<and> pending_messages s = of_bool (ss_msglen s \<noteq> 0)"

lemma unread_append [simp]: "unread (a @ b) = unread a @ unread b"
  by (simp add: unread_def)

lemma sent_prefix: "prefix (sent k ms @ u) (concat (map wire ms)) \<longleftrightarrow> prefix u (concat (map wire (drop k ms)))"
proof -
  have "concat (map wire ms) = sent k ms @ concat (map wire (drop k ms))"
    unfolding sent_def by (metis append_take_drop_id concat_append map_append)
  then show ?thesis by simp
qed

text \<open>After the search, the socket has the length of the next message.\<close>

lemma found_in_stream:
  assumes "sound ms" and "stream s" and "bufs_ok (ss_in s)" and "stored (ss_in s) < 2 ^ 63"
    and "prefix (unread (ss_in s)) (concat (map wire (drop k ms)))"
  shows "found (first_whole (drop k ms) (unread (ss_in s))) s"
proof (rule check_stream [OF assms(2,3) _ assms(5,4)])
  show "\<forall>m \<in> set (drop k ms). framed m" using assms(1) by (auto simp: sound_def dest: in_set_dropD)
  show "\<forall>m \<in> set (drop k ms). length (snd m) < 2 ^ 63"
    using assms(1) by (fastforce simp: sound_def wire_def SIPP_MAX_MSG_SIZE_def dest: in_set_dropD)
qed

lemma first_whole_size:
  assumes "sound ms"
  shows "first_whole (drop k ms) u < SIPP_MAX_MSG_SIZE"
proof (cases "drop k ms")
  case (Cons m rest)
  then have "m \<in> set ms" by (metis in_set_dropD list.set_intros(1))
  then show ?thesis using assms Cons by (auto simp: first_whole_def sound_def SIPP_MAX_MSG_SIZE_def)
qed (simp add: first_whole_def SIPP_MAX_MSG_SIZE_def)

lemma to_size_nat: "n < SIPP_MAX_MSG_SIZE \<Longrightarrow> to_size (int n) = n"
  by (simp add: to_size_def SIPP_MAX_MSG_SIZE_def)

lemma first_whole_more: "first_whole ms u \<noteq> 0 \<Longrightarrow> first_whole ms (u @ c) = first_whole ms u"
  by (auto simp: first_whole_def split: list.splits if_splits)

lemma front_more: "at_front s \<Longrightarrow> ss_msglen s \<noteq> 0 \<Longrightarrow> at_front (s\<lparr>ss_in := ss_in s @ bs\<rparr>)"
  by (auto simp: at_front_def)

lemma reads_data:
  assumes "reads ms (d, k) (s, out)" and "spec_ok ms (Data c a) (d, k)"
  shows "\<exists>s'. empty_socket c a s = Inr s' \<and> reads ms (d @ c, k) (s', out)"
proof -
  define s1 where "s1 = buffer_read (alloc_socketbuf c a) s"
  have R: "sound ms" "k \<le> length ms" "stream s" "bufs_ok (ss_in s)" "stored (ss_in s) \<le> length d" "d = sent k ms @ unread (ss_in s)"
      "ss_msglen s = first_whole (drop k ms) (unread (ss_in s))" "at_front s" "pending_messages s = of_bool (ss_msglen s \<noteq> 0)"
      "out = map wire (take k ms)"
    and c: "c \<noteq> []" "prefix (d @ c) (concat (map wire ms))"
    using assms by auto
  have u: "unread (ss_in s1) = unread (ss_in s) @ c" and st1: "stored (ss_in s1) = stored (ss_in s) + length c"
    by (simp_all add: s1_def buffer_read_def alloc_socketbuf_def)
  have ok1: "bufs_ok (ss_in s1)" and str1: "stream s1" and ml: "ss_msglen s1 = ss_msglen s"
    and in1: "s1 = s\<lparr>ss_in := ss_in s @ [alloc_socketbuf c a]\<rparr>"
    using bufs_ok_snoc [OF R(4) c(1), of a] R(3) by (simp_all add: s1_def buffer_read_def stream_def)
  show ?thesis
  proof (cases "ss_msglen s = 0")
    case False
    have "empty_socket c a s = Inr s1" using False ml by (simp add: empty_socket_def s1_def [symmetric] Let_def)
    moreover have "first_whole (drop k ms) (unread (ss_in s1)) = ss_msglen s1"
      unfolding u ml using first_whole_more R(7) False by metis
    moreover have "at_front s1" unfolding in1 using front_more [OF R(8) False] .
    moreover have "pending_messages s1 = of_bool (ss_msglen s1 \<noteq> 0)" using R(9) by (simp add: in1)
    ultimately show ?thesis using R(1,2,5,6,10) c(2) ok1 str1 u st1 by simp
  next
    case True
    have "prefix (unread (ss_in s1)) (concat (map wire (drop k ms)))"
      using c(2) R(6) u sent_prefix [of k ms "unread (ss_in s) @ c"] by simp
    moreover have "stored (ss_in s1) < 2 ^ 63"
      using R(1,5) prefix_length_le [OF c(2)] st1 by (simp add: sound_def)
    ultimately have "found (first_whole (drop k ms) (unread (ss_in s1))) s1" by (intro found_in_stream R(1) str1 ok1)
    then obtain bs where bs: "check_for_message s1 = Inr (int (first_whole (drop k ms) (unread (ss_in s1))), s1\<lparr>ss_in := bs\<rparr>)"
        "unread bs = unread (ss_in s1)" "bufs_ok bs" "stored bs \<le> stored (ss_in s1)"
        "first_whole (drop k ms) (unread (ss_in s1)) \<noteq> 0 \<longrightarrow> bs \<noteq> [] \<and>
          sb_offset (hd bs) + first_whole (drop k ms) (unread (ss_in s1)) \<le> length (sb_buf (hd bs))"
      unfolding found_def by blast
    define n where "n = first_whole (drop k ms) (unread (ss_in s1))"
    have sz: "to_size (int n) = n" unfolding n_def by (intro to_size_nat first_whole_size R(1))
    define s2 where "s2 = (if n \<noteq> 0 then s1\<lparr>ss_in := bs, ss_msglen := n, pending_messages := pending_messages s1 + 1\<rparr> else s1\<lparr>ss_in := bs\<rparr>)"
    have "empty_socket c a s = Inr s2"
      using True ml bs(1) sz by (simp add: empty_socket_def s1_def [symmetric] Let_def n_def [symmetric] s2_def)
    moreover have "ss_msglen s2 = n" "ss_in s2 = bs" "stream s2" "pending_messages s2 = of_bool (n \<noteq> 0)"
      using True ml R(9) str1 by (simp_all add: s2_def stream_def in1)
    moreover have "at_front s2" using bs(5) \<open>ss_msglen s2 = n\<close> \<open>ss_in s2 = bs\<close> by (simp add: at_front_def n_def)
    moreover have "n = first_whole (drop k ms) (unread bs)" by (simp add: n_def bs(2))
    moreover have "stored bs \<le> length (d @ c)" using bs(4) st1 R(5) by simp
    moreover have "d @ c = sent k ms @ unread bs" using R(6) bs(2) u by simp
    ultimately show ?thesis using R(1,2,10) c(2) bs(3) by simp
  qed
qed

text \<open>What is left of the first buffer once a message was taken from it.\<close>

definition taken :: "nat \<Rightarrow> socketbuf list \<Rightarrow> socketbuf list" where
  "taken n bs = (case bs of [] \<Rightarrow> [] | b # rest \<Rightarrow>
     if sb_offset b + n = length (sb_buf b) then rest else b\<lparr>sb_offset := sb_offset b + n\<rparr> # rest)"

lemma taken_ok:
  assumes "bufs_ok (b # rest)" and "sb_offset b + n \<le> length (sb_buf b)"
  shows "bufs_ok (taken n (b # rest))" and "unread (taken n (b # rest)) = drop n (unread (b # rest))"
    and "stored (taken n (b # rest)) \<le> stored (b # rest)"
proof -
  show "bufs_ok (taken n (b # rest))" using assms by (cases rest) (auto simp: bufs_ok_def taken_def)
  have n: "n \<le> length (sb_buf b) - sb_offset b" using assms by simp
  then show "unread (taken n (b # rest)) = drop n (unread (b # rest))" using assms by (auto simp: taken_def add.commute)
  show "stored (taken n (b # rest)) \<le> stored (b # rest)" by (auto simp: taken_def)
qed

lemma read_stream:
  assumes "stream s" and "ss_in s = b # rest" and "0 < ss_msglen s" and "ss_msglen s < SIPP_MAX_MSG_SIZE" and "at_front s"
  shows "read_message SIPP_MAX_MSG_SIZE s = bindE (check_for_message (s\<lparr>ss_in := taken (ss_msglen s) (ss_in s)\<rparr>)) (\<lambda>(n, s1).
    Inr (Some (take (ss_msglen s) (unread (ss_in s)), sb_addr b),
      if n \<noteq> 0 then s1\<lparr>ss_msglen := to_size n\<rparr> else s1\<lparr>ss_msglen := 0, pending_messages := pending_messages s1 - 1\<rparr>))"
proof -
  have le: "ss_msglen s \<le> length (sb_buf b) - sb_offset b" using assms(2,3,5) by (simp add: at_front_def)
  then have "min (length (sb_buf b) - sb_offset b) (ss_msglen s) = ss_msglen s" by simp
  moreover have "take (ss_msglen s) (unread (ss_in s)) = take (ss_msglen s) (drop (sb_offset b) (sb_buf b))" using le assms(2) by simp
  ultimately show ?thesis using assms by (simp add: read_message_def stream_def Let_def taken_def)
qed

lemma reads_read:
  assumes "reads ms (d, k) (s, out)" and "ss_msglen s \<noteq> 0"
  shows "\<exists>s'. stream_step Read (s, out) = Inr (s', out @ [wire (ms ! k)]) \<and> reads ms (d, k + 1) (s', out @ [wire (ms ! k)])"
proof -
  have R: "sound ms" "k \<le> length ms" "stream s" "bufs_ok (ss_in s)" "stored (ss_in s) \<le> length d" "d = sent k ms @ unread (ss_in s)"
      "ss_msglen s = first_whole (drop k ms) (unread (ss_in s))" "at_front s" "pending_messages s = of_bool (ss_msglen s \<noteq> 0)"
      "out = map wire (take k ms)" "prefix d (concat (map wire ms))"
    using assms(1) by auto
  obtain m ms' where m: "drop k ms = m # ms'" and n: "ss_msglen s = length (wire m)" "length (wire m) \<le> length (unread (ss_in s))"
    using assms(2) unfolding R(7) by (auto simp: first_whole_def split: list.splits if_splits)
  have k: "k < length ms" "ms ! k = m" "drop (k + 1) ms = ms'" "sent (k + 1) ms = sent k ms @ wire m" "take (k + 1) ms = take k ms @ [m]"
  proof -
    show k: "k < length ms" using m by (metis drop_eq_Nil leI list.distinct(1))
    show nth: "ms ! k = m" using m k by (metis hd_drop_conv_nth list.sel(1))
    show "drop (k + 1) ms = ms'" using m by (metis drop_Suc list.sel(3) Suc_eq_plus1 tl_drop)
    show tk: "take (k + 1) ms = take k ms @ [m]" using k nth by (simp add: take_Suc_conv_app_nth)
    show "sent (k + 1) ms = sent k ms @ wire m" unfolding sent_def tk by simp
  qed
  obtain b rest where b: "ss_in s = b # rest" using R(8) assms(2) by (cases "ss_in s") (auto simp: at_front_def)
  have off: "sb_offset b + length (wire m) \<le> length (sb_buf b)" using R(8) assms(2) b n(1) by (simp add: at_front_def)
  let ?bs = "taken (length (wire m)) (ss_in s)"
  let ?s1 = "s\<lparr>ss_in := ?bs\<rparr>"
  have t: "bufs_ok ?bs" "unread ?bs = drop (length (wire m)) (unread (ss_in s))" "stored ?bs \<le> stored (ss_in s)"
    using taken_ok [of b rest "length (wire m)"] R(4) off b by simp_all
  have pre: "prefix (unread (ss_in s)) (wire m @ concat (map wire ms'))"
    using R(6,11) sent_prefix [of k ms "unread (ss_in s)"] m by simp
  then have w: "unread (ss_in s) = wire m @ unread ?bs"
    unfolding t(2) using n(2) by (metis append_eq_conv_conj append_take_drop_id prefix_def take_append take_all_iff append_Nil2 diff_is_0_eq' take0)
  have pre': "prefix (unread ?bs) (concat (map wire (drop (k + 1) ms)))" using pre unfolding w k(3) by simp
  have "found (first_whole (drop (k + 1) ms) (unread (ss_in ?s1))) ?s1"
  proof (rule found_in_stream [OF R(1)])
    show "stream ?s1" using R(3) by (simp add: stream_def)
    show "stored (ss_in ?s1) < 2 ^ 63" using t(3) R(1,5) prefix_length_le [OF R(11)] by (simp add: sound_def)
  qed (use t(1) pre' in simp_all)
  define n' where "n' = first_whole (drop (k + 1) ms) (unread ?bs)"
  obtain bs where bs: "check_for_message ?s1 = Inr (int n', ?s1\<lparr>ss_in := bs\<rparr>)" "unread bs = unread ?bs" "bufs_ok bs"
      "stored bs \<le> stored ?bs" "n' \<noteq> 0 \<longrightarrow> bs \<noteq> [] \<and> sb_offset (hd bs) + n' \<le> length (sb_buf (hd bs))"
    using \<open>found _ ?s1\<close> unfolding found_def n'_def by auto
  have sz: "to_size (int n') = n'" unfolding n'_def by (intro to_size_nat first_whole_size R(1))
  define s2 where "s2 = (if n' \<noteq> 0 then s\<lparr>ss_in := bs, ss_msglen := n'\<rparr> else s\<lparr>ss_in := bs, ss_msglen := 0, pending_messages := 0\<rparr>)"
  have "ss_msglen s < SIPP_MAX_MSG_SIZE" unfolding R(7) by (intro first_whole_size R(1))
  then have "read_message SIPP_MAX_MSG_SIZE s = Inr (Some (wire m, sb_addr b), s2)"
    using read_stream [OF R(3) b _ _ R(8)] assms(2) bs(1) sz R(9) n(1) w by (simp add: s2_def)
  then have "stream_step Read (s, out) = Inr (s2, out @ [wire (ms ! k)])" by (simp add: k(2))
  moreover have "ss_msglen s2 = n'" "ss_in s2 = bs" "stream s2" "pending_messages s2 = of_bool (n' \<noteq> 0)"
    using R(3,9) assms(2) by (simp_all add: s2_def stream_def)
  moreover have "at_front s2" using bs(5) \<open>ss_msglen s2 = n'\<close> \<open>ss_in s2 = bs\<close> by (simp add: at_front_def)
  moreover have "n' = first_whole (drop (k + 1) ms) (unread bs)" by (simp add: n'_def bs(2))
  moreover have "d = sent (k + 1) ms @ unread bs" using R(6) w bs(2) k(4) by simp
  moreover have "stored bs \<le> length d" using bs(4) t(3) R(5) by linarith
  moreover have "out @ [wire (ms ! k)] = map wire (take (k + 1) ms)" using R(10) k(2,5) by simp
  ultimately show ?thesis using R(1,11) k(1) bs(3) by (intro exI [of _ s2]) simp
qed

interpretation tcp: simulation stream_step "spec_step ms" "spec_ok ms" "reads ms" for ms
proof
  fix a :: "string \<times> nat" and s :: "input \<times> string list" and x :: socket_op
  assume R: "reads ms a s" and ok: "spec_ok ms x a"
  obtain d k where a: "a = (d, k)" by force
  obtain i out where s: "s = (i, out)" by force
  show "\<exists>s'. stream_step x s = Inr s' \<and> reads ms (spec_step ms x a) s'"
  proof (cases x)
    case (Data c src)
    then show ?thesis using reads_data [of ms d k i out c src] R ok unfolding a s by (auto simp del: reads.simps spec_ok.simps)
  next
    case Read
    have fw: "first_whole (drop k ms) (drop (length (sent k ms)) d) = ss_msglen i" using R a s by simp
    show ?thesis
    proof (cases "ss_msglen i = 0")
      case True
      then show ?thesis using R fw unfolding a s Read by (auto simp: read_message_def simp del: reads.simps)
    next
      case False
      then show ?thesis using reads_read [of ms d k i out] R fw unfolding a s Read by (auto simp del: reads.simps stream_step.simps)
    qed
  qed
qed

section \<open>Every message is read, as it was sent\<close>

definition bytes_of :: "socket_op \<Rightarrow> string" where
  "bytes_of x = (case x of Data bytes from \<Rightarrow> bytes | Read \<Rightarrow> [])"

definition arrived :: "socket_op list \<Rightarrow> string" where
  "arrived ops = concat (map bytes_of ops)"

lemma arrived_simps [simp]: "arrived [] = []" "arrived (x # xs) = bytes_of x @ arrived xs" "arrived (xs @ ys) = arrived xs @ arrived ys"
  by (simp_all add: arrived_def)

lemma legal_arrived:
  "prefix (d @ arrived ops) (concat (map wire ms)) \<Longrightarrow> (\<forall>a. Data [] a \<notin> set ops) \<Longrightarrow>
    legal_run (spec_ok ms) (spec_step ms) ops (d, k) \<and> fst (fold (spec_step ms) ops (d, k)) = d @ arrived ops"
proof (induction ops arbitrary: d k)
  case (Cons x ops)
  show ?case
  proof (cases x)
    case (Data c src)
    have "prefix (d @ c) (concat (map wire ms))" using Cons.prems(1) Data by (auto simp: bytes_of_def prefix_def)
    moreover have "c \<noteq> []" using Cons.prems(2) Data by auto
    ultimately show ?thesis using Cons Data by (simp add: bytes_of_def)
  next
    case Read
    then show ?thesis using Cons by (simp add: bytes_of_def)
  qed
qed simp

lemma reads_new: "sound ms \<Longrightarrow> t = T_TCP \<or> t = T_TLS \<Longrightarrow> reads ms ([], 0) (new_input t False, [])"
  by (auto simp: new_input_def stream_def one_by_one_def TRANSPORT_IS_WS_def sent_def first_whole_def at_front_def split: list.split)

lemma delivers:
  assumes "sound ms" and "t = T_TCP \<or> t = T_TLS" and "\<forall>a. Data [] a \<notin> set ops" and "prefix (arrived ops) (concat (map wire ms))"
  obtains s out k where "run_res stream_step ops (new_input t False, []) = Inr (s, out)" and "reads ms (arrived ops, k) (s, out)"
    and "(arrived ops, k) = fold (spec_step ms) ops ([], 0)"
proof -
  have l: "legal_run (spec_ok ms) (spec_step ms) ops ([], 0)" "fst (fold (spec_step ms) ops ([], 0)) = arrived ops"
    using legal_arrived [of "[]" ops ms 0] assms(3,4) by simp_all
  from tcp.run_sim [OF reads_new [OF assms(1,2)] l(1)] obtain s out where
    "run_res stream_step ops (new_input t False, []) = Inr (s, out)" "reads ms (fold (spec_step ms) ops ([], 0)) (s, out)" by auto
  with l(2) show ?thesis using that [of s out "snd (fold (spec_step ms) ops ([], 0))"] by (metis prod.collapse)
qed

definition sample :: "(string list \<times> string) list" where
  "sample = [([''INVITE sip:a SIP/2.0'', ''content-length:  4''], ''body''), ([''SIP/2.0 200 OK'', ''l:0''], []), ([''BYE x SIP/2.0''], [])]"

definition pieces :: "socket_op list" where
  "pieces =
     [Data (take 10 (concat (map wire sample))) 1, Read, Data (take 38 (drop 10 (concat (map wire sample)))) 1, Read, Read,
      Data (drop 48 (concat (map wire sample))) 1]"

lemma sample_arrived: "arrived pieces = concat (map wire sample)" "\<forall>a. Data [] a \<notin> set pieces"
proof -
  show "arrived pieces = concat (map wire sample)" 
  proof -
    define u where "u = concat (map wire sample)"
    have "take 10 u @ take 38 (drop 10 u) @ drop 48 u = u" 
    proof -
      have "take 38 (drop 10 u) @ drop 48 u = drop 10 u" using append_take_drop_id [of 38 "drop 10 u"] by (simp del: append_take_drop_id)
      then show ?thesis by simp
    qed
    then show ?thesis by (simp add: pieces_def bytes_of_def u_def)
  qed
  have "length (concat (map wire sample)) > 50" by code_simp
  then show "\<forall>a. Data [] a \<notin> set pieces" by (auto simp: pieces_def) (auto simp: sample_def)
qed

lemma sample_sound: "sound sample"
proof -
  have "list_all framed sample" by code_simp
  moreover have "list_all (\<lambda>m. int (length (wire m)) < 65536) sample" by code_simp
  moreover have "int (length (concat (map wire sample))) < 2 ^ 63" by code_simp
  ultimately show ?thesis by (simp add: sound_def list_all_iff SIPP_MAX_MSG_SIZE_def)
qed

text \<open>
  C8: Whatever the pieces that the bytes of a TCP or TLS connection come in, and whenever messages are read between them, the messages come
  out as they were sent, in their order, and what was not read is held; the next message is announced as soon as it is whole, and counted.
\<close>

theorem tcp_delivers:
  assumes "sound ms" and "t = T_TCP \<or> t = T_TLS" and "\<forall>a. Data [] a \<notin> set ops" and "prefix (arrived ops) (concat (map wire ms))"
  shows "\<exists>s k. run_res stream_step ops (new_input t False, []) = Inr (s, map wire (take k ms)) \<and>
    arrived ops = concat (map wire (take k ms)) @ unread (ss_in s) \<and>
    ss_msglen s = first_whole (drop k ms) (unread (ss_in s)) \<and> pending_messages s = of_bool (ss_msglen s \<noteq> 0)"
proof -
  obtain s out k where r: "run_res stream_step ops (new_input t False, []) = Inr (s, out)" and R: "reads ms (arrived ops, k) (s, out)"
    using delivers [OF assms] by blast
  from R have "out = map wire (take k ms)" "arrived ops = sent k ms @ unread (ss_in s)"
    "ss_msglen s = first_whole (drop k ms) (unread (ss_in s))" "pending_messages s = of_bool (ss_msglen s \<noteq> 0)" by simp_all
  with r show ?thesis unfolding sent_def by blast
qed

theorem tcp_delivers_witness:
  "\<exists>s k. run_res stream_step pieces (new_input T_TLS False, []) = Inr (s, map wire (take k sample)) \<and>
    arrived pieces = concat (map wire (take k sample)) @ unread (ss_in s) \<and>
    ss_msglen s = first_whole (drop k sample) (unread (ss_in s)) \<and> pending_messages s = of_bool (ss_msglen s \<noteq> 0)"
  by (rule tcp_delivers [OF sample_sound]) (simp_all add: sample_arrived)

lemma reads_of_all:
  assumes "d = concat (map wire ms)" and "k \<le> length ms"
  shows "fold (spec_step ms) (replicate n Read) (d, k) = (d, min (k + n) (length ms))"
  using assms(2)
proof (induction n arbitrary: k)
  case (Suc n)
  have "drop (length (sent k ms)) d = concat (map wire (drop k ms))"
    unfolding assms(1) sent_def by (metis append_eq_conv_conj append_take_drop_id concat_append map_append)
  then have "first_whole (drop k ms) (drop (length (sent k ms)) d) \<noteq> 0 \<longleftrightarrow> k < length ms"
    by (cases "k < length ms") (simp_all add: first_whole_def Cons_nth_drop_Suc [symmetric])
  then show ?case using Suc by (auto simp: min_def)
qed simp

text \<open>
  Once all the bytes have come, as many reads as there are messages give every message, and nothing is left in the socket.
\<close>

theorem tcp_reads_all:
  assumes "sound ms" and "t = T_TCP \<or> t = T_TLS" and "\<forall>a. Data [] a \<notin> set ops" and "arrived ops = concat (map wire ms)"
  shows "\<exists>s. run_res stream_step (ops @ replicate (length ms) Read) (new_input t False, []) = Inr (s, map wire ms) \<and>
    ss_in s = [] \<and> ss_msglen s = 0 \<and> pending_messages s = 0"
proof -
  let ?ops = "ops @ replicate (length ms) Read"
  have arr: "arrived (replicate n Read) = []" for n by (induction n) (simp_all add: bytes_of_def)
  then have all: "arrived ?ops = concat (map wire ms)" using assms(4) by simp
  have data: "\<forall>a. Data [] a \<notin> set ?ops" using assms(3) by auto
  obtain s out k where r: "run_res stream_step ?ops (new_input t False, []) = Inr (s, out)" and R: "reads ms (arrived ?ops, k) (s, out)"
    and k: "(arrived ?ops, k) = fold (spec_step ms) ?ops ([], 0)"
    using delivers [OF assms(1,2) data] all by auto
  obtain s1 out1 k1 where R1: "reads ms (arrived ops, k1) (s1, out1)" and k1: "(arrived ops, k1) = fold (spec_step ms) ops ([], 0)"
    using delivers [OF assms(1-3)] assms(4) by (metis prefix_order.refl)
  have "k1 \<le> length ms" using R1 by simp
  then have "k = length ms" using k reads_of_all [of "arrived ops" ms k1 "length ms"] assms(4) by (simp add: k1 [symmetric])
  then have e: "out = map wire ms" "unread (ss_in s) = []" "ss_msglen s = 0" "pending_messages s = 0" "bufs_ok (ss_in s)"
    using R all by (simp_all add: sent_def first_whole_def)
  then have "ss_in s = []" by (cases "ss_in s") (auto simp: bufs_ok_def)
  with r e show ?thesis by blast
qed

theorem tcp_reads_all_witness:
  "\<exists>s. run_res stream_step (pieces @ replicate (length sample) Read) (new_input T_TCP False, []) = Inr (s, map wire sample) \<and>
    ss_in s = [] \<and> ss_msglen s = 0 \<and> pending_messages s = 0"
  by (rule tcp_reads_all [OF sample_sound]) (simp_all add: sample_arrived)

section \<open>Lengths that are not expected\<close>

text \<open>A message that fills the array of the reader: the zero byte after it is written past the end of the array.\<close>

lemma full_message_overruns:
  assumes "stream s" and "ss_in s = b # rest" and "ss_msglen s = SIPP_MAX_MSG_SIZE" and "at_front s"
  shows "read_message SIPP_MAX_MSG_SIZE s = Inl Undefined"
proof -
  have "SIPP_MAX_MSG_SIZE \<noteq> 0" by (simp add: SIPP_MAX_MSG_SIZE_def)
  moreover have "SIPP_MAX_MSG_SIZE \<le> length (sb_buf b) - sb_offset b" using assms \<open>SIPP_MAX_MSG_SIZE \<noteq> 0\<close> by (simp add: at_front_def)
  ultimately show ?thesis using assms(2,3) by (simp add: read_message_def Let_def min_def)
qed

text \<open>A negative length: the message ends before its headers do, and what is left of them starts the next one.\<close>

definition negative :: string where
  "negative = lines [''BYE a SIP/2.0'', ''l: -3''] @ CRLF"

lemma negative_length_cuts:
  "map_sum id fst (check_for_message ((new_input T_TCP False)\<lparr>ss_in := [alloc_socketbuf negative 1]\<rparr>)) = Inr (int (length negative) - 3)"
  by code_simp

text \<open>
  Behind a message of 17 bytes that was read from the same buffer, a length below the size of the headers makes the length of the message
  negative; as a size it is more than any array has, and the read ends the program.
\<close>

definition behind :: string where
  "behind = lines [''BYE a SIP/2.0''] @ CRLF @ lines [''BYE b SIP/2.0'', ''l: -31''] @ CRLF"

lemma negative_length_found:
  "map_sum id fst (check_for_message ((new_input T_TCP False)\<lparr>ss_in := [(alloc_socketbuf behind 1)\<lparr>sb_offset := 17\<rparr>]\<rparr>)) = Inr (- 6)"
  by code_simp

lemma negative_length_ends:
  assumes "n < 0" and "- (2 ^ 31) \<le> n" and "ss_msglen s = to_size n"
  shows "read_message SIPP_MAX_MSG_SIZE s = Inl (ERROR ''There is a message waiting that is bigger than the read size.'')"
proof -
  have "n mod 2 ^ 64 = n + 2 ^ 64" using assms(1,2) by (subst mod_pos_pos_trivial [of "n + 2 ^ 64" "2 ^ 64", symmetric]) simp_all
  then have "to_size n > 65536" using assms(2) by (simp add: to_size_def)
  then show ?thesis using assms(3) by (simp add: read_message_def SIPP_MAX_MSG_SIZE_def)
qed

end
