(* ===== verification/Socket_Output.thy ===== *)
theory Socket_Output
  imports Socket_Framing Websocket
begin

text \<open>
  What a socket does with what is written to it (\<^verbatim>\<open>socket.cpp\<close>): messages go to the system at once, or wait in buffers until it takes them. What
  the system answers to a write is an argument, by the number of the write, and so are the keys that mask the frames of a WebSocket. The bytes
  that the system took and the messages that were traced as sent are kept beside the state. A warning is left out.
\<close>

datatype errno = EWOULDBLOCK | EPIPE | ECONNRESET | ECONNREFUSED | ENOTCONN | ENOBUFS | Other_error

datatype sys_answer = Took nat | Refused errno

datatype sctp_state = SCTP_DOWN | SCTP_CONNECTING | SCTP_UP

record net =
  sys :: "nat \<Rightarrow> string \<Rightarrow> sys_answer"
  mask_key :: "nat \<Rightarrow> string"
  reset_number :: int
  reset_close :: bool

record out_state =
  os_transport :: transport
  os_accepted :: bool
  os_control :: bool
  os_dest :: nat
  os_invalid :: bool
  os_congested :: bool
  os_poll_writable :: bool
  sctpstate :: sctp_state
  ss_out :: "socketbuf list"
  os_ws :: "websocket option"
  ws_held :: string
  ws_held_full :: bool
  ss_ws_pong :: string
  pending_reset :: bool
  the_errno :: errno
  nb_net_cong :: nat
  nb_net_send_errors :: nat
  asked :: nat
  masks :: nat
  taken_bytes :: string
  traced :: "string list"

definition TRANSPORT_IS_TLS :: "transport \<Rightarrow> bool" where
  "TRANSPORT_IS_TLS t \<longleftrightarrow> t = T_TLS \<or> t = T_WSS"

definition WS_HELD_MAX :: nat where "WS_HELD_MAX = 16 * SIPP_MAX_MSG_SIZE"

definition reconnect_allowed :: "net \<Rightarrow> bool" where
  "reconnect_allowed env \<longleftrightarrow> reset_number env = - 1 \<or> reset_number env > 0"

section \<open>One write to the system\<close>

text \<open>The number of bytes that were taken, or -1 with an error.\<close>

definition write_primitive :: "net \<Rightarrow> string \<Rightarrow> out_state \<Rightarrow> int \<times> out_state" where
  "write_primitive env buffer s =
     (if os_invalid s then (- 1, s\<lparr>the_errno := EPIPE\<rparr>)
      else if os_congested s then (- 1, s\<lparr>the_errno := EWOULDBLOCK\<rparr>)
      else if os_transport s = T_SCTP \<and> sctpstate s = SCTP_DOWN then (- 1, s\<lparr>the_errno := EPIPE\<rparr>)
      else if os_transport s = T_SCTP \<and> sctpstate s = SCTP_CONNECTING then (- 1, s\<lparr>the_errno := EWOULDBLOCK\<rparr>)
      else
        case sys env (asked s) buffer of
          Took n \<Rightarrow> (int n, s\<lparr>asked := asked s + 1, taken_bytes := taken_bytes s @ take n buffer\<rparr>)
        | Refused e \<Rightarrow> (- 1, s\<lparr>asked := asked s + 1, the_errno := e\<rparr>))"

definition trace_sent :: "string \<Rightarrow> out_state \<Rightarrow> out_state" where
  "trace_sent buffer s = s\<lparr>traced := traced s @ [buffer]\<rparr>"

definition poll_out :: "out_state \<Rightarrow> out_state" where
  "poll_out s = s\<lparr>os_poll_writable := True\<rparr>"

definition enter_congestion :: "out_state \<Rightarrow> int \<times> out_state" where
  "enter_congestion s =
     (let s1 = poll_out (s\<lparr>nb_net_cong := nb_net_cong s + of_bool (\<not> os_congested s), os_congested := True\<rparr>)
      in (if os_transport s = T_SCTP \<and> sctpstate s = SCTP_CONNECTING then 0 else - 1, s1))"

text \<open>The connection is closed and the socket is kept; \<^verbatim>\<open>reset_connection\<close> makes it again.\<close>

definition drop_connection :: "out_state \<Rightarrow> out_state" where
  "drop_connection s =
     (if os_invalid s then s
      else s\<lparr>os_invalid := True, os_poll_writable := False, sctpstate := (if os_transport s = T_SCTP then SCTP_DOWN else sctpstate s)\<rparr>)"

definition gone :: "out_state \<Rightarrow> out_state" where
  "gone s = drop_connection (s\<lparr>nb_net_send_errors := nb_net_send_errors s + 1, pending_reset := True\<rparr>)"

definition write_error :: "net \<Rightarrow> out_state \<Rightarrow> (int \<times> out_state) res" where
  "write_error env s =
     (if the_errno s = EWOULDBLOCK then Inr (enter_congestion s)
      else if (os_transport s = T_TCP \<or> os_transport s = T_WS) \<and> os_accepted s \<and> \<not> os_control s \<and>
        (the_errno s = EPIPE \<or> the_errno s = ECONNRESET) then Inr (- 1, gone s)
      else if (os_transport s = T_TCP \<or> os_transport s = T_SCTP \<or> os_transport s = T_WS \<or> TRANSPORT_IS_TLS (os_transport s) \<and> \<not> os_accepted s) \<and>
        (the_errno s = EPIPE \<or> the_errno s = ECONNRESET \<or> the_errno s = ECONNREFUSED \<or> the_errno s = ENOTCONN) then
        (if reconnect_allowed env then Inr (- 1, gone s)
         else if the_errno s = EPIPE then Inl (ERROR ''Broken pipe on TCP connection, remote peer probably closed the socket'')
         else Inl (ERROR ''Error on TCP connection, remote peer probably closed the socket''))
      else Inr (- 1, s\<lparr>nb_net_send_errors := nb_net_send_errors s + 1\<rparr>))"

section \<open>Buffers\<close>

definition buffer_write :: "string \<Rightarrow> nat \<Rightarrow> bool \<Rightarrow> out_state \<Rightarrow> out_state" where
  "buffer_write buffer dest untraced s = s\<lparr>ss_out := ss_out s @ [(alloc_socketbuf buffer dest)\<lparr>sb_untraced := untraced\<rparr>]\<rparr>"

text \<open>A part of the last one was written (\<^verbatim>\<open>ss_out_tail->offset = rc\<close>).\<close>

definition tail_offset :: "nat \<Rightarrow> out_state \<Rightarrow> out_state" where
  "tail_offset n s = s\<lparr>ss_out := butlast (ss_out s) @ [last (ss_out s)\<lparr>sb_offset := n\<rparr>]\<rparr>"

definition buffer_whole :: "string \<Rightarrow> string \<Rightarrow> nat \<Rightarrow> out_state \<Rightarrow> out_state" where
  "buffer_whole buffer out dest s =
     (if os_ws s \<noteq> None then buffer_write out dest False (trace_sent buffer s) else buffer_write out dest True s)"

definition drop_out :: "out_state \<Rightarrow> out_state" where
  "drop_out s = s\<lparr>ss_out := []\<rparr>"

definition all_written :: "out_state \<Rightarrow> bool" where
  "all_written s \<longleftrightarrow> \<not> os_invalid s \<and> ss_out s = [] \<and> \<not> (os_ws s \<noteq> None \<and> ws_held s \<noteq> [])"

definition keep :: "net \<Rightarrow> string \<Rightarrow> bool \<Rightarrow> nat \<Rightarrow> out_state \<Rightarrow> out_state option" where
  "keep env buffer ws_keep dest s =
     (if \<not> ws_keep \<or> \<not> os_invalid s \<or> reset_close env \<or> os_accepted s \<or> os_control s \<or> \<not> pending_reset s then None
      else case os_ws s of
        Some ws \<Rightarrow> Some (trace_sent buffer (s\<lparr>ws_held := ws_held s @ ws_frame ws (mask_key env (masks s)) buffer, masks := masks s + 1\<rparr>))
      | None \<Rightarrow> Some (buffer_whole buffer buffer dest s))"

text \<open>A WebSocket's own frame: now, unless other data waits.\<close>

definition ws_reply :: "net \<Rightarrow> string \<Rightarrow> out_state \<Rightarrow> out_state" where
  "ws_reply env reply s =
     (let (rc, s1) = (if ss_out s = [] then write_primitive env reply s else (0, s))
      in if ss_out s = [] \<and> rc < 0 \<and> the_errno s1 \<noteq> EWOULDBLOCK then s1
         else if ss_out s = [] \<and> rc = int (length reply) then s1
         else poll_out (tail_offset (nat rc) (buffer_write reply (os_dest s1) False s1)))"

section \<open>Flushing and writing\<close>

function flush_out :: "net \<Rightarrow> out_state \<Rightarrow> (int option \<times> out_state) res" where
  "flush_out env s =
     (case ss_out s of
        [] \<Rightarrow> Inr (None, s)
      | b # rest \<Rightarrow>
          let data = drop (sb_offset b) (sb_buf b); (ret, s1) = write_primitive env data s
          in if ret = int (length data) then
               flush_out env ((if sb_untraced b then trace_sent (sb_buf b) s1 else s1)\<lparr>ss_out := rest\<rparr>)
             else if ret \<le> 0 then bindE (write_error env s1) (\<lambda>(r, s2). Inr (Some r, s2))
             else Inr (Some (- 1), snd (enter_congestion (s1\<lparr>ss_out := b\<lparr>sb_offset := sb_offset b + nat ret\<rparr> # rest, the_errno := EWOULDBLOCK\<rparr>))))"
  by pat_completeness auto
termination
  by (relation "measure (\<lambda>(env, s). length (ss_out s))") auto

declare flush_out.simps [simp del]

definition flush :: "net \<Rightarrow> out_state \<Rightarrow> (int \<times> out_state) res" where
  "flush env s =
     bindE (flush_out env s) (\<lambda>(r, s1).
       case r of
         Some rc \<Rightarrow> Inr (rc, s1)
       | None \<Rightarrow>
           if ss_ws_pong s1 \<noteq> [] then
             let s2 = ws_reply env (ss_ws_pong s1) (s1\<lparr>ss_ws_pong := []\<rparr>)
             in if ss_out s2 \<noteq> [] then Inr (- 1, s2\<lparr>the_errno := EWOULDBLOCK\<rparr>) else Inr (0, s2)
           else Inr (0, s1))"

text \<open>What is written once nothing waits any more.\<close>

definition write_now :: "net \<Rightarrow> string \<Rightarrow> string \<Rightarrow> bool \<Rightarrow> bool \<Rightarrow> nat \<Rightarrow> out_state \<Rightarrow> (int \<times> out_state) res" where
  "write_now env buffer out ws_buffer ws_keep dest s =
     (let (rc, s1) = write_primitive env out s
      in if rc = int (length out) then Inr (int (length buffer), trace_sent buffer s1)
         else if rc \<le> 0 then
           (if the_errno s1 = EWOULDBLOCK \<and> ws_buffer then
              Inr (int (length buffer), snd (enter_congestion (buffer_whole buffer out dest s1)))
            else bindE (write_error env s1) (\<lambda>(r, s2).
              Inr (case keep env buffer ws_keep dest s2 of Some s3 \<Rightarrow> (int (length buffer), s3) | None \<Rightarrow> (r, s2))))
         else Inr (rc, snd (enter_congestion (tail_offset (nat rc) (buffer_write out dest False s1)))))"

definition write_out :: "net \<Rightarrow> string \<Rightarrow> string \<Rightarrow> bool \<Rightarrow> bool \<Rightarrow> nat \<Rightarrow> out_state \<Rightarrow> (int \<times> out_state) res" where
  "write_out env buffer out ws_buffer ws_keep dest s =
     (if ss_out s = [] then write_now env buffer out ws_buffer ws_keep dest s
      else bindE (flush env s) (\<lambda>(rc, s1).
        if rc < 0 then
          (if the_errno s1 = EWOULDBLOCK \<and> ws_buffer then Inr (int (length buffer), buffer_whole buffer out dest s1)
           else Inr (case keep env buffer ws_keep dest s1 of Some s2 \<Rightarrow> (int (length buffer), s2) | None \<Rightarrow> (rc, s1)))
        else write_now env buffer out ws_buffer ws_keep dest s1))"

definition socket_write :: "net \<Rightarrow> string \<Rightarrow> bool \<Rightarrow> bool \<Rightarrow> nat \<Rightarrow> out_state \<Rightarrow> (int \<times> out_state) res" where
  "socket_write env buffer ws_buffer ws_keep dest s =
     (case os_ws s of
        Some ws \<Rightarrow>
          if os_invalid s then write_out env buffer buffer ws_buffer ws_keep dest s
          else let frame = ws_frame ws (mask_key env (masks s)) buffer; s1 = s\<lparr>masks := masks s + 1\<rparr>
               in if \<not> ws_open ws then
                    (if length (ws_held s) + length frame > WS_HELD_MAX then Inr (- 1, s1\<lparr>ws_held_full := True, the_errno := ENOBUFS\<rparr>)
                     else Inr (int (length buffer), trace_sent buffer (s1\<lparr>ws_held := ws_held s @ frame\<rparr>)))
                  else write_out env buffer frame ws_buffer ws_keep dest s1
      | None \<Rightarrow> write_out env buffer buffer ws_buffer ws_keep dest s)"

text \<open>The poll loop found that the socket can be written to.\<close>

definition poll_writable :: "net \<Rightarrow> out_state \<Rightarrow> out_state res" where
  "poll_writable env s =
     (if os_transport s = T_SCTP \<and> sctpstate s \<noteq> SCTP_UP then Inr s
      else bindE (flush env (s\<lparr>os_poll_writable := False, os_congested := False\<rparr>)) (\<lambda>(rc, s1). Inr s1))"

end
