(* ===== verification/Socket_Written.thy ===== *)
theory Socket_Written
  imports Socket_Output
begin

text \<open>
  What is written to a socket goes out whole and in order: the bytes that the system took and those that wait are, together, the messages that
  were accepted, whatever the system takes of each and whenever.
\<close>

section \<open>The bytes that were accepted\<close>

definition accepted :: "out_state \<Rightarrow> string" where
  "accepted s = taken_bytes s @ unread (ss_out s)"

text \<open>The system takes no more than it is given.\<close>

definition honest :: "net \<Rightarrow> bool" where
  "honest env \<longleftrightarrow> (\<forall>n b k. sys env n b = Took k \<longrightarrow> k \<le> length b)"

text \<open>A socket that is no WebSocket.\<close>

definition bare :: "out_state \<Rightarrow> bool" where
  "bare s \<longleftrightarrow> os_ws s = None \<and> ss_ws_pong s = []"

lemma write_primitive_cases:
  assumes "honest env" and "write_primitive env b s = (rc, s1)"
  shows "(rc = - 1 \<and> taken_bytes s1 = taken_bytes s \<or>
      \<not> os_congested s \<and> 0 \<le> rc \<and> rc \<le> int (length b) \<and> taken_bytes s1 = taken_bytes s @ take (nat rc) b) \<and>
    ss_out s1 = ss_out s \<and> bare s1 = bare s \<and> os_congested s1 = os_congested s"
  using assms by (auto simp: write_primitive_def honest_def bare_def split: if_splits sys_answer.splits)

lemma accepted_frame [simp]:
  "accepted (s\<lparr>nb_net_send_errors := n\<rparr>) = accepted s" "accepted (trace_sent b s) = accepted s" "accepted (s\<lparr>the_errno := e\<rparr>) = accepted s"
  "accepted (s\<lparr>os_poll_writable := a, os_congested := c\<rparr>) = accepted s"
  by (simp_all add: accepted_def trace_sent_def)

lemma bare_frame [simp]:
  "bare (s\<lparr>nb_net_send_errors := n\<rparr>) = bare s" "bare (trace_sent b s) = bare s" "bare (s\<lparr>the_errno := e\<rparr>) = bare s"
  "bare (s\<lparr>os_poll_writable := a, os_congested := c\<rparr>) = bare s" "bare (s\<lparr>ss_out := bs\<rparr>) = bare s"
  by (simp_all add: bare_def trace_sent_def)

lemma enter_congestion_keeps:
  "accepted (snd (enter_congestion s)) = accepted s" "bare (snd (enter_congestion s)) = bare s" "os_congested (snd (enter_congestion s))"
  "fst (enter_congestion s) \<le> 0"
  by (simp_all add: enter_congestion_def poll_out_def accepted_def bare_def Let_def)

lemma gone_keeps [simp]: "accepted (gone s) = accepted s" "bare (gone s) = bare s"
  by (simp_all add: gone_def drop_connection_def accepted_def bare_def)

lemma write_error_keeps:
  assumes "write_error env s = Inr (r, s1)"
  shows "accepted s1 = accepted s" and "bare s1 = bare s" and "r \<le> 0" and "r = 0 \<Longrightarrow> os_congested s1"
proof -
  have "s1 = snd (enter_congestion s) \<and> r = fst (enter_congestion s) \<or> r = - 1 \<and> (s1 = gone s \<or> s1 = s\<lparr>nb_net_send_errors := nb_net_send_errors s + 1\<rparr>)"
    using assms by (auto simp: write_error_def split: if_splits)
  then show "accepted s1 = accepted s" "bare s1 = bare s" "r \<le> 0" "r = 0 \<Longrightarrow> os_congested s1"
    using enter_congestion_keeps [of s] by auto
qed

lemma flush_out_keeps:
  assumes "honest env" and "flush_out env s = Inr (r, s1)"
  shows "accepted s1 = accepted s \<and> bare s1 = bare s \<and>
    (case r of None \<Rightarrow> ss_out s1 = [] | Some rc \<Rightarrow> rc \<le> 0 \<and> (rc = 0 \<longrightarrow> os_congested s1))"
  using assms(2,1)
proof (induction env s rule: flush_out.induct)
  case (1 env s)
  show ?case
  proof (cases "ss_out s")
    case Nil
    then show ?thesis using 1(2) by (subst (asm) flush_out.simps) auto
  next
    case (Cons b rest)
    let ?data = "drop (sb_offset b) (sb_buf b)"
    obtain ret s2 where w: "write_primitive env ?data s = (ret, s2)" by force
    note wp = write_primitive_cases [OF 1(3) w]
    show ?thesis
    proof (cases "ret = int (length ?data)")
      case True
      let ?s3 = "(if sb_untraced b then trace_sent (sb_buf b) s2 else s2)\<lparr>ss_out := rest\<rparr>"
      have "flush_out env ?s3 = Inr (r, s1)" using 1(2) True w by (subst (asm) flush_out.simps) (simp add: Cons)
      moreover have "accepted ?s3 = accepted s" using wp True Cons by (auto simp: accepted_def trace_sent_def)
      moreover have "bare ?s3 = bare s" using wp by auto
      ultimately show ?thesis using 1(1) [OF Cons refl w [symmetric] refl True] 1(3) by auto
    next
      case False
      show ?thesis
      proof (cases "ret \<le> 0")
        case True
        then obtain rc where "write_error env s2 = Inr (rc, s1)" "r = Some rc"
          using 1(2) False w by (subst (asm) flush_out.simps) (auto simp: Cons)
        moreover have "accepted s2 = accepted s" using wp True by (auto simp: accepted_def)
        ultimately show ?thesis using write_error_keeps [of env s2 rc s1] wp by auto
      next
        case more: False
        let ?s3 = "s2\<lparr>ss_out := b\<lparr>sb_offset := sb_offset b + nat ret\<rparr> # rest, the_errno := EWOULDBLOCK\<rparr>"
        have "s1 = snd (enter_congestion ?s3)" "r = Some (- 1)" using 1(2) False more w by (subst (asm) flush_out.simps, simp add: Cons)+
        moreover have "accepted ?s3 = accepted s"
          using wp more Cons append_take_drop_id [of "nat ret" ?data] by (auto simp: accepted_def add.commute)
        moreover have "bare ?s3 = bare s" using wp by (simp add: bare_def)
        ultimately show ?thesis using enter_congestion_keeps [of ?s3] by simp
      qed
    qed
  qed
qed

lemma flush_keeps:
  assumes "honest env" and "bare s" and "flush env s = Inr (rc, s1)"
  shows "accepted s1 = accepted s" and "bare s1" and "ss_out s1 = [] \<or> os_congested s1 \<or> rc < 0"
proof -
  obtain r s0 where f: "flush_out env s = Inr (r, s0)" using assms(3) by (auto simp: flush_def)
  note F = flush_out_keeps [OF assms(1) f]
  have "ss_ws_pong s0 = []" using F assms(2) by (simp add: bare_def)
  then have "s1 = s0 \<and> rc = (case r of None \<Rightarrow> 0 | Some n \<Rightarrow> n)" using assms(3) f by (auto simp: flush_def split: option.splits)
  then show "accepted s1 = accepted s" "bare s1" "ss_out s1 = [] \<or> os_congested s1 \<or> rc < 0"
    using F assms(2) by (auto split: option.splits)
qed

lemma unread_snoc [simp]: "unread (bs @ [(alloc_socketbuf m d)\<lparr>sb_untraced := u\<rparr>]) = unread bs @ m"
  by (simp add: unread_def alloc_socketbuf_def)

lemma buffer_keeps [simp]:
  "accepted (buffer_write m d u s) = accepted s @ m" "bare (buffer_write m d u s) = bare s"
  "bare s \<Longrightarrow> buffer_whole b m d s = buffer_write m d True s"
  by (simp_all add: accepted_def bare_def buffer_write_def buffer_whole_def)

lemma keep_keeps: "keep env m k d s = Some s1 \<Longrightarrow> bare s \<Longrightarrow> accepted s1 = accepted s @ m \<and> bare s1"
  by (auto simp: keep_def bare_def [of s] split: if_splits option.splits)

lemma tail_keeps:
  assumes "ss_out s = []" and "n \<le> length m"
  shows "accepted (tail_offset n (buffer_write m d u s)) = taken_bytes s @ drop n m" and "bare (tail_offset n (buffer_write m d u s)) = bare s"
  using assms by (simp_all add: accepted_def bare_def tail_offset_def buffer_write_def alloc_socketbuf_def)

text \<open>A write adds the message behind what was accepted before, all of it or none.\<close>

definition adds :: "string \<Rightarrow> out_state \<Rightarrow> int \<Rightarrow> out_state \<Rightarrow> bool" where
  "adds m s r s1 \<longleftrightarrow> accepted s1 = accepted s @ (if 0 < r then m else []) \<and> bare s1"

lemma write_now_adds:
  assumes "honest env" and "bare s" and free: "ss_out s = [] \<or> os_congested s" and "write_now env m m b k d s = Inr (r, s')"
  shows "adds m s r s'"
proof -
  obtain rc s1 where w: "write_primitive env m s = (rc, s1)" by force
  note wp = write_primitive_cases [OF assms(1) w]
  have bare: "bare s1" using wp assms(2) by simp
  consider "rc = int (length m)" | "rc \<noteq> int (length m)" "rc \<le> 0" | "rc \<noteq> int (length m)" "rc > 0" by linarith
  then show ?thesis
  proof cases
    case 1
    then have "ss_out s = []" using wp free by auto
    then have "accepted s1 = accepted s @ m" using wp 1 by (auto simp: accepted_def)
    moreover have "r = int (length m)" "s' = trace_sent m s1" using assms(4) w 1 by (auto simp: write_now_def)
    ultimately show ?thesis using bare by (cases m) (auto simp: adds_def)
  next
    case 2
    have acc: "accepted s1 = accepted s" using wp 2(2) by (auto simp: accepted_def)
    have len: "r = int (length m) \<and> accepted s' = accepted s1 @ m \<and> bare s' \<Longrightarrow> ?thesis"
      using acc by (cases m) (auto simp: adds_def)
    show ?thesis
    proof (cases "the_errno s1 = EWOULDBLOCK \<and> b")
      case True
      then have "r = int (length m)" "s' = snd (enter_congestion (buffer_write m d True s1))"
        using assms(4) w 2 bare by (auto simp: write_now_def)
      then show ?thesis using bare by (intro len) (simp add: enter_congestion_keeps)
    next
      case False
      then obtain r2 s2 where e: "write_error env s1 = Inr (r2, s2)"
        and r: "(case keep env m k d s2 of Some s3 \<Rightarrow> (int (length m), s3) | None \<Rightarrow> (r2, s2)) = (r, s')"
        using assms(4) w 2 by (auto simp: write_now_def)
      note E = write_error_keeps [OF e]
      show ?thesis
      proof (cases "keep env m k d s2")
        case None
        then show ?thesis using r E bare acc by (auto simp: adds_def)
      next
        case (Some s3)
        then show ?thesis using r keep_keeps [OF Some] E bare by (intro len) simp
      qed
    qed
  next
    case 3
    then have none: "ss_out s1 = []" and n: "nat rc \<le> length m" using wp free by auto
    have r: "r = rc" "s' = snd (enter_congestion (tail_offset (nat rc) (buffer_write m d False s1)))"
      using assms(4) w 3 by (auto simp: write_now_def)
    have "accepted s' = taken_bytes s1 @ drop (nat rc) m" "bare s'"
      unfolding r(2) using tail_keeps [OF none n] bare by (simp_all add: enter_congestion_keeps)
    moreover have "taken_bytes s1 = taken_bytes s @ take (nat rc) m" "ss_out s = []" using wp 3 free by auto
    ultimately show ?thesis using 3 r(1) by (simp add: adds_def accepted_def)
  qed
qed

lemma socket_write_adds:
  assumes "honest env" and "bare s" and "socket_write env m b k d s = Inr (r, s')"
  shows "adds m s r s'"
proof -
  have w: "write_out env m m b k d s = Inr (r, s')" using assms(2,3) by (simp add: socket_write_def bare_def)
  show ?thesis
  proof (cases "ss_out s = []")
    case True
    then show ?thesis using w write_now_adds [OF assms(1,2)] by (simp add: write_out_def)
  next
    case False
    then obtain rc s1 where f: "flush env s = Inr (rc, s1)" using w by (auto simp: write_out_def)
    note F = flush_keeps [OF assms(1,2) f]
    show ?thesis
    proof (cases "rc < 0")
      case neg: True
      have len: "r = int (length m) \<and> accepted s' = accepted s1 @ m \<and> bare s' \<Longrightarrow> ?thesis"
        using F(1) by (cases m) (auto simp: adds_def)
      consider "the_errno s1 = EWOULDBLOCK \<and> b" "r = int (length m)" "s' = buffer_write m d True s1"
        | s2 where "keep env m k d s1 = Some s2" "r = int (length m)" "s' = s2" | "r = rc" "s' = s1"
        using w False f neg F(2) by (auto simp: write_out_def split: if_splits option.splits)
      then show ?thesis
      proof cases
        case 1
        then show ?thesis using F(2) by (intro len) simp
      next
        case (2 s2)
        then show ?thesis using keep_keeps F(2) by (intro len) blast
      next
        case 3
        then show ?thesis using F(1,2) neg by (simp add: adds_def)
      qed
    next
      case pos: False
      then have "write_now env m m b k d s1 = Inr (r, s')" using w False f by (simp add: write_out_def)
      then show ?thesis using write_now_adds [OF assms(1) F(2)] F(1,3) pos by (auto simp: adds_def)
    qed
  qed
qed

section \<open>Writes and polls\<close>

datatype out_op = Write string bool bool nat | Writable

fun out_step :: "net \<Rightarrow> out_op \<Rightarrow> out_state \<times> string list \<Rightarrow> (out_state \<times> string list) res" where
  "out_step env (Write m b k d) (s, ms) = bindE (socket_write env m b k d s) (\<lambda>(r, s1). Inr (s1, if 0 < r then ms @ [m] else ms))"
| "out_step env Writable (s, ms) = bindE (poll_writable env s) (\<lambda>s1. Inr (s1, ms))"

definition in_order :: "net \<Rightarrow> string \<Rightarrow> out_state \<times> string list \<Rightarrow> bool" where
  "in_order env start x \<longleftrightarrow> honest env \<and> bare (fst x) \<and> accepted (fst x) = start @ concat (snd x)"

lemma poll_keeps:
  assumes "honest env" and "bare s" and "poll_writable env s = Inr s1"
  shows "accepted s1 = accepted s \<and> bare s1"
proof -
  let ?s = "s\<lparr>os_poll_writable := False, os_congested := False\<rparr>"
  consider "s1 = s" | rc where "flush env ?s = Inr (rc, s1)" using assms(3) by (auto simp: poll_writable_def split: if_splits)
  then show ?thesis
  proof cases
    case (2 rc)
    have "bare ?s" using assms(2) by simp
    from flush_keeps [OF assms(1) this 2] show ?thesis by simp
  qed (use assms(2) in simp)
qed

lemma out_step_keeps:
  assumes "in_order env start x" and "out_step env op x = Inr y"
  shows "in_order env start y"
proof -
  obtain s ms where x: "x = (s, ms)" by force
  show ?thesis
  proof (cases op)
    case (Write m b k d)
    then obtain r s1 where "socket_write env m b k d s = Inr (r, s1)" and y: "y = (s1, if 0 < r then ms @ [m] else ms)"
      using assms(2) x by auto
    then have "adds m s r s1" using socket_write_adds assms(1) x unfolding in_order_def by auto
    then show ?thesis using assms(1) x y by (simp add: in_order_def adds_def)
  next
    case Writable
    then show ?thesis using assms poll_keeps x by (auto simp: in_order_def)
  qed
qed

interpretation out: invariant "out_step env" "in_order env start" for env start
  by unfold_locales (rule out_step_keeps)

text \<open>
  C9: Messages that are written to a socket go out whole, once and in order: whatever part of each write the system takes and whenever the socket
  is written to again, the bytes that the system took followed by those that wait are the messages whose write was accepted. A message
  that was not accepted has left nothing behind.
\<close>

theorem writes_in_order:
  assumes "\<forall>n b k. sys env n b = Took k \<longrightarrow> k \<le> length b" and "os_ws s = None" and "ss_ws_pong s = []" and "ss_out s = []"
    and "taken_bytes s = []" and "run_res (out_step env) ops (s, []) = Inr (s', ms)"
  shows "taken_bytes s' @ unread (ss_out s') = concat ms"
proof -
  have "in_order env [] (s, [])" using assms(1-5) by (simp add: in_order_def honest_def bare_def accepted_def)
  from out.run_keeps [OF this assms(6)] show ?thesis by (simp add: in_order_def accepted_def)
qed

section \<open>What waits goes out\<close>

lemma flush_out_all:
  assumes "\<forall>n b. sys env n b = Took (length b)" and "\<not> os_invalid s" and "\<not> os_congested s" and "os_transport s = T_SCTP \<longrightarrow> sctpstate s = SCTP_UP"
  shows "\<exists>s1. flush_out env s = Inr (None, s1) \<and> ss_out s1 = [] \<and> taken_bytes s1 = accepted s \<and> ss_ws_pong s1 = ss_ws_pong s \<and>
    os_invalid s1 = os_invalid s \<and> os_ws s1 = os_ws s"
  using assms
proof (induction env s rule: flush_out.induct)
  case (1 env s)
  show ?case
  proof (cases "ss_out s")
    case Nil
    then show ?thesis by (subst flush_out.simps) (simp add: accepted_def)
  next
    case (Cons b rest)
    let ?data = "drop (sb_offset b) (sb_buf b)"
    let ?s2 = "s\<lparr>asked := asked s + 1, taken_bytes := taken_bytes s @ ?data\<rparr>"
    let ?s3 = "(if sb_untraced b then trace_sent (sb_buf b) ?s2 else ?s2)\<lparr>ss_out := rest\<rparr>"
    have w: "write_primitive env ?data s = (int (length ?data), ?s2)" using 1(2-5) by (auto simp: write_primitive_def)
    have f: "flush_out env s = flush_out env ?s3" using w by (subst flush_out.simps) (simp add: Cons)
    have same: "accepted ?s3 = accepted s" "ss_ws_pong ?s3 = ss_ws_pong s" "os_ws ?s3 = os_ws s" "os_invalid ?s3 = os_invalid s"
        "os_congested ?s3 = os_congested s" "os_transport ?s3 = os_transport s" "sctpstate ?s3 = sctpstate s"
      using Cons by (simp_all add: accepted_def trace_sent_def)
    from 1(1) [OF Cons refl w [symmetric] refl refl 1(2)] 1(3-5) show ?thesis unfolding f same by blast
  qed
qed

text \<open>
  C2: Once the system takes what it is given, a poll that finds the socket writable sends everything that waits, behind what was sent before.
\<close>

theorem writable_writes_all:
  assumes "\<forall>n b. sys env n b = Took (length b)" and "\<not> os_invalid s" and "os_transport s = T_SCTP \<longrightarrow> sctpstate s = SCTP_UP"
    and "os_ws s = None" and "ss_ws_pong s = []"
  shows "\<exists>s1. poll_writable env s = Inr s1 \<and> taken_bytes s1 = taken_bytes s @ unread (ss_out s) \<and> all_written s1"
proof -
  let ?s = "s\<lparr>os_poll_writable := False, os_congested := False\<rparr>"
  obtain s1 where f: "flush_out env ?s = Inr (None, s1)" and s1: "ss_out s1 = []" "taken_bytes s1 = accepted ?s" "ss_ws_pong s1 = []"
      "\<not> os_invalid s1" "os_ws s1 = None"
    using flush_out_all [of env ?s] assms by auto
  have "poll_writable env s = Inr s1" using f s1(3) assms(3) by (auto simp: poll_writable_def flush_def)
  moreover have "taken_bytes s1 = taken_bytes s @ unread (ss_out s)" using s1(2) by (simp add: accepted_def)
  ultimately show ?thesis using s1 by (simp add: all_written_def)
qed

section \<open>A connection that takes little at first\<close>

definition slow_net :: net where
  "slow_net =
     \<lparr>sys = \<lambda>n b. if n = 0 then Took (min 3 (length b)) else if n = 1 then Refused EWOULDBLOCK else Took (length b), mask_key = \<lambda>n. [], reset_number = 0,
      reset_close = True\<rparr>"

definition fast_net :: net where
  "fast_net = slow_net\<lparr>sys := \<lambda>n b. Took (length b)\<rparr>"

definition new_output :: out_state where
  "new_output =
     \<lparr>os_transport = T_TCP, os_accepted = False, os_control = False, os_dest = 1, os_invalid = False, os_congested = False, os_poll_writable = False,
      sctpstate = SCTP_DOWN, ss_out = [], os_ws = None, ws_held = [], ws_held_full = False, ss_ws_pong = [], pending_reset = False,
      the_errno = Other_error, nb_net_cong = 0, nb_net_send_errors = 0, asked = 0, masks = 0, taken_bytes = [], traced = []\<rparr>"

definition slow_ops :: "out_op list" where
  "slow_ops = [Write ''INVITE'' True False 1, Write ''ACK'' True False 1, Write ''BYE'' False False 1, Writable, Writable, Write ''INFO'' False False 1]"

theorem writes_in_order_witness:
  "\<exists>s' ms. run_res (out_step slow_net) slow_ops (new_output, []) = Inr (s', ms) \<and> ms = [''INVITE'', ''ACK'', ''INFO''] \<and>
    taken_bytes s' @ unread (ss_out s') = concat ms"
proof -
  have "case run_res (out_step slow_net) slow_ops (new_output, []) of Inl e \<Rightarrow> False | Inr (s', ms) \<Rightarrow> ms = [''INVITE'', ''ACK'', ''INFO'']"
    by code_simp
  then obtain s' ms where r: "run_res (out_step slow_net) slow_ops (new_output, []) = Inr (s', ms)" and ms: "ms = [''INVITE'', ''ACK'', ''INFO'']"
    by (auto split: sum.splits)
  have "taken_bytes s' @ unread (ss_out s') = concat ms"
    by (rule writes_in_order [OF _ _ _ _ _ r]) (simp_all add: slow_net_def new_output_def)
  with r ms show ?thesis by blast
qed

theorem writable_writes_all_witness:
  "\<exists>s1. poll_writable fast_net (buffer_write ''ACK'' 1 True new_output) = Inr s1 \<and>
    taken_bytes s1 = taken_bytes (buffer_write ''ACK'' 1 True new_output) @ unread (ss_out (buffer_write ''ACK'' 1 True new_output)) \<and> all_written s1"
  by (rule writable_writes_all) (simp_all add: fast_net_def slow_net_def new_output_def buffer_write_def)

end
