(* ===== verification/Socket_Pool.thy ===== *)
theory Socket_Pool
  imports Socket_Input
begin

text \<open>
  The array of the sockets that are polled (\<^verbatim>\<open>socket.cpp\<close>): a socket knows its index in it, a socket that goes is replaced by the last one, and
  sockets are counted by their users. A socket is a number, its object is in \<open>objects\<close> while it is there; the array is the list of the first
  \<^verbatim>\<open>pollnfds\<close> sockets, and what is behind them is null.
\<close>

definition SIPP_MAXFDS :: nat where "SIPP_MAXFDS = 65536"

record psocket =
  ps_ipv6 :: bool
  ps_transport :: transport
  ps_call_socket :: bool
  ps_changed_dest :: bool
  ps_pollidx :: int
  ps_count :: int
  ps_own_ref :: bool
  ps_invalid :: bool

record pool =
  objects :: "nat \<Rightarrow> psocket option"
  sockets :: "nat list"
  call_sockets :: "32 word"
  next_socket :: nat

definition no_sockets :: pool where
  "no_sockets = \<lparr>objects = \<lambda>p. None, sockets = [], call_sockets = 0, next_socket = 0\<rparr>"

text \<open>The constructor, at an address that is free.\<close>

definition new_sipp_socket :: "nat \<Rightarrow> bool \<Rightarrow> transport \<Rightarrow> pool \<Rightarrow> pool res" where
  "new_sipp_socket ptr use_ipv6 t p =
     (if objects p ptr \<noteq> None \<or> length (sockets p) \<ge> SIPP_MAXFDS then Inl Undefined
      else Inr (p\<lparr>objects := (objects p)(ptr \<mapsto> \<lparr>ps_ipv6 = use_ipv6, ps_transport = t, ps_call_socket = False, ps_changed_dest = False,
          ps_pollidx = int (length (sockets p)), ps_count = 1, ps_own_ref = True, ps_invalid = False\<rparr>),
        sockets := sockets p @ [ptr]\<rparr>))"

text \<open>A socket leaves the array; the last one takes its place.\<close>

definition invalidate :: "nat \<Rightarrow> pool \<Rightarrow> pool res" where
  "invalidate ptr p =
     (case objects p ptr of
        None \<Rightarrow> Inl Undefined
      | Some s \<Rightarrow>
          if ps_invalid s then Inr p
          else if ps_pollidx s < 0 \<or> nat (ps_pollidx s) \<ge> length (sockets p) then Inl (ERROR ''Pollset error: index is greater than number of fds!'')
          else
            let pollidx = nat (ps_pollidx s); pollnfds = length (sockets p) - 1; last = sockets p ! pollnfds;
                p1 = p\<lparr>objects := (objects p)(ptr \<mapsto> s\<lparr>ps_invalid := True, ps_pollidx := - 1\<rparr>),
                       call_sockets := (if ps_call_socket s then call_sockets p - 1 else call_sockets p)\<rparr>
            in if pollidx \<noteq> pollnfds then
                 (case objects p1 last of
                    None \<Rightarrow> Inl Undefined
                  | Some l \<Rightarrow> Inr (p1\<lparr>sockets := take pollnfds ((sockets p)[pollidx := last]),
                      objects := (objects p1)(last \<mapsto> l\<lparr>ps_pollidx := int pollidx\<rparr>)\<rparr>))
               else Inr (p1\<lparr>sockets := take pollnfds (sockets p)\<rparr>))"

definition close_socket :: "nat \<Rightarrow> pool \<Rightarrow> pool res" where
  "close_socket ptr p =
     (case objects p ptr of
        None \<Rightarrow> Inl Undefined
      | Some s \<Rightarrow>
          let p1 = p\<lparr>objects := (objects p)(ptr \<mapsto> s\<lparr>ps_count := ps_count s - 1\<rparr>)\<rparr>
          in if ps_count s - 1 = 0 then bindE (invalidate ptr p1) (\<lambda>p2. Inr (p2\<lparr>objects := (objects p2)(ptr := None)\<rparr>)) else Inr p1)"

text \<open>A socket that was made again is polled again (\<^verbatim>\<open>reconnect\<close>).\<close>

definition poll_again :: "nat \<Rightarrow> pool \<Rightarrow> pool res" where
  "poll_again ptr p =
     (case objects p ptr of
        None \<Rightarrow> Inl Undefined
      | Some s \<Rightarrow>
          if \<not> ps_invalid s then Inr p
          else if length (sockets p) \<ge> SIPP_MAXFDS then Inl Undefined
          else Inr (p\<lparr>objects := (objects p)(ptr \<mapsto> s\<lparr>ps_invalid := False, ps_pollidx := int (length (sockets p))\<rparr>),
            sockets := sockets p @ [ptr], call_sockets := (if ps_call_socket s then call_sockets p + 1 else call_sockets p)\<rparr>))"

section \<open>Sockets of calls\<close>

definition fits :: "bool \<Rightarrow> transport \<Rightarrow> psocket \<Rightarrow> bool" where
  "fits use_ipv6 t s \<longleftrightarrow> ps_call_socket s \<and> ps_ipv6 s = use_ipv6 \<and> ps_transport s = t \<and> \<not> ps_changed_dest s"

text \<open>The loop over the array, from where the last search ended and around; the bound is the number of sockets.\<close>

fun search_loop :: "pool \<Rightarrow> bool \<Rightarrow> transport \<Rightarrow> nat \<Rightarrow> nat \<Rightarrow> nat \<Rightarrow> (nat option \<times> nat) res" where
  "search_loop p use_ipv6 t first test_socket 0 = Inl Undefined"
| "search_loop p use_ipv6 t first test_socket (Suc n) =
     (if test_socket \<ge> length (sockets p) then Inl Undefined
      else
        let next_s = (test_socket + 1) mod length (sockets p); ptr = sockets p ! test_socket
        in case objects p ptr of
             None \<Rightarrow> Inl Undefined
           | Some s \<Rightarrow>
               if fits use_ipv6 t s then Inr (Some ptr, next_s)
               else if next_s \<noteq> first then search_loop p use_ipv6 t first next_s n
               else Inr (None, next_s))"

definition new_sipp_call_socket :: "32 word \<Rightarrow> nat \<Rightarrow> bool \<Rightarrow> transport \<Rightarrow> pool \<Rightarrow> ((nat \<times> bool) \<times> pool) res" where
  "new_sipp_call_socket max_multi_socket ptr use_ipv6 t p =
     (if call_sockets p \<ge> max_multi_socket then
        bindE (search_loop p use_ipv6 t (next_socket p) (next_socket p) (max 1 (length (sockets p)))) (\<lambda>(r, next_s).
          case r of
            None \<Rightarrow> Inl (ERROR ''Could not find an existing call socket to re-use!'')
          | Some q \<Rightarrow>
              (case objects p q of
                 None \<Rightarrow> Inl Undefined
               | Some s \<Rightarrow> Inr ((q, True), p\<lparr>objects := (objects p)(q \<mapsto> s\<lparr>ps_count := ps_count s + 1\<rparr>), next_socket := next_s\<rparr>)))
      else bindE (new_sipp_socket ptr use_ipv6 t p) (\<lambda>p1.
        case objects p1 ptr of
          None \<Rightarrow> Inl Undefined
        | Some s \<Rightarrow> Inr ((ptr, False), p1\<lparr>objects := (objects p1)(ptr \<mapsto> s\<lparr>ps_call_socket := True, ps_own_ref := False\<rparr>),
            call_sockets := call_sockets p1 + 1\<rparr>)))"

end
