(* ===== verification/Socket_Pool_Correct.thy ===== *)
theory Socket_Pool_Correct
  imports Socket_Pool
begin

text \<open>
  The array of the sockets: every socket that is polled is found at its index, and the sockets of calls are counted, whatever is opened, used, closed
  and made again. A search for a socket that a new call can share finds one if there is one.
\<close>

section \<open>The array and the objects agree\<close>

definition is_call :: "pool \<Rightarrow> nat \<Rightarrow> bool" where
  "is_call p q \<longleftrightarrow> (case objects p q of Some s \<Rightarrow> ps_call_socket s | None \<Rightarrow> False)"

definition placed :: "pool \<Rightarrow> bool" where
  "placed p \<longleftrightarrow> distinct (sockets p) \<and>
     (\<forall>i < length (sockets p). \<exists>s. objects p (sockets p ! i) = Some s \<and> \<not> ps_invalid s \<and> ps_pollidx s = int i) \<and>
     (\<forall>q s. objects p q = Some s \<and> \<not> ps_invalid s \<longrightarrow> q \<in> set (sockets p))"

definition pool_ok :: "pool \<Rightarrow> bool" where
  "pool_ok p \<longleftrightarrow> placed p \<and> call_sockets p = of_nat (length (filter (is_call p) (sockets p)))"

lemma placed_index:
  assumes "placed p" and "objects p q = Some s" and "\<not> ps_invalid s"
  shows "\<exists>i. ps_pollidx s = int i \<and> i < length (sockets p) \<and> sockets p ! i = q"
proof -
  obtain i where i: "i < length (sockets p)" "sockets p ! i = q" using assms by (metis placed_def in_set_conv_nth)
  then show ?thesis using assms(1,2) by (auto simp: placed_def)
qed

lemma placed_object: "placed p \<Longrightarrow> q \<in> set (sockets p) \<Longrightarrow> \<exists>s. objects p q = Some s \<and> \<not> ps_invalid s"
  by (metis placed_def in_set_conv_nth)

text \<open>A change of an object that leaves it in its place.\<close>

lemma touch_ok:
  assumes "pool_ok p" and "objects p q = Some s" and "ps_invalid s' = ps_invalid s" and "ps_pollidx s' = ps_pollidx s"
    and "ps_call_socket s' = ps_call_socket s"
  shows "pool_ok (p\<lparr>objects := (objects p)(q \<mapsto> s')\<rparr>)" (is "pool_ok ?p")
proof -
  have "is_call ?p = is_call p" using assms(2,5) by (auto simp: is_call_def fun_eq_iff)
  moreover have "placed ?p" using assms(1-4) unfolding pool_ok_def placed_def by auto
  ultimately show ?thesis using assms(1) by (simp add: pool_ok_def)
qed

lemma add_ok:
  assumes "pool_ok p" and "objects p q = None \<or> (\<exists>s. objects p q = Some s \<and> ps_invalid s)" and "\<not> ps_invalid s'"
    and "ps_pollidx s' = int (length (sockets p))"
  shows "pool_ok (p\<lparr>objects := (objects p)(q \<mapsto> s'), sockets := sockets p @ [q],
    call_sockets := (if ps_call_socket s' then call_sockets p + 1 else call_sockets p)\<rparr>)" (is "pool_ok ?p")
proof -
  have new: "q \<notin> set (sockets p)" using assms(1,2) placed_object by (fastforce simp: pool_ok_def)
  have "filter (is_call ?p) (sockets p) = filter (is_call p) (sockets p)"
    using new by (intro filter_cong) (auto simp: is_call_def)
  then have "call_sockets ?p = of_nat (length (filter (is_call ?p) (sockets ?p)))" using assms(1) by (simp add: pool_ok_def is_call_def)
  moreover have "placed ?p"
    using assms(1,3,4) new unfolding pool_ok_def placed_def by (auto simp: nth_append less_Suc_eq)
  ultimately show ?thesis by (simp add: pool_ok_def)
qed

lemma swap_remove:
  assumes "i < length xs" and "distinct xs" and "ys = take (length xs - 1) (xs[i := xs ! (length xs - 1)])"
  shows "mset ys = mset xs - {#xs ! i#}" and "distinct ys" and "set ys = set xs - {xs ! i}" and "length ys = length xs - 1"
    and "\<And>j. j < length ys \<Longrightarrow> ys ! j = (if j = i then xs ! (length xs - 1) else xs ! j)"
proof -
  obtain zs l where xs: "xs = zs @ [l]" using assms(1) by (cases xs rule: rev_cases) auto
  have ys: "ys = zs[i := l]" using assms(1,3) xs by (cases "i = length zs") (auto simp: list_update_append list_update_beyond)
  show m: "mset ys = mset xs - {#xs ! i#}"
  proof (cases "i = length zs")
    case False
    then show ?thesis using assms(1) xs ys by (simp add: mset_update nth_append)
  qed (simp add: xs ys list_update_beyond)
  have d: "distinct zs" "l \<notin> set zs" using assms(2) xs by auto
  then show "distinct ys" unfolding ys by (intro distinct_list_update) auto
  show "set ys = set xs - {xs ! i}"
  proof (cases "i = length zs")
    case True
    then show ?thesis using d by (simp add: ys xs list_update_beyond)
  next
    case False
    then have "i < length zs" using assms(1) xs by simp
    then have "xs ! i = zs ! i" "l \<noteq> zs ! i" using xs d(2) by (auto simp: nth_append)
    then show ?thesis using \<open>i < length zs\<close> d by (auto simp: ys xs set_update_distinct)
  qed
  show "length ys = length xs - 1" by (simp add: ys xs)
  show "ys ! j = (if j = i then xs ! (length xs - 1) else xs ! j)" if "j < length ys" for j
    using that assms(1) by (auto simp: ys xs nth_append nth_list_update)
qed

lemma invalidate_result:
  assumes "placed p" and "objects p q = Some s" and "\<not> ps_invalid s"
  shows "\<exists>i p'. i < length (sockets p) \<and> sockets p ! i = q \<and> invalidate q p = Inr p' \<and>
    sockets p' = take (length (sockets p) - 1) ((sockets p)[i := sockets p ! (length (sockets p) - 1)]) \<and>
    call_sockets p' = (if ps_call_socket s then call_sockets p - 1 else call_sockets p) \<and>
    objects p' q = Some (s\<lparr>ps_invalid := True, ps_pollidx := - 1\<rparr>) \<and>
    (\<forall>r. r \<noteq> q \<longrightarrow> objects p' r =
      (if r = sockets p ! (length (sockets p) - 1) then map_option (\<lambda>l. l\<lparr>ps_pollidx := int i\<rparr>) (objects p r) else objects p r))"
proof -
  let ?n = "length (sockets p) - 1"
  let ?last = "sockets p ! ?n"
  obtain i where i: "ps_pollidx s = int i" "i < length (sockets p)" "sockets p ! i = q" using placed_index [OF assms] by blast
  show ?thesis
  proof (cases "i = ?n")
    case True
    then have "?last = q" "(sockets p)[i := ?last] = sockets p" using i by auto
    then show ?thesis using i assms(2,3) True
      by (intro exI [of _ i] exI [of _ "p\<lparr>objects := (objects p)(q \<mapsto> s\<lparr>ps_invalid := True, ps_pollidx := - 1\<rparr>),
        call_sockets := (if ps_call_socket s then call_sockets p - 1 else call_sockets p), sockets := take ?n (sockets p)\<rparr>"])
        (auto simp: invalidate_def Let_def)
  next
    case False
    have "?n < length (sockets p)" using i(2) by simp
    then have ne: "?last \<noteq> q" using False i assms(1) by (metis placed_def nth_eq_iff_index_eq)
    obtain l where l: "objects p ?last = Some l" using placed_object [OF assms(1), of ?last] i(2) by auto
    show ?thesis using i assms(2,3) False ne l
      by (intro exI [of _ i] exI [of _ "p\<lparr>call_sockets := (if ps_call_socket s then call_sockets p - 1 else call_sockets p),
        sockets := take ?n ((sockets p)[i := ?last]),
        objects := (objects p)(q \<mapsto> s\<lparr>ps_invalid := True, ps_pollidx := - 1\<rparr>, ?last \<mapsto> l\<lparr>ps_pollidx := int i\<rparr>)\<rparr>"])
        (auto simp: invalidate_def Let_def)
  qed
qed

lemma count_removed:
  assumes "mset ys = mset xs - {#x#}" and "x \<in> set xs"
  shows "length (filter f xs) = length (filter f ys) + of_bool (f x)"
proof -
  have "mset xs = add_mset x (mset ys)" using assms by simp
  then have "filter_mset f (mset xs) = filter_mset f (add_mset x (mset ys))" by simp
  then have "size (mset (filter f xs)) = size (mset (filter f ys)) + of_bool (f x)" by (simp split: if_splits)
  then show ?thesis by (simp only: size_mset)
qed

lemma invalidate_ok:
  assumes "pool_ok p" and "objects p q = Some s" and "invalidate q p = Inr p'"
  shows "pool_ok p' \<and> (\<exists>s'. objects p' q = Some s' \<and> ps_invalid s')"
proof (cases "ps_invalid s")
  case True
  then show ?thesis using assms by (simp add: invalidate_def)
next
  case False
  have pl: "placed p" and cs: "call_sockets p = of_nat (length (filter (is_call p) (sockets p)))" using assms(1) by (simp_all add: pool_ok_def)
  let ?last = "sockets p ! (length (sockets p) - 1)"
  obtain i p1 where i: "i < length (sockets p)" "sockets p ! i = q" and p1: "invalidate q p = Inr p1"
    and ys1: "sockets p1 = take (length (sockets p) - 1) ((sockets p)[i := ?last])"
    and cs1: "call_sockets p1 = (if ps_call_socket s then call_sockets p - 1 else call_sockets p)"
    and oq1: "objects p1 q = Some (s\<lparr>ps_invalid := True, ps_pollidx := - 1\<rparr>)"
    and oth1: "\<And>r. r \<noteq> q \<Longrightarrow> objects p1 r = (if r = ?last then map_option (\<lambda>l. l\<lparr>ps_pollidx := int i\<rparr>) (objects p r) else objects p r)"
    using invalidate_result [OF pl assms(2) False] by blast
  have "p1 = p'" using p1 assms(3) by simp
  note ys = ys1 [unfolded this] and cs' = cs1 [unfolded this] and oq = oq1 [unfolded this] and oth = oth1 [unfolded this]
  have dist: "distinct (sockets p)" using pl by (simp add: placed_def)
  note S = swap_remove [OF i(1) dist ys, unfolded i(2)]
  have "placed p'"
    unfolding placed_def
  proof (intro conjI allI impI)
    fix j assume j: "j < length (sockets p')"
    then have jn: "j < length (sockets p) - 1" using S(4) by simp
    show "\<exists>s. objects p' (sockets p' ! j) = Some s \<and> \<not> ps_invalid s \<and> ps_pollidx s = int j"
    proof (cases "j = i")
      case True
      then have "?last \<noteq> q" using jn i dist by (metis diff_less less_nat_zero_code neq0_conv nth_eq_iff_index_eq not_less_iff_gr_or_eq zero_less_one)
      moreover obtain l where "objects p ?last = Some l" "\<not> ps_invalid l" using placed_object [OF pl, of ?last] jn by force
      ultimately show ?thesis using S(5) [OF j] True oth by simp
    next
      case False
      have jl: "j < length (sockets p)" "j \<noteq> length (sockets p) - 1" using jn by auto
      have "sockets p ! j \<noteq> q" using False jl i dist by (metis nth_eq_iff_index_eq)
      moreover have "sockets p ! j \<noteq> ?last" using jl dist by (subst nth_eq_iff_index_eq) auto
      ultimately show ?thesis using S(5) [OF j] False oth jl(1) pl by (simp add: placed_def)
    qed
  next
    fix r t assume r: "objects p' r = Some t \<and> \<not> ps_invalid t"
    then have ne: "r \<noteq> q" using oq by auto
    then obtain t' where "objects p r = Some t'" "\<not> ps_invalid t'" using r oth [OF ne] by (auto split: if_splits)
    then show "r \<in> set (sockets p')" using pl S(3) ne by (auto simp: placed_def)
  qed (rule S(2))
  moreover have "filter (is_call p') (sockets p') = filter (is_call p) (sockets p')"
  proof (rule filter_cong)
    fix r assume "r \<in> set (sockets p')"
    then have "r \<noteq> q" using S(3) by simp
    from oth [OF this] show "is_call p' r = is_call p r" by (auto simp: is_call_def split: option.split)
  qed simp
  moreover have "length (filter (is_call p) (sockets p)) = length (filter (is_call p) (sockets p')) + of_bool (ps_call_socket s)"
  proof -
    have "q \<in> set (sockets p)" using i nth_mem by blast
    from count_removed [OF S(1) this, of "is_call p"] show ?thesis using assms(2) by (simp add: is_call_def)
  qed
  ultimately show ?thesis using cs cs' oq by (auto simp: pool_ok_def)
qed

section \<open>Any order of operations\<close>

datatype pool_op = New nat bool transport | New_call "32 word" nat bool transport | Use nat | Close nat | Invalidate nat | Poll_again nat

fun pool_step :: "pool_op \<Rightarrow> pool \<Rightarrow> pool res" where
  "pool_step (New ptr v6 t) p = new_sipp_socket ptr v6 t p"
| "pool_step (New_call m ptr v6 t) p = bindE (new_sipp_call_socket m ptr v6 t p) (\<lambda>(r, p1). Inr p1)"
| "pool_step (Use ptr) p =
     (case objects p ptr of
        None \<Rightarrow> Inl Undefined
      | Some s \<Rightarrow> Inr (p\<lparr>objects := (objects p)(ptr \<mapsto> s\<lparr>ps_count := ps_count s + 1\<rparr>)\<rparr>))"
| "pool_step (Close ptr) p = close_socket ptr p"
| "pool_step (Invalidate ptr) p = invalidate ptr p"
| "pool_step (Poll_again ptr) p = poll_again ptr p"

lemma pool_ok_next [simp]: "pool_ok (p\<lparr>next_socket := n\<rparr>) = pool_ok p"
  by (simp add: pool_ok_def placed_def is_call_def [abs_def])

lemma new_ok: "pool_ok p \<Longrightarrow> new_sipp_socket ptr v6 t p = Inr p' \<Longrightarrow> pool_ok p'"
  using add_ok [of p ptr "\<lparr>ps_ipv6 = v6, ps_transport = t, ps_call_socket = False, ps_changed_dest = False,
    ps_pollidx = int (length (sockets p)), ps_count = 1, ps_own_ref = True, ps_invalid = False\<rparr>"]
  by (auto simp: new_sipp_socket_def split: if_splits)

lemma new_call_ok:
  assumes "pool_ok p" and "new_sipp_call_socket m ptr v6 t p = Inr (r, p')"
  shows "pool_ok p'"
proof (cases "call_sockets p \<ge> m")
  case True
  then obtain q s n where "objects p q = Some s" "p' = p\<lparr>objects := (objects p)(q \<mapsto> s\<lparr>ps_count := ps_count s + 1\<rparr>), next_socket := n\<rparr>"
  proof -
    obtain r0 n where f: "search_loop p v6 t (next_socket p) (next_socket p) (max 1 (length (sockets p))) = Inr (r0, n)"
      using assms(2) True by (auto simp: new_sipp_call_socket_def)
    obtain q s where "r0 = Some q" "objects p q = Some s"
      using assms(2) True f by (cases r0) (auto simp: new_sipp_call_socket_def split: option.splits)
    then show ?thesis using that [of q s n] assms(2) True f by (simp add: new_sipp_call_socket_def)
  qed
  then show ?thesis using touch_ok [OF assms(1), of q s "s\<lparr>ps_count := ps_count s + 1\<rparr>"] pool_ok_next [of n "p\<lparr>objects := (objects p)(q \<mapsto> s\<lparr>ps_count := ps_count s + 1\<rparr>)\<rparr>"]
    by simp
next
  case False
  let ?s = "\<lparr>ps_ipv6 = v6, ps_transport = t, ps_call_socket = True, ps_changed_dest = False,
    ps_pollidx = int (length (sockets p)), ps_count = 1, ps_own_ref = False, ps_invalid = False\<rparr>"
  have "objects p ptr = None" "p' = p\<lparr>objects := (objects p)(ptr \<mapsto> ?s), sockets := sockets p @ [ptr], call_sockets := call_sockets p + 1\<rparr>"
    using False assms(2) by (auto simp: new_sipp_call_socket_def new_sipp_socket_def split: if_splits)
  then show ?thesis using add_ok [OF assms(1), of ptr ?s] by simp
qed

lemma delete_ok:
  assumes "pool_ok p" and "objects p q = Some s" and "ps_invalid s"
  shows "pool_ok (p\<lparr>objects := (objects p)(q := None)\<rparr>)" (is "pool_ok ?p")
proof -
  have q: "q \<notin> set (sockets p)" using assms placed_object by (fastforce simp: pool_ok_def)
  then have "filter (is_call ?p) (sockets p) = filter (is_call p) (sockets p)" by (intro filter_cong) (auto simp: is_call_def)
  moreover have "placed ?p" using assms(1) q unfolding pool_ok_def placed_def by (auto simp: fun_upd_def)
  ultimately show ?thesis using assms(1) by (simp add: pool_ok_def)
qed

lemma close_ok:
  assumes "pool_ok p" and "close_socket q p = Inr p'"
  shows "pool_ok p'"
proof -
  obtain s where s: "objects p q = Some s" using assms(2) by (auto simp: close_socket_def split: option.splits)
  define p1 where "p1 = p\<lparr>objects := (objects p)(q \<mapsto> s\<lparr>ps_count := ps_count s - 1\<rparr>)\<rparr>"
  have ok1: "pool_ok p1" unfolding p1_def by (rule touch_ok [OF assms(1) s]) simp_all
  have s1: "objects p1 q = Some (s\<lparr>ps_count := ps_count s - 1\<rparr>)" by (simp add: p1_def)
  show ?thesis
  proof (cases "ps_count s - 1 = 0")
    case True
    then obtain p2 where p2: "invalidate q p1 = Inr p2" "p' = p2\<lparr>objects := (objects p2)(q := None)\<rparr>"
      using assms(2) s by (auto simp: close_socket_def Let_def p1_def)
    then show ?thesis using invalidate_ok [OF ok1 s1 p2(1)] delete_ok by blast
  next
    case False
    then show ?thesis using assms(2) s ok1 by (simp add: close_socket_def Let_def p1_def)
  qed
qed

lemma pool_step_ok: "pool_ok p \<Longrightarrow> pool_step x p = Inr p' \<Longrightarrow> pool_ok p'"
proof (cases x)
  case (New ptr v6 t)
  assume "pool_ok p" "pool_step x p = Inr p'"
  then show ?thesis using New new_ok [of p ptr v6 t] by simp
next
  case (Close ptr)
  assume "pool_ok p" "pool_step x p = Inr p'"
  then show ?thesis using Close close_ok [of p ptr] by simp
next
  case (Use ptr)
  assume "pool_ok p" "pool_step x p = Inr p'"
  then show ?thesis using Use touch_ok [of p ptr] by (auto split: option.splits)
next
  case (Invalidate ptr)
  assume "pool_ok p" "pool_step x p = Inr p'"
  moreover obtain s where "objects p ptr = Some s" using \<open>pool_step x p = Inr p'\<close> Invalidate by (auto simp: invalidate_def split: option.splits)
  ultimately show ?thesis using Invalidate invalidate_ok by auto
next
  case (Poll_again ptr)
  assume ok: "pool_ok p" and step: "pool_step x p = Inr p'"
  then obtain s where s: "objects p ptr = Some s" using Poll_again by (auto simp: poll_again_def split: option.splits)
  show ?thesis using ok step Poll_again s add_ok [of p ptr "s\<lparr>ps_invalid := False, ps_pollidx := int (length (sockets p))\<rparr>"]
    by (auto simp: poll_again_def split: if_splits)
next
  case (New_call m ptr v6 t)
  assume "pool_ok p" "pool_step x p = Inr p'"
  then show ?thesis using New_call new_call_ok [of p m ptr v6 t] by auto
qed

interpretation pool: invariant pool_step pool_ok
  by unfold_locales (rule pool_step_ok)

text \<open>
  C37: In any order of opening, using, closing, dropping and making again of sockets, every socket in the array that is polled is there, is valid and
  knows its index; every valid socket is in the array; and the sockets of calls are counted.
\<close>

theorem sockets_at_index:
  assumes "run_res pool_step ops no_sockets = Inr p"
  shows "distinct (sockets p) \<and>
    (\<forall>i < length (sockets p). \<exists>s. objects p (sockets p ! i) = Some s \<and> \<not> ps_invalid s \<and> ps_pollidx s = int i) \<and>
    (\<forall>q s. objects p q = Some s \<and> \<not> ps_invalid s \<longrightarrow> q \<in> set (sockets p)) \<and>
    call_sockets p = of_nat (length (filter (is_call p) (sockets p)))"
proof -
  have "pool_ok no_sockets" by (simp add: no_sockets_def pool_ok_def placed_def)
  from pool.run_keeps [OF this assms] show ?thesis unfolding pool_ok_def placed_def by blast
qed

definition pool_ops :: "pool_op list" where
  "pool_ops = [New 1 False T_TCP, New_call 2 2 False T_TCP, New_call 2 3 False T_TCP, Close 1, New_call 2 4 False T_TCP, Invalidate 2, Poll_again 2]"

lemma pool_ops_run: "\<exists>p. run_res pool_step pool_ops no_sockets = Inr p \<and> sockets p = [3, 2] \<and> call_sockets p = 2 \<and> next_socket p = 1"
  by (rule result_ok) (simp add: pool_ops_def no_sockets_def new_sipp_call_socket_def new_sipp_socket_def close_socket_def invalidate_def poll_again_def
    SIPP_MAXFDS_def fits_def Let_def word_le_nat_alt del: bindE_eq_Inr)

theorem sockets_at_index_witness:
  "\<exists>p. run_res pool_step pool_ops no_sockets = Inr p \<and> sockets p = [3, 2] \<and>
    distinct (sockets p) \<and> (\<forall>i < length (sockets p). \<exists>s. objects p (sockets p ! i) = Some s \<and> \<not> ps_invalid s \<and> ps_pollidx s = int i) \<and>
    (\<forall>q s. objects p q = Some s \<and> \<not> ps_invalid s \<longrightarrow> q \<in> set (sockets p)) \<and>
    call_sockets p = of_nat (length (filter (is_call p) (sockets p)))"
  using pool_ops_run sockets_at_index by blast

section \<open>The socket of a new call\<close>

lemma mod_first: "first < n \<Longrightarrow> 0 < d \<Longrightarrow> d < n \<Longrightarrow> (first + d) mod n \<noteq> (first :: nat)"
  by (cases "first + d < n") (auto simp: mod_if)

lemma search_spec:
  assumes "placed p" and "first < length (sockets p)"
  shows "0 < k \<Longrightarrow> k \<le> length (sockets p) \<Longrightarrow> k \<le> fuel \<Longrightarrow> \<exists>r nx.
    search_loop p v6 t first ((first + (length (sockets p) - k)) mod length (sockets p)) fuel = Inr (r, nx) \<and> nx < length (sockets p) \<and>
    (case r of
       Some q \<Rightarrow> \<exists>s. objects p q = Some s \<and> fits v6 t s
     | None \<Rightarrow> \<forall>j s. length (sockets p) - k \<le> j \<and> j < length (sockets p) \<longrightarrow>
         objects p (sockets p ! ((first + j) mod length (sockets p))) = Some s \<longrightarrow> \<not> fits v6 t s)"
proof (induction k arbitrary: fuel)
  case (Suc k)
  let ?n = "length (sockets p)"
  let ?test = "(first + (?n - Suc k)) mod ?n"
  obtain f where f: "fuel = Suc f" "k \<le> f" using Suc.prems(3) by (cases fuel) auto
  have n: "0 < ?n" using assms(2) by linarith
  have test: "?test < ?n" using n by simp
  obtain s where s: "objects p (sockets p ! ?test) = Some s" using placed_object [OF assms(1)] nth_mem [OF test] by blast
  have nx: "(?test + 1) mod ?n = (first + (?n - k)) mod ?n"
  proof -
    have "(?test + 1) mod ?n = (first + (?n - Suc k) + 1) mod ?n" by (rule mod_add_left_eq)
    also have "first + (?n - Suc k) + 1 = first + (?n - k)" using Suc.prems(2) by simp
    finally show ?thesis .
  qed
  have loop: "search_loop p v6 t first ?test fuel =
    (if fits v6 t s then Inr (Some (sockets p ! ?test), (first + (?n - k)) mod ?n)
     else if (first + (?n - k)) mod ?n \<noteq> first then search_loop p v6 t first ((first + (?n - k)) mod ?n) f
     else Inr (None, (first + (?n - k)) mod ?n))"
    unfolding f(1) using test s nx by (simp only: search_loop.simps Let_def option.case) simp
  show ?case
  proof (cases "fits v6 t s")
    case True
    then show ?thesis unfolding loop using s n by simp
  next
    case False
    show ?thesis
    proof (cases "k = 0")
      case True
      then have "(first + (?n - k)) mod ?n = first" using assms(2) by simp
      moreover have "?n - Suc k \<le> j \<and> j < ?n \<Longrightarrow> j = ?n - Suc k" for j using True by arith
      ultimately have "\<forall>j s. ?n - Suc k \<le> j \<and> j < ?n \<longrightarrow> objects p (sockets p ! ((first + j) mod ?n)) = Some s \<longrightarrow> \<not> fits v6 t s"
        using False s by (metis option.inject)
      then show ?thesis unfolding loop using False \<open>(first + (?n - k)) mod ?n = first\<close> assms(2) by simp
    next
      case more: False
      then have "(first + (?n - k)) mod ?n \<noteq> first" using mod_first [OF assms(2), of "?n - k"] Suc.prems(2) by simp
      moreover obtain r nx where r: "search_loop p v6 t first ((first + (?n - k)) mod ?n) f = Inr (r, nx)" "nx < ?n"
        "case r of Some q \<Rightarrow> \<exists>s. objects p q = Some s \<and> fits v6 t s
         | None \<Rightarrow> \<forall>j s. ?n - k \<le> j \<and> j < ?n \<longrightarrow> objects p (sockets p ! ((first + j) mod ?n)) = Some s \<longrightarrow> \<not> fits v6 t s"
        using Suc.IH [of f] more Suc.prems(2) f(2) by auto
      moreover have "case r of Some q \<Rightarrow> \<exists>s. objects p q = Some s \<and> fits v6 t s
         | None \<Rightarrow> \<forall>j s. ?n - Suc k \<le> j \<and> j < ?n \<longrightarrow> objects p (sockets p ! ((first + j) mod ?n)) = Some s \<longrightarrow> \<not> fits v6 t s"
      proof (cases r)
        case None
        have "j = ?n - Suc k \<or> ?n - k \<le> j" if "?n - Suc k \<le> j" for j using that by arith
        then show ?thesis using r(3) [unfolded None option.case] False s unfolding None option.case by (metis option.inject)
      qed (use r(3) in simp)
      ultimately show ?thesis unfolding loop using False by simp
    qed
  qed
qed simp



text \<open>
  The index that a search left behind is not checked: when sockets were closed since, it may be behind the array, and the search reads a null
  pointer. Six sockets of peers, of which the search skipped five; after they closed, the next call that shares a socket crashes.
\<close>

lemma stale_index_crashes:
  assumes "max_multi_socket \<le> call_sockets p" and "next_socket p \<ge> length (sockets p)"
  shows "new_sipp_call_socket max_multi_socket ptr v6 t p = Inl Undefined"
proof -
  obtain k where k: "max 1 (length (sockets p)) = Suc k" by (cases "max 1 (length (sockets p))") auto
  show ?thesis using assms by (simp add: new_sipp_call_socket_def k [simplified])
qed

lemma stale_index_reached:
  "run_res pool_step
    [New 1 False T_TCP, New 2 False T_TCP, New 3 False T_TCP, New_call 1 4 False T_TCP, New 5 False T_TCP, New_call 1 6 False T_TCP,
     Close 5, Close 3, Close 2, Close 1, New_call 1 6 False T_TCP] no_sockets = Inl Undefined"
  by (simp add: no_sockets_def new_sipp_call_socket_def new_sipp_socket_def close_socket_def invalidate_def SIPP_MAXFDS_def fits_def Let_def
    word_le_nat_alt del: bindE_eq_Inr)

end
