(* ===== verification/Socket_Owners.thy ===== *)
theory Socket_Owners
  imports Sipp_Prelude
begin

text \<open>
  The calls that use a socket (\<^verbatim>\<open>socketowner.cpp\<close>). An owner is its \<^verbatim>\<open>ownerid\<close>; the table has the owners of a socket in the order of their
  ids. It is the inverse of what each owner has as its socket, and no assertion of the code fails.
\<close>

section \<open>The table\<close>

record owners =
  socket_to_owners :: "nat \<Rightarrow> nat list option"
  call_socket_of :: "nat \<Rightarrow> nat option option"
  nextownerid :: nat

definition no_owners :: owners where
  "no_owners = \<lparr>socket_to_owners = \<lambda>s. None, call_socket_of = \<lambda>i. None, nextownerid = 1\<rparr>"

definition new_socketowner :: "owners \<Rightarrow> owners" where
  "new_socketowner s = s\<lparr>call_socket_of := (call_socket_of s)(nextownerid s \<mapsto> None), nextownerid := nextownerid s + 1\<rparr>"

definition add_owner_to_socket :: "nat \<Rightarrow> nat \<Rightarrow> owners \<Rightarrow> owners" where
  "add_owner_to_socket i socket s =
     (let m = (case socket_to_owners s socket of None \<Rightarrow> [] | Some m \<Rightarrow> m)
      in s\<lparr>socket_to_owners := (socket_to_owners s)(socket \<mapsto> (if i \<in> set m then m else insort i m))\<rparr>)"

definition associate_socket :: "nat \<Rightarrow> nat option \<Rightarrow> owners \<Rightarrow> owners res" where
  "associate_socket i socket s =
     (case call_socket_of s i of
        None \<Rightarrow> Inl Undefined
      | Some _ \<Rightarrow>
          (case socket of
             None \<Rightarrow> Inr s
           | Some k \<Rightarrow> Inr (add_owner_to_socket i k (s\<lparr>call_socket_of := (call_socket_of s)(i \<mapsto> Some k)\<rparr>))))"

definition remove_owner_from_socket :: "nat \<Rightarrow> nat option \<Rightarrow> owners \<Rightarrow> owners res" where
  "remove_owner_from_socket i socket s =
     (case socket of
        None \<Rightarrow> Inl AssertFailed
      | Some k \<Rightarrow>
          (case socket_to_owners s k of
             None \<Rightarrow> Inl AssertFailed
           | Some m \<Rightarrow>
               if i \<notin> set m then Inl AssertFailed
               else let m' = remove1 i m
                    in Inr (s\<lparr>socket_to_owners := (if m' = [] then (socket_to_owners s)(k := None) else (socket_to_owners s)(k \<mapsto> m'))\<rparr>)))"

definition dissociate_socket :: "nat \<Rightarrow> owners \<Rightarrow> (nat option \<times> owners) res" where
  "dissociate_socket i s =
     (case call_socket_of s i of
        None \<Rightarrow> Inl Undefined
      | Some ret \<Rightarrow> bindE (remove_owner_from_socket i ret s) (\<lambda>s1. Inr (ret, s1\<lparr>call_socket_of := (call_socket_of s1)(i \<mapsto> None)\<rparr>)))"

text \<open>The destructor; the result is the socket that it closes.\<close>

definition delete_socketowner :: "nat \<Rightarrow> owners \<Rightarrow> (nat option \<times> owners) res" where
  "delete_socketowner i s =
     (case call_socket_of s i of
        None \<Rightarrow> Inl Undefined
      | Some None \<Rightarrow> Inr (None, s\<lparr>call_socket_of := (call_socket_of s)(i := None)\<rparr>)
      | Some (Some k) \<Rightarrow> bindE (dissociate_socket i s) (\<lambda>(ret, s1). Inr (ret, s1\<lparr>call_socket_of := (call_socket_of s1)(i := None)\<rparr>)))"

definition get_owners_for_socket :: "nat \<Rightarrow> owners \<Rightarrow> nat list" where
  "get_owners_for_socket socket s = (case socket_to_owners s socket of None \<Rightarrow> [] | Some m \<Rightarrow> m)"

section \<open>The table is the inverse of the sockets of the owners\<close>

datatype owner_op = New_owner | Associate nat "nat option" | Dissociate nat | Delete_owner nat

fun owner_step :: "owner_op \<Rightarrow> owners \<Rightarrow> owners res" where
  "owner_step New_owner s = Inr (new_socketowner s)"
| "owner_step (Associate i k) s = associate_socket i k s"
| "owner_step (Dissociate i) s = bindE (dissociate_socket i s) (\<lambda>(r, s1). Inr s1)"
| "owner_step (Delete_owner i) s = bindE (delete_socketowner i s) (\<lambda>(r, s1). Inr s1)"

text \<open>The specification has no table: only the socket of each owner that is there, and the next id.\<close>

type_synonym held = "(nat \<Rightarrow> nat option option) \<times> nat"

fun held_step :: "owner_op \<Rightarrow> held \<Rightarrow> held" where
  "held_step New_owner (f, n) = (f(n \<mapsto> None), n + 1)"
| "held_step (Associate i k) (f, n) = (case k of None \<Rightarrow> (f, n) | Some k' \<Rightarrow> (f(i \<mapsto> Some k'), n))"
| "held_step (Dissociate i) (f, n) = (f(i \<mapsto> None), n)"
| "held_step (Delete_owner i) (f, n) = (f(i := None), n)"

text \<open>A call takes a socket when it has none, and gives back the one it has.\<close>

fun held_ok :: "owner_op \<Rightarrow> held \<Rightarrow> bool" where
  "held_ok New_owner (f, n) \<longleftrightarrow> True"
| "held_ok (Associate i k) (f, n) \<longleftrightarrow> f i = Some None"
| "held_ok (Dissociate i) (f, n) \<longleftrightarrow> (\<exists>k. f i = Some (Some k))"
| "held_ok (Delete_owner i) (f, n) \<longleftrightarrow> f i \<noteq> None"

definition users :: "(nat \<Rightarrow> nat option option) \<Rightarrow> nat \<Rightarrow> nat list" where
  "users f k = sorted_list_of_set {i. f i = Some (Some k)}"

fun inverse_of :: "held \<Rightarrow> owners \<Rightarrow> bool" where
  "inverse_of (f, n) s \<longleftrightarrow> call_socket_of s = f \<and> nextownerid s = n \<and> finite (dom f) \<and> (\<forall>i \<in> dom f. i < n) \<and>
     socket_to_owners s = (\<lambda>k. if users f k = [] then None else Some (users f k))"

lemma users_finite: "finite (dom f) \<Longrightarrow> finite {i. f i = Some (Some k)}"
  by (rule finite_subset [of _ "dom f"]) auto

lemma set_users: "finite (dom f) \<Longrightarrow> set (users f k) = {i. f i = Some (Some k)}"
  by (simp add: users_def users_finite)

lemma users_set: "finite (dom f) \<Longrightarrow> f i = Some None \<Longrightarrow> users (f(i \<mapsto> Some k)) k' = (if k' = k then insort i (users f k) else users f k')"
proof -
  assume fin: "finite (dom f)" and i: "f i = Some None"
  have "{j. (f(i \<mapsto> Some k)) j = Some (Some k)} = insert i {j. f j = Some (Some k)}" by auto
  moreover have "i \<notin> {j. f j = Some (Some k)}" using i by simp
  moreover have "{j. (f(i \<mapsto> Some k)) j = Some (Some k')} = {j. f j = Some (Some k')}" if "k' \<noteq> k" using i that by auto
  ultimately show ?thesis using users_finite [OF fin] by (simp add: users_def)
qed

lemma users_unset:
  assumes "finite (dom f)" and "f i = Some (Some k)" and "v = None \<or> v = Some None"
  shows "users (f(i := v)) k' = (if k' = k then remove1 i (users f k) else users f k')"
proof -
  have "{j. (f(i := v)) j = Some (Some k)} = {j. f j = Some (Some k)} - {i}" using assms(3) by auto
  moreover have "{j. (f(i := v)) j = Some (Some k')} = {j. f j = Some (Some k')}" if "k' \<noteq> k" using assms(2,3) that by auto
  ultimately show ?thesis using users_finite [OF assms(1)] by (simp add: users_def sorted_list_of_set_remove)
qed

lemma users_none: "f i = None \<or> f i = Some None \<Longrightarrow> v = None \<or> v = Some None \<Longrightarrow> users (f(i := v)) k = users f k"
proof -
  assume "f i = None \<or> f i = Some None" "v = None \<or> v = Some None"
  then have "{j. (f(i := v)) j = Some (Some k)} = {j. f j = Some (Some k)}" by auto
  then show ?thesis by (simp add: users_def)
qed

lemma dissociate_inverse:
  assumes R: "inverse_of (f, n) s" and k: "f i = Some (Some k)"
  shows "\<exists>s1. dissociate_socket i s = Inr (Some k, s1) \<and> inverse_of (f(i \<mapsto> None), n) s1"
proof -
  have fin: "finite (dom f)" and f: "call_socket_of s = f" and n: "nextownerid s = n" and lt: "\<forall>i \<in> dom f. i < n"
    and tab: "socket_to_owners s = (\<lambda>k. if users f k = [] then None else Some (users f k))" using R by simp_all
  have i: "i \<in> set (users f k)" using set_users [OF fin] k by simp
  then have m: "socket_to_owners s k = Some (users f k)" unfolding tab by auto
  note u = users_unset [OF fin k, of "Some None"]
  let ?t = "if remove1 i (users f k) = [] then (socket_to_owners s)(k := None) else (socket_to_owners s)(k \<mapsto> remove1 i (users f k))"
  let ?s = "s\<lparr>socket_to_owners := ?t, call_socket_of := f(i \<mapsto> None)\<rparr>"
  have "dissociate_socket i s = Inr (Some k, ?s)"
    using f k m i by (simp add: dissociate_socket_def remove_owner_from_socket_def Let_def)
  moreover have "?t = (\<lambda>k. if users (f(i \<mapsto> None)) k = [] then None else Some (users (f(i \<mapsto> None)) k))"
    by (auto simp: fun_eq_iff u tab)
  then have "inverse_of (f(i \<mapsto> None), n) ?s" using fin n lt k by auto
  ultimately show ?thesis by blast
qed

lemma delete_inverse:
  assumes R: "inverse_of (f, n) s" and "f i = Some None"
  shows "inverse_of (f(i := None), n) (s\<lparr>call_socket_of := (call_socket_of s)(i := None)\<rparr>)"
proof -
  have "users (f(i := None)) = users f" using users_none [of f i None] assms(2) by (simp add: fun_eq_iff)
  moreover have "finite (dom (f(i := None)))" using R by (simp add: dom_fun_upd)
  moreover have "\<forall>j \<in> dom (f(i := None)). j < n" using R by (simp add: dom_fun_upd)
  ultimately show ?thesis using R unfolding inverse_of.simps by (auto simp del: fun_upd_apply)
qed

interpretation own: simulation owner_step held_step held_ok inverse_of
proof
  fix a :: held and s x
  assume R: "inverse_of a s" and ok: "held_ok x a"
  obtain f n where a: "a = (f, n)" by force
  have fin: "finite (dom f)" and f: "call_socket_of s = f" and n: "nextownerid s = n" and lt: "\<forall>i \<in> dom f. i < n"
    and tab: "socket_to_owners s = (\<lambda>k. if users f k = [] then None else Some (users f k))" using R a by simp_all
  show "\<exists>s'. owner_step x s = Inr s' \<and> inverse_of (held_step x a) s'"
  proof (cases x)
    case New_owner
    have "f n = None" using lt by (meson domIff less_irrefl)
    then have "users (f(n \<mapsto> None)) = users f" using users_none [of f n "Some None"] by (simp add: fun_eq_iff)
    then show ?thesis using New_owner a fin f n lt tab by (auto simp: new_socketowner_def less_SucI)
  next
    case (Associate i k)
    show ?thesis
    proof (cases k)
      case None
      then show ?thesis using Associate a R ok by (auto simp: associate_socket_def)
    next
      case (Some k')
      have i: "f i = Some None" using ok Associate a by simp
      have new: "i \<notin> set (users f k')" using set_users [OF fin] i by simp
      have m: "(case socket_to_owners s k' of None \<Rightarrow> [] | Some m \<Rightarrow> m) = users f k'" by (simp add: tab)
      let ?s = "s\<lparr>call_socket_of := f(i \<mapsto> Some k'), socket_to_owners := (socket_to_owners s)(k' \<mapsto> insort i (users f k'))\<rparr>"
      have "associate_socket i k s = Inr ?s" using f i new m Some by (simp add: associate_socket_def add_owner_to_socket_def Let_def)
      moreover have "insort i (users f k') \<noteq> []" by (metis insort_not_Nil)
      then have "inverse_of (f(i \<mapsto> Some k'), n) ?s" using fin n lt i tab by (auto simp: users_set [OF fin i] fun_eq_iff)
      ultimately show ?thesis using Associate Some a by simp
    qed
  next
    case (Dissociate i)
    then show ?thesis using dissociate_inverse [of f n s i] R ok a by fastforce
  next
    case (Delete_owner i)
    show ?thesis
    proof (cases "f i")
      case None
      then show ?thesis using ok Delete_owner a by simp
    next
      case (Some v)
      show ?thesis
      proof (cases v)
        case None
        then show ?thesis using Delete_owner a Some f delete_inverse [of f n s i] R by (simp add: delete_socketowner_def del: inverse_of.simps)
      next
        case k: (Some k)
        obtain s1 where s1: "dissociate_socket i s = Inr (Some k, s1)" "inverse_of (f(i \<mapsto> None), n) s1"
          using dissociate_inverse [of f n s i k] R a Some k by blast
        then have "owner_step x s = Inr (s1\<lparr>call_socket_of := (call_socket_of s1)(i := None)\<rparr>)"
          using Delete_owner f Some k by (simp add: delete_socketowner_def)
        moreover have "inverse_of ((f(i \<mapsto> None))(i := None), n) (s1\<lparr>call_socket_of := (call_socket_of s1)(i := None)\<rparr>)"
          by (rule delete_inverse [OF s1(2)]) simp
        ultimately show ?thesis using Delete_owner a by (auto simp del: inverse_of.simps)
      qed
    qed
  qed
qed

text \<open>
  C39: However calls come, take a socket when they have none, give it back and go, no assertion on the table of owners fails, and the owners of a
  socket are the calls that have it, each once and in the order of their ids.
\<close>

theorem owners_are_users:
  assumes "legal_run held_ok held_step ops (\<lambda>i. None, 1)"
  shows "\<exists>s. run_res owner_step ops no_owners = Inr s \<and> call_socket_of s = fst (fold held_step ops (\<lambda>i. None, 1)) \<and>
    (\<forall>k. sorted (get_owners_for_socket k s) \<and> distinct (get_owners_for_socket k s) \<and>
      set (get_owners_for_socket k s) = {i. call_socket_of s i = Some (Some k)})"
proof -
  have "inverse_of (\<lambda>i. None, 1) no_owners" by (simp add: no_owners_def users_def)
  from own.run_sim [OF this assms] obtain s where s: "run_res owner_step ops no_owners = Inr s"
    "inverse_of (fold held_step ops (\<lambda>i. None, 1)) s" by blast
  obtain f n where f: "fold held_step ops (\<lambda>i. None, 1) = (f, n)" by force
  have fin: "finite (dom f)" and c: "call_socket_of s = f"
    and tab: "socket_to_owners s = (\<lambda>k. if users f k = [] then None else Some (users f k))" using s(2) f by simp_all
  have "get_owners_for_socket k s = users f k" for k by (simp add: get_owners_for_socket_def tab)
  then show ?thesis using s(1) f c set_users [OF fin] by (simp add: users_def)
qed

theorem owners_are_users_witness:
  "\<exists>s. run_res owner_step [New_owner, New_owner, Associate 2 (Some 7), Associate 1 (Some 7), Dissociate 2, Delete_owner 2] no_owners = Inr s \<and>
    call_socket_of s = fst (fold held_step [New_owner, New_owner, Associate 2 (Some 7), Associate 1 (Some 7), Dissociate 2, Delete_owner 2] (\<lambda>i. None, 1)) \<and>
    (\<forall>k. sorted (get_owners_for_socket k s) \<and> distinct (get_owners_for_socket k s) \<and>
      set (get_owners_for_socket k s) = {i. call_socket_of s i = Some (Some k)})"
  by (rule owners_are_users) simp

end
