(* ===== verification/Socket_Dispatch.thy ===== *)
theory Socket_Dispatch
  imports Scenario_Mode Listener_Correct Call_Correct
begin

text \<open>
  Where a message that was read goes (\<^verbatim>\<open>process_message\<close> of \<^verbatim>\<open>socket.cpp\<close>): to the call that listens for its Call-ID, to a call that waits
  for a dialog, to a new call, or nowhere. What the function does is a list of effects, in their order; what a call does with a message is in
  \<open>Call_Incoming\<close> and \<open>Call_Run\<close>. Traces of messages are left out.
\<close>

text \<open>What a socket is to the program.\<close>

record roles =
  is_main :: bool
  is_multiplex :: bool
  is_twin :: bool
  is_local_twin :: bool
  is_local :: bool
  is_peer :: bool

datatype which_scenario = Main_scenario | Rx_scenario | Ooc_scenario | Aa_scenario

text \<open>The socket that a call for a message gets: that of the message, one of the program, or none yet.\<close>

datatype use_socket = This_socket | Main_socket | Multiplex_socket | No_socket

datatype 'l target = To 'l | To_new

datatype 'l effect =
    Not_sip
  | Keepalive
  | No_call_id
  | Stat which_scenario e_action
  | Global e_action
  | Dialog_taken 'l int string
  | New_call which_scenario string use_socket
  | Outbound_free
  | Out_of_call
  | Unmapped
  | Deliver "'l target"
  | Deliver_twin "'l target"
  | End_if_done which_scenario

text \<open>\<open>Outbound_free\<close> is the end of the congestion of calls that are made; \<open>End_if_done\<close> counts and deletes a call that took its message.\<close>

text \<open>A call that waits for a request that starts a dialog is there with its environment and its state.\<close>

record ('l, 'd) program =
  p_hash :: hash_fun
  p_table :: "'l listener_table"
  new_dialog_calls :: "('l \<times> 'd call_env \<times> call) list"
  p_main :: "'d call_env"
  p_rx :: "'d call_env"
  ooc_scenario :: bool
  p_creation :: sipp_mode
  p_third_party :: third_party_mode
  quitting :: bool
  p_multisocket :: bool
  p_udp :: bool
  p_multiplex :: bool

definition sipMsgCheck :: "roles \<Rightarrow> string \<Rightarrow> bool" where
  "sipMsgCheck r msg \<longleftrightarrow> is_twin r \<or> is_local_twin r \<or> is_peer r \<or> is_local r \<or> find_sub ''SIP/2.0'' (c_str msg) \<noteq> None"

definition is_auto_answered :: "bool \<Rightarrow> string \<Rightarrow> bool" where
  "is_auto_answered aa msg \<longleftrightarrow> aa \<and> (\<exists>m \<in> {''INFO'', ''NOTIFY'', ''OPTIONS'', ''UPDATE''}. take (length m + 1) (c_str msg) = m @ [SP])"

section \<open>A call that waits for a dialog\<close>

fun new_dialog_loop :: "'d call_env \<Rightarrow> call \<Rightarrow> call_dialogs \<Rightarrow> string \<Rightarrow> 'd message list \<Rightarrow> int res" where
  "new_dialog_loop env c ds request [] = Inr 0"
| "new_dialog_loop env c ds request (m # ms) =
     (if recv_request m \<noteq> None then
        bindE (msgDialog c m) (\<lambda>n.
          if \<not> dialogKnown ds n \<and> matchesRequest env m request then Inr n
          else if m_optional m = OPTIONAL_FALSE then Inr 0 else new_dialog_loop env c ds request ms)
      else if m_optional m = OPTIONAL_FALSE then Inr 0 else new_dialog_loop env c ds request ms)"

definition newDialogFor :: "'d call_env \<Rightarrow> call \<Rightarrow> string \<Rightarrow> int res" where
  "newDialogFor env c msg =
     (case strchr (c_str msg) SP of
        None \<Rightarrow> Inr 0
      | Some end' \<Rightarrow>
          let request = upto_ptr (c_str msg) end'
          in if pastLastMessage env c \<or> get_reply_code (c_str msg) \<noteq> 0 \<or> length request \<ge> 65 then Inr 0
             else case dialogs c of
               None \<Rightarrow> Inl Undefined
             | Some ds \<Rightarrow> new_dialog_loop env c ds request (drop (nat (msg_index c)) (msgs env)))"

fun take_new_dialog :: "('l \<times> 'd call_env \<times> call) list \<Rightarrow> string \<Rightarrow> ('l \<times> int) option res" where
  "take_new_dialog [] msg = Inr None"
| "take_new_dialog ((l, env, c) # cs) msg =
     bindE (newDialogFor env c msg) (\<lambda>n. if n \<noteq> 0 then Inr (Some (l, n)) else take_new_dialog cs msg)"

section \<open>Who listens\<close>

definition look_up :: "('l, 'd) program \<Rightarrow> string \<Rightarrow> 'l option res" where
  "look_up p k = (case get_listener (p_hash p) (p_table p) k of None \<Rightarrow> Inl Undefined | Some l \<Rightarrow> Inr l)"

text \<open>A dialog of a call can have a Call-ID with slashes of its own, so that the whole Call-ID is looked up first.\<close>

definition find_listener :: "('l, 'd) program \<Rightarrow> string \<Rightarrow> string \<Rightarrow> 'l option res" where
  "find_listener p call_id full =
     bindE (if length call_id \<noteq> length full then look_up p full else Inr None) (\<lambda>l.
       if l = None then look_up p call_id else Inr l)"

section \<open>A message that belongs to no call\<close>

definition passive_mode :: "third_party_mode \<Rightarrow> bool" where
  "passive_mode t \<longleftrightarrow> t = MODE_3PCC_CONTROLLER_B \<or> t = MODE_3PCC_A_PASSIVE \<or> t = MODE_MASTER_PASSIVE \<or> t = MODE_SLAVE"

definition out_of_call :: "('l, 'd) program \<Rightarrow> string \<Rightarrow> bool" where
  "out_of_call p msg \<longleftrightarrow>
     p_creation p \<noteq> MODE_CLIENT \<and> \<not> startsWith (if p_creation p = MODE_SERVER then p_main p else p_rx p) (c_str msg) \<and>
     (get_reply_code (c_str msg) \<noteq> 0 \<or> ooc_scenario p \<or> is_auto_answered (auto_answer (p_main p)) msg)"

definition call_socket :: "('l, 'd) program \<Rightarrow> roles \<Rightarrow> use_socket" where
  "call_socket p r =
     (if \<not> is_main r \<and> \<not> is_multiplex r \<and> \<not> is_local_twin r \<and> \<not> is_twin r \<and> \<not> is_local r then This_socket
      else if p_multisocket p then No_socket
      else if p_udp p then Main_socket
      else if p_multiplex p then Multiplex_socket else No_socket)"

text \<open>The effects, and whether a new call takes the message after them.\<close>

definition no_listener :: "('l, 'd) program \<Rightarrow> roles \<Rightarrow> string \<Rightarrow> string \<Rightarrow> 'l effect list \<times> bool" where
  "no_listener p r call_id msg =
     (if passive_mode (p_third_party p) then
        ([Stat Main_scenario E_CREATE_OUTGOING_CALL, New_call Main_scenario call_id (call_socket p r), Outbound_free], True)
      else if \<not> out_of_call p msg \<and> p_creation p = MODE_SERVER then
        (if quitting p then ([Global E_OUT_OF_CALL_MSGS], False)
         else ([Stat Main_scenario E_CREATE_INCOMING_CALL, New_call Main_scenario call_id This_socket], True))
      else if \<not> out_of_call p msg \<and> p_creation p = MODE_MIXED then
        ([Stat Rx_scenario E_CREATE_INCOMING_CALL, New_call Rx_scenario call_id This_socket], True)
      else if ooc_scenario p then
        (if get_reply_code (c_str msg) = 0 then
           ([Stat Ooc_scenario E_CREATE_INCOMING_CALL, Out_of_call, New_call Ooc_scenario call_id This_socket, Global E_AUTO_ANSWERED, Deliver To_new], False)
         else ([Global E_OUT_OF_CALL_MSGS], False))
      else if is_auto_answered (auto_answer (p_main p)) msg then
        ([Stat Aa_scenario E_CREATE_INCOMING_CALL, New_call Aa_scenario call_id This_socket, Deliver To_new, End_if_done Aa_scenario], False)
      else ([Global E_OUT_OF_CALL_MSGS, Unmapped], False))"

section \<open>One message\<close>

definition process_message :: "('l, 'd) program \<Rightarrow> roles \<Rightarrow> string \<Rightarrow> 'l effect list res" where
  "process_message p r msg =
     (if msg = [] then Inr []
      else if \<not> sipMsgCheck r msg then Inr [if msg = CRLF @ CRLF \<or> msg = [NUL, NUL, NUL, NUL] then Keepalive else Not_sip]
      else
        let full = get_call_id (c_str msg); call_id = get_trimmed_call_id (callidSlash (p_main p)) (c_str msg);
            twin = is_local_twin r \<or> is_twin r \<or> is_local r; deliver = (\<lambda>t. if twin then Deliver_twin t else Deliver t)
        in if call_id = [] then Inr [No_call_id]
           else bindE (find_listener p call_id full) (\<lambda>l.
             case l of
               Some x \<Rightarrow> Inr [deliver (To x)]
             | None \<Rightarrow>
                 bindE (if twin then Inr None else take_new_dialog (new_dialog_calls p) msg) (\<lambda>d.
                   case d of
                     Some (x, n) \<Rightarrow> Inr [Dialog_taken x n full, deliver (To x)]
                   | None \<Rightarrow> (case no_listener p r call_id msg of (es, made) \<Rightarrow> Inr (if made then es @ [deliver To_new] else es)))))"

section \<open>The call that listens gets the message\<close>

lemma trimmed_length: "length (get_trimmed_call_id b m) \<le> length (get_call_id m)"
  by (auto simp: get_trimmed_call_id_def Let_def split: option.split)

lemma trimmed_same: "length (get_trimmed_call_id b m) = length (get_call_id m) \<Longrightarrow> get_trimmed_call_id b m = get_call_id m"
  by (auto simp: get_trimmed_call_id_def Let_def split: option.splits if_splits dest: find_sub_le)

text \<open>
  C6: After any sequence of starts and stops of listening, a SIP message goes to the call that listens for its Call-ID, the whole one first and then
  what is behind the slashes, and does nothing else: no call is made and nothing is counted.
\<close>

theorem message_reaches_its_call:
  assumes "legal_run key_ok (key_step dead) ops Map.empty" and "run_res (table_step (p_hash p) dead) ops (\<lambda>_. empty_part) = Inr (p_table p)"
    and "msg \<noteq> []" and "sipMsgCheck r msg" and "get_trimmed_call_id (callidSlash (p_main p)) (c_str msg) \<noteq> []"
    and "length (get_call_id (c_str msg)) < 2 ^ 32"
    and "fold (key_step dead) ops Map.empty (get_call_id (c_str msg)) = Some x \<or>
      fold (key_step dead) ops Map.empty (get_call_id (c_str msg)) = None \<and>
      fold (key_step dead) ops Map.empty (get_trimmed_call_id (callidSlash (p_main p)) (c_str msg)) = Some x"
  shows "process_message p r msg = Inr [if is_local_twin r \<or> is_twin r \<or> is_local r then Deliver_twin (To x) else Deliver (To x)]"
proof -
  let ?full = "get_call_id (c_str msg)"
  let ?id = "get_trimmed_call_id (callidSlash (p_main p)) (c_str msg)"
  let ?m = "fold (key_step dead) ops Map.empty"
  obtain T where "run_res (table_step (p_hash p) dead) ops (\<lambda>_. empty_part) = Inr T" "table_rel (p_hash p) ?m T"
    using tab.run_sim [OF table_rel_init assms(1), of "p_hash p"] by blast
  then have rel: "table_rel (p_hash p) ?m (p_table p)" using assms(2) by simp
  have look: "look_up p k = Inr (?m k)" if "length k < 2 ^ 32" for k
    using rel get_listener_map that by (fastforce simp: table_rel_def look_up_def)
  have len: "length ?id < 2 ^ 32" using trimmed_length assms(6) le_less_trans by blast
  have "find_listener p ?id ?full = Inr (Some x)"
  proof (cases "length ?id = length ?full")
    case True
    then show ?thesis using trimmed_same [OF True] look [OF len] assms(7) by (auto simp: find_listener_def)
  next
    case False
    then show ?thesis using look [OF len] look [OF assms(6)] assms(7) by (auto simp: find_listener_def)
  qed
  then show ?thesis using assms(3-5) by (simp add: process_message_def Let_def)
qed

definition invite :: string where
  "invite = ''INVITE sip:a SIP/2.0'' @ CRLF @ ''Call-ID: x///1@a'' @ CRLF @ CRLF"

definition sample_program :: "nat listener_table \<Rightarrow> (nat, int) program" where
  "sample_program t =
     \<lparr>p_hash = \<lambda>_. 7, p_table = t, new_dialog_calls = [], p_main = plain_env (plain_scenario []) 0, p_rx = plain_env (plain_scenario []) 0,
      ooc_scenario = False, p_creation = MODE_SERVER, p_third_party = MODE_3PCC_NONE, quitting = False, p_multisocket = False, p_udp = True,
      p_multiplex = False\<rparr>"

definition plain_socket :: roles where
  "plain_socket = \<lparr>is_main = True, is_multiplex = False, is_twin = False, is_local_twin = False, is_local = False, is_peer = False\<rparr>"

lemma invite_read: "invite \<noteq> []" "sipMsgCheck plain_socket invite" "get_call_id (c_str invite) = ''x///1@a''"
  "get_trimmed_call_id False (c_str invite) = ''1@a''"
  by code_simp+

lemma sample_parts [simp]: "callidSlash (p_main (sample_program t)) = False" "p_hash (sample_program t) = (\<lambda>_. 7)" "p_table (sample_program t) = t"
  by (simp_all add: sample_program_def plain_env_def)

theorem message_reaches_its_call_witness:
  "\<exists>t. run_res (table_step (\<lambda>_. 7) (\<lambda>n :: nat. False)) [Listen 1 ''1@a'', Listen 2 ''b''] (\<lambda>_. empty_part) = Inr t \<and>
    process_message (sample_program t) plain_socket invite = Inr [Deliver (To 1)]"
proof -
  have legal: "legal_run key_ok (key_step (\<lambda>n :: nat. False)) [Listen 1 ''1@a'', Listen 2 ''b''] Map.empty" by (simp add: set_key_def)
  obtain t where t: "run_res (table_step (\<lambda>_. 7) (\<lambda>n :: nat. False)) [Listen 1 ''1@a'', Listen 2 ''b''] (\<lambda>_. empty_part) = Inr t"
    using tab.run_sim [OF table_rel_init legal, of "\<lambda>_. 7"] by blast
  have "process_message (sample_program t) plain_socket invite =
    Inr [if is_local_twin plain_socket \<or> is_twin plain_socket \<or> is_local plain_socket then Deliver_twin (To 1) else Deliver (To 1)]"
  proof (rule message_reaches_its_call [OF legal])
    show "run_res (table_step (p_hash (sample_program t)) (\<lambda>n. False)) [Listen 1 ''1@a'', Listen 2 ''b''] (\<lambda>_. empty_part) = Inr (p_table (sample_program t))"
      using t by (simp only: sample_parts)
  qed (simp_all add: invite_read set_key_def)
  then have "process_message (sample_program t) plain_socket invite = Inr [Deliver (To 1)]" by (simp add: plain_socket_def)
  with t show ?thesis by blast
qed

section \<open>Calls that a message makes\<close>

fun made :: "'l effect list \<Rightarrow> which_scenario list" where
  "made [] = []"
| "made (New_call w i s # es) = w # made es"
| "made (_ # es) = made es"

fun counted_created :: "'l effect list \<Rightarrow> which_scenario list" where
  "counted_created [] = []"
| "counted_created (Stat w a # es) = (if a = E_CREATE_INCOMING_CALL \<or> a = E_CREATE_OUTGOING_CALL then [w] else []) @ counted_created es"
| "counted_created (_ # es) = counted_created es"

fun to_new :: "'l effect list \<Rightarrow> nat" where
  "to_new [] = 0"
| "to_new (e # es) = of_bool (e = Deliver To_new \<or> e = Deliver_twin To_new) + to_new es"


lemma new_call_for_invite:
  "process_message (sample_program (\<lambda>_. empty_part)) plain_socket invite =
    Inr [Stat Main_scenario E_CREATE_INCOMING_CALL, New_call Main_scenario ''1@a'' This_socket, Deliver To_new]"
proof -
  have "look_up (sample_program (\<lambda>_. empty_part)) k = Inr None" if "length k < 2 ^ 32" for k
    using that by (simp add: look_up_def get_listener_map table_ok_init table_map_init)
  then have "find_listener (sample_program (\<lambda>_. empty_part)) ''1@a'' ''x///1@a'' = Inr None" by (simp add: find_listener_def)
  moreover have "startsWith (p_main (sample_program (\<lambda>_. empty_part))) (c_str invite)"
    by (simp add: startsWith_def sample_program_def plain_env_def plain_scenario_def)
  ultimately show ?thesis using invite_read
    by (simp add: process_message_def Let_def no_listener_def passive_mode_def out_of_call_def plain_socket_def)
      (simp add: sample_program_def)
qed


end
