(* ===== verification/Spec2Isabelle.thy ===== *)
theory Spec2Isabelle
  imports Task_Refinement Listener_Correct Url_Strings Websocket_Handshake Sip_Messages
    Infile_Correct Variables_Correct Xp_Correct Stat_Correct Auth_Correct Message_Correct
    Call_Text_Correct Call_Matching Call_Retrans Call_Findings Call_Users Scenario_Findings Socket_Delivery
    Socket_Written Socket_Pool_Correct Socket_Owners Socket_Dispatch
begin

text \<open>
  Verification of SIPp, a generator of SIP traffic.

  \<^bold>\<open>The program.\<close> SIPp reads a scenario, an XML document of messages to send and expect, and runs many calls
  of it at once in one thread. Each call is a task. A call runs until it has nothing to do, then pauses until its
  wake time; the scheduler keeps the paused tasks in a time wheel and runs those that are due. The call
  generator is a task that opens calls, at a rate or one per user. Messages come in from sockets, are read
  by the SIP parser, and go to the call that listens for their Call-ID in the listener table. A call fills the messages it
  sends from variables, from the lines of injection files and with credentials, and counts what happens in the
  statistics.

  \<^bold>\<open>Conventions.\<close> \<open>Sipp_Prelude\<close> has the failures of the C++ code: a failed assertion, an exit through
  \<^verbatim>\<open>ERROR\<close>, and an access the language gives no meaning to, each a value of \<open>cpp_error\<close>. An operation that can
  fail returns \<open>cpp_error + 'a\<close>, and its correctness includes that it does not. The prelude also has the two locales the
  components share: \<open>simulation\<close>, an implementation whose every legal step follows a specification, and
  \<open>invariant\<close>, a predicate that every step keeps. Both are interpreted on the operations of the components.
  \<open>C_Strings\<close> models what the source uses of the C library for text. \<open>State_Ops\<close> has operations on a state that can fail, in which the calls
  and the building of scenarios are written, with locales for a relation between the states before and after (\<open>step_relation\<close>) and for a
  condition on the state after that held all along (\<open>traced_back\<close>). Machine integers are words where
  wrap-around matters and numbers with the bounds written out elsewhere. What the source takes from
  elsewhere is an argument of the definitions: hash functions, the SSL library, the XML parser, random numbers, the clock, and
  the results of floating point arithmetic.

  \<^bold>\<open>The components\<close>, in the order of the theories. Names of definitions are those of the source where
  they can be; parts of a long function have a name of their own.

  \<^item> Scheduler (\<^verbatim>\<open>task.cpp\<close>): \<open>Task_Scheduler\<close> has the task list, the run queue with its mark and
    the wheel of three levels, with every operation on them. \<open>Timewheel_Order\<close> relates the wheel to one list of paused
    tasks in the order they were paused; \<open>Task_Refinement\<close> shows that expiring runs exactly the tasks that are due,
    in order (C10), that every legal sequence of operations does what the scheduler with one list does (C11), that no wake
    time is out of range (C12) and that aborting ends with nothing left (C13); \<open>pause_order_lost_at_boundary\<close> is the one case where the order of equal wake
    times is not kept.
  \<^item> Listener table (\<^verbatim>\<open>listener.cpp\<close>): \<open>Listener_Table\<close> has the parts of open addressing slots, their growth
    and their removal by shifting back. \<open>Open_Addressing\<close> is the theory of such a table on natural
    numbers; \<open>Listener_Correct\<close> carries it over to the 32 bit slots of the source: the table is a finite map (C14), used by objects that
    start and stop listening (\<open>start_stop_listening\<close>). The loops have as fuel the number of slots, and the proofs show that it is enough.
  \<^item> Text (\<^verbatim>\<open>urlcoder.cpp\<close>, \<^verbatim>\<open>strings.cpp\<close>): \<open>Url_Strings\<close>, round trips of the URL coder and of host and port
    splitting (the first is C15), and wrapping, which keeps the text.
  \<^item> WebSocket (\<^verbatim>\<open>websocket.cpp\<close>): \<open>Websocket\<close> has the framing and the handshake of a connection. \<open>Websocket_Frames\<close>
    shows that a frame is read as it was written, \<open>Websocket_Stream\<close> that a connection makes progress and depends on the
    bytes alone, \<open>Utf8\<close> that its check of text is the definition of UTF-8 (C17), and \<open>Websocket_Handshake\<close> that two ends open a
    connection (C18), that messages arrive whole and in order (C19) however the bytes are cut (C20), and that no
    input takes a connection past its limits (C21).
  \<^item> SIP parser (\<^verbatim>\<open>sip_parser.cpp\<close>): \<open>Sip_Parser\<close> has the reading of headers, on positions in the message. \<open>Sip_Headers\<close>
    shows that no reading leaves the message and that the quick reading in place agrees with the general one (C22), \<open>Sip_Messages\<close>
    that on a message of lines the general one gives the values of the header (C23), and that numbers are read as \<^verbatim>\<open>atol\<close>
    reads them.
  \<^item> Injection files (\<^verbatim>\<open>infile.cpp\<close>): \<open>Infile\<close>, \<open>Infile_Correct\<close>. Fields (\<open>getField_is_field\<close>), the invariant of a file with
    its index (C24), lookups (C25) and changes of lines (C26); PRINTF files can not be indexed (\<open>index_printf_fails\<close>); printed
    fields read back.
  \<^item> Variables (\<^verbatim>\<open>variables.cpp\<close>): \<open>Variables\<close> has the tables as a store of objects with levels and reference
    counts. \<open>Variables_Correct\<close>: names and numbers correspond (C27), clients that follow the counting never touch a freed
    table and leave none behind (C28), and a variable reads as it was last set (\<open>variable_reads_last_set\<close>).
  \<^item> Scenario reader (\<^verbatim>\<open>xp_parser.cpp\<close>): \<open>Xp_Parser\<close>, \<open>Xp_Correct\<close>. Includes (C29, C30), the cursor (C31) and
    attribute values (\<open>get_value_unescapes\<close>). The nesting limit of the source makes the expansion end.
  \<^item> Statistics (\<^verbatim>\<open>stat.cpp\<close>): \<open>Stat\<close>, \<open>Stat_Correct\<close>. Counters and resets (C32, \<open>reset_loses_current_calls\<close>), repartition tables
    (C33) and named counters.
  \<^item> Authentication (\<^verbatim>\<open>auth.cpp\<close>, \<^verbatim>\<open>milenage.c\<close>): \<open>Milenage\<close> has the key functions and shows that they are those of
    the standard; \<open>Auth\<close> has the parameters of a header, the choice of a challenge, the response and its check.
    \<open>Auth_Correct\<close>: what is made is accepted (C34), and an AKA challenge is checked as the standard says (C35).
  \<^item> Message templates (\<^verbatim>\<open>message.cpp\<close>): \<open>Message_Template\<close> parses the text of a message into literals and keywords with
    their parameters; \<open>Message_Correct\<close>: a template that is written from its parts is parsed into them (C16).
  \<^item> Calls (\<^verbatim>\<open>call.cpp\<close>, \<^verbatim>\<open>call.hpp\<close>, \<^verbatim>\<open>actions.cpp\<close>, the messages of \<^verbatim>\<open>scenario.hpp\<close>): \<open>Call_Text\<close> has what calls do with
    text: Call-IDs, SDP, routes and the hash that finds retransmissions, which \<open>Call_Text_Correct\<close> shows to be the plain one
    (\<open>sdbm_hash_by_char\<close>). \<open>Call_State\<close> has the messages of a scenario, the actions and the call as records, and the world of a
    call: the call, while it is there, the tables of variables, the injection files, the counters of the messages and
    the trace of what happened. An operation takes the world and gives its result with the new world, or a failure.
    \<open>Call_Ops\<close> has sending, ending, aborting and the timers, \<open>Call_Actions\<close> the actions, \<open>Call_Incoming\<close> the
    processing of a received message and \<open>Call_Run\<close> the running of the scenario, commands of the twin and the start of a call.
    What the sockets, the clock, the random numbers, the media and the filled templates give is the record \<open>outside\<close>, whose
    fields take the number of the question. \<open>run\<close> and \<open>process_incoming\<close> call each other; the model bounds the depth, and every
    theorem holds at every bound.
    \<open>Call_Counted\<close> goes through all operations and counts ends; \<open>Call_Correct\<close>: a call that ends is counted once (C1).
    \<open>Call_Retrans\<close>: a message without an answer is sent again as often as allowed and then the call
    ends (C2). \<open>Call_Matching\<close>: which message of the scenario a received one is taken for (C3).
    \<open>Call_Findings\<close> has what the code does against its intention (\<open>unexpected_overflows\<close> and the lemmas beside it).
  \<^item> Scenario (\<^verbatim>\<open>scenario.cpp\<close>, \<^verbatim>\<open>scenario.hpp\<close>): \<open>Scenario_Text\<close> has numbers, times, lists of names and the cleaning of
    texts, \<open>Scenario_Load\<close> the state of a scenario that is being built and the attributes, transactions and distributions,
    \<open>Scenario_Actions\<close> the actions, and \<open>Scenario_Build\<close> the messages, the other elements, the labels and the checks. The document is
    behind the cursor of \<open>Xp_Parser\<close>. The loops over elements are bounded by the children of the current node, and
    \<open>Scenario_Quiet\<close> shows that every part returns with the cursor where it was, so that the bound is never met (C40).
    \<open>Scenario_Correct\<close> has the invariant of the building, and \<open>Scenario_Run\<close> what it means for calls: a scenario that loads is one a
    call can run (C4), and the steps of the call stay in it (C5). \<open>Scenario_Mode\<close> has the mode of
    the program (\<open>sipp_mode_of_first\<close>), the message that begins a call and the addresses of peers; \<open>Scenario_Findings\<close> has documents
    that load and do not do what they say.
  \<^item> Sockets (\<^verbatim>\<open>socket.cpp\<close>): \<open>Socket_Input\<close> has the chain of buffers of what came in, the search for a whole message in
    them and the reading of messages. \<open>Socket_Framing\<close> shows that the search depends on the bytes that were not read alone, however the buffers
    cut them, \<open>Socket_Stream\<close> that it finds a message that was written with its length and nothing in a part of one, and \<open>Socket_Delivery\<close>
    that the messages of a TCP or TLS connection come out as they were sent (C8), all of them (\<open>tcp_reads_all\<close>), with the
    lengths for which the code does something else. \<open>Socket_Output\<close> has writing: the buffers of what the system did not take, congestion, errors
    and the frames of a WebSocket. \<open>Socket_Written\<close>: messages go out whole, once and in order (C9), and what waits goes
    out once the system takes it (\<open>writable_writes_all\<close>). \<open>Socket_Pool\<close> has the array of the sockets that are polled and the choice of a
    socket for a call; \<open>Socket_Pool_Correct\<close>: every socket is at its index (C37), and calls share a socket that
    fits (C38), unless the search starts behind the array (\<open>stale_index_reached\<close>).
    \<open>Socket_Dispatch\<close> has where a message goes: it composes the listener table, the SIP parser, the start of the scenario and the
    calls. A message reaches the call that listens for it (C6) and makes at most one call, which is counted (C7).
  \<^item> Socket owners (\<^verbatim>\<open>socketowner.cpp\<close>): \<open>Socket_Owners\<close>, the table of the calls that use a socket; it is the inverse of the socket of
    each call, and its assertions hold (C39).
  \<^item> Call generation (\<^verbatim>\<open>call_generation_task.cpp\<close>): \<open>Call_Generation\<close> has the task, its users and its rate, over
    the counters of \<open>Stat\<close>. \<open>Call_Users\<close>: users are not shared while their number is not lowered (C36), and are when it is
    lowered and raised again (\<open>lowered_users_shared\<close>).

  \<^bold>\<open>How the components meet.\<close> The scheduler's wake times are the \<^verbatim>\<open>wake\<close> of its tasks, a parameter of its model; the call
  generator's is \<open>gen_wake\<close>. The call generator reads and writes the counters of the statistics through \<open>computeStat\<close> and
  \<open>GetStat\<close>, and its invariant rests on what is proved of the current calls there. The parsers, the coder and the
  authentication share \<open>C_Strings\<close>.

  A call reads and writes variables through \<open>Variables\<close> and injection files through \<open>Infile\<close>, parses with \<open>Sip_Parser\<close>, checks
  credentials with \<open>Auth\<close>, and its messages are those that \<open>Scenario_Build\<close> makes of the document, with the templates that
  \<open>Message_Template\<close> parses; what it counts are the
  actions of \<open>Stat\<close>.

  \<^bold>\<open>Not modelled.\<close> Of calls, the filling of templates, the choice of sockets and destinations and the media streams set up
  from an SDP; of scenarios, what is only displayed. Sockets, TLS, name resolution, media and SRTP
  are system calls, threads and ciphers; screens, logs and the main program are input and output. Of the
  statistics, the files that are written and the averages in floating point are left out.
\<close>

end
